(* ===== verification/Prelude.thy ===== *)
theory Prelude
  imports Main "HOL-Library.Word" "HOL-Library.AList"
begin

text \<open>
  Shared vocabulary of the development.  Go's fixed-width integers are mathematical
  numbers whose wrap-around is written out (\<open>u32\<close>, \<open>u64\<close>, \<open>i64\<close>); a byte is an
  \<open>8 word\<close>, so a buffer is a list of bytes whose entries are bounded by their type.  Go's
  \<open>error\<close> values are the datatype \<open>gerror\<close>: a sentinel created once by
  \<open>errors.New\<close>, or a value built by \<open>fmt.Errorf\<close>, kept as its format and its
  arguments.  No format of the modelled packages uses \<open>%w\<close>, so such a value does not
  wrap its arguments.
\<close>

section \<open>Collections of lemmas\<close>

named_theorems wrap_simps \<open>wrap-around of machine integers\<close>
named_theorems codec_simps \<open>decoding of integers from byte buffers\<close>

section \<open>Machine integers\<close>

type_synonym byte = "8 word"

definition u8 :: "nat \<Rightarrow> nat" where
  "u8 n = n mod 2 ^ 8"

definition u16 :: "nat \<Rightarrow> nat" where
  "u16 n = n mod 2 ^ 16"

definition u32 :: "nat \<Rightarrow> nat" where
  "u32 n = n mod 2 ^ 32"

definition u64 :: "nat \<Rightarrow> nat" where
  "u64 n = n mod 2 ^ 64"

text \<open>Conversion of any integer to \<open>int64\<close>: two's complement.\<close>

definition i64 :: "int \<Rightarrow> int" where
  "i64 z = (z + 2 ^ 63) mod 2 ^ 64 - 2 ^ 63"

text \<open>Unsigned subtraction wraps below zero.\<close>

definition sub64 :: "nat \<Rightarrow> nat \<Rightarrow> nat" where
  "sub64 a b = (a + 2 ^ 64 - b mod 2 ^ 64) mod 2 ^ 64"

text \<open>Go's integer division truncates towards zero, and the remainder has the dividend's sign.\<close>

definition tdiv :: "int \<Rightarrow> int \<Rightarrow> int" where
  "tdiv a b = sgn a * sgn b * (\<bar>a\<bar> div \<bar>b\<bar>)"

definition trem :: "int \<Rightarrow> int \<Rightarrow> int" where
  "trem a b = a - b * tdiv a b"

text \<open>Conversion of an \<open>int64\<close> to \<open>uint64\<close>.\<close>

definition u64_of_int :: "int \<Rightarrow> nat" where
  "u64_of_int z = nat (z mod 2 ^ 64)"

text \<open>
  \<open>make([]byte, n)\<close> panics for a negative length and for one above the address space of the
  runtime, which is \<open>2^48\<close> bytes on the 64-bit platforms.
\<close>

definition maxAlloc :: int where
  "maxAlloc = 2 ^ 48"

lemma u32_small [simp, wrap_simps]: "n < 2 ^ 32 \<Longrightarrow> u32 n = n"
  by (simp add: u32_def)

lemma u64_small [simp, wrap_simps]: "n < 2 ^ 64 \<Longrightarrow> u64 n = n"
  by (simp add: u64_def)

lemma u32_less [simp]: "u32 n < 2 ^ 32"
  by (simp add: u32_def)

lemma u64_less [simp]: "u64 n < 2 ^ 64"
  by (simp add: u64_def)

lemma i64_small [simp, wrap_simps]: "- (2 ^ 63) \<le> z \<Longrightarrow> z < 2 ^ 63 \<Longrightarrow> i64 z = z"
  by (simp add: i64_def)

lemma i64_bounds: "- (2 ^ 63) \<le> i64 z" "i64 z < 2 ^ 63"
  by (simp_all add: i64_def)

lemma u64_of_int_nonneg [simp, wrap_simps]:
  "0 \<le> z \<Longrightarrow> z < 2 ^ 64 \<Longrightarrow> u64_of_int z = nat z"
  by (simp add: u64_of_int_def)

lemma sub64_le [simp, wrap_simps]: "b \<le> a \<Longrightarrow> a < 2 ^ 64 \<Longrightarrow> sub64 a b = a - b"
proof -
  assume "b \<le> a" "a < 2 ^ 64"
  then have "a + 2 ^ 64 - b mod 2 ^ 64 = (a - b) + 2 ^ 64" by simp
  then show ?thesis using \<open>a < 2 ^ 64\<close> by (simp add: sub64_def)
qed

lemma tdiv_pos [simp]: "0 \<le> a \<Longrightarrow> 0 < b \<Longrightarrow> tdiv a b = a div b"
  by (cases "a = 0") (simp_all add: tdiv_def)

lemma trem_pos [simp]: "0 \<le> a \<Longrightarrow> 0 < b \<Longrightarrow> trem a b = a mod b"
  by (simp add: trem_def minus_mult_div_eq_mod)

section \<open>Errors\<close>

datatype sentinel =
    ErrEngineAlreadyRunning | ErrEngineClosed | ErrEngineNotStarted | ErrLockPathRequired
  | ErrTaskExists | ErrTaskNotFound | ErrCycleDetected | ErrDependencyFailed
  | ErrDependencyCancelled | ErrCancelled | ErrInvalidState
  | ErrInvalidTask | ErrInvalidProgress | ErrInvalidWatcher
  | ContextCanceled | ContextDeadlineExceeded | EOF_err
  | OtherErr nat

datatype gerror = Sentinel sentinel | Errorf string "farg list"
  and farg = FErr gerror | FStr string | FInt int

type_synonym 'a result = "gerror + 'a"

text \<open>\<open>errors.Is\<close> against a sentinel: without \<open>%w\<close> nothing is unwrapped.\<close>

definition errors_Is :: "gerror \<Rightarrow> sentinel \<Rightarrow> bool" where
  "errors_Is e s \<longleftrightarrow> e = Sentinel s"

text \<open>Sequencing of fallible computations, as Go's \<open>if err != nil { return err }\<close>.\<close>

definition bindR :: "'a result \<Rightarrow> ('a \<Rightarrow> 'b result) \<Rightarrow> 'b result" where
  "bindR r f = (case r of Inl e \<Rightarrow> Inl e | Inr x \<Rightarrow> f x)"

lemma bindR_simps [simp]: "bindR (Inl e) f = Inl e" "bindR (Inr x) f = f x"
  by (simp_all add: bindR_def)

lemma bindR_Inr_iff: "bindR r f = Inr y \<longleftrightarrow> (\<exists>x. r = Inr x \<and> f x = Inr y)"
  by (cases r) auto

section \<open>Association lists as Go maps\<close>

lemma map_of_AList_update [simp]: "map_of (AList.update k v al) = (map_of al)(k \<mapsto> v)"
  by (simp add: AList.update_conv')

lemma keys_AList_update:
  "map fst (AList.update k v al) = (if k \<in> set (map fst al) then map fst al else map fst al @ [k])"
  by (induction al) auto

lemma distinct_AList_update [simp]:
  "distinct (map fst al) \<Longrightarrow> distinct (map fst (AList.update k v al))"
  by (rule AList.distinct_update)

end
