(* ===== verification/BackupTask.thy ===== *)
theory BackupTask
  imports Prelude "HOL-Library.Sublist"
begin

text \<open>
  The data model of the package \<open>backup\<close>: task states and event kinds (\<open>state.go\<close>), tasks,
  watchers and their validation (\<open>task.go\<close>, \<open>watcher.go\<close>), progress values and the pause
  gate (\<open>progress.go\<close>), and the event hub (\<open>events.go\<close>).  Function values (a task's
  \<open>Work\<close>, a watcher's \<open>Check\<close>) are opaque references, \<open>None\<close> standing for \<open>nil\<close>:
  what they do is chosen by the environment when the engine calls them.  Durations and
  instants are nanosecond counts.
\<close>

section \<open>Task states and event kinds\<close>

datatype TaskState =
    StatePending | StateWaiting | StateRunning | StatePaused
  | StateCompleted | StateFailed | StateCancelled | StateTimedOut

fun TaskState_String :: "TaskState \<Rightarrow> string" where
  "TaskState_String StatePending = ''pending''"
| "TaskState_String StateWaiting = ''waiting''"
| "TaskState_String StateRunning = ''running''"
| "TaskState_String StatePaused = ''paused''"
| "TaskState_String StateCompleted = ''completed''"
| "TaskState_String StateFailed = ''failed''"
| "TaskState_String StateCancelled = ''cancelled''"
| "TaskState_String StateTimedOut = ''timedout''"

definition Terminal :: "TaskState \<Rightarrow> bool" where
  "Terminal s = (case s of
       StateCompleted \<Rightarrow> True | StateFailed \<Rightarrow> True
     | StateCancelled \<Rightarrow> True | StateTimedOut \<Rightarrow> True | _ \<Rightarrow> False)"

definition Success :: "TaskState \<Rightarrow> bool" where
  "Success s \<longleftrightarrow> s = StateCompleted"

datatype EventKind =
    EventSubmitted | EventStateChange | EventProgress | EventRetry | EventFinal

fun EventKind_String :: "EventKind \<Rightarrow> string" where
  "EventKind_String EventSubmitted = ''submitted''"
| "EventKind_String EventStateChange = ''state_change''"
| "EventKind_String EventProgress = ''progress''"
| "EventKind_String EventRetry = ''retry''"
| "EventKind_String EventFinal = ''final''"

datatype WatcherAction = ActionContinue | ActionCancel | ActionFail

fun WatcherAction_String :: "WatcherAction \<Rightarrow> string" where
  "WatcherAction_String ActionContinue = ''continue''"
| "WatcherAction_String ActionCancel = ''cancel''"
| "WatcherAction_String ActionFail = ''fail''"

section \<open>Tasks and watchers\<close>

type_synonym func_ref = nat

record Watcher =
  Interval :: int
  Check :: "func_ref option"
  Immediate :: bool

record Task =
  ID :: string
  Work :: "func_ref option"
  DependsOn :: "string list"
  Timeout :: int
  Retry :: int
  RetryBackoff :: int
  Watchers :: "Watcher list"

definition Watcher_validate :: "Watcher \<Rightarrow> gerror option" where
  "Watcher_validate w =
     (if Interval w \<le> 0 then Some (Sentinel ErrInvalidWatcher)
      else if Check w = None then Some (Sentinel ErrInvalidWatcher)
      else None)"

text \<open>The loop of \<open>Task.validate\<close> over the dependencies.\<close>

fun validate_deps :: "string \<Rightarrow> string list \<Rightarrow> gerror option" where
  "validate_deps tid [] = None"
| "validate_deps tid (d # ds) =
     (if d = '''' then
        Some (Errorf ''%v: %s: empty dependency ID'' [FErr (Sentinel ErrInvalidTask), FStr tid])
      else if d = tid then
        Some (Errorf ''%v: %s depends on itself'' [FErr (Sentinel ErrCycleDetected), FStr tid])
      else validate_deps tid ds)"

text \<open>The loop of \<open>Task.validate\<close> over the watchers, with its index.\<close>

fun validate_watchers :: "string \<Rightarrow> int \<Rightarrow> Watcher list \<Rightarrow> gerror option" where
  "validate_watchers tid i [] = None"
| "validate_watchers tid i (w # ws) =
     (case Watcher_validate w of
        Some e \<Rightarrow> Some (Errorf ''%v: %s: watcher %d'' [FErr e, FStr tid, FInt i])
      | None \<Rightarrow> validate_watchers tid (i + 1) ws)"

definition Task_validate :: "Task \<Rightarrow> gerror option" where
  "Task_validate t =
     (if ID t = '''' then Some (Errorf ''%v: empty ID'' [FErr (Sentinel ErrInvalidTask)])
      else if Work t = None then
        Some (Errorf ''%v: %s: nil Work'' [FErr (Sentinel ErrInvalidTask), FStr (ID t)])
      else if Timeout t < 0 then
        Some (Errorf ''%v: %s: negative Timeout'' [FErr (Sentinel ErrInvalidTask), FStr (ID t)])
      else if Retry t < 0 then
        Some (Errorf ''%v: %s: negative Retry'' [FErr (Sentinel ErrInvalidTask), FStr (ID t)])
      else if RetryBackoff t < 0 then
        Some (Errorf ''%v: %s: negative RetryBackoff'' [FErr (Sentinel ErrInvalidTask), FStr (ID t)])
      else case validate_deps (ID t) (DependsOn t) of
        Some e \<Rightarrow> Some e
      | None \<Rightarrow> validate_watchers (ID t) 0 (Watchers t))"

section \<open>Progress and the pause gate\<close>

record Progress =
  Percent :: int
  Message :: string
  UpdatedAt :: int

definition Progress_zero :: Progress where
  "Progress_zero = \<lparr>Percent = 0, Message = '''', UpdatedAt = 0\<rparr>"

text \<open>
  \<open>pauseGate\<close>: \<open>gate_ch\<close> names the current channel, \<open>gate_closed\<close> lists the channels
  that have been closed, \<open>gate_next\<close> names the next channel \<open>make\<close> will return.
\<close>

record pauseGate =
  gate_ch :: nat
  gate_closed :: "nat list"
  gate_next :: nat
  gate_paused :: bool

definition newPauseGate :: pauseGate where
  "newPauseGate = \<lparr>gate_ch = 0, gate_closed = [0], gate_next = 1, gate_paused = False\<rparr>"

text \<open>What \<open>waitCtx\<close> blocks on: a receive from a channel proceeds once it is closed.\<close>

definition gate_open :: "pauseGate \<Rightarrow> nat \<Rightarrow> bool" where
  "gate_open g ch \<longleftrightarrow> ch \<in> set (gate_closed g)"

definition gate_pause :: "pauseGate \<Rightarrow> bool \<times> pauseGate" where
  "gate_pause g =
     (if gate_paused g then (False, g)
      else (True, g\<lparr>gate_ch := gate_next g, gate_next := gate_next g + 1, gate_paused := True\<rparr>))"

definition gate_resume :: "pauseGate \<Rightarrow> bool \<times> pauseGate" where
  "gate_resume g =
     (if \<not> gate_paused g then (False, g)
      else (True, g\<lparr>gate_closed := gate_ch g # gate_closed g, gate_paused := False\<rparr>))"

definition gate_isPaused :: "pauseGate \<Rightarrow> bool" where
  "gate_isPaused g = gate_paused g"

text \<open>
  Well-formedness: the current channel is closed exactly when the gate is not paused (so
  \<open>resume\<close> never closes a closed channel, which would panic), and every earlier channel is
  closed (so no waiter of an earlier pause is left behind).
\<close>

definition gate_wf :: "pauseGate \<Rightarrow> bool" where
  "gate_wf g \<longleftrightarrow> gate_ch g < gate_next g
     \<and> (\<forall>c. c \<in> set (gate_closed g) \<longleftrightarrow> c < gate_next g \<and> (c = gate_ch g \<longrightarrow> \<not> gate_paused g))"

section \<open>Events and the event hub\<close>

record Event =
  Kind :: EventKind
  TaskID :: string
  EvState :: TaskState
  EvProgress :: Progress
  Attempt :: int
  Err :: "gerror option"
  EvTime :: int

text \<open>A composite literal \<open>Event{Kind: k, TaskID: t}\<close>: the other fields are zero.\<close>

definition mkEvent :: "EventKind \<Rightarrow> string \<Rightarrow> Event" where
  "mkEvent k t = \<lparr>Kind = k, TaskID = t, EvState = StatePending, EvProgress = Progress_zero,
                  Attempt = 0, Err = None, EvTime = 0\<rparr>"

record subscription =
  sub_ch :: "Event list"
  sub_cap :: nat
  sub_closed :: bool
  sub_drops :: nat

record eventHub =
  subs :: "(nat \<times> subscription) list"
  nextID :: nat

definition newEventHub :: eventHub where
  "newEventHub = \<lparr>subs = [], nextID = 0\<rparr>"

definition hub_subscribe :: "eventHub \<Rightarrow> int \<Rightarrow> nat \<times> eventHub" where
  "hub_subscribe h buffer =
     (let buffer' = (if buffer \<le> 0 then 64 else buffer);
          i = u64 (nextID h + 1);
          sub = \<lparr>sub_ch = [], sub_cap = nat buffer', sub_closed = False, sub_drops = 0\<rparr>
      in (i, h\<lparr>nextID := i, subs := AList.update i sub (subs h)\<rparr>))"

text \<open>
  The closure \<open>unsubscribe\<close> returned by \<open>subscribe\<close>: the channel is closed and the
  subscription leaves the map; a second call finds nothing.
\<close>

definition hub_unsubscribe :: "eventHub \<Rightarrow> nat \<Rightarrow> eventHub" where
  "hub_unsubscribe h i =
     (case map_of (subs h) i of
        Some s \<Rightarrow> h\<lparr>subs := AList.delete i (subs h)\<rparr>
      | None \<Rightarrow> h)"

text \<open>The body of the loop of \<open>publish\<close>: a send that never blocks.\<close>

definition deliver :: "Event \<Rightarrow> subscription \<Rightarrow> subscription" where
  "deliver ev s =
     (if sub_closed s then s
      else if length (sub_ch s) < sub_cap s then s\<lparr>sub_ch := sub_ch s @ [ev]\<rparr>
      else s\<lparr>sub_drops := u64 (sub_drops s + 1)\<rparr>)"

definition stamp :: "int \<Rightarrow> Event \<Rightarrow> Event" where
  "stamp now ev = (if EvTime ev = 0 then ev\<lparr>EvTime := now\<rparr> else ev)"

definition hub_publish :: "eventHub \<Rightarrow> int \<Rightarrow> Event \<Rightarrow> eventHub" where
  "hub_publish h now ev =
     h\<lparr>subs := map (\<lambda>(i, s). (i, deliver (stamp now ev) s)) (subs h)\<rparr>"

text \<open>A consumer's receive from its channel.\<close>

definition sub_recv :: "subscription \<Rightarrow> (Event \<times> subscription) option" where
  "sub_recv s = (case sub_ch s of [] \<Rightarrow> None | e # es \<Rightarrow> Some (e, s\<lparr>sub_ch := es\<rparr>))"

section \<open>Validation\<close>

lemma validate_deps_None_iff:
  "validate_deps tid ds = None \<longleftrightarrow> '''' \<notin> set ds \<and> tid \<notin> set ds"
  by (induction ds) auto

lemma Watcher_validate_None_iff:
  "Watcher_validate w = None \<longleftrightarrow> 0 < Interval w \<and> Check w \<noteq> None"
  by (auto simp: Watcher_validate_def)

lemma validate_watchers_None_iff:
  "validate_watchers tid i ws = None \<longleftrightarrow> (\<forall>w\<in>set ws. Watcher_validate w = None)"
  by (induction ws arbitrary: i) (auto split: option.splits)

lemma Task_validate_None_iff:
  "Task_validate t = None \<longleftrightarrow>
     ID t \<noteq> '''' \<and> Work t \<noteq> None \<and> 0 \<le> Timeout t \<and> 0 \<le> Retry t \<and> 0 \<le> RetryBackoff t
     \<and> '''' \<notin> set (DependsOn t) \<and> ID t \<notin> set (DependsOn t)
     \<and> (\<forall>w\<in>set (Watchers t). 0 < Interval w \<and> Check w \<noteq> None)"
  using validate_deps_None_iff [of "ID t" "DependsOn t"]
    validate_watchers_None_iff [of "ID t" 0 "Watchers t"]
  by (auto simp: Task_validate_def Watcher_validate_None_iff split: option.splits)

section \<open>The pause gate\<close>

lemma gate_wf_new: "gate_wf newPauseGate"
  by (auto simp: gate_wf_def newPauseGate_def)

lemma gate_wf_pause: "gate_wf g \<Longrightarrow> gate_wf (snd (gate_pause g))"
  by (cases "gate_paused g") (auto simp: gate_wf_def gate_pause_def less_Suc_eq)

lemma gate_wf_resume: "gate_wf g \<Longrightarrow> gate_wf (snd (gate_resume g))"
  by (cases "gate_paused g") (auto simp: gate_wf_def gate_resume_def)

lemma gate_open_iff:
  "gate_wf g \<Longrightarrow> gate_open g c \<longleftrightarrow> c < gate_next g \<and> (c = gate_ch g \<longrightarrow> \<not> gate_isPaused g)"
  by (simp add: gate_open_def gate_wf_def gate_isPaused_def)

section \<open>The event hub\<close>

text \<open>
  What one subscriber sees of a run of publications and receives: the events it received so
  far, and its subscription.
\<close>

datatype hub_op = Publish int Event | Receive

fun sub_step :: "Event list \<times> subscription \<Rightarrow> hub_op \<Rightarrow> Event list \<times> subscription" where
  "sub_step (rs, s) (Publish now ev) = (rs, deliver (stamp now ev) s)"
| "sub_step (rs, s) Receive =
     (case sub_recv s of None \<Rightarrow> (rs, s) | Some (e, s') \<Rightarrow> (rs @ [e], s'))"

fun published :: "hub_op list \<Rightarrow> Event list" where
  "published [] = []"
| "published (Publish now ev # ops) = stamp now ev # published ops"
| "published (Receive # ops) = published ops"

lemma published_append [simp]: "published (xs @ ys) = published xs @ published ys"
  by (induction xs rule: published.induct) auto

lemma hub_publish_lookup:
  "map_of (subs (hub_publish h now ev)) i = map_option (deliver (stamp now ev)) (map_of (subs h) i)"
  by (simp add: hub_publish_def map_of_map)

lemma deliver_closed [simp]: "sub_closed (deliver ev s) = sub_closed s"
  by (simp add: deliver_def)

lemma deliver_cap [simp]: "sub_cap (deliver ev s) = sub_cap s"
  by (simp add: deliver_def)

end
