(* ===== verification/BackupEngine.thy ===== *)
theory BackupEngine
  imports BackupTask
begin

text \<open>
  The operations of \<open>backup/engine.go\<close>, \<open>backup/handle.go\<close> and the reporter of
  \<open>backup/progress.go\<close>, each as the state change it makes while it holds the engine's
  mutex.  The engine's map of tasks is an association list; where the code ranges over the
  map, the order Go happens to choose is an argument.  A context is a number: it is done
  when it has been cancelled or the engine's context has.  \<open>clock\<close> is what
  \<open>time.Now\<close> returns, \<open>wake\<close> and \<open>stopCh\<close> are the scheduler's channels
  (\<open>None\<close> before \<open>Start\<close>), \<open>sem\<close> counts the occupied slots of
  \<open>workerSem\<close>, \<open>wg\<close> is the counter of the wait group.
\<close>

section \<open>Engine state\<close>

datatype RunMode = MultiInstance | ProcessMutex | HostSingleton

fun RunMode_String :: "RunMode \<Rightarrow> string" where
  "RunMode_String MultiInstance = ''multi-instance''"
| "RunMode_String ProcessMutex = ''process-mutex''"
| "RunMode_String HostSingleton = ''host-singleton''"

record options =
  mode :: RunMode
  lockPath :: string
  concurrency :: int
  eventBuffer :: int

type_synonym Option = "options \<Rightarrow> options"

definition WithMode :: "RunMode \<Rightarrow> Option" where
  "WithMode m = (\<lambda>o'. o'\<lparr>mode := m\<rparr>)"

definition WithLockPath :: "string \<Rightarrow> Option" where
  "WithLockPath path = (\<lambda>o'. o'\<lparr>lockPath := path\<rparr>)"

definition WithConcurrency :: "int \<Rightarrow> Option" where
  "WithConcurrency n = (\<lambda>o'. if n > 0 then o'\<lparr>concurrency := n\<rparr> else o')"

definition WithEventBuffer :: "int \<Rightarrow> Option" where
  "WithEventBuffer n = (\<lambda>o'. if n > 0 then o'\<lparr>eventBuffer := n\<rparr> else o')"

record taskItem =
  it_id :: string
  it_task :: Task
  it_state :: TaskState
  it_err :: "gerror option"
  it_progress :: Progress
  it_attempt :: int
  it_finished :: bool
  it_doneClosed :: bool
  it_gate :: pauseGate
  it_depsPending :: int
  it_dependents :: "string list"
  it_inFlight :: bool
  it_generation :: int
  it_taskCtx :: nat

record Engine =
  opts :: options
  hub :: eventHub
  items :: "(string \<times> taskItem) list"
  started :: bool
  closed :: bool
  engineCancelled :: bool
  cancelledCtxs :: "nat list"
  nextCtx :: nat
  stopCh :: "bool option"
  wake :: "bool option"
  sem :: int
  wg :: int
  lock :: "string option"
  procHeld :: bool
  released :: bool
  clock :: int

definition item :: "Engine \<Rightarrow> string \<Rightarrow> taskItem option" where
  "item e i = map_of (items e) i"

definition put :: "Engine \<Rightarrow> string \<Rightarrow> taskItem \<Rightarrow> Engine" where
  "put e i it = e\<lparr>items := AList.update i it (items e)\<rparr>"

definition ctxDone :: "Engine \<Rightarrow> nat \<Rightarrow> bool" where
  "ctxDone e c \<longleftrightarrow> engineCancelled e \<or> c \<in> set (cancelledCtxs e)"

definition cancelCtx :: "Engine \<Rightarrow> nat \<Rightarrow> Engine" where
  "cancelCtx e c = e\<lparr>cancelledCtxs := c # cancelledCtxs e\<rparr>"

definition isFinished :: "taskItem \<Rightarrow> bool" where
  "isFinished it = it_finished it"

section \<open>Run modes: the process flag and the host lock\<close>

text \<open>
  \<open>procRunning\<close> is the package variable \<open>processModeRunning\<close>; \<open>flocked\<close> holds the
  paths whose \<open>flock\<close> is held on this host.  What the file system answers for a path
  (\<open>MkdirAll\<close>, \<open>OpenFile\<close>, an unexpected \<open>Flock\<close> error) is a parameter.
\<close>

record Host =
  procRunning :: bool
  flocked :: "string list"

datatype lock_fs = MkdirFails gerror | OpenFails gerror | FlockFails gerror | LockReady

definition acquireFileLock :: "(string \<Rightarrow> lock_fs) \<Rightarrow> Host \<Rightarrow> string \<Rightarrow> Host result" where
  "acquireFileLock fs h path =
     (case fs path of
        MkdirFails e \<Rightarrow> Inl e
      | OpenFails e \<Rightarrow> Inl (Errorf ''backup: open lock file: %v'' [FErr e])
      | FlockFails e \<Rightarrow> Inl (Errorf ''backup: lock file: %v'' [FErr e])
      | LockReady \<Rightarrow>
          if path \<in> set (flocked h) then Inl (Sentinel ErrEngineAlreadyRunning)
          else Inr (h\<lparr>flocked := path # flocked h\<rparr>))"

definition Unlock :: "Host \<Rightarrow> string \<Rightarrow> Host" where
  "Unlock h path = h\<lparr>flocked := remove1 path (flocked h)\<rparr>"

definition newEngine :: "options \<Rightarrow> Engine" where
  "newEngine o' = \<lparr>opts = o', hub = newEventHub, items = [], started = False, closed = False,
     engineCancelled = False, cancelledCtxs = [], nextCtx = 0, stopCh = None, wake = None,
     sem = 0, wg = 0, lock = None, procHeld = False, released = False, clock = 0\<rparr>"

definition New :: "int \<Rightarrow> (string \<Rightarrow> lock_fs) \<Rightarrow> Host \<Rightarrow> Option list \<Rightarrow> Host \<times> Engine result" where
  "New numCPU fs h os =
     (let o' = foldl (\<lambda>a f. f a)
                 \<lparr>mode = MultiInstance, lockPath = '''', concurrency = numCPU, eventBuffer = 256\<rparr> os;
          e = newEngine o'
      in case mode o' of
           MultiInstance \<Rightarrow> (h, Inr e)
         | ProcessMutex \<Rightarrow>
             if procRunning h then (h, Inl (Sentinel ErrEngineAlreadyRunning))
             else (h\<lparr>procRunning := True\<rparr>, Inr (e\<lparr>procHeld := True\<rparr>))
         | HostSingleton \<Rightarrow>
             if lockPath o' = '''' then (h, Inl (Sentinel ErrLockPathRequired))
             else case acquireFileLock fs h (lockPath o') of
                    Inl er \<Rightarrow> (h, Inl er)
                  | Inr h' \<Rightarrow> (h', Inr (e\<lparr>lock := Some (lockPath o')\<rparr>)))"

definition releaseMode :: "Host \<Rightarrow> Engine \<Rightarrow> Host \<times> Engine" where
  "releaseMode h e =
     (if released e then (h, e)
      else let h1 = (case lock e of Some p \<Rightarrow> Unlock h p | None \<Rightarrow> h);
               h2 = (if procHeld e then h1\<lparr>procRunning := False\<rparr> else h1)
           in (h2, e\<lparr>released := True, lock := None, procHeld := False\<rparr>))"

section \<open>Starting, waking, finishing\<close>

definition Start :: "Engine \<Rightarrow> Engine result" where
  "Start e =
     (if closed e then Inl (Sentinel ErrEngineClosed)
      else if started e then Inr e
      else Inr (e\<lparr>engineCancelled := False, stopCh := Some False, wake := Some False,
                  wg := wg e + 1, started := True\<rparr>))"

definition publish :: "Engine \<Rightarrow> Event \<Rightarrow> Engine" where
  "publish e ev = e\<lparr>hub := hub_publish (hub e) (clock e) ev\<rparr>"

definition wakeLocked :: "Engine \<Rightarrow> Engine" where
  "wakeLocked e = (case wake e of None \<Rightarrow> e | Some _ \<Rightarrow> e\<lparr>wake := Some True\<rparr>)"

text \<open>The first half of \<open>finalizeLocked\<close>, up to its call of \<open>onTerminalLocked\<close>.\<close>

definition markFinal :: "Engine \<Rightarrow> string \<Rightarrow> taskItem \<Rightarrow> TaskState \<Rightarrow> gerror option \<Rightarrow> Engine" where
  "markFinal e i it st er =
     publish (cancelCtx
         (put e i (it\<lparr>it_finished := True, it_state := st, it_err := er, it_doneClosed := True\<rparr>))
         (it_taskCtx it))
       (mkEvent EventFinal i\<lparr>EvState := st, Err := er, EvProgress := it_progress it\<rparr>)"

definition depCancelledErr :: "string \<Rightarrow> gerror" where
  "depCancelledErr i =
     Errorf ''%v: dependency %q was cancelled'' [FErr (Sentinel ErrDependencyCancelled), FStr i]"

definition depFailedErr :: "string \<Rightarrow> gerror" where
  "depFailedErr i =
     Errorf ''%v: dependency %q failed'' [FErr (Sentinel ErrDependencyFailed), FStr i]"

text \<open>
  One round of the loop of \<open>onTerminalLocked\<close> for the dependent \<open>d\<close> of the task
  \<open>i\<close>, which ended in state \<open>st\<close>; \<open>fin\<close> is the recursive call of
  \<open>finalizeLocked\<close>.
\<close>

definition onTerminalStep ::
    "(Engine \<Rightarrow> string \<Rightarrow> TaskState \<Rightarrow> gerror option \<Rightarrow> Engine) \<Rightarrow> string \<Rightarrow> TaskState \<Rightarrow>
     Engine \<Rightarrow> string \<Rightarrow> Engine" where
  "onTerminalStep fin i st e d =
     (case item e d of
        None \<Rightarrow> e
      | Some dep \<Rightarrow>
          if it_inFlight dep then e
          else if it_finished dep then e
          else (case st of
                  StateCompleted \<Rightarrow>
                    if it_depsPending dep > 0
                    then put e d (dep\<lparr>it_depsPending := it_depsPending dep - 1\<rparr>) else e
                | StateCancelled \<Rightarrow> fin e d StateFailed (Some (depCancelledErr i))
                | _ \<Rightarrow> fin e d StateFailed (Some (depFailedErr i))))"

definition onTerminalLocked ::
    "(Engine \<Rightarrow> string \<Rightarrow> TaskState \<Rightarrow> gerror option \<Rightarrow> Engine) \<Rightarrow> string \<Rightarrow> TaskState \<Rightarrow>
     string list \<Rightarrow> Engine \<Rightarrow> Engine" where
  "onTerminalLocked fin i st deps e = foldl (onTerminalStep fin i st) e deps"

text \<open>
  \<open>finalizeLocked\<close> and \<open>onTerminalLocked\<close> call each other.  Each nested call finishes
  one more task, so the recursion is at most as deep as there are unfinished tasks: the
  first argument bounds the depth, and \<open>finalizeLocked\<close> below starts with enough.
\<close>

fun finalizeN ::
    "nat \<Rightarrow> Engine \<Rightarrow> string \<Rightarrow> TaskState \<Rightarrow> gerror option \<Rightarrow> Engine" where
  "finalizeN 0 e i st er = e"
| "finalizeN (Suc n) e i st er =
     (case item e i of
        None \<Rightarrow> e
      | Some it \<Rightarrow>
          if it_finished it then e
          else wakeLocked (onTerminalLocked (finalizeN n) i st (it_dependents it)
                             (markFinal e i it st er)))"

definition unfinished :: "Engine \<Rightarrow> nat" where
  "unfinished e = length (filter (\<lambda>(i, it). \<not> it_finished it) (items e))"

definition finalizeLocked :: "Engine \<Rightarrow> string \<Rightarrow> TaskState \<Rightarrow> gerror option \<Rightarrow> Engine" where
  "finalizeLocked e i st er = finalizeN (unfinished e) e i st er"

section \<open>Submitting\<close>

fun known_deps :: "Engine \<Rightarrow> string \<Rightarrow> string list \<Rightarrow> gerror option" where
  "known_deps e tid [] = None"
| "known_deps e tid (d # ds) =
     (case item e d of
        None \<Rightarrow> Some (Errorf ''%v: %s depends on unknown task %q''
                        [FErr (Sentinel ErrTaskNotFound), FStr tid, FStr d])
      | Some _ \<Rightarrow> known_deps e tid ds)"

text \<open>
  The registration loop of \<open>Submit\<close>: it appends the new task to each dependency's
  dependents, counts the unfinished ones and keeps the first failure.
\<close>

fun register_deps ::
    "string \<Rightarrow> string list \<Rightarrow> Engine \<times> int \<times> gerror option \<Rightarrow> Engine \<times> int \<times> gerror option" where
  "register_deps tid [] acc = acc"
| "register_deps tid (d # ds) (e, pending, depErr) =
     (case item e d of
        None \<Rightarrow> register_deps tid ds (e, pending, depErr)
      | Some dep \<Rightarrow>
          let e' = put e d (dep\<lparr>it_dependents := it_dependents dep @ [tid]\<rparr>) in
          if \<not> it_finished dep then register_deps tid ds (e', pending + 1, depErr)
          else if it_state dep = StateCompleted \<or> depErr \<noteq> None
               then register_deps tid ds (e', pending, depErr)
          else if it_state dep = StateCancelled
               then register_deps tid ds (e', pending, Some (depCancelledErr d))
          else register_deps tid ds (e', pending, Some (depFailedErr d)))"

definition newItem :: "Task \<Rightarrow> int \<Rightarrow> gerror option \<Rightarrow> nat \<Rightarrow> taskItem" where
  "newItem t pending depErr ctx =
     \<lparr>it_id = ID t, it_task = t,
      it_state = (if pending > 0 \<and> depErr = None then StateWaiting else StatePending),
      it_err = None, it_progress = Progress_zero, it_attempt = 0, it_finished = False,
      it_doneClosed = False, it_gate = newPauseGate, it_depsPending = pending,
      it_dependents = [], it_inFlight = False, it_generation = 0, it_taskCtx = ctx\<rparr>"

definition Submit :: "Engine \<Rightarrow> Task \<Rightarrow> Engine \<times> string result" where
  "Submit e t =
     (case Task_validate t of
        Some er \<Rightarrow> (e, Inl er)
      | None \<Rightarrow>
          if closed e then (e, Inl (Sentinel ErrEngineClosed))
          else if \<not> started e then (e, Inl (Sentinel ErrEngineNotStarted))
          else if item e (ID t) \<noteq> None
               then (e, Inl (Errorf ''%v: %s'' [FErr (Sentinel ErrTaskExists), FStr (ID t)]))
          else case known_deps e (ID t) (DependsOn t) of
                 Some er \<Rightarrow> (e, Inl er)
               | None \<Rightarrow>
                   (let (e1, pending, depErr) = register_deps (ID t) (DependsOn t) (e, 0, None);
                        it = newItem t pending depErr (nextCtx e1);
                        e2 = put e1 (ID t) it\<lparr>nextCtx := nextCtx e1 + 1\<rparr>;
                        e3 = publish e2 (mkEvent EventSubmitted (ID t)\<lparr>EvState := it_state it\<rparr>)
                    in (case depErr of
                          Some er \<Rightarrow> finalizeLocked e3 (ID t) StateFailed (Some er)
                        | None \<Rightarrow> wakeLocked e3,
                        Inr (ID t))))"

section \<open>The scheduler\<close>

text \<open>\<open>ord\<close> is the order in which Go ranges over the map of tasks.\<close>

definition pickReadyLocked :: "Engine \<Rightarrow> string list \<Rightarrow> string list" where
  "pickReadyLocked e ord =
     filter (\<lambda>i. case item e i of
                   None \<Rightarrow> False
                 | Some it \<Rightarrow> \<not> it_inFlight it \<and> \<not> it_finished it \<and>
                     (it_state it = StatePending
                      \<or> (it_state it = StateWaiting \<and> it_depsPending it = 0))) ord"

datatype spawn = SpawnWorker string int | SpawnWatcher string Watcher nat int

definition launch1 :: "Engine \<times> spawn list \<Rightarrow> string \<Rightarrow> Engine \<times> spawn list" where
  "launch1 = (\<lambda>(e, gs) i.
     (case item e i of
        None \<Rightarrow> (e, gs)
      | Some it \<Rightarrow>
          if it_inFlight it then (e, gs)
          else if it_finished it then (e, gs)
          else let g = it_generation it + 1;
                   e1 = put e i (it\<lparr>it_state := StateRunning, it_inFlight := True,
                                    it_generation := g\<rparr>);
                   e2 = publish e1 (mkEvent EventStateChange i\<lparr>EvState := StateRunning\<rparr>);
                   ws = Watchers (it_task it)
               in (e2\<lparr>wg := wg e2 + 1 + int (length ws)\<rparr>,
                   gs @ SpawnWorker i g # map (\<lambda>w. SpawnWatcher i w (it_taskCtx it) g) ws)))"

definition launchLocked :: "Engine \<Rightarrow> string list \<Rightarrow> Engine \<times> spawn list" where
  "launchLocked e ready = foldl launch1 (e, []) ready"

definition exit1 :: "Engine \<Rightarrow> string \<Rightarrow> Engine" where
  "exit1 e i =
     (case item e i of
        None \<Rightarrow> e
      | Some it \<Rightarrow>
          if it_finished it then e
          else (case it_state it of
                  StatePending \<Rightarrow> finalizeLocked e i StateCancelled (Some (Sentinel ErrCancelled))
                | StateWaiting \<Rightarrow> finalizeLocked e i StateCancelled (Some (Sentinel ErrCancelled))
                | StateRunning \<Rightarrow> cancelCtx e (it_taskCtx it)
                | StatePaused \<Rightarrow> cancelCtx e (it_taskCtx it)
                | _ \<Rightarrow> e))"

definition onSchedulerExit :: "Engine \<Rightarrow> string list \<Rightarrow> Engine" where
  "onSchedulerExit e ord = foldl exit1 (e\<lparr>started := False\<rparr>) ord"

section \<open>Transitions, cancellation, watchers\<close>

definition transition :: "Engine \<Rightarrow> string \<Rightarrow> TaskState \<Rightarrow> Engine" where
  "transition e i st =
     (case item e i of
        None \<Rightarrow> e
      | Some it \<Rightarrow>
          if it_finished it \<or> it_state it = st then e
          else publish (put e i (it\<lparr>it_state := st\<rparr>))
                 (mkEvent EventStateChange i\<lparr>EvState := st\<rparr>))"

definition cancelLocked :: "Engine \<Rightarrow> string \<Rightarrow> Engine \<times> gerror option" where
  "cancelLocked e i =
     (case item e i of
        None \<Rightarrow> (e, None)
      | Some it \<Rightarrow>
          if it_finished it then (e, Some (Sentinel ErrInvalidState))
          else (wakeLocked
                 (case it_state it of
                    StatePending \<Rightarrow>
                      finalizeLocked e i StateCancelled (Some (Sentinel ErrCancelled))
                  | StateWaiting \<Rightarrow>
                      finalizeLocked e i StateCancelled (Some (Sentinel ErrCancelled))
                  | _ \<Rightarrow> cancelCtx e (it_taskCtx it)), None))"

definition stale :: "Engine \<Rightarrow> string \<Rightarrow> int \<Rightarrow> bool" where
  "stale e i gen = (case item e i of None \<Rightarrow> True | Some it \<Rightarrow> it_generation it \<noteq> gen)"

text \<open>
  What \<open>runWatcherCheck\<close> does with the verdict of a check; a panicking check counts as
  \<open>ActionContinue\<close>.  The second component says whether the watcher's loop stops.
\<close>

definition watcherVerdict ::
    "Engine \<Rightarrow> string \<Rightarrow> int \<Rightarrow> WatcherAction \<Rightarrow> gerror option \<Rightarrow> Engine \<times> bool" where
  "watcherVerdict e i gen action er =
     (case action of
        ActionCancel \<Rightarrow> (if \<not> stale e i gen then fst (cancelLocked e i) else e, True)
      | ActionFail \<Rightarrow>
          (let er' = (case er of
                        None \<Rightarrow> Errorf ''backup: watcher of task %s failed the task'' [FStr i]
                      | Some x \<Rightarrow> x)
           in (if \<not> stale e i gen then finalizeLocked e i StateFailed (Some er') else e, True))
      | ActionContinue \<Rightarrow> (e, False))"

section \<open>Handles and reporters\<close>

definition Handle_Pause :: "Engine \<Rightarrow> string \<Rightarrow> Engine \<times> gerror option" where
  "Handle_Pause e i =
     (case item e i of
        None \<Rightarrow> (e, None)
      | Some it \<Rightarrow>
          if it_finished it then (e, Some (Sentinel ErrInvalidState))
          else case gate_pause (it_gate it) of
                 (ok, g) \<Rightarrow> if \<not> ok then (e, Some (Sentinel ErrInvalidState))
                            else (put e i (it\<lparr>it_gate := g\<rparr>), None))"

definition Handle_Resume :: "Engine \<Rightarrow> string \<Rightarrow> Engine \<times> gerror option" where
  "Handle_Resume e i =
     (case item e i of
        None \<Rightarrow> (e, None)
      | Some it \<Rightarrow>
          case gate_resume (it_gate it) of
            (ok, g) \<Rightarrow> if \<not> ok then (e, Some (Sentinel ErrInvalidState))
                       else (put e i (it\<lparr>it_gate := g\<rparr>), None))"

definition Handle_Cancel :: "Engine \<Rightarrow> string \<Rightarrow> Engine \<times> gerror option" where
  "Handle_Cancel e i = cancelLocked e i"

definition Handle_Retry :: "Engine \<Rightarrow> string \<Rightarrow> Engine \<times> gerror option" where
  "Handle_Retry e i =
     (if closed e then (e, Some (Sentinel ErrEngineClosed))
      else case item e i of
        None \<Rightarrow> (e, None)
      | Some it \<Rightarrow>
          if \<not> it_finished it then (e, Some (Sentinel ErrInvalidState))
          else if it_state it = StateCompleted then (e, Some (Sentinel ErrInvalidState))
          else let it' = it\<lparr>it_finished := False, it_state := StatePending, it_err := None,
                            it_attempt := 0, it_progress := Progress_zero\<lparr>UpdatedAt := clock e\<rparr>,
                            it_doneClosed := False, it_inFlight := False,
                            it_generation := it_generation it + 1,
                            it_gate := snd (gate_resume (it_gate it)),
                            it_taskCtx := nextCtx e\<rparr>;
                   e1 = cancelCtx e (it_taskCtx it);
                   e2 = put e1 i it'\<lparr>nextCtx := nextCtx e + 1\<rparr>;
                   e3 = publish e2 (mkEvent EventStateChange i\<lparr>EvState := StatePending\<rparr>)
               in (wakeLocked e3, None))"

definition Report :: "Engine \<Rightarrow> string \<Rightarrow> int \<Rightarrow> string \<Rightarrow> Engine \<times> gerror option" where
  "Report e i percent msg =
     (if percent < 0 \<or> percent > 100 then (e, Some (Sentinel ErrInvalidProgress))
      else case item e i of
        None \<Rightarrow> (e, None)
      | Some it \<Rightarrow>
          let p = \<lparr>Percent = percent, Message = msg, UpdatedAt = clock e\<rparr>
          in (publish (put e i (it\<lparr>it_progress := p\<rparr>))
                (mkEvent EventProgress i\<lparr>EvProgress := p\<rparr>), None))"

section \<open>Shutdown\<close>

text \<open>
  \<open>Shutdown\<close> in three steps: it closes the engine and tells the scheduler to stop; it waits
  for the wait group, or forces the remaining tasks when its context expires first; it
  releases the run mode.
\<close>

definition shutdownBegin :: "Engine \<Rightarrow> Engine" where
  "shutdownBegin e =
     (if closed e then e
      else e\<lparr>closed := True, stopCh := (if started e then Some True else stopCh e)\<rparr>)"

definition shutdownForce :: "Engine \<Rightarrow> string list \<Rightarrow> Engine" where
  "shutdownForce e ord =
     foldl (\<lambda>e i. finalizeLocked e i StateCancelled (Some (Sentinel ErrCancelled)))
       (e\<lparr>engineCancelled := True\<rparr>) ord"

definition shutdownEnd :: "Host \<Rightarrow> Engine \<Rightarrow> Host \<times> Engine" where
  "shutdownEnd h e = releaseMode h (e\<lparr>engineCancelled := True\<rparr>)"

end
