(* ===== verification/BackupFinalize.thy ===== *)
theory BackupFinalize
  imports BackupEngine
begin

text \<open>
  The mutual recursion of \<open>finalizeLocked\<close> and \<open>onTerminalLocked\<close>: the depth bound is
  always sufficient, so the model satisfies the code's recursive equation, and the effect of a
  call on the tasks is a sequence of single completions and counter decrements
  (\<open>evolves\<close>).  The lemmas on \<open>item\<close>, \<open>put\<close> and the other primitive updates that
  every later proof rests on are simplification rules.
\<close>

section \<open>Primitive updates\<close>

lemma item_put [simp]: "item (put e i it) j = (if j = i then Some it else item e j)"
  by (simp add: item_def put_def)

lemma item_cancelCtx [simp]: "item (cancelCtx e c) = item e"
  by (rule ext) (simp add: item_def cancelCtx_def)

lemma item_publish [simp]: "item (publish e ev) = item e"
  by (rule ext) (simp add: item_def publish_def)

lemma item_wakeLocked [simp]: "item (wakeLocked e) = item e"
  by (rule ext) (simp add: item_def wakeLocked_def split: option.splits)

lemma item_field_updates [simp]:
  "item (e\<lparr>started := a\<rparr>) = item e"
  "item (e\<lparr>closed := a\<rparr>) = item e"
  "item (e\<lparr>engineCancelled := a\<rparr>) = item e"
  "item (e\<lparr>cancelledCtxs := cs\<rparr>) = item e"
  "item (e\<lparr>nextCtx := n\<rparr>) = item e"
  "item (e\<lparr>stopCh := so\<rparr>) = item e"
  "item (e\<lparr>wake := so\<rparr>) = item e"
  "item (e\<lparr>sem := z\<rparr>) = item e"
  "item (e\<lparr>wg := z\<rparr>) = item e"
  "item (e\<lparr>lock := lo\<rparr>) = item e"
  "item (e\<lparr>procHeld := a\<rparr>) = item e"
  "item (e\<lparr>released := a\<rparr>) = item e"
  "item (e\<lparr>clock := z\<rparr>) = item e"
  "item (e\<lparr>hub := hb\<rparr>) = item e"
  by (rule ext, simp add: item_def)+

text \<open>The fields that finishing tasks leaves alone.\<close>

definition frame :: "Engine \<Rightarrow> options \<times> bool \<times> bool \<times> bool \<times> nat \<times> bool option \<times> int \<times> int
    \<times> string option \<times> bool \<times> bool \<times> int" where
  "frame e = (opts e, started e, closed e, engineCancelled e, nextCtx e, stopCh e, sem e, wg e,
              lock e, procHeld e, released e, clock e)"

lemma frame_updates [simp]:
  "frame (put e i it) = frame e"
  "frame (cancelCtx e c) = frame e"
  "frame (publish e ev) = frame e"
  "frame (wakeLocked e) = frame e"
  by (simp_all add: frame_def put_def cancelCtx_def publish_def wakeLocked_def split: option.splits)

lemma frameD:
  assumes "frame e = frame e'"
  shows "opts e = opts e'" "started e = started e'" "closed e = closed e'"
    "engineCancelled e = engineCancelled e'" "nextCtx e = nextCtx e'" "stopCh e = stopCh e'"
    "sem e = sem e'" "wg e = wg e'" "lock e = lock e'" "procHeld e = procHeld e'"
    "released e = released e'" "clock e = clock e'"
  using assms by (simp_all add: frame_def)

definition keys :: "Engine \<Rightarrow> string list" where
  "keys e = map fst (items e)"

lemma keys_put: "keys (put e i it) = (if i \<in> set (keys e) then keys e else keys e @ [i])"
  unfolding keys_def put_def using keys_AList_update [of i it "items e"] by simp

lemma keys_updates [simp]:
  "keys (cancelCtx e c) = keys e"
  "keys (publish e ev) = keys e"
  "keys (wakeLocked e) = keys e"
  by (simp_all add: keys_def cancelCtx_def publish_def wakeLocked_def split: option.splits)

lemma item_None_iff: "item e i = None \<longleftrightarrow> i \<notin> set (keys e)"
  by (simp add: item_def keys_def map_of_eq_None_iff)

lemma item_Some_keys: "item e i = Some it \<Longrightarrow> i \<in> set (keys e)"
  by (metis item_None_iff option.distinct(1))

lemma keys_put_Some [simp]: "item e i = Some it0 \<Longrightarrow> keys (put e i it) = keys e"
  by (simp add: keys_put item_Some_keys)

lemma item_markFinal [simp]:
  "item (markFinal e i it st er) j =
     (if j = i then Some (it\<lparr>it_finished := True, it_state := st, it_err := er, it_doneClosed := True\<rparr>)
      else item e j)"
  by (simp add: markFinal_def)

lemma keys_markFinal [simp]: "item e i = Some it0 \<Longrightarrow> keys (markFinal e i it st er) = keys e"
  by (simp add: markFinal_def)

lemma frame_markFinal [simp]: "frame (markFinal e i it st er) = frame e"
  by (simp add: markFinal_def)

section \<open>Counting the unfinished tasks\<close>

definition fin_count :: "(string \<times> taskItem) list \<Rightarrow> nat" where
  "fin_count al = length (filter (\<lambda>(i, it). \<not> it_finished it) al)"

lemma unfinished_fin_count: "unfinished e = fin_count (items e)"
  by (simp add: unfinished_def fin_count_def)

lemma fin_count_update_new:
  "map_of al i = Some it0 \<Longrightarrow> distinct (map fst al) \<Longrightarrow>
   fin_count (AList.update i it al) + (if it_finished it0 then 0 else 1)
     = fin_count al + (if it_finished it then 0 else 1)"
  unfolding fin_count_def by (induction al) (auto split: if_splits)

lemma unfinished_put:
  "item e i = Some it0 \<Longrightarrow> distinct (keys e) \<Longrightarrow>
   unfinished (put e i it) + (if it_finished it0 then 0 else 1)
     = unfinished e + (if it_finished it then 0 else 1)"
  using fin_count_update_new [of "items e" i it0 it]
  by (simp add: unfinished_fin_count put_def item_def keys_def)

lemma unfinished_updates [simp]:
  "unfinished (cancelCtx e c) = unfinished e"
  "unfinished (publish e ev) = unfinished e"
  "unfinished (wakeLocked e) = unfinished e"
  by (simp_all add: unfinished_def cancelCtx_def publish_def wakeLocked_def split: option.splits)

lemma unfinished_markFinal:
  "item e i = Some it \<Longrightarrow> \<not> it_finished it \<Longrightarrow> distinct (keys e) \<Longrightarrow>
   Suc (unfinished (markFinal e i it st er)) = unfinished e"
  using unfinished_put [of e i it "it\<lparr>it_finished := True, it_state := st, it_err := er, it_doneClosed := True\<rparr>"]
  by (simp add: markFinal_def)

lemma unfinished_pos:
  "item e i = Some it \<Longrightarrow> \<not> it_finished it \<Longrightarrow> 0 < unfinished e"
  unfolding unfinished_def item_def
  by (induction "items e" arbitrary: e) (auto dest: map_of_SomeD simp: filter_empty_conv)

section \<open>What finishing does to the tasks\<close>

definition fin_ok :: "TaskState \<Rightarrow> gerror option \<Rightarrow> bool" where
  "fin_ok st er \<longleftrightarrow> Terminal st \<and> (st = StateCompleted \<longleftrightarrow> er = None)"

text \<open>The fields of a task that finishing never writes, and those it writes.\<close>

definition static :: "taskItem \<Rightarrow> string \<times> Task \<times> Progress \<times> int \<times> pauseGate \<times> string list
    \<times> bool \<times> int \<times> nat" where
  "static it = (it_id it, it_task it, it_progress it, it_attempt it, it_gate it, it_dependents it,
                it_inFlight it, it_generation it, it_taskCtx it)"

definition fate :: "taskItem \<Rightarrow> TaskState \<times> gerror option \<times> bool \<times> bool" where
  "fate it = (it_state it, it_err it, it_finished it, it_doneClosed it)"

text \<open>
  One task before and after: its dependency counter may change, and an unfinished task may
  become finished; nothing else changes.
\<close>

definition evolve :: "taskItem \<Rightarrow> taskItem \<Rightarrow> bool" where
  "evolve it it' \<longleftrightarrow> static it' = static it
     \<and> (fate it' = fate it
        \<or> \<not> it_finished it \<and> (\<exists>s er. fin_ok s er \<and> fate it' = (s, er, True, True)))"

text \<open>The wake channel may get its token.\<close>

definition wake_le :: "bool option \<Rightarrow> bool option \<Rightarrow> bool" where
  "wake_le w w' \<longleftrightarrow> w' = w \<or> w \<noteq> None \<and> w' = Some True"

lemma wake_le_refl [simp]: "wake_le w w"
  by (simp add: wake_le_def)

lemma wake_le_trans: "wake_le a b \<Longrightarrow> wake_le b c \<Longrightarrow> wake_le a c"
  by (auto simp: wake_le_def)

definition evolves :: "Engine \<Rightarrow> Engine \<Rightarrow> bool" where
  "evolves e e' \<longleftrightarrow> keys e' = keys e \<and> frame e' = frame e
     \<and> (\<forall>i. rel_option evolve (item e i) (item e' i))
     \<and> set (cancelledCtxs e) \<subseteq> set (cancelledCtxs e')
     \<and> wake_le (wake e) (wake e')
     \<and> unfinished e' \<le> unfinished e"

lemma evolve_refl [simp]: "evolve it it"
  by (simp add: evolve_def)

lemma fate_finished: "fate a = fate b \<Longrightarrow> it_finished a = it_finished b"
  by (simp add: fate_def)

lemma fate_finishedD: "fate a = (s, er, True, True) \<Longrightarrow> it_finished a"
  by (simp add: fate_def)

lemma evolve_trans: "evolve a b \<Longrightarrow> evolve b c \<Longrightarrow> evolve a c"
  unfolding evolve_def by (metis fate_finished fate_finishedD)

lemma rel_option_evolve_refl [simp]: "rel_option evolve x x"
  by (cases x) auto

lemma rel_option_evolve_trans:
  "rel_option evolve a b \<Longrightarrow> rel_option evolve b c \<Longrightarrow> rel_option evolve a c"
  by (cases a; cases b; cases c) (auto intro: evolve_trans)

lemma evolves_refl [simp]: "evolves e e"
  by (simp add: evolves_def)

lemma evolves_trans: "evolves a b \<Longrightarrow> evolves b c \<Longrightarrow> evolves a c"
  unfolding evolves_def
proof (elim conjE, intro conjI allI)
  fix i
  assume "\<forall>i. rel_option evolve (item a i) (item b i)" "\<forall>i. rel_option evolve (item b i) (item c i)"
  then show "rel_option evolve (item a i) (item c i)" by (blast intro: rel_option_evolve_trans)
qed (auto intro: wake_le_trans)

lemma evolves_keys: "evolves e e' \<Longrightarrow> keys e' = keys e"
  by (simp add: evolves_def)

lemma evolves_foldl:
  assumes "\<And>e x. x \<in> set xs \<Longrightarrow> distinct (keys e) \<Longrightarrow> evolves e (f e x)" "distinct (keys e)"
  shows "evolves e (foldl f e xs)"
  using assms
proof (induction xs arbitrary: e)
  case (Cons x xs)
  have 1: "evolves e (f e x)" using Cons.prems by simp
  then have "distinct (keys (f e x))" using Cons.prems(2) by (simp add: evolves_keys)
  then have "evolves (f e x) (foldl f (f e x) xs)" using Cons.prems(1) by (intro Cons.IH) auto
  with 1 show ?case by (auto intro: evolves_trans)
qed simp

lemma evolves_put:
  assumes "item e i = Some it" "evolve it it'" "distinct (keys e)"
  shows "evolves e (put e i it')"
proof -
  from assms(2) have "it_finished it \<Longrightarrow> it_finished it'"
    by (auto simp: evolve_def fate_def)
  then have "unfinished (put e i it') \<le> unfinished e"
    using unfinished_put [OF assms(1,3), of it'] by (auto split: if_splits)
  moreover have "cancelledCtxs (put e i it') = cancelledCtxs e" "wake (put e i it') = wake e"
    by (simp_all add: put_def)
  ultimately show ?thesis using assms by (simp add: evolves_def)
qed

lemma evolves_cancelCtx: "evolves e (cancelCtx e c)"
  by (auto simp: evolves_def) (simp_all add: cancelCtx_def)

lemma evolves_publish: "evolves e (publish e ev)"
  by (auto simp: evolves_def) (simp_all add: publish_def)

lemma evolves_wakeLocked: "evolves e (wakeLocked e)"
  by (auto simp: evolves_def) (simp_all add: wakeLocked_def wake_le_def split: option.splits)

lemma evolves_markFinal:
  assumes "item e i = Some it" "\<not> it_finished it" "fin_ok st er" "distinct (keys e)"
  shows "evolves e (markFinal e i it st er)"
proof -
  let ?it = "it\<lparr>it_finished := True, it_state := st, it_err := er, it_doneClosed := True\<rparr>"
  have "evolve it ?it" using assms by (auto simp: evolve_def static_def fate_def)
  then have "evolves e (put e i ?it)" using assms by (intro evolves_put)
  then show ?thesis unfolding markFinal_def
    by (intro evolves_trans [OF _ evolves_publish] evolves_trans [OF _ evolves_cancelCtx])
qed

lemma fin_ok_dep [simp]: "fin_ok StateFailed (Some x)"
  by (simp add: fin_ok_def Terminal_def)

lemma evolves_onTerminalStep:
  assumes "\<And>e d er. distinct (keys e) \<Longrightarrow> evolves e (fin e d StateFailed (Some er))" "distinct (keys e)"
  shows "evolves e (onTerminalStep fin i st e d)"
proof (cases "item e d")
  case (Some dep)
  have "evolve dep (dep\<lparr>it_depsPending := it_depsPending dep - 1\<rparr>)"
    by (simp add: evolve_def static_def fate_def)
  then have "evolves e (put e d (dep\<lparr>it_depsPending := it_depsPending dep - 1\<rparr>))"
    using Some assms(2) by (intro evolves_put)
  with Some assms show ?thesis by (simp add: onTerminalStep_def split: TaskState.splits)
qed (simp add: onTerminalStep_def)

lemma evolves_onTerminalLocked:
  assumes "\<And>e d er. distinct (keys e) \<Longrightarrow> evolves e (fin e d StateFailed (Some er))" "distinct (keys e)"
  shows "evolves e (onTerminalLocked fin i st deps e)"
  unfolding onTerminalLocked_def using assms by (intro evolves_foldl evolves_onTerminalStep)

lemma evolves_finalizeN:
  "fin_ok st er \<Longrightarrow> distinct (keys e) \<Longrightarrow> evolves e (finalizeN n e i st er)"
proof (induction n arbitrary: e i st er)
  case (Suc n)
  show ?case
  proof (cases "item e i")
    case (Some it)
    show ?thesis
    proof (cases "it_finished it")
      case False
      have 1: "evolves e (markFinal e i it st er)"
        using Some False Suc.prems by (intro evolves_markFinal)
      then have d: "distinct (keys (markFinal e i it st er))"
        using Suc.prems by (simp add: evolves_keys)
      have "evolves (markFinal e i it st er)
              (onTerminalLocked (finalizeN n) i st (it_dependents it) (markFinal e i it st er))"
        using Suc.IH d by (intro evolves_onTerminalLocked) auto
      with 1 Some False show ?thesis
        by (simp, intro evolves_trans [OF _ evolves_wakeLocked]) (rule evolves_trans)
    qed (simp add: Some)
  qed simp
qed simp

lemma evolves_finalizeLocked:
  "fin_ok st er \<Longrightarrow> distinct (keys e) \<Longrightarrow> evolves e (finalizeLocked e i st er)"
  by (simp add: finalizeLocked_def evolves_finalizeN)

section \<open>The depth bound suffices\<close>

text \<open>Two recursive calls that agree on every engine with at most \<open>k\<close> unfinished tasks.\<close>

lemma foldl_onTerminal_cong:
  assumes "\<And>e d er. unfinished e \<le> k \<Longrightarrow> distinct (keys e) \<Longrightarrow>
              f e d StateFailed (Some er) = g e d StateFailed (Some er)"
    and "\<And>e d er. distinct (keys e) \<Longrightarrow> evolves e (f e d StateFailed (Some er))"
    and "unfinished e \<le> k" "distinct (keys e)"
  shows "onTerminalLocked f i st deps e = onTerminalLocked g i st deps e"
  using assms(3,4)
proof (induction deps arbitrary: e)
  case (Cons d deps)
  have "onTerminalStep f i st e d = onTerminalStep g i st e d"
    using assms(1) Cons.prems by (auto simp: onTerminalStep_def split: option.splits TaskState.splits)
  moreover have ev: "evolves e (onTerminalStep f i st e d)"
    using assms(2) Cons.prems(2) by (intro evolves_onTerminalStep)
  moreover have "unfinished (onTerminalStep f i st e d) \<le> k" "distinct (keys (onTerminalStep f i st e d))"
    using ev Cons.prems by (auto simp: evolves_def)
  ultimately show ?case using Cons.IH by (simp add: onTerminalLocked_def)
qed (simp add: onTerminalLocked_def)

lemma finalizeN_enough:
  assumes "unfinished e \<le> n" "unfinished e \<le> m" "fin_ok st er" "distinct (keys e)"
  shows "finalizeN n e i st er = finalizeN m e i st er"
  using assms
proof (induction n arbitrary: m e i st er)
  case 0
  then show ?case
    by (cases m) (auto split: option.splits dest: unfinished_pos)
next
  case (Suc n)
  show ?case
  proof (cases m)
    case 0
    with Suc.prems show ?thesis by (auto split: option.splits dest: unfinished_pos)
  next
    case (Suc k)
    show ?thesis
    proof (cases "\<exists>it. item e i = Some it \<and> \<not> it_finished it")
      case True
      then obtain it where it: "item e i = Some it" "\<not> it_finished it" by blast
      let ?e = "markFinal e i it st er"
      have u: "unfinished ?e \<le> min n k"
        using unfinished_markFinal [OF it Suc.prems(4), of st er] Suc.prems(1,2) \<open>m = Suc k\<close> by simp
      have d: "distinct (keys ?e)" using it Suc.prems(4) by simp
      have "onTerminalLocked (finalizeN n) i st (it_dependents it) ?e
              = onTerminalLocked (finalizeN k) i st (it_dependents it) ?e"
      proof (rule foldl_onTerminal_cong [where k = "min n k"])
        show "finalizeN n e' d' StateFailed (Some er') = finalizeN k e' d' StateFailed (Some er')"
          if "unfinished e' \<le> min n k" "distinct (keys e')" for e' d' er'
          using that by (intro Suc.IH) auto
      qed (use u d evolves_finalizeN in auto)
      with it \<open>m = Suc k\<close> show ?thesis by simp
    next
      case False
      with \<open>m = Suc k\<close> show ?thesis by (auto split: option.splits)
    qed
  qed
qed

text \<open>The recursive equation of the code.\<close>

lemma finalizeLocked_rec:
  assumes "fin_ok st er" "distinct (keys e)"
  shows "finalizeLocked e i st er =
     (case item e i of
        None \<Rightarrow> e
      | Some it \<Rightarrow>
          if it_finished it then e
          else wakeLocked (onTerminalLocked finalizeLocked i st (it_dependents it)
                             (markFinal e i it st er)))"
proof (cases "\<exists>it. item e i = Some it \<and> \<not> it_finished it")
  case True
  then obtain it where it: "item e i = Some it" "\<not> it_finished it" by blast
  let ?e = "markFinal e i it st er"
  have u: "unfinished e = Suc (unfinished ?e)"
    using unfinished_markFinal [OF it assms(2)] by simp
  have d: "distinct (keys ?e)" using it assms(2) by simp
  have "onTerminalLocked (finalizeN (unfinished ?e)) i st (it_dependents it) ?e
          = onTerminalLocked finalizeLocked i st (it_dependents it) ?e"
  proof (rule foldl_onTerminal_cong [where k = "unfinished ?e"])
    show "finalizeN (unfinished ?e) e' d' StateFailed (Some er') = finalizeLocked e' d' StateFailed (Some er')"
      if "unfinished e' \<le> unfinished ?e" "distinct (keys e')" for e' d' er'
      using that unfolding finalizeLocked_def by (intro finalizeN_enough) auto
  qed (use d evolves_finalizeN in auto)
  with it u show ?thesis by (simp add: finalizeLocked_def)
next
  case False
  then show ?thesis unfolding finalizeLocked_def
    by (cases "unfinished e") (auto split: option.splits)
qed

end
