(* ===== verification/BackupInv.thy ===== *)
theory BackupInv
  imports BackupFinalize
begin

text \<open>
  The invariant of the engine's task table, and that every operation of the engine keeps it:
  a task is finished exactly when its state is terminal (and then its \<open>Done\<close> channel is
  closed and its error fits its state), dependents and dependencies mirror each other, every
  dependency of a task was submitted before it, and the counter \<open>depsPending\<close> of a task that
  was never launched is the number of its dependencies that have not completed.
\<close>

section \<open>The invariant\<close>

definition item_ok :: "string \<Rightarrow> taskItem \<Rightarrow> bool" where
  "item_ok i it \<longleftrightarrow>
     it_id it = i \<and> ID (it_task it) = i
     \<and> it_finished it = Terminal (it_state it)
     \<and> it_doneClosed it = it_finished it
     \<and> (it_finished it \<longrightarrow> (it_state it = StateCompleted \<longleftrightarrow> it_err it = None))
     \<and> (\<not> it_finished it \<longrightarrow> it_err it = None)
     \<and> gate_wf (it_gate it)
     \<and> 0 \<le> it_generation it
     \<and> (it_generation it = 0 \<longrightarrow> \<not> it_inFlight it)
     \<and> (it_generation it = 0 \<and> \<not> it_finished it \<longrightarrow> it_state it \<in> {StatePending, StateWaiting})"

definition items_ok :: "Engine \<Rightarrow> bool" where
  "items_ok e \<longleftrightarrow> distinct (keys e) \<and> (\<forall>i it. item e i = Some it \<longrightarrow> item_ok i it)"

definition completed :: "Engine \<Rightarrow> string \<Rightarrow> bool" where
  "completed e d = (case item e d of None \<Rightarrow> False | Some it \<Rightarrow> it_state it = StateCompleted)"

definition live :: "Engine \<Rightarrow> string \<Rightarrow> bool" where
  "live e d = (case item e d of None \<Rightarrow> False | Some it \<Rightarrow> \<not> it_finished it)"

text \<open>A task that was never launched, retried or finished.\<close>

definition fresh :: "taskItem \<Rightarrow> bool" where
  "fresh it \<longleftrightarrow> \<not> it_finished it \<and> it_generation it = 0"

abbreviation deps :: "taskItem \<Rightarrow> string list" where
  "deps it \<equiv> DependsOn (it_task it)"

definition links_ok :: "Engine \<Rightarrow> bool" where
  "links_ok e \<longleftrightarrow>
     (\<forall>a ita b itb. item e a = Some ita \<longrightarrow> item e b = Some itb \<longrightarrow>
        count_list (it_dependents ita) b = count_list (deps itb) a)
     \<and> (\<forall>a ita. item e a = Some ita \<longrightarrow> set (it_dependents ita) \<subseteq> set (keys e))"

definition topo_ok :: "Engine \<Rightarrow> bool" where
  "topo_ok e \<longleftrightarrow> (\<forall>k it. k < length (keys e) \<longrightarrow> item e (keys e ! k) = Some it \<longrightarrow>
     set (deps it) \<subseteq> set (take k (keys e)))"

definition counted :: "Engine \<Rightarrow> taskItem \<Rightarrow> bool" where
  "counted e it \<longleftrightarrow> (\<forall>d\<in>set (deps it). completed e d \<or> live e d)
     \<and> it_depsPending it = int (length (filter (\<lambda>d. \<not> completed e d) (deps it)))
     \<and> (it_state it = StatePending \<longrightarrow> it_depsPending it = 0)"

text \<open>The tasks in \<open>X\<close> are exempt: they are about to be finished.\<close>

definition counts_ok :: "Engine \<Rightarrow> string set \<Rightarrow> bool" where
  "counts_ok e X \<longleftrightarrow>
     (\<forall>b itb. item e b = Some itb \<longrightarrow> fresh itb \<longrightarrow> b \<notin> X \<longrightarrow> counted e itb)"

definition engine_ok :: "Engine \<Rightarrow> bool" where
  "engine_ok e \<longleftrightarrow> items_ok e \<and> links_ok e \<and> topo_ok e \<and> counts_ok e {}"

section \<open>What evolution preserves\<close>

lemma staticD:
  assumes "static it' = static it"
  shows "it_id it' = it_id it" "it_task it' = it_task it" "it_progress it' = it_progress it"
    "it_attempt it' = it_attempt it" "it_gate it' = it_gate it"
    "it_dependents it' = it_dependents it" "it_inFlight it' = it_inFlight it"
    "it_generation it' = it_generation it" "it_taskCtx it' = it_taskCtx it"
  using assms by (simp_all add: static_def)

lemma evolve_static: "evolve it it' \<Longrightarrow> static it' = static it"
  by (simp add: evolve_def)

lemmas evolve_fields = staticD [OF evolve_static]

lemma item_ok_evolve: "item_ok i it \<Longrightarrow> evolve it it' \<Longrightarrow> item_ok i it'"
  using evolve_fields [of it it']
  by (auto simp: item_ok_def evolve_def fate_def fin_ok_def)

lemma evolves_itemD:
  assumes "evolves e e'" "item e i = Some it"
  obtains it' where "item e' i = Some it'" "evolve it it'"
  using assms unfolding evolves_def by (metis option.rel_cases option.discI option.inject)

lemma evolves_itemD2:
  assumes "evolves e e'" "item e' i = Some it'"
  obtains it where "item e i = Some it" "evolve it it'"
  using assms unfolding evolves_def by (metis option.rel_cases option.discI option.inject)

lemma items_ok_evolves:
  assumes "items_ok e" "evolves e e'" shows "items_ok e'"
  unfolding items_ok_def
proof (intro conjI allI impI)
  show "distinct (keys e')" using assms by (simp add: items_ok_def evolves_keys)
next
  fix i it' assume "item e' i = Some it'"
  then obtain it where "item e i = Some it" "evolve it it'"
    using assms(2) by (blast elim: evolves_itemD2)
  with assms(1) show "item_ok i it'" by (auto simp: items_ok_def intro: item_ok_evolve)
qed

lemma links_ok_evolves:
  assumes "links_ok e" "evolves e e'" shows "links_ok e'"
proof -
  have 1: "\<exists>it. item e i = Some it \<and> it_dependents it' = it_dependents it \<and> deps it' = deps it"
    if "item e' i = Some it'" for i it'
    using evolves_itemD2 [OF assms(2) that] by (metis evolve_fields(2,6))
  show ?thesis unfolding links_ok_def
  proof (intro conjI allI impI)
    fix a ita b itb
    assume "item e' a = Some ita" "item e' b = Some itb"
    with 1 obtain ja jb where "item e a = Some ja" "it_dependents ita = it_dependents ja"
        "item e b = Some jb" "deps itb = deps jb" by metis
    with assms(1) show "count_list (it_dependents ita) b = count_list (deps itb) a"
      by (simp add: links_ok_def)
  next
    fix a ita assume "item e' a = Some ita"
    with 1 obtain ja where "item e a = Some ja" "it_dependents ita = it_dependents ja" by metis
    with assms show "set (it_dependents ita) \<subseteq> set (keys e')"
      by (simp add: links_ok_def evolves_keys)
  qed
qed

lemma topo_ok_evolves:
  assumes "topo_ok e" "evolves e e'" shows "topo_ok e'"
  unfolding topo_ok_def
proof (intro allI impI)
  fix k it' assume "k < length (keys e')" "item e' (keys e' ! k) = Some it'"
  then obtain it where "k < length (keys e)" "item e (keys e ! k) = Some it" "evolve it it'"
    using assms(2) by (metis evolves_itemD2 evolves_keys)
  with assms show "set (deps it') \<subseteq> set (take k (keys e'))"
    by (simp add: topo_ok_def evolves_keys evolve_fields)
qed

section \<open>Finishing keeps the dependency counters\<close>

lemma completed_markFinal:
  "completed (markFinal e i it st er) d = (if d = i then st = StateCompleted else completed e d)"
  by (simp add: completed_def)

lemma live_markFinal: "live (markFinal e i it st er) d = (d \<noteq> i \<and> live e d)"
  by (simp add: live_def)

lemma live_not_completed: "items_ok e \<Longrightarrow> live e d \<Longrightarrow> \<not> completed e d"
  by (auto simp: items_ok_def live_def completed_def item_ok_def Terminal_def split: option.splits)

lemma counts_ok_drop:
  assumes "counts_ok e (insert b X)" "\<And>itb. item e b = Some itb \<Longrightarrow> \<not> fresh itb"
  shows "counts_ok e X"
  using assms by (auto simp: counts_ok_def)

lemma counts_ok_mono: "counts_ok e X \<Longrightarrow> X \<subseteq> Y \<Longrightarrow> counts_ok e Y"
  by (auto simp: counts_ok_def)

lemma counts_ok_wake [simp]: "counts_ok (wakeLocked e) X = counts_ok e X"
  by (simp add: counts_ok_def counted_def completed_def live_def)

text \<open>A task ends without success: its dependents become exempt.\<close>

lemma counts_ok_markFinal_fail:
  assumes ok: "items_ok e" "links_ok e" and c: "counts_ok e X"
    and it: "item e i = Some it" "\<not> it_finished it" and st: "st \<noteq> StateCompleted"
  shows "counts_ok (markFinal e i it st er) (X \<union> set (it_dependents it))"
  unfolding counts_ok_def
proof (intro allI impI)
  fix b itb
  let ?e = "markFinal e i it st er"
  assume b: "item ?e b = Some itb" "fresh itb" "b \<notin> X \<union> set (it_dependents it)"
  then have bi: "b \<noteq> i" "item e b = Some itb" by (auto simp: fresh_def split: if_splits)
  have "count_list (it_dependents it) b = count_list (deps itb) i"
    using ok(2) it(1) bi(2) by (simp add: links_ok_def)
  then have ni: "i \<notin> set (deps itb)" using b(3) by (metis UnI2 count_list_0_iff)
  have "live e i" using it by (simp add: live_def)
  then have nc: "\<not> completed e i" using ok(1) live_not_completed by blast
  have same: "completed ?e d = completed e d" for d
    using nc st by (auto simp: completed_markFinal)
  from c b bi have "counted e itb" by (auto simp: counts_ok_def)
  then show "counted ?e itb"
    using ni unfolding counted_def same live_markFinal by auto
qed

lemma finalizeN_finished:
  assumes "unfinished e \<le> n" "item e i = Some it" "fin_ok st er" "distinct (keys e)"
  obtains it' where "item (finalizeN n e i st er) i = Some it'" "it_finished it'"
proof (cases "it_finished it")
  case True
  with assms that show ?thesis by (cases n) auto
next
  case False
  with assms have "0 < unfinished e" by (auto intro: unfinished_pos)
  with assms(1) obtain m where n: "n = Suc m" by (cases n) auto
  let ?e = "markFinal e i it st er"
  have "evolves ?e (onTerminalLocked (finalizeN m) i st (it_dependents it) ?e)"
    using assms by (intro evolves_onTerminalLocked evolves_finalizeN) auto
  then obtain it' where "item (onTerminalLocked (finalizeN m) i st (it_dependents it) ?e) i = Some it'"
      "evolve (it\<lparr>it_finished := True, it_state := st, it_err := er, it_doneClosed := True\<rparr>) it'"
    by (rule evolves_itemD [where i = i]) auto
  then show ?thesis using that n False assms(2) by (auto simp: evolve_def fate_def)
qed

lemma counts_ok_onTerminal_fail:
  assumes IH: "\<And>e d er X. items_ok e \<Longrightarrow> links_ok e \<Longrightarrow> counts_ok e X \<Longrightarrow> unfinished e \<le> n \<Longrightarrow>
                 counts_ok (finalizeN n e d StateFailed (Some er)) X"
    and st: "st \<noteq> StateCompleted"
    and "items_ok e" "links_ok e" "unfinished e \<le> n" "counts_ok e (X \<union> set ds)"
  shows "counts_ok (onTerminalLocked (finalizeN n) i st ds e) X"
  using assms(3-)
proof (induction ds arbitrary: e)
  case (Cons d ds)
  let ?e = "onTerminalStep (finalizeN n) i st e d"
  have dist: "distinct (keys e)" using Cons.prems(1) by (simp add: items_ok_def)
  have ev: "evolves e ?e"
    using dist by (intro evolves_onTerminalStep evolves_finalizeN) auto
  have "counts_ok ?e (insert d (X \<union> set ds))"
    using Cons.prems st IH [OF Cons.prems(1,2) _ Cons.prems(3)]
    by (auto simp: onTerminalStep_def split: option.splits TaskState.splits)
  moreover have "\<not> fresh it'" if it': "item ?e d = Some it'" for it'
  proof (cases "item e d")
    case None
    with it' show ?thesis by (simp add: onTerminalStep_def)
  next
    case (Some dep)
    have ok: "item_ok d dep" using Some Cons.prems(1) by (simp add: items_ok_def)
    show ?thesis
    proof (cases "it_inFlight dep \<or> it_finished dep")
      case True
      then have "?e = e" using Some by (auto simp: onTerminalStep_def)
      with Some it' have "it' = dep" by simp
      with True ok show ?thesis by (auto simp: fresh_def item_ok_def)
    next
      case False
      then obtain er where "?e = finalizeN n e d StateFailed (Some er)"
        using Some st that by (cases st) (auto simp: onTerminalStep_def)
      moreover obtain it'' where "item (finalizeN n e d StateFailed (Some er)) d = Some it''"
          "it_finished it''"
        using finalizeN_finished [OF Cons.prems(3) Some fin_ok_dep dist] by metis
      ultimately show ?thesis using it' by (simp add: fresh_def)
    qed
  qed
  ultimately have "counts_ok ?e (X \<union> set ds)" by (rule counts_ok_drop)
  moreover have "items_ok ?e" "links_ok ?e" "unfinished ?e \<le> n"
    using Cons.prems ev by (auto intro: items_ok_evolves links_ok_evolves simp: evolves_def)
  ultimately show ?case using Cons.IH by (simp add: onTerminalLocked_def)
qed (simp add: onTerminalLocked_def)

lemma counts_ok_finalizeN_fail:
  assumes "items_ok e" "links_ok e" "counts_ok e X" "fin_ok st er" "st \<noteq> StateCompleted"
    and "unfinished e \<le> n"
  shows "counts_ok (finalizeN n e i st er) X"
  using assms
proof (induction n arbitrary: e i st er X)
  case (Suc n)
  have dist: "distinct (keys e)" using Suc.prems(1) by (simp add: items_ok_def)
  show ?case
  proof (cases "\<exists>it. item e i = Some it \<and> \<not> it_finished it")
    case True
    then obtain it where it: "item e i = Some it" "\<not> it_finished it" by blast
    let ?e = "markFinal e i it st er"
    have ev: "evolves e ?e" using it Suc.prems(4) dist by (intro evolves_markFinal)
    have "unfinished ?e \<le> n" using unfinished_markFinal [OF it dist, of st er] Suc.prems(6) by simp
    then have "counts_ok (onTerminalLocked (finalizeN n) i st (it_dependents it) ?e) X"
      using Suc counts_ok_markFinal_fail [OF Suc.prems(1,2,3) it Suc.prems(5)] ev
      by (intro counts_ok_onTerminal_fail) (auto intro: items_ok_evolves links_ok_evolves)
    then show ?thesis using it by simp
  next
    case False
    with Suc.prems(3) show ?thesis by (auto split: option.splits)
  qed
qed simp

text \<open>A task completes: each occurrence in its list of dependents takes one off a counter.\<close>

lemma onTerminal_completed_item:
  assumes "item e b = Some it"
    and "\<not> it_inFlight it \<Longrightarrow> \<not> it_finished it \<Longrightarrow> int (count_list ds b) \<le> it_depsPending it"
  shows "item (onTerminalLocked fin i StateCompleted ds e) b =
    Some (if it_inFlight it \<or> it_finished it then it
          else it\<lparr>it_depsPending := it_depsPending it - int (count_list ds b)\<rparr>)"
  using assms
proof (induction ds arbitrary: e it)
  case (Cons d ds)
  show ?case
  proof (cases "d = b \<and> \<not> it_inFlight it \<and> \<not> it_finished it")
    case True
    let ?it = "it\<lparr>it_depsPending := it_depsPending it - 1\<rparr>"
    have "onTerminalStep fin i StateCompleted e d = put e b ?it"
      using True Cons.prems by (auto simp: onTerminalStep_def)
    then show ?thesis using Cons.IH [of "put e b ?it" ?it] True Cons.prems
      by (simp add: onTerminalLocked_def algebra_simps)
  next
    case False
    have "item (onTerminalStep fin i StateCompleted e d) b = Some it"
      using False Cons.prems(1) by (auto simp: onTerminalStep_def split: option.splits)
    then show ?thesis using Cons.IH [of _ it] Cons.prems(2) False
      by (auto simp: onTerminalLocked_def split: if_splits)
  qed
qed (simp add: onTerminalLocked_def)

end
