(* ===== verification/BackupOps.thy ===== *)
theory BackupOps
  imports BackupInv
begin

text \<open>
  Every operation of the engine keeps \<open>engine_ok\<close>: finishing a task with its cascade,
  \<open>Submit\<close>, launching, the scheduler's exit, transitions, cancellation, watcher verdicts,
  the methods of a handle, progress reports and the phases of \<open>Shutdown\<close>.
\<close>

section \<open>Completion\<close>

lemma onTerminal_completed_fate:
  "map_option fate (item (onTerminalLocked fin i StateCompleted ds e) d) = map_option fate (item e d)"
proof (induction ds arbitrary: e)
  case (Cons x ds)
  have "map_option fate (item (onTerminalStep fin i StateCompleted e x) d) = map_option fate (item e d)"
    by (auto simp: onTerminalStep_def fate_def split: option.splits)
  then show ?case using Cons.IH by (simp add: onTerminalLocked_def)
qed (simp add: onTerminalLocked_def)

lemma completed_fate: "completed e d = (case map_option fate (item e d) of
    None \<Rightarrow> False | Some (st, _) \<Rightarrow> st = StateCompleted)"
  by (simp add: completed_def fate_def split: option.splits)

lemma live_fate: "live e d = (case map_option fate (item e d) of
    None \<Rightarrow> False | Some (_, _, f, _) \<Rightarrow> \<not> f)"
  by (simp add: live_def fate_def split: option.splits)

lemma fates_eq:
  assumes "map_option fate (item e' d) = map_option fate (item e d)"
  shows "completed e' d = completed e d" "live e' d = live e d"
  using assms by (simp_all add: completed_fate live_fate)

lemma length_filter_split:
  "P i \<Longrightarrow> length (filter P xs) = length (filter (\<lambda>d. P d \<and> d \<noteq> i) xs) + count_list xs i"
  by (induction xs) auto

lemma counted_completed:
  assumes c: "counted e itb" and i: "live e i" "\<not> completed e i"
    and e': "\<And>d. completed e' d = (d = i \<or> completed e d)" "\<And>d. d \<noteq> i \<Longrightarrow> live e' d = live e d"
    and k: "k = count_list (deps itb) i"
  shows "counted e' (itb\<lparr>it_depsPending := it_depsPending itb - int k\<rparr>)"
proof -
  have "length (filter (\<lambda>d. \<not> completed e d) (deps itb))
      = length (filter (\<lambda>d. \<not> completed e' d) (deps itb)) + k"
    using length_filter_split [of "\<lambda>d. \<not> completed e d" i "deps itb"] i(2) k e'(1)
    by (simp add: conj_commute)
  moreover have "\<forall>d\<in>set (deps itb). completed e' d \<or> live e' d"
    using c e' by (metis counted_def)
  ultimately show ?thesis using c by (simp add: counted_def) (metis add_is_0 length_0_conv of_nat_0_eq_iff of_nat_add)
qed

lemma counts_ok_finalizeN_completed:
  assumes ok: "items_ok e" "links_ok e" and c: "counts_ok e X"
  shows "counts_ok (finalizeN n e i StateCompleted None) X"
proof (cases "n = 0 \<or> item e i = None \<or> (\<exists>it. item e i = Some it \<and> it_finished it)")
  case True
  then show ?thesis using c by (cases n) auto
next
  case False
  then obtain m it where n: "n = Suc m" and it: "item e i = Some it" "\<not> it_finished it"
    by (cases n) auto
  let ?e = "markFinal e i it StateCompleted None"
  let ?e' = "onTerminalLocked (finalizeN m) i StateCompleted (it_dependents it) ?e"
  have li: "live e i" using it by (simp add: live_def)
  then have nc: "\<not> completed e i" using ok(1) live_not_completed by blast
  have comp: "completed ?e' d = (d = i \<or> completed e d)" for d
    using fates_eq(1) [OF onTerminal_completed_fate] completed_markFinal by metis
  have liv: "live ?e' d = live e d" if "d \<noteq> i" for d
    using fates_eq(2) [OF onTerminal_completed_fate] live_markFinal that by metis
  have "counts_ok ?e' X" unfolding counts_ok_def
  proof (intro allI impI)
    fix b itb assume b: "item ?e' b = Some itb" "fresh itb" "b \<notin> X"
    have "distinct (keys ?e)" using ok(1) it by (simp add: items_ok_def)
    then have ev: "evolves ?e ?e'" by (intro evolves_onTerminalLocked evolves_finalizeN) auto
    obtain it0 where it0: "item ?e b = Some it0" "evolve it0 itb" by (rule evolves_itemD2 [OF ev b(1)])
    then have f0: "fresh it0" using b(2) evolve_fields(8) [OF it0(2)]
      by (auto simp: fresh_def evolve_def fate_def)
    then have b0: "item e b = Some it0" using it0(1) by (auto simp: fresh_def split: if_splits)
    then have cnt: "counted e it0" using c f0 b(3) by (auto simp: counts_ok_def)
    have k: "count_list (it_dependents it) b = count_list (deps it0) i"
      using ok(2) it(1) b0 by (simp add: links_ok_def)
    have le: "int (count_list (it_dependents it) b) \<le> it_depsPending it0"
      using cnt length_filter_split [of "\<lambda>d. \<not> completed e d" i "deps it0"] nc k
      by (simp add: counted_def)
    have fl: "\<not> it_inFlight it0" "\<not> it_finished it0"
      using f0 b0 ok(1) by (auto simp: fresh_def items_ok_def item_ok_def)
    have "itb = it0\<lparr>it_depsPending := it_depsPending it0 - int (count_list (it_dependents it) b)\<rparr>"
      using onTerminal_completed_item [OF it0(1), of "it_dependents it" "finalizeN m" i] le b(1) fl
      by simp
    then show "counted ?e' itb" using counted_completed [OF cnt li nc comp liv k] by simp
  qed
  then show ?thesis using n it by simp
qed

lemma counts_ok_finalizeLocked:
  assumes "items_ok e" "links_ok e" "counts_ok e X" "fin_ok st er"
  shows "counts_ok (finalizeLocked e i st er) X"
proof (cases "st = StateCompleted")
  case True
  with assms show ?thesis
    by (auto simp: finalizeLocked_def fin_ok_def intro: counts_ok_finalizeN_completed)
next
  case False
  with assms show ?thesis by (auto simp: finalizeLocked_def intro: counts_ok_finalizeN_fail)
qed

lemma engine_okD:
  assumes "engine_ok e"
  shows "items_ok e" "links_ok e" "topo_ok e" "counts_ok e {}" "distinct (keys e)"
  using assms by (simp_all add: engine_ok_def items_ok_def)

lemma engine_ok_finalizeLocked:
  assumes "engine_ok e" "fin_ok st er" shows "engine_ok (finalizeLocked e i st er)"
proof -
  have "evolves e (finalizeLocked e i st er)"
    using assms engine_okD by (intro evolves_finalizeLocked) auto
  then show ?thesis using assms engine_okD [OF assms(1)] unfolding engine_ok_def
    by (blast intro: items_ok_evolves links_ok_evolves topo_ok_evolves counts_ok_finalizeLocked)
qed

section \<open>Updates of one task\<close>

lemma engine_ok_items: "items e' = items e \<Longrightarrow> engine_ok e' = engine_ok e"
  by (simp add: engine_ok_def items_ok_def links_ok_def topo_ok_def counts_ok_def counted_def
      completed_def live_def item_def keys_def)

lemma items_updates [simp]:
  "items (cancelCtx e c) = items e" "items (publish e ev) = items e" "items (wakeLocked e) = items e"
  by (simp_all add: cancelCtx_def publish_def wakeLocked_def split: option.splits)

lemma engine_ok_updates [simp]:
  "engine_ok (cancelCtx e c) = engine_ok e"
  "engine_ok (publish e ev) = engine_ok e"
  "engine_ok (wakeLocked e) = engine_ok e"
  "engine_ok (e\<lparr>started := a\<rparr>) = engine_ok e"
  "engine_ok (e\<lparr>closed := a\<rparr>) = engine_ok e"
  "engine_ok (e\<lparr>engineCancelled := a\<rparr>) = engine_ok e"
  "engine_ok (e\<lparr>nextCtx := k\<rparr>) = engine_ok e"
  "engine_ok (e\<lparr>stopCh := so\<rparr>) = engine_ok e"
  "engine_ok (e\<lparr>wake := so\<rparr>) = engine_ok e"
  "engine_ok (e\<lparr>sem := z\<rparr>) = engine_ok e"
  "engine_ok (e\<lparr>wg := z\<rparr>) = engine_ok e"
  "engine_ok (e\<lparr>lock := lo\<rparr>) = engine_ok e"
  "engine_ok (e\<lparr>procHeld := a\<rparr>) = engine_ok e"
  "engine_ok (e\<lparr>released := a\<rparr>) = engine_ok e"
  "engine_ok (e\<lparr>clock := z\<rparr>) = engine_ok e"
  "engine_ok (e\<lparr>hub := hb\<rparr>) = engine_ok e"
  by (rule engine_ok_items, simp)+

lemma engine_ok_put:
  assumes e: "engine_ok e" and it: "item e i = Some it" and ok: "item_ok i it'"
    and same: "it_task it' = it_task it" "it_dependents it' = it_dependents it"
      "it_state it' = StateCompleted \<longleftrightarrow> it_state it = StateCompleted"
    and liv: "it_finished it' \<Longrightarrow> it_finished it"
    and fr: "fresh it' \<Longrightarrow> fresh it \<and> it_depsPending it' = it_depsPending it
              \<and> it_state it' = it_state it"
  shows "engine_ok (put e i it')"
proof -
  note E = engine_okD [OF e]
  have keys: "keys (put e i it') = keys e" using it by simp
  have comp: "completed (put e i it') d = completed e d" for d
    using it same(3) by (simp add: completed_def)
  have liv: "live (put e i it') d" if "live e d" for d
    using that it liv by (auto simp: live_def)
  have cnt: "counted (put e i it') itb" if "counted e itb" for itb
    using that liv comp by (auto simp: counted_def)
  have "items_ok (put e i it')" using E(1) ok keys by (simp add: items_ok_def)
  moreover have "links_ok (put e i it')"
    using E(2) it same(1,2) keys by (auto simp: links_ok_def)
  moreover have "topo_ok (put e i it')"
    using E(3) it same(1) keys by (auto simp: topo_ok_def)
  moreover have "counts_ok (put e i it') {}" unfolding counts_ok_def
  proof (intro allI impI)
    fix b itb assume b: "item (put e i it') b = Some itb" "fresh itb"
    show "counted (put e i it') itb"
    proof (cases "b = i")
      case True
      with b have "itb = it'" by simp
      with fr b(2) have "fresh it" "it_depsPending itb = it_depsPending it"
          "it_state itb = it_state it" "it_task itb = it_task it" using same(1) by auto
      moreover have "counted e it" using E(4) it \<open>fresh it\<close> by (auto simp: counts_ok_def)
      ultimately have "counted e itb" by (metis counted_def)
      then show ?thesis by (rule cnt)
    next
      case False
      then show ?thesis using b E(4) by (intro cnt) (auto simp: counts_ok_def)
    qed
  qed
  ultimately show ?thesis by (simp add: engine_ok_def)
qed

lemma engine_ok_item: "engine_ok e \<Longrightarrow> item e i = Some it \<Longrightarrow> item_ok i it"
  by (simp add: engine_ok_def items_ok_def)

section \<open>Operations on known tasks\<close>

lemma engine_ok_foldl:
  assumes "\<And>e x. engine_ok e \<Longrightarrow> engine_ok (f e x)" "engine_ok e"
  shows "engine_ok (foldl f e xs)"
  using assms(2) by (induction xs arbitrary: e) (auto intro: assms(1))

lemma engine_ok_transition:
  assumes "engine_ok e" "\<not> Terminal st"
    and "\<And>it. item e i = Some it \<Longrightarrow> \<not> it_finished it \<Longrightarrow> 1 \<le> it_generation it"
  shows "engine_ok (transition e i st)"
proof (cases "item e i")
  case (Some it)
  have ok: "item_ok i it" using assms(1) Some by (rule engine_ok_item)
  show ?thesis
  proof (cases "it_finished it \<or> it_state it = st")
    case False
    then have g: "1 \<le> it_generation it" "\<not> it_finished it" using assms(3) Some by auto
    have "engine_ok (put e i (it\<lparr>it_state := st\<rparr>))"
      using assms(1) Some
      by (rule engine_ok_put) (use ok g assms(2) in \<open>auto simp: item_ok_def fresh_def Terminal_def\<close>)
    with False Some show ?thesis by (simp add: transition_def)
  qed (use Some assms in \<open>simp add: transition_def\<close>)
qed (use assms in \<open>simp add: transition_def\<close>)

lemma fin_ok_cancelled [simp]: "fin_ok StateCancelled (Some x)"
  by (simp add: fin_ok_def Terminal_def)

lemma fin_ok_completed [simp]: "fin_ok StateCompleted None"
  by (simp add: fin_ok_def Terminal_def)

lemma engine_ok_cancelLocked: "engine_ok e \<Longrightarrow> engine_ok (fst (cancelLocked e i))"
  by (simp add: cancelLocked_def engine_ok_finalizeLocked split: option.splits TaskState.splits)

lemma engine_ok_watcherVerdict:
  "engine_ok e \<Longrightarrow> engine_ok (fst (watcherVerdict e i gen a er))"
  by (simp add: watcherVerdict_def engine_ok_cancelLocked engine_ok_finalizeLocked Let_def
      split: WatcherAction.splits)

lemma engine_ok_exit1: "engine_ok e \<Longrightarrow> engine_ok (exit1 e i)"
  by (simp add: exit1_def engine_ok_finalizeLocked split: option.splits TaskState.splits)

lemma engine_ok_onSchedulerExit: "engine_ok e \<Longrightarrow> engine_ok (onSchedulerExit e ord)"
  unfolding onSchedulerExit_def by (intro engine_ok_foldl engine_ok_exit1) simp_all

lemma engine_ok_shutdownForce: "engine_ok e \<Longrightarrow> engine_ok (shutdownForce e ord)"
  unfolding shutdownForce_def by (intro engine_ok_foldl engine_ok_finalizeLocked) simp_all

lemma engine_ok_launch1:
  assumes "engine_ok e" shows "engine_ok (fst (launch1 (e, gs) i))"
proof (cases "item e i")
  case (Some it)
  have ok: "item_ok i it" using assms Some by (rule engine_ok_item)
  show ?thesis
  proof (cases "it_inFlight it \<or> it_finished it")
    case False
    have "engine_ok (put e i (it\<lparr>it_state := StateRunning, it_inFlight := True,
                                 it_generation := it_generation it + 1\<rparr>))"
      using assms Some
      by (rule engine_ok_put) (use ok False in \<open>auto simp: item_ok_def fresh_def Terminal_def\<close>)
    with False Some show ?thesis by (simp add: launch1_def Let_def)
  qed (use Some assms in \<open>auto simp: launch1_def\<close>)
qed (use assms in \<open>simp add: launch1_def\<close>)

lemma engine_ok_launchLocked:
  assumes "engine_ok e" shows "engine_ok (fst (launchLocked e ready))"
proof -
  have "engine_ok (fst s) \<Longrightarrow> engine_ok (fst (foldl launch1 s ready))" for s
    by (induction ready arbitrary: s) (simp, metis engine_ok_launch1 foldl_Cons prod.collapse)
  with assms show ?thesis by (simp add: launchLocked_def)
qed

lemma engine_ok_Handle_Pause: "engine_ok e \<Longrightarrow> engine_ok (fst (Handle_Pause e i))"
proof (cases "item e i")
  case (Some it)
  assume e: "engine_ok e"
  have "engine_ok (put e i (it\<lparr>it_gate := snd (gate_pause (it_gate it))\<rparr>))"
    using e Some
    by (rule engine_ok_put)
      (use engine_ok_item [OF e Some] in \<open>auto simp: item_ok_def fresh_def gate_wf_pause\<close>)
  with e Some show ?thesis by (auto simp: Handle_Pause_def split: prod.splits)
qed (simp add: Handle_Pause_def)

lemma engine_ok_Handle_Resume: "engine_ok e \<Longrightarrow> engine_ok (fst (Handle_Resume e i))"
proof (cases "item e i")
  case (Some it)
  assume e: "engine_ok e"
  have "engine_ok (put e i (it\<lparr>it_gate := snd (gate_resume (it_gate it))\<rparr>))"
    using e Some
    by (rule engine_ok_put)
      (use engine_ok_item [OF e Some] in \<open>auto simp: item_ok_def fresh_def gate_wf_resume\<close>)
  with e Some show ?thesis by (auto simp: Handle_Resume_def split: prod.splits)
qed (simp add: Handle_Resume_def)

lemma engine_ok_Report: "engine_ok e \<Longrightarrow> engine_ok (fst (Report e i pc msg))"
proof (cases "item e i")
  case (Some it)
  assume e: "engine_ok e"
  have "engine_ok (put e i (it\<lparr>it_progress := p\<rparr>))" for p
    using e Some
    by (rule engine_ok_put) (use engine_ok_item [OF e Some] in \<open>auto simp: item_ok_def fresh_def\<close>)
  with e Some show ?thesis by (simp add: Report_def Let_def)
qed (simp add: Report_def)

lemma engine_ok_Handle_Retry:
  assumes "engine_ok e" shows "engine_ok (fst (Handle_Retry e i))"
proof (cases "\<exists>it. item e i = Some it \<and> it_finished it \<and> it_state it \<noteq> StateCompleted")
  case True
  then obtain it where it: "item e i = Some it" "it_finished it" "it_state it \<noteq> StateCompleted"
    by blast
  have ok: "item_ok i it" using assms it(1) by (rule engine_ok_item)
  let ?it = "it\<lparr>it_finished := False, it_state := StatePending, it_err := None,
      it_attempt := 0, it_progress := Progress_zero\<lparr>UpdatedAt := clock e\<rparr>,
      it_doneClosed := False, it_inFlight := False, it_generation := it_generation it + 1,
      it_gate := snd (gate_resume (it_gate it)), it_taskCtx := nextCtx e\<rparr>"
  have "engine_ok (put (cancelCtx e (it_taskCtx it)) i ?it)"
    by (rule engine_ok_put [where it = it])
      (use assms it ok in \<open>auto simp: item_ok_def fresh_def Terminal_def gate_wf_resume\<close>)
  with it assms show ?thesis by (simp add: Handle_Retry_def Let_def)
next
  case False
  with assms show ?thesis by (auto simp: Handle_Retry_def split: option.splits)
qed

section \<open>Submission\<close>

lemma known_deps_None_iff: "known_deps e tid ds = None \<longleftrightarrow> set ds \<subseteq> set (keys e)"
  by (induction ds) (auto split: option.splits simp: item_None_iff dest: item_Some_keys)

definition add_dependent :: "string \<Rightarrow> string list \<Rightarrow> string \<Rightarrow> taskItem \<Rightarrow> taskItem" where
  "add_dependent tid ds i it =
     it\<lparr>it_dependents := it_dependents it @ replicate (count_list ds i) tid\<rparr>"

lemma add_dependent_simps [simp]:
  "it_dependents (add_dependent tid ds i it) = it_dependents it @ replicate (count_list ds i) tid"
  "deps (add_dependent tid ds i it) = deps it"
  "fate (add_dependent tid ds i it) = fate it"
  "fresh (add_dependent tid ds i it) = fresh it"
  "it_generation (add_dependent tid ds i it) = it_generation it"
  "it_depsPending (add_dependent tid ds i it) = it_depsPending it"
  "it_state (add_dependent tid ds i it) = it_state it"
  "item_ok j (add_dependent tid ds i it) = item_ok j it"
  by (simp_all add: add_dependent_def fate_def fresh_def item_ok_def)

text \<open>What the registration loop returns: the dependents, the count and the first failure.\<close>

lemma register_deps_item:
  "set ds \<subseteq> set (keys e) \<Longrightarrow> register_deps tid ds (e, p, de) = (e1, p1, de1) \<Longrightarrow>
   keys e1 = keys e \<and> frame e1 = frame e
   \<and> cancelledCtxs e1 = cancelledCtxs e \<and> wake e1 = wake e \<and> hub e1 = hub e
   \<and> (\<forall>i. item e1 i = map_option (add_dependent tid ds i) (item e i))"
proof (induction ds arbitrary: e p de)
  case Nil
  then show ?case by (simp add: add_dependent_def option.map_ident)
next
  case (Cons d ds)
  then obtain dep where dep: "item e d = Some dep" by (cases "item e d") (auto simp: item_None_iff)
  let ?e = "put e d (dep\<lparr>it_dependents := it_dependents dep @ [tid]\<rparr>)"
  have k: "set ds \<subseteq> set (keys ?e)" using Cons.prems(1) dep by simp
  obtain p' de' where r: "register_deps tid ds (?e, p', de') = (e1, p1, de1)"
    using Cons.prems(2) dep by (auto simp: Let_def split: if_splits)
  have fl: "cancelledCtxs ?e = cancelledCtxs e" "wake ?e = wake e" "hub ?e = hub e"
    by (simp_all add: put_def)
  have "map_option (add_dependent tid ds i) (item ?e i)
      = map_option (add_dependent tid (d # ds) i) (item e i)" for i
    using dep by (cases "item e i") (auto simp: add_dependent_def)
  with Cons.IH [OF k r] dep fl show ?case by simp
qed

lemma register_deps_count:
  "set ds \<subseteq> set (keys e) \<Longrightarrow> register_deps tid ds (e, p, de) = (e1, p1, de1) \<Longrightarrow>
   p1 = p + int (length (filter (live e) ds))
   \<and> (de1 = None \<longleftrightarrow> de = None \<and> (\<forall>d\<in>set ds. live e d \<or> completed e d))
   \<and> (\<forall>er. de = Some er \<longrightarrow> de1 = Some er)"
proof (induction ds arbitrary: e p de)
  case (Cons d ds)
  then obtain dep where dep: "item e d = Some dep" by (cases "item e d") (auto simp: item_None_iff)
  let ?e = "put e d (dep\<lparr>it_dependents := it_dependents dep @ [tid]\<rparr>)"
  have k: "set ds \<subseteq> set (keys ?e)" using Cons.prems(1) dep by simp
  have f: "map_option fate (item ?e x) = map_option fate (item e x)" for x
    using dep by (simp add: fate_def)
  have same: "live ?e = live e" "completed ?e = completed e"
    using fates_eq [OF f] by auto
  have lc: "live e d \<longleftrightarrow> \<not> it_finished dep" "completed e d \<longleftrightarrow> it_state dep = StateCompleted"
    using dep by (simp_all add: live_def completed_def)
  show ?case using Cons.IH [OF k, unfolded same] Cons.prems(2) dep
    by (fastforce simp: Let_def lc split: if_splits)
qed simp

lemma count_list_replicate: "count_list (replicate n x) y = (if x = y then n else 0)"
  by (induction n) auto

lemma count_list_notin: "x \<notin> set xs \<Longrightarrow> count_list xs x = 0"
  by (simp add: count_list_0_iff)

lemma topo_deps:
  assumes "topo_ok e" "item e i = Some it" shows "set (deps it) \<subseteq> set (keys e)"
proof -
  obtain k where "k < length (keys e)" "keys e ! k = i"
    using item_Some_keys [OF assms(2)] by (metis in_set_conv_nth)
  with assms have "set (deps it) \<subseteq> set (take k (keys e))" by (auto simp: topo_ok_def)
  then show ?thesis using set_take_subset by fastforce
qed

text \<open>The task table after a registration, with the new task still exempt if it must fail.\<close>

lemma submit_table:
  assumes e: "engine_ok e" and new: "item e tid = None" and ds: "set ds \<subseteq> set (keys e)"
    and r: "register_deps tid ds (e, 0, None) = (e1, p1, de1)"
    and t: "ID t = tid" "DependsOn t = ds" and e2_def: "e2 = put e1 tid (newItem t p1 de1 c)"
  shows "items_ok e2" "links_ok e2" "topo_ok e2" "counts_ok e2 (if de1 = None then {} else {tid})"
proof -
  note E = engine_okD [OF e]
  have nk: "tid \<notin> set (keys e)" using new by (simp add: item_None_iff)
  have k1: "keys e1 = keys e" and it1: "item e1 i = map_option (add_dependent tid ds i) (item e i)" for i
    using register_deps_item [OF ds r] by auto
  have k2: "keys e2 = keys e @ [tid]" using nk by (simp add: e2_def keys_put k1)
  have it2: "item e2 i = (if i = tid then Some (newItem t p1 de1 c)
      else map_option (add_dependent tid ds i) (item e i))" for i
    by (simp add: e2_def it1)
  have p1: "p1 = int (length (filter (live e) ds))"
    and de1: "de1 = None \<longleftrightarrow> (\<forall>d\<in>set ds. live e d \<or> completed e d)"
    using register_deps_count [OF ds r] by auto
  have newok: "item_ok tid (newItem t p1 de1 c)"
    using t by (simp add: item_ok_def newItem_def Terminal_def gate_wf_new)
  show "items_ok e2" using E(1) nk newok by (auto simp: items_ok_def k2 it2)
  have sub: "set (it_dependents it) \<subseteq> set (keys e)" if "item e i = Some it" for i it
    using E(2) that unfolding links_ok_def by blast
  have notd: "tid \<notin> set (it_dependents it)" if "item e i = Some it" for i it
    using sub [OF that] nk by blast
  have notp: "tid \<notin> set (deps it)" if "item e i = Some it" for i it
    using topo_deps [OF E(3) that] nk by blast
  have dn: "deps (newItem t p1 de1 c) = ds" "it_dependents (newItem t p1 de1 c) = []"
    using t by (simp_all add: newItem_def)
  show "links_ok e2" unfolding links_ok_def
  proof (intro conjI allI impI)
    fix a ita b itb assume ab: "item e2 a = Some ita" "item e2 b = Some itb"
    show "count_list (it_dependents ita) b = count_list (deps itb) a"
    proof (cases "a = tid")
      case True
      then have "tid \<notin> set (deps itb)" using ab(2) dn notp ds nk
        by (auto simp: it2 split: if_splits)
      then show ?thesis using True ab(1) by (auto simp: it2 dn count_list_notin)
    next
      case False
      then obtain ja where ja: "item e a = Some ja" "ita = add_dependent tid ds a ja"
        using ab(1) by (auto simp: it2)
      show ?thesis
      proof (cases "b = tid")
        case True
        then show ?thesis using ab(2) ja notd [OF ja(1)]
          by (auto simp: it2 dn count_list_notin count_list_replicate)
      next
        case False
        then show ?thesis using ab(2) ja E(2)
          by (auto simp: it2 links_ok_def count_list_replicate split: if_splits)
      qed
    qed
  next
    fix a ita assume a: "item e2 a = Some ita"
    then show "set (it_dependents ita) \<subseteq> set (keys e2)"
      using dn sub by (fastforce simp: it2 k2 split: if_splits)
  qed
  show "topo_ok e2" unfolding topo_ok_def
  proof (intro allI impI)
    fix k it assume k: "k < length (keys e2)" "item e2 (keys e2 ! k) = Some it"
    show "set (deps it) \<subseteq> set (take k (keys e2))"
    proof (cases "k < length (keys e)")
      case True
      then have "keys e2 ! k \<noteq> tid" "keys e2 ! k = keys e ! k"
        using nk by (auto simp: k2 nth_append)
      moreover from this obtain j where j: "item e (keys e ! k) = Some j" "deps it = deps j"
        using k(2) by (auto simp: it2)
      moreover have "set (deps j) \<subseteq> set (take k (keys e))"
        using E(3) True j(1) unfolding topo_ok_def by blast
      ultimately show ?thesis using True by (simp add: k2)
    next
      case False
      then have "k = length (keys e)" using k(1) k2 by simp
      then show ?thesis using k(2) ds dn(1) by (auto simp: k2 it2)
    qed
  qed
  have f: "map_option fate (item e2 x) = map_option fate (item e x)" if "x \<noteq> tid" for x
    using that by (cases "item e x") (simp_all add: it2)
  have sm: "completed e2 x = completed e x" "live e2 x = live e x" if "x \<in> set (keys e)" for x
    using fates_eq [OF f] that nk by metis+
  have cnt: "counted e2 it' = counted e it"
    if "deps it' = deps it" "it_depsPending it' = it_depsPending it" "it_state it' = it_state it"
      "set (deps it) \<subseteq> set (keys e)" for it it'
  proof -
    have "filter (\<lambda>d. \<not> completed e2 d) (deps it) = filter (\<lambda>d. \<not> completed e d) (deps it)"
      using that(4) sm by (intro filter_cong) auto
    then show ?thesis using that sm unfolding counted_def by auto
  qed
  show "counts_ok e2 (if de1 = None then {} else {tid})" unfolding counts_ok_def
  proof (intro allI impI)
    fix b itb assume b: "item e2 b = Some itb" "fresh itb" "b \<notin> (if de1 = None then {} else {tid})"
    show "counted e2 itb"
    proof (cases "b = tid")
      case True
      then have d1: "de1 = None" and itb: "itb = newItem t p1 de1 c"
        using b by (auto simp: it2 split: if_splits)
      have "filter (live e) ds = filter (\<lambda>d. \<not> completed e d) ds"
        using d1 de1 live_not_completed [OF E(1)] by (intro filter_cong) auto
      then have "counted e (newItem t p1 de1 c)" using d1 de1 p1 t
        by (auto simp: counted_def newItem_def)
      then show ?thesis using cnt [of itb itb] itb dn(1) ds by simp
    next
      case False
      then obtain jb where jb: "item e b = Some jb" "itb = add_dependent tid ds b jb"
        using b(1) by (auto simp: it2)
      then have "counted e jb" using E(4) b(2) by (auto simp: counts_ok_def)
      then show ?thesis using cnt [of itb jb] jb topo_deps [OF E(3) jb(1)] by simp
    qed
  qed
qed

lemma counts_ok_items: "items e' = items e \<Longrightarrow> counts_ok e' X = counts_ok e X"
  by (simp add: counts_ok_def counted_def completed_def live_def item_def)

lemma table_items:
  "items e' = items e \<Longrightarrow> items_ok e' = items_ok e \<and> links_ok e' = links_ok e \<and> topo_ok e' = topo_ok e"
  by (simp add: items_ok_def links_ok_def topo_ok_def item_def keys_def)

lemma finalizeLocked_finished:
  assumes "item e i = Some it" "fin_ok st er" "distinct (keys e)"
  obtains it' where "item (finalizeLocked e i st er) i = Some it'" "it_finished it'"
  unfolding finalizeLocked_def using assms by (auto intro: finalizeN_finished [OF order_refl])

lemma Submit_rejects:
  assumes "\<not> (Task_validate t = None \<and> \<not> closed e \<and> started e \<and> item e (ID t) = None
    \<and> known_deps e (ID t) (DependsOn t) = None)"
  shows "fst (Submit e t) = e \<and> (\<exists>er. snd (Submit e t) = Inl er)"
proof (cases "Task_validate t")
  case None
  show ?thesis
  proof (cases "closed e \<or> \<not> started e \<or> item e (ID t) \<noteq> None")
    case True
    with None show ?thesis unfolding Submit_def by auto
  next
    case False
    with None assms obtain er where "known_deps e (ID t) (DependsOn t) = Some er" by auto
    with None False show ?thesis unfolding Submit_def by simp
  qed
qed (simp add: Submit_def)

lemma engine_ok_Submit:
  assumes e: "engine_ok e" shows "engine_ok (fst (Submit e t))"
proof (cases "Task_validate t = None \<and> \<not> closed e \<and> started e \<and> item e (ID t) = None
    \<and> known_deps e (ID t) (DependsOn t) = None")
  case True
  obtain e1 p1 de1 where r: "register_deps (ID t) (DependsOn t) (e, 0, None) = (e1, p1, de1)"
    by (metis prod_cases3)
  let ?e2 = "put e1 (ID t) (newItem t p1 de1 (nextCtx e1))"
  let ?e3 = "publish (?e2\<lparr>nextCtx := nextCtx e1 + 1\<rparr>)
    (mkEvent EventSubmitted (ID t)\<lparr>EvState := it_state (newItem t p1 de1 (nextCtx e1))\<rparr>)"
  have ds: "set (DependsOn t) \<subseteq> set (keys e)" using True by (simp add: known_deps_None_iff)
  have i3: "items ?e3 = items ?e2" by simp
  have tab: "items_ok ?e3" "links_ok ?e3" "topo_ok ?e3"
      "counts_ok ?e3 (if de1 = None then {} else {ID t})"
    using submit_table [OF e _ ds r refl refl refl] True table_items [OF i3] counts_ok_items [OF i3] by auto
  show ?thesis
  proof (cases de1)
    case None
    then have "engine_ok ?e3" using tab by (simp add: engine_ok_def)
    then show ?thesis using True r None by (auto simp: Submit_def Let_def)
  next
    case (Some er)
    let ?e4 = "finalizeLocked ?e3 (ID t) StateFailed (Some er)"
    have dist: "distinct (keys ?e3)" using tab(1) by (simp add: items_ok_def)
    have ev: "evolves ?e3 ?e4" using dist by (intro evolves_finalizeLocked) auto
    have "counts_ok ?e4 {ID t}" using tab Some by (intro counts_ok_finalizeLocked) auto
    moreover have "item ?e3 (ID t) = Some (newItem t p1 de1 (nextCtx e1))" by simp
    then obtain it' where "item ?e4 (ID t) = Some it'" "it_finished it'"
      by (rule finalizeLocked_finished) (use dist in auto)
    ultimately have "counts_ok ?e4 {}" by (auto intro: counts_ok_drop simp: fresh_def)
    then have "engine_ok ?e4" using tab ev unfolding engine_ok_def
      by (blast intro: items_ok_evolves links_ok_evolves topo_ok_evolves)
    then show ?thesis using True r Some by (auto simp: Submit_def Let_def)
  qed
next
  case False
  then have "fst (Submit e t) = e" by (rule Submit_rejects [THEN conjunct1])
  with e show ?thesis by simp
qed

lemma engine_ok_Start: "engine_ok e \<Longrightarrow> Start e = Inr e' \<Longrightarrow> engine_ok e'"
  by (auto simp: Start_def split: if_splits)

lemma engine_ok_shutdownBegin: "engine_ok e \<Longrightarrow> engine_ok (shutdownBegin e)"
  by (simp add: shutdownBegin_def)

lemma engine_ok_shutdownEnd: "engine_ok e \<Longrightarrow> engine_ok (snd (shutdownEnd h e))"
  by (simp add: shutdownEnd_def releaseMode_def Let_def)

lemma engine_ok_newEngine: "engine_ok (newEngine o')"
  by (simp add: engine_ok_def items_ok_def links_ok_def topo_ok_def counts_ok_def newEngine_def
      item_def keys_def)

end
