(* ===== verification/BackupSystem.thy ===== *)
theory BackupSystem
  imports BackupOps
begin

text \<open>
  The running engine: its goroutines as program counters between the lock regions of the code.
  \<open>worker_step\<close> models \<open>worker\<close>, \<open>pause_step\<close> models \<open>pauseWait\<close> (called by the
  worker and by \<open>Checkpoint\<close>), \<open>watcher_step\<close> models \<open>watcherLoop\<close> with
  \<open>runWatcherCheck\<close>, \<open>sys_exec\<close> composes them with the scheduler, the calls of users and
  \<open>Shutdown\<close>.  Whatever the code does not decide (the result of a \<open>WorkFunc\<close> or of a
  watcher's check, which ready branch a \<open>select\<close> takes, when a timer fires, the order in which
  Go ranges over the map) is part of the label of a step.
\<close>

section \<open>Goroutines\<close>

datatype choice =
    Go                                   \<comment> \<open>the next statement, or the channel a select waits for\<close>
  | CtxDone                              \<comment> \<open>the context's branch of a select\<close>
  | TimerFires                           \<comment> \<open>the timeout of the attempt's context\<close>
  | Returns "gerror option"              \<comment> \<open>\<open>Work\<close> returns, or panics\<close>
  | Verdict WatcherAction "gerror option" \<comment> \<open>\<open>Check\<close> returns\<close>

text \<open>\<open>pauseWait\<close>; \<open>cdone\<close> says whether the caller's context is done.\<close>

datatype ppc = PEnter | PTrans | PRead | PBlock nat | PResumed | PRun | PRet "gerror option"

definition on_go :: "choice \<Rightarrow> 'a \<Rightarrow> 'a option" where
  "on_go l x = (if l = Go then Some x else None)"

definition pause_step :: "Engine \<Rightarrow> string \<Rightarrow> bool \<Rightarrow> ppc \<Rightarrow> choice \<Rightarrow> (Engine \<times> ppc) option" where
  "pause_step e i cdone p l =
     (case item e i of None \<Rightarrow> None | Some it \<Rightarrow>
      (case p of
         PEnter \<Rightarrow> on_go l (e, if gate_isPaused (it_gate it) then PTrans else PRet None)
       | PTrans \<Rightarrow> on_go l (transition e i StatePaused, PRead)
       | PRead \<Rightarrow> on_go l (e, PBlock (gate_ch (it_gate it)))
       | PBlock ch \<Rightarrow>
           if l = Go \<and> gate_open (it_gate it) ch then Some (e, PResumed)
           else if l = CtxDone \<and> cdone then Some (e, PRet (Some (Sentinel ContextCanceled)))
           else None
       | PResumed \<Rightarrow> on_go l (e, if isFinished it then PRet None else PRun)
       | PRun \<Rightarrow> on_go l (transition e i StateRunning, PRet None)
       | PRet r \<Rightarrow> None))"

text \<open>
  The worker.  \<open>WWork c a r\<close> is the execution of \<open>Work\<close> in attempt \<open>a\<close> under the task
  context \<open>c\<close>; \<open>r\<close> is the error of the attempt's context once it is done.
\<close>

datatype wpc =
    WTop | WOwn | WGate nat | WPause nat ppc | WCancel | WAcquire nat | WStart nat
  | WWork nat int "sentinel option"
  | WRelease nat int "gerror option" "sentinel option"
  | WOutcome nat int "gerror option" "sentinel option"
  | WAlive nat int "gerror option" "sentinel option"
  | WFinal TaskState "gerror option"
  | WRetry nat int "gerror option" | WPubRetry nat int "gerror option" | WBackoff nat
  | WExit | WDone | WGone

record worker =
  wk_task :: string
  wk_gen :: int
  wk_pc :: wpc

text \<open>The switch after an attempt.\<close>

definition outcome :: "Task \<Rightarrow> nat \<Rightarrow> int \<Rightarrow> gerror option \<Rightarrow> sentinel option \<Rightarrow> wpc" where
  "outcome t c a err ctxErr =
     (if err = None then WFinal StateCompleted None
      else if ctxErr = Some ContextCanceled then WFinal StateCancelled (Some (Sentinel ErrCancelled))
      else if ctxErr = Some ContextDeadlineExceeded \<and> a > Retry t then WFinal StateTimedOut err
      else if a > Retry t then WFinal StateFailed err
      else WRetry c a err)"

definition attempt_err :: "Engine \<Rightarrow> nat \<Rightarrow> sentinel option \<Rightarrow> sentinel option" where
  "attempt_err e c r =
     (case r of Some x \<Rightarrow> Some x | None \<Rightarrow> if ctxDone e c then Some ContextCanceled else None)"

definition worker_pc :: "Engine \<Rightarrow> string \<Rightarrow> int \<Rightarrow> wpc \<Rightarrow> taskItem \<Rightarrow> choice \<Rightarrow> (Engine \<times> wpc) option" where
  "worker_pc e i gen pc it l =
     (case pc of
        WTop \<Rightarrow> on_go l (e, if isFinished it then WExit else WOwn)
      | WOwn \<Rightarrow> on_go l (e, if it_generation it \<noteq> gen then WExit else WGate (it_taskCtx it))
      | WGate c \<Rightarrow> on_go l (e, if gate_isPaused (it_gate it) then WPause c PEnter else WAcquire c)
      | WPause c p \<Rightarrow>
          (case p of
             PRet r \<Rightarrow> on_go l (e, case r of None \<Rightarrow> WTop | Some _ \<Rightarrow> WCancel)
           | _ \<Rightarrow> map_option (\<lambda>(e', p'). (e', WPause c p')) (pause_step e i (ctxDone e c) p l))
      | WCancel \<Rightarrow>
          on_go l (e, if it_generation it \<noteq> gen then WExit
                      else WFinal StateCancelled (Some (Sentinel ErrCancelled)))
      | WAcquire c \<Rightarrow>
          if l = Go \<and> sem e < concurrency (opts e) then Some (e\<lparr>sem := sem e + 1\<rparr>, WStart c)
          else if l = CtxDone \<and> ctxDone e c then Some (e, WCancel)
          else None
      | WStart c \<Rightarrow>
          on_go l (put e i (it\<lparr>it_attempt := it_attempt it + 1\<rparr>), WWork c (it_attempt it + 1) None)
      | WWork c a r \<Rightarrow>
          (case l of
             TimerFires \<Rightarrow>
               if Timeout (it_task it) > 0 \<and> r = None \<and> \<not> ctxDone e c
               then Some (e, WWork c a (Some ContextDeadlineExceeded)) else None
           | CtxDone \<Rightarrow>
               if r = None \<and> ctxDone e c then Some (e, WWork c a (Some ContextCanceled)) else None
           | Returns err \<Rightarrow> Some (e, WRelease c a err (attempt_err e c r))
           | _ \<Rightarrow> None)
      | WRelease c a err r \<Rightarrow> on_go l (e\<lparr>sem := sem e - 1\<rparr>, WOutcome c a err r)
      | WOutcome c a err r \<Rightarrow> on_go l (e, if it_generation it \<noteq> gen then WExit else WAlive c a err r)
      | WAlive c a err r \<Rightarrow> on_go l (e, if isFinished it then WExit else outcome (it_task it) c a err r)
      | WFinal st err \<Rightarrow> on_go l (finalizeLocked e i st err, WExit)
      | WRetry c a err \<Rightarrow> on_go l (transition e i StateWaiting, WPubRetry c a err)
      | WPubRetry c a err \<Rightarrow>
          on_go l (publish e (mkEvent EventRetry i\<lparr>Attempt := a, Err := err, EvState := StateWaiting\<rparr>),
                   if RetryBackoff (it_task it) > 0 then WBackoff c else WTop)
      | WBackoff c \<Rightarrow>
          if l = Go then Some (e, WTop)
          else if l = CtxDone \<and> ctxDone e c then Some (e, WCancel)
          else None
      | WExit \<Rightarrow>
          on_go l (if it_generation it = gen then put e i (it\<lparr>it_inFlight := False\<rparr>) else e, WDone)
      | WDone \<Rightarrow> on_go l (e\<lparr>wg := wg e - 1\<rparr>, WGone)
      | WGone \<Rightarrow> None)"

definition worker_step :: "Engine \<Rightarrow> worker \<Rightarrow> choice \<Rightarrow> (Engine \<times> worker) option" where
  "worker_step e w l =
     (case item e (wk_task w) of None \<Rightarrow> None
      | Some it \<Rightarrow> map_option (\<lambda>(e', p). (e', w\<lparr>wk_pc := p\<rparr>))
                     (worker_pc e (wk_task w) (wk_gen w) (wk_pc w) it l))"

text \<open>A watcher's goroutine.\<close>

datatype xpc = XStart | XLoop | XCheck | XRun | XVerdict WatcherAction "gerror option" | XDone | XGone

record watcher_proc =
  wt_task :: string
  wt_watcher :: Watcher
  wt_ctx :: nat
  wt_gen :: int
  wt_pc :: xpc

definition watcher_pc :: "Engine \<Rightarrow> watcher_proc \<Rightarrow> xpc \<Rightarrow> choice \<Rightarrow> (Engine \<times> xpc) option" where
  "watcher_pc e w pc l =
     (case pc of
        XStart \<Rightarrow> on_go l (e, if Immediate (wt_watcher w) then XCheck else XLoop)
      | XLoop \<Rightarrow>
          if l = CtxDone \<and> ctxDone e (wt_ctx w) then Some (e, XDone)
          else if l = Go then Some (e, XCheck)
          else None
      | XCheck \<Rightarrow> on_go l (e, if stale e (wt_task w) (wt_gen w) then XDone else XRun)
      | XRun \<Rightarrow> (case l of Verdict a err \<Rightarrow> Some (e, XVerdict a err) | _ \<Rightarrow> None)
      | XVerdict a err \<Rightarrow>
          on_go l (case watcherVerdict e (wt_task w) (wt_gen w) a err of
                     (e', stop) \<Rightarrow> (e', if stop then XDone else XLoop))
      | XDone \<Rightarrow> on_go l (e\<lparr>wg := wg e - 1\<rparr>, XGone)
      | XGone \<Rightarrow> None)"

definition watcher_step :: "Engine \<Rightarrow> watcher_proc \<Rightarrow> choice \<Rightarrow> (Engine \<times> watcher_proc) option" where
  "watcher_step e w l = map_option (\<lambda>(e', p). (e', w\<lparr>wt_pc := p\<rparr>)) (watcher_pc e w (wt_pc w) l)"

text \<open>A call of \<open>Reporter.Checkpoint\<close>, with a context of the caller's choice.\<close>

record checkpoint =
  cp_task :: string
  cp_pc :: ppc

datatype schedpc = SOff | SPick | SWait | SExit | SDone | SGone

datatype shutpc = ShIdle | ShWait | ShForcing | ShEnd | ShRelease | ShOver

record Sys =
  eng :: Engine
  host :: Host
  workers :: "worker list"
  watchers :: "watcher_proc list"
  checkpoints :: "checkpoint list"
  sched :: schedpc
  shut :: shutpc

fun spawn_worker :: "spawn \<Rightarrow> worker list" where
  "spawn_worker (SpawnWorker i g) = [\<lparr>wk_task = i, wk_gen = g, wk_pc = WTop\<rparr>]"
| "spawn_worker (SpawnWatcher i w c g) = []"

fun spawn_watcher :: "spawn \<Rightarrow> watcher_proc list" where
  "spawn_watcher (SpawnWorker i g) = []"
| "spawn_watcher (SpawnWatcher i w c g) =
     [\<lparr>wt_task = i, wt_watcher = w, wt_ctx = c, wt_gen = g, wt_pc = XStart\<rparr>]"

section \<open>Steps of the system\<close>

datatype label =
    LWorker nat choice | LWatcher nat choice | LCheckpoint nat choice
  | LNewCheckpoint nat | LReport nat int string
  | LStart | LSubmit Task | LPause string | LLatePause string | LResume string
  | LCancel string | LRetry string | LSubscribe int | LUnsubscribe nat | LTick int
  | LLaunch "string list" | LWake | LStop | LSchedExit "string list" | LSchedDone
  | LShutdown | LWaitDone | LExpire | LForce "string list" | LRelease

definition is_order :: "Engine \<Rightarrow> string list \<Rightarrow> bool" where
  "is_order e ord \<longleftrightarrow> distinct ord \<and> set ord = set (keys e)"

text \<open>
  \<open>Handle.Pause\<close> reads \<open>finished\<close> and closes the gate in two lock regions;
  \<open>LLatePause\<close> is the second region after the task finished in between.
\<close>

definition latePause :: "Engine \<Rightarrow> string \<Rightarrow> Engine" where
  "latePause e i = (case item e i of None \<Rightarrow> e
     | Some it \<Rightarrow> put e i (it\<lparr>it_gate := snd (gate_pause (it_gate it))\<rparr>))"

definition Subscribe :: "Engine \<Rightarrow> int \<Rightarrow> nat \<times> Engine" where
  "Subscribe e buffer =
     (case hub_subscribe (hub e) (if buffer \<le> 0 then eventBuffer (opts e) else buffer) of
        (i, h) \<Rightarrow> (i, e\<lparr>hub := h\<rparr>))"

fun sys_exec :: "label \<Rightarrow> Sys \<Rightarrow> Sys option" where
  "sys_exec (LWorker k l) s =
     (if k < length (workers s)
      then map_option (\<lambda>(e, w). s\<lparr>eng := e, workers := (workers s)[k := w]\<rparr>)
             (worker_step (eng s) (workers s ! k) l)
      else None)"
| "sys_exec (LWatcher k l) s =
     (if k < length (watchers s)
      then map_option (\<lambda>(e, w). s\<lparr>eng := e, watchers := (watchers s)[k := w]\<rparr>)
             (watcher_step (eng s) (watchers s ! k) l)
      else None)"
| "sys_exec (LCheckpoint k l) s =
     (if k < length (checkpoints s)
      then let c = checkpoints s ! k in
           map_option (\<lambda>(e, p). s\<lparr>eng := e, checkpoints := (checkpoints s)[k := c\<lparr>cp_pc := p\<rparr>]\<rparr>)
             (pause_step (eng s) (cp_task c) True (cp_pc c) l)
      else None)"
| "sys_exec (LNewCheckpoint k) s =
     (if k < length (workers s)
      then Some (s\<lparr>checkpoints := checkpoints s @ [\<lparr>cp_task = wk_task (workers s ! k), cp_pc = PEnter\<rparr>]\<rparr>)
      else None)"
| "sys_exec (LReport k pc msg) s =
     (if k < length (workers s)
      then Some (s\<lparr>eng := fst (Report (eng s) (wk_task (workers s ! k)) pc msg)\<rparr>) else None)"
| "sys_exec LStart s =
     (case Start (eng s) of
        Inl _ \<Rightarrow> Some s
      | Inr e \<Rightarrow> Some (s\<lparr>eng := e, sched := (if started (eng s) then sched s else SPick)\<rparr>))"
| "sys_exec (LSubmit t) s = Some (s\<lparr>eng := fst (Submit (eng s) t)\<rparr>)"
| "sys_exec (LPause i) s = Some (s\<lparr>eng := fst (Handle_Pause (eng s) i)\<rparr>)"
| "sys_exec (LLatePause i) s = Some (s\<lparr>eng := latePause (eng s) i\<rparr>)"
| "sys_exec (LResume i) s = Some (s\<lparr>eng := fst (Handle_Resume (eng s) i)\<rparr>)"
| "sys_exec (LCancel i) s = Some (s\<lparr>eng := fst (Handle_Cancel (eng s) i)\<rparr>)"
| "sys_exec (LRetry i) s = Some (s\<lparr>eng := fst (Handle_Retry (eng s) i)\<rparr>)"
| "sys_exec (LSubscribe b) s = Some (s\<lparr>eng := snd (Subscribe (eng s) b)\<rparr>)"
| "sys_exec (LUnsubscribe i) s = Some (s\<lparr>eng := (eng s)\<lparr>hub := hub_unsubscribe (hub (eng s)) i\<rparr>\<rparr>)"
| "sys_exec (LTick now) s = Some (s\<lparr>eng := (eng s)\<lparr>clock := now\<rparr>\<rparr>)"
| "sys_exec (LLaunch ord) s =
     (if sched s = SPick \<and> is_order (eng s) ord
      then (case launchLocked (eng s) (pickReadyLocked (eng s) ord) of
              (e, gs) \<Rightarrow> Some (s\<lparr>eng := e, sched := SWait,
                                 workers := workers s @ concat (map spawn_worker gs),
                                 watchers := watchers s @ concat (map spawn_watcher gs)\<rparr>))
      else None)"
| "sys_exec LWake s =
     (if sched s = SWait \<and> wake (eng s) = Some True
      then Some (s\<lparr>eng := (eng s)\<lparr>wake := Some False\<rparr>, sched := SPick\<rparr>) else None)"
| "sys_exec LStop s =
     (if sched s = SWait \<and> stopCh (eng s) = Some True then Some (s\<lparr>sched := SExit\<rparr>) else None)"
| "sys_exec (LSchedExit ord) s =
     (if sched s = SExit \<and> is_order (eng s) ord
      then Some (s\<lparr>eng := onSchedulerExit (eng s) ord, sched := SDone\<rparr>) else None)"
| "sys_exec LSchedDone s =
     (if sched s = SDone then Some (s\<lparr>eng := (eng s)\<lparr>wg := wg (eng s) - 1\<rparr>, sched := SGone\<rparr>) else None)"
| "sys_exec LShutdown s =
     Some (s\<lparr>eng := shutdownBegin (eng s),
             shut := (if closed (eng s) then shut s
                      else if started (eng s) then ShWait else ShRelease)\<rparr>)"
| "sys_exec LWaitDone s =
     (if shut s = ShWait \<and> wg (eng s) = 0 then Some (s\<lparr>shut := ShEnd\<rparr>) else None)"
| "sys_exec LExpire s =
     (if shut s = ShWait then Some (s\<lparr>eng := (eng s)\<lparr>engineCancelled := True\<rparr>, shut := ShForcing\<rparr>)
      else None)"
| "sys_exec (LForce ord) s =
     (if shut s = ShForcing \<and> is_order (eng s) ord
      then Some (s\<lparr>eng := shutdownForce (eng s) ord, shut := ShEnd\<rparr>) else None)"
| "sys_exec LRelease s =
     (if shut s = ShEnd
      then (case shutdownEnd (host s) (eng s) of (h, e) \<Rightarrow> Some (s\<lparr>host := h, eng := e, shut := ShOver\<rparr>))
      else if shut s = ShRelease
      then (case releaseMode (host s) (eng s) of (h, e) \<Rightarrow> Some (s\<lparr>host := h, eng := e, shut := ShOver\<rparr>))
      else None)"

definition sys_init :: "Host \<Rightarrow> Engine \<Rightarrow> Sys" where
  "sys_init h e = \<lparr>eng = e, host = h, workers = [], watchers = [], checkpoints = [],
                   sched = SOff, shut = ShIdle\<rparr>"

fun sys_run :: "label list \<Rightarrow> Sys \<Rightarrow> Sys option" where
  "sys_run [] s = Some s"
| "sys_run (l # ls) s = Option.bind (sys_exec l s) (sys_run ls)"

text \<open>The states an engine returned by \<open>New\<close> can reach.\<close>

inductive reachable :: "Sys \<Rightarrow> bool" where
  reach_init: "New numCPU fs h os = (h', Inr e) \<Longrightarrow> reachable (sys_init h' e)"
| reach_step: "reachable s \<Longrightarrow> sys_exec l s = Some s' \<Longrightarrow> reachable s'"

lemma reachable_run: "reachable s \<Longrightarrow> sys_run ls s = Some s' \<Longrightarrow> reachable s'"
  by (induction ls arbitrary: s) (auto split: Option.bind_splits intro: reach_step)

end
