(* ===== verification/BackupSafety.thy ===== *)
theory BackupSafety
  imports BackupSystem
begin

text \<open>
  Invariants of every reachable state of the running engine, by induction over the steps:
  the task table invariant, ownership of tasks by workers, the accounting of the concurrency
  slots and of the wait group, and the life cycle of the scheduler.
\<close>

section \<open>What a step reads and writes of the bookkeeping\<close>

text \<open>Who owns a task: its generation and whether a worker is in flight.\<close>

definition own :: "Engine \<Rightarrow> string \<Rightarrow> (int \<times> bool) option" where
  "own e i = map_option (\<lambda>it. (it_generation it, it_inFlight it)) (item e i)"

definition ctl :: "Engine \<Rightarrow> options \<times> bool \<times> bool \<times> bool option \<times> int \<times> int" where
  "ctl e = (opts e, started e, closed e, stopCh e, sem e, wg e)"

lemma ctlD:
  assumes "ctl e = ctl e'"
  shows "opts e = opts e'" "started e = started e'" "closed e = closed e'" "stopCh e = stopCh e'"
    "sem e = sem e'" "wg e = wg e'"
  using assms by (simp_all add: ctl_def)

lemma ctl_frame: "frame e = frame e' \<Longrightarrow> ctl e = ctl e'"
  by (simp add: ctl_def frame_def)

lemma ctl_updates [simp]:
  "ctl (put e i it) = ctl e" "ctl (cancelCtx e c) = ctl e" "ctl (publish e ev) = ctl e"
  "ctl (wakeLocked e) = ctl e" "ctl (e\<lparr>nextCtx := n\<rparr>) = ctl e" "ctl (e\<lparr>wake := w\<rparr>) = ctl e"
  "ctl (e\<lparr>engineCancelled := b\<rparr>) = ctl e" "ctl (e\<lparr>hub := h\<rparr>) = ctl e" "ctl (e\<lparr>clock := z\<rparr>) = ctl e"
  "ctl (e\<lparr>lock := lo\<rparr>) = ctl e" "ctl (e\<lparr>released := b\<rparr>) = ctl e" "ctl (e\<lparr>procHeld := b\<rparr>) = ctl e"
  by (simp_all add: ctl_def put_def cancelCtx_def publish_def wakeLocked_def split: option.splits)

lemma own_item: "item e' = item e \<Longrightarrow> own e' = own e"
  by (simp add: own_def fun_eq_iff)

lemma own_put: "own (put e i it) = (own e)(i \<mapsto> (it_generation it, it_inFlight it))"
  by (simp add: own_def fun_eq_iff)

lemma own_Some: "item e i = Some it \<Longrightarrow> own e i = Some (it_generation it, it_inFlight it)"
  by (simp add: own_def)

lemma own_put_same [simp]:
  "item e i = Some it \<Longrightarrow> it_generation it' = it_generation it \<Longrightarrow> it_inFlight it' = it_inFlight it \<Longrightarrow>
   own (put e i it') = own e"
  by (simp add: own_put own_Some fun_upd_idem)

lemma own_updates [simp]:
  "own (cancelCtx e c) = own e" "own (publish e ev) = own e" "own (wakeLocked e) = own e"
  "own (e\<lparr>nextCtx := n\<rparr>) = own e" "own (e\<lparr>wake := w\<rparr>) = own e" "own (e\<lparr>started := b\<rparr>) = own e"
  "own (e\<lparr>closed := b\<rparr>) = own e" "own (e\<lparr>stopCh := w\<rparr>) = own e" "own (e\<lparr>sem := z\<rparr>) = own e"
  "own (e\<lparr>wg := z\<rparr>) = own e" "own (e\<lparr>engineCancelled := b\<rparr>) = own e" "own (e\<lparr>hub := h\<rparr>) = own e"
  "own (e\<lparr>clock := z\<rparr>) = own e" "own (e\<lparr>lock := lo\<rparr>) = own e" "own (e\<lparr>released := b\<rparr>) = own e"
  "own (e\<lparr>procHeld := b\<rparr>) = own e"
  by (rule own_item, simp)+

lemma own_evolves:
  assumes "evolves e e'" shows "own e' = own e"
proof (rule ext)
  fix i show "own e' i = own e i"
  proof (cases "item e i")
    case None
    with assms show ?thesis by (simp add: own_def evolves_def) (metis option.rel_sel)
  next
    case (Some it)
    then obtain it' where "item e' i = Some it'" "evolve it it'" by (rule evolves_itemD [OF assms])
    with Some show ?thesis using evolve_fields(7,8) [of it it'] by (simp add: own_def)
  qed
qed

definition quiet :: "Engine \<Rightarrow> Engine \<Rightarrow> bool" where
  "quiet e e' \<longleftrightarrow> own e' = own e \<and> ctl e' = ctl e"

lemma quiet_refl [simp]: "quiet e e"
  by (simp add: quiet_def)

lemma quiet_trans: "quiet a b \<Longrightarrow> quiet b c \<Longrightarrow> quiet a c"
  by (simp add: quiet_def)

lemma quiet_evolves: "evolves e e' \<Longrightarrow> quiet e e'"
  unfolding quiet_def by (intro conjI own_evolves ctl_frame) (simp_all add: evolves_def)

lemma quiet_finalizeLocked: "engine_ok e \<Longrightarrow> fin_ok st er \<Longrightarrow> quiet e (finalizeLocked e i st er)"
  by (intro quiet_evolves evolves_finalizeLocked engine_okD(5))

lemma quiet_transition: "quiet e (transition e i st)"
  by (simp add: transition_def quiet_def split: option.splits)

lemma quiet_wake: "quiet e e' \<Longrightarrow> quiet e (wakeLocked e')"
  by (simp add: quiet_def)

lemma quiet_cancelLocked: "engine_ok e \<Longrightarrow> quiet e (fst (cancelLocked e i))"
  by (auto simp: cancelLocked_def quiet_finalizeLocked intro!: quiet_wake split: option.splits TaskState.splits)
    (simp_all add: quiet_def)

lemma quiet_watcherVerdict: "engine_ok e \<Longrightarrow> quiet e (fst (watcherVerdict e i g a er))"
  by (simp add: watcherVerdict_def quiet_cancelLocked quiet_finalizeLocked Let_def split: WatcherAction.splits)

lemma quiet_gate:
  "quiet e (fst (Handle_Pause e i))" "quiet e (fst (Handle_Resume e i))" "quiet e (latePause e i)"
  by (simp_all add: Handle_Pause_def Handle_Resume_def latePause_def quiet_def split: option.splits prod.splits)

lemma quiet_Report: "quiet e (fst (Report e i pc msg))"
  by (simp add: Report_def quiet_def Let_def split: option.splits)

lemma quiet_exit1: "engine_ok e \<Longrightarrow> quiet e (exit1 e i)"
  by (auto simp: exit1_def quiet_finalizeLocked split: option.splits TaskState.splits) (simp_all add: quiet_def)

lemma quiet_foldl:
  assumes "\<And>e x. engine_ok e \<Longrightarrow> quiet e (f e x) \<and> engine_ok (f e x)" "engine_ok e"
  shows "quiet e (foldl f e xs)"
  using assms(2)
proof (induction xs arbitrary: e)
  case (Cons x xs)
  with assms(1) [OF Cons.prems, of x] show ?case by (auto intro: quiet_trans)
qed simp

lemma quiet_onSchedulerExit: "engine_ok e \<Longrightarrow> quiet (e\<lparr>started := False\<rparr>) (onSchedulerExit e ord)"
  unfolding onSchedulerExit_def by (rule quiet_foldl) (auto simp: quiet_exit1 engine_ok_exit1)

lemma quiet_shutdownForce: "engine_ok e \<Longrightarrow> quiet e (shutdownForce e ord)"
  unfolding shutdownForce_def
  by (rule quiet_trans [OF _ quiet_foldl])
    (auto simp: quiet_finalizeLocked engine_ok_finalizeLocked, simp add: quiet_def)

lemma quiet_Subscribe: "quiet e (snd (Subscribe e b))"
  by (simp add: Subscribe_def quiet_def split: prod.splits)

lemma quiet_releaseMode: "quiet e (snd (releaseMode h e))"
  by (simp add: releaseMode_def quiet_def Let_def)

text \<open>The three operations that do change ownership.\<close>

lemma own_Submit:
  assumes "engine_ok e"
  shows "ctl (fst (Submit e t)) = ctl e"
    "own (fst (Submit e t)) = own e \<or> own e (ID t) = None \<and> own (fst (Submit e t)) = (own e)(ID t \<mapsto> (0, False))"
proof -
  have "ctl (fst (Submit e t)) = ctl e \<and> (own (fst (Submit e t)) = own e
    \<or> own e (ID t) = None \<and> own (fst (Submit e t)) = (own e)(ID t \<mapsto> (0, False)))"
  proof (cases "Task_validate t = None \<and> \<not> closed e \<and> started e \<and> item e (ID t) = None
      \<and> known_deps e (ID t) (DependsOn t) = None")
    case True
    obtain e1 p1 de1 where r: "register_deps (ID t) (DependsOn t) (e, 0, None) = (e1, p1, de1)"
      by (metis prod_cases3)
    let ?e2 = "put e1 (ID t) (newItem t p1 de1 (nextCtx e1))"
    let ?e3 = "publish (?e2\<lparr>nextCtx := nextCtx e1 + 1\<rparr>)
      (mkEvent EventSubmitted (ID t)\<lparr>EvState := it_state (newItem t p1 de1 (nextCtx e1))\<rparr>)"
    have ds: "set (DependsOn t) \<subseteq> set (keys e)" using True by (simp add: known_deps_None_iff)
    have "frame e1 = frame e" and i1: "\<And>i. item e1 i = map_option (add_dependent (ID t) (DependsOn t) i) (item e i)"
      using register_deps_item [OF ds r] by auto
    then have "ctl e1 = ctl e" by (blast intro: ctl_frame)
    have "own e1 = own e" by (rule ext) (simp add: own_def i1 option.map_comp comp_def add_dependent_def)
    then have 3: "ctl ?e3 = ctl e" "own ?e3 = (own e)(ID t \<mapsto> (0, False))"
      using \<open>ctl e1 = ctl e\<close> by (simp_all add: own_put newItem_def)
    have i3: "items ?e3 = items ?e2" by simp
    have "items_ok ?e3"
      using submit_table(1) [OF assms _ ds r refl refl refl] True table_items [OF i3] by auto
    then have "distinct (keys ?e3)" by (simp add: items_ok_def)
    then have q: "quiet ?e3 (finalizeLocked ?e3 (ID t) StateFailed (Some er))" for er
      by (intro quiet_evolves evolves_finalizeLocked) auto
    have "quiet ?e3 (fst (Submit e t))"
    proof (cases de1)
      case None
      then show ?thesis using True r by (simp add: Submit_def Let_def quiet_wake)
    next
      case (Some er)
      then show ?thesis using True r q [of er] by (simp add: Submit_def Let_def)
    qed
    moreover have "own e (ID t) = None" using True by (simp add: own_def)
    ultimately show ?thesis using 3 by (simp add: quiet_def)
  next
    case False
    then have "fst (Submit e t) = e" by (rule Submit_rejects [THEN conjunct1])
    then show ?thesis by simp
  qed
  then show "ctl (fst (Submit e t)) = ctl e"
    "own (fst (Submit e t)) = own e \<or> own e (ID t) = None \<and> own (fst (Submit e t)) = (own e)(ID t \<mapsto> (0, False))"
    by auto
qed

lemma own_Retry:
  "ctl (fst (Handle_Retry e i)) = ctl e"
  "own (fst (Handle_Retry e i)) = own e
   \<or> (\<exists>g f. own e i = Some (g, f) \<and> own (fst (Handle_Retry e i)) = (own e)(i \<mapsto> (g + 1, False)))"
  by (auto simp: Handle_Retry_def Let_def own_put own_def split: option.splits)

section \<open>Steps of one worker\<close>

definition holds :: "wpc \<Rightarrow> bool" where
  "holds pc = (case pc of WStart _ \<Rightarrow> True | WWork _ _ _ \<Rightarrow> True | WRelease _ _ _ _ \<Rightarrow> True | _ \<Rightarrow> False)"

definition past :: "wpc \<Rightarrow> bool" where
  "past pc \<longleftrightarrow> pc \<in> {WDone, WGone}"

text \<open>A worker only asks for terminal states with a matching error.\<close>

definition pc_ok :: "wpc \<Rightarrow> bool" where
  "pc_ok pc = (case pc of WFinal st er \<Rightarrow> fin_ok st er | _ \<Rightarrow> True)"

lemma pc_ok_outcome: "pc_ok (outcome t c a err r)"
  by (auto simp: outcome_def pc_ok_def fin_ok_def Terminal_def)

lemma holds_outcome [simp]: "\<not> holds (outcome t c a err r)" "\<not> past (outcome t c a err r)"
    "outcome t c a err r \<noteq> WGone"
  by (auto simp: outcome_def holds_def past_def)

lemma pause_step_ok:
  assumes "pause_step e i cd p l = Some (e', p')" "engine_ok e" "own e i = Some (g, f)" "1 \<le> g"
  shows "engine_ok e'" "quiet e e'"
proof -
  have "engine_ok (transition e i st)" if "\<not> Terminal st" for st
    using assms(2) that by (rule engine_ok_transition) (use assms(3,4) own_Some in force)
  then have "engine_ok (transition e i StatePaused)" "engine_ok (transition e i StateRunning)"
    by (simp_all add: Terminal_def)
  then show "engine_ok e'" "quiet e e'" using assms(1,2)
    by (auto simp: pause_step_def on_go_def quiet_transition split: option.splits ppc.splits if_splits)
qed

text \<open>What a step of a worker changes of the bookkeeping, by its program counters.\<close>

definition wbook :: "Engine \<Rightarrow> string \<Rightarrow> int \<Rightarrow> wpc \<Rightarrow> Engine \<Rightarrow> wpc \<Rightarrow> bool" where
  "wbook e i gen pc e' pc' \<longleftrightarrow>
     opts e' = opts e \<and> started e' = started e \<and> closed e' = closed e \<and> stopCh e' = stopCh e
     \<and> sem e' = sem e + of_bool (holds pc') - of_bool (holds pc)
     \<and> (sem e < sem e' \<longrightarrow> sem e' \<le> concurrency (opts e))
     \<and> wg e' = wg e + of_bool (pc' \<noteq> WGone) - of_bool (pc \<noteq> WGone)
     \<and> own e' = (if pc = WExit \<and> map_option fst (own e i) = Some gen
                 then (own e)(i \<mapsto> (gen, False)) else own e)
     \<and> (past pc' \<longleftrightarrow> pc \<in> {WExit, WDone}) \<and> (past pc \<longrightarrow> pc = WDone)"

lemma wbook_quiet:
  "quiet e e' \<Longrightarrow> holds pc' = holds pc \<Longrightarrow> pc \<notin> {WExit, WDone, WGone} \<Longrightarrow> \<not> past pc' \<Longrightarrow>
   wbook e i gen pc e' pc'"
  using ctlD [of e' e] by (auto simp: wbook_def quiet_def past_def)

lemma worker_pc_ok:
  assumes step: "worker_pc e i gen pc it l = Some (e', pc')" and e: "engine_ok e"
    and it: "item e i = Some it" "1 \<le> it_generation it" and pc: "pc_ok pc"
  shows "engine_ok e' \<and> pc_ok pc' \<and> wbook e i gen pc e' pc'"
proof -
  have tr: "engine_ok (transition e i StateWaiting)"
    using e by (rule engine_ok_transition) (use it in \<open>auto simp: Terminal_def\<close>)
  have own: "own e i = Some (it_generation it, it_inFlight it)" using it(1) by (rule own_Some)
  have ok: "item_ok i it" using e it(1) by (rule engine_ok_item)
  show ?thesis
  proof (cases pc)
    case (WPause c p)
    show ?thesis
    proof (cases "\<exists>r. p = PRet r")
      case True
      then show ?thesis using WPause step e
        by (auto simp: worker_pc_def on_go_def pc_ok_def holds_def past_def
            intro!: wbook_quiet split: if_splits option.splits)
    next
      case False
      then obtain p' where p': "pause_step e i (ctxDone e c) p l = Some (e', p')" "pc' = WPause c p'"
        using WPause step by (auto simp: worker_pc_def split: ppc.splits)
      with pause_step_ok [OF p'(1) e own it(2)] WPause show ?thesis
        by (auto simp: pc_ok_def holds_def past_def intro!: wbook_quiet)
    qed
  next
    case (WFinal st er)
    with step e pc quiet_finalizeLocked [OF e, of st er i] show ?thesis
      by (auto simp: worker_pc_def on_go_def pc_ok_def holds_def past_def engine_ok_finalizeLocked
          intro!: wbook_quiet split: if_splits)
  next
    case (WRetry c a er)
    with step tr quiet_transition [of e i StateWaiting] show ?thesis
      by (auto simp: worker_pc_def on_go_def pc_ok_def holds_def past_def intro!: wbook_quiet split: if_splits)
  next
    case (WStart c)
    have "engine_ok (put e i (it\<lparr>it_attempt := it_attempt it + 1\<rparr>))"
      using e it(1) by (rule engine_ok_put) (use ok in \<open>auto simp: item_ok_def fresh_def\<close>)
    moreover have "quiet e (put e i (it\<lparr>it_attempt := it_attempt it + 1\<rparr>))"
      using it by (simp add: quiet_def)
    ultimately show ?thesis using WStart step
      by (auto simp: worker_pc_def on_go_def pc_ok_def holds_def past_def intro!: wbook_quiet split: if_splits)
  next
    case WExit
    have "engine_ok (put e i (it\<lparr>it_inFlight := False\<rparr>))"
      using e it(1) by (rule engine_ok_put) (use ok in \<open>auto simp: item_ok_def fresh_def\<close>)
    then show ?thesis using WExit step e it own ctlD [OF ctl_updates(1) [of e i "it\<lparr>it_inFlight := False\<rparr>"]]
      by (auto simp: worker_pc_def on_go_def pc_ok_def holds_def past_def wbook_def own_put split: if_splits)
  next
    case (WAlive c a er r)
    with step have "e' = e" "pc' = WExit \<or> pc' = outcome (it_task it) c a er r"
      by (auto simp: worker_pc_def on_go_def split: if_splits)
    moreover have "\<not> holds WExit" "\<not> past WExit" "pc_ok WExit" "\<not> holds pc"
      using WAlive by (simp_all add: holds_def past_def pc_ok_def)
    ultimately show ?thesis using e WAlive pc_ok_outcome
      by (auto intro!: wbook_quiet)
  next
    case (WPubRetry c a er)
    with step e ctlD [OF ctl_updates(3) [of e]] show ?thesis
      by (auto simp: worker_pc_def on_go_def pc_ok_def wbook_def holds_def past_def split: if_splits)
  qed (use step e in \<open>auto simp: worker_pc_def on_go_def pc_ok_def holds_def past_def wbook_def own_def it
        split: if_splits choice.splits option.splits\<close>)
qed

section \<open>Ownership\<close>

text \<open>
  Over the ownership map and the list of workers (task, generation, whether it has given the
  task up): a worker's generation is at most the task's, no two workers share a task and a
  generation, and a task is in flight exactly when the worker of its generation still has it.
\<close>

definition own_ok :: "(string \<Rightarrow> (int \<times> bool) option) \<Rightarrow> (string \<times> int \<times> bool) list \<Rightarrow> bool" where
  "own_ok m ts \<longleftrightarrow>
     (\<forall>i g p. (i, g, p) \<in> set ts \<longrightarrow> (\<exists>G f. m i = Some (G, f) \<and> 1 \<le> g \<and> g \<le> G))
     \<and> distinct (map (\<lambda>(i, g, p). (i, g)) ts)
     \<and> (\<forall>i g. m i = Some (g, True) \<longrightarrow> (i, g, False) \<in> set ts)
     \<and> (\<forall>i g f. m i = Some (g, f) \<longrightarrow> (i, g, False) \<in> set ts \<longrightarrow> f)"

definition tag :: "worker \<Rightarrow> string \<times> int \<times> bool" where
  "tag w = (wk_task w, wk_gen w, past (wk_pc w))"

lemma own_okI:
  assumes "\<And>i g p. (i, g, p) \<in> set ts \<Longrightarrow> \<exists>G f. m i = Some (G, f) \<and> 1 \<le> g \<and> g \<le> G"
    and "distinct (map (\<lambda>(i, g, p). (i, g)) ts)"
    and "\<And>i g. m i = Some (g, True) \<Longrightarrow> (i, g, False) \<in> set ts"
    and "\<And>i g f. m i = Some (g, f) \<Longrightarrow> (i, g, False) \<in> set ts \<Longrightarrow> f"
  shows "own_ok m ts"
  using assms unfolding own_ok_def by blast

lemma own_okD:
  assumes "own_ok m ts"
  shows "(i, g, p) \<in> set ts \<Longrightarrow> \<exists>G f. m i = Some (G, f) \<and> 1 \<le> g \<and> g \<le> G"
    and "distinct (map (\<lambda>(i, g, p). (i, g)) ts)"
    and "m i = Some (g, True) \<Longrightarrow> (i, g, False) \<in> set ts"
    and "m i = Some (g, f) \<Longrightarrow> (i, g, False) \<in> set ts \<Longrightarrow> f"
  using assms unfolding own_ok_def by blast+

lemma own_ok_bound: "own_ok m ts \<Longrightarrow> m i = Some (G, f) \<Longrightarrow> (i, g, p) \<in> set ts \<Longrightarrow> g \<le> G"
  using own_okD(1) by fastforce

lemma own_ok_submit:
  assumes "own_ok m ts" "m i = None" shows "own_ok (m(i \<mapsto> (0, False))) ts"
proof (rule own_okI)
  have n: "(i, g, p) \<notin> set ts" for g p using own_okD(1) [OF assms(1)] assms(2) by fastforce
  show "\<exists>G f. (m(i \<mapsto> (0, False))) j = Some (G, f) \<and> 1 \<le> g \<and> g \<le> G" if "(j, g, p) \<in> set ts" for j g p
    using own_okD(1) [OF assms(1) that] n that by auto
  show "f" if "(m(i \<mapsto> (0, False))) j = Some (g, f)" "(j, g, False) \<in> set ts" for j g f
    using own_okD(4) [OF assms(1)] that n by (auto split: if_splits)
qed (use own_okD(2,3) [OF assms(1)] in \<open>auto split: if_splits\<close>)

lemma own_ok_retry:
  assumes "own_ok m ts" "m i = Some (g, f)" shows "own_ok (m(i \<mapsto> (g + 1, False))) ts"
proof (rule own_okI)
  show "\<exists>G f. (m(i \<mapsto> (g + 1, False))) j = Some (G, f) \<and> 1 \<le> h \<and> h \<le> G" if "(j, h, p) \<in> set ts" for j h p
    using own_okD(1) [OF assms(1) that] assms(2) by auto
  show "f'" if "(m(i \<mapsto> (g + 1, False))) j = Some (h, f')" "(j, h, False) \<in> set ts" for j h f'
    using own_okD(4) [OF assms(1)] own_ok_bound [OF assms, of h] that by (fastforce split: if_splits)
qed (use own_okD(2,3) [OF assms(1)] in \<open>auto split: if_splits\<close>)

lemma own_ok_launch:
  assumes "own_ok m ts" "m i = Some (g, False)" "0 \<le> g"
  shows "own_ok (m(i \<mapsto> (g + 1, True))) (ts @ [(i, g + 1, False)])"
proof (rule own_okI)
  have n: "(i, g + 1, p) \<notin> set ts" for p using own_ok_bound [OF assms(1,2)] by fastforce
  show "distinct (map (\<lambda>(i, g, p). (i, g)) (ts @ [(i, g + 1, False)]))"
    using own_okD(2) [OF assms(1)] n by auto
  show "\<exists>G f. (m(i \<mapsto> (g + 1, True))) j = Some (G, f) \<and> 1 \<le> h \<and> h \<le> G"
    if "(j, h, p) \<in> set (ts @ [(i, g + 1, False)])" for j h p
    using that own_okD(1) [OF assms(1), of j h p] assms(2,3) by auto
  show "f" if "(m(i \<mapsto> (g + 1, True))) j = Some (h, f)" "(j, h, False) \<in> set (ts @ [(i, g + 1, False)])"
    for j h f using that own_okD(4) [OF assms(1)] by (auto split: if_splits)
qed (use own_okD(3) [OF assms(1)] in \<open>auto split: if_splits\<close>)

lemma own_ok_exit:
  assumes "own_ok m ts" "k < length ts" "ts ! k = (i, g, False)"
  shows "own_ok (if map_option fst (m i) = Some g then m(i \<mapsto> (g, False)) else m) (ts[k := (i, g, True)])"
proof -
  let ?ts = "ts[k := (i, g, True)]"
  have proj: "map (\<lambda>(i, g, p). (i, g)) ?ts = map (\<lambda>(i, g, p). (i, g)) ts"
    using assms(2,3) by (simp add: map_update list_update_same_conv)
  have uniq: "j = k" if "j < length ts" "ts ! j = (i, g, p)" for j p
  proof (rule ccontr)
    assume "j \<noteq> k"
    moreover have "distinct (map (\<lambda>(i, g, p). (i, g)) ts)" using assms(1) by (simp add: own_ok_def)
    ultimately show False using that assms(2,3) unfolding distinct_conv_nth
      by (metis (mono_tags, lifting) case_prod_conv length_map nth_map)
  qed
  have mem: "(j, h, False) \<in> set ?ts \<longleftrightarrow> (j, h, False) \<in> set ts \<and> (j, h) \<noteq> (i, g)" for j h
  proof
    assume "(j, h, False) \<in> set ?ts"
    then obtain n where n: "n < length ts" "?ts ! n = (j, h, False)" by (auto simp: in_set_conv_nth)
    then have "n \<noteq> k" using assms(2) by auto
    with n uniq show "(j, h, False) \<in> set ts \<and> (j, h) \<noteq> (i, g)"
      by (metis nth_list_update_neq nth_mem prod.inject)
  next
    assume r: "(j, h, False) \<in> set ts \<and> (j, h) \<noteq> (i, g)"
    then obtain n where n: "n < length ts" "ts ! n = (j, h, False)" by (auto simp: in_set_conv_nth)
    then have "n \<noteq> k" using r assms(3) by auto
    with n show "(j, h, False) \<in> set ?ts" by (metis length_list_update nth_list_update_neq nth_mem)
  qed
  have sub: "\<exists>p'. (j, h, p') \<in> set ts" if "(j, h, p) \<in> set ?ts" for j h p
    using that set_update_subset_insert [of ts k "(i, g, True)"] assms(2,3)
    by (metis insertE nth_mem prod.inject subsetD)
  let ?m = "if map_option fst (m i) = Some g then m(i \<mapsto> (g, False)) else m"
  have gen: "map_option fst (?m j) = map_option fst (m j)" for j by auto
  show ?thesis
  proof (rule own_okI)
    show "distinct (map (\<lambda>(i, g, p). (i, g)) ?ts)" unfolding proj by (rule own_okD(2) [OF assms(1)])
    show "\<exists>G f. ?m j = Some (G, f) \<and> 1 \<le> h \<and> h \<le> G" if "(j, h, p) \<in> set ?ts" for j h p
    proof -
      from sub [OF that] own_okD(1) [OF assms(1)] obtain G f where
        G: "m j = Some (G, f)" "1 \<le> h" "h \<le> G" by blast
      with gen [of j] show ?thesis by auto
    qed
    show "(j, h, False) \<in> set ?ts" if "?m j = Some (h, True)" for j h
      using that own_okD(3) [OF assms(1), of j h] unfolding mem by (auto split: if_splits)
    show "f" if "?m j = Some (h, f)" "(j, h, False) \<in> set ?ts" for j h f
      using that own_okD(4) [OF assms(1), of j h f] unfolding mem by (auto split: if_splits)
  qed
qed

lemma tag_WTop: "tag \<lparr>wk_task = i, wk_gen = g, wk_pc = WTop\<rparr> = (i, g, False)"
  by (simp add: tag_def past_def)

lemma map_tag_update: "map tag (ws[k := w]) = (map tag ws)[k := tag w]"
  by (simp add: map_update)

lemma own_ok_worker:
  assumes ok: "own_ok (own e) (map tag ws)" and k: "k < length ws"
    and b: "wbook e (wk_task (ws ! k)) (wk_gen (ws ! k)) (wk_pc (ws ! k)) e' pc'"
  shows "own_ok (own e') (map tag (ws[k := (ws ! k)\<lparr>wk_pc := pc'\<rparr>]))"
proof (cases "wk_pc (ws ! k) = WExit")
  case True
  then have "tag (ws ! k) = (wk_task (ws ! k), wk_gen (ws ! k), False)"
      "tag ((ws ! k)\<lparr>wk_pc := pc'\<rparr>) = (wk_task (ws ! k), wk_gen (ws ! k), True)"
    using b by (auto simp: tag_def wbook_def past_def)
  moreover have "own e' = (if map_option fst (own e (wk_task (ws ! k))) = Some (wk_gen (ws ! k))
      then (own e)(wk_task (ws ! k) \<mapsto> (wk_gen (ws ! k), False)) else own e)"
    using True b by (simp add: wbook_def)
  ultimately show ?thesis using own_ok_exit [OF ok, of k] k by (simp add: map_tag_update)
next
  case False
  then have "tag ((ws ! k)\<lparr>wk_pc := pc'\<rparr>) = tag (ws ! k)" "own e' = own e"
    using b by (auto simp: tag_def wbook_def past_def)
  moreover have "(map tag ws)[k := tag (ws ! k)] = map tag ws"
    using k by (metis list_update_id nth_map)
  ultimately show ?thesis using ok by (simp add: map_tag_update)
qed

section \<open>The invariant of the system\<close>

lemma length_filter_update:
  "k < length xs \<Longrightarrow> int (length (filter P (xs[k := y])))
     = int (length (filter P xs)) + of_bool (P y) - of_bool (P (xs ! k))"
proof (induction xs arbitrary: k)
  case (Cons x xs)
  then show ?case by (cases k) (simp_all add: Cons.IH)
qed simp

definition executing :: "Sys \<Rightarrow> nat" where
  "executing s = length (filter (\<lambda>w. holds (wk_pc w)) (workers s))"

definition sched_alive :: "schedpc \<Rightarrow> bool" where
  "sched_alive sc \<longleftrightarrow> sc \<in> {SPick, SWait, SExit, SDone}"

definition alive :: "Sys \<Rightarrow> nat" where
  "alive s = length (filter (\<lambda>w. wk_pc w \<noteq> WGone) (workers s))
           + length (filter (\<lambda>w. wt_pc w \<noteq> XGone) (watchers s))
           + of_bool (sched_alive (sched s))"

definition life_ok :: "Sys \<Rightarrow> bool" where
  "life_ok s \<longleftrightarrow> (stopCh (eng s) = Some True \<longrightarrow> closed (eng s))
     \<and> (sched s \<noteq> SOff \<longrightarrow> started (eng s) \<or> closed (eng s))
     \<and> (sched s \<in> {SExit, SDone, SGone} \<longrightarrow> closed (eng s))"

definition cps_ok :: "Sys \<Rightarrow> bool" where
  "cps_ok s \<longleftrightarrow> (\<forall>c\<in>set (checkpoints s). \<exists>g f. own (eng s) (cp_task c) = Some (g, f) \<and> 1 \<le> g)"

definition sys_ok :: "Sys \<Rightarrow> bool" where
  "sys_ok s \<longleftrightarrow> engine_ok (eng s) \<and> own_ok (own (eng s)) (map tag (workers s))
     \<and> (\<forall>w\<in>set (workers s). pc_ok (wk_pc w))
     \<and> sem (eng s) = int (executing s) \<and> sem (eng s) \<le> max 0 (concurrency (opts (eng s)))
     \<and> wg (eng s) = int (alive s) \<and> life_ok s \<and> cps_ok s"

lemma sys_ok_quiet:
  assumes "sys_ok s" "engine_ok e'" "quiet (eng s) e'" shows "sys_ok (s\<lparr>eng := e'\<rparr>)"
proof -
  have "own e' = own (eng s)" and c: "ctl e' = ctl (eng s)" using assms(3) by (simp_all add: quiet_def)
  with assms(1,2) ctlD [OF c] show ?thesis
    by (simp add: sys_ok_def executing_def alive_def life_ok_def cps_ok_def)
qed

lemma launch_book:
  assumes "foldl launch1 (e, gs) ready = (e', gs')" "engine_ok e"
    and "own_ok (own e) (ts @ map tag (concat (map spawn_worker gs)))"
  shows "engine_ok e' \<and> own_ok (own e') (ts @ map tag (concat (map spawn_worker gs')))
    \<and> (opts e', started e', closed e', stopCh e', sem e') = (opts e, started e, closed e, stopCh e, sem e)
    \<and> wg e' - int (length gs') = wg e - int (length gs)
    \<and> (\<forall>i g f. own e i = Some (g, f) \<longrightarrow> (\<exists>g' f'. own e' i = Some (g', f') \<and> g \<le> g'))"
  using assms
proof (induction ready arbitrary: e gs)
  case (Cons i ready)
  show ?case
  proof (cases "\<exists>it. item e i = Some it \<and> \<not> it_inFlight it \<and> \<not> it_finished it")
    case True
    then obtain it where it: "item e i = Some it" "\<not> it_inFlight it" "\<not> it_finished it" by blast
    obtain e1 gs1 where l: "launch1 (e, gs) i = (e1, gs1)" by (cases "launch1 (e, gs) i")
    have ok1: "engine_ok e1" using engine_ok_launch1 [OF Cons.prems(2), of gs i] l by simp
    have own: "own e i = Some (it_generation it, False)" using it by (simp add: own_def)
    have own1: "own e1 = (own e)(i \<mapsto> (it_generation it + 1, True))"
      and gs1: "gs1 = gs @ SpawnWorker i (it_generation it + 1)
                 # map (\<lambda>w. SpawnWatcher i w (it_taskCtx it) (it_generation it + 1)) (Watchers (it_task it))"
      and c: "(opts e1, started e1, closed e1, stopCh e1, sem e1) = (opts e, started e, closed e, stopCh e, sem e)"
             "wg e1 - int (length gs1) = wg e - int (length gs)"
      using l it by (auto simp: launch1_def Let_def own_put publish_def put_def own_def item_def fun_eq_iff)
    have nw: "concat (map spawn_worker gs1)
        = concat (map spawn_worker gs) @ [\<lparr>wk_task = i, wk_gen = it_generation it + 1, wk_pc = WTop\<rparr>]"
      by (simp add: gs1 concat_eq_Nil_conv)
    have g0: "0 \<le> it_generation it"
      using engine_ok_item [OF Cons.prems(2) it(1)] by (simp add: item_ok_def)
    have "own_ok (own e1) (ts @ map tag (concat (map spawn_worker gs1)))"
      using own_ok_launch [OF Cons.prems(3) own g0] unfolding nw own1
      by (simp add: tag_WTop)
    from Cons.IH [OF _ ok1 this] Cons.prems(1) l
    have IH: "engine_ok e' \<and> own_ok (own e') (ts @ map tag (concat (map spawn_worker gs')))
        \<and> (opts e', started e', closed e', stopCh e', sem e') = (opts e1, started e1, closed e1, stopCh e1, sem e1)
        \<and> wg e' - int (length gs') = wg e1 - int (length gs1)"
      and mono: "\<And>j g f. own e1 j = Some (g, f) \<Longrightarrow> \<exists>g' f'. own e' j = Some (g', f') \<and> g \<le> g'"
      by auto
    have "\<exists>g' f'. own e' j = Some (g', f') \<and> g \<le> g'" if j: "own e j = Some (g, f)" for j g f
    proof (cases "j = i")
      case True
      then have "own e1 j = Some (g + 1, True)" using own own1 j by simp
      from mono [OF this] show ?thesis by force
    qed (use mono [of j g f] own1 j in simp)
    with IH c show ?thesis by auto
  next
    case False
    then have "launch1 (e, gs) i = (e, gs)" by (auto simp: launch1_def split: option.splits)
    with Cons show ?thesis by simp
  qed
qed auto

lemma sys_ok_worker:
  assumes s: "sys_ok s" and step: "sys_exec (LWorker k l) s = Some s'" shows "sys_ok s'"
proof -
  let ?w = "workers s ! k"
  obtain it e' pc' where k: "k < length (workers s)" and it: "item (eng s) (wk_task ?w) = Some it"
    and st: "worker_pc (eng s) (wk_task ?w) (wk_gen ?w) (wk_pc ?w) it l = Some (e', pc')"
    and s': "s' = s\<lparr>eng := e', workers := (workers s)[k := ?w\<lparr>wk_pc := pc'\<rparr>]\<rparr>"
    using step by (auto simp: worker_step_def split: if_splits option.splits)
  have mem: "?w \<in> set (workers s)" using k by simp
  have oo: "own_ok (own (eng s)) (map tag (workers s))" using s by (simp add: sys_ok_def)
  have "tag ?w \<in> set (map tag (workers s))" using mem by simp
  then have "1 \<le> wk_gen ?w" "wk_gen ?w \<le> it_generation it"
    using own_okD(1) [OF oo, of "wk_task ?w" "wk_gen ?w" "past (wk_pc ?w)"] own_Some [OF it]
    by (auto simp: tag_def)
  then have W: "engine_ok e'" "pc_ok pc'" "wbook (eng s) (wk_task ?w) (wk_gen ?w) (wk_pc ?w) e' pc'"
    using worker_pc_ok [OF st _ it] s mem by (auto simp: sys_ok_def)
  have own': "own_ok (own e') (map tag ((workers s)[k := ?w\<lparr>wk_pc := pc'\<rparr>]))"
    using own_ok_worker [OF oo k W(3)] .
  have pcs: "\<forall>w\<in>set ((workers s)[k := ?w\<lparr>wk_pc := pc'\<rparr>]). pc_ok (wk_pc w)"
  proof
    fix w assume "w \<in> set ((workers s)[k := ?w\<lparr>wk_pc := pc'\<rparr>])"
    then have "w \<in> insert (?w\<lparr>wk_pc := pc'\<rparr>) (set (workers s))"
      using set_update_subset_insert by fastforce
    then show "pc_ok (wk_pc w)" using s W(2) by (auto simp: sys_ok_def)
  qed
  have B: "opts e' = opts (eng s)" "started e' = started (eng s)" "closed e' = closed (eng s)"
      "stopCh e' = stopCh (eng s)"
      "sem e' = sem (eng s) + of_bool (holds pc') - of_bool (holds (wk_pc ?w))"
      "sem (eng s) < sem e' \<longrightarrow> sem e' \<le> concurrency (opts (eng s))"
      "wg e' = wg (eng s) + of_bool (pc' \<noteq> WGone) - of_bool (wk_pc ?w \<noteq> WGone)"
    using W(3) unfolding wbook_def by blast+
  have sem': "sem e' = int (executing s')" "sem e' \<le> max 0 (concurrency (opts e'))"
    using s B k by (auto simp: sys_ok_def executing_def s' length_filter_update)
  have wg': "wg e' = int (alive s')"
    using s B k by (simp add: sys_ok_def alive_def s' length_filter_update)
  have gens: "map_option fst (own e' i) = map_option fst (own (eng s) i)" for i
    using W(3) by (auto simp: wbook_def)
  have "cps_ok s'" unfolding cps_ok_def s'
  proof (simp, intro ballI)
    fix c assume "c \<in> set (checkpoints s)"
    with s obtain g f where "own (eng s) (cp_task c) = Some (g, f)" "1 \<le> g"
      by (auto simp: sys_ok_def cps_ok_def)
    with gens [of "cp_task c"] show "\<exists>g. (\<exists>f. own e' (cp_task c) = Some (g, f)) \<and> 1 \<le> g" by auto
  qed
  moreover have "life_ok s'" using s B by (simp add: sys_ok_def life_ok_def s')
  ultimately show ?thesis using W(1) own' pcs sem' wg' unfolding sys_ok_def by (simp add: s')
qed

lemma sys_ok_watcher:
  assumes s: "sys_ok s" and step: "sys_exec (LWatcher k l) s = Some s'" shows "sys_ok s'"
proof -
  let ?w = "watchers s ! k"
  obtain e' pc' where k: "k < length (watchers s)"
    and st: "watcher_pc (eng s) ?w (wt_pc ?w) l = Some (e', pc')"
    and s': "s' = s\<lparr>eng := e', watchers := (watchers s)[k := ?w\<lparr>wt_pc := pc'\<rparr>]\<rparr>"
    using step by (auto simp: watcher_step_def split: if_splits)
  have e: "engine_ok (eng s)" using s by (simp add: sys_ok_def)
  have W: "engine_ok e' \<and> own e' = own (eng s) \<and> opts e' = opts (eng s) \<and> started e' = started (eng s)
      \<and> closed e' = closed (eng s) \<and> stopCh e' = stopCh (eng s) \<and> sem e' = sem (eng s)
      \<and> wg e' = wg (eng s) + of_bool (pc' \<noteq> XGone) - of_bool (wt_pc ?w \<noteq> XGone)"
  proof (cases "\<exists>a er. wt_pc ?w = XVerdict a er")
    case True
    then obtain a er where v: "wt_pc ?w = XVerdict a er" by blast
    let ?e = "fst (watcherVerdict (eng s) (wt_task ?w) (wt_gen ?w) a er)"
    have "e' = ?e" "pc' \<noteq> XGone"
      using st v by (auto simp: watcher_pc_def on_go_def split: if_splits prod.splits)
    with v engine_ok_watcherVerdict [OF e] quiet_watcherVerdict [OF e, of "wt_task ?w" "wt_gen ?w" a er]
      ctlD [of ?e "eng s"] show ?thesis by (simp add: quiet_def)
  next
    case False
    then show ?thesis using st e
      by (auto simp: watcher_pc_def on_go_def split: xpc.splits if_splits choice.splits)
  qed
  have "wg e' = int (alive s')" using s W k by (simp add: sys_ok_def alive_def s' length_filter_update)
  with s W show ?thesis by (simp add: sys_ok_def life_ok_def cps_ok_def executing_def s')
qed

lemma sys_ok_checkpoint:
  assumes s: "sys_ok s" and step: "sys_exec (LCheckpoint k l) s = Some s'" shows "sys_ok s'"
proof -
  let ?c = "checkpoints s ! k"
  obtain e' p' where k: "k < length (checkpoints s)"
    and st: "pause_step (eng s) (cp_task ?c) True (cp_pc ?c) l = Some (e', p')"
    and s': "s' = s\<lparr>eng := e', checkpoints := (checkpoints s)[k := ?c\<lparr>cp_pc := p'\<rparr>]\<rparr>"
    using step by (auto simp: Let_def split: if_splits)
  obtain g f where own: "own (eng s) (cp_task ?c) = Some (g, f)" "1 \<le> g"
    using s k unfolding sys_ok_def cps_ok_def by (meson nth_mem)
  have e: "engine_ok (eng s)" using s by (simp add: sys_ok_def)
  have q: "engine_ok e'" "quiet (eng s) e'" using pause_step_ok [OF st e own] by auto
  have "sys_ok (s\<lparr>eng := e'\<rparr>)" using s q by (rule sys_ok_quiet)
  moreover have "cps_ok s'" unfolding cps_ok_def s'
  proof (simp, intro ballI)
    fix c assume "c \<in> set ((checkpoints s)[k := ?c\<lparr>cp_pc := p'\<rparr>])"
    then have "c \<in> set (checkpoints s) \<or> cp_task c = cp_task ?c"
      using set_update_subset_insert by fastforce
    then show "\<exists>g. (\<exists>f. own e' (cp_task c) = Some (g, f)) \<and> 1 \<le> g"
      using s own q(2) by (auto simp: sys_ok_def cps_ok_def quiet_def)
  qed
  ultimately show ?thesis by (simp add: sys_ok_def life_ok_def executing_def alive_def s')
qed

lemma spawn_counts:
  "length (filter (\<lambda>w. wk_pc w \<noteq> WGone) (concat (map spawn_worker gs)))
   + length (filter (\<lambda>w. wt_pc w \<noteq> XGone) (concat (map spawn_watcher gs))) = length gs"
  "filter (\<lambda>w. holds (wk_pc w)) (concat (map spawn_worker gs)) = []"
  "\<forall>w\<in>set (concat (map spawn_worker gs)). pc_ok (wk_pc w)"
proof -
  show "length (filter (\<lambda>w. wk_pc w \<noteq> WGone) (concat (map spawn_worker gs)))
   + length (filter (\<lambda>w. wt_pc w \<noteq> XGone) (concat (map spawn_watcher gs))) = length gs"
  proof (induction gs)
    case (Cons g gs)
    then show ?case by (cases g) auto
  qed simp
  have *: "w \<in> set (spawn_worker g) \<Longrightarrow> wk_pc w = WTop" for w g by (cases g) auto
  then show "filter (\<lambda>w. holds (wk_pc w)) (concat (map spawn_worker gs)) = []"
    by (auto simp: filter_empty_conv holds_def dest!: *)
  show "\<forall>w\<in>set (concat (map spawn_worker gs)). pc_ok (wk_pc w)"
    by (auto simp: pc_ok_def dest!: *)
qed

lemma sys_ok_launch:
  assumes s: "sys_ok s" and step: "sys_exec (LLaunch ord) s = Some s'" shows "sys_ok s'"
proof -
  obtain e' gs where l: "foldl launch1 (eng s, []) (pickReadyLocked (eng s) ord) = (e', gs)"
    and p: "sched s = SPick"
    and s': "s' = s\<lparr>eng := e', sched := SWait, workers := workers s @ concat (map spawn_worker gs),
                    watchers := watchers s @ concat (map spawn_watcher gs)\<rparr>"
    using step by (auto simp: launchLocked_def split: if_splits prod.splits)
  have B: "engine_ok e'" "own_ok (own e') (map tag (workers s) @ map tag (concat (map spawn_worker gs)))"
      "(opts e', started e', closed e', stopCh e', sem e')
        = (opts (eng s), started (eng s), closed (eng s), stopCh (eng s), sem (eng s))"
      "wg e' = wg (eng s) + int (length gs)"
      "\<forall>i g f. own (eng s) i = Some (g, f) \<longrightarrow> (\<exists>g' f'. own e' i = Some (g', f') \<and> g \<le> g')"
    using launch_book [OF l, of "map tag (workers s)"] s by (auto simp: sys_ok_def)
  have "cps_ok s'" unfolding cps_ok_def s'
  proof (simp, intro ballI)
    fix c assume "c \<in> set (checkpoints s)"
    with s obtain g f where "own (eng s) (cp_task c) = Some (g, f)" "1 \<le> g"
      by (auto simp: sys_ok_def cps_ok_def)
    with B(5) show "\<exists>g. (\<exists>f. own e' (cp_task c) = Some (g, f)) \<and> 1 \<le> g" by (meson order_trans)
  qed
  moreover have "wg e' = int (alive s')"
    using s B(4) p spawn_counts(1) [of gs, symmetric] by (simp add: sys_ok_def alive_def sched_alive_def s')
  moreover have "life_ok s'" using s B(3) p by (auto simp: sys_ok_def life_ok_def s')
  moreover have "executing s' = executing s" unfolding executing_def s' by (simp add: spawn_counts(2))
  ultimately show ?thesis using s B spawn_counts(3) [of gs] unfolding sys_ok_def by (auto simp: s')
qed

text \<open>Steps that keep the workers and watchers: what has to be shown of the engine.\<close>

definition grows :: "Engine \<Rightarrow> Engine \<Rightarrow> bool" where
  "grows e e' \<longleftrightarrow> (\<forall>i g f. own e i = Some (g, f) \<longrightarrow> (\<exists>g' f'. own e' i = Some (g', f') \<and> g \<le> g'))"

lemma grows_quiet: "own e' = own e \<Longrightarrow> grows e e'"
  by (simp add: grows_def)

lemma grows_upd: "own e' = (own e)(i \<mapsto> (g, f)) \<Longrightarrow> own e i = None \<or> (\<exists>h b. own e i = Some (h, b) \<and> h \<le> g) \<Longrightarrow> grows e e'"
  unfolding grows_def by (intro allI impI) (auto split: if_splits)

lemma sys_ok_eng:
  assumes s: "sys_ok s" and e': "engine_ok e'" "own_ok (own e') (map tag (workers s))" "grows (eng s) e'"
    and c: "opts e' = opts (eng s)" "sem e' = sem (eng s)"
      "wg e' = wg (eng s) + of_bool (sched_alive sc)
               - of_bool (sched_alive (sched s))"
    and l: "life_ok (s\<lparr>eng := e', sched := sc\<rparr>)"
  shows "sys_ok (s\<lparr>eng := e', sched := sc, shut := sh, host := h\<rparr>)"
proof -
  let ?s = "s\<lparr>eng := e', sched := sc, shut := sh, host := h\<rparr>"
  have "cps_ok ?s" unfolding cps_ok_def
  proof (simp, intro ballI)
    fix cp assume "cp \<in> set (checkpoints s)"
    with s obtain g f where "own (eng s) (cp_task cp) = Some (g, f)" "1 \<le> g"
      unfolding sys_ok_def cps_ok_def by meson
    with e'(3) show "\<exists>g. (\<exists>f. own e' (cp_task cp) = Some (g, f)) \<and> 1 \<le> g"
      unfolding grows_def by (meson order_trans)
  qed
  moreover have "life_ok ?s" using l by (simp add: life_ok_def)
  moreover have "executing ?s = executing s" by (simp add: executing_def)
  moreover have "wg e' = int (alive ?s)" using s c(3) by (simp add: sys_ok_def alive_def)
  ultimately show ?thesis using s e'(1,2) c(1,2) by (simp add: sys_ok_def)
qed

lemma sys_ok_same:
  assumes s: "sys_ok s" and e': "engine_ok e'" "own e' = own (eng s)" "ctl e' = ctl (eng s)"
  shows "sys_ok (s\<lparr>eng := e', sched := sched s, shut := sh, host := h\<rparr>)"
proof (rule sys_ok_eng [OF s e'(1)])
  show "grows (eng s) e'" using e'(2) by (rule grows_quiet)
  show "life_ok (s\<lparr>eng := e', sched := sched s\<rparr>)"
    using s ctlD [OF e'(3)] unfolding sys_ok_def life_ok_def by simp
qed (use s e'(2) ctlD [OF e'(3)] in \<open>simp_all add: sys_ok_def\<close>)

lemma engine_ok_latePause: "engine_ok e \<Longrightarrow> engine_ok (latePause e i)"
proof (cases "item e i")
  case (Some it)
  assume e: "engine_ok e"
  have "engine_ok (put e i (it\<lparr>it_gate := snd (gate_pause (it_gate it))\<rparr>))"
    using e Some
    by (rule engine_ok_put)
      (use engine_ok_item [OF e Some] in \<open>auto simp: item_ok_def fresh_def gate_wf_pause\<close>)
  with Some show ?thesis by (simp add: latePause_def)
qed (simp add: latePause_def)

lemma engine_ok_Subscribe: "engine_ok e \<Longrightarrow> engine_ok (snd (Subscribe e b))"
  by (simp add: Subscribe_def split: prod.splits)

lemma sys_ok_user:
  assumes s: "sys_ok s" and step: "sys_exec l s = Some s'"
    and l: "l \<in> {LPause i, LLatePause i, LResume i, LCancel i, LReport k pc msg, LSubscribe b,
                  LUnsubscribe n, LTick z}"
  shows "sys_ok s'"
proof -
  have e: "engine_ok (eng s)" using s by (simp add: sys_ok_def)
  have q: "sys_ok s'" if "s' = s\<lparr>eng := e'\<rparr>" "engine_ok e'" "quiet (eng s) e'" for e'
    using sys_ok_quiet [OF s that(2,3)] that(1) by simp
  consider "l = LPause i" | "l = LLatePause i" | "l = LResume i" | "l = LCancel i"
    | "l = LReport k pc msg" | "l = LSubscribe b" | "l = LUnsubscribe n" | "l = LTick z"
    using l by auto
  then show ?thesis
  proof cases
    case 1 then show ?thesis using step engine_ok_Handle_Pause [OF e] quiet_gate(1) by (intro q) auto
  next
    case 2 then show ?thesis using step engine_ok_latePause [OF e] quiet_gate(3) by (intro q) auto
  next
    case 3 then show ?thesis using step engine_ok_Handle_Resume [OF e] quiet_gate(2) by (intro q) auto
  next
    case 4
    then show ?thesis using step engine_ok_cancelLocked [OF e] quiet_cancelLocked [OF e]
      by (intro q) (auto simp: Handle_Cancel_def)
  next
    case 5
    then show ?thesis using step engine_ok_Report [OF e] quiet_Report
      by (intro q) (auto split: if_splits)
  next
    case 6 then show ?thesis using step engine_ok_Subscribe [OF e] quiet_Subscribe by (intro q) auto
  next
    case 7
    then show ?thesis using step e
      by (intro q [of "(eng s)\<lparr>hub := hub_unsubscribe (hub (eng s)) n\<rparr>"]) (auto simp: quiet_def)
  next
    case 8
    then show ?thesis using step e by (intro q [of "(eng s)\<lparr>clock := z\<rparr>"]) (auto simp: quiet_def)
  qed
qed

lemma sys_ok_newCheckpoint:
  assumes s: "sys_ok s" and step: "sys_exec (LNewCheckpoint k) s = Some s'" shows "sys_ok s'"
proof -
  have k: "k < length (workers s)" using step by (simp split: if_splits)
  have oo: "own_ok (own (eng s)) (map tag (workers s))" using s by (simp add: sys_ok_def)
  have "tag (workers s ! k) \<in> set (map tag (workers s))" using k by simp
  then have "\<exists>G f. own (eng s) (wk_task (workers s ! k)) = Some (G, f) \<and> 1 \<le> wk_gen (workers s ! k)
      \<and> wk_gen (workers s ! k) \<le> G"
    unfolding tag_def [of "workers s ! k"] by (rule own_okD(1) [OF oo])
  then have n: "\<exists>g f. own (eng s) (wk_task (workers s ! k)) = Some (g, f) \<and> 1 \<le> g" by force
  have "cps_ok s" using s by (simp add: sys_ok_def)
  moreover have s': "s' = s\<lparr>checkpoints := checkpoints s @ [\<lparr>cp_task = wk_task (workers s ! k), cp_pc = PEnter\<rparr>]\<rparr>"
    using step k by simp
  ultimately have "cps_ok s'" using n by (simp add: cps_ok_def)
  then show ?thesis using s by (simp add: sys_ok_def life_ok_def executing_def alive_def s')
qed

lemma sys_ok_own:
  assumes s: "sys_ok s" and e': "engine_ok e'" "own_ok (own e') (map tag (workers s))" "grows (eng s) e'"
    and c: "ctl e' = ctl (eng s)"
  shows "sys_ok (s\<lparr>eng := e'\<rparr>)"
proof -
  have "life_ok (s\<lparr>eng := e', sched := sched s\<rparr>)"
    using s ctlD [OF c] unfolding sys_ok_def life_ok_def by simp
  then have "sys_ok (s\<lparr>eng := e', sched := sched s, shut := shut s, host := host s\<rparr>)"
    using ctlD [OF c] by (intro sys_ok_eng [OF s e']) simp_all
  then show ?thesis by simp
qed

lemma sys_ok_submit:
  assumes s: "sys_ok s" and step: "sys_exec (LSubmit t) s = Some s'" shows "sys_ok s'"
proof -
  let ?e = "fst (Submit (eng s) t)"
  have e: "engine_ok (eng s)" and oo: "own_ok (own (eng s)) (map tag (workers s))"
    using s by (simp_all add: sys_ok_def)
  have own: "own ?e = own (eng s) \<or> own (eng s) (ID t) = None \<and> own ?e = (own (eng s))(ID t \<mapsto> (0, False))"
    using e by (rule own_Submit(2))
  then have "own_ok (own ?e) (map tag (workers s))"
    by (elim disjE conjE) (use oo own_ok_submit in simp_all)
  moreover have "grows (eng s) ?e" using own by (elim disjE conjE) (auto intro: grows_quiet grows_upd)
  ultimately have "sys_ok (s\<lparr>eng := ?e\<rparr>)"
    using engine_ok_Submit [OF e] own_Submit(1) [OF e] by (intro sys_ok_own [OF s])
  then show ?thesis using step by simp
qed

lemma sys_ok_retry:
  assumes s: "sys_ok s" and step: "sys_exec (LRetry i) s = Some s'" shows "sys_ok s'"
proof -
  let ?e = "fst (Handle_Retry (eng s) i)"
  have e: "engine_ok (eng s)" and oo: "own_ok (own (eng s)) (map tag (workers s))"
    using s by (simp_all add: sys_ok_def)
  note own = own_Retry(2) [of "eng s" i]
  have "own_ok (own ?e) (map tag (workers s))"
    using own by (elim disjE exE conjE) (use oo own_ok_retry [OF oo] in simp_all)
  moreover have "grows (eng s) ?e" using own by (elim disjE exE conjE) (auto intro: grows_quiet grows_upd)
  ultimately have "sys_ok (s\<lparr>eng := ?e\<rparr>)"
    using engine_ok_Handle_Retry [OF e] own_Retry(1) by (intro sys_ok_own [OF s])
  then show ?thesis using step by simp
qed

text \<open>The scheduler.\<close>

lemma sys_ok_sched:
  assumes s: "sys_ok s" and step: "sys_exec l s = Some s'"
    and l: "l \<in> {LStart, LWake, LStop, LSchedExit ord, LSchedDone}"
  shows "sys_ok s'"
proof -
  have e: "engine_ok (eng s)" and oo: "own_ok (own (eng s)) (map tag (workers s))" and li: "life_ok s"
    using s by (simp_all add: sys_ok_def)
  have q: "sys_ok s'" if "s' = s\<lparr>eng := e', sched := sc\<rparr>" "engine_ok e'" "own e' = own (eng s)"
      "opts e' = opts (eng s)" "sem e' = sem (eng s)"
      "wg e' = wg (eng s) + of_bool (sched_alive sc)
               - of_bool (sched_alive (sched s))"
      "life_ok (s\<lparr>eng := e', sched := sc\<rparr>)" for e' sc
    using sys_ok_eng [OF s that(2) _ _ that(4-7), of "host s" "shut s"] oo that(1,3)
    by (simp add: grows_quiet)
  consider "l = LStart" | "l = LWake" | "l = LStop" | "l = LSchedExit ord" | "l = LSchedDone"
    using l by auto
  then show ?thesis
  proof cases
    case 1
    show ?thesis
    proof (cases "closed (eng s) \<or> started (eng s)")
      case True
      then show ?thesis using 1 step s by (auto simp: Start_def split: if_splits)
    next
      case False
      then have "sched s = SOff" using li by (auto simp: life_ok_def sched_alive_def)
      then show ?thesis using 1 False step e li
        by (intro q [where sc = SPick and e' = "(eng s)\<lparr>engineCancelled := False, stopCh := Some False,
              wake := Some False, wg := wg (eng s) + 1, started := True\<rparr>"]) (auto simp: Start_def life_ok_def sched_alive_def)
    qed
  next
    case 2 then show ?thesis using step e li
      by (intro q [where sc = SPick and e' = "(eng s)\<lparr>wake := Some False\<rparr>"]) (auto simp: life_ok_def sched_alive_def split: if_splits)
  next
    case 3 then show ?thesis using step e li
      by (intro q [where sc = SExit and e' = "eng s"]) (auto simp: life_ok_def sched_alive_def split: if_splits)
  next
    case 4
    have qe: "quiet ((eng s)\<lparr>started := False\<rparr>) (onSchedulerExit (eng s) ord)"
      using e by (rule quiet_onSchedulerExit)
    then show ?thesis using 4 step li engine_ok_onSchedulerExit [OF e]
        ctlD [of "onSchedulerExit (eng s) ord" "(eng s)\<lparr>started := False\<rparr>"]
      by (intro q [where sc = SDone and e' = "onSchedulerExit (eng s) ord"])
        (auto simp: life_ok_def sched_alive_def quiet_def split: if_splits)
  next
    case 5 then show ?thesis using step e li
      by (intro q [where sc = SGone and e' = "(eng s)\<lparr>wg := wg (eng s) - 1\<rparr>"]) (auto simp: life_ok_def sched_alive_def split: if_splits)
  qed
qed

text \<open>\<open>Shutdown\<close>.\<close>

lemma sys_ok_shutdown:
  assumes s: "sys_ok s" and step: "sys_exec l s = Some s'"
    and l: "l \<in> {LShutdown, LWaitDone, LExpire, LForce ord, LRelease}"
  shows "sys_ok s'"
proof -
  have e: "engine_ok (eng s)" and oo: "own_ok (own (eng s)) (map tag (workers s))" and li: "life_ok s"
    using s by (simp_all add: sys_ok_def)
  have q: "sys_ok s'" if "s' = s\<lparr>eng := e', shut := sh, host := h\<rparr>" "engine_ok e'" "quiet (eng s) e'"
    for e' sh h
    using sys_ok_same [OF s that(2), of h sh] that(1,3) by (simp add: quiet_def)
  consider "l = LShutdown" | "l = LWaitDone" | "l = LExpire" | "l = LForce ord" | "l = LRelease"
    using l by auto
  then show ?thesis
  proof cases
    case 1
    let ?e = "shutdownBegin (eng s)"
    have "sys_ok (s\<lparr>eng := ?e, sched := sched s, shut := shut s', host := host s\<rparr>)"
    proof (rule sys_ok_eng [OF s engine_ok_shutdownBegin [OF e]])
      show "life_ok (s\<lparr>eng := ?e, sched := sched s\<rparr>)"
        using li by (simp add: life_ok_def shutdownBegin_def)
    qed (use oo in \<open>simp_all add: shutdownBegin_def grows_quiet\<close>)
    then show ?thesis using 1 step by auto
  next
    case 2 then show ?thesis using step e
      by (intro q [where e' = "eng s" and h = "host s" and sh = ShEnd]) (auto split: if_splits)
  next
    case 3 then show ?thesis using step e
      by (intro q [where e' = "(eng s)\<lparr>engineCancelled := True\<rparr>" and h = "host s" and sh = ShForcing])
        (auto simp: quiet_def split: if_splits)
  next
    case 4 then show ?thesis using step engine_ok_shutdownForce [OF e] quiet_shutdownForce [OF e]
      by (intro q [where e' = "shutdownForce (eng s) ord" and h = "host s" and sh = ShEnd])
        (auto split: if_splits)
  next
    case 5
    let ?e = "(eng s)\<lparr>engineCancelled := True\<rparr>"
    have 1: "quiet (eng s) (snd (releaseMode (host s) ?e))" "engine_ok (snd (releaseMode (host s) ?e))"
      using quiet_releaseMode [of ?e "host s"] e by (auto simp: quiet_def releaseMode_def Let_def)
    have 2: "quiet (eng s) (snd (releaseMode (host s) (eng s)))" "engine_ok (snd (releaseMode (host s) (eng s)))"
      using quiet_releaseMode e by (auto simp: releaseMode_def Let_def)
    show ?thesis
    proof (cases "shut s = ShEnd")
      case True
      then show ?thesis using 1 5 step
        by (intro q [where e' = "snd (releaseMode (host s) ?e)" and h = "fst (releaseMode (host s) ?e)" and sh = ShOver])
          (auto simp: shutdownEnd_def split: prod.splits)
    next
      case False
      then show ?thesis using 2 5 step
        by (intro q [where e' = "snd (releaseMode (host s) (eng s))" and h = "fst (releaseMode (host s) (eng s))" and sh = ShOver])
          (auto split: prod.splits if_splits)
    qed
  qed
qed

lemmas sys_ok_steps = sys_ok_worker sys_ok_watcher sys_ok_checkpoint sys_ok_launch sys_ok_newCheckpoint
  sys_ok_submit sys_ok_retry

lemma sys_ok_step:
  assumes "sys_ok s" "sys_exec l s = Some s'" shows "sys_ok s'"
proof (cases l)
  case LStart then show ?thesis using sys_ok_sched [OF assms] by simp
next
  case LWake then show ?thesis using sys_ok_sched [OF assms] by simp
next
  case LStop then show ?thesis using sys_ok_sched [OF assms] by simp
next
  case (LSchedExit ord) then show ?thesis using sys_ok_sched [OF assms] by simp
next
  case LSchedDone then show ?thesis using sys_ok_sched [OF assms] by simp
next
  case LShutdown then show ?thesis using sys_ok_shutdown [OF assms] by simp
next
  case LWaitDone then show ?thesis using sys_ok_shutdown [OF assms] by simp
next
  case LExpire then show ?thesis using sys_ok_shutdown [OF assms] by simp
next
  case (LForce ord) then show ?thesis using sys_ok_shutdown [OF assms] by simp
next
  case LRelease then show ?thesis using sys_ok_shutdown [OF assms] by simp
qed (use assms sys_ok_user [OF assms] sys_ok_steps [OF assms(1)] in \<open>simp_all del: sys_exec.simps\<close>)

lemma sys_ok_init: "New n fs h os = (h', Inr e) \<Longrightarrow> sys_ok (sys_init h' e)"
proof -
  assume "New n fs h os = (h', Inr e)"
  then obtain o' where "items e = items (newEngine o')" "started e = False" "closed e = False"
      "stopCh e = None" "sem e = 0" "wg e = 0"
    by (auto simp: New_def Let_def newEngine_def split: RunMode.splits if_splits sum.splits)
  moreover from this have "engine_ok e" using engine_ok_items engine_ok_newEngine by metis
  ultimately show ?thesis
    by (auto simp: sys_ok_def sys_init_def own_ok_def own_def item_def newEngine_def executing_def
        alive_def sched_alive_def life_ok_def cps_ok_def)
qed

lemma reachable_sys_ok: "reachable s \<Longrightarrow> sys_ok s"
proof (induction rule: reachable.induct)
  case reach_init then show ?case by (rule sys_ok_init)
next
  case reach_step then show ?case by (blast intro: sys_ok_step)
qed

end
