(* ===== verification/BackupCascade.thy ===== *)
theory BackupCascade
  imports BackupInv
begin

text \<open>
  What the end of one task does to all the others.  A task that ends without success fails every
  active dependent that no worker has taken, each of those its own dependents, and so on: the
  tasks it fails are exactly those reached over such dependents (\<open>cascades\<close>), each with the
  error that names the task it was reached from, and every other task is left as it was.
\<close>

section \<open>The specification\<close>

definition active :: "Engine \<Rightarrow> string \<Rightarrow> bool" where
  "active e b \<longleftrightarrow> (\<exists>it. item e b = Some it \<and> \<not> it_finished it \<and> \<not> it_inFlight it)"

definition dependent :: "Engine \<Rightarrow> string \<Rightarrow> string \<Rightarrow> bool" where
  "dependent e a b \<longleftrightarrow> (\<exists>it. item e a = Some it \<and> b \<in> set (it_dependents it))"

text \<open>\<open>cascades e i d\<close>: the failure of \<open>i\<close> reaches \<open>d\<close> over tasks that are active and not in flight.\<close>

inductive cascades :: "Engine \<Rightarrow> string \<Rightarrow> string \<Rightarrow> bool" for e i where
  direct: "dependent e i d \<Longrightarrow> active e d \<Longrightarrow> cascades e i d"
| onwards: "cascades e i d \<Longrightarrow> dependent e d d' \<Longrightarrow> active e d' \<Longrightarrow> cascades e i d'"

inductive_cases cascadesE: "cascades e i d"

text \<open>The error of a dependent of \<open>j\<close> when \<open>i\<close> ended in state \<open>st\<close>.\<close>

definition failed_by :: "TaskState \<Rightarrow> string \<Rightarrow> string \<Rightarrow> gerror" where
  "failed_by st i j = (if j = i \<and> st = StateCancelled then depCancelledErr j else depFailedErr j)"

definition with_failure :: "taskItem \<Rightarrow> gerror \<Rightarrow> taskItem" where
  "with_failure it er = it\<lparr>it_finished := True, it_state := StateFailed, it_err := Some er, it_doneClosed := True\<rparr>"

definition hit :: "Engine \<Rightarrow> string \<Rightarrow> TaskState \<Rightarrow> string \<Rightarrow> taskItem \<Rightarrow> bool" where
  "hit e i st d it' \<longleftrightarrow> (\<exists>it j. item e d = Some it \<and> (j = i \<or> cascades e i j) \<and> dependent e j d
     \<and> it' = with_failure it (failed_by st i j))"

section \<open>Reachability\<close>

lemma cascades_active: "cascades e i d \<Longrightarrow> active e d"
  by (auto elim: cascadesE)

lemma cascades_from:
  assumes "cascades e x d" "dependent e i x" "active e x" shows "cascades e i d"
  using assms by (induction rule: cascades.induct) (blast intro: cascades.intros)+

text \<open>One engine after another: the same links, no new active task.\<close>

lemma evolve_fate_finished: "evolve it it' \<Longrightarrow> it_finished it \<Longrightarrow> fate it' = fate it"
  by (auto simp: evolve_def)

lemma dependent_evolves:
  assumes "evolves e e'" shows "dependent e' a b \<longleftrightarrow> dependent e a b"
proof
  assume "dependent e' a b"
  then obtain it' where it': "item e' a = Some it'" "b \<in> set (it_dependents it')" by (auto simp: dependent_def)
  then obtain it where "item e a = Some it" "evolve it it'" using assms by (blast elim: evolves_itemD2)
  with it' evolve_fields(6) [of it it'] show "dependent e a b" by (auto simp: dependent_def)
next
  assume "dependent e a b"
  then obtain it where it: "item e a = Some it" "b \<in> set (it_dependents it)" by (auto simp: dependent_def)
  then obtain it' where "item e' a = Some it'" "evolve it it'" using assms by (blast elim: evolves_itemD)
  with it evolve_fields(6) [of it it'] show "dependent e' a b" by (auto simp: dependent_def)
qed

lemma active_evolves:
  assumes "evolves e e'" "active e' b" shows "active e b"
proof -
  obtain it' where it': "item e' b = Some it'" "\<not> it_finished it'" "\<not> it_inFlight it'"
    using assms(2) by (auto simp: active_def)
  then obtain it where it: "item e b = Some it" "evolve it it'" using assms(1) by (blast elim: evolves_itemD2)
  have "\<not> it_finished it" using evolve_fate_finished [OF it(2)] it'(2) by (auto simp: fate_def)
  with it it'(3) evolve_fields(7) [OF it(2)] show ?thesis by (auto simp: active_def)
qed

lemma cascades_mono:
  assumes "cascades e' i d" "\<And>a b. dependent e' a b \<Longrightarrow> dependent e a b" "\<And>b. active e' b \<Longrightarrow> active e b"
  shows "cascades e i d"
  using assms(1) by (induction rule: cascades.induct) (blast intro: cascades.intros assms(2,3))+

lemma cascades_evolves:
  assumes "cascades e' i d" "evolves e e'" shows "cascades e i d"
  using assms(1) dependent_evolves [OF assms(2), THEN iffD1] active_evolves [OF assms(2)]
  by (rule cascades_mono)

section \<open>One traversal\<close>

definition changes :: "Engine \<Rightarrow> string \<Rightarrow> TaskState \<Rightarrow> Engine \<Rightarrow> bool" where
  "changes e i st e' \<longleftrightarrow> (\<forall>d. d \<noteq> i \<longrightarrow> item e' d = item e d
     \<or> (cascades e i d \<and> (\<exists>it'. item e' d = Some it' \<and> hit e i st d it')))"

text \<open>Every task that \<open>e'\<close> finished has passed its failure on.\<close>

definition passed_on :: "Engine \<Rightarrow> Engine \<Rightarrow> bool" where
  "passed_on e e' \<longleftrightarrow> (\<forall>a b it it'. item e a = Some it \<longrightarrow> \<not> it_finished it \<longrightarrow>
     item e' a = Some it' \<longrightarrow> it_finished it' \<longrightarrow> dependent e a b \<longrightarrow> \<not> active e' b)"

lemma changes_refl [simp]: "changes e i st e"
  by (simp add: changes_def)

lemma passed_on_refl [simp]: "passed_on e e"
  by (simp add: passed_on_def)

lemma changes_wake [simp]: "changes e i st (wakeLocked e') = changes e i st e'"
  by (simp add: changes_def)

lemma active_wake [simp]: "active (wakeLocked e) b = active e b"
  by (simp add: active_def)

lemma passed_on_wake [simp]: "passed_on e (wakeLocked e') = passed_on e e'"
  by (simp add: passed_on_def)

lemma changes_trans:
  assumes c: "changes e i st e1" "changes e1 i st e2" and ev: "evolves e e1"
  shows "changes e i st e2"
  unfolding changes_def
proof (intro allI impI)
  fix d assume d: "d \<noteq> i"
  show "item e2 d = item e d \<or> (cascades e i d \<and> (\<exists>it'. item e2 d = Some it' \<and> hit e i st d it'))"
  proof (cases "item e2 d = item e1 d")
    case True
    then show ?thesis using c(1) d unfolding changes_def by auto
  next
    case False
    then obtain it' where c2: "cascades e1 i d" "item e2 d = Some it'" "hit e1 i st d it'"
      using c(2) d unfolding changes_def by auto
    have "active e1 d" using c2(1) by (rule cascades_active)
    then have same: "item e1 d = item e d"
      using c(1) d unfolding changes_def active_def hit_def with_failure_def by force
    have "cascades e i j" if "cascades e1 i j" for j using that ev by (rule cascades_evolves)
    then show ?thesis using c2 same dependent_evolves [OF ev] unfolding hit_def by metis
  qed
qed

lemma passed_on_trans:
  assumes p: "passed_on e e1" "passed_on e1 e2" and ev: "evolves e e1" "evolves e1 e2"
  shows "passed_on e e2"
  unfolding passed_on_def
proof (intro allI impI)
  fix a b it it2
  assume a: "item e a = Some it" "\<not> it_finished it" "item e2 a = Some it2" "it_finished it2" "dependent e a b"
  obtain it1 where 1: "item e1 a = Some it1" by (rule evolves_itemD [OF ev(1) a(1)])
  show "\<not> active e2 b"
  proof (cases "it_finished it1")
    case True
    then have "\<not> active e1 b" using p(1) a 1 unfolding passed_on_def by blast
    then show ?thesis using active_evolves [OF ev(2)] by blast
  next
    case False
    have "dependent e1 a b" using a(5) dependent_evolves [OF ev(1)] by simp
    then show ?thesis using p(2) 1 False a(3,4) unfolding passed_on_def by blast
  qed
qed

text \<open>A finished task is never touched again, except that its counter goes down.\<close>

lemma onTerminalStep_self:
  assumes "\<And>e d er. distinct (keys e) \<Longrightarrow> item e i = Some it \<Longrightarrow> d \<noteq> i \<Longrightarrow>
      item (fin e d StateFailed (Some er)) i = Some it"
    and "item e i = Some it" "it_finished it" "st \<noteq> StateCompleted" "distinct (keys e)"
  shows "item (onTerminalStep fin j st e d) i = Some it"
proof (cases "d = i")
  case False
  then show ?thesis using assms(1) [OF assms(5,2) False] assms(2,4)
    by (cases st) (simp_all add: onTerminalStep_def split: option.splits)
qed (use assms in \<open>simp add: onTerminalStep_def\<close>)

lemma evolves_step: "distinct (keys e) \<Longrightarrow> evolves e (onTerminalStep (finalizeN n) i st e d)"
  by (intro evolves_onTerminalStep evolves_finalizeN) auto

lemma distinct_onTerminalStep:
  "distinct (keys e) \<Longrightarrow> distinct (keys (onTerminalStep (finalizeN n) i st e d))"
  using evolves_step [of e n i st d] by (simp add: evolves_keys)

lemma evolves_fold: "distinct (keys e) \<Longrightarrow> evolves e (onTerminalLocked (finalizeN n) i st ds e)"
  by (intro evolves_onTerminalLocked evolves_finalizeN) auto

lemma finished_stays:
  "item e i = Some it \<Longrightarrow> it_finished it \<Longrightarrow> st \<noteq> StateCompleted \<Longrightarrow> distinct (keys e) \<Longrightarrow> fin_ok st er \<Longrightarrow>
   item (finalizeN n e d st er) i = Some it"
proof (induction n arbitrary: e d st er)
  case (Suc n)
  have fold: "item (onTerminalLocked (finalizeN n) j st ds e') i = Some it"
    if "item e' i = Some it" "distinct (keys e')" for ds e' j
    using that
  proof (induction ds arbitrary: e')
    case (Cons x ds)
    have "item (onTerminalStep (finalizeN n) j st e' x) i = Some it"
      using Suc.IH Suc.prems Cons.prems by (intro onTerminalStep_self) auto
    moreover have "distinct (keys (onTerminalStep (finalizeN n) j st e' x))"
      using distinct_onTerminalStep Cons.prems(2) by blast
    ultimately show ?case using Cons.IH by (simp add: onTerminalLocked_def)
  qed (simp add: onTerminalLocked_def)
  show ?case
  proof (cases "item e d")
    case (Some itd)
    show ?thesis
    proof (cases "it_finished itd")
      case False
      then have "d \<noteq> i" using Some Suc.prems(1,2) by auto
      then show ?thesis using Some False Suc.prems fold by simp
    qed (use Some Suc.prems in simp)
  qed (use Suc.prems in simp)
qed simp

section \<open>The whole traversal\<close>

lemma failed_step:
  assumes "item e d = Some dep" "\<not> it_inFlight dep" "\<not> it_finished dep" "st \<noteq> StateCompleted"
  shows "onTerminalStep fin i st e d = fin e d StateFailed (Some (failed_by st i i))"
  using assms by (cases st) (simp_all add: onTerminalStep_def failed_by_def)

lemma inactive_step: "\<not> active e d \<Longrightarrow> onTerminalStep fin i st e d = e"
  by (auto simp: onTerminalStep_def active_def split: option.splits)

text \<open>One failing dependent, seen from the task that failed it.\<close>

lemma changes_step:
  assumes c: "changes e d StateFailed e'"
    and d: "item e d = Some dep" "active e d" "dependent e i d"
    and i: "item e i = Some it" "it_finished it"
    and self: "item e' d = Some (with_failure dep (failed_by st i i))"
  shows "changes e i st e'"
  unfolding changes_def
proof (intro allI impI)
  fix x assume x: "x \<noteq> i"
  show "item e' x = item e x \<or> (cascades e i x \<and> (\<exists>it'. item e' x = Some it' \<and> hit e i st x it'))"
  proof (cases "x = d")
    case True
    then show ?thesis using d self by (auto simp: hit_def intro: cascades.direct)
  next
    case False
    show ?thesis
    proof (cases "item e' x = item e x")
      case False
      then obtain itx j where h: "cascades e d x" "item e x = Some itx" "j = d \<or> cascades e d j" "dependent e j x"
          "item e' x = Some (with_failure itx (failed_by StateFailed d j))"
        using c \<open>x \<noteq> d\<close> unfolding changes_def hit_def by blast
      have "active e j" using h(3) d(2) cascades_active by blast
      then have "j \<noteq> i" using i by (auto simp: active_def)
      then have "failed_by StateFailed d j = failed_by st i j" by (simp add: failed_by_def)
      moreover have "cascades e i j" using h(3) cascades_from [OF _ d(3,2)] d(3,2) cascades.direct by blast
      moreover have "cascades e i x" using h(1) cascades_from [OF _ d(3,2)] by blast
      ultimately show ?thesis using h unfolding hit_def by auto
    qed simp
  qed
qed

lemma traverse_fold:
  assumes IH: "\<And>e d dep er. item e d = Some dep \<Longrightarrow> \<not> it_finished dep \<Longrightarrow> distinct (keys e) \<Longrightarrow>
      unfinished e \<le> n \<Longrightarrow> changes e d StateFailed (finalizeN n e d StateFailed (Some er))
        \<and> passed_on e (finalizeN n e d StateFailed (Some er))
        \<and> item (finalizeN n e d StateFailed (Some er)) d = Some (with_failure dep er)"
    and st: "st \<noteq> StateCompleted"
    and "item e i = Some it" "it_finished it" "set ds \<subseteq> set (it_dependents it)"
      "distinct (keys e)" "unfinished e \<le> n"
  shows "changes e i st (onTerminalLocked (finalizeN n) i st ds e)
    \<and> passed_on e (onTerminalLocked (finalizeN n) i st ds e)
    \<and> (\<forall>x\<in>set ds. \<not> active (onTerminalLocked (finalizeN n) i st ds e) x)"
  using assms(3-)
proof (induction ds arbitrary: e)
  case (Cons x ds)
  let ?e = "onTerminalStep (finalizeN n) i st e x"
  let ?f = "onTerminalLocked (finalizeN n) i st ds ?e"
  have ev: "evolves e ?e" using Cons.prems by (intro evolves_step)
  have dist: "distinct (keys ?e)" "unfinished ?e \<le> n" using ev Cons.prems by (auto simp: evolves_def)
  have ev2: "evolves ?e ?f" using dist(1) by (rule evolves_fold)
  have i: "item ?e i = Some it"
    using Cons.prems st by (intro onTerminalStep_self finished_stays) auto
  have 1: "changes e i st ?e \<and> passed_on e ?e \<and> \<not> active ?e x"
  proof (cases "active e x")
    case True
    then obtain dep where dep: "item e x = Some dep" "\<not> it_finished dep" "\<not> it_inFlight dep"
      by (auto simp: active_def)
    note eq = failed_step [OF dep(1,3,2) st, of "finalizeN n" i]
    have r: "changes e x StateFailed ?e" "passed_on e ?e"
        "item ?e x = Some (with_failure dep (failed_by st i i))"
      using IH [OF dep(1,2) Cons.prems(4,5), of "failed_by st i i"] unfolding eq by blast+
    have "dependent e i x" using Cons.prems(1,3) by (auto simp: dependent_def)
    then have "changes e i st ?e" by (rule changes_step [OF r(1) dep(1) True _ Cons.prems(1,2) r(3)])
    moreover have "\<not> active ?e x" using r(3) by (simp add: active_def with_failure_def)
    ultimately show ?thesis using r(2) by blast
  next
    case False
    then show ?thesis using inactive_step [OF False] by simp
  qed
  have 2: "changes ?e i st ?f \<and> passed_on ?e ?f \<and> (\<forall>x\<in>set ds. \<not> active ?f x)"
    using Cons.prems i dist by (intro Cons.IH) auto
  have "changes e i st ?f" using 1 2 ev by (blast intro: changes_trans)
  moreover have "passed_on e ?f" using 1 2 ev ev2 by (blast intro: passed_on_trans)
  moreover have "\<not> active ?f x" using 1 active_evolves [OF ev2] by blast
  ultimately show ?case using 2 by (simp add: onTerminalLocked_def)
qed (simp add: onTerminalLocked_def)

text \<open>What \<open>finalizeN\<close> does first: the task itself is finished, and no longer active.\<close>

lemma markFinal_weaker:
  assumes "item e i = Some it"
  shows "dependent (markFinal e i it st er) a b \<Longrightarrow> dependent e a b"
    "active (markFinal e i it st er) b \<Longrightarrow> active e b"
  using assms by (auto simp: dependent_def active_def split: if_splits)

lemma changes_markFinal:
  assumes it: "item e i = Some it" and c: "changes (markFinal e i it st er) i st e'"
  shows "changes e i st e'"
  unfolding changes_def
proof (intro allI impI)
  fix d assume d: "d \<noteq> i"
  have same: "item (markFinal e i it st er) d = item e d" using d by simp
  have casc: "cascades e i x" if "cascades (markFinal e i it st er) i x" for x
    using that markFinal_weaker [OF it] by (rule cascades_mono)
  have hits: "hit e i st d it'" if "hit (markFinal e i it st er) i st d it'" for it'
    using that casc markFinal_weaker(1) [OF it] unfolding hit_def same by blast
  have "item e' d = item (markFinal e i it st er) d \<or> cascades (markFinal e i it st er) i d
      \<and> (\<exists>it'. item e' d = Some it' \<and> hit (markFinal e i it st er) i st d it')"
    using c d unfolding changes_def by blast
  then show "item e' d = item e d \<or> (cascades e i d \<and> (\<exists>it'. item e' d = Some it' \<and> hit e i st d it'))"
    unfolding same using casc hits by blast
qed

lemma traverse:
  "item e i = Some it \<Longrightarrow> \<not> it_finished it \<Longrightarrow> distinct (keys e) \<Longrightarrow> unfinished e \<le> n \<Longrightarrow>
   st \<noteq> StateCompleted \<Longrightarrow> fin_ok st er \<Longrightarrow>
   changes e i st (finalizeN n e i st er) \<and> passed_on e (finalizeN n e i st er)
   \<and> item (finalizeN n e i st er) i
       = Some (it\<lparr>it_finished := True, it_state := st, it_err := er, it_doneClosed := True\<rparr>)"
proof (induction n arbitrary: e i it st er)
  case 0
  then show ?case using unfinished_pos by fastforce
next
  case (Suc n)
  let ?e = "markFinal e i it st er"
  let ?it = "it\<lparr>it_finished := True, it_state := st, it_err := er, it_doneClosed := True\<rparr>"
  let ?f = "onTerminalLocked (finalizeN n) i st (it_dependents it) ?e"
  have eq: "finalizeN (Suc n) e i st er = wakeLocked ?f" using Suc.prems(1,2) by simp
  have dist: "distinct (keys ?e)" using Suc.prems(1,3) by simp
  have u: "unfinished ?e \<le> n" using unfinished_markFinal [OF Suc.prems(1-3), of st er] Suc.prems(4) by simp
  have t: "changes ?e i st ?f \<and> passed_on ?e ?f \<and> (\<forall>x\<in>set (it_dependents it). \<not> active ?f x)"
    by (rule traverse_fold [where it = ?it])
      (use Suc.IH Suc.prems(5) dist u in \<open>auto simp: with_failure_def\<close>)
  have ev: "evolves e ?e" using Suc.prems by (intro evolves_markFinal)
  have self: "item ?f i = Some ?it"
  proof -
    have "item (onTerminalLocked (finalizeN n) i st ds e') i = Some ?it"
      if "item e' i = Some ?it" "distinct (keys e')" for ds e'
      using that
    proof (induction ds arbitrary: e')
      case (Cons x ds)
      have "item (onTerminalStep (finalizeN n) i st e' x) i = Some ?it"
        using Cons.prems Suc.prems(5) by (intro onTerminalStep_self finished_stays) auto
      then show ?case using Cons distinct_onTerminalStep by (simp add: onTerminalLocked_def)
    qed (simp add: onTerminalLocked_def)
    then show ?thesis using dist by simp
  qed
  have "passed_on e ?f" unfolding passed_on_def
  proof (intro allI impI)
    fix a b ita ita'
    assume a: "item e a = Some ita" "\<not> it_finished ita" "item ?f a = Some ita'" "it_finished ita'" "dependent e a b"
    show "\<not> active ?f b"
    proof (cases "a = i")
      case True
      then show ?thesis using a(5) t Suc.prems(1) by (auto simp: dependent_def)
    next
      case False
      then have "item ?e a = Some ita" "dependent ?e a b" using a dependent_evolves [OF ev] by simp_all
      then show ?thesis using t a(2-4) unfolding passed_on_def by blast
    qed
  qed
  moreover have "changes e i st ?f" using t changes_markFinal [OF Suc.prems(1)] by blast
  ultimately show ?case unfolding eq using self by simp
qed

text \<open>Nothing that is reached is left out.\<close>

lemma cascade_complete:
  assumes p: "passed_on e e'" and ev: "evolves e e'"
    and i: "item e i = Some it" "\<not> it_finished it" "item e' i = Some it'" "it_finished it'"
    and c: "cascades e i d"
  shows "\<exists>itd. item e' d = Some itd \<and> it_finished itd"
proof -
  have next_one: "\<exists>itb. item e' b = Some itb \<and> it_finished itb"
    if "item e a = Some ita" "\<not> it_finished ita" "item e' a = Some ita'" "it_finished ita'" "dependent e a b"
      and act: "active e b" for a b ita ita'
  proof -
    obtain itb where itb: "item e b = Some itb" "\<not> it_inFlight itb" using act by (auto simp: active_def)
    obtain itb' where itb': "item e' b = Some itb'" "evolve itb itb'" by (rule evolves_itemD [OF ev itb(1)])
    have "\<not> active e' b" using p that unfolding passed_on_def by blast
    then show ?thesis using itb'(1) itb(2) evolve_fields(7) [OF itb'(2)] by (auto simp: active_def)
  qed
  show ?thesis using c
  proof (induction rule: cascades.induct)
    case (direct d)
    then show ?case using next_one [OF i] by blast
  next
    case (onwards d d')
    obtain itd where "item e d = Some itd" "\<not> it_finished itd"
      using cascades_active [OF onwards.hyps(1)] by (auto simp: active_def)
    then show ?case using next_one onwards by blast
  qed
qed

text \<open>The sweep as one statement: reached tasks fail, and no other task changes.\<close>

lemma finalizeLocked_sweep:
  assumes it: "item e i = Some it" "\<not> it_finished it" and dist: "distinct (keys e)"
    and st: "st \<noteq> StateCompleted" "fin_ok st er" and d: "d \<noteq> i"
  shows "if cascades e i d then \<exists>it'. item (finalizeLocked e i st er) d = Some it' \<and> hit e i st d it'
         else item (finalizeLocked e i st er) d = item e d"
proof -
  let ?e = "finalizeLocked e i st er"
  have t: "changes e i st ?e" "passed_on e ?e"
      "item ?e i = Some (it\<lparr>it_finished := True, it_state := st, it_err := er, it_doneClosed := True\<rparr>)"
    using traverse [OF it dist order_refl st] by (simp_all add: finalizeLocked_def)
  show ?thesis
  proof (cases "cascades e i d")
    case True
    have "evolves e ?e" using st(2) dist by (rule evolves_finalizeLocked)
    then obtain itd where "item ?e d = Some itd" "it_finished itd"
      using cascade_complete [OF t(2) _ it t(3) _ True] by auto
    moreover have "active e d" using True by (rule cascades_active)
    ultimately have "item ?e d \<noteq> item e d" by (auto simp: active_def)
    then show ?thesis using t(1) d True unfolding changes_def by auto
  next
    case False
    then show ?thesis using t(1) d unfolding changes_def by auto
  qed
qed

lemma finalizeLocked_self:
  assumes "item e i = Some it" "\<not> it_finished it" "distinct (keys e)" "st \<noteq> StateCompleted" "fin_ok st er"
  shows "item (finalizeLocked e i st er) i
     = Some (it\<lparr>it_finished := True, it_state := st, it_err := er, it_doneClosed := True\<rparr>)"
  using traverse [OF assms(1-3) order_refl assms(4,5)] by (simp add: finalizeLocked_def)

end
