(* ===== verification/BackupContexts.thy ===== *)
theory BackupContexts
  imports BackupSafety BackupCascade
begin

text \<open>
  The contexts of the tasks: whoever finishes a task cancels its context, so in every reachable
  state the context of a finished task is cancelled (which is what stops its watchers and tells
  a \<open>Work\<close> that outlives its task).  \<open>settles\<close> says what a step may do to finished tasks and
  cancelled contexts; every operation of the engine is such a step.
\<close>

definition settles :: "Engine \<Rightarrow> Engine \<Rightarrow> bool" where
  "settles e e' \<longleftrightarrow> set (cancelledCtxs e) \<subseteq> set (cancelledCtxs e')
     \<and> (\<forall>i it'. item e' i = Some it' \<and> it_finished it' \<longrightarrow> it_taskCtx it' \<in> set (cancelledCtxs e')
          \<or> (\<exists>it. item e i = Some it \<and> it_finished it \<and> it_taskCtx it = it_taskCtx it'))"

definition ctx_ok :: "Engine \<Rightarrow> bool" where
  "ctx_ok e \<longleftrightarrow> (\<forall>i it. item e i = Some it \<and> it_finished it \<longrightarrow> it_taskCtx it \<in> set (cancelledCtxs e))"

lemma settles_ctx_ok: "settles e e' \<Longrightarrow> ctx_ok e \<Longrightarrow> ctx_ok e'"
  unfolding settles_def ctx_ok_def by (metis subsetD)

lemma settles_refl [simp]: "settles e e"
  by (auto simp: settles_def)

lemma settles_trans: "settles a b \<Longrightarrow> settles b c \<Longrightarrow> settles a c"
  unfolding settles_def by (metis subsetD subset_trans)

section \<open>Primitive updates\<close>

lemma cancelledCtxs_simps [simp]:
  "cancelledCtxs (put e i it) = cancelledCtxs e" "cancelledCtxs (publish e ev) = cancelledCtxs e"
  "cancelledCtxs (wakeLocked e) = cancelledCtxs e" "cancelledCtxs (cancelCtx e c) = c # cancelledCtxs e"
  by (simp_all add: put_def publish_def wakeLocked_def cancelCtx_def split: option.splits)

text \<open>An update that leaves the table and the contexts alone, before or after another step.\<close>

lemma settles_same [intro]:
  "item e' = item e \<Longrightarrow> set (cancelledCtxs e) \<subseteq> set (cancelledCtxs e') \<Longrightarrow> settles e e'"
  by (auto simp: settles_def)

lemma settles_after:
  "settles e e1 \<Longrightarrow> item e2 = item e1 \<Longrightarrow> set (cancelledCtxs e1) \<subseteq> set (cancelledCtxs e2) \<Longrightarrow> settles e e2"
  by (rule settles_trans [OF _ settles_same])

lemma settles_wake [simp]: "settles e e' \<Longrightarrow> settles e (wakeLocked e')"
  by (erule settles_after) simp_all

lemma settles_publish [simp]: "settles e e' \<Longrightarrow> settles e (publish e' ev)"
  by (erule settles_after) simp_all

lemma settles_cancelCtx [simp]: "settles e (cancelCtx e c)"
  by (rule settles_same) auto

lemma settles_fields [simp]:
  "settles e (e'\<lparr>wg := z\<rparr>) = settles e e'" "settles e (e'\<lparr>sem := z\<rparr>) = settles e e'"
  "settles e (e'\<lparr>nextCtx := n\<rparr>) = settles e e'" "settles e (e'\<lparr>started := b\<rparr>) = settles e e'"
  "settles e (e'\<lparr>closed := b\<rparr>) = settles e e'" "settles e (e'\<lparr>stopCh := c\<rparr>) = settles e e'"
  "settles e (e'\<lparr>wake := c\<rparr>) = settles e e'" "settles e (e'\<lparr>engineCancelled := b\<rparr>) = settles e e'"
  "settles e (e'\<lparr>hub := h\<rparr>) = settles e e'" "settles e (e'\<lparr>clock := z\<rparr>) = settles e e'"
  "settles e (e'\<lparr>released := b\<rparr>) = settles e e'" "settles e (e'\<lparr>lock := lo\<rparr>) = settles e e'"
  "settles e (e'\<lparr>procHeld := b\<rparr>) = settles e e'"
  by (simp_all add: settles_def)

lemma settles_put_same [simp]:
  "item e i = Some it \<Longrightarrow> it_finished it' = it_finished it \<Longrightarrow> it_taskCtx it' = it_taskCtx it \<Longrightarrow>
   settles e (put e i it')"
  by (auto simp: settles_def)

lemma settles_put_open [simp]: "\<not> it_finished it' \<Longrightarrow> settles e (put e i it')"
  by (auto simp: settles_def)

lemma settles_markFinal: "settles e (markFinal e i it st er)"
  by (auto simp: settles_def markFinal_def)

lemma settles_foldl:
  assumes "\<And>e x. settles e (f e x)" shows "settles e (foldl f e xs)"
  using assms by (induction xs arbitrary: e) (auto intro: settles_trans)

section \<open>Operations\<close>

lemma settles_onTerminalStep:
  assumes "\<And>e d er. settles e (fin e d StateFailed (Some er))"
  shows "settles e (onTerminalStep fin i st e d)"
  using assms by (auto simp: onTerminalStep_def split: option.splits TaskState.splits)

lemma settles_finalizeN: "settles e (finalizeN n e i st er)"
proof (induction n arbitrary: e i st er)
  case (Suc n)
  show ?case
  proof (cases "item e i")
    case (Some it)
    have "settles e (onTerminalLocked (finalizeN n) i st (it_dependents it) (markFinal e i it st er))"
      unfolding onTerminalLocked_def
      by (rule settles_trans [OF settles_markFinal], rule settles_foldl, rule settles_onTerminalStep, rule Suc.IH)
    then show ?thesis using Some by simp
  qed simp
qed simp

lemma settles_finalizeLocked [simp]: "settles e (finalizeLocked e i st er)"
  by (simp add: finalizeLocked_def settles_finalizeN)

lemma settles_transition [simp]: "settles e (transition e i st)"
  by (simp add: transition_def split: option.splits)

lemma settles_cancelLocked [simp]: "settles e (fst (cancelLocked e i))"
  by (auto simp: cancelLocked_def split: option.splits TaskState.splits)

lemma settles_watcherVerdict [simp]: "settles e (fst (watcherVerdict e i g a er))"
  by (simp add: watcherVerdict_def Let_def split: WatcherAction.splits)

lemma settles_exit1: "settles e (exit1 e i)"
  by (simp add: exit1_def split: option.splits TaskState.splits)

lemma settles_onSchedulerExit: "settles e (onSchedulerExit e ord)"
  unfolding onSchedulerExit_def
  by (rule settles_trans [of _ "e\<lparr>started := False\<rparr>"]) (auto intro: settles_foldl settles_exit1)

lemma settles_shutdownForce: "settles e (shutdownForce e ord)"
  unfolding shutdownForce_def
  by (rule settles_trans [of _ "e\<lparr>engineCancelled := True\<rparr>"]) (auto intro: settles_foldl)

lemma settles_gate:
  "settles e (fst (Handle_Pause e i))" "settles e (fst (Handle_Resume e i))" "settles e (latePause e i)"
  by (simp_all add: Handle_Pause_def Handle_Resume_def latePause_def split: option.splits prod.splits)

lemma settles_Report: "settles e (fst (Report e i pc msg))"
  by (simp add: Report_def Let_def split: option.splits)

lemma settles_launch1: "settles e (fst (launch1 (e, gs) i))"
  by (simp add: launch1_def Let_def split: option.splits)

lemma settles_launchLocked: "settles e (fst (launchLocked e ready))"
proof -
  have "settles e (fst (foldl launch1 (e, gs) ready))" for gs
  proof (induction ready arbitrary: e gs)
    case (Cons i ready)
    obtain e1 gs1 where l: "launch1 (e, gs) i = (e1, gs1)" by (cases "launch1 (e, gs) i")
    then have "settles e e1" using settles_launch1 [of e gs i] by simp
    then show ?case using Cons [of e1 gs1] l by (simp add: settles_trans)
  qed simp
  then show ?thesis by (simp add: launchLocked_def)
qed

lemma settles_Retry: "settles e (fst (Handle_Retry e i))"
proof -
  have "settles e (put (cancelCtx e c) i it)" if "\<not> it_finished it" for c it
    using that by (intro settles_trans [OF settles_cancelCtx settles_put_open])
  then show ?thesis by (simp add: Handle_Retry_def Let_def split: option.splits)
qed

lemma settles_register_deps: "settles e (fst (register_deps i ds (e, p, er)))"
proof (induction ds arbitrary: e p er)
  case (Cons d ds)
  show ?case
  proof (cases "item e d")
    case (Some dep)
    let ?e = "put e d (dep\<lparr>it_dependents := it_dependents dep @ [i]\<rparr>)"
    have "settles e ?e" using Some by simp
    then have "settles e (fst (register_deps i ds (?e, p', er')))" for p' er'
      using Cons settles_trans by blast
    then show ?thesis using Some by (simp add: Let_def)
  qed (use Cons in simp)
qed simp

lemma settles_Submit: "settles e (fst (Submit e t))"
proof -
  obtain e1 p1 d1 where r: "register_deps (ID t) (DependsOn t) (e, 0, None) = (e1, p1, d1)" by (metis prod_cases3)
  let ?e = "publish ((put e1 (ID t) (newItem t p1 d1 (nextCtx e1)))\<lparr>nextCtx := nextCtx e1 + 1\<rparr>)
    (mkEvent EventSubmitted (ID t)\<lparr>EvState := it_state (newItem t p1 d1 (nextCtx e1))\<rparr>)"
  have "settles e e1" using settles_register_deps [of e "ID t" "DependsOn t" 0 None] r by simp
  then have "settles e (put e1 (ID t) (newItem t p1 d1 (nextCtx e1)))"
    by (rule settles_trans) (simp add: newItem_def)
  then have 1: "settles e ?e" by simp
  then have "settles e (finalizeLocked ?e (ID t) StateFailed (Some er))" for er
    by (rule settles_trans) simp
  then show ?thesis using 1 r by (auto simp: Submit_def Let_def split: option.splits)
qed

lemma settles_pause_step: "pause_step e i c p l = Some (e', p') \<Longrightarrow> settles e e'"
  by (auto simp: pause_step_def on_go_def split: option.splits ppc.splits if_splits)

lemma settles_worker_step:
  assumes "worker_step e w l = Some (e', w')" shows "settles e e'"
proof -
  obtain it p where it: "item e (wk_task w) = Some it"
      and pc: "worker_pc e (wk_task w) (wk_gen w) (wk_pc w) it l = Some (e', p)"
    using assms by (auto simp: worker_step_def split: option.splits)
  have "settles e (put e (wk_task w) (it\<lparr>it_attempt := a\<rparr>))" "settles e (put e (wk_task w) (it\<lparr>it_inFlight := b\<rparr>))"
    for a b using it by simp_all
  then show ?thesis using pc
    by (cases "wk_pc w")
      (auto simp: worker_pc_def on_go_def dest: settles_pause_step split: if_splits ppc.splits choice.splits)
qed

lemma settles_watcher_step:
  assumes "watcher_step e w l = Some (e', w')" shows "settles e e'"
proof -
  obtain p where pc: "watcher_pc e w (wt_pc w) l = Some (e', p)"
    using assms by (auto simp: watcher_step_def)
  have "settles e (fst (watcherVerdict e i g a er))" for i g a er by simp
  then have "watcherVerdict e i g a er = (e2, b) \<Longrightarrow> settles e e2" for i g a er e2 b by (metis fst_conv)
  then show ?thesis using pc
    by (cases "wt_pc w") (auto simp: watcher_pc_def on_go_def split: if_splits choice.splits prod.splits)
qed

section \<open>Every reachable state\<close>

lemma settles_releaseMode: "settles e (snd (releaseMode h e))"
  by (auto simp: releaseMode_def Let_def)

lemma settles_step: "sys_exec l s = Some s' \<Longrightarrow> settles (eng s) (eng s')"
proof (cases l)
  case (LLaunch ord)
  assume "sys_exec l s = Some s'"
  then show ?thesis using LLaunch settles_launchLocked [of "eng s" "pickReadyLocked (eng s) ord"]
    by (auto split: if_splits prod.splits)
next
  case LRelease
  assume "sys_exec l s = Some s'"
  moreover have "settles (eng s) (snd (releaseMode (host s) ((eng s)\<lparr>engineCancelled := True\<rparr>)))"
    by (rule settles_trans [OF _ settles_releaseMode]) auto
  ultimately show ?thesis using LRelease settles_releaseMode [of "eng s" "host s"]
    by (auto simp: shutdownEnd_def split: if_splits prod.splits)
qed (auto simp: Start_def Let_def Handle_Cancel_def Subscribe_def shutdownBegin_def settles_gate settles_Report settles_Retry
    settles_Submit settles_onSchedulerExit settles_shutdownForce
    dest: settles_worker_step settles_watcher_step settles_pause_step split: if_splits prod.splits)

lemma reachable_ctx_ok: "reachable s \<Longrightarrow> ctx_ok (eng s)"
proof (induction rule: reachable.induct)
  case (reach_init n fs h os h' e)
  then have "items e = []"
    by (auto simp: New_def Let_def newEngine_def split: RunMode.splits if_splits sum.splits)
  then show ?case by (simp add: ctx_ok_def sys_init_def item_def)
next
  case reach_step then show ?case using settles_step settles_ctx_ok by blast
qed

end
