(* ===== verification/Backup.thy ===== *)
theory Backup
  imports BackupContexts
begin

text \<open>
  The properties of the backup engine, stated over the model's own definitions.  Two small
  traces at the end exhibit behaviours that the comments in the code rule out.
\<close>

section \<open>Example runs\<close>

text \<open>The runs that the concrete instances below are evaluated on.\<close>

definition demo_task :: "string \<Rightarrow> string list \<Rightarrow> int \<Rightarrow> Task" where
  "demo_task i ds r =
     \<lparr>ID = i, Work = Some 0, DependsOn = ds, Timeout = 0, Retry = r, RetryBackoff = 0, Watchers = []\<rparr>"

definition demo_host :: Host where
  "demo_host = \<lparr>procRunning = False, flocked = []\<rparr>"

definition demo_init :: Sys where
  "demo_init = sys_init demo_host
     (newEngine \<lparr>mode = MultiInstance, lockPath = '''', concurrency = 1, eventBuffer = 256\<rparr>)"

definition demo_go :: "nat \<Rightarrow> nat \<Rightarrow> label list" where
  "demo_go k n = replicate n (LWorker k Go)"

text \<open>Task \<open>a\<close> runs, task \<open>b\<close> depends on it and waits.\<close>

definition demo_running :: "label list" where
  "demo_running = [LStart, LSubmit (demo_task ''a'' [] 1), LSubmit (demo_task ''b'' [''a''] 0),
     LLaunch [''a'', ''b'']] @ demo_go 0 5"

text \<open>Then \<open>a\<close> completes.\<close>

definition demo_done :: "label list" where
  "demo_done = demo_running @ [LWorker 0 (Returns None)] @ demo_go 0 4"

text \<open>Or its first attempt fails and the second one starts.\<close>

definition demo_second :: "label list" where
  "demo_second = demo_running @ [LWorker 0 (Returns (Some (Sentinel (OtherErr 0))))] @ demo_go 0 10"

text \<open>Or both attempts of \<open>a\<close> fail, and a chain of dependents waits behind it.\<close>

definition demo_chain :: "label list" where
  "demo_chain = [LStart, LSubmit (demo_task ''a'' [] 1), LSubmit (demo_task ''b'' [''a''] 0),
     LSubmit (demo_task ''c'' [''b''] 0), LSubmit (demo_task ''u'' [] 0), LLaunch [''u'', ''c'', ''b'', ''a'']]"

definition demo_failed :: "label list" where
  "demo_failed = demo_second @ [LWorker 0 (Returns (Some (Sentinel (OtherErr 1))))] @ demo_go 0 4"

text \<open>The first attempt of \<open>a\<close> has failed, and its worker is about to note the retry.\<close>

definition demo_retry :: "label list" where
  "demo_retry = demo_running @ [LWorker 0 (Returns (Some (Sentinel (OtherErr 0))))] @ demo_go 0 3"

definition demo_state :: "label list \<Rightarrow> Sys" where
  "demo_state ls = (case sys_run ls demo_init of Some s \<Rightarrow> s | None \<Rightarrow> demo_init)"

lemma demo_init_reachable: "reachable demo_init"
proof -
  have "New 1 (\<lambda>_. LockReady) demo_host [] = (demo_host, Inr (eng demo_init))"
    by (simp add: New_def demo_init_def sys_init_def Let_def)
  then have "reachable (sys_init demo_host (eng demo_init))" by (rule reach_init)
  then show ?thesis by (simp add: demo_init_def sys_init_def)
qed

lemma demo_reachable: "reachable (demo_state ls)"
  using demo_init_reachable reachable_run [of demo_init ls]
  by (auto simp: demo_state_def split: option.splits)

section \<open>The task table\<close>

text \<open>
  C1.  In every reachable state a task is finished exactly when its state is terminal, its
  \<open>Done\<close> channel is closed exactly then, a finished task has an error exactly when it did not
  complete, an active task has none, and the context of a finished task is cancelled.
\<close>

theorem task_fate:
  assumes "reachable s" "item (eng s) i = Some it"
  shows "(it_finished it \<longleftrightarrow> Terminal (it_state it)) \<and> (it_doneClosed it \<longleftrightarrow> it_finished it)
       \<and> (it_err it = None \<longleftrightarrow> it_state it = StateCompleted \<or> \<not> it_finished it)
       \<and> (it_finished it \<longrightarrow> ctxDone (eng s) (it_taskCtx it))"
  using engine_ok_item [OF _ assms(2)] reachable_sys_ok [OF assms(1)] reachable_ctx_ok [OF assms(1)] assms(2)
  by (auto simp: sys_ok_def item_ok_def ctx_ok_def ctxDone_def)

theorem task_fate_witness:
  "\<exists>it. item (eng (demo_state demo_done)) ''a'' = Some it \<and> it_finished it \<and> it_err it = None
        \<and> Terminal (it_state it) \<and> ctxDone (eng (demo_state demo_done)) (it_taskCtx it)"
proof -
  have "map_option (\<lambda>it. (it_finished it, it_err it)) (item (eng (demo_state demo_done)) ''a'')
      = Some (True, None)" by code_simp
  then obtain it where "item (eng (demo_state demo_done)) ''a'' = Some it" "it_finished it" "it_err it = None"
    by auto
  with task_fate [OF demo_reachable] show ?thesis by blast
qed

text \<open>
  C6.  No more attempts execute at once than the configured concurrency, and the occupied slots
  of the worker semaphore are exactly the workers between acquiring and releasing one.
\<close>

theorem concurrency_bound:
  assumes "reachable s"
  shows "sem (eng s) = int (executing s) \<and> int (executing s) \<le> max 0 (concurrency (opts (eng s)))"
  using reachable_sys_ok [OF assms] by (simp add: sys_ok_def)

theorem concurrency_bound_witness:
  "executing (demo_state demo_running) = 1 \<and> sem (eng (demo_state demo_running)) = 1"
proof -
  have "executing (demo_state demo_running) = 1" by code_simp
  with concurrency_bound [OF demo_reachable, of demo_running] show ?thesis by simp
qed

text \<open>
  C2.  At most one goroutine works for the current run of a task: the workers of the task that
  carry its present generation and have not given it up are one when the task is in flight, and
  none otherwise.
\<close>

theorem single_owner:
  assumes "reachable s" "item (eng s) i = Some it"
  shows "card {k. k < length (workers s) \<and> wk_task (workers s ! k) = i
            \<and> wk_gen (workers s ! k) = it_generation it \<and> wk_pc (workers s ! k) \<notin> {WDone, WGone}}
       = (if it_inFlight it then 1 else 0)"
proof -
  let ?ts = "map tag (workers s)"
  let ?P = "\<lambda>k. k < length (workers s) \<and> wk_task (workers s ! k) = i
            \<and> wk_gen (workers s ! k) = it_generation it \<and> wk_pc (workers s ! k) \<notin> {WDone, WGone}"
  have oo: "own_ok (own (eng s)) ?ts" using reachable_sys_ok [OF assms(1)] by (simp add: sys_ok_def)
  have own: "own (eng s) i = Some (it_generation it, it_inFlight it)" using assms(2) by (rule own_Some)
  have P: "?P k \<longleftrightarrow> k < length ?ts \<and> ?ts ! k = (i, it_generation it, False)" for k
    by (auto simp: tag_def past_def)
  have uniq: "k = k'" if "?P k" "?P k'" for k k'
  proof -
    have d: "distinct (map (\<lambda>(i, g, p). (i, g)) ?ts)" by (rule own_okD(2) [OF oo])
    have "map (\<lambda>(i, g, p). (i, g)) ?ts ! j = (i, it_generation it)" if "?P j" for j
      using that by (simp add: tag_def)
    with that show ?thesis using nth_eq_iff_index_eq [OF d, of k k'] by simp
  qed
  have ex: "it_inFlight it \<longleftrightarrow> (\<exists>k. ?P k)"
  proof -
    have "it_inFlight it \<longleftrightarrow> (i, it_generation it, False) \<in> set ?ts"
      using own own_okD(3,4) [OF oo] by metis
    then show ?thesis unfolding P in_set_conv_nth by blast
  qed
  show ?thesis
  proof (cases "it_inFlight it")
    case True
    then obtain k where "?P k" using ex by blast
    then have "{k. ?P k} = {k}" using uniq by blast
    then show ?thesis using True by simp
  next
    case False
    then have "{k. ?P k} = {}" using ex by blast
    then show ?thesis using False by (simp only: card.empty if_False)
  qed
qed

theorem single_owner_witness:
  "\<exists>it. item (eng (demo_state demo_running)) ''a'' = Some it \<and>
      card {k. k < length (workers (demo_state demo_running)) \<and> wk_task (workers (demo_state demo_running) ! k) = ''a''
            \<and> wk_gen (workers (demo_state demo_running) ! k) = it_generation it
            \<and> wk_pc (workers (demo_state demo_running) ! k) \<notin> {WDone, WGone}} = 1"
proof -
  have "map_option it_inFlight (item (eng (demo_state demo_running)) ''a'') = Some True" by code_simp
  then obtain it where it: "item (eng (demo_state demo_running)) ''a'' = Some it" "it_inFlight it" by auto
  from single_owner [OF demo_reachable it(1)] it show ?thesis by (intro exI [of _ it]) simp
qed

section \<open>Dependencies\<close>

text \<open>
  C3.  The scheduler picks a task that was neither launched nor retried before (its generation is
  zero) only when every task it depends on has completed successfully.  \<open>Retry\<close> is documented to
  schedule a task without looking at its dependencies again, so this is about the first run that
  no \<open>Retry\<close> asked for.
\<close>

theorem dependency_order:
  assumes "reachable s" "i \<in> set (pickReadyLocked (eng s) ord)" "item (eng s) i = Some it"
    and "it_generation it = 0" "d \<in> set (DependsOn (it_task it))"
  shows "\<exists>dep. item (eng s) d = Some dep \<and> it_state dep = StateCompleted"
proof -
  have e: "engine_ok (eng s)" using reachable_sys_ok [OF assms(1)] by (simp add: sys_ok_def)
  have r: "\<not> it_finished it" "it_state it = StatePending \<or> it_depsPending it = 0"
    using assms(2,3) by (auto simp: pickReadyLocked_def)
  then have "counted (eng s) it"
    using engine_okD(4) [OF e] assms(3,4) by (auto simp: counts_ok_def fresh_def)
  then have "filter (\<lambda>d. \<not> completed (eng s) d) (deps it) = []" using r(2) by (auto simp: counted_def)
  then have "completed (eng s) d" using assms(5) by (auto simp: filter_empty_conv)
  then show ?thesis by (auto simp: completed_def split: option.splits)
qed

theorem dependency_order_witness:
  "\<exists>dep. item (eng (demo_state demo_done)) ''a'' = Some dep \<and> it_state dep = StateCompleted"
proof -
  let ?s = "demo_state demo_done"
  have "''b'' \<in> set (pickReadyLocked (eng ?s) [''a'', ''b''])
      \<and> map_option (\<lambda>it. (it_generation it, DependsOn (it_task it))) (item (eng ?s) ''b'') = Some (0, [''a''])"
    by code_simp
  then obtain it where "''b'' \<in> set (pickReadyLocked (eng ?s) [''a'', ''b''])"
      "item (eng ?s) ''b'' = Some it" "it_generation it = 0" "DependsOn (it_task it) = [''a'']" by auto
  with dependency_order [OF demo_reachable, of "''b''" demo_done] show ?thesis by simp
qed

text \<open>
  C7.  For every active task that was neither launched nor retried: each of its dependencies has
  completed or is itself active, so none can no longer complete; its counter of pending
  dependencies is the number of its dependencies that have not completed; and the scheduler picks
  it exactly when all of them have.
\<close>

theorem no_stuck_dependency:
  assumes "reachable s" "item (eng s) i = Some it" "it_generation it = 0" "\<not> it_finished it"
  shows "(\<forall>d\<in>set (DependsOn (it_task it)). \<exists>dep. item (eng s) d = Some dep
            \<and> (it_state dep = StateCompleted \<or> \<not> Terminal (it_state dep)))
       \<and> it_depsPending it = int (length (filter (\<lambda>d. \<not> completed (eng s) d) (DependsOn (it_task it))))
       \<and> (i \<in> set (pickReadyLocked (eng s) ord)
            \<longleftrightarrow> i \<in> set ord \<and> (\<forall>d\<in>set (DependsOn (it_task it)). completed (eng s) d))"
proof -
  have e: "engine_ok (eng s)" using reachable_sys_ok [OF assms(1)] by (simp add: sys_ok_def)
  have c: "counted (eng s) it"
    using engine_okD(4) [OF e] assms(2-4) by (auto simp: counts_ok_def fresh_def)
  have "\<exists>dep. item (eng s) d = Some dep \<and> (it_state dep = StateCompleted \<or> \<not> Terminal (it_state dep))"
    if "d \<in> set (deps it)" for d
  proof -
    have "completed (eng s) d \<or> live (eng s) d" using c that by (auto simp: counted_def)
    then obtain dep where dep: "item (eng s) d = Some dep" "it_state dep = StateCompleted \<or> \<not> it_finished dep"
      by (auto simp: completed_def live_def split: option.splits)
    with engine_ok_item [OF e dep(1)] show ?thesis by (auto simp: item_ok_def)
  qed
  moreover have "it_depsPending it = 0 \<longleftrightarrow> (\<forall>d\<in>set (deps it). completed (eng s) d)"
    using c by (auto simp: counted_def filter_empty_conv)
  then have "i \<in> set (pickReadyLocked (eng s) ord)
      \<longleftrightarrow> i \<in> set ord \<and> (\<forall>d\<in>set (deps it). completed (eng s) d)"
    using engine_ok_item [OF e assms(2)] assms(2-4) c
    by (auto simp: pickReadyLocked_def item_ok_def counted_def)
  ultimately show ?thesis using c by (auto simp: counted_def)
qed

theorem no_stuck_dependency_witness:
  "\<exists>it. item (eng (demo_state demo_running)) ''b'' = Some it \<and> it_depsPending it = 1
     \<and> (\<forall>d\<in>set (DependsOn (it_task it)). \<exists>dep. item (eng (demo_state demo_running)) d = Some dep
            \<and> (it_state dep = StateCompleted \<or> \<not> Terminal (it_state dep)))
     \<and> ''b'' \<notin> set (pickReadyLocked (eng (demo_state demo_running)) [''a'', ''b''])"
proof -
  have "map_option (\<lambda>it. (it_generation it, it_finished it, it_depsPending it, DependsOn (it_task it)))
      (item (eng (demo_state demo_running)) ''b'') = Some (0, False, 1, [''a''])" by code_simp
  then obtain it where it: "item (eng (demo_state demo_running)) ''b'' = Some it" "it_generation it = 0"
      "\<not> it_finished it" "it_depsPending it = 1" "DependsOn (it_task it) = [''a'']" by auto
  have "\<not> completed (eng (demo_state demo_running)) ''a''" by code_simp
  with no_stuck_dependency [OF demo_reachable it(1-3), of "[''a'', ''b'']"] it(1,4,5) show ?thesis by auto
qed

text \<open>
  \<open>Retry\<close> makes a task that ended without success ready at once, whatever its dependencies ended
  as, as its documentation says.
\<close>

lemma retry_unconditional:
  assumes "item e i = Some it" "it_finished it" "it_state it \<noteq> StateCompleted" "\<not> closed e"
  shows "snd (Handle_Retry e i) = None
     \<and> (i \<in> set (pickReadyLocked (fst (Handle_Retry e i)) ord) \<longleftrightarrow> i \<in> set ord)"
  using assms by (simp add: Handle_Retry_def pickReadyLocked_def Let_def)

lemma retry_unconditional_example:
  "map_option it_state (item (eng (demo_state demo_failed)) ''a'') = Some StateFailed
   \<and> ''b'' \<in> set (pickReadyLocked (fst (Handle_Retry (eng (demo_state demo_failed)) ''b'')) [''a'', ''b''])"
proof -
  let ?e = "eng (demo_state demo_failed)"
  have "map_option it_state (item ?e ''a'') = Some StateFailed" "\<not> closed ?e"
      "map_option (\<lambda>it. (it_finished it, it_state it)) (item ?e ''b'') = Some (True, StateFailed)"
    by code_simp+
  then show ?thesis using retry_unconditional [of ?e "''b''"] by auto
qed

text \<open> The dependency relation among the submitted tasks never has a cycle.\<close>

lemma dependencies_acyclic:
  assumes "reachable s"
  shows "acyclic {(d, i). \<exists>it. item (eng s) i = Some it \<and> d \<in> set (DependsOn (it_task it))}"
    (is "acyclic ?R")
proof -
  let ?e = "eng s"
  have e: "engine_ok ?e" using reachable_sys_ok [OF assms] by (simp add: sys_ok_def)
  have "\<exists>k. k < length (keys ?e) \<and> keys ?e ! k = i" if "i \<in> set (keys ?e)" for i
    using that by (metis in_set_conv_nth)
  then obtain pos where pos: "\<And>i. i \<in> set (keys ?e) \<Longrightarrow> pos i < length (keys ?e) \<and> keys ?e ! pos i = i"
    by metis
  have "?R \<subseteq> measure pos"
  proof (clarsimp)
    fix d i it assume it: "item ?e i = Some it" "d \<in> set (deps it)"
    then have i: "i \<in> set (keys ?e)" by (auto dest: item_Some_keys)
    then have "set (deps it) \<subseteq> set (take (pos i) (keys ?e))"
      using engine_okD(3) [OF e] it(1) pos unfolding topo_ok_def by metis
    then have "d \<in> set (take (pos i) (keys ?e))" using it(2) by blast
    then obtain k where "k < pos i" "k < length (keys ?e)" "keys ?e ! k = d"
      by (auto simp: in_set_conv_nth)
    moreover have "pos d = k"
      using calculation pos [of d] engine_okD(5) [OF e] by (metis nth_eq_iff_index_eq nth_mem)
    ultimately show "pos d < pos i" by simp
  qed
  then show ?thesis using wf_acyclic wf_measure wf_subset by blast
qed

lemma dependencies_acyclic_example:
  "acyclic {(d, i). \<exists>it. item (eng (demo_state demo_running)) i = Some it \<and> d \<in> set (DependsOn (it_task it))}"
  by (rule dependencies_acyclic [OF demo_reachable])

section \<open>Finishing and submitting\<close>

text \<open>
  C5.  The mutual recursion of \<open>finalizeLocked\<close> and \<open>onTerminalLocked\<close> terminates and
  computes what the code's recursive equations say: on every well-formed engine the model
  satisfies the unfolding of \<open>finalizeLocked\<close> with itself as the recursive call, and a task
  that is finalized ends up finished.
\<close>

theorem finalize_equation:
  assumes "engine_ok e" "Terminal st" "st = StateCompleted \<longleftrightarrow> er = None"
  shows "finalizeLocked e i st er =
     (case item e i of
        None \<Rightarrow> e
      | Some it \<Rightarrow>
          if it_finished it then e
          else wakeLocked (onTerminalLocked finalizeLocked i st (it_dependents it)
                             (markFinal e i it st er)))
     \<and> (item e i \<noteq> None \<longrightarrow> (\<exists>it'. item (finalizeLocked e i st er) i = Some it' \<and> it_finished it'))"
proof -
  have f: "fin_ok st er" using assms(2,3) by (simp add: fin_ok_def)
  have d: "distinct (keys e)" using assms(1) by (rule engine_okD(5))
  show ?thesis using finalizeLocked_rec [OF f d] finalizeLocked_finished [OF _ f d] by blast
qed

theorem finalize_equation_witness:
  "\<exists>it. item (finalizeLocked (eng (demo_state demo_running)) ''a'' StateFailed (Some (Sentinel ErrCancelled))) ''a''
      = Some it \<and> it_finished it"
proof -
  have "engine_ok (eng (demo_state demo_running))"
    using reachable_sys_ok [OF demo_reachable] by (simp add: sys_ok_def)
  moreover have "Terminal StateFailed" by (simp add: Terminal_def)
  moreover have "item (eng (demo_state demo_running)) ''a'' \<noteq> None" by code_simp
  ultimately show ?thesis
    using finalize_equation [of "eng (demo_state demo_running)" StateFailed "Some (Sentinel ErrCancelled)" "''a''"]
    by blast
qed

text \<open>
  C4.  When a task ends without success, exactly the tasks its failure reaches over active
  dependents that no worker has taken (directly or through other such dependents) end as failed,
  with an error that names the dependency they were reached from: that it was cancelled, if it is
  the task itself and it was, and that it failed otherwise.  Every other task is left as it was.
\<close>

theorem failure_cascades:
  assumes e: "engine_ok e" and it: "item e i = Some it" "\<not> it_finished it"
    and st: "st \<in> {StateFailed, StateCancelled, StateTimedOut}"
    and d: "item e d = Some dep" "d \<noteq> i"
  shows "item (finalizeLocked e i st (Some er)) i
      = Some (it\<lparr>it_finished := True, it_state := st, it_err := Some er, it_doneClosed := True\<rparr>)
   \<and> (if cascades e i d
      then \<exists>j. (j = i \<or> cascades e i j) \<and> dependent e j d
           \<and> item (finalizeLocked e i st (Some er)) d
             = Some (dep\<lparr>it_finished := True, it_state := StateFailed,
                 it_err := Some (if j = i \<and> st = StateCancelled then depCancelledErr j else depFailedErr j),
                 it_doneClosed := True\<rparr>)
      else item (finalizeLocked e i st (Some er)) d = Some dep)"
proof -
  have f: "fin_ok st (Some er)" "st \<noteq> StateCompleted" using st by (auto simp: fin_ok_def Terminal_def)
  have dist: "distinct (keys e)" using e by (rule engine_okD(5))
  note sweep = finalizeLocked_sweep [OF it dist f(2,1) d(2), unfolded hit_def with_failure_def failed_by_def]
  have "\<exists>j. (j = i \<or> cascades e i j) \<and> dependent e j d
           \<and> item (finalizeLocked e i st (Some er)) d
             = Some (dep\<lparr>it_finished := True, it_state := StateFailed,
                 it_err := Some (if j = i \<and> st = StateCancelled then depCancelledErr j else depFailedErr j),
                 it_doneClosed := True\<rparr>)" if "cascades e i d"
    using sweep that d(1) by (simp only: if_True option.inject) metis
  then show ?thesis using finalizeLocked_self [OF it dist f(2,1)] sweep d(1) by simp
qed

theorem failure_cascades_witness:
  "let e = finalizeLocked (eng (demo_state demo_chain)) ''a'' StateCancelled (Some (Sentinel ErrCancelled)) in
     map_option it_err (item e ''c'') = Some (Some (depFailedErr ''b''))
     \<and> map_option it_state (item e ''u'') = Some StateRunning"
proof -
  let ?e = "eng (demo_state demo_chain)"
  have e: "engine_ok ?e" using reachable_sys_ok [OF demo_reachable] by (simp add: sys_ok_def)
  have "map_option (\<lambda>it. (it_finished it, it_dependents it)) (item ?e ''a'') = Some (False, [''b''])"
      "map_option (\<lambda>it. (it_finished it, it_inFlight it, it_dependents it)) (item ?e ''b'') = Some (False, False, [''c''])"
      "map_option (\<lambda>it. (it_finished it, it_inFlight it, it_dependents it)) (item ?e ''c'') = Some (False, False, [])"
      "map_option (\<lambda>it. (it_inFlight it, it_state it)) (item ?e ''u'') = Some (True, StateRunning)"
    by code_simp+
  then obtain a b c u where it: "item ?e ''a'' = Some a" "\<not> it_finished a" "it_dependents a = [''b'']"
      "item ?e ''b'' = Some b" "\<not> it_finished b" "\<not> it_inFlight b" "it_dependents b = [''c'']"
      "item ?e ''c'' = Some c" "\<not> it_finished c" "\<not> it_inFlight c" "it_dependents c = []"
      "item ?e ''u'' = Some u" "it_inFlight u" "it_state u = StateRunning" by auto
  have "cascades ?e ''a'' ''b''" using it by (intro cascades.direct) (simp_all add: dependent_def active_def)
  then have c: "cascades ?e ''a'' ''c''"
    by (rule cascades.onwards) (use it in \<open>simp_all add: dependent_def active_def\<close>)
  have u: "\<not> cascades ?e ''a'' ''u''" using it cascades_active [of ?e "''a''" "''u''"] by (auto simp: active_def)
  have j: "j = ''b''" if "j = ''a'' \<or> cascades ?e ''a'' j" "dependent ?e j ''c''" for j
  proof -
    have "x = ''b'' \<or> x = ''c''" if "cascades ?e ''a'' x" for x
      using that by (induction rule: cascades.induct) (use it in \<open>auto simp: dependent_def\<close>)
    then have "j = ''a'' \<or> j = ''b'' \<or> j = ''c''" using that(1) by blast
    then show ?thesis using that(2) it by (auto simp: dependent_def)
  qed
  note fc = failure_cascades [OF e it(1,2), of StateCancelled _ _ "Sentinel ErrCancelled"]
  show ?thesis using fc [OF _ it(8)] fc [OF _ it(12)] c u j it(14) by (fastforce simp: Let_def)
qed

text \<open>
   A submission is accepted exactly when the task is valid, the engine is started and not
  closed, the ID is new and every dependency is known.  A rejected one changes nothing.  An
  accepted one registers the task: waiting with the number of its active dependencies if it has
  any, pending if all have completed, and already failed if one of them ended without success.
\<close>

lemma Submit_registers:
  assumes e: "engine_ok e"
  shows "if Task_validate t = None \<and> \<not> closed e \<and> started e \<and> item e (ID t) = None
            \<and> set (DependsOn t) \<subseteq> set (keys e)
         then \<exists>it. snd (Submit e t) = Inr (ID t) \<and> item (fst (Submit e t)) (ID t) = Some it
              \<and> it_task it = t \<and> it_generation it = 0
              \<and> (if \<forall>d\<in>set (DependsOn t). live e d \<or> completed e d
                 then it_depsPending it = int (length (filter (live e) (DependsOn t)))
                      \<and> it_state it = (if \<exists>d\<in>set (DependsOn t). live e d then StateWaiting else StatePending)
                 else it_state it = StateFailed \<and> it_finished it)
         else (\<exists>er. snd (Submit e t) = Inl er) \<and> fst (Submit e t) = e"
proof (cases "Task_validate t = None \<and> \<not> closed e \<and> started e \<and> item e (ID t) = None
    \<and> set (DependsOn t) \<subseteq> set (keys e)")
  case True
  then have kd: "known_deps e (ID t) (DependsOn t) = None" by (simp add: known_deps_None_iff)
  obtain e1 p1 de1 where r: "register_deps (ID t) (DependsOn t) (e, 0, None) = (e1, p1, de1)"
    by (metis prod_cases3)
  let ?it = "newItem t p1 de1 (nextCtx e1)"
  let ?e2 = "put e1 (ID t) ?it"
  let ?e3 = "publish (?e2\<lparr>nextCtx := nextCtx e1 + 1\<rparr>)
    (mkEvent EventSubmitted (ID t)\<lparr>EvState := it_state ?it\<rparr>)"
  have ds: "set (DependsOn t) \<subseteq> set (keys e)" and new: "item e (ID t) = None" using True by auto
  have p1: "p1 = int (length (filter (live e) (DependsOn t)))"
    and de1: "de1 = None \<longleftrightarrow> (\<forall>d\<in>set (DependsOn t). live e d \<or> completed e d)"
    using register_deps_count [OF ds r] by auto
  have i3: "items ?e3 = items ?e2" by simp
  have "items_ok ?e3" using submit_table(1) [OF e new ds r refl refl refl] table_items [OF i3] by auto
  then have dist: "distinct (keys ?e3)" by (simp add: items_ok_def)
  show ?thesis
  proof (cases de1)
    case None
    have "0 < p1 \<longleftrightarrow> (\<exists>d\<in>set (DependsOn t). live e d)" by (simp add: p1 filter_empty_conv)
    then show ?thesis using True kd r None de1 p1
      by (auto simp: Submit_def Let_def newItem_def)
  next
    case (Some er)
    let ?e4 = "finalizeLocked ?e3 (ID t) StateFailed (Some er)"
    have i3: "item ?e3 (ID t) = Some ?it" by simp
    have "\<not> it_finished ?it" by (simp add: newItem_def)
    then obtain it' where it': "item ?e4 (ID t) = Some it'" "fate it' = (StateFailed, Some er, True, True)"
      using finalizeLocked_self [OF i3 \<open>\<not> it_finished ?it\<close> dist _ fin_ok_dep, of er] by (auto simp: fate_def)
    have ev: "evolves ?e3 ?e4" using dist by (intro evolves_finalizeLocked) auto
    obtain it'' where "item ?e4 (ID t) = Some it''" "evolve ?it it''" by (rule evolves_itemD [OF ev i3])
    then have "it_task it' = t" "it_generation it' = 0"
      using it'(1) evolve_fields(2,8) [of ?it it''] by (simp_all add: newItem_def)
    then have "\<exists>it. item ?e4 (ID t) = Some it \<and> it_task it = t \<and> it_generation it = 0
        \<and> it_state it = StateFailed \<and> it_finished it"
      using it' by (auto simp: fate_def)
    moreover have "Submit e t = (?e4, Inr (ID t))" using True kd r Some by (simp add: Submit_def Let_def)
    moreover have "\<not> (\<forall>d\<in>set (DependsOn t). live e d \<or> completed e d)" using de1 Some by simp
    ultimately show ?thesis unfolding if_P [OF True] by (auto simp only: fst_conv snd_conv if_False)
  qed
next
  case False
  then have no: "\<not> (Task_validate t = None \<and> \<not> closed e \<and> started e \<and> item e (ID t) = None
    \<and> known_deps e (ID t) (DependsOn t) = None)" by (simp add: known_deps_None_iff)
  show ?thesis unfolding if_not_P [OF False] using Submit_rejects [OF no] by simp
qed

lemma Submit_registers_example:
  "\<exists>it. item (fst (Submit (eng (demo_state demo_running)) (demo_task ''c'' [''a'', ''b''] 0))) ''c'' = Some it
      \<and> it_state it = StateWaiting \<and> it_depsPending it = 2"
proof -
  let ?e = "eng (demo_state demo_running)" and ?t = "demo_task ''c'' [''a'', ''b''] 0"
  have e: "engine_ok ?e" using reachable_sys_ok [OF demo_reachable] by (simp add: sys_ok_def)
  have t: "ID ?t = ''c''" "DependsOn ?t = [''a'', ''b'']" by (simp_all add: demo_task_def)
  have "Task_validate ?t = None \<and> \<not> closed ?e \<and> started ?e \<and> item ?e (ID ?t) = None
      \<and> set (DependsOn ?t) \<subseteq> set (keys ?e)" by code_simp
  moreover have l: "live ?e ''a''" "live ?e ''b''" by code_simp+
  ultimately show ?thesis using Submit_registers [OF e, of ?t] by (auto simp: t)
qed

section \<open>The wait group and Shutdown\<close>

text \<open>
  C8.  The wait group counts the live goroutines: when \<open>Shutdown\<close> sees it at zero, no worker,
  no watcher and no scheduler is left.
\<close>

theorem shutdown_waits:
  assumes "reachable s" "sys_exec LWaitDone s = Some s'"
  shows "(\<forall>w\<in>set (workers s'). wk_pc w = WGone) \<and> (\<forall>w\<in>set (watchers s'). wt_pc w = XGone)
       \<and> sched s' \<in> {SOff, SGone}"
proof -
  have "int (alive s) = 0" and s': "s' = s\<lparr>shut := ShEnd\<rparr>"
    using reachable_sys_ok [OF assms(1)] assms(2) by (auto simp: sys_ok_def split: if_splits)
  then have "alive s = 0" by simp
  then show ?thesis
    by (cases "sched s") (auto simp: s' alive_def sched_alive_def filter_empty_conv)
qed

definition demo_shutdown :: "label list" where
  "demo_shutdown = demo_done @ demo_go 0 2 @ [LWake, LLaunch [''b'', ''a''], LShutdown, LStop,
     LSchedExit [''a'', ''b''], LSchedDone] @ demo_go 1 3 @ [LWorker 1 CtxDone] @ demo_go 1 4"

theorem shutdown_waits_witness:
  "\<exists>s'. sys_exec LWaitDone (demo_state demo_shutdown) = Some s' \<and> length (workers s') = 2
      \<and> (\<forall>w\<in>set (workers s'). wk_pc w = WGone)"
proof -
  let ?s = "demo_state demo_shutdown"
  have "map_option (\<lambda>s. length (workers s)) (sys_exec LWaitDone ?s) = Some 2" by code_simp
  then obtain s' where "sys_exec LWaitDone ?s = Some s'" "length (workers s') = 2" by auto
  with shutdown_waits [OF demo_reachable] show ?thesis by blast
qed

section \<open>Run modes\<close>

text \<open>
   An exclusive run mode admits one engine at a time: while an engine in process-mutex mode
  (or in host-singleton mode on the same lock path) has not been shut down, \<open>New\<close> in that mode
  fails with \<open>ErrEngineAlreadyRunning\<close>; releasing the mode makes it succeed again.
\<close>

lemma run_mode_exclusive:
  assumes new: "New n fs h os = (h1, Inr e)" and m: "mode (opts e) = m" "m \<noteq> MultiInstance"
    and rel: "releaseMode h1 e = (h2, e2)"
  shows "New n fs h1 os = (h1, Inl (Sentinel ErrEngineAlreadyRunning)) \<and> New n fs h2 os = (h1, Inr e)"
proof -
  let ?o = "foldl (\<lambda>a f. f a) \<lparr>mode = MultiInstance, lockPath = '''', concurrency = n, eventBuffer = 256\<rparr> os"
  have o: "mode ?o = m"
    using new m(1) by (auto simp: New_def Let_def newEngine_def split: RunMode.splits if_splits sum.splits)
  show ?thesis
  proof (cases m)
    case ProcessMutex
    then show ?thesis using new o rel
      by (auto simp: New_def Let_def newEngine_def releaseMode_def split: if_splits)
  next
    case HostSingleton
    then show ?thesis using new o rel
      by (auto simp: New_def Let_def newEngine_def releaseMode_def acquireFileLock_def Unlock_def
          split: if_splits sum.splits lock_fs.splits)
  qed (use m in simp)
qed

lemma run_mode_exclusive_example:
  "\<exists>h1 e. New 4 (\<lambda>_. LockReady) demo_host [WithMode HostSingleton, WithLockPath ''/run/b.lock''] = (h1, Inr e)
     \<and> New 4 (\<lambda>_. LockReady) h1 [WithMode HostSingleton, WithLockPath ''/run/b.lock'']
        = (h1, Inl (Sentinel ErrEngineAlreadyRunning))"
proof -
  let ?os = "[WithMode HostSingleton, WithLockPath ''/run/b.lock'']"
  let ?n = "New 4 (\<lambda>_. LockReady) demo_host ?os"
  have n: "?n = (fst ?n, Inr (projr (snd ?n)))" and m: "mode (opts (projr (snd ?n))) = HostSingleton"
    by (simp_all add: New_def WithMode_def WithLockPath_def acquireFileLock_def demo_host_def newEngine_def)
  obtain h2 e2 where "releaseMode (fst ?n) (projr (snd ?n)) = (h2, e2)"
    by (cases "releaseMode (fst ?n) (projr (snd ?n))")
  from run_mode_exclusive [OF n m _ this] n show ?thesis by blast
qed

section \<open>Events\<close>

lemma u64_Suc_cong: "u64 a = u64 b \<Longrightarrow> u64 (Suc a) = u64 (Suc b)"
  unfolding u64_def by (metis mod_Suc_eq)

lemma u64_add_right: "u64 (a + u64 b) = u64 (a + b)"
  by (simp add: u64_def mod_add_right_eq)

text \<open>
   A slow subscriber never blocks the engine and never sees events out of order: after any
  interleaving of publications and receives, what it has received followed by what is buffered
  is a subsequence of what was published, the buffer is within its capacity, and every event
  published is received, buffered or counted as dropped.
\<close>

lemma hub_delivery:
  assumes "foldl sub_step ([], \<lparr>sub_ch = [], sub_cap = c, sub_closed = False, sub_drops = 0\<rparr>) ops = (rs, s)"
  shows "subseq (rs @ sub_ch s) (published ops) \<and> length (sub_ch s) \<le> c
       \<and> u64 (length rs + length (sub_ch s) + sub_drops s) = u64 (length (published ops))"
proof -
  let ?I = "\<lambda>ops (rs, s). subseq (rs @ sub_ch s) (published ops) \<and> length (sub_ch s) \<le> c
       \<and> u64 (length rs + length (sub_ch s) + sub_drops s) = u64 (length (published ops))
       \<and> sub_cap s = c \<and> \<not> sub_closed s"
  have "?I ops (foldl sub_step ([], \<lparr>sub_ch = [], sub_cap = c, sub_closed = False, sub_drops = 0\<rparr>) ops)"
  proof (induction ops rule: rev_induct)
    case (snoc op ops)
    obtain rs s where f: "foldl sub_step ([], \<lparr>sub_ch = [], sub_cap = c, sub_closed = False, sub_drops = 0\<rparr>) ops = (rs, s)"
      by (metis surj_pair)
    with snoc have I: "?I ops (rs, s)" by simp
    then have u: "u64 (Suc (length rs + length (sub_ch s) + sub_drops s)) = u64 (Suc (length (published ops)))"
      by (intro u64_Suc_cong) simp
    show ?case
    proof (cases op)
      case (Publish now ev)
      show ?thesis
      proof (cases "length (sub_ch s) < c")
        case True
        then have d: "foldl sub_step ([], \<lparr>sub_ch = [], sub_cap = c, sub_closed = False, sub_drops = 0\<rparr>) (ops @ [op])
            = (rs, s\<lparr>sub_ch := sub_ch s @ [stamp now ev]\<rparr>)"
          using I f Publish by (simp add: deliver_def)
        have "subseq ((rs @ sub_ch s) @ [stamp now ev]) (published ops @ [stamp now ev])"
          using I by (simp only: subseq_append prod.case)
        then show ?thesis unfolding d using I True Publish u by simp
      next
        case False
        then have d: "foldl sub_step ([], \<lparr>sub_ch = [], sub_cap = c, sub_closed = False, sub_drops = 0\<rparr>) (ops @ [op])
            = (rs, s\<lparr>sub_drops := u64 (sub_drops s + 1)\<rparr>)"
          using I f Publish by (simp add: deliver_def)
        then show ?thesis unfolding d using I Publish u
          by (simp add: u64_add_right subseq_rev_drop_many)
      qed
    next
      case Receive
      then show ?thesis using I f by (auto simp: sub_recv_def split: list.splits)
    qed
  qed simp
  with assms show ?thesis by simp
qed

lemma hub_delivery_example:
  "foldl sub_step ([], \<lparr>sub_ch = [], sub_cap = 1, sub_closed = False, sub_drops = 0\<rparr>)
     [Publish 5 (mkEvent EventSubmitted ''a''), Publish 6 (mkEvent EventFinal ''a''), Receive]
   = ([mkEvent EventSubmitted ''a''\<lparr>EvTime := 5\<rparr>],
      \<lparr>sub_ch = [], sub_cap = 1, sub_closed = False, sub_drops = 1\<rparr>)
   \<and> subseq [mkEvent EventSubmitted ''a''\<lparr>EvTime := 5\<rparr>]
       (published [Publish 5 (mkEvent EventSubmitted ''a''), Publish 6 (mkEvent EventFinal ''a''), Receive])"
proof -
  let ?ops = "[Publish 5 (mkEvent EventSubmitted ''a''), Publish 6 (mkEvent EventFinal ''a''), Receive]"
  have "foldl sub_step ([], \<lparr>sub_ch = [], sub_cap = 1, sub_closed = False, sub_drops = 0\<rparr>) ?ops
    = ([mkEvent EventSubmitted ''a''\<lparr>EvTime := 5\<rparr>],
       \<lparr>sub_ch = [], sub_cap = 1, sub_closed = False, sub_drops = 1\<rparr>)"
    by (simp add: deliver_def stamp_def mkEvent_def sub_recv_def u64_def)
  with hub_delivery [OF this] show ?thesis by simp
qed

section \<open>Two races\<close>

text \<open>The worker that is to retry goes on to the next attempt when nothing stops it.\<close>

lemma item_transition:
  "item e i = Some it \<Longrightarrow> \<not> it_finished it \<Longrightarrow> item (transition e i st) i = Some (it\<lparr>it_state := st\<rparr>)"
  by (cases "it_state it = st") (auto simp: transition_def)

lemma sys_run_go:
  assumes "k < length (workers s)" "worker_step (eng s) (workers s ! k) Go = Some (e, w)"
  shows "sys_run (LWorker k Go # ls) s = sys_run ls (s\<lparr>eng := e, workers := (workers s)[k := w]\<rparr>)"
  using assms by simp

lemma next_attempt:
  assumes k: "k < length (workers s)"
    and w: "workers s ! k = \<lparr>wk_task = i, wk_gen = it_generation it, wk_pc = WRetry c a err\<rparr>"
    and it: "item (eng s) i = Some it" "\<not> it_finished it" "\<not> gate_isPaused (it_gate it)"
    and sem: "sem (eng s) < concurrency (opts (eng s))"
  obtains s' where
    "sys_run (replicate (if RetryBackoff (it_task it) > 0 then 8 else 7) (LWorker k Go)) s = Some s'"
    "wk_pc (workers s' ! k) = WWork (it_taskCtx it) (it_attempt it + 1) None"
    "item (eng s') i = Some (it\<lparr>it_state := StateWaiting, it_attempt := it_attempt it + 1\<rparr>)"
proof -
  let ?e = "transition (eng s) i StateWaiting"
  let ?it = "it\<lparr>it_state := StateWaiting\<rparr>"
  have e: "item ?e i = Some ?it" using it by (intro item_transition)
  have c: "sem ?e = sem (eng s)" "opts ?e = opts (eng s)"
    using quiet_transition [of "eng s" i StateWaiting] ctlD [of ?e "eng s"] by (simp_all add: quiet_def)
  note step = sys_run_go worker_step_def worker_pc_def on_go_def isFinished_def
  have run: "\<exists>s'. sys_run (replicate (if RetryBackoff (it_task it) > 0 then 8 else 7) (LWorker k Go)) s = Some s'
    \<and> wk_pc (workers s' ! k) = WWork (it_taskCtx it) (it_attempt it + 1) None
    \<and> item (eng s') i = Some (it\<lparr>it_state := StateWaiting, it_attempt := it_attempt it + 1\<rparr>)"
    using k w it sem e c by (simp add: eval_nat_numeral step publish_def)
  then show ?thesis using that by blast
qed

text \<open>
  C9.  After a failed attempt that is to be retried the state stays \<open>StateWaiting\<close>, also while the
  next attempt executes: the worker goes on, when nothing stops it, to run \<open>Work\<close> again with the
  task active and in that state, and a \<open>Cancel\<close> then finalizes the task at once instead of waiting
  for \<open>Work\<close> to return, as it is documented to do for running tasks.
\<close>

theorem cancel_during_second_attempt:
  assumes "reachable s" "k < length (workers s)"
    and "workers s ! k = \<lparr>wk_task = i, wk_gen = it_generation it, wk_pc = WRetry c a err\<rparr>"
    and "item (eng s) i = Some it" "\<not> it_finished it" "\<not> gate_isPaused (it_gate it)"
    and "sem (eng s) < concurrency (opts (eng s))"
  shows "\<exists>s' it' it''.
      sys_run (replicate (if RetryBackoff (it_task it) > 0 then 8 else 7) (LWorker k Go)) s = Some s'
    \<and> wk_pc (workers s' ! k) = WWork (it_taskCtx it) (it_attempt it + 1) None
    \<and> item (eng s') i = Some it' \<and> \<not> it_finished it' \<and> it_state it' = StateWaiting
    \<and> item (fst (Handle_Cancel (eng s') i)) i = Some it''
    \<and> it_finished it'' \<and> it_state it'' = StateCancelled \<and> it_doneClosed it''"
proof -
  let ?it = "it\<lparr>it_state := StateWaiting, it_attempt := it_attempt it + 1\<rparr>"
  obtain s' where s': "sys_run (replicate (if RetryBackoff (it_task it) > 0 then 8 else 7) (LWorker k Go)) s = Some s'"
      "wk_pc (workers s' ! k) = WWork (it_taskCtx it) (it_attempt it + 1) None" "item (eng s') i = Some ?it"
    by (rule next_attempt [OF assms(2-7)])
  have "engine_ok (eng s')"
    using reachable_sys_ok [OF reachable_run [OF assms(1) s'(1)]] by (simp add: sys_ok_def)
  then have d: "distinct (keys (eng s'))" by (rule engine_okD(5))
  have "item (fst (Handle_Cancel (eng s') i)) i = Some (?it\<lparr>it_finished := True, it_state := StateCancelled,
      it_err := Some (Sentinel ErrCancelled), it_doneClosed := True\<rparr>)"
    using finalizeLocked_self [OF s'(3) _ d, of StateCancelled "Some (Sentinel ErrCancelled)"] s'(3) assms(5)
    by (simp add: Handle_Cancel_def cancelLocked_def)
  then show ?thesis using s' assms(5) by simp
qed

theorem cancel_during_second_attempt_witness:
  "\<exists>s' it. sys_run (replicate 7 (LWorker 0 Go)) (demo_state demo_retry) = Some s'
    \<and> wk_pc (workers s' ! 0) = WWork 0 2 None
    \<and> item (fst (Handle_Cancel (eng s') ''a'')) ''a'' = Some it \<and> it_state it = StateCancelled"
proof -
  let ?s = "demo_state demo_retry"
  have "map_option (\<lambda>it. (it_generation it, it_finished it, gate_isPaused (it_gate it), RetryBackoff (it_task it),
      it_taskCtx it, it_attempt it)) (item (eng ?s) ''a'') = Some (1, False, False, 0, 0, 1)"
    by code_simp
  then obtain it where it: "item (eng ?s) ''a'' = Some it" "it_generation it = 1" "\<not> it_finished it"
      "\<not> gate_isPaused (it_gate it)" "RetryBackoff (it_task it) = 0" "it_taskCtx it = 0" "it_attempt it = 1" by auto
  have w: "workers ?s ! 0 = \<lparr>wk_task = ''a'', wk_gen = 1, wk_pc = WRetry 0 1 (Some (Sentinel (OtherErr 0)))\<rparr>"
    and k: "0 < length (workers ?s)" and sem: "sem (eng ?s) < concurrency (opts (eng ?s))" by code_simp+
  show ?thesis
    using cancel_during_second_attempt [OF demo_reachable k w [folded it(2)] it(1,3,4) sem] it(5-7) by auto
qed

definition demo_race :: "label list" where
  "demo_race = demo_second @ [LWorker 0 (Returns (Some (Sentinel (OtherErr 1))))] @ demo_go 0 3
     @ [LCancel ''a'', LRetry ''a'']"

text \<open>
  C10.  The check that a worker is current and the finalization that follows it are two lock
  regions: there is a reachable state in which the next step of a worker of an older generation
  finishes the task's new run.
\<close>

theorem stale_worker_finalizes:
  "\<exists>s s' it it'. reachable s \<and> sys_exec (LWorker 0 Go) s = Some s'
     \<and> item (eng s) (wk_task (workers s ! 0)) = Some it \<and> wk_gen (workers s ! 0) < it_generation it
     \<and> it_state it = StatePending
     \<and> item (eng s') (wk_task (workers s ! 0)) = Some it' \<and> it_state it' = StateFailed"
proof -
  let ?s = "demo_state demo_race"
  have 1: "wk_task (workers ?s ! 0) = ''a''" "wk_gen (workers ?s ! 0) = 1" by code_simp+
  have "map_option (\<lambda>it. (it_generation it, it_state it)) (item (eng ?s) ''a'') = Some (2, StatePending)"
    by code_simp
  then obtain it where it: "item (eng ?s) ''a'' = Some it" "it_generation it = 2" "it_state it = StatePending"
    by auto
  have "map_option (\<lambda>s'. map_option it_state (item (eng s') ''a'')) (sys_exec (LWorker 0 Go) ?s)
      = Some (Some StateFailed)" by code_simp
  then obtain s' it' where "sys_exec (LWorker 0 Go) ?s = Some s'" "item (eng s') ''a'' = Some it'"
      "it_state it' = StateFailed" by auto
  with it 1 demo_reachable [of demo_race] show ?thesis by (intro exI [of _ ?s] exI) auto
qed

end
