(* ===== verification/Roaring.thy ===== *)
theory Roaring
  imports Prelude
begin

text \<open>
  The compressed bitmap library \<open>github.com/RoaringBitmap/roaring/v2\<close> is not part of the
  repository.  It enters the model as a record of the operations the code calls, on an unknown
  representation \<open>'r\<close>, and \<open>roaring_ok\<close> states what the callers rely on: a bitmap is a set of
  32-bit values, observed by \<open>Contains\<close>.  The iterator is represented by the ascending list of
  the values it yields.  \<open>NextAbsentValue\<close> is only required to be right or to return a value
  below its argument (the defect of v2.10.0 that a comment in the code describes);
  \<open>roaring_exact\<close> excludes the defect.
  On top of it stands the structure that both bitmaps of the repository share: a map from the
  upper 32 bits of an index to a bitmap of the lower 32 bits.
\<close>

section \<open>The library interface\<close>

text \<open>The number of values of a bitmap, \<open>1 << segmentShift\<close>.\<close>

definition segSize :: nat where
  "segSize = 2 ^ 32"

lemma segSize_pos [simp]: "0 < segSize"
  by (simp add: segSize_def)

lemma u32_seg: "u32 n = n mod segSize"
  by (simp add: u32_def segSize_def)

lemma u32_seg_small [simp]: "n < segSize \<Longrightarrow> u32 n = n"
  by (simp add: u32_seg)

record 'r roaring =
  rb_New :: 'r
  rb_Add :: "'r \<Rightarrow> nat \<Rightarrow> 'r"
  rb_AddRange :: "'r \<Rightarrow> nat \<Rightarrow> nat \<Rightarrow> 'r"
  rb_Remove :: "'r \<Rightarrow> nat \<Rightarrow> 'r"
  rb_RemoveRange :: "'r \<Rightarrow> nat \<Rightarrow> nat \<Rightarrow> 'r"
  rb_Contains :: "'r \<Rightarrow> nat \<Rightarrow> bool"
  rb_IsEmpty :: "'r \<Rightarrow> bool"
  rb_NextValue :: "'r \<Rightarrow> nat \<Rightarrow> int"
  rb_NextAbsentValue :: "'r \<Rightarrow> nat \<Rightarrow> int"
  rb_GetCardinality :: "'r \<Rightarrow> nat"
  rb_values :: "'r \<Rightarrow> nat list"

definition rb_updates_ok :: "'r roaring \<Rightarrow> bool" where
  "rb_updates_ok R \<longleftrightarrow>
     (\<forall>v. \<not> rb_Contains R (rb_New R) v)
     \<and> (\<forall>b v w. v < segSize \<longrightarrow> w < segSize \<longrightarrow>
           rb_Contains R (rb_Add R b v) w = (w = v \<or> rb_Contains R b w))
     \<and> (\<forall>b lo hi w. lo < hi \<longrightarrow> hi \<le> segSize \<longrightarrow> w < segSize \<longrightarrow>
           rb_Contains R (rb_AddRange R b lo hi) w = (lo \<le> w \<and> w < hi \<or> rb_Contains R b w))
     \<and> (\<forall>b v w. v < segSize \<longrightarrow> w < segSize \<longrightarrow>
           rb_Contains R (rb_Remove R b v) w = (w \<noteq> v \<and> rb_Contains R b w))
     \<and> (\<forall>b lo hi w. lo < hi \<longrightarrow> hi \<le> segSize \<longrightarrow> w < segSize \<longrightarrow>
           rb_Contains R (rb_RemoveRange R b lo hi) w = (\<not> (lo \<le> w \<and> w < hi) \<and> rb_Contains R b w))"

definition rb_queries_ok :: "'r roaring \<Rightarrow> bool" where
  "rb_queries_ok R \<longleftrightarrow>
     (\<forall>b. rb_IsEmpty R b \<longleftrightarrow> (\<forall>v < segSize. \<not> rb_Contains R b v))
     \<and> (\<forall>b. sorted (rb_values R b) \<and> distinct (rb_values R b)
            \<and> set (rb_values R b) = {v. v < segSize \<and> rb_Contains R b v}
            \<and> rb_GetCardinality R b = length (rb_values R b))
     \<and> (\<forall>b lo. lo < segSize \<longrightarrow>
           (if \<exists>v. lo \<le> v \<and> v < segSize \<and> rb_Contains R b v
            then \<exists>v. rb_NextValue R b lo = int v \<and> lo \<le> v \<and> v < segSize \<and> rb_Contains R b v
                     \<and> (\<forall>w. lo \<le> w \<longrightarrow> w < v \<longrightarrow> \<not> rb_Contains R b w)
            else rb_NextValue R b lo < 0))"

text \<open>\<open>absent_at R b lo v\<close>: \<open>v\<close> is the right answer of \<open>NextAbsentValue\<close>.\<close>

definition absent_at :: "'r roaring \<Rightarrow> 'r \<Rightarrow> nat \<Rightarrow> int \<Rightarrow> bool" where
  "absent_at R b lo v \<longleftrightarrow>
     (if \<exists>w. lo \<le> w \<and> w < segSize \<and> \<not> rb_Contains R b w
      then \<exists>w. v = int w \<and> lo \<le> w \<and> w < segSize \<and> \<not> rb_Contains R b w
               \<and> (\<forall>x. lo \<le> x \<longrightarrow> x < w \<longrightarrow> rb_Contains R b x)
      else v < 0 \<or> int segSize \<le> v)"

definition roaring_ok :: "'r roaring \<Rightarrow> bool" where
  "roaring_ok R \<longleftrightarrow> rb_updates_ok R \<and> rb_queries_ok R
     \<and> (\<forall>b lo. lo < segSize \<longrightarrow> absent_at R b lo (rb_NextAbsentValue R b lo)
            \<or> 0 \<le> rb_NextAbsentValue R b lo \<and> rb_NextAbsentValue R b lo < int lo)"

definition roaring_exact :: "'r roaring \<Rightarrow> bool" where
  "roaring_exact R \<longleftrightarrow> rb_updates_ok R \<and> rb_queries_ok R
     \<and> (\<forall>b lo. lo < segSize \<longrightarrow> absent_at R b lo (rb_NextAbsentValue R b lo))"

lemma roaring_exact_ok: "roaring_exact R \<Longrightarrow> roaring_ok R"
  by (simp add: roaring_exact_def roaring_ok_def)

lemma roaring_okD: "roaring_ok R \<Longrightarrow> rb_updates_ok R" "roaring_ok R \<Longrightarrow> rb_queries_ok R"
  by (simp_all add: roaring_ok_def)

section \<open>A bitmap over 64-bit indexes\<close>

type_synonym 'r segments = "(nat \<times> 'r) list"

definition segmentIndex :: "nat \<Rightarrow> nat" where
  "segmentIndex n = u32 (n div 2 ^ 32)"

text \<open>Is the bit \<open>n\<close> set?  The specification of every lookup below.\<close>

definition seg_mem :: "'r roaring \<Rightarrow> 'r segments \<Rightarrow> nat \<Rightarrow> bool" where
  "seg_mem R segs n =
     (case map_of segs (n div segSize) of None \<Rightarrow> False | Some seg \<Rightarrow> rb_Contains R seg (n mod segSize))"

lemma segmentIndex_small [simp]: "n < 2 ^ 63 \<Longrightarrow> segmentIndex n = n div segSize"
  by (simp add: segmentIndex_def u32_def segSize_def less_mult_imp_div_less)

lemma segment_bounds: "n div segSize * segSize \<le> n" "n < n div segSize * segSize + segSize"
  using div_mult_mod_eq [of n segSize] mod_less_divisor [of segSize n] segSize_pos by linarith+

lemma seg_mem_update:
  "seg_mem R (AList.update k s segs) n =
     (if n div segSize = k then rb_Contains R s (n mod segSize) else seg_mem R segs n)"
  by (simp add: seg_mem_def)

lemma seg_mem_delete:
  "seg_mem R (AList.delete k segs) n = (n div segSize \<noteq> k \<and> seg_mem R segs n)"
  by (simp add: seg_mem_def delete_conv')

lemma seg_mem_Nil [simp]: "\<not> seg_mem R [] n"
  by (simp add: seg_mem_def)

text \<open>Within a segment, a range of indexes is a range of offsets.\<close>

lemma offset_range:
  fixes n k lo hi :: nat
  assumes "n div segSize = k" "k * segSize \<le> lo"
  shows "lo - k * segSize \<le> n mod segSize \<longleftrightarrow> lo \<le> n"
    and "n mod segSize < hi - k * segSize \<longleftrightarrow> n < hi"
proof -
  have "n = k * segSize + n mod segSize" using assms(1) by (metis div_mult_mod_eq)
  then show "lo - k * segSize \<le> n mod segSize \<longleftrightarrow> lo \<le> n" "n mod segSize < hi - k * segSize \<longleftrightarrow> n < hi"
    using assms(2) by linarith+
qed

lemma div_segment: "k * segSize \<le> n \<Longrightarrow> n < k * segSize + segSize \<Longrightarrow> n div segSize = (k::nat)"
  by (metis add.commute div_nat_eqI mult.commute mult_Suc_right)

section \<open>A concrete bitmap\<close>

text \<open>Lists of values with the operations of the library; it satisfies the exact laws.\<close>

definition lr_canon :: "nat list \<Rightarrow> nat list" where
  "lr_canon xs = sort (remdups (filter (\<lambda>v. v < segSize) xs))"

fun lr_absent :: "nat \<Rightarrow> nat list \<Rightarrow> nat" where
  "lr_absent lo [] = lo"
| "lr_absent lo (x # xs) =
     (if x < lo then lr_absent lo xs else if x = lo then lr_absent (lo + 1) xs else lo)"

definition list_roaring :: "nat list roaring" where
  "list_roaring = \<lparr>
     rb_New = [],
     rb_Add = (\<lambda>b v. v # b),
     rb_AddRange = (\<lambda>b lo hi. [lo..<hi] @ b),
     rb_Remove = (\<lambda>b v. filter (\<lambda>w. w \<noteq> v) b),
     rb_RemoveRange = (\<lambda>b lo hi. filter (\<lambda>w. \<not> (lo \<le> w \<and> w < hi)) b),
     rb_Contains = (\<lambda>b v. v \<in> set b),
     rb_IsEmpty = (\<lambda>b. lr_canon b = []),
     rb_NextValue = (\<lambda>b lo. case filter (\<lambda>v. lo \<le> v) (lr_canon b) of [] \<Rightarrow> -1 | v # _ \<Rightarrow> int v),
     rb_NextAbsentValue = (\<lambda>b lo. let v = lr_absent lo (lr_canon b) in if v < segSize then int v else -1),
     rb_GetCardinality = (\<lambda>b. length (lr_canon b)),
     rb_values = lr_canon\<rparr>"

lemma lr_canon_props [simp]:
  "sorted (lr_canon xs)" "distinct (lr_canon xs)" "set (lr_canon xs) = {v \<in> set xs. v < segSize}"
  by (auto simp: lr_canon_def)

lemma lr_absent_spec:
  "sorted xs \<Longrightarrow> distinct xs \<Longrightarrow>
   lo \<le> lr_absent lo xs \<and> lr_absent lo xs \<notin> set xs \<and> (\<forall>w. lo \<le> w \<longrightarrow> w < lr_absent lo xs \<longrightarrow> w \<in> set xs)"
proof (induction xs arbitrary: lo)
  case (Cons x xs)
  consider "x < lo" | "x = lo" | "lo < x" by linarith
  then show ?case
  proof cases
    case 1
    with Cons.IH [of lo] Cons.prems show ?thesis by auto
  next
    case 2
    with Cons.IH [of "lo + 1"] Cons.prems show ?thesis
      by (auto simp: Suc_le_eq) (metis le_neq_implies_less)
  next
    case 3
    with Cons.prems show ?thesis by (auto simp: not_less)
  qed
qed simp

lemma list_roaring_updates: "rb_updates_ok list_roaring"
  by (auto simp: rb_updates_ok_def list_roaring_def)

lemma lr_next:
  "case filter (\<lambda>v. lo \<le> v) xs of
     [] \<Rightarrow> \<forall>v\<in>set xs. v < lo
   | v # _ \<Rightarrow> v \<in> set xs \<and> lo \<le> v \<and> (\<forall>w\<in>set xs. lo \<le> w \<longrightarrow> v \<le> w)" if "sorted xs" for lo :: nat
  using that by (induction xs) (auto split: list.splits)

lemma list_roaring_queries: "rb_queries_ok list_roaring"
proof -
  have "rb_IsEmpty list_roaring b \<longleftrightarrow> (\<forall>v < segSize. \<not> rb_Contains list_roaring b v)" for b
  proof -
    have "lr_canon b = [] \<longleftrightarrow> set (lr_canon b) = {}" by (rule set_empty [symmetric])
    then show ?thesis unfolding lr_canon_props by (auto simp: list_roaring_def)
  qed
  moreover have "if \<exists>v. lo \<le> v \<and> v < segSize \<and> rb_Contains list_roaring b v
            then \<exists>v. rb_NextValue list_roaring b lo = int v \<and> lo \<le> v \<and> v < segSize \<and> rb_Contains list_roaring b v
                     \<and> (\<forall>w. lo \<le> w \<longrightarrow> w < v \<longrightarrow> \<not> rb_Contains list_roaring b w)
            else rb_NextValue list_roaring b lo < 0" for b lo
    using lr_next [of "lr_canon b" lo]
    by (fastforce simp: list_roaring_def split: list.splits)
  moreover have "sorted (rb_values list_roaring b) \<and> distinct (rb_values list_roaring b)
      \<and> set (rb_values list_roaring b) = {v. v < segSize \<and> rb_Contains list_roaring b v}
      \<and> rb_GetCardinality list_roaring b = length (rb_values list_roaring b)" for b
    by (auto simp: list_roaring_def)
  ultimately show ?thesis unfolding rb_queries_ok_def by blast
qed

lemma list_roaring_exact: "roaring_exact list_roaring"
proof -
  have "absent_at list_roaring b lo (rb_NextAbsentValue list_roaring b lo)" if "lo < segSize" for b lo
  proof -
    let ?v = "lr_absent lo (lr_canon b)"
    have v: "lo \<le> ?v" "?v \<notin> set (lr_canon b)" "\<forall>w. lo \<le> w \<longrightarrow> w < ?v \<longrightarrow> w \<in> set (lr_canon b)"
      using lr_absent_spec [of "lr_canon b" lo] by simp_all
    show ?thesis
    proof (cases "?v < segSize")
      case True
      then have ex: "\<exists>w. lo \<le> w \<and> w < segSize \<and> \<not> rb_Contains list_roaring b w"
        using v by (auto simp: list_roaring_def)
      show ?thesis unfolding absent_at_def if_P [OF ex]
        using True v by (intro exI [of _ ?v]) (auto simp: list_roaring_def)
    next
      case False
      then have "\<not> (\<exists>w. lo \<le> w \<and> w < segSize \<and> \<not> rb_Contains list_roaring b w)"
        using v by (auto simp: list_roaring_def)
      with False show ?thesis by (simp add: absent_at_def list_roaring_def Let_def)
    qed
  qed
  then show ?thesis by (simp add: roaring_exact_def list_roaring_updates list_roaring_queries)
qed

end
