(* ===== verification/FsBitmap.thy ===== *)
theory FsBitmap
  imports Roaring
begin

text \<open>
  The used-block bitmap of \<open>disk/filesystem/bitmap/bitmap.go\<close>.  Block numbers are \<open>uint64\<close>, so
  numbers below \<open>2 ^ 64\<close>; \<open>Bits\<close> and the positions of the search functions are \<open>int64\<close>.
  Every range that reaches \<open>addRange\<close> or \<open>removeRange\<close> ends at or before \<open>Bits\<close>, an
  \<open>int64\<close>, so the sums in their loops do not overflow; the model's loops stop on a range that
  does not fit.  The disjoint bit fields that the code joins with \<open>|\<close> are joined by addition.
\<close>

unbundle bit_operations_syntax

section \<open>The bitmap and its updates\<close>

datatype BitmapKind = BitmapRaw | BitmapFromFS

record 'r FsBitmap =
  FsType :: string
  FsKind :: BitmapKind
  Bits :: int
  BlockSize :: int
  segments :: "'r segments"

definition NewFsBitmap :: "string \<Rightarrow> BitmapKind \<Rightarrow> int \<Rightarrow> int \<Rightarrow> 'r FsBitmap" where
  "NewFsBitmap fsType kind bits blockSize =
     \<lparr>FsType = fsType, FsKind = kind, Bits = bits, BlockSize = blockSize, segments = []\<rparr>"

definition Size :: "'r FsBitmap \<Rightarrow> int" where
  "Size b = i64 (Bits b * BlockSize b)"

text \<open>\<open>segment(idx, true)\<close>: the bitmap of a segment, created when it is missing.\<close>

definition segment :: "'r roaring \<Rightarrow> 'r segments \<Rightarrow> nat \<Rightarrow> 'r" where
  "segment R segs idx = (case map_of segs idx of Some s \<Rightarrow> s | None \<Rightarrow> rb_New R)"

function add_range :: "'r roaring \<Rightarrow> 'r segments \<Rightarrow> nat \<Rightarrow> nat \<Rightarrow> 'r segments" where
  "add_range R segs start stop =
     (if start < stop \<and> stop < 2 ^ 63 then
        let idx = segmentIndex start;
            segStart = idx * segSize;
            segEnd = segStart + segSize;
            hi = (if stop > segEnd then segEnd else stop)
        in add_range R (AList.update idx (rb_AddRange R (segment R segs idx) (start - segStart) (hi - segStart)) segs)
             hi stop
      else segs)"
  by pat_completeness auto

lemma segment_end: "n < 2 ^ 63 \<Longrightarrow> n < segmentIndex n * segSize + segSize"
  using segment_bounds(2) [of n] by simp

termination add_range
proof (relation "measure (\<lambda>(R, segs, start, stop). stop - start)")
  fix start stop idx segStart segEnd hi :: nat
  assume "start < stop \<and> stop < 2 ^ 63" "idx = segmentIndex start" "segStart = idx * segSize"
    "segEnd = segStart + segSize" "hi = (if segEnd < stop then segEnd else stop)"
  then have "start < hi" using segment_end [of start] by simp
  with \<open>start < stop \<and> stop < 2 ^ 63\<close> show "((R, x, hi, stop), R, segs, start, stop)
      \<in> measure (\<lambda>(R, segs, start, stop). stop - start)" for R x segs
    by auto
qed simp

declare add_range.simps [simp del]

definition addRange :: "'r roaring \<Rightarrow> 'r FsBitmap \<Rightarrow> nat \<Rightarrow> nat \<Rightarrow> 'r FsBitmap" where
  "addRange R b start stop = b\<lparr>segments := add_range R (segments b) start stop\<rparr>"

text \<open>Replace a segment, or drop it when it has become empty.\<close>

definition store_segment :: "'r roaring \<Rightarrow> 'r segments \<Rightarrow> nat \<Rightarrow> 'r \<Rightarrow> 'r segments" where
  "store_segment R segs idx s =
     (if rb_IsEmpty R s then AList.delete idx segs else AList.update idx s segs)"

function remove_range :: "'r roaring \<Rightarrow> 'r segments \<Rightarrow> nat \<Rightarrow> nat \<Rightarrow> 'r segments" where
  "remove_range R segs start stop =
     (if start < stop \<and> stop < 2 ^ 63 then
        let idx = segmentIndex start;
            segStart = idx * segSize;
            segEnd = segStart + segSize;
            hi = (if stop > segEnd then segEnd else stop)
        in remove_range R
             (case map_of segs idx of
                Some s \<Rightarrow> store_segment R segs idx (rb_RemoveRange R s (start - segStart) (hi - segStart))
              | None \<Rightarrow> segs)
             hi stop
      else segs)"
  by pat_completeness auto

termination remove_range
proof (relation "measure (\<lambda>(R, segs, start, stop). stop - start)")
  fix start stop idx segStart segEnd hi :: nat
  assume "start < stop \<and> stop < 2 ^ 63" "idx = segmentIndex start" "segStart = idx * segSize"
    "segEnd = segStart + segSize" "hi = (if segEnd < stop then segEnd else stop)"
  then have "start < hi" using segment_end [of start] by simp
  with \<open>start < stop \<and> stop < 2 ^ 63\<close> show "((R, x, hi, stop), R, segs, start, stop)
      \<in> measure (\<lambda>(R, segs, start, stop). stop - start)" for R x segs
    by auto
qed simp

declare remove_range.simps [simp del]

definition removeRange :: "'r roaring \<Rightarrow> 'r FsBitmap \<Rightarrow> nat \<Rightarrow> nat \<Rightarrow> 'r FsBitmap" where
  "removeRange R b start stop = b\<lparr>segments := remove_range R (segments b) start stop\<rparr>"

definition Set :: "'r roaring \<Rightarrow> 'r FsBitmap \<Rightarrow> nat \<Rightarrow> 'r FsBitmap" where
  "Set R b blockNum =
     (if Bits b \<le> 0 \<or> int blockNum \<ge> Bits b then b
      else let idx = segmentIndex blockNum
           in b\<lparr>segments := AList.update idx (rb_Add R (segment R (segments b) idx) (u32 blockNum)) (segments b)\<rparr>)"

definition SetRange :: "'r roaring \<Rightarrow> 'r FsBitmap \<Rightarrow> nat \<Rightarrow> nat \<Rightarrow> 'r FsBitmap" where
  "SetRange R b start len =
     (if len = 0 \<or> Bits b \<le> 0 \<or> int start \<ge> Bits b then b
      else let stop = u64 (start + len)
           in addRange R b start (if int stop > Bits b then nat (Bits b) else stop))"

definition IsSet :: "'r roaring \<Rightarrow> 'r FsBitmap \<Rightarrow> nat \<Rightarrow> bool" where
  "IsSet R b blockNum =
     (if Bits b \<le> 0 \<or> int blockNum \<ge> Bits b then False
      else case map_of (segments b) (segmentIndex blockNum) of
             None \<Rightarrow> False
           | Some s \<Rightarrow> rb_Contains R s (u32 blockNum))"

definition SetAll :: "'r roaring \<Rightarrow> 'r FsBitmap \<Rightarrow> 'r FsBitmap" where
  "SetAll R b = (if Bits b \<le> 0 then b else addRange R b 0 (nat (Bits b)))"

definition Clear :: "'r roaring \<Rightarrow> 'r FsBitmap \<Rightarrow> nat \<Rightarrow> 'r FsBitmap" where
  "Clear R b blockNum =
     (if Bits b \<le> 0 \<or> int blockNum \<ge> Bits b then b
      else let idx = segmentIndex blockNum
           in case map_of (segments b) idx of
                None \<Rightarrow> b
              | Some s \<Rightarrow> b\<lparr>segments := store_segment R (segments b) idx (rb_Remove R s (u32 blockNum))\<rparr>)"

definition ClearRange :: "'r roaring \<Rightarrow> 'r FsBitmap \<Rightarrow> nat \<Rightarrow> nat \<Rightarrow> 'r FsBitmap" where
  "ClearRange R b start len =
     (if len = 0 \<or> Bits b \<le> 0 \<or> int start \<ge> Bits b then b
      else let stop = u64 (start + len)
           in removeRange R b start (if int stop > Bits b then nat (Bits b) else stop))"

definition CountSet :: "'r roaring \<Rightarrow> 'r FsBitmap \<Rightarrow> int" where
  "CountSet R b = i64 (int (sum_list (map (\<lambda>(k, s). rb_GetCardinality R s) (segments b))))"

definition UsedSize :: "'r roaring \<Rightarrow> 'r FsBitmap \<Rightarrow> int" where
  "UsedSize R b = i64 (CountSet R b * BlockSize b)"

section \<open>Loading from bytes\<close>

definition TrailingZeros8 :: "byte \<Rightarrow> nat" where
  "TrailingZeros8 v = length (takeWhile (\<lambda>j. \<not> bit v j) [0..<8])"

type_synonym 'r run_state = "'r FsBitmap \<times> int \<times> int"

text \<open>The body of the inner loop: one set bit is merged into the current run or starts a new one.\<close>

definition run_bit :: "'r roaring \<Rightarrow> int \<Rightarrow> int \<Rightarrow> 'r run_state \<Rightarrow> 'r run_state" where
  "run_bit R numBits i = (\<lambda>(b, runStart, lastSet).
     if i \<ge> numBits then (b, runStart, lastSet)
     else if runStart \<ge> 0 \<and> i = lastSet + 1 then (b, runStart, i)
     else (if runStart \<ge> 0 then addRange R b (nat runStart) (nat lastSet + 1) else b, i, i))"

function run_byte :: "'r roaring \<Rightarrow> int \<Rightarrow> int \<Rightarrow> byte \<Rightarrow> 'r run_state \<Rightarrow> 'r run_state" where
  "run_byte R numBits base v st =
     (if v = 0 then st
      else let j = TrailingZeros8 v
           in run_byte R numBits base (v AND NOT (push_bit j 1)) (run_bit R numBits (base + int j) st))"
  by pat_completeness auto

lemma TrailingZeros8_bit:
  assumes "v \<noteq> 0"
  shows "TrailingZeros8 v < 8" "bit v (TrailingZeros8 v)"
proof -
  let ?t = "takeWhile (\<lambda>j. \<not> bit v j) [0..<8]"
  obtain n where n: "bit v n" using assms by (auto simp: bit_eq_iff)
  then have n8: "n < 8" using bit_imp_le_length [OF n] by simp
  have len: "length ?t \<le> n"
  proof (rule ccontr)
    assume "\<not> length ?t \<le> n"
    then have "?t ! n = n" "?t ! n \<in> set ?t" using n8 by (simp add: takeWhile_nth, intro nth_mem) simp
    with n show False using set_takeWhileD [of "?t ! n" "\<lambda>j. \<not> bit v j" "[0..<8]"] by simp
  qed
  then show l8: "TrailingZeros8 v < 8" using n8 by (simp add: TrailingZeros8_def)
  show "bit v (TrailingZeros8 v)"
    using nth_length_takeWhile [of "\<lambda>j. \<not> bit v j" "[0..<8]"] l8 by (simp add: TrailingZeros8_def)
qed

lemma bit_clear: "bit (v AND NOT (push_bit j 1)) n \<longleftrightarrow> bit (v::byte) n \<and> n \<noteq> j"
  by (auto simp: bit_simps dest: bit_imp_le_length)

termination run_byte
proof (relation "measure (\<lambda>(R, numBits, base, v, st). card {n. bit v n})")
  fix R :: "'r roaring" and numBits base :: int and v :: byte and st :: "'r run_state" and j
  assume v: "v \<noteq> 0" and j: "j = TrailingZeros8 v"
  have "{n. bit (v AND NOT (push_bit j 1)) n} = {n. bit v n} - {j}"
    unfolding bit_clear by auto
  moreover have "finite {n. bit v n}"
    by (rule finite_subset [of _ "{..<8}"]) (auto dest: bit_imp_le_length)
  ultimately have "card {n. bit (v AND NOT (push_bit j 1)) n} < card {n. bit v n}"
    using TrailingZeros8_bit(2) [OF v] j by (metis card_Diff1_less mem_Collect_eq)
  then show "((R, numBits, base, v AND NOT (push_bit j 1), run_bit R numBits (base + int j) st),
      R, numBits, base, v, st) \<in> measure (\<lambda>(R, numBits, base, v, st). card {n. bit v n})"
    by simp
qed simp

declare run_byte.simps [simp del]

fun run_bytes :: "'r roaring \<Rightarrow> int \<Rightarrow> nat \<Rightarrow> byte list \<Rightarrow> 'r run_state \<Rightarrow> 'r run_state" where
  "run_bytes R numBits i [] st = st"
| "run_bytes R numBits i (v # vs) st =
     run_bytes R numBits (i + 1) vs (run_byte R numBits (int i * 8) v st)"

definition NewFsBitmapFromBytes ::
    "'r roaring \<Rightarrow> string \<Rightarrow> BitmapKind \<Rightarrow> byte list \<Rightarrow> int \<Rightarrow> int \<Rightarrow> 'r FsBitmap" where
  "NewFsBitmapFromBytes R fsType kind raw numBits blockSize =
     (let b = NewFsBitmap fsType kind numBits blockSize in
      if numBits \<le> 0 \<or> raw = [] then b
      else case run_bytes R numBits 0 raw (b, -1, -1) of
             (b', runStart, lastSet) \<Rightarrow>
               if runStart \<ge> 0 then addRange R b' (nat runStart) (nat lastSet + 1) else b')"

section \<open>Changing the block size\<close>

definition change_bit :: "'r roaring \<Rightarrow> nat \<Rightarrow> 'r segments \<Rightarrow> nat \<Rightarrow> 'r segments" where
  "change_bit R ratio segs n =
     (let newBit = n div ratio; newIdx = segmentIndex newBit
      in AList.update newIdx (rb_Add R (segment R segs newIdx) (u32 newBit)) segs)"

definition change_segment :: "'r roaring \<Rightarrow> nat \<Rightarrow> 'r segments \<Rightarrow> 'r segments \<Rightarrow> nat \<Rightarrow> 'r segments" where
  "change_segment R ratio old segs idx =
     (case map_of old idx of
        None \<Rightarrow> segs
      | Some s \<Rightarrow> foldl (change_bit R ratio) segs (map (\<lambda>v. idx * segSize + v) (rb_values R s)))"

definition ChangeBlockSize :: "'r roaring \<Rightarrow> 'r FsBitmap \<Rightarrow> int \<Rightarrow> 'r FsBitmap \<times> gerror option" where
  "ChangeBlockSize R b blocksize =
     (if blocksize \<le> 0 then (b, Some (Errorf ''invalid blocksize: %d'' [FInt blocksize]))
      else if BlockSize b \<le> 0 then
        (b, Some (Errorf ''invalid current blocksize: %d'' [FInt (BlockSize b)]))
      else if blocksize = BlockSize b then (b, None)
      else if blocksize < BlockSize b then
        (b, Some (Errorf ''new blocksize(%d) must not be smaller than current blocksize(%d)''
                    [FInt blocksize, FInt (BlockSize b)]))
      else if trem blocksize (BlockSize b) \<noteq> 0 then
        (b, Some (Errorf ''new blocksize(%d) must be a multiple of current blocksize(%d)''
                    [FInt blocksize, FInt (BlockSize b)]))
      else if Bits b \<le> 0 then (b\<lparr>BlockSize := blocksize\<rparr>, None)
      else let ratio = tdiv blocksize (BlockSize b);
               newBits = tdiv (i64 (Bits b + ratio - 1)) ratio;
               segs = foldl (change_segment R (nat ratio) (segments b)) [] (sort (map fst (segments b)))
           in (b\<lparr>segments := segs, Bits := newBits, BlockSize := blocksize\<rparr>, None))"

section \<open>Searching\<close>

function scan_set :: "'r roaring \<Rightarrow> 'r segments \<Rightarrow> nat \<Rightarrow> nat \<Rightarrow> nat \<Rightarrow> nat option" where
  "scan_set R segs lastIdx idx lo =
     (if idx \<le> lastIdx then
        (case map_of segs idx of
           Some s \<Rightarrow> let v = rb_NextValue R s lo
                     in if v \<ge> 0 then Some (idx * segSize + u32 (nat v))
                        else scan_set R segs lastIdx (idx + 1) 0
         | None \<Rightarrow> scan_set R segs lastIdx (idx + 1) 0)
      else None)"
  by pat_completeness auto
termination by (relation "measure (\<lambda>(R, segs, lastIdx, idx, lo). Suc lastIdx - idx)") auto

declare scan_set.simps [simp del]

definition nextSetBit :: "'r roaring \<Rightarrow> 'r FsBitmap \<Rightarrow> int \<Rightarrow> int" where
  "nextSetBit R b from0 =
     (let from' = (if from0 < 0 then 0 else from0) in
      if Bits b \<le> 0 \<or> from' \<ge> Bits b then Bits b
      else case scan_set R (segments b) (segmentIndex (nat (Bits b) - 1)) (segmentIndex (nat from')) (u32 (nat from')) of
             Some n \<Rightarrow> int n
           | None \<Rightarrow> Bits b)"

text \<open>The fallback of \<open>nextClearBit\<close>: walk the iterator to the first gap.\<close>

fun first_gap :: "nat \<Rightarrow> nat list \<Rightarrow> nat" where
  "first_gap expected [] = expected"
| "first_gap expected (v # vs) = (if v = expected then first_gap (expected + 1) vs else expected)"

definition absent_value :: "'r roaring \<Rightarrow> 'r \<Rightarrow> nat \<Rightarrow> nat option" where
  "absent_value R s lo =
     (let v = rb_NextAbsentValue R s lo in
      if v \<ge> int lo \<and> v < int segSize then Some (u32 (nat v))
      else if v \<ge> 0 \<and> v < int lo then
        (let expected = first_gap lo (dropWhile (\<lambda>v. v < lo) (rb_values R s))
         in if expected < segSize then Some expected else None)
      else None)"

function scan_clear :: "'r roaring \<Rightarrow> 'r segments \<Rightarrow> nat \<Rightarrow> nat \<Rightarrow> nat \<Rightarrow> nat \<Rightarrow> nat option" where
  "scan_clear R segs from' lastIdx idx lo =
     (if idx \<le> lastIdx then
        (case map_of segs idx of
           None \<Rightarrow> Some (if from' > idx * segSize then from' else idx * segSize)
         | Some s \<Rightarrow>
             (case absent_value R s lo of
                Some v \<Rightarrow> Some (idx * segSize + v)
              | None \<Rightarrow> scan_clear R segs from' lastIdx (idx + 1) 0))
      else None)"
  by pat_completeness auto
termination by (relation "measure (\<lambda>(R, segs, from', lastIdx, idx, lo). Suc lastIdx - idx)") auto

declare scan_clear.simps [simp del]

definition nextClearBit :: "'r roaring \<Rightarrow> 'r FsBitmap \<Rightarrow> int \<Rightarrow> int" where
  "nextClearBit R b from0 =
     (let from' = (if from0 < 0 then 0 else from0) in
      if Bits b \<le> 0 \<or> from' \<ge> Bits b then Bits b
      else case scan_clear R (segments b) (nat from') (segmentIndex (nat (Bits b) - 1))
                  (segmentIndex (nat from')) (u32 (nat from')) of
             Some n \<Rightarrow> if int n \<ge> Bits b then Bits b else int n
           | None \<Rightarrow> Bits b)"

end
