(* ===== verification/FsBitmapLaws.thy ===== *)
theory FsBitmapLaws
  imports FsBitmap
begin

text \<open>
  What the used-block bitmap promises: its operations refine the operations on the set of used
  block numbers.  The contract is the locale \<open>block_set\<close>; the parsers of the file systems rely
  on nothing else.  It is interpreted on the model's own operations, for every implementation of
  the compressed bitmap library.
\<close>

section \<open>The contract\<close>

locale block_set =
  fixes inv :: "'b \<Rightarrow> bool" and used :: "'b \<Rightarrow> nat set" and size :: "'b \<Rightarrow> nat"
    and set1 :: "'b \<Rightarrow> nat \<Rightarrow> 'b" and set_range :: "'b \<Rightarrow> nat \<Rightarrow> nat \<Rightarrow> 'b"
    and clear1 :: "'b \<Rightarrow> nat \<Rightarrow> 'b" and clear_range :: "'b \<Rightarrow> nat \<Rightarrow> nat \<Rightarrow> 'b" and set_all :: "'b \<Rightarrow> 'b"
  assumes used_bound: "inv b \<Longrightarrow> used b \<subseteq> {..<size b}"
    and set1_inv: "inv b \<Longrightarrow> inv (set1 b n)" and set1_size: "inv b \<Longrightarrow> size (set1 b n) = size b"
    and set1_used: "inv b \<Longrightarrow> used (set1 b n) = used b \<union> ({n} \<inter> {..<size b})"
    and set_range_inv: "inv b \<Longrightarrow> len < segSize \<Longrightarrow> inv (set_range b n len)"
    and set_range_size: "inv b \<Longrightarrow> len < segSize \<Longrightarrow> size (set_range b n len) = size b"
    and set_range_used: "inv b \<Longrightarrow> len < segSize \<Longrightarrow>
           used (set_range b n len) = used b \<union> ({n..<n + len} \<inter> {..<size b})"
    and clear1_inv: "inv b \<Longrightarrow> inv (clear1 b n)" and clear1_size: "inv b \<Longrightarrow> size (clear1 b n) = size b"
    and clear1_used: "inv b \<Longrightarrow> used (clear1 b n) = used b - {n}"
    and clear_range_inv: "inv b \<Longrightarrow> len < segSize \<Longrightarrow> inv (clear_range b n len)"
    and clear_range_size: "inv b \<Longrightarrow> len < segSize \<Longrightarrow> size (clear_range b n len) = size b"
    and clear_range_used: "inv b \<Longrightarrow> len < segSize \<Longrightarrow> used (clear_range b n len) = used b - {n..<n + len}"
    and set_all_inv: "inv b \<Longrightarrow> inv (set_all b)" and set_all_size: "inv b \<Longrightarrow> size (set_all b) = size b"
    and set_all_used: "inv b \<Longrightarrow> used (set_all b) = {..<size b}"
begin

lemma foldl_set1:
  "inv b \<Longrightarrow> inv (foldl set1 b ns) \<and> size (foldl set1 b ns) = size b
     \<and> used (foldl set1 b ns) = used b \<union> (set ns \<inter> {..<size b})"
  by (induction ns arbitrary: b) (auto simp: set1_inv set1_size set1_used)

lemma foldl_clear1:
  "inv b \<Longrightarrow> inv (foldl clear1 b ns) \<and> size (foldl clear1 b ns) = size b
     \<and> used (foldl clear1 b ns) = used b - set ns"
  by (induction ns arbitrary: b) (auto simp: clear1_inv clear1_size clear1_used)

lemma foldl_set_range_if:
  assumes "len < segSize"
  shows "inv b \<Longrightarrow> inv (foldl (\<lambda>b c. if P c then set_range b (f c) len else b) b cs)
     \<and> size (foldl (\<lambda>b c. if P c then set_range b (f c) len else b) b cs) = size b
     \<and> used (foldl (\<lambda>b c. if P c then set_range b (f c) len else b) b cs)
         = used b \<union> ((\<Union>c \<in> {c \<in> set cs. P c}. {f c..<f c + len}) \<inter> {..<size b})"
proof (induction cs arbitrary: b)
  case (Cons c cs)
  let ?b = "if P c then set_range b (f c) len else b"
  have "inv ?b" "size ?b = size b" using Cons.prems assms set_range_inv set_range_size by simp_all
  with Cons.IH [of ?b] show ?case using set_range_used [OF Cons.prems assms, of "f c"] by (auto split: if_splits)
qed simp

lemma foldl_clear_range:
  "inv b \<Longrightarrow> \<forall>(n, len)\<in>set rs. len < segSize \<Longrightarrow>
   inv (foldl (\<lambda>b (n, len). clear_range b n len) b rs)
   \<and> size (foldl (\<lambda>b (n, len). clear_range b n len) b rs) = size b
   \<and> used (foldl (\<lambda>b (n, len). clear_range b n len) b rs) = used b - (\<Union>(n, len)\<in>set rs. {n..<n + len})"
proof (induction rs arbitrary: b)
  case (Cons r rs)
  obtain n len where r: "r = (n, len)" by (cases r)
  have l: "len < segSize" using Cons.prems(2) r by simp
  have "inv (clear_range b n len)" using Cons.prems(1) l by (rule clear_range_inv)
  from Cons.IH [OF this] Cons.prems show ?case
    by (simp add: r clear_range_size clear_range_used l) blast
qed simp

end

section \<open>The invariant\<close>

definition used :: "'r roaring \<Rightarrow> 'r FsBitmap \<Rightarrow> nat set" where
  "used R b = {n. seg_mem R (segments b) n}"

text \<open>
  No segment is empty, and no bit at or beyond \<open>Bits\<close> is set.
\<close>

definition segs_ok :: "'r roaring \<Rightarrow> 'r segments \<Rightarrow> bool" where
  "segs_ok R segs \<longleftrightarrow> distinct (map fst segs) \<and> (\<forall>(k, s)\<in>set segs. \<not> rb_IsEmpty R s)"

definition bm_inv :: "'r roaring \<Rightarrow> 'r FsBitmap \<Rightarrow> bool" where
  "bm_inv R b \<longleftrightarrow> roaring_ok R \<and> Bits b < 2 ^ 63 \<and> segs_ok R (segments b)
     \<and> used R b \<subseteq> {..<nat (Bits b)}"

text \<open>The laws of the library in the form the proofs use.\<close>

lemma rb_laws:
  assumes "rb_updates_ok R"
  shows "\<not> rb_Contains R (rb_New R) v"
    and "v < segSize \<Longrightarrow> w < segSize \<Longrightarrow> rb_Contains R (rb_Add R b v) w = (w = v \<or> rb_Contains R b w)"
    and "lo < hi \<Longrightarrow> hi \<le> segSize \<Longrightarrow> w < segSize \<Longrightarrow>
           rb_Contains R (rb_AddRange R b lo hi) w = (lo \<le> w \<and> w < hi \<or> rb_Contains R b w)"
    and "v < segSize \<Longrightarrow> w < segSize \<Longrightarrow> rb_Contains R (rb_Remove R b v) w = (w \<noteq> v \<and> rb_Contains R b w)"
    and "lo < hi \<Longrightarrow> hi \<le> segSize \<Longrightarrow> w < segSize \<Longrightarrow>
           rb_Contains R (rb_RemoveRange R b lo hi) w = (\<not> (lo \<le> w \<and> w < hi) \<and> rb_Contains R b w)"
  using assms unfolding rb_updates_ok_def by simp_all

lemma rb_IsEmpty_iff: "rb_queries_ok R \<Longrightarrow> rb_IsEmpty R b \<longleftrightarrow> (\<forall>v < segSize. \<not> rb_Contains R b v)"
  unfolding rb_queries_ok_def by blast

lemma seg_mem_segment:
  assumes "rb_updates_ok R"
  shows "seg_mem R segs n = rb_Contains R (segment R segs (n div segSize)) (n mod segSize)"
  using rb_laws(1) [OF assms] by (simp add: seg_mem_def segment_def split: option.splits)

lemma segs_ok_update:
  assumes "segs_ok R segs" "rb_queries_ok R" "rb_Contains R s v" "v < segSize"
  shows "segs_ok R (AList.update k s segs)"
proof -
  have "\<not> rb_IsEmpty R s" using assms(3,4) by (auto simp: rb_IsEmpty_iff [OF assms(2)])
  moreover have "(k', s') \<in> set (AList.update k s segs) \<Longrightarrow> (k', s') = (k, s) \<or> (k', s') \<in> set segs" for k' s'
    by (induction segs) (auto split: if_splits)
  ultimately show ?thesis using assms(1) unfolding segs_ok_def by fastforce
qed

lemma segs_ok_store:
  assumes "segs_ok R segs" "rb_queries_ok R"
  shows "segs_ok R (store_segment R segs k s)"
proof (cases "rb_IsEmpty R s")
  case True
  then show ?thesis using assms(1) unfolding segs_ok_def store_segment_def
    by (auto simp: AList.delete_eq distinct_map_filter)
next
  case False
  then obtain v where "rb_Contains R s v" "v < segSize" by (auto simp: rb_IsEmpty_iff [OF assms(2)])
  with assms False show ?thesis by (simp add: store_segment_def segs_ok_update)
qed

lemma seg_mem_store:
  assumes "rb_queries_ok R"
  shows "seg_mem R (store_segment R segs k s) n =
     (if n div segSize = k then rb_Contains R s (n mod segSize) else seg_mem R segs n)"
  using rb_IsEmpty_iff [OF assms, of s]
  by (auto simp: store_segment_def seg_mem_update seg_mem_delete)

section \<open>Ranges\<close>

text \<open>Where the first round of a range loop ends.\<close>

definition seg_hi :: "nat \<Rightarrow> nat \<Rightarrow> nat" where
  "seg_hi start stop = (let segEnd = start div segSize * segSize + segSize in if stop > segEnd then segEnd else stop)"

lemma range_step:
  assumes "start < stop" "stop < 2 ^ 63"
  shows "start < seg_hi start stop" "seg_hi start stop \<le> stop"
    "start - start div segSize * segSize < seg_hi start stop - start div segSize * segSize"
    "seg_hi start stop - start div segSize * segSize \<le> segSize"
proof -
  define q where "q = start div segSize * segSize"
  have q: "q \<le> start" "start < q + segSize" using segment_bounds [of start] by (simp_all add: q_def)
  have hi: "seg_hi start stop = (if stop > q + segSize then q + segSize else stop)"
    by (simp add: seg_hi_def q_def)
  show "start < seg_hi start stop" "seg_hi start stop \<le> stop"
    "start - start div segSize * segSize < seg_hi start stop - start div segSize * segSize"
    "seg_hi start stop - start div segSize * segSize \<le> segSize"
    unfolding q_def [symmetric] hi using q assms(1) by auto
qed

lemma range_split:
  assumes "start < stop" "stop < 2 ^ 63"
  shows "start \<le> n \<and> n < stop \<longleftrightarrow>
    (n div segSize = start div segSize \<and> start \<le> n \<and> n < seg_hi start stop) \<or> seg_hi start stop \<le> n \<and> n < stop"
proof -
  define q where "q = start div segSize * segSize"
  have q: "q \<le> start" "start < q + segSize" using segment_bounds [of start] by (simp_all add: q_def)
  have hi: "seg_hi start stop = (if stop > q + segSize then q + segSize else stop)"
    by (simp add: seg_hi_def q_def)
  have "n div segSize = start div segSize \<longleftrightarrow> q \<le> n \<and> n < q + segSize"
    using div_segment [of "start div segSize" n] segment_bounds [of n] unfolding q_def by metis
  then show ?thesis unfolding hi using q assms(1) by auto
qed

lemma range_induct [case_names stop step]:
  assumes "\<And>segs start. \<not> start < stop \<Longrightarrow> P segs start"
    and "\<And>segs start. start < stop \<Longrightarrow> (\<And>segs'. P segs' (seg_hi start stop)) \<Longrightarrow> P segs start"
    and "stop < 2 ^ 63"
  shows "P segs start"
proof (induction "stop - start" arbitrary: segs start rule: less_induct)
  case less
  show ?case
  proof (cases "start < stop")
    case True
    then have "stop - seg_hi start stop < stop - start"
      using range_step(1) [OF True assms(3)] by simp
    then show ?thesis using less assms(2) [OF True] by blast
  qed (rule assms(1))
qed

definition add_first :: "'r roaring \<Rightarrow> 'r segments \<Rightarrow> nat \<Rightarrow> nat \<Rightarrow> 'r segments" where
  "add_first R segs start stop = AList.update (start div segSize)
     (rb_AddRange R (segment R segs (start div segSize)) (start - start div segSize * segSize)
        (seg_hi start stop - start div segSize * segSize)) segs"

definition remove_first :: "'r roaring \<Rightarrow> 'r segments \<Rightarrow> nat \<Rightarrow> nat \<Rightarrow> 'r segments" where
  "remove_first R segs start stop =
     (case map_of segs (start div segSize) of
        Some s \<Rightarrow> store_segment R segs (start div segSize)
                    (rb_RemoveRange R s (start - start div segSize * segSize)
                       (seg_hi start stop - start div segSize * segSize))
      | None \<Rightarrow> segs)"

lemma add_range_step:
  "start < stop \<Longrightarrow> stop < 2 ^ 63 \<Longrightarrow>
   add_range R segs start stop = add_range R (add_first R segs start stop) (seg_hi start stop) stop"
  by (subst add_range.simps) (simp add: Let_def add_first_def seg_hi_def)

lemma remove_range_step:
  "start < stop \<Longrightarrow> stop < 2 ^ 63 \<Longrightarrow>
   remove_range R segs start stop = remove_range R (remove_first R segs start stop) (seg_hi start stop) stop"
  by (subst remove_range.simps) (simp add: Let_def remove_first_def seg_hi_def cong: option.case_cong)

lemma mod_seg [simp]: "n mod segSize < segSize"
  by (rule mod_less_divisor [OF segSize_pos])

lemma add_first_mem:
  assumes "rb_updates_ok R" "start < stop" "stop < 2 ^ 63"
  shows "seg_mem R (add_first R segs start stop) n \<longleftrightarrow>
    seg_mem R segs n \<or> n div segSize = start div segSize \<and> start \<le> n \<and> n < seg_hi start stop"
proof (cases "n div segSize = start div segSize")
  case True
  have "seg_mem R (add_first R segs start stop) n \<longleftrightarrow>
      start \<le> n \<and> n < seg_hi start stop \<or> rb_Contains R (segment R segs (start div segSize)) (n mod segSize)"
    unfolding add_first_def seg_mem_update if_P [OF True]
      rb_laws(3) [OF assms(1) range_step(3,4) [OF assms(2,3)] mod_seg]
      offset_range [OF True segment_bounds(1)] ..
  then show ?thesis using True seg_mem_segment [OF assms(1), of segs n] by auto
qed (simp add: add_first_def seg_mem_update)

lemma remove_first_mem:
  assumes "roaring_ok R" "start < stop" "stop < 2 ^ 63"
  shows "seg_mem R (remove_first R segs start stop) n \<longleftrightarrow>
    seg_mem R segs n \<and> \<not> (n div segSize = start div segSize \<and> start \<le> n \<and> n < seg_hi start stop)"
proof (cases "map_of segs (start div segSize)")
  case None
  then show ?thesis by (auto simp: remove_first_def seg_mem_def)
next
  case (Some s)
  show ?thesis
  proof (cases "n div segSize = start div segSize")
    case True
    have "seg_mem R (remove_first R segs start stop) n \<longleftrightarrow>
        \<not> (start \<le> n \<and> n < seg_hi start stop) \<and> rb_Contains R s (n mod segSize)"
      unfolding remove_first_def Some option.case seg_mem_store [OF roaring_okD(2) [OF assms(1)]] if_P [OF True]
        rb_laws(5) [OF roaring_okD(1) [OF assms(1)] range_step(3,4) [OF assms(2,3)] mod_seg]
        offset_range [OF True segment_bounds(1)] ..
    then show ?thesis using True Some by (auto simp: seg_mem_def)
  qed (simp add: remove_first_def Some seg_mem_store [OF roaring_okD(2) [OF assms(1)]])
qed

lemma add_range_mem:
  assumes "rb_updates_ok R" "stop < 2 ^ 63"
  shows "seg_mem R (add_range R segs start stop) n \<longleftrightarrow> seg_mem R segs n \<or> start \<le> n \<and> n < stop"
proof (induction segs start rule: range_induct [where stop = stop])
  case (stop segs start)
  then show ?case by (auto simp: add_range.simps)
next
  case (step segs start)
  then show ?case using assms range_split [OF step(1) assms(2), of n]
    by (auto simp: add_range_step add_first_mem)
qed (rule assms(2))

lemma remove_range_mem:
  assumes "roaring_ok R" "stop < 2 ^ 63"
  shows "seg_mem R (remove_range R segs start stop) n \<longleftrightarrow> seg_mem R segs n \<and> \<not> (start \<le> n \<and> n < stop)"
proof (induction segs start rule: range_induct [where stop = stop])
  case (stop segs start)
  then show ?case by (auto simp: remove_range.simps)
next
  case (step segs start)
  then show ?case using assms range_split [OF step(1) assms(2), of n]
    by (auto simp: remove_range_step remove_first_mem)
qed (rule assms(2))

lemma add_range_ok:
  assumes "roaring_ok R" "stop < 2 ^ 63" "segs_ok R segs"
  shows "segs_ok R (add_range R segs start stop)"
  using assms(3)
proof (induction segs start rule: range_induct [where stop = stop])
  case (stop segs start)
  then show ?case by (simp add: add_range.simps)
next
  case (step segs start)
  note u = roaring_okD [OF assms(1)]
  let ?o = "start - start div segSize * segSize"
  let ?s = "rb_AddRange R (segment R segs (start div segSize)) ?o (seg_hi start stop - start div segSize * segSize)"
  have r: "?o < seg_hi start stop - start div segSize * segSize"
      "seg_hi start stop - start div segSize * segSize \<le> segSize"
    using range_step(3,4) [OF step(1) assms(2)] .
  then have "rb_Contains R ?s ?o" "?o < segSize" using rb_laws(3) [OF u(1) r, of ?o] by auto
  then have "segs_ok R (add_first R segs start stop)"
    using segs_ok_update [OF step.prems u(2)] by (simp add: add_first_def)
  then show ?case using step assms by (simp add: add_range_step)
qed (rule assms(2))

lemma remove_range_ok:
  assumes "roaring_ok R" "stop < 2 ^ 63" "segs_ok R segs"
  shows "segs_ok R (remove_range R segs start stop)"
  using assms(3)
proof (induction segs start rule: range_induct [where stop = stop])
  case (stop segs start)
  then show ?case by (simp add: remove_range.simps)
next
  case (step segs start)
  then have "segs_ok R (remove_first R segs start stop)"
    using segs_ok_store [OF _ roaring_okD(2) [OF assms(1)]] by (simp add: remove_first_def split: option.splits)
  then show ?case using step assms by (simp add: remove_range_step)
qed (rule assms(2))

section \<open>The operations refine sets\<close>

lemma bm_invD:
  assumes "bm_inv R b"
  shows "roaring_ok R" "rb_updates_ok R" "rb_queries_ok R" "Bits b < 2 ^ 63" "segs_ok R (segments b)"
    "used R b \<subseteq> {..<nat (Bits b)}"
  using assms by (auto simp: bm_inv_def roaring_ok_def)

lemma addRange_spec:
  assumes b: "bm_inv R b" and r: "stop \<le> nat (Bits b)"
  shows "bm_inv R (addRange R b start stop)" "used R (addRange R b start stop) = used R b \<union> {start..<stop}"
proof -
  note B = bm_invD [OF b]
  have s: "stop < 2 ^ 63" using B(4) r by simp
  show u: "used R (addRange R b start stop) = used R b \<union> {start..<stop}"
    by (auto simp: used_def addRange_def add_range_mem [OF B(2) s])
  show "bm_inv R (addRange R b start stop)"
    using B u r add_range_ok [OF B(1) s B(5)] by (auto simp: bm_inv_def addRange_def)
qed

lemma removeRange_spec:
  assumes b: "bm_inv R b" and r: "stop \<le> nat (Bits b)"
  shows "bm_inv R (removeRange R b start stop)" "used R (removeRange R b start stop) = used R b - {start..<stop}"
proof -
  note B = bm_invD [OF b]
  have s: "stop < 2 ^ 63" using B(4) r by simp
  show u: "used R (removeRange R b start stop) = used R b - {start..<stop}"
    by (auto simp: used_def removeRange_def remove_range_mem [OF B(1) s])
  show "bm_inv R (removeRange R b start stop)"
    using B u remove_range_ok [OF B(1) s B(5)] by (auto simp: bm_inv_def removeRange_def)
qed

lemma Bits_ranges [simp]:
  "Bits (addRange R b m n) = Bits b" "Bits (removeRange R b m n) = Bits b"
  "BlockSize (addRange R b m n) = BlockSize b" "BlockSize (removeRange R b m n) = BlockSize b"
  by (simp_all add: addRange_def removeRange_def)

lemma Set_spec:
  assumes b: "bm_inv R b"
  shows "bm_inv R (Set R b n)" "used R (Set R b n) = used R b \<union> ({n} \<inter> {..<nat (Bits b)})"
proof -
  note B = bm_invD [OF b]
  have *: "bm_inv R (Set R b n) \<and> used R (Set R b n) = used R b \<union> ({n} \<inter> {..<nat (Bits b)})"
  proof (cases "int n < Bits b")
    case True
    then have n: "n < 2 ^ 63" using B(4) by simp
    let ?s = "rb_Add R (segment R (segments b) (n div segSize)) (n mod segSize)"
    have set: "Set R b n = b\<lparr>segments := AList.update (n div segSize) ?s (segments b)\<rparr>"
      using True n by (simp add: Set_def Let_def u32_seg)
    have mem: "seg_mem R (AList.update (n div segSize) ?s (segments b)) m \<longleftrightarrow> m = n \<or> seg_mem R (segments b) m" for m
    proof (cases "m div segSize = n div segSize")
      case True
      then have "m mod segSize = n mod segSize \<longleftrightarrow> m = n" by (metis div_mult_mod_eq)
      then show ?thesis unfolding seg_mem_update if_P [OF True] rb_laws(2) [OF B(2) mod_seg mod_seg]
        using True seg_mem_segment [OF B(2), of "segments b" m] by simp
    qed (auto simp: seg_mem_update)
    have "rb_Contains R ?s (n mod segSize)" using rb_laws(2) [OF B(2) mod_seg mod_seg] by simp
    then have "segs_ok R (AList.update (n div segSize) ?s (segments b))"
      by (rule segs_ok_update [OF B(5,3)]) simp
    then show ?thesis using B True by (auto simp: bm_inv_def set used_def mem)
  qed (use b in \<open>auto simp: Set_def\<close>)
  then show "bm_inv R (Set R b n)" "used R (Set R b n) = used R b \<union> ({n} \<inter> {..<nat (Bits b)})" by auto
qed

lemma Clear_spec:
  assumes b: "bm_inv R b"
  shows "bm_inv R (Clear R b n)" "used R (Clear R b n) = used R b - {n}"
proof -
  note B = bm_invD [OF b]
  have *: "bm_inv R (Clear R b n) \<and> used R (Clear R b n) = used R b - {n}"
  proof (cases "int n < Bits b")
    case True
    then have n: "n < 2 ^ 63" using B(4) by simp
    show ?thesis
    proof (cases "map_of (segments b) (n div segSize)")
      case None
      then have "n \<notin> used R b" by (simp add: used_def seg_mem_def)
      then show ?thesis using b True n None by (simp add: Clear_def Let_def)
    next
      case (Some s)
      let ?segs = "store_segment R (segments b) (n div segSize) (rb_Remove R s (n mod segSize))"
      have clr: "Clear R b n = b\<lparr>segments := ?segs\<rparr>"
        using True n Some by (simp add: Clear_def Let_def u32_seg)
      have mem: "seg_mem R ?segs m \<longleftrightarrow> m \<noteq> n \<and> seg_mem R (segments b) m" for m
      proof (cases "m div segSize = n div segSize")
        case True
        then have "m mod segSize = n mod segSize \<longleftrightarrow> m = n" by (metis div_mult_mod_eq)
        then show ?thesis
          unfolding seg_mem_store [OF B(3)] if_P [OF True] rb_laws(4) [OF B(2) mod_seg mod_seg]
          using True Some by (simp add: seg_mem_def)
      qed (auto simp: seg_mem_store [OF B(3)])
      show ?thesis using B segs_ok_store [OF B(5,3)] by (auto simp: bm_inv_def clr used_def mem)
    qed
  next
    case False
    then have "n \<notin> used R b" using B(6) by auto
    then show ?thesis using b False by (auto simp: Clear_def)
  qed
  then show "bm_inv R (Clear R b n)" "used R (Clear R b n) = used R b - {n}" by auto
qed

lemma range_end:
  assumes "Bits b < 2 ^ 63" "int start < Bits b" "len < segSize"
  shows "(if int (u64 (start + len)) > Bits b then nat (Bits b) else u64 (start + len))
    = min (start + len) (nat (Bits b))"
proof -
  have "start + len < 2 ^ 64" using assms by (simp add: segSize_def)
  then show ?thesis using assms by (simp add: min_def) linarith
qed

lemma SetRange_spec:
  assumes b: "bm_inv R b" and len: "len < segSize"
  shows "bm_inv R (SetRange R b start len)"
    "used R (SetRange R b start len) = used R b \<union> ({start..<start + len} \<inter> {..<nat (Bits b)})"
proof -
  let ?stop = "min (start + len) (nat (Bits b))"
  have "SetRange R b start len = addRange R b start ?stop
      \<or> SetRange R b start len = b \<and> {start..<start + len} \<inter> {..<nat (Bits b)} = {}"
    using range_end [OF bm_invD(4) [OF b] _ len] by (auto simp: SetRange_def Let_def)
  moreover have "{start..<?stop} = {start..<start + len} \<inter> {..<nat (Bits b)}" by auto
  ultimately show "bm_inv R (SetRange R b start len)"
    "used R (SetRange R b start len) = used R b \<union> ({start..<start + len} \<inter> {..<nat (Bits b)})"
    using addRange_spec [OF b, of ?stop start] b by auto
qed

lemma ClearRange_spec:
  assumes b: "bm_inv R b" and len: "len < segSize"
  shows "bm_inv R (ClearRange R b start len)"
    "used R (ClearRange R b start len) = used R b - {start..<start + len}"
proof -
  let ?stop = "min (start + len) (nat (Bits b))"
  have "ClearRange R b start len = removeRange R b start ?stop
      \<or> ClearRange R b start len = b \<and> {start..<start + len} \<inter> {..<nat (Bits b)} = {}"
    using range_end [OF bm_invD(4) [OF b] _ len] by (auto simp: ClearRange_def Let_def)
  moreover have "{start..<?stop} = {start..<start + len} \<inter> {..<nat (Bits b)}" by auto
  moreover have "used R b \<inter> X \<inter> {..<nat (Bits b)} = used R b \<inter> X" for X using bm_invD(6) [OF b] by blast
  ultimately show "bm_inv R (ClearRange R b start len)"
    "used R (ClearRange R b start len) = used R b - {start..<start + len}"
    using removeRange_spec [OF b, of ?stop start] b bm_invD(6) [OF b] by auto
qed

lemma SetAll_spec:
  assumes b: "bm_inv R b"
  shows "bm_inv R (SetAll R b)" "used R (SetAll R b) = {..<nat (Bits b)}"
  using addRange_spec [OF b order_refl, of 0] bm_invD(6) [OF b] b
  by (auto simp: SetAll_def)

lemma Bits_ops [simp]:
  "Bits (Set R b n) = Bits b" "Bits (Clear R b n) = Bits b" "Bits (SetRange R b n l) = Bits b"
  "Bits (ClearRange R b n l) = Bits b" "Bits (SetAll R b) = Bits b"
  by (simp_all add: Set_def Clear_def SetRange_def ClearRange_def SetAll_def Let_def split: option.splits)

lemma BlockSize_ops [simp]:
  "BlockSize (Set R b n) = BlockSize b" "BlockSize (Clear R b n) = BlockSize b"
  "BlockSize (SetRange R b n l) = BlockSize b" "BlockSize (ClearRange R b n l) = BlockSize b"
  "BlockSize (SetAll R b) = BlockSize b"
  by (simp_all add: Set_def Clear_def SetRange_def ClearRange_def SetAll_def Let_def split: option.splits)

interpretation fsbm: block_set "bm_inv R" "used R" "\<lambda>b. nat (Bits b)" "Set R" "SetRange R" "Clear R"
  "ClearRange R" "SetAll R" for R
  by unfold_locales
    (simp_all add: bm_invD(6) Set_spec SetRange_spec Clear_spec ClearRange_spec SetAll_spec)

lemma NewFsBitmap_spec:
  assumes "roaring_ok R" "bits < 2 ^ 63"
  shows "bm_inv R (NewFsBitmap t k bits bs)" "used R (NewFsBitmap t k bits bs) = {}"
    "Bits (NewFsBitmap t k bits bs) = bits" "BlockSize (NewFsBitmap t k bits bs) = bs"
  using assms by (auto simp: bm_inv_def NewFsBitmap_def used_def segs_ok_def)

lemma IsSet_used:
  assumes "bm_inv R b" shows "IsSet R b n \<longleftrightarrow> n \<in> used R b"
proof (cases "int n < Bits b")
  case True
  then have "n < 2 ^ 63" using bm_invD(4) [OF assms] by simp
  then show ?thesis using True by (simp add: IsSet_def used_def seg_mem_def u32_seg split: option.splits)
next
  case False
  then show ?thesis using bm_invD(6) [OF assms] by (auto simp: IsSet_def)
qed

section \<open>Counting\<close>

lemma rb_values_props:
  assumes "rb_queries_ok R"
  shows "sorted (rb_values R s)" "distinct (rb_values R s)"
    "set (rb_values R s) = {v. v < segSize \<and> rb_Contains R s v}"
    "rb_GetCardinality R s = length (rb_values R s)"
  using assms unfolding rb_queries_ok_def by simp_all

lemma card_used_segments:
  assumes "rb_queries_ok R" "distinct (map fst segs)"
  shows "finite {n. seg_mem R segs n}
    \<and> card {n. seg_mem R segs n} = sum_list (map (\<lambda>(k, s). rb_GetCardinality R s) segs)"
  using assms(2)
proof (induction segs)
  case Nil
  have "Collect (seg_mem R []) = {}" by auto
  then show ?case by simp
next
  case (Cons p segs)
  obtain k s where p: "p = (k, s)" by (cases p)
  let ?A = "(\<lambda>v. k * segSize + v) ` set (rb_values R s)"
  have A: "?A = {n. n div segSize = k \<and> rb_Contains R s (n mod segSize)}" (is "_ = ?B")
  proof (intro equalityI subsetI)
    fix n assume "n \<in> ?B"
    then have "n = k * segSize + n mod segSize" by (metis (mono_tags) div_mult_mod_eq mem_Collect_eq)
    moreover have "n mod segSize \<in> set (rb_values R s)" using \<open>n \<in> ?B\<close> by (simp add: rb_values_props(3) [OF assms(1)])
    ultimately show "n \<in> ?A" by blast
  next
    fix n assume "n \<in> ?A"
    then obtain v where "n = k * segSize + v" "v < segSize" "rb_Contains R s v"
      by (auto simp: rb_values_props(3) [OF assms(1)])
    then show "n \<in> ?B" by (simp add: mult.commute)
  qed
  have nk: "map_of segs k = None" using Cons.prems p by (simp add: map_of_eq_None_iff)
  have split: "{n. seg_mem R (p # segs) n} = ?A \<union> {n. seg_mem R segs n}"
    unfolding A using nk by (auto simp: p seg_mem_def split: if_splits)
  have disj: "?A \<inter> {n. seg_mem R segs n} = {}" unfolding A using nk by (auto simp: seg_mem_def)
  have cA: "card ?A = length (rb_values R s)"
    by (subst card_image) (auto simp: inj_on_def distinct_card [OF rb_values_props(2) [OF assms(1)]])
  have IH: "finite {n. seg_mem R segs n}"
    "card {n. seg_mem R segs n} = sum_list (map (\<lambda>(k, s). rb_GetCardinality R s) segs)"
    using Cons by simp_all
  show ?case unfolding split using IH card_Un_disjoint [OF _ IH(1) disj]
    by (simp add: cA p rb_values_props(4) [OF assms(1)])
qed

lemma CountSet_card:
  assumes b: "bm_inv R b" shows "CountSet R b = int (card (used R b))" "finite (used R b)"
proof -
  note B = bm_invD [OF b]
  have c: "finite (used R b) \<and> card (used R b) = sum_list (map (\<lambda>(k, s). rb_GetCardinality R s) (segments b))"
    using card_used_segments [OF B(3), of "segments b"] B(5) by (simp add: used_def segs_ok_def)
  have "card (used R b) \<le> nat (Bits b)" using card_mono [OF _ B(6)] by simp
  then have "int (card (used R b)) < 2 ^ 63" using B(4) by (cases "0 \<le> Bits b") auto
  then show "CountSet R b = int (card (used R b))" using c by (simp add: CountSet_def)
  show "finite (used R b)" using c by simp
qed

section \<open>Searching\<close>

text \<open>
  What a scan from position \<open>pos\<close> through segment \<open>z\<close> returns: the first position
  satisfying \<open>P\<close>, or nothing if no position up to the end of that segment does.
\<close>

definition first_from :: "(nat \<Rightarrow> bool) \<Rightarrow> nat \<Rightarrow> nat \<Rightarrow> nat option \<Rightarrow> bool" where
  "first_from P pos z r \<longleftrightarrow>
     (case r of
        Some n \<Rightarrow> pos \<le> n \<and> P n \<and> (\<forall>m. pos \<le> m \<longrightarrow> m < n \<longrightarrow> \<not> P m)
      | None \<Rightarrow> \<forall>m. pos \<le> m \<longrightarrow> m div segSize \<le> z \<longrightarrow> \<not> P m)"

lemma seg_split: "n div segSize = idx \<Longrightarrow> n = idx * segSize + n mod segSize"
  by (metis div_mult_mod_eq)

lemma in_segment:
  assumes "idx * segSize + lo \<le> n" "n < (idx + 1) * segSize"
  shows "n div segSize = idx" "lo \<le> n mod segSize"
proof -
  show 1: "n div segSize = idx" using assms by (intro div_segment) auto
  show "lo \<le> n mod segSize" using assms(1) seg_split [OF 1] by linarith
qed

text \<open>If the rest of a segment has no hit, the scan goes on at the next one.\<close>

lemma first_from_next:
  assumes "\<And>n. n div segSize = idx \<Longrightarrow> lo \<le> n mod segSize \<Longrightarrow> \<not> P n"
    and "first_from P ((idx + 1) * segSize) z r" "lo < segSize" "idx \<le> z"
  shows "first_from P (idx * segSize + lo) z r"
proof -
  have no: "\<not> P m" if "idx * segSize + lo \<le> m" "m < (idx + 1) * segSize" for m
    using in_segment [OF that] assms(1) by blast
  show ?thesis
  proof (cases r)
    case None
    then show ?thesis using assms(2) no unfolding first_from_def by (auto simp: not_less) (metis not_less)
  next
    case (Some n)
    then have n: "(idx + 1) * segSize \<le> n" "P n" "\<And>m. (idx + 1) * segSize \<le> m \<Longrightarrow> m < n \<Longrightarrow> \<not> P m"
      using assms(2) by (auto simp: first_from_def)
    moreover have "idx * segSize + lo \<le> n" using n(1) assms(3) by simp
    ultimately show ?thesis using no Some by (auto simp: first_from_def) (metis not_less)
  qed
qed

lemma first_from_hit:
  assumes "idx * segSize + v = n" "v < segSize" "lo \<le> v" "P n"
    and "\<And>m. m div segSize = idx \<Longrightarrow> lo \<le> m mod segSize \<Longrightarrow> m mod segSize < v \<Longrightarrow> \<not> P m"
  shows "first_from P (idx * segSize + lo) z (Some n)"
proof -
  have "\<not> P m" if m: "idx * segSize + lo \<le> m" "m < n" for m
  proof -
    have "m < (idx + 1) * segSize" using m(2) assms(1,2) by simp
    note d = in_segment [OF m(1) this]
    have "m mod segSize < v" using m(2) assms(1) seg_split [OF d(1)] by linarith
    with d assms(5) show ?thesis by blast
  qed
  then show ?thesis using assms by (auto simp: first_from_def)
qed

lemma NextValue_cases:
  assumes "rb_queries_ok R" "lo < segSize"
  obtains (hit) v where "rb_NextValue R s lo = int v" "lo \<le> v" "v < segSize" "rb_Contains R s v"
      "\<And>w. lo \<le> w \<Longrightarrow> w < v \<Longrightarrow> \<not> rb_Contains R s w"
    | (miss) "rb_NextValue R s lo < 0" "\<And>w. lo \<le> w \<Longrightarrow> w < segSize \<Longrightarrow> \<not> rb_Contains R s w"
proof -
  have L: "if \<exists>v. lo \<le> v \<and> v < segSize \<and> rb_Contains R s v
            then \<exists>v. rb_NextValue R s lo = int v \<and> lo \<le> v \<and> v < segSize \<and> rb_Contains R s v
                     \<and> (\<forall>w. lo \<le> w \<longrightarrow> w < v \<longrightarrow> \<not> rb_Contains R s w)
            else rb_NextValue R s lo < 0"
    using assms unfolding rb_queries_ok_def by (elim conjE allE [of _ s] allE [of _ lo]) (rule mp)
  show thesis
  proof (cases "\<exists>v. lo \<le> v \<and> v < segSize \<and> rb_Contains R s v")
    case True
    show thesis using L unfolding if_P [OF True] by (elim exE conjE) (rule hit, auto)
  next
    case False
    show thesis using L False unfolding if_not_P [OF False] by (intro miss) auto
  qed
qed

lemma scan_set_spec:
  assumes "rb_queries_ok R" "lo < segSize"
  shows "first_from (seg_mem R segs) (idx * segSize + lo) lastIdx (scan_set R segs lastIdx idx lo)"
  using assms(2)
proof (induction "Suc lastIdx - idx" arbitrary: idx lo rule: less_induct)
  case less
  show ?case
  proof (cases "idx \<le> lastIdx")
    case False
    have "\<not> m div segSize \<le> lastIdx" if "idx * segSize + lo \<le> m" for m
    proof -
      have "idx \<le> m div segSize" using that by (simp add: less_eq_div_iff_mult_less_eq)
      with False show ?thesis by simp
    qed
    then show ?thesis using False by (subst scan_set.simps) (auto simp: first_from_def)
  next
    case True
    have IH: "first_from (seg_mem R segs) ((idx + 1) * segSize) lastIdx (scan_set R segs lastIdx (idx + 1) 0)"
      using less.hyps [of "idx + 1" 0] True by simp
    show ?thesis
    proof (cases "map_of segs idx")
      case None
      then have "scan_set R segs lastIdx idx lo = scan_set R segs lastIdx (idx + 1) 0"
        using True by (subst scan_set.simps) simp
      moreover have "\<not> seg_mem R segs n" if "n div segSize = idx" for n using that None by (simp add: seg_mem_def)
      ultimately show ?thesis using first_from_next [OF _ IH less.prems True] by simp
    next
      case (Some s)
      have mem: "seg_mem R segs n \<longleftrightarrow> rb_Contains R s (n mod segSize)" if "n div segSize = idx" for n
        using that Some by (simp add: seg_mem_def)
      from assms(1) less.prems show ?thesis
      proof (cases rule: NextValue_cases [where s = s])
        case (hit v)
        then have r: "scan_set R segs lastIdx idx lo = Some (idx * segSize + v)"
          using True Some by (subst scan_set.simps) simp
        have "seg_mem R segs (idx * segSize + v)" using mem hit by (simp add: mult.commute)
        with hit mem show ?thesis unfolding r by (intro first_from_hit [OF refl]) auto
      next
        case miss
        then have "scan_set R segs lastIdx idx lo = scan_set R segs lastIdx (idx + 1) 0"
          using True Some by (subst scan_set.simps) simp
        then show ?thesis using first_from_next [OF _ IH less.prems True] miss(2) mem by simp
      qed
    qed
  qed
qed

lemma first_gap_spec:
  "sorted vs \<Longrightarrow> distinct vs \<Longrightarrow> \<forall>v\<in>set vs. lo \<le> v \<Longrightarrow>
   lo \<le> first_gap lo vs \<and> first_gap lo vs \<notin> set vs \<and> (\<forall>w. lo \<le> w \<longrightarrow> w < first_gap lo vs \<longrightarrow> w \<in> set vs)"
proof (induction vs arbitrary: lo)
  case (Cons v vs)
  show ?case
  proof (cases "v = lo")
    case True
    then have "\<forall>v\<in>set vs. lo + 1 \<le> v" using Cons.prems by (auto simp: Suc_le_eq order.strict_iff_order)
    from Cons.IH [OF _ _ this] Cons.prems True show ?thesis
      by (auto simp: Suc_le_eq) (metis le_neq_implies_less)
  next
    case False
    then show ?thesis using Cons.prems by fastforce
  qed
qed simp

lemma sorted_dropWhile_less:
  "sorted vs \<Longrightarrow> set (dropWhile (\<lambda>v. v < lo) vs) = {v \<in> set vs. lo \<le> (v::nat)}"
  by (induction vs) (auto simp: not_less)

lemma absent_value_spec:
  assumes "roaring_ok R" "lo < segSize"
  shows "case absent_value R s lo of
      Some v \<Rightarrow> lo \<le> v \<and> v < segSize \<and> \<not> rb_Contains R s v \<and> (\<forall>w. lo \<le> w \<longrightarrow> w < v \<longrightarrow> rb_Contains R s w)
    | None \<Rightarrow> \<forall>w. lo \<le> w \<longrightarrow> w < segSize \<longrightarrow> rb_Contains R s w"
proof -
  let ?v = "rb_NextAbsentValue R s lo"
  have q: "rb_queries_ok R" using assms(1) by (rule roaring_okD)
  consider (bug) "0 \<le> ?v" "?v < int lo" | (right) "absent_at R s lo ?v" "\<not> (0 \<le> ?v \<and> ?v < int lo)"
    using assms unfolding roaring_ok_def by blast
  then show ?thesis
  proof cases
    case bug
    let ?vs = "dropWhile (\<lambda>v. v < lo) (rb_values R s)"
    let ?g = "first_gap lo ?vs"
    have vs: "set ?vs = {v. lo \<le> v \<and> v < segSize \<and> rb_Contains R s v}"
      using sorted_dropWhile_less [OF rb_values_props(1) [OF q, of s], of lo] rb_values_props(3) [OF q, of s] by auto
    have "sorted ?vs" "distinct ?vs"
      using rb_values_props(1,2) [OF q, of s] by (auto intro: sorted_dropWhile distinct_dropWhile)
    then have g: "lo \<le> ?g" "?g \<notin> set ?vs" "\<forall>w. lo \<le> w \<longrightarrow> w < ?g \<longrightarrow> w \<in> set ?vs"
      using first_gap_spec [of ?vs lo] vs by auto
    show ?thesis
    proof (cases "?g < segSize")
      case True
      then show ?thesis using bug g vs by (auto simp: absent_value_def Let_def)
    next
      case False
      then show ?thesis using bug g vs by (auto simp: absent_value_def Let_def)
    qed
  next
    case right
    show ?thesis
    proof (cases "\<exists>w. lo \<le> w \<and> w < segSize \<and> \<not> rb_Contains R s w")
      case True
      then obtain w where "?v = int w" "lo \<le> w" "w < segSize" "\<not> rb_Contains R s w"
          "\<forall>x. lo \<le> x \<longrightarrow> x < w \<longrightarrow> rb_Contains R s x"
        using right(1) unfolding absent_at_def by auto
      then show ?thesis by (simp add: absent_value_def)
    next
      case False
      then have "?v < 0 \<or> int segSize \<le> ?v" using right(1) unfolding absent_at_def by auto
      then show ?thesis using False assms(2) by (auto simp: absent_value_def Let_def)
    qed
  qed
qed

lemma scan_clear_spec:
  assumes "roaring_ok R" "lo < segSize" "from' = idx * segSize + lo \<or> lo = 0 \<and> from' \<le> idx * segSize"
  shows "first_from (\<lambda>n. \<not> seg_mem R segs n) (idx * segSize + lo) lastIdx (scan_clear R segs from' lastIdx idx lo)"
  using assms(2,3)
proof (induction "Suc lastIdx - idx" arbitrary: idx lo rule: less_induct)
  case less
  show ?case
  proof (cases "idx \<le> lastIdx")
    case False
    have "\<not> m div segSize \<le> lastIdx" if "idx * segSize + lo \<le> m" for m
    proof -
      have "idx \<le> m div segSize" using that by (simp add: less_eq_div_iff_mult_less_eq)
      with False show ?thesis by simp
    qed
    then show ?thesis using False by (subst scan_clear.simps) (auto simp: first_from_def)
  next
    case True
    have "from' \<le> (idx + 1) * segSize" using less.prems by auto
    then have IH: "first_from (\<lambda>n. \<not> seg_mem R segs n) ((idx + 1) * segSize) lastIdx
        (scan_clear R segs from' lastIdx (idx + 1) 0)"
      using less.hyps [of "idx + 1" 0] True by simp
    show ?thesis
    proof (cases "map_of segs idx")
      case None
      then have "scan_clear R segs from' lastIdx idx lo = Some (idx * segSize + lo)"
        using True less.prems(2) by (subst scan_clear.simps) auto
      moreover have "\<not> seg_mem R segs (idx * segSize + lo)"
        using None less.prems(1) by (simp add: seg_mem_def mult.commute)
      ultimately show ?thesis by (auto simp: first_from_def)
    next
      case (Some s)
      have mem: "seg_mem R segs n \<longleftrightarrow> rb_Contains R s (n mod segSize)" if "n div segSize = idx" for n
        using that Some by (simp add: seg_mem_def)
      note A = absent_value_spec [OF assms(1) less.prems(1), of s]
      show ?thesis
      proof (cases "absent_value R s lo")
        case (Some v)
        then have r: "scan_clear R segs from' lastIdx idx lo = Some (idx * segSize + v)"
          using True \<open>map_of segs idx = Some s\<close> by (subst scan_clear.simps) simp
        have "\<not> seg_mem R segs (idx * segSize + v)" using mem A Some by (simp add: mult.commute)
        with A Some mem show ?thesis unfolding r by (intro first_from_hit [OF refl]) auto
      next
        case None
        then have "scan_clear R segs from' lastIdx idx lo = scan_clear R segs from' lastIdx (idx + 1) 0"
          using True Some by (subst scan_clear.simps) simp
        then show ?thesis using first_from_next [OF _ IH less.prems(1) True] A None mem by simp
      qed
    qed
  qed
qed

text \<open>The position a search from \<open>from\<close> returns: the first one satisfying \<open>P\<close>, or \<open>Bits\<close>.\<close>

definition first_or :: "(nat \<Rightarrow> bool) \<Rightarrow> nat \<Rightarrow> nat \<Rightarrow> nat \<Rightarrow> bool" where
  "first_or P from' lim r \<longleftrightarrow> from' \<le> r \<and> r \<le> lim \<and> (r < lim \<longrightarrow> P r)
     \<and> (\<forall>m. from' \<le> m \<longrightarrow> m < r \<longrightarrow> \<not> P m)"

lemma first_from_or:
  assumes "first_from P from' ((lim - 1) div segSize) r" "from' < lim"
  shows "first_or P from' lim (case r of Some n \<Rightarrow> min n lim | None \<Rightarrow> lim)"
proof (cases r)
  case None
  have "m div segSize \<le> (lim - 1) div segSize" if "m < lim" for m
    using that by (intro div_le_mono) simp
  then show ?thesis using assms None by (auto simp: first_or_def first_from_def)
next
  case (Some n)
  then show ?thesis using assms by (auto simp: first_or_def first_from_def min_def)
qed

lemma nextSetBit_spec:
  assumes b: "bm_inv R b" and f: "0 \<le> from'" "from' < Bits b"
  shows "first_or (\<lambda>n. n \<in> used R b) (nat from') (nat (Bits b)) (nat (nextSetBit R b from'))"
    and "0 \<le> nextSetBit R b from'"
proof -
  note B = bm_invD [OF b]
  have i: "segmentIndex (nat from') = nat from' div segSize" "segmentIndex (nat (Bits b) - 1) = (nat (Bits b) - 1) div segSize"
    using f B(4) by simp_all
  let ?r = "scan_set R (segments b) ((nat (Bits b) - 1) div segSize) (nat from' div segSize) (nat from' mod segSize)"
  have S: "first_from (seg_mem R (segments b)) (nat from') ((nat (Bits b) - 1) div segSize) ?r"
    using scan_set_spec [OF B(3) mod_seg, of "segments b" "nat from' div segSize" "nat from'"] by simp
  have n: "nextSetBit R b from' = (case ?r of Some n \<Rightarrow> int n | None \<Rightarrow> Bits b)"
    using f i by (simp add: nextSetBit_def u32_seg)
  have "n < nat (Bits b)" if "?r = Some n" for n
    using S that B(6) by (auto simp: first_from_def used_def)
  then have "nat (nextSetBit R b from') = (case ?r of Some n \<Rightarrow> min n (nat (Bits b)) | None \<Rightarrow> nat (Bits b))"
    unfolding n by (auto split: option.splits)
  then show "first_or (\<lambda>n. n \<in> used R b) (nat from') (nat (Bits b)) (nat (nextSetBit R b from'))"
    using first_from_or [OF S] f by (simp add: used_def)
  show "0 \<le> nextSetBit R b from'" using f by (simp add: n split: option.splits)
qed

lemma nextClearBit_spec:
  assumes b: "bm_inv R b" and f: "0 \<le> from'" "from' < Bits b"
  shows "first_or (\<lambda>n. n \<notin> used R b) (nat from') (nat (Bits b)) (nat (nextClearBit R b from'))"
    and "0 \<le> nextClearBit R b from'"
proof -
  note B = bm_invD [OF b]
  have i: "segmentIndex (nat from') = nat from' div segSize" "segmentIndex (nat (Bits b) - 1) = (nat (Bits b) - 1) div segSize"
    using f B(4) by simp_all
  let ?r = "scan_clear R (segments b) (nat from') ((nat (Bits b) - 1) div segSize) (nat from' div segSize) (nat from' mod segSize)"
  have S: "first_from (\<lambda>n. \<not> seg_mem R (segments b) n) (nat from') ((nat (Bits b) - 1) div segSize) ?r"
    using scan_clear_spec [OF B(1) mod_seg, of "nat from'" "nat from' div segSize" "nat from'"] by simp
  have n: "nextClearBit R b from' = (case ?r of Some n \<Rightarrow> if int n \<ge> Bits b then Bits b else int n | None \<Rightarrow> Bits b)"
    using f i by (simp add: nextClearBit_def u32_seg)
  have "nat (nextClearBit R b from') = (case ?r of Some n \<Rightarrow> min n (nat (Bits b)) | None \<Rightarrow> nat (Bits b))"
    unfolding n by (auto split: option.splits)
  then show "first_or (\<lambda>n. n \<notin> used R b) (nat from') (nat (Bits b)) (nat (nextClearBit R b from'))"
    using first_from_or [OF S] f by (simp add: used_def)
  show "0 \<le> nextClearBit R b from'" using f by (simp add: n split: option.splits)
qed

section \<open>Loading from bytes\<close>

definition run_ok :: "'r roaring \<Rightarrow> int \<Rightarrow> 'r run_state \<Rightarrow> bool" where
  "run_ok R numBits = (\<lambda>(b, rs, ls). bm_inv R b \<and> Bits b = numBits \<and> (0 \<le> rs \<longrightarrow> rs \<le> ls \<and> ls < numBits))"

definition run_covered :: "'r roaring \<Rightarrow> 'r run_state \<Rightarrow> nat set" where
  "run_covered R = (\<lambda>(b, rs, ls). used R b \<union> (if 0 \<le> rs then {nat rs..nat ls} else {}))"

lemma run_flush:
  assumes "run_ok R numBits (b, rs, ls)" "0 \<le> rs"
  shows "bm_inv R (addRange R b (nat rs) (nat ls + 1))"
    "used R (addRange R b (nat rs) (nat ls + 1)) = run_covered R (b, rs, ls)"
  using assms addRange_spec [of R b "nat ls + 1" "nat rs"]
  by (auto simp: run_ok_def run_covered_def)

lemma run_bit_spec:
  assumes st: "run_ok R numBits st" and i: "0 \<le> i"
  shows "run_ok R numBits (run_bit R numBits i st)"
    "run_covered R (run_bit R numBits i st) = run_covered R st \<union> (if i < numBits then {nat i} else {})"
proof -
  obtain b rs ls where s: "st = (b, rs, ls)" by (cases st)
  have *: "run_ok R numBits (run_bit R numBits i st) \<and>
    run_covered R (run_bit R numBits i st) = run_covered R st \<union> (if i < numBits then {nat i} else {})"
  proof (cases "numBits \<le> i \<or> 0 \<le> rs \<and> i = ls + 1")
    case True
    then show ?thesis using st s i by (auto simp: run_bit_def run_ok_def run_covered_def)
  next
    case False
    then show ?thesis using st s i run_flush [of R numBits b rs ls]
      by (auto simp: run_bit_def run_ok_def run_covered_def)
  qed
  then show "run_ok R numBits (run_bit R numBits i st)"
    "run_covered R (run_bit R numBits i st) = run_covered R st \<union> (if i < numBits then {nat i} else {})" by auto
qed

lemma run_byte_spec:
  "run_ok R numBits st \<Longrightarrow> 0 \<le> base \<Longrightarrow> run_ok R numBits (run_byte R numBits base v st)
    \<and> run_covered R (run_byte R numBits base v st)
      = run_covered R st \<union> {n. \<exists>j. bit v j \<and> int n = base + int j \<and> int n < numBits}"
proof (induction R numBits base v st rule: run_byte.induct)
  case (1 R numBits base v st)
  show ?case
  proof (cases "v = 0")
    case True
    then show ?thesis using 1 by (subst (1 2) run_byte.simps) simp
  next
    case False
    let ?j = "TrailingZeros8 v"
    let ?v = "v AND NOT (push_bit ?j 1)"
    let ?st = "run_bit R numBits (base + int ?j) st"
    have st: "run_ok R numBits ?st"
      "run_covered R ?st = run_covered R st \<union> (if base + int ?j < numBits then {nat (base + int ?j)} else {})"
      using run_bit_spec [OF "1.prems"(1), of "base + int ?j"] "1.prems"(2) by auto
    have eq: "run_byte R numBits base v st = run_byte R numBits base ?v ?st"
      using False by (subst run_byte.simps) (simp add: Let_def)
    have IH: "run_ok R numBits (run_byte R numBits base ?v ?st)"
      "run_covered R (run_byte R numBits base ?v ?st)
        = run_covered R ?st \<union> {n. \<exists>j. bit ?v j \<and> int n = base + int j \<and> int n < numBits}"
      using "1.IH" [OF False refl st(1) "1.prems"(2)] by auto
    have "{n. \<exists>j. bit v j \<and> int n = base + int j \<and> int n < numBits}
        = {n. \<exists>j. bit ?v j \<and> int n = base + int j \<and> int n < numBits}
          \<union> (if base + int ?j < numBits then {nat (base + int ?j)} else {})"
      unfolding bit_clear using TrailingZeros8_bit(2) [OF False] "1.prems"(2) by auto
    with IH st show ?thesis unfolding eq by auto
  qed
qed

lemma run_bytes_spec:
  "run_ok R numBits st \<Longrightarrow> run_ok R numBits (run_bytes R numBits i vs st)
    \<and> run_covered R (run_bytes R numBits i vs st)
      = run_covered R st \<union> {n. int n < numBits \<and> i \<le> n div 8 \<and> n div 8 < i + length vs
                               \<and> bit (vs ! (n div 8 - i)) (n mod 8)}"
proof (induction vs arbitrary: i st)
  case (Cons v vs)
  let ?st = "run_byte R numBits (int i * 8) v st"
  have st: "run_ok R numBits ?st"
    "run_covered R ?st = run_covered R st \<union> {n. \<exists>j. bit v j \<and> int n = int i * 8 + int j \<and> int n < numBits}"
    using run_byte_spec [OF Cons.prems, of "int i * 8" v] by auto
  have first: "(\<exists>j. bit v j \<and> int n = int i * 8 + int j \<and> int n < numBits)
      \<longleftrightarrow> int n < numBits \<and> n div 8 = i \<and> bit v (n mod 8)" for n
  proof
    assume "\<exists>j. bit v j \<and> int n = int i * 8 + int j \<and> int n < numBits"
    then obtain j where j: "bit v j" "int n = int i * 8 + int j" "int n < numBits" by blast
    then have "j < 8" using bit_imp_le_length [OF j(1)] by simp
    moreover have "n = i * 8 + j" using j(2) by linarith
    ultimately have "n div 8 = i" "n mod 8 = j" by simp_all
    with j show "int n < numBits \<and> n div 8 = i \<and> bit v (n mod 8)" by simp
  next
    assume a: "int n < numBits \<and> n div 8 = i \<and> bit v (n mod 8)"
    then have "int n = int i * 8 + int (n mod 8)" by (metis div_mult_mod_eq of_nat_add of_nat_mult of_nat_numeral)
    with a show "\<exists>j. bit v j \<and> int n = int i * 8 + int j \<and> int n < numBits" by blast
  qed
  have split: "i \<le> n div 8 \<and> n div 8 < i + length (v # vs) \<and> bit ((v # vs) ! (n div 8 - i)) (n mod 8)
      \<longleftrightarrow> n div 8 = i \<and> bit v (n mod 8)
        \<or> i + 1 \<le> n div 8 \<and> n div 8 < i + 1 + length vs \<and> bit (vs ! (n div 8 - (i + 1))) (n mod 8)" for n
    by (cases "n div 8 = i") (auto simp: nth_Cons')
  from Cons.IH [OF st(1), of "i + 1"] show ?case
    unfolding run_bytes.simps st(2) first split by auto
qed auto

lemma NewFsBitmapFromBytes_spec:
  assumes R: "roaring_ok R" and n: "numBits < 2 ^ 63"
  shows "bm_inv R (NewFsBitmapFromBytes R t k raw numBits bs)"
    "used R (NewFsBitmapFromBytes R t k raw numBits bs)
      = {n. int n < numBits \<and> n div 8 < length raw \<and> bit (raw ! (n div 8)) (n mod 8)}"
    "Bits (NewFsBitmapFromBytes R t k raw numBits bs) = numBits"
proof -
  let ?b = "NewFsBitmap t k numBits bs :: 'a FsBitmap"
  note N = NewFsBitmap_spec [OF R n, of t k bs]
  have *: "bm_inv R (NewFsBitmapFromBytes R t k raw numBits bs) \<and>
    used R (NewFsBitmapFromBytes R t k raw numBits bs)
      = {n. int n < numBits \<and> n div 8 < length raw \<and> bit (raw ! (n div 8)) (n mod 8)}
    \<and> Bits (NewFsBitmapFromBytes R t k raw numBits bs) = numBits"
  proof (cases "numBits \<le> 0 \<or> raw = []")
    case True
    then show ?thesis using N by (auto simp: NewFsBitmapFromBytes_def)
  next
    case False
    obtain b rs ls where r: "run_bytes R numBits 0 raw (?b, -1, -1) = (b, rs, ls)" by (metis prod_cases3)
    have "run_ok R numBits (?b, -1, -1)" using N by (simp add: run_ok_def)
    from run_bytes_spec [OF this, of 0 raw] r
    have st: "run_ok R numBits (b, rs, ls)"
      "run_covered R (b, rs, ls) = {n. int n < numBits \<and> n div 8 < length raw \<and> bit (raw ! (n div 8)) (n mod 8)}"
      using N(2) by (auto simp: run_covered_def)
    show ?thesis
    proof (cases "0 \<le> rs")
      case True
      then show ?thesis using False r st run_flush [OF st(1) True]
        by (simp add: NewFsBitmapFromBytes_def run_ok_def)
    next
      case neg: False
      then show ?thesis using False r st by (simp add: NewFsBitmapFromBytes_def run_ok_def run_covered_def)
    qed
  qed
  then show "bm_inv R (NewFsBitmapFromBytes R t k raw numBits bs)"
    "used R (NewFsBitmapFromBytes R t k raw numBits bs)
      = {n. int n < numBits \<and> n div 8 < length raw \<and> bit (raw ! (n div 8)) (n mod 8)}"
    "Bits (NewFsBitmapFromBytes R t k raw numBits bs) = numBits" by auto
qed

section \<open>Changing the block size\<close>

lemma add_bit_mem:
  assumes "rb_updates_ok R"
  shows "seg_mem R (AList.update (n div segSize) (rb_Add R (segment R segs (n div segSize)) (n mod segSize)) segs) m
    \<longleftrightarrow> m = n \<or> seg_mem R segs m"
proof (cases "m div segSize = n div segSize")
  case True
  then have "m mod segSize = n mod segSize \<longleftrightarrow> m = n" by (metis div_mult_mod_eq)
  then show ?thesis unfolding seg_mem_update if_P [OF True] rb_laws(2) [OF assms mod_seg mod_seg]
    using True seg_mem_segment [OF assms, of segs m] by simp
qed (auto simp: seg_mem_update)

lemma change_bit_spec:
  assumes "roaring_ok R" "segs_ok R segs" "n < 2 ^ 63"
  shows "segs_ok R (change_bit R ratio segs n)"
    "seg_mem R (change_bit R ratio segs n) m \<longleftrightarrow> m = n div ratio \<or> seg_mem R segs m"
proof -
  note L = roaring_okD [OF assms(1)]
  let ?k = "n div ratio"
  have k: "?k < 2 ^ 63" using assms(3) div_le_dividend [of n ratio] by linarith
  have c: "change_bit R ratio segs n
      = AList.update (?k div segSize) (rb_Add R (segment R segs (?k div segSize)) (?k mod segSize)) segs"
    using k by (simp add: change_bit_def Let_def u32_seg)
  have "rb_Contains R (rb_Add R s (?k mod segSize)) (?k mod segSize)" for s
    using rb_laws(2) [OF L(1) mod_seg mod_seg] by simp
  then show "segs_ok R (change_bit R ratio segs n)" unfolding c
    by (rule segs_ok_update [OF assms(2) L(2)]) simp
  show "seg_mem R (change_bit R ratio segs n) m \<longleftrightarrow> m = n div ratio \<or> seg_mem R segs m"
    unfolding c by (rule add_bit_mem [OF L(1)])
qed

lemma change_bits_spec:
  assumes "roaring_ok R" "\<forall>n\<in>set ns. n < 2 ^ 63"
  shows "segs_ok R segs \<Longrightarrow> segs_ok R (foldl (change_bit R ratio) segs ns)
    \<and> (\<forall>m. seg_mem R (foldl (change_bit R ratio) segs ns) m \<longleftrightarrow> m \<in> (\<lambda>n. n div ratio) ` set ns \<or> seg_mem R segs m)"
  using assms(2)
proof (induction ns arbitrary: segs)
  case (Cons n ns)
  then show ?case using change_bit_spec [OF assms(1) Cons.prems(1), of n ratio] by auto
qed simp

lemma change_segment_spec:
  assumes "roaring_ok R" "segs_ok R segs" "\<And>n. seg_mem R old n \<Longrightarrow> n < 2 ^ 63"
  shows "segs_ok R (change_segment R ratio old segs idx)"
    "seg_mem R (change_segment R ratio old segs idx) m \<longleftrightarrow>
       (\<exists>n. n div segSize = idx \<and> seg_mem R old n \<and> m = n div ratio) \<or> seg_mem R segs m"
proof -
  have *: "segs_ok R (change_segment R ratio old segs idx) \<and>
    (seg_mem R (change_segment R ratio old segs idx) m \<longleftrightarrow>
       (\<exists>n. n div segSize = idx \<and> seg_mem R old n \<and> m = n div ratio) \<or> seg_mem R segs m)"
  proof (cases "map_of old idx")
    case None
    then show ?thesis using assms(2) by (auto simp: change_segment_def seg_mem_def)
  next
    case (Some s)
    let ?ns = "map (\<lambda>v. idx * segSize + v) (rb_values R s)"
    have ns: "set ?ns = {n. n div segSize = idx \<and> seg_mem R old n}"
    proof (intro equalityI subsetI)
      fix n assume "n \<in> set ?ns"
      then obtain v where "n = idx * segSize + v" "v < segSize" "rb_Contains R s v"
        by (auto simp: rb_values_props(3) [OF roaring_okD(2) [OF assms(1)]])
      then show "n \<in> {n. n div segSize = idx \<and> seg_mem R old n}" using Some by (simp add: seg_mem_def mult.commute)
    next
      fix n assume "n \<in> {n. n div segSize = idx \<and> seg_mem R old n}"
      then have "n = idx * segSize + n mod segSize" "n mod segSize \<in> set (rb_values R s)"
        using Some seg_split [of n idx] by (auto simp: rb_values_props(3) [OF roaring_okD(2) [OF assms(1)]] seg_mem_def)
      then show "n \<in> set ?ns" by (metis image_eqI list.set_map)
    qed
    then have "\<forall>n\<in>set ?ns. n < 2 ^ 63" using assms(3) by auto
    from change_bits_spec [OF assms(1) this assms(2), of ratio] show ?thesis
      unfolding change_segment_def Some option.case ns by auto
  qed
  then show "segs_ok R (change_segment R ratio old segs idx)"
    "seg_mem R (change_segment R ratio old segs idx) m \<longleftrightarrow>
       (\<exists>n. n div segSize = idx \<and> seg_mem R old n \<and> m = n div ratio) \<or> seg_mem R segs m" by auto
qed

lemma change_segments_spec:
  assumes "roaring_ok R" "\<And>n. seg_mem R old n \<Longrightarrow> n < 2 ^ 63"
  shows "segs_ok R segs \<Longrightarrow> segs_ok R (foldl (change_segment R ratio old) segs ks)
    \<and> (\<forall>m. seg_mem R (foldl (change_segment R ratio old) segs ks) m \<longleftrightarrow>
         (\<exists>n. n div segSize \<in> set ks \<and> seg_mem R old n \<and> m = n div ratio) \<or> seg_mem R segs m)"
proof (induction ks arbitrary: segs)
  case (Cons k ks)
  from Cons.IH [OF change_segment_spec(1) [OF assms(1) Cons.prems assms(2)]]
  show ?case using change_segment_spec(2) [OF assms(1) Cons.prems assms(2)] by (simp only: foldl_Cons list.set insert_iff) blast
qed simp

lemma ChangeBlockSize_spec:
  assumes b: "bm_inv R b" and s: "0 < BlockSize b" "0 < k" "0 < Bits b" and ov: "Bits b + k \<le> 2 ^ 63"
  defines "b' \<equiv> fst (ChangeBlockSize R b (k * BlockSize b))"
  shows "snd (ChangeBlockSize R b (k * BlockSize b)) = None" "bm_inv R b'"
    "used R b' = (\<lambda>n. n div nat k) ` used R b" "BlockSize b' = k * BlockSize b"
    "Bits b' = (Bits b + k - 1) div k"
proof -
  note B = bm_invD [OF b]
  have *: "snd (ChangeBlockSize R b (k * BlockSize b)) = None \<and> bm_inv R b' \<and>
    used R b' = (\<lambda>n. n div nat k) ` used R b \<and> BlockSize b' = k * BlockSize b
    \<and> Bits b' = (Bits b + k - 1) div k"
  proof (cases "k = 1")
    case True
    then show ?thesis using b s by (simp add: ChangeBlockSize_def b'_def)
  next
    case False
    then have k: "2 \<le> k" using s(2) by simp
    let ?segs = "foldl (change_segment R (nat k) (segments b)) [] (sort (map fst (segments b)))"
    have gt: "\<not> k * BlockSize b \<le> 0" "\<not> k * BlockSize b < BlockSize b" "k * BlockSize b \<noteq> BlockSize b"
      using k s(1) mult_strict_right_mono [of 1 k "BlockSize b"] by linarith+
    have "tdiv (k * BlockSize b) (BlockSize b) = k" "trem (k * BlockSize b) (BlockSize b) = 0"
      using s by simp_all
    moreover have "i64 (Bits b + k - 1) = Bits b + k - 1" using ov s k by simp
    ultimately have res: "ChangeBlockSize R b (k * BlockSize b)
        = (b\<lparr>segments := ?segs, Bits := (Bits b + k - 1) div k, BlockSize := k * BlockSize b\<rparr>, None)"
      unfolding ChangeBlockSize_def if_not_P [OF gt(1)] using gt(2,3) s k by (simp add: Let_def)
    have lt: "n < 2 ^ 63" if "seg_mem R (segments b) n" for n using that B(4,6) by (auto simp: used_def)
    have nil: "segs_ok R []" by (simp add: segs_ok_def)
    have segs: "segs_ok R ?segs" "seg_mem R ?segs m \<longleftrightarrow> m \<in> (\<lambda>n. n div nat k) ` used R b" for m
    proof -
      have "n div segSize \<in> set (map fst (segments b))" if "seg_mem R (segments b) n" for n
        using that by (auto simp: seg_mem_def split: option.splits dest: map_of_SomeD intro: rev_image_eqI)
      then have key: "n div segSize \<in> set (sort (map fst (segments b))) \<and> seg_mem R (segments b) n
          \<longleftrightarrow> n \<in> used R b" for n by (auto simp: used_def)
      have C: "segs_ok R ?segs" "\<And>m. seg_mem R ?segs m \<longleftrightarrow>
          (\<exists>n. n div segSize \<in> set (sort (map fst (segments b))) \<and> seg_mem R (segments b) n \<and> m = n div nat k)"
        using change_segments_spec [where ratio = "nat k" and old = "segments b", OF B(1) lt nil,
            of "sort (map fst (segments b))"] by auto
      show "segs_ok R ?segs" by (rule C(1))
      show "seg_mem R ?segs m \<longleftrightarrow> m \<in> (\<lambda>n. n div nat k) ` used R b"
        unfolding C(2) image_iff using key by metis
    qed
    have "n div nat k < nat ((Bits b + k - 1) div k)" if "n \<in> used R b" for n
    proof -
      have n: "int n \<le> Bits b - 1" using that B(6) by auto
      have "int n div k \<le> (Bits b - 1) div k" using n s(2) by (rule zdiv_mono1)
      moreover have "(Bits b + k - 1) div k = (Bits b - 1) div k + 1"
        using s(2) div_add_self2 [of k "Bits b - 1"] by (simp add: algebra_simps)
      moreover have "int (n div nat k) = int n div k" using s(2) by (simp add: zdiv_int)
      ultimately show ?thesis by linarith
    qed
    moreover have "(Bits b + k - 1) div k < 2 ^ 63"
    proof -
      have "(Bits b + k - 1) div k \<le> Bits b + k - 1" using s(2,3) zdiv_mono2 [of "Bits b + k - 1" 1 k] by simp
      then show ?thesis using ov by linarith
    qed
    ultimately show ?thesis using B(1) segs by (auto simp: b'_def res bm_inv_def used_def)
  qed
  then show "snd (ChangeBlockSize R b (k * BlockSize b)) = None" "bm_inv R b'"
    "used R b' = (\<lambda>n. n div nat k) ` used R b" "BlockSize b' = k * BlockSize b"
    "Bits b' = (Bits b + k - 1) div k" by auto
qed

end
