(* ===== verification/Mirror.thy ===== *)
theory Mirror
  imports FsBitmapLaws
begin

text \<open>
  \<open>MirrorFs\<close> of \<open>disk/filesystem/bitmap/bitmap.go\<close>: the blocks marked as used are copied from
  a reader to a writer.  The reader and the writer are interfaces of Go's \<open>io\<close> package:
  \<open>ReadAt off n\<close> returns the bytes it read and an error, \<open>WriteAt off data\<close> an error; the
  successful writes are collected in order.  \<open>None\<close> is a panic: of \<open>make\<close> for the buffer, or of a
  slice of the buffer beyond its end, which a wrapped product could cause.  The outer loop advances
  from run to run; its first argument bounds the number of rounds and \<open>MirrorFs\<close> starts with one
  per block, which is always enough.
\<close>

section \<open>The model\<close>

type_synonym ReaderAt = "int \<Rightarrow> nat \<Rightarrow> byte list \<times> gerror option"
type_synonym WriterAt = "int \<Rightarrow> byte list \<Rightarrow> gerror option"
type_synonym writes = "(int \<times> byte list) list"

definition maxChunkBlocks :: int where
  "maxChunkBlocks = 1024"

text \<open>The size of the buffer that \<open>make\<close> allocates.\<close>

definition chunkBufSize :: "int \<Rightarrow> int" where
  "chunkBufSize bs = i64 (maxChunkBlocks * bs)"

text \<open>The inner loop over one run; the third component is the error of an early return.\<close>

function mirror_chunks ::
    "ReaderAt \<Rightarrow> WriterAt \<Rightarrow> int \<Rightarrow> int \<Rightarrow> int \<Rightarrow> writes \<times> int \<Rightarrow> (writes \<times> int \<times> gerror option) option" where
  "mirror_chunks origin dst bs offset remaining acc =
     (if remaining > 0 then
        let chunkBlocks = (if remaining > maxChunkBlocks then maxChunkBlocks else remaining);
            chunkSize = i64 (chunkBlocks * bs)
        in if chunkSize < 0 \<or> chunkSize > chunkBufSize bs then None
           else case origin offset (nat chunkSize) of
             (data, err) \<Rightarrow>
               if err \<noteq> None \<and> err \<noteq> Some (Sentinel EOF_err)
               then Some (fst acc, snd acc, Some (Errorf ''read origin at offset %d'' [FErr (the err), FInt offset]))
               else if data = [] then Some (fst acc, snd acc, None)
               else case dst offset data of
                      Some e \<Rightarrow> Some (fst acc, snd acc, Some (Errorf ''write target at offset %d'' [FErr e, FInt offset]))
                    | None \<Rightarrow>
                        mirror_chunks origin dst bs (i64 (offset + int (length data))) (remaining - chunkBlocks)
                          (fst acc @ [(offset, data)], i64 (snd acc + int (length data)))
      else Some (fst acc, snd acc, None))"
  by pat_completeness auto
termination
  by (relation "measure (\<lambda>(origin, dst, bs, offset, remaining, acc). nat remaining)")
    (auto simp: maxChunkBlocks_def)

declare mirror_chunks.simps [simp del]

fun mirror_loop ::
    "nat \<Rightarrow> 'r roaring \<Rightarrow> 'r FsBitmap \<Rightarrow> ReaderAt \<Rightarrow> WriterAt \<Rightarrow> int \<Rightarrow> writes \<times> int \<Rightarrow>
     (writes \<times> int \<times> gerror option) option" where
  "mirror_loop 0 R b origin dst pos acc = None"
| "mirror_loop (Suc n) R b origin dst pos acc =
     (if pos < Bits b then
        let runStart = nextSetBit R b pos in
        if runStart \<ge> Bits b then Some (fst acc, snd acc, None)
        else let runEnd = nextClearBit R b runStart in
             case mirror_chunks origin dst (BlockSize b) (i64 (runStart * BlockSize b)) (runEnd - runStart) acc of
               None \<Rightarrow> None
             | Some (ws, copied, Some e) \<Rightarrow> Some (ws, copied, Some e)
             | Some (ws, copied, None) \<Rightarrow> mirror_loop n R b origin dst runEnd (ws, copied)
      else Some (fst acc, snd acc, None))"

definition MirrorFs ::
    "'r roaring \<Rightarrow> 'r FsBitmap \<Rightarrow> ReaderAt option \<Rightarrow> WriterAt option \<Rightarrow> (writes \<times> int \<times> gerror option) option" where
  "MirrorFs R b origin dst =
     (case (origin, dst) of
        (Some o', Some d') \<Rightarrow>
          if chunkBufSize (BlockSize b) < 0 \<or> chunkBufSize (BlockSize b) > maxAlloc then None
          else mirror_loop (nat (Bits b) + 1) R b o' d' 0 ([], 0)
      | _ \<Rightarrow> Some ([], 0, Some (Errorf ''origin/target must not be nil'' [])))"

section \<open>What a copy does to a disk\<close>

definition apply_write :: "(int \<Rightarrow> byte) \<Rightarrow> int \<times> byte list \<Rightarrow> int \<Rightarrow> byte" where
  "apply_write d = (\<lambda>(off, data) x. if off \<le> x \<and> x < off + int (length data) then data ! nat (x - off) else d x)"

definition apply_writes :: "writes \<Rightarrow> (int \<Rightarrow> byte) \<Rightarrow> int \<Rightarrow> byte" where
  "apply_writes ws d = foldl apply_write d ws"

text \<open>A reader over a byte array, as \<open>io.ReaderAt\<close> documents it.\<close>

definition read_bytes :: "byte list \<Rightarrow> ReaderAt" where
  "read_bytes src off n =
     (let data = take n (drop (nat off) src)
      in (data, if length data < n then Some (Sentinel EOF_err) else None))"

text \<open>The writes copy exactly the bytes at the positions in \<open>X\<close>.\<close>

definition copies :: "byte list \<Rightarrow> writes \<Rightarrow> int set \<Rightarrow> bool" where
  "copies src ws X \<longleftrightarrow> (\<forall>d x. apply_writes ws d x = (if x \<in> X then src ! nat x else d x))"

lemma copies_Nil: "copies src [] {}"
  by (simp add: copies_def apply_writes_def)

lemma copies_snoc:
  assumes "copies src ws X" "0 \<le> off" "off + int n \<le> int (length src)"
  shows "copies src (ws @ [(off, take n (drop (nat off) src))]) (X \<union> {off..<off + int n})"
proof -
  have len: "length (take n (drop (nat off) src)) = n" using assms(2,3) by simp
  have "apply_writes (ws @ [(off, take n (drop (nat off) src))]) d x
      = (if x \<in> X \<union> {off..<off + int n} then src ! nat x else d x)" for d x
  proof (cases "off \<le> x \<and> x < off + int n")
    case True
    then have "nat off + nat (x - off) = nat x" "nat (x - off) < n" using assms(2) by auto
    with True assms(2,3) len show ?thesis by (simp add: apply_writes_def apply_write_def)
  next
    case False
    then show ?thesis using assms(1) len unfolding copies_def
      by (auto simp: apply_writes_def apply_write_def)
  qed
  then show ?thesis by (simp add: copies_def)
qed

text \<open>The chunk of at most 1024 blocks fits the buffer.\<close>

lemma chunk_fits:
  assumes "0 < c" "c \<le> maxChunkBlocks" "0 < bs" "maxChunkBlocks * bs < 2 ^ 63"
  shows "i64 (c * bs) = c * bs" "0 < c * bs" "c * bs \<le> chunkBufSize bs"
proof -
  have le: "c * bs \<le> maxChunkBlocks * bs" using assms(2,3) by (intro mult_right_mono) auto
  show pos: "0 < c * bs" using assms(1,3) by simp
  show "i64 (c * bs) = c * bs" using le pos assms(4) by (intro i64_small) linarith+
  show "c * bs \<le> chunkBufSize bs" using le pos assms(4) by (simp add: chunkBufSize_def)
qed

lemma mirror_chunks_step:
  assumes rem: "0 < remaining" and bs: "0 < bs" "maxChunkBlocks * bs < 2 ^ 63"
  defines "c \<equiv> (if remaining > maxChunkBlocks then maxChunkBlocks else remaining)"
  shows "mirror_chunks (read_bytes src) (\<lambda>_ _. None) bs off remaining (ws, t)
     = (let data = take (nat (c * bs)) (drop (nat off) src) in
        if data = [] then Some (ws, t, None)
        else mirror_chunks (read_bytes src) (\<lambda>_ _. None) bs (i64 (off + int (length data))) (remaining - c)
               (ws @ [(off, data)], i64 (t + int (length data))))"
proof -
  have c: "0 < c" "c \<le> maxChunkBlocks" using rem by (auto simp: c_def maxChunkBlocks_def)
  note F = chunk_fits [OF c bs]
  show ?thesis
    using rem F by (subst mirror_chunks.simps) (simp add: Let_def read_bytes_def flip: c_def)
qed

lemma mirror_chunks_eof:
  assumes "int (length src) \<le> off" "0 < bs" "maxChunkBlocks * bs < 2 ^ 63"
  shows "mirror_chunks (read_bytes src) (\<lambda>_ _. None) bs off remaining (ws, t) = Some (ws, t, None)"
proof (cases "0 < remaining")
  case True
  then show ?thesis using assms mirror_chunks_step [OF True assms(2,3), of src off ws t] by simp
next
  case False
  then show ?thesis by (subst mirror_chunks.simps) simp
qed

text \<open>One run of used blocks, from block \<open>start\<close> up to block \<open>stop\<close>, or up to the end of the source.\<close>

lemma mirror_chunks_spec:
  assumes bs: "0 < bs" "maxChunkBlocks * bs < 2 ^ 63" and r: "0 \<le> start" "start \<le> stop" "stop * bs < 2 ^ 63"
    and acc: "copies src ws X" "0 \<le> t" "t + (stop - start) * bs < 2 ^ 63"
  shows "\<exists>ws'. mirror_chunks (read_bytes src) (\<lambda>_ _. None) bs (start * bs) (stop - start) (ws, t)
      = Some (ws', t + int (card {start * bs..<min (stop * bs) (int (length src))}), None)
    \<and> copies src ws' (X \<union> {start * bs..<min (stop * bs) (int (length src))})"
  using r(1,2) acc
proof (induction "nat (stop - start)" arbitrary: start ws t X rule: less_induct)
  case less
  let ?L = "int (length src)"
  show ?case
  proof (cases "start < stop \<and> start * bs < ?L")
    case False
    then have "mirror_chunks (read_bytes src) (\<lambda>_ _. None) bs (start * bs) (stop - start) (ws, t) = Some (ws, t, None)"
    proof (cases "start < stop")
      case True
      then show ?thesis using False mirror_chunks_eof [OF _ bs, of src "start * bs"] by simp
    next
      case False
      then show ?thesis by (subst mirror_chunks.simps) simp
    qed
    moreover have e: "{start * bs..<min (stop * bs) ?L} = {}" using False less.prems(2) by (cases "start < stop") auto
    ultimately show ?thesis using less.prems(3) unfolding e by simp
  next
    case True
    define c where "c = (if stop - start > maxChunkBlocks then maxChunkBlocks else stop - start)"
    have c: "0 < c" "c \<le> stop - start" "c \<le> maxChunkBlocks" using True by (auto simp: c_def maxChunkBlocks_def)
    define k where "k = min (c * bs) (?L - start * bs)"
    have cb: "0 < c * bs" using c(1) bs by simp
    have sb: "0 \<le> start * bs" using less.prems(1) bs by simp
    have k: "0 < k" "k \<le> c * bs" "start * bs + k \<le> ?L" using cb True by (auto simp: k_def)
    have sc: "(start + c) * bs \<le> stop * bs" using c(2) bs by (intro mult_right_mono) auto
    have cs: "c * bs \<le> (stop - start) * bs" using c(2) bs by (intro mult_right_mono) auto
    let ?data = "take (nat (c * bs)) (drop (nat (start * bs)) src)"
    obtain a m where am: "start * bs = int a" "c * bs = int m" using sb cb by (metis less_imp_le nonneg_int_cases)
    have len: "int (length ?data) = k" using True unfolding k_def am by (auto simp: min_def)
    have take: "?data = take (nat k) (drop (nat (start * bs)) src)"
      using len by (metis append_take_drop_id append_eq_conv_conj nat_int)
    have small: "i64 (start * bs + k) = start * bs + k" "i64 (t + k) = t + k"
    proof -
      have "start * bs + k < 2 ^ 63" using k(2) sc r(3) by (simp add: distrib_right)
      then show "i64 (start * bs + k) = start * bs + k" using sb k(1) by (intro i64_small) linarith+
      show "i64 (t + k) = t + k" using less.prems(4,5) k cs by (intro i64_small) linarith+
    qed
    have "?data \<noteq> []" using len k(1) by auto
    then have step: "mirror_chunks (read_bytes src) (\<lambda>_ _. None) bs (start * bs) (stop - start) (ws, t)
        = mirror_chunks (read_bytes src) (\<lambda>_ _. None) bs (start * bs + k) (stop - (start + c))
            (ws @ [(start * bs, ?data)], t + k)"
      using mirror_chunks_step [OF _ bs, of "stop - start" src "start * bs" ws t] True len small
      by (simp add: Let_def diff_diff_add flip: c_def)
    have cp: "copies src (ws @ [(start * bs, ?data)]) (X \<union> {start * bs..<start * bs + k})"
      using copies_snoc [OF less.prems(3) sb, of "nat k"] k take by simp
    show ?thesis
    proof (cases "(start + c) * bs \<le> ?L")
      case True
      then have kc: "k = c * bs" by (simp add: k_def distrib_right)
      let ?B = "{(start + c) * bs..<min (stop * bs) ?L}"
      have U: "{start * bs..<start * bs + k} \<union> ?B = {start * bs..<min (stop * bs) ?L}"
        using True sc cb kc by (auto simp: distrib_right)
      have "card {start * bs..<min (stop * bs) ?L} = card {start * bs..<start * bs + k} + card ?B"
        unfolding U [symmetric] using kc by (intro card_Un_disjoint) (auto simp: distrib_right)
      then have cd: "int (card {start * bs..<min (stop * bs) ?L}) = k + int (card ?B)" using k(1) by simp
      have rest: "t + k + (stop - (start + c)) * bs = t + (stop - start) * bs" unfolding kc by (simp add: algebra_simps)
      have "\<exists>ws'. mirror_chunks (read_bytes src) (\<lambda>_ _. None) bs ((start + c) * bs) (stop - (start + c))
            (ws @ [(start * bs, ?data)], t + k) = Some (ws', t + k + int (card ?B), None)
          \<and> copies src ws' (X \<union> {start * bs..<start * bs + k} \<union> ?B)"
        using c less.prems(1,4,5) k(1) rest by (intro less.hyps cp) auto
      then show ?thesis unfolding step kc [symmetric] using U cd kc by (simp add: Un_assoc distrib_right add.assoc)
    next
      case False
      then have kL: "start * bs + k = ?L" by (simp add: k_def distrib_right)
      have "min (stop * bs) ?L = ?L" using False sc by simp
      moreover have "int (card {start * bs..<?L}) = k" using kL k(1) by simp
      ultimately show ?thesis unfolding step using mirror_chunks_eof [OF _ bs, of src "start * bs + k"] kL cp by simp
    qed
  qed
qed

text \<open>The byte positions of the used blocks before block \<open>pos\<close>.\<close>

definition used_bytes :: "'r roaring \<Rightarrow> 'r FsBitmap \<Rightarrow> nat \<Rightarrow> int set" where
  "used_bytes R b pos = {x. 0 \<le> x \<and> nat (x div BlockSize b) \<in> used R b \<and> nat (x div BlockSize b) < pos}"

text \<open>Those of them that the source has.\<close>

definition mirrored :: "'r roaring \<Rightarrow> 'r FsBitmap \<Rightarrow> byte list \<Rightarrow> nat \<Rightarrow> int set" where
  "mirrored R b src pos = {x \<in> used_bytes R b pos. x < int (length src)}"

lemma block_bytes:
  fixes bs x :: int
  assumes "0 < bs"
  shows "int s * bs \<le> x \<and> x < int e * bs \<longleftrightarrow> 0 \<le> x \<and> s \<le> nat (x div bs) \<and> nat (x div bs) < e"
proof -
  have m: "x = x div bs * bs + x mod bs" "0 \<le> x mod bs" "x mod bs < bs" using assms by simp_all
  have lo: "int s * bs \<le> x \<longleftrightarrow> int s \<le> x div bs"
  proof
    assume "int s * bs \<le> x"
    then have "int s * bs div bs \<le> x div bs" using assms by (rule zdiv_mono1)
    then show "int s \<le> x div bs" using assms by simp
  next
    assume "int s \<le> x div bs"
    then have "int s * bs \<le> x div bs * bs" using assms by (intro mult_right_mono) auto
    then show "int s * bs \<le> x" using m by linarith
  qed
  have hi: "x < int e * bs \<longleftrightarrow> x div bs < int e"
  proof
    assume "x < int e * bs"
    then have "x div bs * bs < int e * bs" using m by linarith
    then show "x div bs < int e" using assms by simp
  next
    assume "x div bs < int e"
    then have "(x div bs + 1) * bs \<le> int e * bs" using assms by (intro mult_right_mono) auto
    then have "x div bs * bs + bs \<le> int e * bs" by (simp add: distrib_right)
    then show "x < int e * bs" using m by linarith
  qed
  have "0 \<le> x \<longleftrightarrow> 0 \<le> x div bs" using assms by (simp add: pos_imp_zdiv_nonneg_iff)
  then show ?thesis unfolding lo hi by linarith
qed

lemma used_run:
  assumes bs: "0 < BlockSize b" and p: "p \<le> s" "s \<le> e"
    and free: "\<And>m. p \<le> m \<Longrightarrow> m < s \<Longrightarrow> m \<notin> used R b" and run: "\<And>m. s \<le> m \<Longrightarrow> m < e \<Longrightarrow> m \<in> used R b"
  shows "used_bytes R b e = used_bytes R b p \<union> {int s * BlockSize b..<int e * BlockSize b}"
proof -
  have set: "m \<in> used R b \<and> m < e \<longleftrightarrow> m \<in> used R b \<and> m < p \<or> s \<le> m \<and> m < e" for m
    using p free [of m] run [of m] by (cases "m < p"; cases "m < s") auto
  show ?thesis
  proof (rule set_eqI)
    fix x show "x \<in> used_bytes R b e \<longleftrightarrow> x \<in> used_bytes R b p \<union> {int s * BlockSize b..<int e * BlockSize b}"
      using block_bytes [OF bs, of s x e] set [of "nat (x div BlockSize b)"]
      by (simp only: used_bytes_def Un_iff mem_Collect_eq atLeastLessThan_iff) blast
  qed
qed

lemma used_bytes_below: "0 < BlockSize b \<Longrightarrow> used_bytes R b p \<subseteq> {0..<int p * BlockSize b}"
  using block_bytes [of "BlockSize b" 0 _ p] by (fastforce simp: used_bytes_def)

lemma mirrored_below: "0 < BlockSize b \<Longrightarrow> mirrored R b src p \<subseteq> {0..<int p * BlockSize b}"
  using used_bytes_below unfolding mirrored_def by fast

lemma card_mirrored_le:
  assumes "0 < BlockSize b" shows "int (card (mirrored R b src p)) \<le> int p * BlockSize b"
proof -
  have "card (mirrored R b src p) \<le> card {0..<int p * BlockSize b}"
    using mirrored_below [OF assms] by (intro card_mono) auto
  moreover have "0 \<le> int p * BlockSize b" using assms by simp
  ultimately show ?thesis by (simp add: le_nat_iff)
qed

lemma mirrored_run:
  fixes src :: "byte list"
  assumes bs: "0 < BlockSize b" and p: "p \<le> s" "s \<le> e"
    and free: "\<And>m. p \<le> m \<Longrightarrow> m < s \<Longrightarrow> m \<notin> used R b" and run: "\<And>m. s \<le> m \<Longrightarrow> m < e \<Longrightarrow> m \<in> used R b"
  defines "I \<equiv> {int s * BlockSize b..<min (int e * BlockSize b) (int (length src))}"
  shows "mirrored R b src e = mirrored R b src p \<union> I"
    "card (mirrored R b src e) = card (mirrored R b src p) + card I"
proof -
  have u: "used_bytes R b e = used_bytes R b p \<union> {int s * BlockSize b..<int e * BlockSize b}"
    by (rule used_run [OF bs p free run])
  show U: "mirrored R b src e = mirrored R b src p \<union> I"
    unfolding mirrored_def u I_def by auto
  have "int p * BlockSize b \<le> int s * BlockSize b" using p(1) bs by (intro mult_right_mono) auto
  then have "mirrored R b src p \<inter> I = {}" using mirrored_below [OF bs, of R src p] unfolding I_def by fastforce
  moreover have "finite (mirrored R b src p)" using finite_subset [OF mirrored_below [OF bs]] by auto
  ultimately show "card (mirrored R b src e) = card (mirrored R b src p) + card I"
    unfolding U by (intro card_Un_disjoint) (simp_all add: I_def)
qed

text \<open>A used block is that many bytes.\<close>

lemma card_used_bytes:
  assumes bs: "0 < BlockSize b" and fin: "finite (used R b)" and p: "used R b \<subseteq> {..<p}"
  shows "int (card (used_bytes R b p)) = int (card (used R b)) * BlockSize b"
proof -
  let ?I = "\<lambda>n. {int n * BlockSize b..<int (Suc n) * BlockSize b}"
  have x: "x \<in> ?I n \<longleftrightarrow> 0 \<le> x \<and> nat (x div BlockSize b) = n" for x n
    using block_bytes [OF bs, of n x "Suc n"] by auto
  have "used_bytes R b p = (\<Union>n\<in>used R b. ?I n)"
    unfolding used_bytes_def using p x by (intro set_eqI) (simp only: UN_iff mem_Collect_eq x, blast)
  moreover have "card (\<Union>n\<in>used R b. ?I n) = (\<Sum>n\<in>used R b. card (?I n))"
  proof (rule card_UN_disjoint [OF fin])
    show "\<forall>i\<in>used R b. \<forall>j\<in>used R b. i \<noteq> j \<longrightarrow> ?I i \<inter> ?I j = {}" using x by (metis disjoint_iff)
  qed simp
  moreover have "int (card (?I n)) = BlockSize b" for n using bs by (simp add: distrib_right)
  then have "int (\<Sum>n\<in>used R b. card (?I n)) = int (card (used R b)) * BlockSize b" by simp
  ultimately show ?thesis by simp
qed

lemma mirror_loop_spec:
  assumes b: "bm_inv R b" and bs: "0 < BlockSize b" "maxChunkBlocks * BlockSize b < 2 ^ 63" and size: "Bits b * BlockSize b < 2 ^ 63"
    and p: "p \<le> nat (Bits b)" "nat (Bits b) - p < n"
    and acc: "copies src ws (mirrored R b src p)" "t = int (card (mirrored R b src p))"
  shows "\<exists>ws'. mirror_loop n R b (read_bytes src) (\<lambda>_ _. None) (int p) (ws, t)
      = Some (ws', int (card (mirrored R b src (nat (Bits b)))), None) \<and> copies src ws' (mirrored R b src (nat (Bits b)))"
  using p acc
proof (induction n arbitrary: p ws t)
  case (Suc n)
  show ?case
  proof (cases "int p < Bits b")
    case False
    then have "p = nat (Bits b)" using Suc.prems(1) by simp
    then show ?thesis using False Suc.prems(3,4) by simp
  next
    case True
    let ?s = "nextSetBit R b (int p)"
    have S: "first_or (\<lambda>n. n \<in> used R b) p (nat (Bits b)) (nat ?s)" "0 \<le> ?s"
      using nextSetBit_spec [OF b _ True] by auto
    have free: "\<And>m. p \<le> m \<Longrightarrow> m < nat ?s \<Longrightarrow> m \<notin> used R b" and sp: "p \<le> nat ?s" "nat ?s \<le> nat (Bits b)"
      using S by (auto simp: first_or_def)
    show ?thesis
    proof (cases "?s < Bits b")
      case False
      then have s: "nat ?s = nat (Bits b)" using sp by simp
      have "mirrored R b src (nat (Bits b)) = mirrored R b src p"
        using mirrored_run [OF bs(1) sp(1) order_refl free, of src] s by simp
      then show ?thesis using True False Suc.prems(3,4) by simp
    next
      case s: True
      let ?e = "nextClearBit R b ?s"
      have E: "first_or (\<lambda>n. n \<notin> used R b) (nat ?s) (nat (Bits b)) (nat ?e)" "0 \<le> ?e"
        using nextClearBit_spec [OF b S(2) s] by auto
      have hit: "nat ?s \<in> used R b" using S s by (auto simp: first_or_def)
      have run: "\<And>m. nat ?s \<le> m \<Longrightarrow> m < nat ?e \<Longrightarrow> m \<in> used R b"
        and ep: "nat ?s \<le> nat ?e" "nat ?e \<le> nat (Bits b)" using E by (auto simp: first_or_def)
      have "nat ?e \<noteq> nat ?s" using E hit s S(2) by (auto simp: first_or_def)
      then have prog: "p < nat ?e" using sp ep by simp
      have ie: "int (nat ?s) = ?s" "int (nat ?e) = ?e" "?s \<le> ?e" "?e \<le> Bits b" using S(2) E(2) ep s by auto
      let ?I = "{?s * BlockSize b..<min (?e * BlockSize b) (int (length src))}"
      have U: "mirrored R b src (nat ?e) = mirrored R b src p \<union> ?I"
        "card (mirrored R b src (nat ?e)) = card (mirrored R b src p) + card ?I"
        using mirrored_run [OF bs(1) sp(1) ep(1), of R src] free run unfolding ie(1,2) by blast+
      have eb: "?e * BlockSize b \<le> Bits b * BlockSize b" using ie(4) bs by (intro mult_right_mono) auto
      have i: "i64 (?s * BlockSize b) = ?s * BlockSize b"
      proof -
        have "?s * BlockSize b \<le> Bits b * BlockSize b" using s bs by (intro mult_right_mono) auto
        moreover have "0 \<le> ?s * BlockSize b" using S(2) bs by simp
        ultimately show ?thesis using size by (intro i64_small) linarith+
      qed
      have tb: "t + (?e - ?s) * BlockSize b < 2 ^ 63"
      proof -
        have "t \<le> int p * BlockSize b" using card_mirrored_le [OF bs(1)] Suc.prems(4) by simp
        also have "\<dots> \<le> ?s * BlockSize b" using sp(1) S(2) bs by (intro mult_right_mono) auto
        finally have "t + (?e - ?s) * BlockSize b \<le> ?e * BlockSize b" by (simp add: left_diff_distrib)
        then show ?thesis using eb size by linarith
      qed
      have t0: "0 \<le> t" using Suc.prems(4) by simp
      have es: "?e * BlockSize b < 2 ^ 63" using eb size by linarith
      let ?t = "t + int (card {?s * BlockSize b..<min (?e * BlockSize b) (int (length src))})"
      obtain ws' where W: "mirror_chunks (read_bytes src) (\<lambda>_ _. None) (BlockSize b) (?s * BlockSize b) (?e - ?s) (ws, t)
            = Some (ws', ?t, None)" "copies src ws' (mirrored R b src (nat ?e))"
        using mirror_chunks_spec [OF bs S(2) ie(3) es Suc.prems(3) t0 tb, folded U(1)] by (elim exE conjE)
      have t': "?t = int (card (mirrored R b src (nat ?e)))" unfolding U(2) Suc.prems(4) by simp
      have "\<exists>ws''. mirror_loop n R b (read_bytes src) (\<lambda>_ _. None) (int (nat ?e)) (ws', ?t)
          = Some (ws'', int (card (mirrored R b src (nat (Bits b)))), None) \<and> copies src ws'' (mirrored R b src (nat (Bits b)))"
        using Suc.prems(2) prog ep(2) by (intro Suc.IH W(2) t') auto
      then show ?thesis using True s W(1) i ie(2) by (simp add: Let_def)
    qed
  qed
qed simp

end
