(* ===== verification/Bitmap.thy ===== *)
theory Bitmap
  imports Mirror
begin

text \<open>
  The properties of the used-block bitmap and of \<open>MirrorFs\<close>, for every implementation of the
  compressed bitmap library that satisfies \<open>roaring_ok\<close>; the instances use \<open>list_roaring\<close>.
\<close>

lemma run_byte_BlockSize: "BlockSize (fst (run_byte R numBits base v st)) = BlockSize (fst st)"
proof (induction R numBits base v st rule: run_byte.induct)
  case (1 R numBits base v st)
  then show ?case by (subst run_byte.simps) (auto simp: Let_def run_bit_def split: prod.splits)
qed

lemma run_bytes_BlockSize: "BlockSize (fst (run_bytes R numBits i raw st)) = BlockSize (fst st)"
  by (induction raw arbitrary: i st) (simp_all add: run_byte_BlockSize)

lemma NewFsBitmapFromBytes_BlockSize: "BlockSize (NewFsBitmapFromBytes R t k raw numBits bs) = bs"
  using run_bytes_BlockSize [of R numBits 0 raw "(NewFsBitmap t k numBits bs, -1, -1)"]
  by (auto simp: NewFsBitmapFromBytes_def NewFsBitmap_def Let_def split: prod.splits)

definition demo_bitmap :: "nat list FsBitmap" where
  "demo_bitmap = NewFsBitmapFromBytes list_roaring ''ext4'' BitmapFromFS [0x0D, 0x81] 12 2"

lemma demo_bitmap_inv: "bm_inv list_roaring demo_bitmap"
  unfolding demo_bitmap_def
  by (rule NewFsBitmapFromBytes_spec(1)) (simp_all add: roaring_exact_ok list_roaring_exact)

lemma demo_used: "used list_roaring demo_bitmap = {0, 2, 3, 8}"
proof -
  have "used list_roaring demo_bitmap
      = {n. int n < 12 \<and> n div 8 < 2 \<and> bit ([0x0D, 0x81 :: byte] ! (n div 8)) (n mod 8)}"
    unfolding demo_bitmap_def
    by (subst NewFsBitmapFromBytes_spec(2)) (simp_all add: roaring_exact_ok list_roaring_exact numeral_2_eq_2)
  also have "\<dots> = {n \<in> set [0..<12]. bit ([0x0D, 0x81 :: byte] ! (n div 8)) (n mod 8)}"
    by auto
  also have "\<dots> = {0, 2, 3, 8}" by code_simp
  finally show ?thesis .
qed

lemma demo_IsSet: "IsSet list_roaring demo_bitmap n \<longleftrightarrow> n \<in> {0, 2, 3, 8}"
  by (simp add: IsSet_used [OF demo_bitmap_inv] demo_used)

lemma demo_fields: "Bits demo_bitmap = 12" "BlockSize demo_bitmap = 2"
  by (simp_all add: demo_bitmap_def NewFsBitmapFromBytes_spec roaring_exact_ok list_roaring_exact
      NewFsBitmapFromBytes_BlockSize)

text \<open>
  C11.  The operations on the bitmap refine the operations on the set of used blocks: each keeps
  the invariant, and afterwards a block is marked exactly when the corresponding set operation
  says so.  Blocks at or beyond \<open>Bits\<close> are never marked.
\<close>

theorem bitmap_refines_set:
  assumes b: "bm_inv R b" and len: "len < 2 ^ 32"
  shows "(bm_inv R (Set R b n) \<and> (IsSet R (Set R b n) m \<longleftrightarrow> IsSet R b m \<or> m = n \<and> int n < Bits b))
       \<and> (bm_inv R (Clear R b n) \<and> (IsSet R (Clear R b n) m \<longleftrightarrow> IsSet R b m \<and> m \<noteq> n))
       \<and> (bm_inv R (SetRange R b n len)
          \<and> (IsSet R (SetRange R b n len) m \<longleftrightarrow> IsSet R b m \<or> n \<le> m \<and> m < n + len \<and> int m < Bits b))
       \<and> (bm_inv R (ClearRange R b n len)
          \<and> (IsSet R (ClearRange R b n len) m \<longleftrightarrow> IsSet R b m \<and> \<not> (n \<le> m \<and> m < n + len)))
       \<and> (bm_inv R (SetAll R b) \<and> (IsSet R (SetAll R b) m \<longleftrightarrow> int m < Bits b))"
proof -
  have l: "len < segSize" using len by (simp add: segSize_def)
  show ?thesis
    using fsbm.set1_inv [OF b] fsbm.set1_used [OF b] fsbm.clear1_inv [OF b] fsbm.clear1_used [OF b]
      fsbm.set_range_inv [OF b l] fsbm.set_range_used [OF b l] fsbm.clear_range_inv [OF b l]
      fsbm.clear_range_used [OF b l] fsbm.set_all_inv [OF b] fsbm.set_all_used [OF b]
    by (auto simp: IsSet_used b)
qed

theorem bitmap_refines_set_witness:
  "IsSet list_roaring (SetRange list_roaring demo_bitmap 9 100) 10
   \<and> \<not> IsSet list_roaring (Clear list_roaring demo_bitmap 2) 2"
proof -
  show ?thesis
    using demo_fields bitmap_refines_set [OF demo_bitmap_inv, of 100 9 10]
      bitmap_refines_set [OF demo_bitmap_inv, of 0 2 2] by simp
qed

text \<open>
   A bitmap loaded from raw bytes marks exactly the bits that are set in the bytes, least
  significant bit first, and ignores the padding beyond the number of bits.
\<close>

lemma from_bytes_marks:
  assumes "roaring_ok R" "numBits < 2 ^ 63"
  shows "IsSet R (NewFsBitmapFromBytes R t k raw numBits bs) n \<longleftrightarrow>
     int n < numBits \<and> n div 8 < length raw \<and> bit (raw ! (n div 8)) (n mod 8)"
  using IsSet_used [OF NewFsBitmapFromBytes_spec(1) [OF assms]] NewFsBitmapFromBytes_spec(2) [OF assms]
  by simp

lemma from_bytes_marks_example:
  "IsSet list_roaring demo_bitmap 8 \<and> \<not> IsSet list_roaring demo_bitmap 15"
proof -
  have "[0x0D, 0x81 :: byte] ! (n div 8) = (if n div 8 = 0 then 0x0D else 0x81)" if "n div 8 < 2" for n
    using that by (cases "n div 8") auto
  then show ?thesis
    using from_bytes_marks [of list_roaring 12 "''ext4''" BitmapFromFS "[0x0D, 0x81]" 2 8]
      from_bytes_marks [of list_roaring 12 "''ext4''" BitmapFromFS "[0x0D, 0x81]" 2 15]
    unfolding demo_bitmap_def by (simp add: roaring_exact_ok list_roaring_exact)
qed

text \<open>
  \<open>CountSet\<close> is the number of marked blocks, at most \<open>Bits\<close>, and \<open>UsedSize\<close> is that
  number times the block size unless the product leaves the range of \<open>int64\<close>.
\<close>

lemma count_marked:
  assumes "bm_inv R b" "int (card {n. IsSet R b n}) * BlockSize b < 2 ^ 63" "0 \<le> BlockSize b"
  shows "finite {n. IsSet R b n} \<and> CountSet R b = int (card {n. IsSet R b n})
       \<and> card {n. IsSet R b n} \<le> nat (Bits b)
       \<and> UsedSize R b = int (card {n. IsSet R b n}) * BlockSize b"
proof -
  have u: "{n. IsSet R b n} = used R b" using IsSet_used [OF assms(1)] by auto
  have "card (used R b) \<le> nat (Bits b)" using card_mono [OF _ bm_invD(6) [OF assms(1)]] by simp
  moreover have "UsedSize R b = int (card (used R b)) * BlockSize b"
  proof -
    have "0 \<le> int (card (used R b)) * BlockSize b" using assms(3) by simp
    moreover have "int (card (used R b)) * BlockSize b < 2 ^ 63" using assms(2) by (simp only: u)
    ultimately show ?thesis unfolding UsedSize_def CountSet_card(1) [OF assms(1)] by (intro i64_small) linarith+
  qed
  ultimately show ?thesis unfolding u using CountSet_card [OF assms(1)] by simp
qed

lemma count_marked_example:
  "CountSet list_roaring demo_bitmap = 4 \<and> card {n. IsSet list_roaring demo_bitmap n} = 4
   \<and> UsedSize list_roaring demo_bitmap = 8"
proof -
  have "{n. IsSet list_roaring demo_bitmap n} = {0, 2, 3, 8}" by (auto simp: demo_IsSet)
  then have "card {n. IsSet list_roaring demo_bitmap n} = 4" by simp
  with count_marked [OF demo_bitmap_inv] show ?thesis by (simp add: demo_fields)
qed

text \<open>
  C13.  The search functions return the first marked (unmarked) block at or after a position, or
  \<open>Bits\<close> if there is none, even when the library's \<open>NextAbsentValue\<close> returns a value below
  its argument.
\<close>

theorem search_finds_first:
  assumes b: "bm_inv R b" and f: "0 \<le> from'" "from' < Bits b"
  shows "from' \<le> nextSetBit R b from' \<and> nextSetBit R b from' \<le> Bits b
       \<and> (nextSetBit R b from' < Bits b \<longrightarrow> IsSet R b (nat (nextSetBit R b from')))
       \<and> (\<forall>m. from' \<le> int m \<longrightarrow> int m < nextSetBit R b from' \<longrightarrow> \<not> IsSet R b m)
       \<and> from' \<le> nextClearBit R b from' \<and> nextClearBit R b from' \<le> Bits b
       \<and> (nextClearBit R b from' < Bits b \<longrightarrow> \<not> IsSet R b (nat (nextClearBit R b from')))
       \<and> (\<forall>m. from' \<le> int m \<longrightarrow> int m < nextClearBit R b from' \<longrightarrow> IsSet R b m)"
proof -
  have S: "first_or (\<lambda>n. n \<in> used R b) (nat from') (nat (Bits b)) (nat (nextSetBit R b from'))"
    "0 \<le> nextSetBit R b from'" using nextSetBit_spec [OF b f] .
  have C: "first_or (\<lambda>n. n \<notin> used R b) (nat from') (nat (Bits b)) (nat (nextClearBit R b from'))"
    "0 \<le> nextClearBit R b from'" using nextClearBit_spec [OF b f] .
  show ?thesis unfolding IsSet_used [OF b] using S C f unfolding first_or_def by (auto simp: nat_le_iff le_nat_iff)
qed

theorem search_finds_first_witness:
  "nextSetBit list_roaring demo_bitmap 4 = 8 \<and> nextClearBit list_roaring demo_bitmap 2 = 4"
proof -
  let ?s = "nextSetBit list_roaring demo_bitmap 4" and ?c = "nextClearBit list_roaring demo_bitmap 2"
  note S = search_finds_first [OF demo_bitmap_inv, of 4] and C = search_finds_first [OF demo_bitmap_inv, of 2]
  have "\<not> 8 < ?s" using S demo_fields demo_IsSet [of 8] by fastforce
  moreover have "4 \<le> ?s" "nat ?s \<in> {0, 2, 3, 8} \<or> 12 \<le> ?s"
    using S demo_fields demo_IsSet [of "nat ?s"] by fastforce+
  ultimately have "?s = 8" by auto
  have "\<not> 4 < ?c" using C demo_fields demo_IsSet [of 4] by fastforce
  moreover have "2 \<le> ?c" "nat ?c \<notin> {0, 2, 3, 8} \<or> 12 \<le> ?c"
    using C demo_fields demo_IsSet [of "nat ?c"] by fastforce+
  ultimately have "?c = 4" by auto
  with \<open>?s = 8\<close> show ?thesis by simp
qed

text \<open>
   Changing to a block size that is a multiple of the current one marks a new block exactly
  when one of the old blocks it covers was marked, so no used data is lost; the number of blocks
  is rounded up.
\<close>

lemma change_block_size_covers:
  assumes b: "bm_inv R b" and s: "0 < BlockSize b" "0 < k" "0 < Bits b" and ov: "Bits b + k \<le> 2 ^ 63"
    and r: "ChangeBlockSize R b (k * BlockSize b) = (b', er)"
  shows "er = None \<and> bm_inv R b' \<and> BlockSize b' = k * BlockSize b \<and> Bits b' = (Bits b + k - 1) div k
       \<and> (IsSet R b' m \<longleftrightarrow> (\<exists>j < nat k. IsSet R b (m * nat k + j)))"
proof -
  note S = ChangeBlockSize_spec [OF b s ov, unfolded r fst_conv snd_conv]
  have "m \<in> (\<lambda>n. n div nat k) ` used R b \<longleftrightarrow> (\<exists>j < nat k. m * nat k + j \<in> used R b)"
  proof
    assume "m \<in> (\<lambda>n. n div nat k) ` used R b"
    then obtain n where "m = n div nat k" "n \<in> used R b" by blast
    moreover have "n mod nat k < nat k" using s(2) by simp
    moreover have "n div nat k * nat k + n mod nat k = n" by simp
    ultimately show "\<exists>j < nat k. m * nat k + j \<in> used R b" by metis
  next
    assume "\<exists>j < nat k. m * nat k + j \<in> used R b"
    then obtain j where "j < nat k" "m * nat k + j \<in> used R b" by blast
    moreover from this have "(m * nat k + j) div nat k = m" by simp
    ultimately show "m \<in> (\<lambda>n. n div nat k) ` used R b" by (metis imageI)
  qed
  then show ?thesis using S by (simp add: IsSet_used [OF b] IsSet_used [OF S(2)])
qed

lemma change_block_size_covers_example:
  "\<exists>b'. ChangeBlockSize list_roaring demo_bitmap 8 = (b', None) \<and> Bits b' = 3
      \<and> IsSet list_roaring b' 0 \<and> IsSet list_roaring b' 2"
proof -
  let ?r = "ChangeBlockSize list_roaring demo_bitmap (4 * BlockSize demo_bitmap)"
  have v: "BlockSize demo_bitmap = 2" "Bits demo_bitmap = 12"
    "IsSet list_roaring demo_bitmap 3" "IsSet list_roaring demo_bitmap 8"
    by (simp_all add: demo_fields demo_IsSet)
  have ov: "Bits demo_bitmap + 4 \<le> 2 ^ 63" by (simp add: v)
  have C: "snd ?r = None \<and> bm_inv list_roaring (fst ?r) \<and> BlockSize (fst ?r) = 4 * BlockSize demo_bitmap
      \<and> Bits (fst ?r) = (Bits demo_bitmap + 4 - 1) div 4
      \<and> (IsSet list_roaring (fst ?r) m \<longleftrightarrow> (\<exists>j < nat 4. IsSet list_roaring demo_bitmap (m * nat 4 + j)))" for m
    by (rule change_block_size_covers [OF demo_bitmap_inv _ _ _ ov]) (simp_all add: v)
  have "IsSet list_roaring (fst ?r) 0" using C [of 0] v(3) by (intro C [of 0, THEN conjunct2, THEN conjunct2, THEN conjunct2, THEN conjunct2, THEN iffD2] exI [of _ 3]) simp
  moreover have "IsSet list_roaring (fst ?r) 2"
    using v(4) by (intro C [of 2, THEN conjunct2, THEN conjunct2, THEN conjunct2, THEN conjunct2, THEN iffD2] exI [of _ 0]) simp
  moreover have "?r = ChangeBlockSize list_roaring demo_bitmap 8" by (simp add: v)
  ultimately show ?thesis using C [of 0] v by (intro exI [of _ "fst ?r"]) (auto simp: prod_eq_iff)
qed

text \<open>
  C12.  \<open>MirrorFs\<close> copies exactly the marked bytes that the source has: afterwards a byte of the
  destination that lies in a marked block and within the source is the source's byte, every other
  byte is unchanged, and the returned count is the number of bytes copied, which is the marked size
  when the source is at least as long as the bitmap's range.  It returns for every block size up to
  \<open>2^38\<close>; above, up to the size where 1024 blocks overflow, the buffer is more than \<open>make\<close> allocates
  and it panics.
\<close>

theorem mirror_copies_used:
  assumes b: "bm_inv R b" and bs: "0 < BlockSize b" "BlockSize b < 2 ^ 53" and size: "Bits b * BlockSize b < 2 ^ 63"
  shows "if BlockSize b \<le> 2 ^ 38
    then \<exists>ws n. MirrorFs R b (Some (read_bytes src)) (Some (\<lambda>_ _. None)) = Some (ws, n, None)
     \<and> (\<forall>d x. apply_writes ws d x
          = (if 0 \<le> x \<and> x < int (length src) \<and> IsSet R b (nat (x div BlockSize b)) then src ! nat x else d x))
     \<and> n = int (card {x. 0 \<le> x \<and> x < int (length src) \<and> IsSet R b (nat (x div BlockSize b))})
     \<and> (Bits b * BlockSize b \<le> int (length src) \<longrightarrow> n = UsedSize R b)
    else MirrorFs R b (Some (read_bytes src)) (Some (\<lambda>_ _. None)) = None"
proof -
  have mul: "maxChunkBlocks * BlockSize b < 2 ^ 63" using bs by (simp add: maxChunkBlocks_def)
  have buf: "chunkBufSize (BlockSize b) = 1024 * BlockSize b"
    using mul bs(1) by (simp add: chunkBufSize_def maxChunkBlocks_def)
  let ?N = "nat (Bits b)"
  let ?M = "mirrored R b src ?N"
  have x: "x \<in> ?M \<longleftrightarrow> 0 \<le> x \<and> x < int (length src) \<and> IsSet R b (nat (x div BlockSize b))" for x
    using bm_invD(6) [OF b] by (auto simp: mirrored_def used_bytes_def IsSet_used [OF b])
  show ?thesis
  proof (cases "BlockSize b \<le> 2 ^ 38")
    case True
    obtain ws where W: "mirror_loop (?N + 1) R b (read_bytes src) (\<lambda>_ _. None) (int 0) ([], 0)
        = Some (ws, int (card ?M), None)" "copies src ws ?M"
      using mirror_loop_spec [OF b bs(1) mul size, of 0 "?N + 1" src "[]" 0] copies_Nil
      by (force simp: mirrored_def used_bytes_def)
    have "int (card ?M) = UsedSize R b" if long: "Bits b * BlockSize b \<le> int (length src)"
    proof -
      have fin: "finite (used R b)" using CountSet_card(2) [OF b] .
      have sub: "used R b \<subseteq> {..<?N}" by (rule bm_invD(6) [OF b])
      have "int ?N * BlockSize b \<le> int (length src)"
        using long bs(1) by (cases "0 \<le> Bits b") auto
      then have "?M = used_bytes R b ?N"
        using used_bytes_below [OF bs(1), of R ?N] unfolding mirrored_def by force
      then have M: "int (card ?M) = int (card (used R b)) * BlockSize b"
        using card_used_bytes [OF bs(1) fin sub] by simp
      have "int (card ?M) \<le> int ?N * BlockSize b" by (rule card_mirrored_le [OF bs(1)])
      then have "int (card ?M) < 2 ^ 63" using size bs(1) by (cases "0 \<le> Bits b") auto
      then show ?thesis using M by (simp add: UsedSize_def CountSet_card(1) [OF b])
    qed
    moreover have "?M = {x. 0 \<le> x \<and> x < int (length src) \<and> IsSet R b (nat (x div BlockSize b))}"
      using x by blast
    ultimately show ?thesis using True W x bs(1) by (auto simp: MirrorFs_def buf maxAlloc_def copies_def)
  next
    case False
    then show ?thesis by (simp add: MirrorFs_def buf maxAlloc_def)
  qed
qed

theorem mirror_copies_used_witness:
  "\<exists>ws. MirrorFs list_roaring demo_bitmap (Some (read_bytes (replicate 24 7))) (Some (\<lambda>_ _. None)) = Some (ws, 8, None)
     \<and> (\<forall>d x. apply_writes ws d x
          = (if 0 \<le> x \<and> x < 24 \<and> IsSet list_roaring demo_bitmap (nat (x div 2)) then replicate 24 7 ! nat x else d x))"
proof -
  have "UsedSize list_roaring demo_bitmap = 8"
    by (simp add: UsedSize_def CountSet_card(1) [OF demo_bitmap_inv] demo_used demo_fields)
  then show ?thesis
    using mirror_copies_used [OF demo_bitmap_inv, of "replicate 24 7"] by (auto simp: demo_fields)
qed

end
