(* ===== verification/Restore.thy ===== *)
theory Restore
  imports Roaring
begin

text \<open>
  The restore target (\<^verbatim>\<open>src/disk/restore\<close>): a file written through a bitmap of the granules that
  were already restored.  \<^verbatim>\<open>bitmap.go\<close> is the bitmap, on the same segments as the used-block
  bitmap but with its own loops; \<^verbatim>\<open>restore.go\<close> is the target.  Bit numbers are \<open>uint64\<close>, offsets
  in a segment \<open>uint32\<close>: the wrap-around of \<open>segmentOffset(end-1) + 1\<close> is written out.  The
  loops over the segments are modelled for a last segment below \<open>2^32 - 1\<close>, where their counter
  does not wrap.
\<close>

section \<open>The bitmap of restored granules\<close>

record 'r bitmap =
  bits :: nat
  rsegs :: "'r segments"

definition newBitmap :: "nat \<Rightarrow> 'r bitmap" where
  "newBitmap bitCount = \<lparr>bits = bitCount, rsegs = []\<rparr>"

definition segmentOffset :: "nat \<Rightarrow> nat" where
  "segmentOffset n = u32 n"

definition getSegment :: "'r roaring \<Rightarrow> 'r segments \<Rightarrow> nat \<Rightarrow> 'r" where
  "getSegment R segs idx = (case map_of segs idx of Some s \<Rightarrow> s | None \<Rightarrow> rb_New R)"

text \<open>
  The part of \<open>[start, stop)\<close> in the segment \<open>idx\<close>, as the offsets the four loops compute: the
  lower one and the upper one, which wraps to 0 at the end of a segment.
\<close>

definition seg_lo :: "nat \<Rightarrow> nat \<Rightarrow> nat" where
  "seg_lo idx start = segmentOffset (if start < idx * segSize then idx * segSize else start)"

definition seg_end :: "nat \<Rightarrow> nat" where
  "seg_end idx = u64 (idx * segSize + segSize)"

definition seg_up :: "nat \<Rightarrow> nat \<Rightarrow> nat" where
  "seg_up idx stop =
     u32 (segmentOffset (sub64 (if stop > seg_end idx then seg_end idx else stop) 1) + 1)"

function range_set_from :: "'r roaring \<Rightarrow> 'r segments \<Rightarrow> nat \<Rightarrow> nat \<Rightarrow> nat \<Rightarrow> nat \<Rightarrow> bool" where
  "range_set_from R segs start stop endSeg segIdx =
     (if segIdx \<le> endSeg then
        (case map_of segs segIdx of
           None \<Rightarrow> False
         | Some seg \<Rightarrow>
             let pos = seg_lo segIdx start; segCheckEnd = seg_up segIdx stop;
                 nextAbsent = rb_NextAbsentValue R seg pos
             in if pos < segCheckEnd \<and> \<not> (nextAbsent < 0 \<or> u32 (nat nextAbsent) \<ge> segCheckEnd)
                then False
                else range_set_from R segs start stop endSeg (segIdx + 1))
      else True)"
  by pat_completeness auto
termination by (relation "measure (\<lambda>(R, segs, start, stop, endSeg, segIdx). Suc endSeg - segIdx)") auto

definition isRangeSet :: "'r roaring \<Rightarrow> 'r bitmap \<Rightarrow> nat \<Rightarrow> nat \<Rightarrow> bool" where
  "isRangeSet R b start len =
     (if len = 0 then True
      else if start \<ge> bits b \<or> u64 (start + len) > bits b then False
      else let stop = u64 (start + len)
           in range_set_from R (rsegs b) start stop (segmentIndex (sub64 stop 1)) (segmentIndex start))"

function next_clear_from :: "'r roaring \<Rightarrow> 'r segments \<Rightarrow> nat \<Rightarrow> nat \<Rightarrow> nat \<Rightarrow> nat \<Rightarrow> nat" where
  "next_clear_from R segs start limit limitSeg segIdx =
     (if segIdx \<le> limitSeg then
        (case map_of segs segIdx of
           None \<Rightarrow> start
         | Some seg \<Rightarrow>
             let pos = seg_lo segIdx start; segCheckLimit = seg_up segIdx limit;
                 nextAbsent = rb_NextAbsentValue R seg pos
             in if pos < segCheckLimit \<and> \<not> nextAbsent < 0 \<and> \<not> u32 (nat nextAbsent) \<ge> segCheckLimit
                then u64 (segIdx * segSize + nat nextAbsent)
                else next_clear_from R segs (seg_end segIdx) limit limitSeg (segIdx + 1))
      else limit)"
  by pat_completeness auto
termination by (relation "measure (\<lambda>(R, segs, start, limit, limitSeg, segIdx). Suc limitSeg - segIdx)") auto

definition nextClear :: "'r roaring \<Rightarrow> 'r bitmap \<Rightarrow> nat \<Rightarrow> nat \<Rightarrow> nat" where
  "nextClear R b start limit =
     (if start \<ge> limit then limit
      else next_clear_from R (rsegs b) start limit (segmentIndex (limit - 1)) (segmentIndex start))"

function next_set_from :: "'r roaring \<Rightarrow> 'r segments \<Rightarrow> nat \<Rightarrow> nat \<Rightarrow> nat \<Rightarrow> nat \<Rightarrow> nat" where
  "next_set_from R segs start limit limitSeg segIdx =
     (if segIdx \<le> limitSeg then
        (case map_of segs segIdx of
           None \<Rightarrow>
             if seg_end segIdx > limit then limit
             else next_set_from R segs (seg_end segIdx) limit limitSeg (segIdx + 1)
         | Some seg \<Rightarrow>
             let nextSet = rb_NextValue R seg (seg_lo segIdx start)
             in if nextSet \<ge> 0 \<and> u32 (nat nextSet) < seg_up segIdx limit
                then u64 (segIdx * segSize + nat nextSet)
                else next_set_from R segs (seg_end segIdx) limit limitSeg (segIdx + 1))
      else limit)"
  by pat_completeness auto
termination by (relation "measure (\<lambda>(R, segs, start, limit, limitSeg, segIdx). Suc limitSeg - segIdx)") auto

definition nextSet :: "'r roaring \<Rightarrow> 'r bitmap \<Rightarrow> nat \<Rightarrow> nat \<Rightarrow> nat" where
  "nextSet R b start limit =
     (if start \<ge> limit then limit
      else next_set_from R (rsegs b) start limit (segmentIndex (limit - 1)) (segmentIndex start))"

text \<open>\<open>AddRange\<close> of the library does nothing on an empty range.\<close>

function set_range_from :: "'r roaring \<Rightarrow> 'r segments \<Rightarrow> nat \<Rightarrow> nat \<Rightarrow> nat \<Rightarrow> nat \<Rightarrow> 'r segments" where
  "set_range_from R segs start stop endSeg segIdx =
     (if segIdx \<le> endSeg then
        set_range_from R
          (AList.update segIdx
             (rb_AddRange R (getSegment R segs segIdx) (seg_lo segIdx start) (seg_up segIdx stop)) segs)
          start stop endSeg (segIdx + 1)
      else segs)"
  by pat_completeness auto
termination by (relation "measure (\<lambda>(R, segs, start, stop, endSeg, segIdx). Suc endSeg - segIdx)") auto

declare range_set_from.simps [simp del] next_clear_from.simps [simp del] next_set_from.simps [simp del]
  set_range_from.simps [simp del]

definition setRange :: "'r roaring \<Rightarrow> 'r bitmap \<Rightarrow> nat \<Rightarrow> nat \<Rightarrow> 'r bitmap" where
  "setRange R b start len =
     (if len = 0 then b
      else if start \<ge> bits b \<or> u64 (start + len) > bits b then b
      else let stop = u64 (start + len)
           in b\<lparr>rsegs := set_range_from R (rsegs b) start stop (segmentIndex (sub64 stop 1)) (segmentIndex start)\<rparr>)"

definition countSet :: "'r roaring \<Rightarrow> 'r bitmap \<Rightarrow> nat" where
  "countSet R b = u64 (sum_list (map (\<lambda>(k, s). rb_GetCardinality R s) (rsegs b)))"

section \<open>The target\<close>

text \<open>An open file: its contents and the position where \<open>Write\<close> continues.\<close>

record OsFile =
  fdata :: "byte list"
  fpos :: nat

definition file_put :: "OsFile \<Rightarrow> byte list \<Rightarrow> OsFile" where
  "file_put f bs =
     f\<lparr>fdata := take (fpos f) (fdata f) @ replicate (fpos f - length (fdata f)) 0 @ bs
                 @ drop (fpos f + length bs) (fdata f),
       fpos := fpos f + length bs\<rparr>"

text \<open>
  \<open>File.Write\<close>; \<open>fails\<close> decides when the operating system refuses the write, after how many
  bytes and with which error.
\<close>

definition file_Write ::
    "(OsFile \<Rightarrow> byte list \<Rightarrow> (nat \<times> gerror) option) \<Rightarrow> OsFile \<Rightarrow> byte list \<Rightarrow> OsFile \<times> gerror option" where
  "file_Write fails f bs =
     (case fails f bs of
        None \<Rightarrow> (file_put f bs, None)
      | Some (n, er) \<Rightarrow> (file_put f (take n bs), Some er))"

definition DefaultGranularity :: nat where
  "DefaultGranularity = 512"

record Block =
  blk_Offset :: nat
  blk_Length :: nat
  blk_Data :: "byte list"

record RestoreOption =
  opt_Granularity :: nat
  opt_Capacity :: nat
  opt_NoSyncOnClose :: bool

record 'r Target =
  t_path :: string
  t_granularity :: nat
  t_capacity :: nat
  t_syncOnClose :: bool
  t_w :: OsFile
  t_bm :: "'r bitmap"
  t_closed :: bool
  totalRequested :: nat
  totalWritten :: nat
  totalSkipped :: nat

text \<open>
  \<open>None\<close> is the panic of \<open>*opt\<close> on a nil pointer.  The size of a path and the opening of the
  file are the operating system's.
\<close>

definition OpenPath ::
    "(string \<Rightarrow> nat result) \<Rightarrow> (string \<Rightarrow> OsFile result) \<Rightarrow> string \<Rightarrow> RestoreOption option \<Rightarrow>
     'r Target result option" where
  "OpenPath getFileSize openFile target opt =
     (if target = '''' then Some (Inl (Errorf ''restore: target path is empty'' []))
      else case opt of
        None \<Rightarrow> None
      | Some op \<Rightarrow>
          let g = (if opt_Granularity op = 0 then DefaultGranularity else opt_Granularity op)
          in Some (bindR
               (if opt_Capacity op = 0
                then (case getFileSize target of
                        Inl er \<Rightarrow> Inl (Errorf ''restore: detect capacity of %s'' [FErr er, FStr target])
                      | Inr sz \<Rightarrow> Inr sz)
                else Inr (opt_Capacity op))
               (\<lambda>cap.
                  if cap = 0 then Inl (Errorf ''restore: %s has zero capacity'' [FStr target])
                  else case openFile target of
                    Inl er \<Rightarrow> Inl (Errorf ''restore: open %s'' [FErr er, FStr target])
                  | Inr f \<Rightarrow>
                      Inr \<lparr>t_path = target, t_granularity = g, t_capacity = cap,
                           t_syncOnClose = (\<not> opt_NoSyncOnClose op), t_w = f,
                           t_bm = newBitmap (sub64 (u64 (cap + g)) 1 div g), t_closed = False,
                           totalRequested = 0, totalWritten = 0, totalSkipped = 0\<rparr>)))"

text \<open>One round of the loop: write the part of the block in \<open>[clearBit, setBit)\<close> and mark it.\<close>

definition restore_round ::
    "'r roaring \<Rightarrow> (OsFile \<Rightarrow> byte list \<Rightarrow> (nat \<times> gerror) option) \<Rightarrow> Block \<Rightarrow> nat \<Rightarrow> nat \<Rightarrow> nat \<Rightarrow>
     'r Target \<times> nat \<Rightarrow> 'r Target \<times> nat \<times> gerror option" where
  "restore_round R fails blk len clearBit setBit = (\<lambda>(t, written).
     let g = t_granularity t;
         blkEnd = u64 (blk_Offset blk + len);
         writeEnd = (if u64 (setBit * g) > blkEnd then blkEnd else u64 (setBit * g));
         writeStart = (if u64 (clearBit * g) < blk_Offset blk then blk_Offset blk else u64 (clearBit * g));
         bm = setRange R (t_bm t) clearBit (sub64 setBit clearBit)
     in if writeEnd > writeStart
        then let dataStart = writeStart - blk_Offset blk; dataEnd = writeEnd - blk_Offset blk in
          (case file_Write fails (t_w t) (take (dataEnd - dataStart) (drop dataStart (blk_Data blk))) of
             (f, Some er) \<Rightarrow>
               (t\<lparr>t_w := f\<rparr>, written,
                Some (Errorf ''restore: write %s at %d'' [FErr er, FStr (t_path t), FInt (int writeStart)]))
           | (f, None) \<Rightarrow> (t\<lparr>t_w := f, t_bm := bm\<rparr>, u64 (written + (writeEnd - writeStart)), None))
        else (t\<lparr>t_bm := bm\<rparr>, written, None))"

text \<open>
  The loop over the granules that are not yet restored; \<open>fuel\<close> bounds its rounds, and running
  out of it is the value \<open>None\<close>.
\<close>

fun restore_loop ::
    "nat \<Rightarrow> 'r roaring \<Rightarrow> (OsFile \<Rightarrow> byte list \<Rightarrow> (nat \<times> gerror) option) \<Rightarrow> Block \<Rightarrow> nat \<Rightarrow> nat \<Rightarrow>
     'r Target \<times> nat \<Rightarrow> nat \<Rightarrow> ('r Target \<times> nat \<times> gerror option) option" where
  "restore_loop 0 R fails blk len endBit (t, written) pos = None"
| "restore_loop (Suc fuel) R fails blk len endBit (t, written) pos =
     (if pos < endBit then
        let clearBit = nextClear R (t_bm t) pos endBit in
        if clearBit \<ge> endBit then Some (t, written, None)
        else
          let setBit = nextSet R (t_bm t) clearBit endBit in
          case restore_round R fails blk len clearBit setBit (t, written) of
            (t', written', Some er) \<Rightarrow> Some (t', written', Some er)
          | (t', written', None) \<Rightarrow> restore_loop fuel R fails blk len endBit (t', written') setBit
      else Some (t, written, None))"

definition restore_errors :: "'r Target \<Rightarrow> Block \<Rightarrow> gerror option \<Rightarrow> nat \<Rightarrow> gerror option" where
  "restore_errors t blk ctxErr len =
     (if t_closed t then Some (Errorf ''restore: target is closed'' [])
      else case ctxErr of
        Some er \<Rightarrow> Some (Errorf ''restore: cancelled'' [FErr er])
      | None \<Rightarrow>
          if blk_Offset blk mod t_granularity t \<noteq> 0
          then Some (Errorf ''restore: offset %d not aligned to granularity %d''
                       [FInt (int (blk_Offset blk)), FInt (int (t_granularity t))])
          else if u64 (blk_Offset blk + len) > t_capacity t
          then Some (Errorf ''restore: block [%d, %d) exceeds capacity %d''
                       [FInt (int (blk_Offset blk)), FInt (int (u64 (blk_Offset blk + len))), FInt (int (t_capacity t))])
          else None)"

definition Restore ::
    "'r roaring \<Rightarrow> (OsFile \<Rightarrow> byte list \<Rightarrow> (nat \<times> gerror) option) \<Rightarrow> gerror option \<Rightarrow> 'r Target \<Rightarrow>
     Block option \<Rightarrow> ('r Target \<times> nat \<times> gerror option) option" where
  "Restore R fails ctxErr t blk' =
     (case blk' of
        None \<Rightarrow> Some (t, 0, Some (Errorf ''restore: nil block'' []))
      | Some blk \<Rightarrow>
          if blk_Length blk = 0 \<or> blk_Data blk = [] then Some (t, 0, None)
          else
            let len = (if length (blk_Data blk) < blk_Length blk then length (blk_Data blk) else blk_Length blk) in
            case restore_errors t blk ctxErr len of
              Some er \<Rightarrow> Some (t, 0, Some er)
            | None \<Rightarrow>
                let g = t_granularity t;
                    t1 = t\<lparr>totalRequested := u64 (totalRequested t + len)\<rparr>;
                    startBit = blk_Offset blk div g;
                    end0 = sub64 (u64 (blk_Offset blk + len + g)) 1 div g;
                    endBit = (if end0 > bits (t_bm t) then bits (t_bm t) else end0)
                in if isRangeSet R (t_bm t) startBit (sub64 endBit startBit)
                   then Some (t1\<lparr>totalSkipped := u64 (totalSkipped t1 + len)\<rparr>, 0, None)
                   else case restore_loop (endBit + 1) R fails blk len endBit (t1, 0) startBit of
                     None \<Rightarrow> None
                   | Some (t2, written, Some er) \<Rightarrow> Some (t2, written, Some er)
                   | Some (t2, written, None) \<Rightarrow>
                       Some (t2\<lparr>totalWritten := u64 (totalWritten t2 + written),
                                totalSkipped := u64 (totalSkipped t2 + sub64 len written)\<rparr>, written, None))"

text \<open>\<open>closeErr\<close> is what the operating system answers to closing the file.\<close>

definition Close :: "gerror option \<Rightarrow> 'r Target \<Rightarrow> 'r Target \<times> gerror option" where
  "Close closeErr t =
     (if t_closed t then (t, None)
      else (t\<lparr>t_closed := True\<rparr>,
            map_option (\<lambda>er. Errorf ''restore: close %s'' [FErr er, FStr (t_path t)]) closeErr))"

definition Stats :: "'r Target \<Rightarrow> nat \<times> nat \<times> nat" where
  "Stats t = (totalRequested t, totalWritten t, totalSkipped t)"

end
