(* ===== verification/RestoreLaws.thy ===== *)
theory RestoreLaws
  imports Restore FsBitmapLaws
begin

text \<open>
  The restore target writes each granule once.  The lemmas on the bitmap are for ranges that stay
  inside one segment and do not reach its end (\<open>inside\<close>): there the computed offsets are exact.
\<close>

section \<open>The bitmap inside a segment\<close>

definition restored :: "'r roaring \<Rightarrow> 'r bitmap \<Rightarrow> nat set" where
  "restored R b = {n. seg_mem R (rsegs b) n}"

definition inside :: "nat \<Rightarrow> nat \<Rightarrow> bool" where
  "inside start stop \<longleftrightarrow> start < stop \<and> stop < 2 ^ 63 \<and> start div segSize = stop div segSize"

lemma insideD:
  assumes "inside start stop"
  shows "segmentIndex start = start div segSize" "segmentIndex (stop - 1) = start div segSize"
    "seg_lo (start div segSize) start = start mod segSize"
    "seg_up (start div segSize) stop = stop mod segSize"
    "stop < seg_end (start div segSize)"
    "start = start div segSize * segSize + start mod segSize"
    "stop = start div segSize * segSize + stop mod segSize"
proof -
  let ?k = "start div segSize"
  have lt: "start < stop" "stop < 2 ^ 63" and k: "stop div segSize = ?k"
    using assms by (auto simp: inside_def)
  show 1: "start = ?k * segSize + start mod segSize" by simp
  show 2: "stop = ?k * segSize + stop mod segSize" using div_mult_mod_eq [of stop segSize] k by simp
  have km: "(stop - 1) div segSize = ?k"
    using lt div_le_mono [of start "stop - 1" segSize] div_le_mono [of "stop - 1" stop segSize] k by simp
  show "segmentIndex start = ?k" using lt by simp
  show "segmentIndex (stop - 1) = ?k" using lt km by simp
  show "seg_lo ?k start = start mod segSize"
    using leD [OF segment_bounds(1) [of start]] unfolding seg_lo_def segmentOffset_def u32_seg by (rule if_not_P [THEN arg_cong])
  have "?k * segSize + segSize < 2 ^ 64" using segment_bounds(1) [of start] lt by (simp add: segSize_def)
  then have se: "seg_end ?k = ?k * segSize + segSize" by (simp add: seg_end_def)
  show end': "stop < seg_end ?k" unfolding se using segment_bounds(2) [of stop] k by simp
  have m: "(stop - 1) mod segSize = stop mod segSize - 1"
  proof -
    have "?k * segSize + (stop - 1) mod segSize = stop - 1" using div_mult_mod_eq [of "stop - 1" segSize] by (simp only: km)
    with 2 lt show ?thesis by linarith
  qed
  have pos: "0 < stop mod segSize" using 1 2 lt by linarith
  show "seg_up ?k stop = stop mod segSize"
    using end' lt m pos mod_less_divisor [of segSize stop]
    by (simp add: seg_up_def segmentOffset_def u32_seg del: mod_less_divisor)
qed

lemma inside_mono: "inside start stop \<Longrightarrow> start \<le> a \<Longrightarrow> a < b \<Longrightarrow> b \<le> stop \<Longrightarrow> inside a b"
  using div_le_mono [of start a segSize] div_le_mono [of a b segSize] div_le_mono [of b stop segSize]
  by (auto simp: inside_def)

text \<open>
  The last bit of a segment is never set: the upper bound of a range that reaches it wraps.  So
  \<open>NextAbsentValue\<close> always finds a clear bit.
\<close>

definition rm_inv :: "'r roaring \<Rightarrow> 'r bitmap \<Rightarrow> bool" where
  "rm_inv R b \<longleftrightarrow> bits b < 2 ^ 63 \<and> distinct (map fst (rsegs b))
     \<and> restored R b \<subseteq> {..<bits b} \<and> (\<forall>k. k * segSize + (segSize - 1) \<notin> restored R b)"

text \<open>
  The searches of this bitmap take the answers of \<open>NextAbsentValue\<close> as they are, without the check
  that the used-block bitmap has, so they are right only with a library that has no defect.
\<close>

definition rm_ok :: "'r roaring \<Rightarrow> 'r bitmap \<Rightarrow> bool" where
  "rm_ok R b \<longleftrightarrow> roaring_exact R \<and> rm_inv R b"

lemma rm_okI [intro]: "roaring_exact R \<Longrightarrow> rm_inv R b \<Longrightarrow> rm_ok R b"
  by (simp add: rm_ok_def)

lemma rm_okD:
  assumes "rm_ok R b"
  shows "rb_updates_ok R" "rb_queries_ok R" "bits b < 2 ^ 63" "distinct (map fst (rsegs b))"
    "restored R b \<subseteq> {..<bits b}" "k * segSize + (segSize - 1) \<notin> restored R b"
    "lo < segSize \<Longrightarrow> absent_at R s lo (rb_NextAbsentValue R s lo)"
  using assms by (auto simp: rm_ok_def rm_inv_def roaring_exact_def)

lemma rm_inv_newBitmap: "n < 2 ^ 63 \<Longrightarrow> rm_inv R (newBitmap n)"
  by (simp add: rm_inv_def newBitmap_def restored_def)

lemma restored_seg:
  assumes "map_of (rsegs b) k = Some s" "v < segSize"
  shows "k * segSize + v \<in> restored R b \<longleftrightarrow> rb_Contains R s v"
proof -
  have "(k * segSize + v) div segSize = k" "(k * segSize + v) mod segSize = v" using assms(2) by simp_all
  then show ?thesis by (simp add: restored_def seg_mem_def assms(1))
qed

lemma restored_missing:
  "map_of (rsegs b) k = None \<Longrightarrow> v < segSize \<Longrightarrow> k * segSize + v \<notin> restored R b"
  by (simp add: restored_def seg_mem_def)

lemma absent_found:
  assumes "rm_ok R b" "map_of (rsegs b) k = Some s" "lo < segSize"
  obtains w where "rb_NextAbsentValue R s lo = int w" "lo \<le> w" "w < segSize" "\<not> rb_Contains R s w"
    "\<And>x. lo \<le> x \<Longrightarrow> x < w \<Longrightarrow> rb_Contains R s x"
proof -
  have "\<not> rb_Contains R s (segSize - 1)"
    using rm_okD(6) [OF assms(1), of k] restored_seg [OF assms(2), of "segSize - 1" R] by simp
  then have ex: "\<exists>w. lo \<le> w \<and> w < segSize \<and> \<not> rb_Contains R s w"
    using assms(3) by (intro exI [of _ "segSize - 1"]) auto
  show thesis using rm_okD(7) [OF assms(1,3), of s] that unfolding absent_at_def if_P [OF ex] by blast
qed

lemma segment_range:
  assumes "inside start stop"
  shows "n \<in> {start..<stop} \<longleftrightarrow> (\<exists>v. n = start div segSize * segSize + v \<and> start mod segSize \<le> v \<and> v < stop mod segSize)"
proof -
  note D = insideD(6,7) [OF assms]
  show ?thesis
  proof
    assume "n \<in> {start..<stop}"
    then have "start \<le> n" "n < stop" by simp_all
    then show "\<exists>v. n = start div segSize * segSize + v \<and> start mod segSize \<le> v \<and> v < stop mod segSize"
      using D by (intro exI [of _ "n - start div segSize * segSize"]) (intro conjI; linarith)
  next
    assume "\<exists>v. n = start div segSize * segSize + v \<and> start mod segSize \<le> v \<and> v < stop mod segSize"
    with D show "n \<in> {start..<stop}" by (auto, linarith+)
  qed
qed

lemma isRangeSet_inside:
  assumes inv: "rm_ok R b" and i: "inside start stop" and le: "stop \<le> bits b"
  shows "isRangeSet R b start (stop - start) \<longleftrightarrow> {start..<stop} \<subseteq> restored R b"
proof -
  let ?k = "start div segSize"
  note D = insideD [OF i]
  have lt: "start < stop" "stop < 2 ^ 63" using i by (auto simp: inside_def)
  have m: "start mod segSize < stop mod segSize" using D(6,7) lt(1) by linarith
  have e: "isRangeSet R b start (stop - start) = range_set_from R (rsegs b) start stop ?k ?k"
    using lt le D(1,2) by (simp add: isRangeSet_def Let_def)
  show ?thesis
  proof (cases "map_of (rsegs b) ?k")
    case None
    then have "start \<notin> restored R b" using restored_missing [OF None, of "start mod segSize" R] by simp
    then show ?thesis unfolding e using lt None by (subst range_set_from.simps) (auto simp: subset_iff)
  next
    case (Some s)
    obtain w where w: "rb_NextAbsentValue R s (start mod segSize) = int w" "start mod segSize \<le> w" "w < segSize"
      "\<not> rb_Contains R s w" "\<And>x. start mod segSize \<le> x \<Longrightarrow> x < w \<Longrightarrow> rb_Contains R s x"
      using absent_found [OF inv Some, of "start mod segSize"] by auto
    have "isRangeSet R b start (stop - start) \<longleftrightarrow> stop mod segSize \<le> w"
      unfolding e using Some m w
      by (subst range_set_from.simps) (simp add: D(3,4) Let_def range_set_from.simps [of _ _ _ _ ?k "Suc ?k"])
    also have "\<dots> \<longleftrightarrow> {start..<stop} \<subseteq> restored R b"
    proof
      assume le: "stop mod segSize \<le> w"
      show "{start..<stop} \<subseteq> restored R b"
      proof
        fix n assume "n \<in> {start..<stop}"
        then obtain v where v: "n = ?k * segSize + v" "start mod segSize \<le> v" "v < stop mod segSize"
          unfolding segment_range [OF i] by blast
        then show "n \<in> restored R b" using restored_seg [OF Some, of v R] w(3,5) le by simp
      qed
    next
      assume sub: "{start..<stop} \<subseteq> restored R b"
      show "stop mod segSize \<le> w"
      proof (rule ccontr)
        assume "\<not> stop mod segSize \<le> w"
        then have "?k * segSize + w \<in> {start..<stop}" unfolding segment_range [OF i] using w(2) by auto
        then show False using sub restored_seg [OF Some w(3), of R] w(4) by blast
      qed
    qed
    finally show ?thesis .
  qed
qed

lemma nextClear_inside:
  assumes inv: "rm_ok R b" and i: "inside start stop"
  shows "first_or (\<lambda>n. n \<notin> restored R b) start stop (nextClear R b start stop)"
proof -
  let ?k = "start div segSize"
  note D = insideD [OF i]
  have lt: "start < stop" "stop < 2 ^ 63" using i by (auto simp: inside_def)
  have m: "start mod segSize < stop mod segSize" using D(6,7) lt(1) by linarith
  have e: "nextClear R b start stop = next_clear_from R (rsegs b) start stop ?k ?k"
    using lt D(1,2) by (simp add: nextClear_def)
  show ?thesis
  proof (cases "map_of (rsegs b) ?k")
    case None
    then have "start \<notin> restored R b" using restored_missing [OF None, of "start mod segSize" R] by simp
    then show ?thesis unfolding e using lt None by (subst next_clear_from.simps) (simp add: first_or_def)
  next
    case (Some s)
    obtain w where w: "rb_NextAbsentValue R s (start mod segSize) = int w" "start mod segSize \<le> w" "w < segSize"
      "\<not> rb_Contains R s w" "\<And>x. start mod segSize \<le> x \<Longrightarrow> x < w \<Longrightarrow> rb_Contains R s x"
      using absent_found [OF inv Some, of "start mod segSize"] by auto
    have r: "nextClear R b start stop = (if w < stop mod segSize then u64 (?k * segSize + w) else stop)"
      unfolding e using Some m w
      by (subst next_clear_from.simps) (simp add: D(3,4) Let_def next_clear_from.simps [of _ _ _ _ ?k "Suc ?k"])
    have set': "n \<in> restored R b" if n: "start \<le> n" "n < stop" "n < ?k * segSize + w" for n
    proof -
      obtain v where "n = ?k * segSize + v" "start mod segSize \<le> v" "v < stop mod segSize"
        using segment_range [OF i, of n, THEN iffD1] n(1,2) unfolding atLeastLessThan_iff by blast
      then show ?thesis using restored_seg [OF Some, of v R] w(3,5) n(3) by simp
    qed
    show ?thesis
    proof (cases "w < stop mod segSize")
      case True
      then have "?k * segSize + w < stop" "start \<le> ?k * segSize + w" using D(6,7) w(2) by linarith+
      moreover from this have "u64 (?k * segSize + w) = ?k * segSize + w" using lt(2) by simp
      ultimately show ?thesis using r True set' restored_seg [OF Some w(3), of R] w(4)
        by (simp add: first_or_def)
    next
      case False
      then have "n < ?k * segSize + w" if "n < stop" for n using D(7) that by linarith
      then show ?thesis using r False set' lt(1) by (simp add: first_or_def)
    qed
  qed
qed

text \<open>
  With the defect that the used-block bitmap guards against (\<open>NextAbsentValue\<close> answers below its
  argument), \<open>nextClear\<close> returns a granule before the one it was asked to start from.
\<close>

lemma nextClear_defect:
  assumes i: "inside start stop" and s: "map_of (rsegs b) (start div segSize) = Some s"
    and v: "rb_NextAbsentValue R s (start mod segSize) = int v" "v < start mod segSize"
  shows "nextClear R b start stop = start div segSize * segSize + v \<and> nextClear R b start stop < start"
proof -
  let ?k = "start div segSize"
  note D = insideD [OF i]
  have lt: "start < stop" "stop < 2 ^ 63" using i by (auto simp: inside_def)
  have m: "start mod segSize < stop mod segSize" using D(6,7) lt(1) by linarith
  have vs: "v < segSize" using v(2) mod_less_divisor [OF segSize_pos, of start] by linarith
  have less: "?k * segSize + v < start" using D(6) v(2) by linarith
  then have small: "u64 (?k * segSize + v) = ?k * segSize + v" using lt by simp
  have "nextClear R b start stop = next_clear_from R (rsegs b) start stop ?k ?k"
    using lt D(1,2) by (simp add: nextClear_def)
  also have "\<dots> = ?k * segSize + v"
    using s v m vs small by (subst next_clear_from.simps) (simp add: D(3,4) Let_def)
  finally show ?thesis using less by simp
qed

lemma nextSet_inside:
  assumes inv: "rm_ok R b" and i: "inside start stop"
  shows "first_or (\<lambda>n. n \<in> restored R b) start stop (nextSet R b start stop)"
proof -
  let ?k = "start div segSize"
  note D = insideD [OF i]
  have lt: "start < stop" "stop < 2 ^ 63" using i by (auto simp: inside_def)
  have m: "start mod segSize < stop mod segSize" using D(6,7) lt(1) by linarith
  have e: "nextSet R b start stop = next_set_from R (rsegs b) start stop ?k ?k"
    using lt D(1,2) by (simp add: nextSet_def)
  have off: "\<exists>v. n = ?k * segSize + v \<and> start mod segSize \<le> v \<and> v < stop mod segSize \<and> v < segSize"
    if "start \<le> n" "n < stop" for n
    using segment_range [OF i, of n] that mod_less_divisor [OF segSize_pos, of stop]
    by (metis atLeastLessThan_iff order.strict_trans)
  show ?thesis
  proof (cases "map_of (rsegs b) ?k")
    case None
    then have "n \<notin> restored R b" if "start \<le> n" "n < stop" for n
      using off [OF that] restored_missing [OF None] by auto
    moreover have "nextSet R b start stop = stop"
      unfolding e using None D(5) by (subst next_set_from.simps) simp
    ultimately show ?thesis using lt by (simp add: first_or_def)
  next
    case (Some s)
    have r: "nextSet R b start stop =
        (let v = rb_NextValue R s (start mod segSize)
         in if v \<ge> 0 \<and> u32 (nat v) < stop mod segSize then u64 (?k * segSize + nat v) else stop)"
      unfolding e using Some
      by (subst next_set_from.simps) (simp add: D(3,4) Let_def next_set_from.simps [of _ _ _ _ ?k "Suc ?k"])
    have lo: "start mod segSize < segSize" by simp
    show ?thesis
      using rm_okD(2) [OF inv] lo
    proof (cases rule: NextValue_cases [where s = s])
      case (hit w)
      have clear: "n \<notin> restored R b" if "start \<le> n" "n < stop" "n < ?k * segSize + w" for n
        using off [OF that(1,2)] restored_seg [OF Some, of _ R] hit(5) that(3) by auto
      show ?thesis
      proof (cases "w < stop mod segSize")
        case True
        then have "?k * segSize + w < stop" "start \<le> ?k * segSize + w" using D(6,7) hit(2) by linarith+
        moreover from this have "u64 (?k * segSize + w) = ?k * segSize + w" using lt(2) by simp
        ultimately show ?thesis using r True clear hit restored_seg [OF Some hit(3), of R]
          by (simp add: first_or_def)
      next
        case False
        then have "n < ?k * segSize + w" if "n < stop" for n using D(7) that by linarith
        then show ?thesis using r False clear lt(1) hit by (simp add: first_or_def)
      qed
    next
      case miss
      then have "n \<notin> restored R b" if "start \<le> n" "n < stop" for n
        using off [OF that] restored_seg [OF Some, of _ R] by auto
      then show ?thesis using r miss lt(1) by (simp add: first_or_def)
    qed
  qed
qed

lemma setRange_inside:
  assumes inv: "rm_ok R b" and i: "inside start stop" and le: "stop \<le> bits b"
  shows "rm_ok R (setRange R b start (stop - start))" (is ?I)
    "restored R (setRange R b start (stop - start)) = restored R b \<union> {start..<stop}" (is ?U)
    "bits (setRange R b start (stop - start)) = bits b" (is ?B)
proof -
  let ?k = "start div segSize" and ?b = "setRange R b start (stop - start)"
  let ?s = "rb_AddRange R (getSegment R (rsegs b) ?k) (start mod segSize) (stop mod segSize)"
  note D = insideD [OF i]
  have lt: "start < stop" "stop < 2 ^ 63" using i by (auto simp: inside_def)
  have m: "start mod segSize < stop mod segSize" using D(6,7) lt(1) by linarith
  have e: "?b = b\<lparr>rsegs := AList.update ?k ?s (rsegs b)\<rparr>"
    using lt le D(1-4)
    by (simp add: setRange_def Let_def set_range_from.simps [of _ _ _ _ ?k ?k] set_range_from.simps [of _ _ _ _ ?k "Suc ?k"])
  have new: "rb_Contains R ?s v \<longleftrightarrow> start mod segSize \<le> v \<and> v < stop mod segSize \<or> ?k * segSize + v \<in> restored R b"
    if "v < segSize" for v
  proof -
    have "rb_Contains R (getSegment R (rsegs b) ?k) v \<longleftrightarrow> ?k * segSize + v \<in> restored R b"
      using restored_seg [of b ?k _ v R] restored_missing [of b ?k v R] that rb_laws(1) [OF rm_okD(1) [OF inv]]
      by (cases "map_of (rsegs b) ?k") (simp_all add: getSegment_def)
    then show ?thesis
      using rb_laws(3) [OF rm_okD(1) [OF inv] m _ that] mod_less_divisor [OF segSize_pos, of stop] by simp
  qed
  have mem: "n \<in> restored R ?b \<longleftrightarrow> n \<in> restored R b \<union> {start..<stop}" for n
  proof (cases "n div segSize = ?k")
    case True
    then have n: "n = ?k * segSize + n mod segSize" using seg_split by blast
    have "n \<in> restored R ?b \<longleftrightarrow> rb_Contains R ?s (n mod segSize)"
      by (simp add: restored_def e seg_mem_update True)
    also have "\<dots> \<longleftrightarrow> start mod segSize \<le> n mod segSize \<and> n mod segSize < stop mod segSize \<or> n \<in> restored R b"
      using new [of "n mod segSize"] n by simp
    also have "start mod segSize \<le> n mod segSize \<and> n mod segSize < stop mod segSize \<longleftrightarrow> n \<in> {start..<stop}"
      unfolding segment_range [OF i] using n by (metis add_left_cancel)
    finally show ?thesis by blast
  next
    case False
    have "n \<notin> {start..<stop}"
    proof
      assume "n \<in> {start..<stop}"
      then obtain v where "n = ?k * segSize + v" "v < stop mod segSize" unfolding segment_range [OF i] by blast
      moreover from this have "v < segSize" using mod_less_divisor [OF segSize_pos, of stop] by linarith
      ultimately have "n div segSize = ?k" by simp
      with False show False by simp
    qed
    with False show ?thesis unfolding Un_iff by (simp add: restored_def e seg_mem_update del: atLeastLessThan_iff)
  qed
  then show ?U by blast
  show ?B by (simp add: e)
  have "k * segSize + (segSize - 1) \<notin> {start..<stop}" for k
  proof
    assume "k * segSize + (segSize - 1) \<in> {start..<stop}"
    then obtain v where v: "k * segSize + (segSize - 1) = ?k * segSize + v" "v < stop mod segSize"
      unfolding segment_range [OF i] by blast
    have "v < segSize - 1" using v(2) mod_less_divisor [OF segSize_pos, of stop] by linarith
    moreover have "(?k * segSize + v) mod segSize = v" using \<open>v < segSize - 1\<close> by simp
    moreover have "(k * segSize + (segSize - 1)) mod segSize = segSize - 1" by simp
    ultimately show False using v(1) by simp
  qed
  then show ?I using inv \<open>?U\<close> \<open>?B\<close> le unfolding rm_ok_def rm_inv_def by (auto simp: e)
qed

section \<open>The data written\<close>

lemma file_put_append: "file_put (file_put f as) bs = file_put f (as @ bs)"
proof -
  let ?p = "fpos f" and ?d = "fdata f"
  let ?n = "length (take ?p ?d @ replicate (?p - length ?d) 0 @ as)"
  have n: "?n = ?p + length as" by auto
  have "fdata (file_put f as) = (take ?p ?d @ replicate (?p - length ?d) 0 @ as) @ drop (?p + length as) ?d"
    by (simp add: file_put_def)
  then have "take (?p + length as) (fdata (file_put f as)) = take ?p ?d @ replicate (?p - length ?d) 0 @ as"
    "drop (?p + length as + length bs) (fdata (file_put f as)) = drop (?p + length as + length bs) ?d"
    using n by (simp_all add: add.commute add.left_commute)
  moreover have "?p + length as \<le> length (fdata (file_put f as))" using n by (simp add: file_put_def)
  ultimately show ?thesis
    by (simp add: file_put_def [of "file_put f as"]) (simp add: file_put_def add.assoc)
qed

lemma file_put_Nil: "fpos f \<le> length (fdata f) \<Longrightarrow> file_put f [] = f"
  by (simp add: file_put_def)

text \<open>The bytes \<open>[lo, hi)\<close> of a block at offset \<open>off\<close> whose granules are not in \<open>S\<close>.\<close>

definition fresh :: "nat set \<Rightarrow> nat \<Rightarrow> nat \<Rightarrow> byte list \<Rightarrow> nat \<Rightarrow> nat \<Rightarrow> byte list" where
  "fresh S off g d lo hi = map (\<lambda>i. d ! i) (filter (\<lambda>i. (off + i) div g \<notin> S) [lo..<hi])"

lemma fresh_split: "lo \<le> mid \<Longrightarrow> mid \<le> hi \<Longrightarrow> fresh S off g d lo hi = fresh S off g d lo mid @ fresh S off g d mid hi"
  unfolding fresh_def by (metis filter_append le_iff_add map_append upt_add_eq_append)

lemma fresh_none: "\<forall>i. lo \<le> i \<longrightarrow> i < hi \<longrightarrow> (off + i) div g \<in> S \<Longrightarrow> fresh S off g d lo hi = []"
  by (simp add: fresh_def filter_empty_conv)

lemma fresh_cong:
  "\<forall>i. lo \<le> i \<longrightarrow> i < hi \<longrightarrow> ((off + i) div g \<in> S \<longleftrightarrow> (off + i) div g \<in> S') \<Longrightarrow>
   fresh S off g d lo hi = fresh S' off g d lo hi"
  unfolding fresh_def by (intro arg_cong [of _ _ "map _"] filter_cong) auto

lemma fresh_all:
  assumes "\<forall>i. lo \<le> i \<longrightarrow> i < hi \<longrightarrow> (off + i) div g \<notin> S" "hi \<le> length d"
  shows "fresh S off g d lo hi = take (hi - lo) (drop lo d)"
proof -
  have "filter (\<lambda>i. (off + i) div g \<notin> S) [lo..<hi] = [lo..<hi]" using assms(1) by (simp add: filter_id_conv)
  then show ?thesis using assms(2) by (simp add: fresh_def) (rule nth_equalityI, auto)
qed

lemma fresh_length_le: "length (fresh S off g d lo hi) \<le> hi - lo"
  using length_filter_le [of _ "[lo..<hi]"] by (simp add: fresh_def)

section \<open>The loop\<close>

text \<open>
  A block of \<open>len\<close> bytes at the granule \<open>startBit\<close> that ends in the granule before \<open>endBit\<close>;
  \<open>at pos\<close> is where the granule \<open>pos\<close> begins in the block's data.
\<close>

definition spans :: "Block \<Rightarrow> nat \<Rightarrow> nat \<Rightarrow> nat \<Rightarrow> nat \<Rightarrow> bool" where
  "spans blk len g startBit endBit \<longleftrightarrow> 0 < g \<and> blk_Offset blk = startBit * g \<and> 0 < len \<and> len \<le> length (blk_Data blk)
     \<and> endBit = (blk_Offset blk + len + g - 1) div g \<and> blk_Offset blk + len + g \<le> 2 ^ 63"

definition at :: "Block \<Rightarrow> nat \<Rightarrow> nat \<Rightarrow> nat \<Rightarrow> nat" where
  "at blk len g pos = min (pos * g - blk_Offset blk) len"

lemma spansD:
  assumes "spans blk len g startBit endBit"
  shows "0 < g" "blk_Offset blk = startBit * g" "len \<le> length (blk_Data blk)" "startBit < endBit"
    "blk_Offset blk + len \<le> endBit * g" "c < endBit \<Longrightarrow> c * g < blk_Offset blk + len"
    "endBit * g < 2 ^ 63" "blk_Offset blk + len < 2 ^ 63"
proof -
  have A: "0 < g" "blk_Offset blk = startBit * g" "0 < len" "len \<le> length (blk_Data blk)"
    and e: "endBit = (blk_Offset blk + len + g - 1) div g" and small: "blk_Offset blk + len + g \<le> 2 ^ 63"
    using assms by (auto simp: spans_def)
  let ?x = "blk_Offset blk + len + g - 1"
  have d: "endBit * g \<le> ?x" "?x < endBit * g + g"
    unfolding e using div_mult_mod_eq [of ?x g] mod_less_divisor [of g ?x] A(1) by linarith+
  show "0 < g" "blk_Offset blk = startBit * g" "len \<le> length (blk_Data blk)" by (fact A)+
  show "blk_Offset blk + len \<le> endBit * g" using d(2) by simp
  show lt: "c * g < blk_Offset blk + len" if "c < endBit" for c
  proof -
    have "(c + 1) * g \<le> endBit * g" using that by (intro mult_le_mono1) simp
    then show ?thesis using d(1) A(3) by simp
  qed
  show "startBit < endBit"
  proof (rule ccontr)
    assume "\<not> startBit < endBit"
    then have "endBit * g \<le> startBit * g" by (intro mult_le_mono1) simp
    then show False using \<open>blk_Offset blk + len \<le> endBit * g\<close> A(2,3) by linarith
  qed
  show "endBit * g < 2 ^ 63" using d(1) A(1) small by linarith
  show "blk_Offset blk + len < 2 ^ 63" using A(1) small by linarith
qed

lemma granule_ge: "0 < g \<Longrightarrow> pos \<le> x div g \<longleftrightarrow> pos * g \<le> (x::nat)"
  by (simp add: less_eq_div_iff_mult_less_eq)

lemma granule_lt: "0 < g \<Longrightarrow> x div g < pos \<longleftrightarrow> (x::nat) < pos * g"
  using granule_ge [of g pos x] by linarith

lemma at_range:
  assumes "spans blk len g startBit endBit" "at blk len g a \<le> i" "i < at blk len g b"
  shows "a \<le> (blk_Offset blk + i) div g" "(blk_Offset blk + i) div g < b" "i < len"
proof -
  have i: "i < len" "blk_Offset blk + i < b * g" using assms(3) by (auto simp: at_def)
  moreover have "a * g \<le> blk_Offset blk + i" using assms(2) i by (auto simp: at_def)
  ultimately show "a \<le> (blk_Offset blk + i) div g" "(blk_Offset blk + i) div g < b" "i < len"
    using granule_ge [OF spansD(1) [OF assms(1)]] granule_lt [OF spansD(1) [OF assms(1)]] by blast+
qed

lemma at_mono: "a \<le> b \<Longrightarrow> at blk len g a \<le> at blk len g b"
  unfolding at_def by (intro min.mono diff_le_mono mult_le_mono1) auto

lemma at_end: "spans blk len g startBit endBit \<Longrightarrow> at blk len g endBit = len"
  using spansD(5) by (fastforce simp: at_def)

text \<open>A round that covers the granules \<open>[c, s)\<close>.\<close>

lemma restore_round_write:
  assumes sp: "spans blk len g startBit endBit" and g: "t_granularity t = g"
    and c: "startBit \<le> c" "c < s" "s \<le> endBit"
  shows "restore_round R fails blk len c s (t, written)
     = (case file_Write fails (t_w t) (take (at blk len g s - at blk len g c) (drop (at blk len g c) (blk_Data blk))) of
          (f, Some er) \<Rightarrow>
            (t\<lparr>t_w := f\<rparr>, written,
             Some (Errorf ''restore: write %s at %d'' [FErr er, FStr (t_path t), FInt (int (blk_Offset blk + at blk len g c))]))
        | (f, None) \<Rightarrow>
            (t\<lparr>t_w := f, t_bm := setRange R (t_bm t) c (s - c)\<rparr>, u64 (written + (at blk len g s - at blk len g c)), None))"
    and "at blk len g c < at blk len g s"
proof -
  note D = spansD [OF sp]
  let ?o = "blk_Offset blk"
  have cg: "?o \<le> c * g" "c * g < ?o + len" using D(2) D(6) [of c] c by simp_all
  have sg: "s * g \<le> endBit * g" "c * g < s * g" using c D(1) by simp_all
  have s63: "s * g < 2 ^ 63" by (rule le_less_trans [OF sg(1) D(7)])
  moreover have "c * g < 2 ^ 63" by (rule less_trans [OF sg(2) s63])
  ultimately have small: "s * g < 2 ^ 64" "c * g < 2 ^ 64" "?o + len < 2 ^ 64" using D(8) by simp_all
  have "s * 1 \<le> s * g" using D(1) by (intro mult_le_mono2) simp
  then have s64: "s < 2 ^ 64" using small(1) by linarith
  have at: "at blk len g c = c * g - ?o" "?o + at blk len g s = (if ?o + len < s * g then ?o + len else s * g)"
    using cg less_trans [OF le_less_trans [OF cg(1) sg(2)]] less_imp_le [OF le_less_trans [OF cg(1) sg(2)]]
    by (auto simp: at_def)
  show le: "at blk len g c < at blk len g s"
    using diff_less_mono [OF sg(2) cg(1)] cg unfolding at(1) at_def by (intro min_less_iff_conj [THEN iffD2] conjI) linarith+
  have ws: "(if u64 (c * g) < ?o then ?o else u64 (c * g)) = ?o + at blk len g c"
    using small(2) cg(1) at(1) by simp
  have we: "(if u64 (s * g) > u64 (?o + len) then u64 (?o + len) else u64 (s * g)) = ?o + at blk len g s"
    using small at(2) by simp
  have su: "sub64 s c = s - c" using c(2) s64 by (intro sub64_le) auto
  show "restore_round R fails blk len c s (t, written)
     = (case file_Write fails (t_w t) (take (at blk len g s - at blk len g c) (drop (at blk len g c) (blk_Data blk))) of
          (f, Some er) \<Rightarrow>
            (t\<lparr>t_w := f\<rparr>, written,
             Some (Errorf ''restore: write %s at %d'' [FErr er, FStr (t_path t), FInt (int (?o + at blk len g c))]))
        | (f, None) \<Rightarrow>
            (t\<lparr>t_w := f, t_bm := setRange R (t_bm t) c (s - c)\<rparr>, u64 (written + (at blk len g s - at blk len g c)), None))"
    unfolding restore_round_def prod.case Let_def g ws we su using le by (auto split: prod.split option.split)
qed

lemma restore_round_spec:
  assumes sp: "spans blk len g startBit endBit" and g: "t_granularity t = g"
    and c: "startBit \<le> c" "c < s" "s \<le> endBit"
    and clear: "\<forall>m. c \<le> m \<longrightarrow> m < s \<longrightarrow> m \<notin> S" and w: "written + len < 2 ^ 64"
  defines "W \<equiv> fresh S (blk_Offset blk) g (blk_Data blk) (at blk len g c) (at blk len g s)"
  shows "restore_round R (\<lambda>_ _. None) blk len c s (t, written)
     = (t\<lparr>t_w := file_put (t_w t) W, t_bm := setRange R (t_bm t) c (s - c)\<rparr>, written + length W, None)"
proof -
  have data: "W = take (at blk len g s - at blk len g c) (drop (at blk len g c) (blk_Data blk))"
    unfolding W_def
  proof (rule fresh_all)
    show "\<forall>i. at blk len g c \<le> i \<longrightarrow> i < at blk len g s \<longrightarrow> (blk_Offset blk + i) div g \<notin> S"
      using at_range [OF sp] clear by blast
    show "at blk len g s \<le> length (blk_Data blk)" using spansD(3) [OF sp] by (simp add: at_def)
  qed
  have l: "length W = at blk len g s - at blk len g c"
    using restore_round_write(2) [OF sp g c] spansD(3) [OF sp] unfolding data by (simp add: at_def)
  have u: "u64 (written + (at blk len g s - at blk len g c)) = written + (at blk len g s - at blk len g c)"
    using w by (intro u64_small) (simp add: at_def)
  show ?thesis
    unfolding restore_round_write(1) [OF sp g c] file_Write_def using l u by (simp flip: data)
qed

lemma restore_loop_spec:
  assumes sp: "spans blk len g startBit endBit" and i: "inside startBit endBit"
  shows "t_granularity t = g \<Longrightarrow> rm_ok R (t_bm t) \<Longrightarrow> endBit \<le> bits (t_bm t) \<Longrightarrow>
     fpos (t_w t) \<le> length (fdata (t_w t)) \<Longrightarrow> startBit \<le> pos \<Longrightarrow> pos \<le> endBit \<Longrightarrow> endBit < pos + fuel \<Longrightarrow>
     written \<le> at blk len g pos \<Longrightarrow>
     W = fresh (restored R (t_bm t)) (blk_Offset blk) g (blk_Data blk) (at blk len g pos) len \<Longrightarrow>
     \<exists>bm. restore_loop fuel R (\<lambda>_ _. None) blk len endBit (t, written) pos
         = Some (t\<lparr>t_w := file_put (t_w t) W, t_bm := bm\<rparr>, written + length W, None)
       \<and> rm_ok R bm \<and> bits bm = bits (t_bm t) \<and> restored R bm = restored R (t_bm t) \<union> {pos..<endBit}"
proof (induction fuel arbitrary: t written pos W)
  case (Suc fuel)
  note D = spansD [OF sp]
  let ?S = "restored R (t_bm t)" and ?o = "blk_Offset blk" and ?d = "blk_Data blk" and ?at = "at blk len g"
  let ?F = "\<lambda>S. fresh S ?o g ?d"
  show ?case
  proof (cases "pos < endBit")
    case False
    then have "pos = endBit" using Suc.prems(6) by simp
    then have W: "W = []" using Suc.prems(9) at_end [OF sp] by (simp add: fresh_def)
    show ?thesis using False Suc.prems \<open>pos = endBit\<close> unfolding W
      by (intro exI [of _ "t_bm t"]) (simp add: file_put_Nil)
  next
    case True
    have ip: "inside pos endBit" using inside_mono [OF i Suc.prems(5) True] by simp
    define c where "c = nextClear R (t_bm t) pos endBit"
    have c: "pos \<le> c" "c \<le> endBit" "c < endBit \<Longrightarrow> c \<notin> ?S" "\<And>m. pos \<le> m \<Longrightarrow> m < c \<Longrightarrow> m \<in> ?S"
      using nextClear_inside [OF Suc.prems(2) ip] unfolding c_def first_or_def by auto
    have skip: "?F ?S (?at pos) (?at c) = []"
      using at_range [OF sp] c(4) by (intro fresh_none) blast
    have split1: "W = ?F ?S (?at c) len"
      unfolding Suc.prems(9) using fresh_split [OF at_mono [OF c(1)], of blk len g "len" ?S ?o g ?d] skip
      by (simp add: at_def)
    show ?thesis
    proof (cases "c < endBit")
      case False
      then have "c = endBit" using c(2) by simp
      then have W: "W = []" unfolding split1 by (simp add: at_end [OF sp] fresh_def)
      have "?S \<union> {pos..<endBit} = ?S" using c(4) \<open>c = endBit\<close> by auto
      moreover have "restore_loop (Suc fuel) R (\<lambda>_ _. None) blk len endBit (t, written) pos = Some (t, written, None)"
        using True False c_def by (simp add: Let_def)
      ultimately show ?thesis using Suc.prems unfolding W by (intro exI [of _ "t_bm t"]) (simp add: file_put_Nil)
    next
      case cl: True
      have ic: "inside c endBit" using inside_mono [OF ip c(1) cl] by simp
      define s where "s = nextSet R (t_bm t) c endBit"
      have s: "c \<le> s" "s \<le> endBit" "s < endBit \<Longrightarrow> s \<in> ?S" "\<And>m. c \<le> m \<Longrightarrow> m < s \<Longrightarrow> m \<notin> ?S"
        using nextSet_inside [OF Suc.prems(2) ic] unfolding s_def first_or_def by auto
      have cs: "c < s" using s(1,3) c(3) [OF cl] cl by (cases "c = s") auto
      have ics: "inside c s" using inside_mono [OF ic _ cs s(2)] by simp
      define bm1 where "bm1 = setRange R (t_bm t) c (s - c)"
      have bm1: "rm_ok R bm1" "restored R bm1 = ?S \<union> {c..<s}" "bits bm1 = bits (t_bm t)"
        unfolding bm1_def using setRange_inside [OF Suc.prems(2) ics] s(2) Suc.prems(3) by auto
      let ?W1 = "?F ?S (?at c) (?at s)"
      define t1 where "t1 = t\<lparr>t_w := file_put (t_w t) ?W1, t_bm := bm1\<rparr>"
      have wlen: "written + len < 2 ^ 64" using Suc.prems(8) D(8) by (simp add: at_def)
      have round: "restore_round R (\<lambda>_ _. None) blk len c s (t, written) = (t1, written + length ?W1, None)"
        unfolding t1_def bm1_def
        using restore_round_spec [OF sp Suc.prems(1) _ cs s(2) _ wlen] Suc.prems(5) c(1) s(4) by auto
      have step: "restore_loop (Suc fuel) R (\<lambda>_ _. None) blk len endBit (t, written) pos
          = restore_loop fuel R (\<lambda>_ _. None) blk len endBit (t1, written + length ?W1) s"
        using True cl round by (simp add: Let_def flip: c_def s_def)
      have rest: "?F (restored R bm1) (?at s) len = ?F ?S (?at s) len"
      proof (rule fresh_cong, intro allI impI)
        fix i assume "?at s \<le> i" "i < len"
        then have "s \<le> (?o + i) div g" using at_range(1) [OF sp, of s i endBit] at_end [OF sp] by simp
        then show "(?o + i) div g \<in> restored R bm1 \<longleftrightarrow> (?o + i) div g \<in> ?S" unfolding bm1(2) by auto
      qed
      have W: "W = ?W1 @ ?F ?S (?at s) len"
        unfolding split1 by (rule fresh_split [OF at_mono [OF s(1)]]) (simp add: at_def)
      have "written + length ?W1 \<le> ?at s"
        using Suc.prems(8) fresh_length_le [of ?S ?o g ?d "?at c" "?at s"] at_mono [OF c(1), of blk len g]
          at_mono [OF s(1), of blk len g] by linarith
      moreover have "fpos (t_w t1) \<le> length (fdata (t_w t1))" by (simp add: t1_def file_put_def)
      ultimately obtain bm where bm: "restore_loop fuel R (\<lambda>_ _. None) blk len endBit (t1, written + length ?W1) s
           = Some (t1\<lparr>t_w := file_put (t_w t1) (?F ?S (?at s) len), t_bm := bm\<rparr>,
                   written + length ?W1 + length (?F ?S (?at s) len), None)"
        "rm_ok R bm" "bits bm = bits bm1" "restored R bm = restored R bm1 \<union> {s..<endBit}"
        using Suc.IH [of t1 s "written + length ?W1" "?F ?S (?at s) len"] Suc.prems bm1 s cs c(1) rest
        by (auto simp: t1_def)
      have "restored R bm = ?S \<union> {pos..<endBit}"
        unfolding bm(4) bm1(2) using c(1,4) s(1,2) by auto
      then show ?thesis
        using bm(1-3) step bm1(3) unfolding W
        by (intro exI [of _ bm]) (simp add: t1_def file_put_append)
    qed
  qed
qed simp

end
