(* ===== verification/RestoreTarget.thy ===== *)
theory RestoreTarget
  imports RestoreLaws
begin

text \<open>The properties of the restore target.\<close>

section \<open>The invariant of a target\<close>

definition tgt_inv :: "'r roaring \<Rightarrow> 'r Target \<Rightarrow> bool" where
  "tgt_inv R t \<longleftrightarrow> rm_inv R (t_bm t) \<and> 0 < t_granularity t \<and> t_capacity t + t_granularity t \<le> 2 ^ 63
     \<and> bits (t_bm t) = (t_capacity t + t_granularity t - 1) div t_granularity t
     \<and> fpos (t_w t) \<le> length (fdata (t_w t)) \<and> totalWritten t < 2 ^ 64"

lemma u64_less_numeral [simp]: "u64 n < 18446744073709551616"
  using u64_less [of n] by simp

text \<open>The number of bytes of a block that count, and the granules it touches.\<close>

definition blk_len :: "Block \<Rightarrow> nat" where
  "blk_len blk = min (blk_Length blk) (length (blk_Data blk))"

definition first_granule :: "'r Target \<Rightarrow> Block \<Rightarrow> nat" where
  "first_granule t blk = blk_Offset blk div t_granularity t"

definition end_granule :: "'r Target \<Rightarrow> Block \<Rightarrow> nat" where
  "end_granule t blk = (blk_Offset blk + blk_len blk + t_granularity t - 1) div t_granularity t"

text \<open>A block that an open target accepts.\<close>

definition acceptable :: "'r Target \<Rightarrow> Block \<Rightarrow> bool" where
  "acceptable t blk \<longleftrightarrow> \<not> t_closed t \<and> 0 < blk_len blk \<and> t_granularity t dvd blk_Offset blk
     \<and> blk_Offset blk + blk_len blk \<le> t_capacity t"

lemma blk_len_code: "(if length (blk_Data blk) < blk_Length blk then length (blk_Data blk) else blk_Length blk) = blk_len blk"
  by (simp add: blk_len_def min_def)

lemma tgt_spans:
  assumes inv: "tgt_inv R t" and a: "acceptable t blk"
  shows "spans blk (blk_len blk) (t_granularity t) (first_granule t blk) (end_granule t blk)"
    "end_granule t blk \<le> bits (t_bm t)" "bits (t_bm t) < 2 ^ 63"
    "restore_errors t blk None (blk_len blk) = None"
    "sub64 (u64 (blk_Offset blk + blk_len blk + t_granularity t)) 1 div t_granularity t = end_granule t blk"
proof -
  let ?g = "t_granularity t" and ?x = "blk_Offset blk + blk_len blk"
  have g: "0 < ?g" and cap: "t_capacity t + ?g \<le> 2 ^ 63" and bits: "bits (t_bm t) = (t_capacity t + ?g - 1) div ?g"
    using inv by (auto simp: tgt_inv_def)
  have x: "?x \<le> t_capacity t" "0 < blk_len blk" "?g dvd blk_Offset blk" using a by (auto simp: acceptable_def)
  have le: "?x + ?g \<le> 2 ^ 63" using x(1) cap by linarith
  show "spans blk (blk_len blk) ?g (first_granule t blk) (end_granule t blk)"
    unfolding spans_def using g x le by (simp add: first_granule_def end_granule_def blk_len_def)
  show "end_granule t blk \<le> bits (t_bm t)"
    unfolding bits end_granule_def using x(1) by (intro div_le_mono) simp
  show "bits (t_bm t) < 2 ^ 63" using inv by (auto simp: tgt_inv_def rm_inv_def)
  have "(2::nat) ^ 63 < 2 ^ 64" by simp
  then have u: "u64 ?x = ?x" "u64 (?x + ?g) = ?x + ?g" using le by (intro u64_small; linarith)+
  show "restore_errors t blk None (blk_len blk) = None"
    using a u(1) by (simp add: restore_errors_def acceptable_def dvd_eq_mod_eq_0)
  show "sub64 (u64 (?x + ?g)) 1 div ?g = end_granule t blk"
    unfolding u(2) end_granule_def using g le \<open>(2::nat) ^ 63 < 2 ^ 64\<close> by (subst sub64_le) auto
qed

text \<open>The two paths of \<open>Restore\<close> for an acceptable block.\<close>

lemma Restore_cases:
  assumes inv: "tgt_inv R t" and a: "acceptable t blk"
  defines "t1 \<equiv> t\<lparr>totalRequested := u64 (totalRequested t + blk_len blk)\<rparr>"
  shows "Restore R fails None t (Some blk) =
     (if isRangeSet R (t_bm t) (first_granule t blk) (end_granule t blk - first_granule t blk)
      then Some (t1\<lparr>totalSkipped := u64 (totalSkipped t + blk_len blk)\<rparr>, 0, None)
      else case restore_loop (end_granule t blk + 1) R fails blk (blk_len blk) (end_granule t blk) (t1, 0) (first_granule t blk) of
        None \<Rightarrow> None
      | Some (t2, written, Some er) \<Rightarrow> Some (t2, written, Some er)
      | Some (t2, written, None) \<Rightarrow>
          Some (t2\<lparr>totalWritten := u64 (totalWritten t2 + written),
                   totalSkipped := u64 (totalSkipped t2 + sub64 (blk_len blk) written)\<rparr>, written, None))"
proof -
  note S = tgt_spans [OF inv a]
  have ne: "\<not> (blk_Length blk = 0 \<or> blk_Data blk = [])" using a by (auto simp: acceptable_def blk_len_def)
  have lt: "first_granule t blk < end_granule t blk" by (rule spansD(4) [OF S(1)])
  have "(2::nat) ^ 63 < 2 ^ 64" by simp
  then have sub: "sub64 (end_granule t blk) (first_granule t blk) = end_granule t blk - first_granule t blk"
    using lt S(2,3) by (intro sub64_le) linarith+
  have nb: "\<not> end_granule t blk > bits (t_bm t)" using S(2) by simp
  show ?thesis
    unfolding Restore_def option.case if_not_P [OF ne] Let_def blk_len_code S(4) S(5) if_not_P [OF nb]
      first_granule_def [symmetric] sub t1_def by simp
qed

definition fresh_bytes :: "'r roaring \<Rightarrow> 'r Target \<Rightarrow> Block \<Rightarrow> byte list" where
  "fresh_bytes R t blk = fresh (restored R (t_bm t)) (blk_Offset blk) (t_granularity t) (blk_Data blk) 0 (blk_len blk)"

lemma Restore_spec:
  assumes ex: "roaring_exact R" and inv: "tgt_inv R t" and a: "acceptable t blk" and i: "inside (first_granule t blk) (end_granule t blk)"
  defines "W \<equiv> fresh_bytes R t blk"
  shows "\<exists>bm. Restore R (\<lambda>_ _. None) None t (Some blk)
       = Some (t\<lparr>t_w := file_put (t_w t) W, t_bm := bm, totalRequested := u64 (totalRequested t + blk_len blk),
                 totalWritten := u64 (totalWritten t + length W),
                 totalSkipped := u64 (totalSkipped t + (blk_len blk - length W))\<rparr>, length W, None)
     \<and> rm_inv R bm \<and> bits bm = bits (t_bm t)
     \<and> restored R bm = restored R (t_bm t) \<union> {first_granule t blk..<end_granule t blk}"
proof -
  note S = tgt_spans [OF inv a]
  let ?a = "first_granule t blk" and ?e = "end_granule t blk" and ?l = "blk_len blk" and ?g = "t_granularity t"
  have rm: "rm_ok R (t_bm t)" and f: "fpos (t_w t) \<le> length (fdata (t_w t))" and tw: "totalWritten t < 2 ^ 64"
    using inv ex by (auto simp: tgt_inv_def)
  have at0: "at blk ?l ?g ?a = 0" using spansD(2) [OF S(1)] by (simp add: at_def)
  have l64: "?l < 2 ^ 64" using spansD(8) [OF S(1)] by simp
  show ?thesis
  proof (cases "isRangeSet R (t_bm t) ?a (?e - ?a)")
    case True
    then have sub: "{?a..<?e} \<subseteq> restored R (t_bm t)" using isRangeSet_inside [OF rm i S(2)] by simp
    have "W = []"
      unfolding W_def fresh_bytes_def
    proof (rule fresh_none, intro allI impI)
      fix j assume "j < blk_len blk"
      then have "?a \<le> (blk_Offset blk + j) div ?g" "(blk_Offset blk + j) div ?g < ?e"
        using at_range [OF S(1), of ?a j ?e] at0 at_end [OF S(1)] by simp_all
      then show "(blk_Offset blk + j) div ?g \<in> restored R (t_bm t)" using sub by auto
    qed
    then show ?thesis
      unfolding Restore_cases [OF inv a] if_P [OF True] using sub rm f tw
      by (intro exI [of _ "t_bm t"]) (auto simp: file_put_Nil rm_ok_def)
  next
    case False
    let ?t1 = "t\<lparr>totalRequested := u64 (totalRequested t + ?l)\<rparr>"
    obtain bm where bm: "restore_loop (?e + 1) R (\<lambda>_ _. None) blk ?l ?e (?t1, 0) ?a
        = Some (?t1\<lparr>t_w := file_put (t_w ?t1) W, t_bm := bm\<rparr>, 0 + length W, None)"
      "rm_inv R bm" "bits bm = bits (t_bm t)" "restored R bm = restored R (t_bm t) \<union> {?a..<?e}"
      using restore_loop_spec [OF S(1) i, of ?t1 R ?a "?e + 1" 0 W] rm S(2) f spansD(4) [OF S(1)] at0
      by (auto simp: W_def fresh_bytes_def rm_ok_def)
    have "length W \<le> ?l" unfolding W_def fresh_bytes_def using fresh_length_le [of _ _ _ _ 0 ?l] by simp
    then have "sub64 ?l (length W) = ?l - length W" using l64 by (rule sub64_le)
    then show ?thesis
      unfolding Restore_cases [OF inv a] if_not_P [OF False] bm(1) using bm(2-4)
      by (intro exI [of _ bm]) simp
  qed
qed

section \<open>Properties\<close>

definition demo_target :: "nat list Target" where
  "demo_target = \<lparr>t_path = ''/dev/sdb'', t_granularity = 4, t_capacity = 22, t_syncOnClose = True,
     t_w = \<lparr>fdata = replicate 22 0, fpos = 0\<rparr>, t_bm = newBitmap 6, t_closed = False,
     totalRequested = 0, totalWritten = 0, totalSkipped = 0\<rparr>"

definition demo_block :: Block where
  "demo_block = \<lparr>blk_Offset = 8, blk_Length = 6, blk_Data = [1, 2, 3, 4, 5, 6]\<rparr>"

lemma demo_target_inv: "tgt_inv list_roaring demo_target"
  by (simp add: tgt_inv_def demo_target_def rm_inv_newBitmap newBitmap_def [of 6, THEN arg_cong, of bits])

lemma demo_acceptable: "acceptable demo_target demo_block"
  "first_granule demo_target demo_block = 2" "end_granule demo_target demo_block = 4"
  by (simp_all add: acceptable_def demo_target_def demo_block_def blk_len_def first_granule_def end_granule_def)

lemma demo_inside: "inside 2 4"
  by (simp add: inside_def segSize_def)

text \<open>
  C14.  With a compressed bitmap library whose \<open>NextAbsentValue\<close> is right, \<open>Restore\<close> of a block that
  is aligned, within the capacity and does not reach a multiple of \<open>2^32\<close> granules always returns.
  It writes exactly the bytes of the block whose granules were not restored before, in order, and
  marks every granule of the block; the three counters account for the written and the skipped
  bytes, and the target's invariant holds again.
\<close>

theorem restore_writes_fresh:
  assumes "roaring_exact R" "tgt_inv R t" "acceptable t blk" "inside (first_granule t blk) (end_granule t blk)"
  shows "\<exists>t' W. Restore R (\<lambda>_ _. None) None t (Some blk) = Some (t', length W, None)
     \<and> W = map (\<lambda>i. blk_Data blk ! i)
             (filter (\<lambda>i. (blk_Offset blk + i) div t_granularity t \<notin> restored R (t_bm t)) [0..<blk_len blk])
     \<and> t_w t' = file_put (t_w t) W
     \<and> restored R (t_bm t') = restored R (t_bm t) \<union> {first_granule t blk..<end_granule t blk}
     \<and> Stats t' = (u64 (totalRequested t + blk_len blk), u64 (totalWritten t + length W),
                    u64 (totalSkipped t + (blk_len blk - length W)))
     \<and> tgt_inv R t'"
proof -
  obtain bm where bm: "Restore R (\<lambda>_ _. None) None t (Some blk)
       = Some (t\<lparr>t_w := file_put (t_w t) (fresh_bytes R t blk), t_bm := bm,
                 totalRequested := u64 (totalRequested t + blk_len blk),
                 totalWritten := u64 (totalWritten t + length (fresh_bytes R t blk)),
                 totalSkipped := u64 (totalSkipped t + (blk_len blk - length (fresh_bytes R t blk)))\<rparr>,
               length (fresh_bytes R t blk), None)"
    "rm_inv R bm" "bits bm = bits (t_bm t)"
    "restored R bm = restored R (t_bm t) \<union> {first_granule t blk..<end_granule t blk}"
    using Restore_spec [OF assms] by blast
  show ?thesis
    by (rule exI, rule exI [of _ "fresh_bytes R t blk"], rule conjI, rule bm(1))
      (use bm(2-4) assms(2) in \<open>simp add: fresh_bytes_def fresh_def Stats_def tgt_inv_def file_put_def\<close>)
qed

theorem restore_writes_fresh_witness:
  "\<exists>t'. Restore list_roaring (\<lambda>_ _. None) None demo_target (Some demo_block) = Some (t', 6, None)
     \<and> restored list_roaring (t_bm t') = {2, 3} \<and> tgt_inv list_roaring t'"
proof -
  have r: "restored list_roaring (t_bm demo_target) = {}" by (simp add: restored_def demo_target_def newBitmap_def)
  have i: "inside (first_granule demo_target demo_block) (end_granule demo_target demo_block)"
    by (simp add: demo_acceptable demo_inside)
  obtain t' W where W: "Restore list_roaring (\<lambda>_ _. None) None demo_target (Some demo_block) = Some (t', length W, None)"
    "W = map (\<lambda>i. blk_Data demo_block ! i) (filter (\<lambda>i. (blk_Offset demo_block + i) div t_granularity demo_target
       \<notin> restored list_roaring (t_bm demo_target)) [0..<blk_len demo_block])"
    "restored list_roaring (t_bm t') = restored list_roaring (t_bm demo_target)
       \<union> {first_granule demo_target demo_block..<end_granule demo_target demo_block}" "tgt_inv list_roaring t'"
    using restore_writes_fresh [OF list_roaring_exact demo_target_inv demo_acceptable(1) i] by blast
  have "length W = 6" unfolding W(2) r by (simp add: demo_block_def blk_len_def)
  moreover have "restored list_roaring (t_bm t') = {2, 3}" unfolding W(3) r demo_acceptable(2,3) by auto
  ultimately show ?thesis using W(1,4) by auto
qed

text \<open>
   Restoring the same block again writes nothing: the file and the bitmap stay as they are, the
  whole block counts as skipped.
\<close>

lemma restore_idempotent:
  assumes ex: "roaring_exact R" and "tgt_inv R t" "acceptable t blk" "inside (first_granule t blk) (end_granule t blk)"
    and r: "Restore R (\<lambda>_ _. None) None t (Some blk) = Some (t', n, None)"
  shows "Restore R (\<lambda>_ _. None) None t' (Some blk)
     = Some (t'\<lparr>totalRequested := u64 (totalRequested t' + blk_len blk),
                totalSkipped := u64 (totalSkipped t' + blk_len blk)\<rparr>, 0, None)"
proof -
  obtain bm where t': "t' = t\<lparr>t_w := file_put (t_w t) (fresh_bytes R t blk), t_bm := bm,
                 totalRequested := u64 (totalRequested t + blk_len blk),
                 totalWritten := u64 (totalWritten t + length (fresh_bytes R t blk)),
                 totalSkipped := u64 (totalSkipped t + (blk_len blk - length (fresh_bytes R t blk)))\<rparr>"
    and bm: "rm_inv R bm" "bits bm = bits (t_bm t)"
      "restored R bm = restored R (t_bm t) \<union> {first_granule t blk..<end_granule t blk}"
    using Restore_spec [OF assms(1-4)] unfolding r by blast
  have inv': "tgt_inv R t'" using assms(2) bm(1,2) by (simp add: t' tgt_inv_def file_put_def)
  have a': "acceptable t' blk" using assms(3) by (simp add: t' acceptable_def)
  have g: "first_granule t' blk = first_granule t blk" "end_granule t' blk = end_granule t blk"
    by (simp_all add: t' first_granule_def end_granule_def)
  have "rm_ok R (t_bm t')" "{first_granule t' blk..<end_granule t' blk} \<subseteq> restored R (t_bm t')"
    using bm ex unfolding g by (simp_all add: t' rm_ok_def)
  then have "isRangeSet R (t_bm t') (first_granule t' blk) (end_granule t' blk - first_granule t' blk)"
    using isRangeSet_inside [OF _ assms(4), of R "t_bm t'"] tgt_spans(2) [OF inv' a'] unfolding g by blast
  then show ?thesis unfolding Restore_cases [OF inv' a'] by simp
qed

lemma restore_idempotent_example:
  "\<exists>t' t''. Restore list_roaring (\<lambda>_ _. None) None demo_target (Some demo_block) = Some (t', 6, None)
     \<and> Restore list_roaring (\<lambda>_ _. None) None t' (Some demo_block) = Some (t'', 0, None) \<and> t_w t'' = t_w t'"
proof -
  have r: "restored list_roaring (t_bm demo_target) = {}" by (simp add: restored_def demo_target_def newBitmap_def)
  have i: "inside (first_granule demo_target demo_block) (end_granule demo_target demo_block)"
    by (simp add: demo_acceptable demo_inside)
  have "length (fresh_bytes list_roaring demo_target demo_block) = 6"
    by (simp add: fresh_bytes_def fresh_def r blk_len_def demo_block_def)
  then obtain t' where t': "Restore list_roaring (\<lambda>_ _. None) None demo_target (Some demo_block) = Some (t', 6, None)"
    using Restore_spec [OF list_roaring_exact demo_target_inv demo_acceptable(1) i] by auto
  with restore_idempotent [OF list_roaring_exact demo_target_inv demo_acceptable(1) i t'] show ?thesis by auto
qed

text \<open>
  When the operating system refuses the write, \<open>Restore\<close> reports the error and marks nothing
  as restored, so a later attempt writes the granules again; but the request was already counted
  and neither the written nor the skipped bytes are, so the counters no longer add up.
\<close>

lemma restore_write_failure:
  assumes ex: "roaring_exact R" and inv: "tgt_inv R t" and a: "acceptable t blk" and i: "inside (first_granule t blk) (end_granule t blk)"
    and new: "\<not> {first_granule t blk..<end_granule t blk} \<subseteq> restored R (t_bm t)"
  shows "\<exists>t' x. Restore R (\<lambda>_ _. Some (n, er)) None t (Some blk)
       = Some (t', 0, Some (Errorf ''restore: write %s at %d'' [FErr er, FStr (t_path t), FInt x]))
     \<and> t_bm t' = t_bm t
     \<and> Stats t' = (u64 (totalRequested t + blk_len blk), totalWritten t, totalSkipped t)"
proof -
  note S = tgt_spans [OF inv a]
  let ?a = "first_granule t blk" and ?e = "end_granule t blk" and ?l = "blk_len blk"
  let ?t1 = "t\<lparr>totalRequested := u64 (totalRequested t + ?l)\<rparr>"
  have rm: "rm_ok R (t_bm t)" using inv ex by (simp add: tgt_inv_def rm_ok_def)
  have lt: "?a < ?e" by (rule spansD(4) [OF S(1)])
  define c where "c = nextClear R (t_bm t) ?a ?e"
  define s where "s = nextSet R (t_bm t) c ?e"
  have C: "first_or (\<lambda>n. n \<notin> restored R (t_bm t)) ?a ?e c" unfolding c_def by (rule nextClear_inside [OF rm i])
  have ce: "c < ?e" using C new by (fastforce simp: first_or_def)
  have "inside c ?e" using inside_mono [OF i _ ce] C by (simp add: first_or_def)
  then have "first_or (\<lambda>n. n \<in> restored R (t_bm t)) c ?e s" unfolding s_def by (rule nextSet_inside [OF rm])
  then have cs: "c < s" "s \<le> ?e" using C ce by (auto simp: first_or_def le_less)
  have not_set: "\<not> isRangeSet R (t_bm t) ?a (?e - ?a)" using isRangeSet_inside [OF rm i S(2)] new by simp
  have ac: "?a \<le> c" using C by (simp add: first_or_def)
  obtain f x where "restore_round R (\<lambda>_ _. Some (n, er)) blk ?l c s (?t1, 0)
      = (?t1\<lparr>t_w := f\<rparr>, 0, Some (Errorf ''restore: write %s at %d'' [FErr er, FStr (t_path t), FInt x]))"
    using restore_round_write(1) [OF S(1) _ ac cs, of ?t1] by (simp add: file_Write_def)
  then have "restore_loop (?e + 1) R (\<lambda>_ _. Some (n, er)) blk ?l ?e (?t1, 0) ?a
      = Some (?t1\<lparr>t_w := f\<rparr>, 0, Some (Errorf ''restore: write %s at %d'' [FErr er, FStr (t_path t), FInt x]))"
    using lt ce by (simp add: Let_def flip: c_def s_def)
  then show ?thesis unfolding Restore_cases [OF inv a] if_not_P [OF not_set] by (simp add: Stats_def)
qed

lemma restore_write_failure_example:
  "\<exists>t' er. Restore list_roaring (\<lambda>_ _. Some (3, Sentinel EOF_err)) None demo_target (Some demo_block) = Some (t', 0, Some er)
     \<and> Stats t' = (6, 0, 0)"
proof -
  have i: "inside (first_granule demo_target demo_block) (end_granule demo_target demo_block)"
    by (simp add: demo_acceptable demo_inside)
  have "restored list_roaring (t_bm demo_target) = {}" by (simp add: restored_def demo_target_def newBitmap_def)
  then have "\<not> {first_granule demo_target demo_block..<end_granule demo_target demo_block}
      \<subseteq> restored list_roaring (t_bm demo_target)" by (simp add: demo_acceptable)
  from restore_write_failure [OF list_roaring_exact demo_target_inv demo_acceptable(1) i this, of 3 "Sentinel EOF_err"]
  show ?thesis by (auto simp: demo_target_def blk_len_def demo_block_def)
qed

text \<open>
  C35.  The upper bound of a range that ends at a multiple of \<open>2^32\<close> granules wraps to zero.  So once
  any granule of a segment was restored, a block that ends at the end of the segment is taken for
  restored: \<open>Restore\<close> reports success, writes nothing and counts the whole block as skipped.
\<close>

theorem restore_drops_boundary_block:
  assumes inv: "tgt_inv R t" and a: "acceptable t blk"
    and seg: "segSize dvd end_granule t blk" "(end_granule t blk - 1) div segSize = first_granule t blk div segSize"
      "map_of (rsegs (t_bm t)) (first_granule t blk div segSize) \<noteq> None"
  shows "Restore R fails None t (Some blk)
     = Some (t\<lparr>totalRequested := u64 (totalRequested t + blk_len blk),
               totalSkipped := u64 (totalSkipped t + blk_len blk)\<rparr>, 0, None)"
proof -
  note S = tgt_spans [OF inv a]
  let ?a = "first_granule t blk" and ?e = "end_granule t blk"
  let ?k = "?a div segSize"
  have lt: "?a < ?e" by (rule spansD(4) [OF S(1)])
  obtain s where s: "map_of (rsegs (t_bm t)) ?k = Some s" using seg(3) by auto
  have e63: "?e < 2 ^ 63" using S(2,3) by linarith
  have e64: "?e < 2 ^ 64" using e63 by simp
  obtain q where q: "?e = segSize * q" using seg(1) by (rule dvdE)
  have m: "(?e - 1) mod segSize = segSize - 1"
  proof -
    have "0 < q" using lt q by (cases q) auto
    then obtain p where "q = Suc p" by (cases q) auto
    then have "?e - 1 = (segSize - 1) + segSize * p" unfolding q using segSize_pos by (simp add: Suc_leI)
    then show ?thesis by simp
  qed
  have ek: "?e = ?k * segSize + segSize"
    using div_mult_mod_eq [of "?e - 1" segSize, unfolded m seg(2)] lt segSize_pos by linarith
  have up: "seg_up ?k ?e = 0"
  proof -
    have "seg_end ?k = ?e" unfolding seg_end_def ek [symmetric] using e64 by simp
    then show ?thesis using lt e64 m by (simp add: seg_up_def segmentOffset_def u32_seg)
  qed
  have "isRangeSet R (t_bm t) ?a (?e - ?a)"
    using lt S(2,3) e63 e64 seg(2) s
    by (simp add: isRangeSet_def Let_def range_set_from.simps [of _ _ _ _ ?k ?k]
        range_set_from.simps [of _ _ _ _ ?k "Suc ?k"] up)
  then show ?thesis unfolding Restore_cases [OF inv a] by simp
qed

definition big_target :: "nat list Target" where
  "big_target = demo_target\<lparr>t_capacity := 2 ^ 35, t_bm := \<lparr>bits = 2 ^ 33, rsegs = [(0, [0])]\<rparr>\<rparr>"

definition last_block :: Block where
  "last_block = \<lparr>blk_Offset = (2 ^ 32 - 1) * 4, blk_Length = 4, blk_Data = [1, 2, 3, 4]\<rparr>"

lemma big_restored: "restored list_roaring (t_bm big_target) = {0}"
proof -
  have "n \<in> restored list_roaring (t_bm big_target) \<longleftrightarrow> n = 0" for n
  proof (cases "n div segSize = 0")
    case True
    then have "n mod segSize = n" using div_mult_mod_eq [of n segSize] by simp
    with True show ?thesis by (simp add: restored_def seg_mem_def big_target_def list_roaring_def)
  next
    case False
    moreover from this have "n \<noteq> 0" by (cases "n = 0") auto
    ultimately show ?thesis by (simp add: restored_def seg_mem_def big_target_def)
  qed
  then show ?thesis by blast
qed

lemma big_target_inv: "tgt_inv list_roaring big_target"
proof -
  have "rm_inv list_roaring (t_bm big_target)"
    unfolding rm_inv_def big_restored by (simp add: big_target_def segSize_def)
  then show ?thesis by (simp add: tgt_inv_def big_target_def demo_target_def)
qed

theorem restore_drops_boundary_block_witness:
  "\<exists>t'. Restore list_roaring (\<lambda>_ _. None) None big_target (Some last_block) = Some (t', 0, None)
     \<and> 2 ^ 32 - 1 \<notin> restored list_roaring (t_bm big_target)"
proof -
  have a: "acceptable big_target last_block"
    by (simp add: acceptable_def big_target_def demo_target_def last_block_def blk_len_def)
  have g: "first_granule big_target last_block = 2 ^ 32 - 1" "end_granule big_target last_block = 2 ^ 32"
    by (simp_all add: first_granule_def end_granule_def big_target_def demo_target_def last_block_def blk_len_def)
  have "map_of (rsegs (t_bm big_target)) 0 \<noteq> None" by (simp add: big_target_def)
  then show ?thesis
    using restore_drops_boundary_block [OF big_target_inv a, of "\<lambda>_ _. None"] unfolding g big_restored
    by (simp add: segSize_def)
qed

text \<open>
  C34.  The target is written sequentially: with a library that is right, the first block restored on
  a target just opened lands at the beginning of the file, whatever its \<open>Offset\<close> is.
\<close>

theorem restore_ignores_offset:
  assumes ex: "roaring_exact R" and inv: "tgt_inv R t" and a: "acceptable t blk" and i: "inside (first_granule t blk) (end_granule t blk)"
    and new: "restored R (t_bm t) = {}" "fpos (t_w t) = 0"
  shows "\<exists>t'. Restore R (\<lambda>_ _. None) None t (Some blk) = Some (t', blk_len blk, None)
     \<and> fdata (t_w t') = take (blk_len blk) (blk_Data blk) @ drop (blk_len blk) (fdata (t_w t))"
proof -
  have W: "fresh_bytes R t blk = take (blk_len blk) (blk_Data blk)"
    unfolding fresh_bytes_def new(1) by (subst fresh_all) (simp_all add: blk_len_def)
  have l: "length (take (blk_len blk) (blk_Data blk)) = blk_len blk" by (simp add: blk_len_def)
  show ?thesis using Restore_spec [OF ex inv a i] unfolding W l
    by (auto simp: file_put_def new(2) blk_len_def min_def)
qed

theorem restore_ignores_offset_witness:
  "\<exists>t'. Restore list_roaring (\<lambda>_ _. None) None demo_target (Some demo_block) = Some (t', 6, None)
     \<and> blk_Offset demo_block = 8 \<and> fdata (t_w t') = [1, 2, 3, 4, 5, 6] @ replicate 16 0"
proof -
  have i: "inside (first_granule demo_target demo_block) (end_granule demo_target demo_block)"
    by (simp add: demo_acceptable demo_inside)
  have "restored list_roaring (t_bm demo_target) = {}" "fpos (t_w demo_target) = 0"
    by (simp_all add: restored_def demo_target_def newBitmap_def)
  note * = restore_ignores_offset [OF list_roaring_exact demo_target_inv demo_acceptable(1) i this]
  have "blk_len demo_block = 6" "take 6 (blk_Data demo_block) = [1, 2, 3, 4, 5, 6]" "blk_Offset demo_block = 8"
    "drop 6 (fdata (t_w demo_target)) = replicate 16 0"
    by (simp_all add: blk_len_def demo_block_def demo_target_def)
  with * show ?thesis by simp
qed

text \<open>
  A target opened with options has the invariant and nothing restored yet; its granularity is
  512 unless the options say otherwise, and its capacity is the options' or the detected one.
\<close>

lemma open_establishes_invariant:
  assumes "OpenPath getFileSize openFile path (Some op) = Some (Inr t)"
    and "openFile path = Inr f" "fpos f = 0" "t_capacity t + t_granularity t \<le> 2 ^ 63"
  shows "tgt_inv R t \<and> \<not> t_closed t \<and> restored R (t_bm t) = {} \<and> Stats t = (0, 0, 0) \<and> 0 < t_capacity t
     \<and> t_granularity t = (if opt_Granularity op = 0 then 512 else opt_Granularity op)
     \<and> (if opt_Capacity op = 0 then getFileSize path = Inr (t_capacity t) else t_capacity t = opt_Capacity op)"
proof -
  let ?g = "if opt_Granularity op = 0 then DefaultGranularity else opt_Granularity op"
  have g: "0 < ?g" by (simp add: DefaultGranularity_def)
  have t: "t = \<lparr>t_path = path, t_granularity = ?g, t_capacity = t_capacity t,
       t_syncOnClose = (\<not> opt_NoSyncOnClose op), t_w = f, t_bm = newBitmap (sub64 (u64 (t_capacity t + ?g)) 1 div ?g),
       t_closed = False, totalRequested = 0, totalWritten = 0, totalSkipped = 0\<rparr>"
    and cap: "t_capacity t \<noteq> 0"
      "if opt_Capacity op = 0 then getFileSize path = Inr (t_capacity t) else t_capacity t = opt_Capacity op"
    using assms(1,2) by (auto simp: OpenPath_def Let_def bindR_Inr_iff split: if_splits sum.splits)
  have gt: "t_granularity t = ?g" by (subst t) simp
  have le: "t_capacity t + ?g \<le> 2 ^ 63" using assms(4) unfolding gt .
  then have small: "t_capacity t + ?g < 2 ^ 64" by (rule le_less_trans) simp
  define n where "n = (t_capacity t + ?g - 1) div ?g"
  have bm: "t_bm t = newBitmap n"
    by (subst t) (use small g in \<open>simp add: n_def\<close>)
  have "n \<le> t_capacity t + ?g - 1" unfolding n_def by (rule div_le_dividend)
  then have "n < 2 ^ 63" using le g by linarith
  then have "rm_inv R (t_bm t)" unfolding bm by (rule rm_inv_newBitmap)
  moreover have "bits (t_bm t) = n" unfolding bm by (simp add: newBitmap_def)
  moreover have "t_w t = f" "t_closed t = False" "totalRequested t = 0" "totalWritten t = 0" "totalSkipped t = 0"
    by (subst t, simp)+
  moreover have "restored R (t_bm t) = {}" unfolding bm by (simp add: restored_def newBitmap_def)
  ultimately show ?thesis
    using g le cap assms(3) unfolding tgt_inv_def gt n_def by (simp add: Stats_def DefaultGranularity_def)
qed

lemma open_establishes_invariant_example:
  "\<exists>t. OpenPath (\<lambda>_. Inr 1024) (\<lambda>_. Inr \<lparr>fdata = replicate 1024 0, fpos = 0\<rparr>) ''/dev/sdb''
         (Some \<lparr>opt_Granularity = 0, opt_Capacity = 0, opt_NoSyncOnClose = False\<rparr>) = Some (Inr t)
     \<and> tgt_inv list_roaring t \<and> bits (t_bm t) = 2"
proof -
  define t :: "nat list Target" where
    "t = \<lparr>t_path = ''/dev/sdb'', t_granularity = 512, t_capacity = 1024, t_syncOnClose = True,
         t_w = \<lparr>fdata = replicate 1024 0, fpos = 0\<rparr>, t_bm = newBitmap 2, t_closed = False,
         totalRequested = 0, totalWritten = 0, totalSkipped = 0\<rparr>"
  have o: "OpenPath (\<lambda>_. Inr 1024) (\<lambda>_. Inr \<lparr>fdata = replicate 1024 0, fpos = 0\<rparr>) ''/dev/sdb''
         (Some \<lparr>opt_Granularity = 0, opt_Capacity = 0, opt_NoSyncOnClose = False\<rparr>) = Some (Inr t)"
    by (simp add: OpenPath_def DefaultGranularity_def t_def)
  have "t_capacity t + t_granularity t \<le> 2 ^ 63" by (simp add: t_def)
  from open_establishes_invariant [OF o refl _ this]
  show ?thesis using o by (auto simp: t_def newBitmap_def)
qed

end
