(* ===== verification/Region.thy ===== *)
theory Region
  imports Mirror
begin

text \<open>
  Reading a disk.  The first part has what the parsers of the on-disk formats share: computations
  that return a value, an error or panic (\<open>go\<close>), little-endian integers, and the contract of
  \<open>io.ReaderAt\<close> as a locale.  The second part models \<open>FsRegionReader\<close> of
  \<^verbatim>\<open>src/extend/fs.go\<close>, the reader all parsers use, over \<open>io.SectionReader\<close> and \<open>os.File\<close>.
\<close>

section \<open>Results\<close>

datatype 'a go = Ret 'a | Fail gerror | Panics

definition bindG :: "'a go \<Rightarrow> ('a \<Rightarrow> 'b go) \<Rightarrow> 'b go" where
  "bindG m f = (case m of Ret x \<Rightarrow> f x | Fail e \<Rightarrow> Fail e | Panics \<Rightarrow> Panics)"

text \<open>An error that is wrapped by \<open>fmt.Errorf(format, args, err)\<close> on the way out.\<close>

definition wrapG :: "string \<Rightarrow> farg list \<Rightarrow> 'a go \<Rightarrow> 'a go" where
  "wrapG s args m = (case m of Fail e \<Rightarrow> Fail (Errorf s (args @ [FErr e])) | r \<Rightarrow> r)"

lemma bindG_simps [simp]: "bindG (Ret x) f = f x" "bindG (Fail e) f = Fail e" "bindG Panics f = Panics"
  by (simp_all add: bindG_def)

lemma bindG_Ret: "bindG m f = Ret y \<longleftrightarrow> (\<exists>x. m = Ret x \<and> f x = Ret y)"
  by (cases m) auto

lemma wrapG_simps [simp]: "wrapG s args (Ret x) = Ret x" "wrapG s args m = Ret y \<longleftrightarrow> m = Ret y"
  by (cases m; simp add: wrapG_def)+

section \<open>Little-endian integers\<close>

fun le :: "byte list \<Rightarrow> nat" where
  "le [] = 0"
| "le (b # bs) = unat b + 256 * le bs"

definition le_at :: "nat \<Rightarrow> byte list \<Rightarrow> nat \<Rightarrow> nat" where
  "le_at n buf off = le (take n (drop off buf))"

lemma le_bound: "le bs < 256 ^ length bs"
proof (induction bs)
  case (Cons b bs)
  have "unat b < 256" using unsigned_less [of b] by simp
  with Cons show ?case by simp
qed simp

lemma le_replicate: "le (replicate n 0) = 0"
  by (induction n) simp_all

lemma le_at_less: "le_at n buf off < 256 ^ n"
proof -
  have "le_at n buf off < 256 ^ length (take n (drop off buf))" unfolding le_at_def by (rule le_bound)
  also have "\<dots> \<le> 256 ^ n" by (rule power_increasing) simp_all
  finally show ?thesis .
qed

section \<open>Readers\<close>

text \<open>
  The contract of \<open>io.ReaderAt\<close>: at most the requested number of bytes, and an error whenever
  there are fewer.  \<open>read_exact\<close> is the idiom of the parsers: a buffer of the requested length or
  an error.
\<close>

definition read_exact :: "ReaderAt \<Rightarrow> int \<Rightarrow> nat \<Rightarrow> byte list go" where
  "read_exact rd off n =
     (case rd off n of (bs, Some e) \<Rightarrow> Fail e | (bs, None) \<Rightarrow> Ret (bs @ replicate (n - length bs) 0))"

locale reader_at =
  fixes rd :: ReaderAt
  assumes at_most: "length (fst (rd off n)) \<le> n"
    and short_fails: "length (fst (rd off n)) < n \<Longrightarrow> snd (rd off n) \<noteq> None"
begin

lemma read_exact_ok:
  assumes "read_exact rd off n = Ret bs"
  shows "length bs = n" "rd off n = (bs, None)"
proof -
  obtain xs e where r: "rd off n = (xs, e)" by (cases "rd off n")
  have "e = None" "bs = xs @ replicate (n - length xs) 0"
    using assms by (auto simp: read_exact_def r split: option.splits)
  moreover have "length xs = n" using at_most [of off n] short_fails [of off n] r \<open>e = None\<close> by (metis fst_conv snd_conv le_less)
  ultimately show "length bs = n" "rd off n = (bs, None)" using r by auto
qed

end

section \<open>The region reader\<close>

record FsRegionReader =
  fr_path :: string
  fr_offset :: int
  fr_size :: int
  fr_fileSize :: int
  fr_file :: "byte list"
  fr_open :: bool
  sr_off :: int

text \<open>\<open>io.SeekStart\<close>, \<open>io.SeekCurrent\<close>, \<open>io.SeekEnd\<close>.\<close>

datatype whence = SeekStart | SeekCurrent | SeekEnd

definition NewFsRegionReader ::
    "(string \<Rightarrow> nat result) \<Rightarrow> (string \<Rightarrow> byte list result) \<Rightarrow> string \<Rightarrow> int \<Rightarrow> int \<Rightarrow> FsRegionReader result" where
  "NewFsRegionReader fileSize openFile path offset size' =
     (if offset < 0 \<or> size' \<le> 0
      then Inl (Errorf ''invalid offset/size: offset=%d size=%d'' [FInt offset, FInt size'])
      else case fileSize path of
        Inl e \<Rightarrow> Inl (Errorf ''get device size failed: %v'' [FErr e])
      | Inr deviceSize \<Rightarrow>
          if deviceSize = 0 then Inl (Errorf ''invalid device size: %d'' [FInt (int deviceSize)])
          else if u64 (nat offset + nat size') > deviceSize
          then Inl (Errorf ''region out of range: offset=%d size=%d deviceSize=%d''
                     [FInt offset, FInt size', FInt (int deviceSize)])
          else case openFile path of
            Inl e \<Rightarrow> Inl (Errorf ''open device failed: %v'' [FErr e])
          | Inr f \<Rightarrow>
              Inr \<lparr>fr_path = path, fr_offset = offset, fr_size = size', fr_fileSize = i64 (int deviceSize),
                   fr_file = f, fr_open = True, sr_off = offset\<rparr>)"

definition ErrClosed :: gerror where
  "ErrClosed = Errorf ''file already closed'' []"

text \<open>\<open>os.File.ReadAt\<close>.\<close>

definition file_ReadAt :: "FsRegionReader \<Rightarrow> ReaderAt" where
  "file_ReadAt r off n =
     (if \<not> fr_open r then ([], Some ErrClosed)
      else if off < 0 then ([], Some (Errorf ''negative offset'' []))
      else read_bytes (fr_file r) off n)"

definition eof_unless :: "byte list \<times> gerror option \<Rightarrow> byte list \<times> gerror option" where
  "eof_unless = (\<lambda>(bs, e). (bs, if e = None then Some (Sentinel EOF_err) else e))"

text \<open>\<open>FsRegionReader.ReadAt\<close>, which is \<open>io.SectionReader.ReadAt\<close>.\<close>

definition fr_ReadAt :: "FsRegionReader \<Rightarrow> ReaderAt" where
  "fr_ReadAt r off n =
     (if off < 0 \<or> off \<ge> fr_size r then ([], Some (Sentinel EOF_err))
      else let a = off + fr_offset r; mx = fr_offset r + fr_size r - a
           in if int n > mx then eof_unless (file_ReadAt r a (nat mx)) else file_ReadAt r a n)"

definition fr_Read :: "FsRegionReader \<Rightarrow> nat \<Rightarrow> FsRegionReader \<times> byte list \<times> gerror option" where
  "fr_Read r n =
     (let limit = fr_offset r + fr_size r in
      if sr_off r \<ge> limit then (r, [], Some (Sentinel EOF_err))
      else case file_ReadAt r (sr_off r) (nat (min (int n) (limit - sr_off r))) of
             (bs, e) \<Rightarrow> (r\<lparr>sr_off := sr_off r + int (length bs)\<rparr>, bs, e))"

text \<open>\<open>io.SectionReader.Seek\<close>: positions are absolute inside, relative to the section outside.\<close>

definition section_Seek :: "FsRegionReader \<Rightarrow> int \<Rightarrow> whence \<Rightarrow> FsRegionReader \<times> int result" where
  "section_Seek r off w =
     (let a = (case w of SeekStart \<Rightarrow> off + fr_offset r
               | SeekCurrent \<Rightarrow> off + sr_off r
               | SeekEnd \<Rightarrow> off + (fr_offset r + fr_size r))
      in if a < fr_offset r then (r, Inl (Errorf ''Seek: invalid offset'' []))
         else (r\<lparr>sr_off := a\<rparr>, Inr (a - fr_offset r)))"

definition fr_Seek :: "FsRegionReader \<Rightarrow> int \<Rightarrow> whence \<Rightarrow> FsRegionReader \<times> int result" where
  "fr_Seek r off w =
     section_Seek r
       (case w of SeekStart \<Rightarrow> off + fr_offset r
        | SeekEnd \<Rightarrow> off + (fr_fileSize r - fr_size r)
        | SeekCurrent \<Rightarrow> off) w"

definition fr_Close :: "FsRegionReader \<Rightarrow> FsRegionReader \<times> gerror option" where
  "fr_Close r = (if fr_open r then (r\<lparr>fr_open := False\<rparr>, None) else (r, Some ErrClosed))"

section \<open>The reader stays in its region\<close>

definition region :: "FsRegionReader \<Rightarrow> byte list" where
  "region r = take (nat (fr_size r)) (drop (nat (fr_offset r)) (fr_file r))"

definition region_ok :: "FsRegionReader \<Rightarrow> bool" where
  "region_ok r \<longleftrightarrow> 0 \<le> fr_offset r \<and> 0 < fr_size r \<and> fr_offset r + fr_size r \<le> int (length (fr_file r)) \<and> fr_open r"

lemma region_length: "region_ok r \<Longrightarrow> int (length (region r)) = fr_size r"
  by (auto simp: region_def region_ok_def min_def)

lemma take_drop_region:
  assumes "region_ok r" "0 \<le> off" "off + int n \<le> fr_size r"
  shows "take n (drop (nat (off + fr_offset r)) (fr_file r)) = take n (drop (nat off) (region r))"
proof -
  have o: "nat (off + fr_offset r) = nat off + nat (fr_offset r)" "nat (fr_size r) - nat off \<ge> n"
    using assms by (auto simp: region_ok_def nat_add_distrib)
  show ?thesis unfolding region_def using o by (simp add: drop_take min_absorb1)
qed

lemma fr_ReadAt_region:
  assumes ok: "region_ok r" and off: "0 \<le> off" and n: "0 < n"
  shows "fr_ReadAt r off n = read_bytes (region r) off n"
proof (cases "off \<ge> fr_size r")
  case True
  then have "drop (nat off) (region r) = []" using region_length [OF ok] off by simp
  then show ?thesis using True n by (simp add: fr_ReadAt_def read_bytes_def)
next
  case False
  have c: "\<not> (off < 0 \<or> off \<ge> fr_size r)" using off False by simp
  have f: "file_ReadAt r (off + fr_offset r) m = read_bytes (fr_file r) (off + fr_offset r) m" for m
    using ok off by (simp add: file_ReadAt_def region_ok_def)
  have len: "length (take m (drop (nat (off + fr_offset r)) (fr_file r))) = m" if "int m \<le> fr_size r - off" for m
    using that ok off by (auto simp: region_ok_def)
  show ?thesis
  proof (cases "int n > fr_size r - off")
    case True
    let ?m = "nat (fr_size r - off)"
    have m: "int ?m = fr_size r - off" using False by simp
    have "take n (drop (nat off) (region r)) = take ?m (drop (nat off) (region r))"
      using True m region_length [OF ok] off by (simp add: take_all_iff)
    moreover have "take ?m (drop (nat (off + fr_offset r)) (fr_file r)) = take ?m (drop (nat off) (region r))"
      using take_drop_region [OF ok off, of ?m] m by simp
    moreover have "?m < n" using True m by linarith
    moreover from this have "length (take n (drop (nat off) (region r))) < n" using region_length [OF ok] off m by simp
    moreover have "file_ReadAt r (off + fr_offset r) ?m = (take ?m (drop (nat (off + fr_offset r)) (fr_file r)), None)"
      unfolding f using len [of ?m] m by (simp only: read_bytes_def Let_def) simp
    moreover have "int n > fr_offset r + fr_size r - (off + fr_offset r)" "fr_offset r + fr_size r - (off + fr_offset r) = fr_size r - off"
      using True by simp_all
    ultimately show ?thesis
      unfolding fr_ReadAt_def if_not_P [OF c] Let_def by (simp only: if_True eof_unless_def prod.case read_bytes_def Let_def simp_thms)
  next
    case F: False
    then show ?thesis
      using take_drop_region [OF ok off, of n] unfolding fr_ReadAt_def if_not_P [OF c] Let_def f
      by (simp add: read_bytes_def Let_def)
  qed
qed

lemma read_bytes_contract:
  "length (fst (read_bytes src off n)) \<le> n"
  "length (fst (read_bytes src off n)) < n \<Longrightarrow> snd (read_bytes src off n) \<noteq> None"
  by (simp_all add: read_bytes_def Let_def)

lemma file_ReadAt_contract:
  "length (fst (file_ReadAt r off n)) \<le> n"
  "length (fst (file_ReadAt r off n)) < n \<Longrightarrow> snd (file_ReadAt r off n) \<noteq> None"
  using read_bytes_contract [of "fr_file r" off n] by (auto simp: file_ReadAt_def split: if_splits)

interpretation region_reader: reader_at "fr_ReadAt r" for r
proof
  fix off n
  have "length (fst (file_ReadAt r a (nat mx))) \<le> n" if "int n > mx" for a mx
    using file_ReadAt_contract(1) [of r a "nat mx"] that by linarith
  then show "length (fst (fr_ReadAt r off n)) \<le> n"
    using file_ReadAt_contract(1) by (simp add: fr_ReadAt_def eof_unless_def Let_def case_prod_beta)
  show "length (fst (fr_ReadAt r off n)) < n \<Longrightarrow> snd (fr_ReadAt r off n) \<noteq> None"
    using file_ReadAt_contract(2) by (auto simp: fr_ReadAt_def eof_unless_def Let_def case_prod_beta split: if_splits)
qed

section \<open>Properties\<close>

text \<open>
  C33.  A region reader never leaves its region: reading at a relative offset returns exactly the
  bytes of the partition there, cut at its end, with an error exactly when the bytes are fewer than
  requested.
\<close>

theorem region_reader_confined:
  assumes new: "NewFsRegionReader fileSize openFile path offset size' = Inr r"
    and dev: "openFile path = Inr dev" "fileSize path = Inr (length dev)"
    and small: "offset < 2 ^ 63" "size' < 2 ^ 63" and off: "0 \<le> off" "0 < n"
  shows "fst (fr_ReadAt r off n) = take n (drop (nat off) (take (nat size') (drop (nat offset) dev)))
     \<and> (snd (fr_ReadAt r off n) = None \<longleftrightarrow> off + int n \<le> size')"
proof -
  have s: "nat offset + nat size' < 2 ^ 64" using small by (simp add: nat_less_iff)
  have r: "0 \<le> offset" "0 < size'" "nat offset + nat size' \<le> length dev"
    "r = \<lparr>fr_path = path, fr_offset = offset, fr_size = size', fr_fileSize = i64 (int (length dev)),
         fr_file = dev, fr_open = True, sr_off = offset\<rparr>"
    using new dev s by (auto simp: NewFsRegionReader_def split: if_splits)
  have ok: "region_ok r" and reg: "region r = take (nat size') (drop (nat offset) dev)"
    using r by (auto simp: region_ok_def region_def)
  have l: "int (length (region r)) = size'" using region_length [OF ok] r(4) by simp
  have "length (take n (drop (nat off) (region r))) < n \<longleftrightarrow> \<not> off + int n \<le> size'"
    using l off by (auto simp: min_def)
  then show ?thesis
    using fr_ReadAt_region [OF ok off] unfolding reg by (simp only: read_bytes_def Let_def) simp
qed

theorem region_reader_confined_witness:
  "\<exists>r. NewFsRegionReader (\<lambda>_. Inr 4) (\<lambda>_. Inr [10, 11, 12, 13]) ''d'' 1 2 = Inr r
     \<and> fst (fr_ReadAt r 1 5) = [12] \<and> snd (fr_ReadAt r 1 5) \<noteq> None"
proof -
  obtain r where r: "NewFsRegionReader (\<lambda>_. Inr 4) (\<lambda>_. Inr [10, 11, 12, 13]) ''d'' 1 2 = Inr r"
    by (simp add: NewFsRegionReader_def)
  have l: "(\<lambda>_. Inr 4) ''d'' = (Inr (length [10, 11, 12, 13 :: byte]) :: nat result)" by simp
  from region_reader_confined [OF r refl l, of 1 5] show ?thesis using r by simp
qed

text \<open>
  C36.  \<open>Seek\<close> from the start adds the offset of the region a second time: the bytes read next begin
  at the requested position plus the region's offset.
\<close>

theorem seek_start_shifts:
  assumes ok: "region_ok r" and k: "0 \<le> k" "k + fr_offset r + int n \<le> fr_size r" and n: "0 < n"
  shows "\<exists>r' r''. fr_Seek r k SeekStart = (r', Inr (k + fr_offset r))
     \<and> fr_Read r' n = (r'', take n (drop (nat (k + fr_offset r)) (region r)), None)"
proof -
  let ?r = "r\<lparr>sr_off := k + fr_offset r + fr_offset r\<rparr>"
  have o: "0 \<le> fr_offset r" "fr_open r" "0 < fr_size r" "fr_offset r + fr_size r \<le> int (length (fr_file r))"
    using ok by (auto simp: region_ok_def)
  have seek: "fr_Seek r k SeekStart = (?r, Inr (k + fr_offset r))"
    using k o by (simp add: fr_Seek_def section_Seek_def Let_def)
  have sl: "take n (drop (nat (k + fr_offset r + fr_offset r)) (fr_file r)) = take n (drop (nat (k + fr_offset r)) (region r))"
    using take_drop_region [OF ok _ k(2)] k(1) o(1) by simp
  have len: "length (take n (drop (nat (k + fr_offset r)) (region r))) = n"
    using k o(1) region_length [OF ok] by auto
  have "nat (min (int n) (fr_size r - (k + fr_offset r))) = n" using k(2) by (simp add: min_def)
  then have "fr_Read ?r n = (?r\<lparr>sr_off := k + fr_offset r + fr_offset r + int n\<rparr>,
      take n (drop (nat (k + fr_offset r)) (region r)), None)"
    using k n o sl len by (simp add: fr_Read_def file_ReadAt_def read_bytes_def Let_def)
  with seek show ?thesis by blast
qed

theorem seek_start_shifts_witness:
  "\<exists>r'. fr_Seek \<lparr>fr_path = ''d'', fr_offset = 1, fr_size = 3, fr_fileSize = 4, fr_file = [10, 11, 12, 13],
       fr_open = True, sr_off = 1\<rparr> 0 SeekStart = (r', Inr 1) \<and> fst (snd (fr_Read r' 1)) = [12]"
proof -
  let ?r = "\<lparr>fr_path = ''d'', fr_offset = 1, fr_size = 3, fr_fileSize = 4, fr_file = [10, 11, 12, 13],
       fr_open = True, sr_off = 1\<rparr>"
  have "region_ok ?r" by (simp add: region_ok_def)
  from seek_start_shifts [OF this, of 0 1] show ?thesis by (auto simp: region_def)
qed

end
