(* ===== verification/ExFat.thy ===== *)
theory ExFat
  imports Region
begin

text \<open>
  The two simplest bitmap parsers: \<^verbatim>\<open>src/disk/filesystem/raw\<close>, which marks everything, and
  \<^verbatim>\<open>src/disk/filesystem/exfat\<close>, which finds the allocation bitmap in the root directory and
  marks the sectors of the allocated clusters.  They are functions of the reader of the partition;
  the file handle they close on the way out is not part of the result.
\<close>

section \<open>Unknown file systems\<close>

definition raw_Dump :: "'r roaring \<Rightarrow> int \<Rightarrow> 'r FsBitmap" where
  "raw_Dump R size' = SetAll R (NewFsBitmap ''unknown'' BitmapRaw (tdiv (i64 (size' + (4096 - 1))) 4096) 4096)"

section \<open>The boot sector of exFAT\<close>

record exfat_geometry =
  volumeLength :: nat
  fatOffset :: nat
  clusterHeapOffset :: nat
  clusterCount :: nat
  rootDirCluster :: nat
  bytesPerSectorShift :: nat
  sectorsPerClusterShift :: nat

definition maxExfatSectors :: nat where
  "maxExfatSectors = 2 ^ 40"

definition exfat_signature :: "byte list" where
  "exfat_signature = [0x45, 0x58, 0x46, 0x41, 0x54, 0x20, 0x20, 0x20]"

definition exfat_boot :: "byte list \<Rightarrow> exfat_geometry go" where
  "exfat_boot bs =
     (if take 8 (drop 3 bs) \<noteq> exfat_signature
      then Fail (Errorf ''not an exfat filesystem (bad signature)'' [])
      else
        let g = \<lparr>volumeLength = le_at 8 bs 72, fatOffset = le_at 4 bs 80, clusterHeapOffset = le_at 4 bs 88,
                 clusterCount = le_at 4 bs 92, rootDirCluster = le_at 4 bs 96,
                 bytesPerSectorShift = le_at 1 bs 108, sectorsPerClusterShift = le_at 1 bs 109\<rparr>
        in if bytesPerSectorShift g < 9 \<or> bytesPerSectorShift g > 12
           then Fail (Errorf ''invalid bytes-per-sector-shift: %d'' [FInt (int (bytesPerSectorShift g))])
           else if sectorsPerClusterShift g > 25
           then Fail (Errorf ''invalid sectors-per-cluster-shift: %d'' [FInt (int (sectorsPerClusterShift g))])
           else if volumeLength g = 0 \<or> volumeLength g > maxExfatSectors
           then Fail (Errorf ''ERROR: maliciously large or zero sector_count detected: %d, max allowed: %d''
                        [FInt (int (volumeLength g)), FInt (int maxExfatSectors)])
           else if clusterCount g = 0 \<or> clusterCount g > maxExfatSectors
           then Fail (Errorf ''invalid or malicious cluster count: %d'' [FInt (int (clusterCount g))])
           else Ret g)"

definition sectorSize :: "exfat_geometry \<Rightarrow> nat" where
  "sectorSize g = 2 ^ bytesPerSectorShift g"

definition sectorsPerCluster :: "exfat_geometry \<Rightarrow> nat" where
  "sectorsPerCluster g = 2 ^ sectorsPerClusterShift g"

definition clusterSize :: "exfat_geometry \<Rightarrow> nat" where
  "clusterSize g = u64 (sectorsPerCluster g * sectorSize g)"

definition nextCluster :: "ReaderAt \<Rightarrow> exfat_geometry \<Rightarrow> nat \<Rightarrow> nat go" where
  "nextCluster rd g cluster =
     bindG (read_exact rd (int (fatOffset g) * int (sectorSize g) + int cluster * 4) 4) (\<lambda>buf. Ret (le_at 4 buf 0))"

definition clusterToByteOffset :: "exfat_geometry \<Rightarrow> nat \<Rightarrow> int" where
  "clusterToByteOffset g cluster =
     (let firstSector = u64 (clusterHeapOffset g + (cluster - 2) * sectorsPerCluster g)
      in i64 (int firstSector * int (sectorSize g)))"

section \<open>The root directory\<close>

definition exfatBadCluster :: nat where
  "exfatBadCluster = 0xFFFFFFF7"

definition maxDirTraverseEntries :: nat where
  "maxDirTraverseEntries = 2 ^ 20"

text \<open>One cluster of directory entries: the end marker, the allocation bitmap, or neither.\<close>

datatype dirscan = EndOfDir | FoundBitmap nat nat | NotHere

fun scan_dirents :: "nat \<Rightarrow> byte list \<Rightarrow> dirscan" where
  "scan_dirents 0 data = NotHere"
| "scan_dirents (Suc n) data =
     (let ent = take 32 data in
      if ent ! 0 = 0x00 then EndOfDir
      else if ent ! 0 = 0x81 \<and> ent ! 1 AND 0x01 = 0 then FoundBitmap (le_at 4 ent 20) (le_at 8 ent 24)
      else scan_dirents n (drop 32 data))"

text \<open>
  The walk along the cluster chain; the first argument is the number of clusters that may still be
  visited.  \<open>Ret None\<close>: the directory ended without the entry.
\<close>

fun exfat_walk :: "nat \<Rightarrow> ReaderAt \<Rightarrow> exfat_geometry \<Rightarrow> nat \<Rightarrow> (nat \<times> nat) option go" where
  "exfat_walk left rd g cluster =
     (if cluster \<ge> 2 \<and> cluster < exfatBadCluster then
        (case left of
           0 \<Rightarrow> Fail (Errorf ''root directory chain too long or corrupted (possible loop)'' [])
         | Suc left' \<Rightarrow>
             bindG (wrapG ''read root dir cluster %d: %v'' [FInt (int cluster)]
                      (read_exact rd (clusterToByteOffset g cluster) (clusterSize g)))
               (\<lambda>data. case scan_dirents (clusterSize g div 32) data of
                    EndOfDir \<Rightarrow> Ret None
                  | FoundBitmap first len \<Rightarrow> Ret (Some (first, len))
                  | NotHere \<Rightarrow>
                      bindG (wrapG ''read FAT entry for cluster %d: %v'' [FInt (int cluster)] (nextCluster rd g cluster))
                        (exfat_walk left' rd g)))
      else Ret None)"

declare exfat_walk.simps [simp del]

section \<open>The bitmap\<close>

definition exfat_mark :: "'r roaring \<Rightarrow> exfat_geometry \<Rightarrow> byte list \<Rightarrow> 'r FsBitmap \<Rightarrow> nat \<Rightarrow> 'r FsBitmap" where
  "exfat_mark R g raw b c =
     (if bit (raw ! (c div 8)) (c mod 8)
      then SetRange R b (u64 (clusterHeapOffset g + c * sectorsPerCluster g)) (u32 (sectorsPerCluster g))
      else b)"

definition exfat_bitmap :: "'r roaring \<Rightarrow> exfat_geometry \<Rightarrow> byte list \<Rightarrow> 'r FsBitmap" where
  "exfat_bitmap R g raw =
     foldl (exfat_mark R g raw)
       (NewFsBitmap ''exfat'' BitmapFromFS (i64 (int (volumeLength g))) (int (sectorSize g))) [0..<clusterCount g]"

definition expectedMinLen :: "exfat_geometry \<Rightarrow> nat" where
  "expectedMinLen g = (clusterCount g + 7) div 8"

definition exfat_Dump :: "'r roaring \<Rightarrow> ReaderAt \<Rightarrow> 'r FsBitmap go" where
  "exfat_Dump R rd =
     bindG (wrapG ''read boot sector: %v'' [] (read_exact rd 0 512)) (\<lambda>bs.
     bindG (exfat_boot bs) (\<lambda>g.
     bindG (exfat_walk maxDirTraverseEntries rd g (rootDirCluster g)) (\<lambda>entry.
       case entry of
         None \<Rightarrow> Fail (Errorf ''allocation bitmap directory entry not found'' [])
       | Some (first, len) \<Rightarrow>
           if first < 2
           then Fail (Errorf ''invalid allocation bitmap first cluster: %d'' [FInt (int first)])
           else if len < expectedMinLen g
           then Fail (Errorf ''allocation bitmap too small: got %d bytes, need at least %d''
                        [FInt (int len), FInt (int (expectedMinLen g))])
           else bindG (wrapG ''read allocation bitmap data: %v'' []
                         (read_exact rd (clusterToByteOffset g first) (expectedMinLen g)))
                  (\<lambda>raw. Ret (exfat_bitmap R g raw)))))"

section \<open>Facts\<close>

lemma exfat_boot_ok:
  assumes "exfat_boot bs = Ret g"
  shows "0 < volumeLength g" "volumeLength g \<le> 2 ^ 40" "sectorsPerClusterShift g \<le> 25"
    "clusterHeapOffset g < 2 ^ 32" "clusterCount g < 2 ^ 32" "0 < clusterCount g"
proof -
  have "clusterHeapOffset g = le_at 4 bs 88" "clusterCount g = le_at 4 bs 92"
    using assms by (auto simp: exfat_boot_def Let_def split: if_splits)
  then show "clusterHeapOffset g < 2 ^ 32" "clusterCount g < 2 ^ 32"
    using le_at_less [of 4 bs 88] le_at_less [of 4 bs 92] by simp_all
  show "0 < volumeLength g" "volumeLength g \<le> 2 ^ 40" "sectorsPerClusterShift g \<le> 25" "0 < clusterCount g"
    using assms by (auto simp: exfat_boot_def Let_def maxExfatSectors_def split: if_splits)
qed

text \<open>The sectors of the allocated clusters.\<close>

definition exfat_allocated :: "exfat_geometry \<Rightarrow> byte list \<Rightarrow> nat \<Rightarrow> bool" where
  "exfat_allocated g raw s \<longleftrightarrow> s < volumeLength g \<and>
     (\<exists>c < clusterCount g. bit (raw ! (c div 8)) (c mod 8)
        \<and> clusterHeapOffset g + c * sectorsPerCluster g \<le> s
        \<and> s < clusterHeapOffset g + (c + 1) * sectorsPerCluster g)"

lemma exfat_bitmap_spec:
  assumes R: "roaring_ok R" and g: "exfat_boot bs = Ret g"
  shows "bm_inv R (exfat_bitmap R g raw)" "used R (exfat_bitmap R g raw) = {s. exfat_allocated g raw s}"
    "nat (Bits (exfat_bitmap R g raw)) = volumeLength g"
proof -
  note G = exfat_boot_ok [OF g]
  let ?b = "NewFsBitmap ''exfat'' BitmapFromFS (i64 (int (volumeLength g))) (int (sectorSize g)) :: 'a FsBitmap"
  let ?spc = "sectorsPerCluster g" and ?h = "clusterHeapOffset g"
  have v: "i64 (int (volumeLength g)) = int (volumeLength g)" using G(1,2) by (intro i64_small) auto
  have spc: "?spc \<le> 2 ^ 25" unfolding sectorsPerCluster_def using G(3) by (intro power_increasing) auto
  then have s: "?spc < segSize" by (simp add: segSize_def)
  have N: "bm_inv R ?b" "used R ?b = {}"
    using NewFsBitmap_spec [OF R, of "i64 (int (volumeLength g))" "''exfat''" BitmapFromFS "int (sectorSize g)"] i64_bounds(2)
    by auto
  have addr: "u64 (?h + c * ?spc) = ?h + c * ?spc" if "c < clusterCount g" for c
  proof -
    have "c * ?spc \<le> 2 ^ 32 * 2 ^ 25" using that G(5) spc by (intro mult_mono) auto
    then show ?thesis using G(4) by (intro u64_small) simp
  qed
  have "exfat_bitmap R g raw = foldl (\<lambda>b c. if bit (raw ! (c div 8)) (c mod 8) then SetRange R b (?h + c * ?spc) ?spc else b)
      ?b [0..<clusterCount g]"
    unfolding exfat_bitmap_def using addr s by (intro foldl_cong) (simp_all add: exfat_mark_def)
  then have F: "bm_inv R (exfat_bitmap R g raw)" "nat (Bits (exfat_bitmap R g raw)) = nat (Bits ?b)"
    "used R (exfat_bitmap R g raw) = (\<Union>c \<in> {c \<in> set [0..<clusterCount g]. bit (raw ! (c div 8)) (c mod 8)}.
        {?h + c * ?spc..<?h + c * ?spc + ?spc}) \<inter> {..<nat (Bits ?b)}"
    using fsbm.foldl_set_range_if [OF s N(1), of "\<lambda>c. bit (raw ! (c div 8)) (c mod 8)" "\<lambda>c. ?h + c * ?spc" "[0..<clusterCount g]"] N(2)
    by simp_all
  show "bm_inv R (exfat_bitmap R g raw)" by (rule F(1))
  have b: "nat (Bits ?b) = volumeLength g" using v by (simp add: NewFsBitmap_def)
  show "nat (Bits (exfat_bitmap R g raw)) = volumeLength g" using F(2) b by simp
  show "used R (exfat_bitmap R g raw) = {s. exfat_allocated g raw s}"
    unfolding F(3) b by (auto simp: exfat_allocated_def add.assoc add.commute [of ?spc])
qed

lemma exfat_Dump_Ret:
  assumes "exfat_Dump R rd = Ret b"
  obtains bs g first len raw where "read_exact rd 0 512 = Ret bs" "exfat_boot bs = Ret g"
    "exfat_walk maxDirTraverseEntries rd g (rootDirCluster g) = Ret (Some (first, len))"
    "2 \<le> first" "expectedMinLen g \<le> len"
    "read_exact rd (clusterToByteOffset g first) (expectedMinLen g) = Ret raw" "b = exfat_bitmap R g raw"
proof -
  obtain bs g e where E: "read_exact rd 0 512 = Ret bs" "exfat_boot bs = Ret g"
    "exfat_walk maxDirTraverseEntries rd g (rootDirCluster g) = Ret e"
    "(case e of
         None \<Rightarrow> Fail (Errorf ''allocation bitmap directory entry not found'' [])
       | Some (first, len) \<Rightarrow>
           if first < 2
           then Fail (Errorf ''invalid allocation bitmap first cluster: %d'' [FInt (int first)])
           else if len < expectedMinLen g
           then Fail (Errorf ''allocation bitmap too small: got %d bytes, need at least %d''
                        [FInt (int len), FInt (int (expectedMinLen g))])
           else bindG (wrapG ''read allocation bitmap data: %v'' []
                         (read_exact rd (clusterToByteOffset g first) (expectedMinLen g)))
                  (\<lambda>raw. Ret (exfat_bitmap R g raw))) = Ret b"
    using assms unfolding exfat_Dump_def bindG_Ret wrapG_simps by blast
  obtain first len where "e = Some (first, len)" using E(4) by (cases e) auto
  with E that show thesis by (auto simp: bindG_Ret not_less split: if_splits)
qed

section \<open>Properties\<close>

text \<open>
  C25.  When the exFAT parser returns a bitmap, it has one bit per sector of the volume, and a sector
  is marked exactly when it belongs to a cluster that the volume's allocation bitmap marks.
\<close>

theorem exfat_marks_clusters:
  assumes "roaring_ok R" "exfat_Dump R rd = Ret b"
  shows "\<exists>bs g first len raw. read_exact rd 0 512 = Ret bs \<and> exfat_boot bs = Ret g
     \<and> exfat_walk maxDirTraverseEntries rd g (rootDirCluster g) = Ret (Some (first, len))
     \<and> read_exact rd (clusterToByteOffset g first) (expectedMinLen g) = Ret raw
     \<and> Bits b = int (volumeLength g)
     \<and> (\<forall>s. IsSet R b s \<longleftrightarrow> s < volumeLength g \<and>
            (\<exists>c < clusterCount g. bit (raw ! (c div 8)) (c mod 8)
               \<and> clusterHeapOffset g + c * sectorsPerCluster g \<le> s
               \<and> s < clusterHeapOffset g + (c + 1) * sectorsPerCluster g))"
proof -
  obtain bs g first len raw where D: "read_exact rd 0 512 = Ret bs" "exfat_boot bs = Ret g"
    "exfat_walk maxDirTraverseEntries rd g (rootDirCluster g) = Ret (Some (first, len))"
    "read_exact rd (clusterToByteOffset g first) (expectedMinLen g) = Ret raw" "b = exfat_bitmap R g raw"
    using exfat_Dump_Ret [OF assms(2)] by metis
  note S = exfat_bitmap_spec [OF assms(1) D(2), of raw]
  have "Bits b = int (volumeLength g)" using S(3) exfat_boot_ok(1) [OF D(2)] unfolding D(5) by simp
  moreover have "IsSet R b s \<longleftrightarrow> exfat_allocated g raw s" for s
    using IsSet_used [OF S(1)] S(2) unfolding D(5) by simp
  ultimately show ?thesis using D(1-4) unfolding exfat_allocated_def by blast
qed

definition demo_exfat_boot :: "byte list" where
  "demo_exfat_boot = replicate 3 0 @ exfat_signature @ replicate 61 0 @ [4, 0, 0, 0, 0, 0, 0, 0] @ [1, 0, 0, 0]
     @ replicate 4 0 @ [2, 0, 0, 0] @ [2, 0, 0, 0] @ [2, 0, 0, 0] @ replicate 8 0 @ [9] @ [0] @ replicate 402 0"

definition demo_exfat_dir :: "byte list" where
  "demo_exfat_dir = [0x81] @ replicate 19 0 @ [3, 0, 0, 0] @ [1, 0, 0, 0, 0, 0, 0, 0] @ replicate 480 0"

definition demo_exfat :: ReaderAt where
  "demo_exfat off n = (if off = 0 then demo_exfat_boot else if off = 1024 then demo_exfat_dir else [2], None)"

definition demo_geometry :: exfat_geometry where
  "demo_geometry = \<lparr>volumeLength = 4, fatOffset = 1, clusterHeapOffset = 2, clusterCount = 2,
     rootDirCluster = 2, bytesPerSectorShift = 9, sectorsPerClusterShift = 0\<rparr>"

lemma demo_exfat_steps:
  "read_exact demo_exfat 0 512 = Ret demo_exfat_boot" "exfat_boot demo_exfat_boot = Ret demo_geometry"
  "exfat_walk maxDirTraverseEntries demo_exfat demo_geometry (rootDirCluster demo_geometry) = Ret (Some (3, 1))"
  "read_exact demo_exfat (clusterToByteOffset demo_geometry 3) (expectedMinLen demo_geometry) = Ret [2]"
proof -
  show "read_exact demo_exfat 0 512 = Ret demo_exfat_boot"
    by (simp add: read_exact_def demo_exfat_def demo_exfat_boot_def exfat_signature_def)
  show "exfat_boot demo_exfat_boot = Ret demo_geometry"
    by (simp add: exfat_boot_def demo_exfat_boot_def exfat_signature_def le_at_def maxExfatSectors_def demo_geometry_def)
  have G: "clusterSize demo_geometry = 512" "clusterToByteOffset demo_geometry 2 = 1024"
    "clusterToByteOffset demo_geometry 3 = 1536" "expectedMinLen demo_geometry = 1" "rootDirCluster demo_geometry = 2"
    by (simp_all add: clusterSize_def sectorsPerCluster_def sectorSize_def clusterToByteOffset_def expectedMinLen_def
        demo_geometry_def Let_def)
  have m: "maxDirTraverseEntries = Suc 1048575" "512 div 32 = Suc 15" by (simp_all add: maxDirTraverseEntries_def)
  have "read_exact demo_exfat 1024 512 = Ret demo_exfat_dir"
    by (simp add: read_exact_def demo_exfat_def demo_exfat_dir_def)
  moreover have "scan_dirents (Suc 15) demo_exfat_dir = FoundBitmap 3 1"
    by (subst scan_dirents.simps) (simp add: demo_exfat_dir_def le_at_def nth_append)
  ultimately show "exfat_walk maxDirTraverseEntries demo_exfat demo_geometry (rootDirCluster demo_geometry) = Ret (Some (3, 1))"
    unfolding m by (subst exfat_walk.simps) (simp only: G m, simp add: exfatBadCluster_def)
  show "read_exact demo_exfat (clusterToByteOffset demo_geometry 3) (expectedMinLen demo_geometry) = Ret [2]"
    unfolding G by (simp add: read_exact_def demo_exfat_def)
qed

lemma demo_exfat_Dump: "exfat_Dump R demo_exfat = Ret (exfat_bitmap R demo_geometry [2])"
proof -
  have "\<not> (3::nat) < 2" "\<not> 1 < expectedMinLen demo_geometry" by (simp_all add: expectedMinLen_def demo_geometry_def)
  then show ?thesis unfolding exfat_Dump_def by (simp add: demo_exfat_steps)
qed

theorem exfat_marks_clusters_witness:
  "\<exists>b. exfat_Dump list_roaring demo_exfat = Ret b \<and> Bits b = 4 \<and> IsSet list_roaring b 3 \<and> \<not> IsSet list_roaring b 2"
proof -
  let ?b = "exfat_bitmap list_roaring demo_geometry [2]"
  have "Bits ?b = int (volumeLength demo_geometry)
     \<and> (\<forall>s. IsSet list_roaring ?b s \<longleftrightarrow> s < volumeLength demo_geometry \<and>
            (\<exists>c < clusterCount demo_geometry. bit ([2 :: byte] ! (c div 8)) (c mod 8)
               \<and> clusterHeapOffset demo_geometry + c * sectorsPerCluster demo_geometry \<le> s
               \<and> s < clusterHeapOffset demo_geometry + (c + 1) * sectorsPerCluster demo_geometry))"
    using exfat_marks_clusters [OF roaring_exact_ok [OF list_roaring_exact] demo_exfat_Dump]
    by (auto simp: demo_exfat_steps)
  then have "Bits ?b = 4" "IsSet list_roaring ?b s \<longleftrightarrow> s < 4 \<and> (\<exists>c < 2. bit ([2 :: byte] ! (c div 8)) (c mod 8) \<and> 2 + c = s)" for s
    by (auto simp: demo_geometry_def sectorsPerCluster_def)
  moreover have "\<not> bit (2 :: byte) 0" "bit (2 :: byte) 1" by (simp_all add: bit_numeral_rec)
  ultimately show ?thesis using demo_exfat_Dump by (auto intro!: exI [of _ ?b] exI [of _ 1] simp: less_2_cases_iff)
qed

text \<open>
  C40.  The exFAT parser leaves every sector in front of the cluster heap unmarked: the boot sectors
  and the file allocation table are never part of the bitmap, so \<open>MirrorFs\<close> does not copy them.
\<close>

theorem exfat_metadata_unmarked:
  assumes "roaring_ok R" "exfat_Dump R rd = Ret b" "read_exact rd 0 512 = Ret bs" "s < le_at 4 bs 88"
  shows "\<not> IsSet R b s"
proof -
  obtain bs' g raw where D: "read_exact rd 0 512 = Ret bs'" "exfat_boot bs' = Ret g" "b = exfat_bitmap R g raw"
    using exfat_Dump_Ret [OF assms(2)] by metis
  have "clusterHeapOffset g = le_at 4 bs 88"
    using D(1,2) assms(3) by (auto simp: exfat_boot_def Let_def split: if_splits)
  then show ?thesis
    using assms(4) IsSet_used [OF exfat_bitmap_spec(1) [OF assms(1) D(2)]] exfat_bitmap_spec(2) [OF assms(1) D(2)]
    unfolding D(3) by (auto simp: exfat_allocated_def)
qed

theorem exfat_metadata_unmarked_witness:
  "\<exists>b. exfat_Dump list_roaring demo_exfat = Ret b \<and> \<not> IsSet list_roaring b 0"
proof -
  have b: "read_exact demo_exfat 0 512 = Ret demo_exfat_boot"
    by (simp add: read_exact_def demo_exfat_def demo_exfat_boot_def exfat_signature_def)
  have "0 < le_at 4 demo_exfat_boot 88"
    by (simp add: demo_exfat_boot_def exfat_signature_def le_at_def)
  from exfat_metadata_unmarked [OF roaring_exact_ok [OF list_roaring_exact] demo_exfat_Dump b this]
  show ?thesis using demo_exfat_Dump by blast
qed

text \<open>
  A region whose file system is unknown is marked completely: the blocks of 4096 bytes cover the
  whole region and each of them is marked.
\<close>

lemma raw_marks_everything:
  assumes "roaring_ok R" "0 < size'" "size' + 4095 < 2 ^ 63"
  shows "size' \<le> Bits (raw_Dump R size') * BlockSize (raw_Dump R size')
     \<and> Bits (raw_Dump R size') * BlockSize (raw_Dump R size') < size' + 4096
     \<and> (IsSet R (raw_Dump R size') n \<longleftrightarrow> int n < Bits (raw_Dump R size'))"
proof -
  let ?k = "(size' + 4095) div 4096"
  let ?b = "NewFsBitmap ''unknown'' BitmapRaw ?k 4096 :: 'a FsBitmap"
  have e: "raw_Dump R size' = SetAll R ?b" using assms by (simp add: raw_Dump_def)
  have k: "size' \<le> ?k * 4096" "?k * 4096 < size' + 4096" "?k < 2 ^ 63" using assms(2,3) by auto
  have N: "bm_inv R ?b" using NewFsBitmap_spec [OF assms(1) k(3)] by auto
  have f: "Bits (SetAll R ?b) = ?k" "BlockSize (SetAll R ?b) = 4096"
    by (simp_all add: SetAll_def addRange_def NewFsBitmap_def)
  have "IsSet R (SetAll R ?b) n \<longleftrightarrow> n < nat (Bits ?b)"
    using IsSet_used [OF fsbm.set_all_inv [OF N]] fsbm.set_all_used [OF N] by simp
  then show ?thesis unfolding e f using k by (auto simp: NewFsBitmap_def)
qed

lemma raw_marks_everything_example:
  "IsSet list_roaring (raw_Dump list_roaring 5000) 1 \<and> Bits (raw_Dump list_roaring 5000) = 2"
  using raw_marks_everything [OF roaring_exact_ok [OF list_roaring_exact], of 5000 1]
  by (simp add: raw_Dump_def) (simp add: NewFsBitmap_def)

end
