(* ===== verification/Fat.thy ===== *)
theory Fat
  imports Region
begin

text \<open>
  The bitmap parser for FAT12, FAT16 and FAT32 (\<^verbatim>\<open>src/disk/filesystem/fat/bitmap.go\<close>).  The boot
  sector's fields are numbers below the bound of their width; the sums and products the code
  computes from them stay below \<open>2^64\<close>, so its \<open>uint64\<close> arithmetic is arithmetic on numbers.  The
  read cursor and the nibble buffer of FAT12 are threaded through the reads.
\<close>

section \<open>The parser's state\<close>

datatype fat_type = fat12 | fat16 | fat32

record fatBootSector =
  sb_sectorSize :: nat
  sb_clusterSize :: nat
  sb_reserved :: nat
  sb_fats :: nat
  sb_dirEntries :: nat
  sb_sectors :: nat
  sb_fatLength :: nat
  sb_sectorCount :: nat
  sb_fat32Length :: nat
  sb_rootCluster :: nat
  sb_extSig16 :: nat
  sb_extSig32 :: nat
  sb_fatName32 :: "byte list"

record fat_cursor =
  cursor :: int
  nibble :: nat
  hasNibble :: bool

definition fat12Threshold :: nat where "fat12Threshold = 4085"

definition maxFatClusters :: nat where "maxFatClusters = 0x0FFFFFF6"

definition fat_seek :: "fat_cursor \<Rightarrow> int \<Rightarrow> fat_cursor" where
  "fat_seek p off = p\<lparr>cursor := off\<rparr>"

definition readSeq :: "ReaderAt \<Rightarrow> fat_cursor \<Rightarrow> nat \<Rightarrow> (byte list \<times> fat_cursor) go" where
  "readSeq rd p n =
     (case rd (cursor p) n of
        (buf, Some e) \<Rightarrow> Fail e
      | (buf, None) \<Rightarrow>
          if length buf \<noteq> n
          then Fail (Errorf ''short read at offset %d: want %d got %d''
                       [FInt (cursor p), FInt (int n), FInt (int (length buf))])
          else Ret (buf, p\<lparr>cursor := cursor p + int n\<rparr>))"

definition read12 :: "ReaderAt \<Rightarrow> fat_cursor \<Rightarrow> (nat \<times> fat_cursor) go" where
  "read12 rd p =
     (if \<not> hasNibble p then
        bindG (readSeq rd p 2) (\<lambda>(buf, p1).
          let buffer = le_at 2 buf 0
          in Ret (buffer mod 0x1000, p1\<lparr>nibble := buffer div 0x1000, hasNibble := True\<rparr>))
      else
        bindG (readSeq rd p 1) (\<lambda>(buf, p1).
          Ret (unat (buf ! 0) * 16 + nibble p1, p1\<lparr>hasNibble := False\<rparr>)))"

section \<open>The boot sector\<close>

definition parseBootSector :: "ReaderAt \<Rightarrow> fat_cursor \<Rightarrow> (fatBootSector \<times> fat_cursor) go" where
  "parseBootSector rd p =
     bindG (wrapG ''read boot sector: %v'' [] (readSeq rd p 90)) (\<lambda>(buf, p1).
       let sb = \<lparr>sb_sectorSize = le_at 2 buf 11, sb_clusterSize = le_at 1 buf 13, sb_reserved = le_at 2 buf 14,
                 sb_fats = le_at 1 buf 16, sb_dirEntries = le_at 2 buf 17, sb_sectors = le_at 2 buf 19,
                 sb_fatLength = le_at 2 buf 22, sb_sectorCount = le_at 4 buf 32,
                 sb_fat32Length = le_at 4 buf 36, sb_rootCluster = le_at 4 buf 44,
                 sb_extSig16 = le_at 1 buf 38, sb_extSig32 = le_at 1 buf 66,
                 sb_fatName32 = take 8 (drop 82 buf)\<rparr>
       in if sb_sectorSize sb = 0 then Fail (Errorf ''invalid sector size: 0'' [])
          else if sb_clusterSize sb = 0 then Fail (Errorf ''invalid cluster size: 0'' [])
          else Ret (sb, p1))"

definition getTotalSector :: "fatBootSector \<Rightarrow> nat go" where
  "getTotalSector sb =
     (if sb_sectors sb \<noteq> 0 then Ret (sb_sectors sb)
      else if sb_sectorCount sb \<noteq> 0 then Ret (sb_sectorCount sb)
      else Fail (Errorf ''total_sector error: sectors and sector_count are both zero'' []))"

definition getSecPerFat :: "fatBootSector \<Rightarrow> nat go" where
  "getSecPerFat sb =
     (if sb_fatLength sb \<noteq> 0 then Ret (sb_fatLength sb)
      else if sb_fat32Length sb \<noteq> 0 then Ret (sb_fat32Length sb)
      else Fail (Errorf ''sec_per_fat is zero'' []))"

definition getRootSec :: "fatBootSector \<Rightarrow> nat" where
  "getRootSec sb = (sb_dirEntries sb * 32 + sb_sectorSize sb - 1) div sb_sectorSize sb"

definition roundToMultiple :: "nat \<Rightarrow> nat \<Rightarrow> nat" where
  "roundToMultiple n m = (if n = 0 \<or> m = 0 then 0 else n + m - 1 - (n - 1) mod m)"

definition getClusterCount :: "fatBootSector \<Rightarrow> nat go" where
  "getClusterCount sb =
     bindG (getTotalSector sb) (\<lambda>totalSector.
     bindG (getSecPerFat sb) (\<lambda>secPerFat.
       let reserved = sb_reserved sb + sb_fats sb * secPerFat + getRootSec sb
       in if reserved > totalSector then Ret 0
          else Ret ((totalSector - reserved) div sb_clusterSize sb)))"

definition getFatType :: "fatBootSector \<Rightarrow> fat_type go" where
  "getFatType sb =
     (if sb_extSig16 sb = 0x29 \<or> (sb_fatLength sb \<noteq> 0 \<and> sb_fat32Length sb = 0) then
        bindG (getTotalSector sb) (\<lambda>totalSector.
        bindG (getSecPerFat sb) (\<lambda>secPerFat.
          let lss = sb_sectorSize sb;
              rootStart = (sb_reserved sb + sb_fats sb * secPerFat) * lss;
              dataStart = rootStart + roundToMultiple (sb_dirEntries sb * 32) lss;
              dataSize = int (totalSector * lss) - int dataStart
          in if dataSize \<le> 0 then Fail (Errorf ''data_size count error'' [])
             else let clusters = nat dataSize div (sb_clusterSize sb * lss)
                  in if clusters = 0 then Fail (Errorf ''clusters count error'' [])
                     else if clusters \<ge> fat12Threshold then Ret fat16 else Ret fat12))
      else if sb_fatName32 sb ! 4 = 0x32 \<or> (sb_fatLength sb = 0 \<and> sb_fat32Length sb \<noteq> 0) then Ret fat32
      else Fail (Errorf ''unknown fat type'' []))"

fun fsName :: "fat_type \<Rightarrow> string" where
  "fsName fat12 = ''FAT12''"
| "fsName fat16 = ''FAT16''"
| "fsName fat32 = ''FAT32''"

section \<open>The volume's state\<close>

text \<open>0 clean, 1 not cleanly unmounted, 2 an input or output error recorded on the volume.\<close>

definition checkFatStatus :: "ReaderAt \<Rightarrow> fat_type \<Rightarrow> fat_cursor \<Rightarrow> (nat \<times> fat_cursor) go" where
  "checkFatStatus rd ty p =
     (case ty of
        fat16 \<Rightarrow>
          bindG (readSeq rd p 2) (\<lambda>(_, p1). bindG (readSeq rd p1 2) (\<lambda>(buf, p2).
            let entry = le_at 2 buf 0 in
            Ret (if \<not> bit entry 15 then 1 else if \<not> bit entry 14 then 2 else 0, p2)))
      | fat32 \<Rightarrow>
          bindG (readSeq rd p 4) (\<lambda>(_, p1). bindG (readSeq rd p1 4) (\<lambda>(buf, p2).
            let entry = le_at 4 buf 0 in
            Ret (if \<not> bit entry 27 then 1 else if \<not> bit entry 26 then 2 else 0, p2)))
      | fat12 \<Rightarrow>
          bindG (read12 rd p) (\<lambda>(_, p1). bindG (read12 rd p1) (\<lambda>(_, p2). Ret (0, p2))))"

section \<open>Marking\<close>

fun mark_run :: "'r roaring \<Rightarrow> nat \<Rightarrow> 'r FsBitmap \<times> nat \<Rightarrow> 'r FsBitmap \<times> nat" where
  "mark_run R 0 st = st"
| "mark_run R (Suc n) (fb, block) = mark_run R n (Set R fb block, block + 1)"

fun mark_runs :: "'r roaring \<Rightarrow> nat \<Rightarrow> nat \<Rightarrow> 'r FsBitmap \<times> nat \<Rightarrow> 'r FsBitmap \<times> nat" where
  "mark_runs R 0 n st = st"
| "mark_runs R (Suc k) n st = mark_runs R k n (mark_run R n st)"

definition markReservedSectors :: "'r roaring \<Rightarrow> fatBootSector \<Rightarrow> 'r FsBitmap \<times> nat \<Rightarrow> ('r FsBitmap \<times> nat) go" where
  "markReservedSectors R sb st =
     bindG (getSecPerFat sb) (\<lambda>secPerFat.
       Ret (mark_run R (getRootSec sb) (mark_runs R (sb_fats sb) secPerFat (mark_run R (sb_reserved sb) st))))"

fun markCluster :: "'r roaring \<Rightarrow> nat \<Rightarrow> bool \<Rightarrow> 'r FsBitmap \<times> nat \<Rightarrow> 'r FsBitmap \<times> nat" where
  "markCluster R 0 used' st = st"
| "markCluster R (Suc n) used' (fb, block) =
     markCluster R n used' (if used' then Set R fb block else Clear R fb block, block + 1)"

definition checkFat32Entry ::
    "'r roaring \<Rightarrow> ReaderAt \<Rightarrow> fatBootSector \<Rightarrow> fat_cursor \<Rightarrow> 'r FsBitmap \<times> nat \<Rightarrow> (('r FsBitmap \<times> nat) \<times> fat_cursor) go" where
  "checkFat32Entry R rd sb p st =
     bindG (readSeq rd p 4) (\<lambda>(buf, p1).
       let entry = le_at 4 buf 0 in
       Ret (markCluster R (sb_clusterSize sb) (\<not> (entry = 0x0FFFFFF7 \<or> entry = 0)) st, p1))"

definition checkFat16Entry ::
    "'r roaring \<Rightarrow> ReaderAt \<Rightarrow> fatBootSector \<Rightarrow> fat_cursor \<Rightarrow> 'r FsBitmap \<times> nat \<Rightarrow> (('r FsBitmap \<times> nat) \<times> fat_cursor) go" where
  "checkFat16Entry R rd sb p st =
     bindG (readSeq rd p 2) (\<lambda>(buf, p1).
       let entry = le_at 2 buf 0 in
       Ret (markCluster R (sb_clusterSize sb) (\<not> (entry = 0xFFF7 \<or> entry = 0)) st, p1))"

definition checkFat12Entry ::
    "'r roaring \<Rightarrow> ReaderAt \<Rightarrow> fatBootSector \<Rightarrow> fat_cursor \<Rightarrow> 'r FsBitmap \<times> nat \<Rightarrow> (('r FsBitmap \<times> nat) \<times> fat_cursor) go" where
  "checkFat12Entry R rd sb p st =
     bindG (read12 rd p) (\<lambda>(entry, p1).
       Ret (markCluster R (sb_clusterSize sb) (\<not> (entry = 0xFF7 \<or> entry = 0)) st, p1))"

definition check_entry ::
    "'r roaring \<Rightarrow> ReaderAt \<Rightarrow> fat_type \<Rightarrow> fatBootSector \<Rightarrow> fat_cursor \<Rightarrow> 'r FsBitmap \<times> nat \<Rightarrow>
     (('r FsBitmap \<times> nat) \<times> fat_cursor) go" where
  "check_entry R rd ty sb p st =
     (case ty of fat16 \<Rightarrow> checkFat16Entry R rd sb p st
      | fat32 \<Rightarrow> checkFat32Entry R rd sb p st
      | fat12 \<Rightarrow> checkFat12Entry R rd sb p st)"

text \<open>The loop over the clusters; \<open>i\<close> counts up, the first argument down.\<close>

fun scan_clusters ::
    "nat \<Rightarrow> 'r roaring \<Rightarrow> ReaderAt \<Rightarrow> fat_type \<Rightarrow> fatBootSector \<Rightarrow> nat \<Rightarrow> nat \<Rightarrow> fat_cursor \<Rightarrow> 'r FsBitmap \<times> nat \<Rightarrow>
     ('r FsBitmap \<times> nat) go" where
  "scan_clusters 0 R rd ty sb totalSector i p st = Ret st"
| "scan_clusters (Suc n) R rd ty sb totalSector i p st =
     (if snd st \<ge> totalSector
      then Fail (Errorf ''block too large: block=%d total_sector=%d'' [FInt (int (snd st)), FInt (int totalSector)])
      else bindG (wrapG ''read fat entry %d: %v'' [FInt (int i)] (check_entry R rd ty sb p st))
             (\<lambda>(st', p'). scan_clusters n R rd ty sb totalSector (i + 1) p' st'))"

definition fat_Dump :: "'r roaring \<Rightarrow> ReaderAt \<Rightarrow> fat_cursor \<Rightarrow> 'r FsBitmap go" where
  "fat_Dump R rd p0 =
     bindG (parseBootSector rd (fat_seek p0 0)) (\<lambda>(sb, p).
     bindG (getFatType sb) (\<lambda>ty.
     bindG (getTotalSector sb) (\<lambda>totalSector.
     bindG (getClusterCount sb) (\<lambda>clusterCount.
       if clusterCount > maxFatClusters
       then Fail (Errorf ''ERROR: maliciously large cluster_count detected: %d, max allowed: %d''
                    [FInt (int clusterCount), FInt (int maxFatClusters)])
       else
         let fb = SetAll R (NewFsBitmap (fsName ty) BitmapFromFS (int totalSector) (int (sb_sectorSize sb)))
         in bindG (markReservedSectors R sb (fb, 0)) (\<lambda>st.
            bindG (wrapG ''check fat status: %v'' []
                     (checkFatStatus rd ty ((fat_seek p (int (sb_sectorSize sb) * int (sb_reserved sb)))\<lparr>hasNibble := False\<rparr>)))
              (\<lambda>(fatStat, p2).
                 if fatStat = 1
                 then Fail (Errorf ''filesystem isn't in a valid state (not cleanly unmounted)'' [])
                 else if fatStat = 2 then Fail (Errorf ''I/O error while checking fat status'' [])
                 else bindG (scan_clusters clusterCount R rd ty sb totalSector 0 p2 st) (\<lambda>(fb', block).
                        Ret (fst (mark_run R (totalSector - block) (fb', block))))))))))"

section \<open>What the marking does\<close>

text \<open>The number of sectors of the bitmap, and the effect of the runs on the marked sectors.\<close>

lemma mark_run_spec:
  assumes "bm_inv R fb"
  shows "\<exists>fb'. mark_run R n (fb, block) = (fb', block + n) \<and> bm_inv R fb' \<and> Bits fb' = Bits fb
     \<and> used R fb' = used R fb \<union> ({block..<block + n} \<inter> {..<nat (Bits fb)})"
  using assms
proof (induction n arbitrary: fb block)
  case (Suc n)
  have S: "bm_inv R (Set R fb block)" "used R (Set R fb block) = used R fb \<union> ({block} \<inter> {..<nat (Bits fb)})"
    using fsbm.set1_inv [OF Suc.prems] fsbm.set1_used [OF Suc.prems] by blast+
  have B: "Bits (Set R fb block) = Bits fb" by simp
  obtain fb' where F: "mark_run R n (Set R fb block, block + 1) = (fb', block + 1 + n)" "bm_inv R fb'" "Bits fb' = Bits fb"
    "used R fb' = used R (Set R fb block) \<union> ({block + 1..<block + 1 + n} \<inter> {..<nat (Bits fb)})"
    using Suc.IH [OF S(1), of "block + 1"] unfolding B by blast
  have "used R fb' = used R fb \<union> ({block..<block + Suc n} \<inter> {..<nat (Bits fb)})"
    unfolding F(4) S(2) by auto
  then show ?case using F(1-3) by simp
qed simp

lemma markCluster_spec:
  assumes "bm_inv R fb" "used R fb = {..<nat (Bits fb)} - F" "\<And>x. x \<in> F \<Longrightarrow> x < block"
  shows "\<exists>fb'. markCluster R n u (fb, block) = (fb', block + n) \<and> bm_inv R fb' \<and> Bits fb' = Bits fb
     \<and> used R fb' = {..<nat (Bits fb)} - (F \<union> (if u then {} else {block..<block + n}))"
  using assms
proof (induction n arbitrary: fb block F)
  case (Suc n)
  let ?b = "if u then Set R fb block else Clear R fb block"
  let ?F = "F \<union> (if u then {} else {block})"
  have B: "Bits ?b = Bits fb" by simp
  have I: "bm_inv R ?b" using fsbm.set1_inv [OF Suc.prems(1)] fsbm.clear1_inv [OF Suc.prems(1)] by simp
  have U: "used R ?b = {..<nat (Bits ?b)} - ?F"
    unfolding B using fsbm.set1_used [OF Suc.prems(1), of block] fsbm.clear1_used [OF Suc.prems(1), of block]
      Suc.prems(2,3) by (auto split: if_splits)
  obtain fb' where F: "markCluster R n u (?b, block + 1) = (fb', block + 1 + n)" "bm_inv R fb'" "Bits fb' = Bits fb"
    "used R fb' = {..<nat (Bits fb)} - (?F \<union> (if u then {} else {block + 1..<block + 1 + n}))"
    using Suc.IH [OF I U, of "block + 1"] Suc.prems(3) unfolding B by (fastforce split: if_splits)
  have "?F \<union> (if u then {} else {block + 1..<block + 1 + n}) = F \<union> (if u then {} else {block..<block + Suc n})"
    by auto
  then show ?case using F by simp
qed simp

lemma mark_runs_spec:
  assumes "bm_inv R fb" "used R fb = {..<nat (Bits fb)}"
  shows "\<exists>fb'. mark_runs R k n (fb, block) = (fb', block + k * n) \<and> bm_inv R fb' \<and> Bits fb' = Bits fb
     \<and> used R fb' = {..<nat (Bits fb)}"
  using assms
proof (induction k arbitrary: fb block)
  case (Suc k)
  obtain fb1 where F: "mark_run R n (fb, block) = (fb1, block + n)" "bm_inv R fb1" "Bits fb1 = Bits fb"
    "used R fb1 = {..<nat (Bits fb)}"
    using mark_run_spec [OF Suc.prems(1), of n block] Suc.prems(2) by auto
  then show ?case using Suc.IH [of fb1 "block + n"] by (simp add: add.assoc)
qed simp

text \<open>The sectors in front of the data area.\<close>

definition data_start :: "fatBootSector \<Rightarrow> nat \<Rightarrow> nat" where
  "data_start sb secPerFat = sb_reserved sb + sb_fats sb * secPerFat + getRootSec sb"

lemma markReserved_spec:
  assumes "bm_inv R fb" "used R fb = {..<nat (Bits fb)}" "getSecPerFat sb = Ret spf"
  shows "\<exists>fb'. markReservedSectors R sb (fb, 0) = Ret (fb', data_start sb spf) \<and> bm_inv R fb' \<and> Bits fb' = Bits fb
     \<and> used R fb' = {..<nat (Bits fb)}"
proof -
  obtain fb1 where 1: "mark_run R (sb_reserved sb) (fb, 0) = (fb1, sb_reserved sb)" "bm_inv R fb1" "Bits fb1 = Bits fb"
    "used R fb1 = {..<nat (Bits fb)}"
    using mark_run_spec [OF assms(1), of "sb_reserved sb" 0] assms(2) by auto
  obtain fb2 where 2: "mark_runs R (sb_fats sb) spf (fb1, sb_reserved sb) = (fb2, sb_reserved sb + sb_fats sb * spf)"
    "bm_inv R fb2" "Bits fb2 = Bits fb" "used R fb2 = {..<nat (Bits fb)}"
    using mark_runs_spec [OF 1(2), of "sb_fats sb" spf "sb_reserved sb"] 1(3,4) by auto
  show ?thesis
    using mark_run_spec [OF 2(2), of "getRootSec sb" "sb_reserved sb + sb_fats sb * spf"] 2(3,4)
    by (auto simp: markReservedSectors_def assms(3) 1(1) 2(1) data_start_def)
qed

section \<open>The entries\<close>

text \<open>The value of the next entry, and whether it denotes a free or bad cluster.\<close>

definition next_entry :: "ReaderAt \<Rightarrow> fat_type \<Rightarrow> fat_cursor \<Rightarrow> (nat \<times> fat_cursor) go" where
  "next_entry rd ty p =
     (case ty of fat12 \<Rightarrow> read12 rd p
      | fat16 \<Rightarrow> bindG (readSeq rd p 2) (\<lambda>(buf, p1). Ret (le_at 2 buf 0, p1))
      | fat32 \<Rightarrow> bindG (readSeq rd p 4) (\<lambda>(buf, p1). Ret (le_at 4 buf 0, p1)))"

definition bad_entry :: "fat_type \<Rightarrow> nat" where
  "bad_entry ty = (case ty of fat12 \<Rightarrow> 0xFF7 | fat16 \<Rightarrow> 0xFFF7 | fat32 \<Rightarrow> 0x0FFFFFF7)"

definition entry_free :: "fat_type \<Rightarrow> nat \<Rightarrow> bool" where
  "entry_free ty e \<longleftrightarrow> e = 0 \<or> e = bad_entry ty"

fun entries :: "ReaderAt \<Rightarrow> fat_type \<Rightarrow> nat \<Rightarrow> fat_cursor \<Rightarrow> nat list go" where
  "entries rd ty 0 p = Ret []"
| "entries rd ty (Suc n) p =
     bindG (next_entry rd ty p) (\<lambda>(e, p'). bindG (entries rd ty n p') (\<lambda>es. Ret (e # es)))"

lemma check_entry_eq:
  "check_entry R rd ty sb p st =
     bindG (next_entry rd ty p) (\<lambda>(e, p'). Ret (markCluster R (sb_clusterSize sb) (\<not> entry_free ty e) st, p'))"
  by (cases ty; cases "readSeq rd p 2"; cases "readSeq rd p 4"; cases "read12 rd p")
    (auto simp: check_entry_def next_entry_def checkFat12Entry_def checkFat16Entry_def checkFat32Entry_def
      entry_free_def bad_entry_def Let_def disj_commute split: prod.splits)

text \<open>The sectors of the free clusters, for the cluster entries \<open>es\<close> from \<open>block\<close> on.\<close>

definition free_sectors :: "fat_type \<Rightarrow> nat \<Rightarrow> nat \<Rightarrow> nat list \<Rightarrow> nat set" where
  "free_sectors ty cs block es =
     {s. block \<le> s \<and> (s - block) div cs < length es \<and> entry_free ty (es ! ((s - block) div cs))}"

lemma free_sectors_Cons:
  assumes "0 < cs"
  shows "free_sectors ty cs block (e # es)
     = (if entry_free ty e then {block..<block + cs} else {}) \<union> free_sectors ty cs (block + cs) es"
proof -
  have "s \<in> free_sectors ty cs block (e # es) \<longleftrightarrow>
      s \<in> (if entry_free ty e then {block..<block + cs} else {}) \<union> free_sectors ty cs (block + cs) es" for s
  proof (cases "block \<le> s \<and> s < block + cs")
    case True
    then have "(s - block) div cs = 0" by (intro div_less) linarith
    with True show ?thesis by (auto simp: free_sectors_def)
  next
    case False
    show ?thesis
    proof (cases "block + cs \<le> s")
      case True
      define d where "d = s - (block + cs)"
      have "s - block = d + cs" using True by (simp add: d_def)
      then have "(s - block) div cs = Suc (d div cs)" using div_add_self2 [of cs d] assms by simp
      then have "(s - block) div cs = Suc ((s - (block + cs)) div cs)" by (simp only: d_def)
      with True False show ?thesis by (auto simp: free_sectors_def)
    next
      case F: False
      with False show ?thesis by (auto simp: free_sectors_def)
    qed
  qed
  then show ?thesis by blast
qed

lemma scan_clusters_spec:
  assumes cs: "0 < sb_clusterSize sb"
  shows "bm_inv R fb \<Longrightarrow> used R fb = {..<nat (Bits fb)} - F \<Longrightarrow> (\<And>x. x \<in> F \<Longrightarrow> x < block) \<Longrightarrow>
     scan_clusters n R rd ty sb totalSector i p (fb, block) = Ret (fb', block') \<Longrightarrow>
     \<exists>es. entries rd ty n p = Ret es \<and> length es = n \<and> block' = block + n * sb_clusterSize sb \<and> bm_inv R fb'
       \<and> Bits fb' = Bits fb
       \<and> used R fb' = {..<nat (Bits fb)} - (F \<union> free_sectors ty (sb_clusterSize sb) block es)"
proof (induction n arbitrary: i p fb block F)
  case 0
  then show ?case by (auto simp: free_sectors_def)
next
  case (Suc n)
  let ?cs = "sb_clusterSize sb"
  have lt: "\<not> snd (fb, block) \<ge> totalSector" using Suc.prems(4) by (auto split: if_splits)
  then obtain e p' where e: "next_entry rd ty p = Ret (e, p')"
    "scan_clusters n R rd ty sb totalSector (i + 1) p' (markCluster R ?cs (\<not> entry_free ty e) (fb, block)) = Ret (fb', block')"
    using Suc.prems(4) by (auto simp: check_entry_eq bindG_Ret split: prod.splits)
  let ?F = "F \<union> (if \<not> entry_free ty e then {} else {block..<block + ?cs})"
  obtain fb1 where 1: "markCluster R ?cs (\<not> entry_free ty e) (fb, block) = (fb1, block + ?cs)" "bm_inv R fb1"
    "Bits fb1 = Bits fb" "used R fb1 = {..<nat (Bits fb1)} - ?F"
    using markCluster_spec [OF Suc.prems(1-3), of ?cs "\<not> entry_free ty e"] by auto
  have below: "x < block + ?cs" if "x \<in> ?F" for x
    using that Suc.prems(3) by (fastforce split: if_splits)
  obtain es where es: "entries rd ty n p' = Ret es" "length es = n" "block' = block + ?cs + n * ?cs" "bm_inv R fb'"
    "Bits fb' = Bits fb1" "used R fb' = {..<nat (Bits fb1)} - (?F \<union> free_sectors ty ?cs (block + ?cs) es)"
    using Suc.IH [OF 1(2,4) below e(2) [unfolded 1(1)]] by blast
  have "?F \<union> free_sectors ty ?cs (block + ?cs) es = F \<union> free_sectors ty ?cs block (e # es)"
    using free_sectors_Cons [OF cs] by auto
  then show ?case using es e(1) 1(3) by (intro exI [of _ "e # es"]) simp
qed

section \<open>The whole parser\<close>

definition fat_start :: "fatBootSector \<Rightarrow> fat_cursor \<Rightarrow> fat_cursor" where
  "fat_start sb p = (fat_seek p (int (sb_sectorSize sb) * int (sb_reserved sb)))\<lparr>hasNibble := False\<rparr>"

lemma parseBootSector_ok:
  assumes "parseBootSector rd p = Ret (sb, p')"
  shows "0 < sb_sectorSize sb" "0 < sb_clusterSize sb" "sb_sectors sb < 2 ^ 16" "sb_sectorCount sb < 2 ^ 32"
proof -
  obtain buf where b: "sb_sectors sb = le_at 2 buf 19" "sb_sectorCount sb = le_at 4 buf 32"
    "0 < sb_sectorSize sb" "0 < sb_clusterSize sb"
    using assms by (auto simp: parseBootSector_def bindG_Ret Let_def split: if_splits)
  then show "0 < sb_sectorSize sb" "0 < sb_clusterSize sb" "sb_sectors sb < 2 ^ 16" "sb_sectorCount sb < 2 ^ 32"
    using le_at_less [of 2 buf 19] le_at_less [of 4 buf 32] by simp_all
qed

lemma getTotalSector_bound:
  "parseBootSector rd p = Ret (sb, p') \<Longrightarrow> getTotalSector sb = Ret n \<Longrightarrow> 0 < n \<and> n < 2 ^ 32"
  using parseBootSector_ok(3,4) by (fastforce simp: getTotalSector_def split: if_splits)

lemma fresh_bitmap_full:
  fixes t :: string and k :: BitmapKind and bs :: int
  assumes "roaring_ok R" "n < 2 ^ 32"
  defines "fb \<equiv> SetAll R (NewFsBitmap t k (int n) bs)"
  shows "bm_inv R fb" "used R fb = {..<nat (Bits fb)}" "Bits fb = int n"
proof -
  have N: "bm_inv R (NewFsBitmap t k (int n) bs)" using NewFsBitmap_spec [OF assms(1)] assms(2) by auto
  show "bm_inv R fb" unfolding fb_def by (rule fsbm.set_all_inv [OF N])
  show "Bits fb = int n" by (simp add: fb_def NewFsBitmap_def)
  show "used R fb = {..<nat (Bits fb)}" using fsbm.set_all_used [OF N] by (simp add: fb_def)
qed

text \<open>The tail of \<open>Dump\<close> from the marked reserved area on.\<close>

lemma fat_Dump_unfold:
  assumes "roaring_ok R" and sb: "parseBootSector rd (fat_seek p0 0) = Ret (sb, p)" and ty: "getFatType sb = Ret ty"
    and total: "getTotalSector sb = Ret totalSector" and spf: "getSecPerFat sb = Ret spf"
    and n: "getClusterCount sb = Ret n" "n \<le> maxFatClusters"
    and st: "checkFatStatus rd ty (fat_start sb p) = Ret (stat, p2)" "stat \<noteq> 1" "stat \<noteq> 2"
  shows "\<exists>fb. bm_inv R fb \<and> Bits fb = int totalSector \<and> used R fb = {..<totalSector}
     \<and> fat_Dump R rd p0 = bindG (scan_clusters n R rd ty sb totalSector 0 p2 (fb, data_start sb spf))
         (\<lambda>(fb', block). Ret (fst (mark_run R (totalSector - block) (fb', block))))"
proof -
  let ?fb = "SetAll R (NewFsBitmap (fsName ty) BitmapFromFS (int totalSector) (int (sb_sectorSize sb)))"
  have t: "totalSector < 2 ^ 32" using getTotalSector_bound [OF sb total] by simp
  note F = fresh_bitmap_full [OF assms(1) t, of "fsName ty" BitmapFromFS "int (sb_sectorSize sb)"]
  obtain fb where fb: "markReservedSectors R sb (?fb, 0) = Ret (fb, data_start sb spf)" "bm_inv R fb"
    "Bits fb = int totalSector" "used R fb = {..<totalSector}"
    using markReserved_spec [OF F(1,2) spf] unfolding F(3) by auto
  have "fat_Dump R rd p0 = bindG (scan_clusters n R rd ty sb totalSector 0 p2 (fb, data_start sb spf))
         (\<lambda>(fb', block). Ret (fst (mark_run R (totalSector - block) (fb', block))))"
    unfolding fat_Dump_def sb bindG_simps prod.case ty total n(1) if_not_P [OF leD [OF n(2)]] Let_def fb(1)
      fat_start_def [symmetric] st(1) wrapG_simps if_not_P [OF st(2)] if_not_P [OF st(3)] ..
  with fb(2-4) show ?thesis by blast
qed

lemma fat_Dump_Ret:
  assumes "fat_Dump R rd p0 = Ret b"
  obtains sb p ty totalSector spf n stat p2 where "parseBootSector rd (fat_seek p0 0) = Ret (sb, p)"
    "getFatType sb = Ret ty" "getTotalSector sb = Ret totalSector" "getSecPerFat sb = Ret spf"
    "getClusterCount sb = Ret n" "n \<le> maxFatClusters" "checkFatStatus rd ty (fat_start sb p) = Ret (stat, p2)"
    "stat \<noteq> 1" "stat \<noteq> 2"
  using assms unfolding fat_Dump_def bindG_Ret Let_def
  by (auto simp: bindG_Ret not_less markReservedSectors_def fat_start_def split: if_splits prod.splits)

lemma cluster_area:
  assumes "getClusterCount sb = Ret n" "getTotalSector sb = Ret t" "getSecPerFat sb = Ret spf" "0 < n"
  shows "data_start sb spf + n * sb_clusterSize sb \<le> t"
proof -
  have e: "\<not> data_start sb spf > t" "n = (t - data_start sb spf) div sb_clusterSize sb"
    using assms by (auto simp: getClusterCount_def data_start_def Let_def split: if_splits)
  have "n * sb_clusterSize sb \<le> t - data_start sb spf" unfolding e(2) by (rule div_times_less_eq_dividend)
  then show ?thesis using e(1) by linarith
qed

end
