(* ===== verification/FatVolume.thy ===== *)
theory FatVolume
  imports Fat
begin

text \<open>
  The properties of the FAT parser: what the returned bitmap marks, that the parser returns, and
  that its sequential reader, with the nibble buffer of FAT12, decodes the table entries.
\<close>

section \<open>The table\<close>

text \<open>The entry \<open>k\<close> of a table that starts at the byte \<open>off\<close> of the image.\<close>

definition table_entry :: "fat_type \<Rightarrow> byte list \<Rightarrow> nat \<Rightarrow> nat \<Rightarrow> nat" where
  "table_entry ty img off k =
     (case ty of
        fat12 \<Rightarrow> let w = le_at 2 img (off + 3 * k div 2) in if even k then w mod 2 ^ 12 else w div 2 ^ 4
      | fat16 \<Rightarrow> le_at 2 img (off + 2 * k)
      | fat32 \<Rightarrow> le_at 4 img (off + 4 * k))"

definition table_end :: "fat_type \<Rightarrow> nat \<Rightarrow> nat" where
  "table_end ty k = (case ty of fat12 \<Rightarrow> (3 * k + 1) div 2 | fat16 \<Rightarrow> 2 * k | fat32 \<Rightarrow> 4 * k)"

text \<open>The reader's state in front of the entry \<open>k\<close>.\<close>

definition at_entry :: "fat_type \<Rightarrow> byte list \<Rightarrow> nat \<Rightarrow> nat \<Rightarrow> fat_cursor \<Rightarrow> bool" where
  "at_entry ty img off k p \<longleftrightarrow> cursor p = int (off + table_end ty k)
     \<and> (ty = fat12 \<longrightarrow> hasNibble p = odd k \<and> (odd k \<longrightarrow> nibble p = le_at 1 img (off + 3 * k div 2) div 16))"

lemma readSeq_bytes:
  assumes "cursor p = int c" "c + n \<le> length img"
  shows "readSeq (read_bytes img) p n = Ret (take n (drop c img), p\<lparr>cursor := int (c + n)\<rparr>)"
  using assms by (simp add: readSeq_def read_bytes_def Let_def)

lemma replicate_two: "replicate 2 x = [x, x]"
  by (simp add: numeral_2_eq_2)

lemma le_at_0 [simp]: "le_at n (take n (drop c img)) 0 = le_at n img c"
  by (simp add: le_at_def)

lemma le_at_2: "Suc c < length img \<Longrightarrow> le_at 2 img c = le_at 1 img c + 256 * le_at 1 img (Suc c)"
  by (simp add: le_at_def numeral_2_eq_2 flip: Cons_nth_drop_Suc)

lemma le_at_1: "c < length img \<Longrightarrow> le_at 1 img c = unat (img ! c)"
  by (simp add: le_at_def flip: Cons_nth_drop_Suc)

lemma next_entry_decodes:
  assumes p: "at_entry ty img off k p" and len: "off + table_end ty (k + 1) \<le> length img"
  shows "\<exists>p'. next_entry (read_bytes img) ty p = Ret (table_entry ty img off k, p') \<and> at_entry ty img off (k + 1) p'"
proof (cases ty)
  case fat12
  show ?thesis
  proof (cases "even k")
    case True
    then obtain m where k: "k = 2 * m" by (rule evenE)
    have c: "cursor p = int (off + 3 * m)" "\<not> hasNibble p" using p by (auto simp: at_entry_def fat12 k table_end_def)
    have l: "off + 3 * m + 2 \<le> length img" using len by (simp add: fat12 k table_end_def)
    have w: "le_at 2 img (off + 3 * m) = le_at 1 img (off + 3 * m) + 256 * le_at 1 img (off + 3 * m + 1)"
      using le_at_2 [of "off + 3 * m" img] l by simp
    have "le_at 1 img (off + 3 * m) < 256" using le_at_less [of 1 img "off + 3 * m"] by simp
    then have hi: "le_at 2 img (off + 3 * m) div 4096 = le_at 1 img (off + 3 * m + 1) div 16" unfolding w by simp
    have "(3 + 6 * m) div 2 = 3 * m + 1" by simp
    then show ?thesis
      using c readSeq_bytes [OF c(1) l] hi
      by (simp add: fat12 next_entry_def read12_def Let_def table_entry_def k at_entry_def table_end_def)
  next
    case False
    then obtain m where k: "k = 2 * m + 1" by (rule oddE)
    have d: "3 * k div 2 = 3 * m + 1" "(3 * k + 1) div 2 = 3 * m + 2" "(3 * (k + 1) + 1) div 2 = 3 * m + 3"
      unfolding k by simp_all
    have c: "cursor p = int (off + 3 * m + 2)" "hasNibble p" "nibble p = le_at 1 img (off + 3 * m + 1) div 16"
      using p by (auto simp: at_entry_def fat12 d table_end_def False add.assoc)
    have l: "off + 3 * m + 2 + 1 \<le> length img" using len unfolding fat12 table_end_def fat_type.case d(3) by simp
    have w: "le_at 2 img (off + 3 * m + 1) = le_at 1 img (off + 3 * m + 1) + 256 * le_at 1 img (off + 3 * m + 2)"
      using le_at_2 [of "off + 3 * m + 1" img] l by simp
    have v: "le_at 2 img (off + 3 * m + 1) div 16 = le_at 1 img (off + 3 * m + 2) * 16 + le_at 1 img (off + 3 * m + 1) div 16"
      unfolding w by simp
    have b: "unat (take 1 (drop (off + 3 * m + 2) img) ! 0) = le_at 1 img (off + 3 * m + 2)"
      using le_at_1 [of "off + 3 * m + 2" img] l by simp
    have "next_entry (read_bytes img) ty p
        = Ret (table_entry ty img off k, p\<lparr>cursor := int (off + 3 * m + 2 + 1), hasNibble := False\<rparr>)"
      unfolding fat12 next_entry_def read12_def fat_type.case
      using c readSeq_bytes [OF c(1) l] v b False by (simp add: table_entry_def Let_def d add.assoc)
    moreover have "at_entry ty img off (k + 1) (p\<lparr>cursor := int (off + 3 * m + 2 + 1), hasNibble := False\<rparr>)"
      unfolding at_entry_def fat12 table_end_def fat_type.case d(3) using False by simp
    ultimately show ?thesis by blast
  qed
next
  case fat16
  have c: "cursor p = int (off + 2 * k)" using p by (simp add: at_entry_def fat16 table_end_def)
  have l: "off + 2 * k + 2 \<le> length img" using len by (simp add: fat16 table_end_def)
  show ?thesis
    using readSeq_bytes [OF c l] by (simp add: fat16 next_entry_def table_entry_def at_entry_def table_end_def)
next
  case fat32
  have c: "cursor p = int (off + 4 * k)" using p by (simp add: at_entry_def fat32 table_end_def)
  have l: "off + 4 * k + 4 \<le> length img" using len by (simp add: fat32 table_end_def)
  show ?thesis
    using readSeq_bytes [OF c l] by (simp add: fat32 next_entry_def table_entry_def at_entry_def table_end_def)
qed

lemma table_end_mono: "a \<le> b \<Longrightarrow> table_end ty a \<le> table_end ty b"
  by (cases ty) (auto simp: table_end_def intro!: div_le_mono)

lemma entries_decode:
  assumes "at_entry ty img off k p" "off + table_end ty (k + n) \<le> length img"
  shows "entries (read_bytes img) ty n p = Ret (map (table_entry ty img off) [k..<k + n])"
  using assms
proof (induction n arbitrary: k p)
  case (Suc n)
  have "off + table_end ty (k + 1) \<le> length img"
    using Suc.prems(2) table_end_mono [of "k + 1" "k + Suc n" ty] by simp
  from next_entry_decodes [OF Suc.prems(1) this] obtain p' where
    p': "next_entry (read_bytes img) ty p = Ret (table_entry ty img off k, p')" "at_entry ty img off (k + 1) p'" by blast
  have "entries (read_bytes img) ty n p' = Ret (map (table_entry ty img off) [k + 1..<k + 1 + n])"
    using Suc.IH [OF p'(2)] Suc.prems(2) by simp
  then show ?case using p'(1) upt_conv_Cons [of k "k + Suc n"] by simp
qed simp

text \<open>The status check reads the first two entries.\<close>

lemma checkFatStatus_two:
  assumes "at_entry ty img off 0 p" "off + table_end ty 2 \<le> length img"
  obtains p2 stat where "checkFatStatus (read_bytes img) ty p = Ret (stat, p2)" "at_entry ty img off 2 p2"
proof -
  have l: "off + table_end ty (0 + 1) \<le> length img" "off + table_end ty (1 + 1) \<le> length img"
    using assms(2) table_end_mono [of 1 2 ty] by (simp_all add: numeral_2_eq_2)
  obtain p1 where p1: "next_entry (read_bytes img) ty p = Ret (table_entry ty img off 0, p1)" "at_entry ty img off 1 p1"
    using next_entry_decodes [OF assms(1) l(1)] by auto
  obtain p2 where p2: "next_entry (read_bytes img) ty p1 = Ret (table_entry ty img off 1, p2)" "at_entry ty img off 2 p2"
    using next_entry_decodes [OF p1(2) l(2)] by (auto simp: numeral_2_eq_2)
  have "\<exists>stat. checkFatStatus (read_bytes img) ty p = Ret (stat, p2)"
  proof (cases ty)
    case fat12
    then show ?thesis using p1(1) p2(1) by (simp add: checkFatStatus_def next_entry_def)
  next
    case fat16
    then obtain a b where "readSeq (read_bytes img) p 2 = Ret (a, p1)" "readSeq (read_bytes img) p1 2 = Ret (b, p2)"
      using p1(1) p2(1) by (auto simp: next_entry_def bindG_Ret)
    then show ?thesis by (simp add: fat16 checkFatStatus_def Let_def)
  next
    case fat32
    then obtain a b where "readSeq (read_bytes img) p 4 = Ret (a, p1)" "readSeq (read_bytes img) p1 4 = Ret (b, p2)"
      using p1(1) p2(1) by (auto simp: next_entry_def bindG_Ret)
    then show ?thesis by (simp add: fat32 checkFatStatus_def Let_def)
  qed
  then show thesis using that p2(2) by blast
qed

section \<open>Success\<close>

lemma fat_Dump_total:
  assumes R: "roaring_ok R" and D: "parseBootSector rd (fat_seek p0 0) = Ret (sb, p)"
    "getFatType sb = Ret ty" "getTotalSector sb = Ret totalSector" "getSecPerFat sb = Ret spf"
    "getClusterCount sb = Ret n" "n \<le> maxFatClusters" "checkFatStatus rd ty (fat_start sb p) = Ret (0, p2)"
    and es: "entries rd ty n p2 = Ret es"
  shows "\<exists>b. fat_Dump R rd p0 = Ret b"
proof -
  have scan: "\<exists>st. scan_clusters k R rd ty sb totalSector i q (fb, block) = Ret st"
    if "entries rd ty k q = Ret es" "bm_inv R fb" "used R fb = {..<nat (Bits fb)} - F" "\<And>x. x \<in> F \<Longrightarrow> x < block"
      "k = 0 \<or> block + k * sb_clusterSize sb \<le> totalSector" for k i q fb block F es
    using that
  proof (induction k arbitrary: i q fb block F es)
    case (Suc k)
    let ?cs = "sb_clusterSize sb"
    have cs: "0 < ?cs" by (rule parseBootSector_ok(2) [OF D(1)])
    have lt: "block < totalSector" "k = 0 \<or> block + ?cs + k * ?cs \<le> totalSector" using Suc.prems(5) cs by auto
    obtain e q' es' where e: "next_entry rd ty q = Ret (e, q')" "entries rd ty k q' = Ret es'"
      using Suc.prems(1) by (auto simp: bindG_Ret)
    let ?F = "F \<union> (if \<not> entry_free ty e then {} else {block..<block + ?cs})"
    obtain fb1 where 1: "markCluster R ?cs (\<not> entry_free ty e) (fb, block) = (fb1, block + ?cs)" "bm_inv R fb1"
      "used R fb1 = {..<nat (Bits fb1)} - ?F"
      using markCluster_spec [OF Suc.prems(2-4), of ?cs "\<not> entry_free ty e"] by auto
    have "x < block + ?cs" if "x \<in> ?F" for x using that Suc.prems(4) by (fastforce split: if_splits)
    from Suc.IH [OF e(2) 1(2,3) this lt(2)] show ?case using lt(1) by (simp add: check_entry_eq e(1) 1(1))
  qed simp
  obtain fb where fb: "bm_inv R fb" "Bits fb = int totalSector" "used R fb = {..<totalSector}"
    "fat_Dump R rd p0 = bindG (scan_clusters n R rd ty sb totalSector 0 p2 (fb, data_start sb spf))
         (\<lambda>(fb', block). Ret (fst (mark_run R (totalSector - block) (fb', block))))"
    using fat_Dump_unfold [OF R D] by force
  have "n = 0 \<or> data_start sb spf + n * sb_clusterSize sb \<le> totalSector"
    using cluster_area [OF D(5,3,4)] by blast
  then obtain st where "scan_clusters n R rd ty sb totalSector 0 p2 (fb, data_start sb spf) = Ret st"
    using scan [OF es fb(1), of "{}" "data_start sb spf" 0] fb(2,3) by auto
  then show ?thesis unfolding fb(4) by (auto split: prod.splits)
qed

section \<open>An image\<close>

text \<open>A FAT12 volume of eight sectors of 32 bytes; its clusters are free, used and bad.\<close>

definition demo_fat_boot :: "byte list" where
  "demo_fat_boot = replicate 11 0 @ [32, 0, 1, 3, 0, 1, 1, 0, 8, 0, 0, 1, 0] @ replicate 14 0 @ [0x29] @ replicate 57 0"

definition demo_fat :: "byte list" where
  "demo_fat = demo_fat_boot @ [0xF8, 0xFF, 0xFF, 0x00, 0xF0, 0xFF, 0xF7, 0x0F, 0x00] @ replicate 151 0"

definition demo_fat_sb :: fatBootSector where
  "demo_fat_sb = \<lparr>sb_sectorSize = 32, sb_clusterSize = 1, sb_reserved = 3, sb_fats = 1, sb_dirEntries = 1,
     sb_sectors = 8, sb_fatLength = 1, sb_sectorCount = 0, sb_fat32Length = 0x290000, sb_rootCluster = 0,
     sb_extSig16 = 0x29, sb_extSig32 = 0, sb_fatName32 = replicate 8 0\<rparr>"

definition demo_cursor :: fat_cursor where
  "demo_cursor = \<lparr>cursor = 0, nibble = 0, hasNibble = False\<rparr>"

lemma demo_fat_parse:
  "parseBootSector (read_bytes demo_fat) (fat_seek demo_cursor 0) = Ret (demo_fat_sb, demo_cursor\<lparr>cursor := 90\<rparr>)"
proof -
  have "length demo_fat = 256" by (simp add: demo_fat_def demo_fat_boot_def)
  then have "readSeq (read_bytes demo_fat) (fat_seek demo_cursor 0) 90 = Ret (take 90 demo_fat, demo_cursor\<lparr>cursor := 90\<rparr>)"
    using readSeq_bytes [of "fat_seek demo_cursor 0" 0 90 demo_fat] by (simp add: fat_seek_def demo_cursor_def)
  then show ?thesis
    by (simp add: parseBootSector_def Let_def demo_fat_def demo_fat_boot_def le_at_def demo_fat_sb_def
        le_replicate replicate_two)
qed

lemma demo_fat_sizes:
  "getFatType demo_fat_sb = Ret fat12" "getTotalSector demo_fat_sb = Ret 8" "getSecPerFat demo_fat_sb = Ret 1"
  "getClusterCount demo_fat_sb = Ret 3" "3 \<le> maxFatClusters" "data_start demo_fat_sb 1 = 5"
  by (simp_all add: getFatType_def getTotalSector_def getSecPerFat_def getClusterCount_def getRootSec_def
      roundToMultiple_def fat12Threshold_def maxFatClusters_def data_start_def Let_def demo_fat_sb_def)

lemma demo_at_0: "at_entry fat12 demo_fat 96 0 (fat_start demo_fat_sb p)"
  by (simp add: at_entry_def fat_start_def fat_seek_def demo_fat_sb_def table_end_def)

lemma demo_fat_entries:
  obtains p2 where "checkFatStatus (read_bytes demo_fat) fat12 (fat_start demo_fat_sb (demo_cursor\<lparr>cursor := 90\<rparr>)) = Ret (0, p2)"
    "entries (read_bytes demo_fat) fat12 3 p2 = Ret (map (table_entry fat12 demo_fat 96) [2..<5])"
proof -
  have l: "length demo_fat = 256" by (simp add: demo_fat_def demo_fat_boot_def)
  obtain p2 stat where p2: "checkFatStatus (read_bytes demo_fat) fat12 (fat_start demo_fat_sb (demo_cursor\<lparr>cursor := 90\<rparr>)) = Ret (stat, p2)"
    "at_entry fat12 demo_fat 96 2 p2"
  proof (rule checkFatStatus_two [OF demo_at_0])
    show "96 + table_end fat12 2 \<le> length demo_fat" by (simp add: l table_end_def)
  qed
  have "stat = 0" using p2(1) by (auto simp: checkFatStatus_def bindG_Ret)
  then show thesis using that p2 entries_decode [OF p2(2), of 3] l by (simp add: table_end_def)
qed

section \<open>Properties\<close>

text \<open>
  C20.  When the FAT parser returns a bitmap, it has one bit per sector of the volume, and exactly the
  sectors of the free and of the bad clusters are unmarked: the reserved sectors, the tables, the
  root directory, the used clusters and the rest behind the last cluster are marked.
\<close>

theorem fat_marks:
  assumes R: "roaring_ok R" and d: "fat_Dump R rd p0 = Ret b"
  shows "\<exists>sb p ty totalSector spf n stat p2 es.
     parseBootSector rd (fat_seek p0 0) = Ret (sb, p) \<and> getFatType sb = Ret ty
     \<and> getTotalSector sb = Ret totalSector \<and> getSecPerFat sb = Ret spf \<and> getClusterCount sb = Ret n
     \<and> checkFatStatus rd ty (fat_start sb p) = Ret (stat, p2)
     \<and> entries rd ty n p2 = Ret es \<and> length es = n \<and> Bits b = int totalSector
     \<and> (\<forall>s. IsSet R b s \<longleftrightarrow> s < totalSector \<and>
          \<not> (data_start sb spf \<le> s \<and> (s - data_start sb spf) div sb_clusterSize sb < n
             \<and> entry_free ty (es ! ((s - data_start sb spf) div sb_clusterSize sb))))"
proof -
  obtain sb p ty totalSector spf n stat p2 where D: "parseBootSector rd (fat_seek p0 0) = Ret (sb, p)"
    "getFatType sb = Ret ty" "getTotalSector sb = Ret totalSector" "getSecPerFat sb = Ret spf"
    "getClusterCount sb = Ret n" "n \<le> maxFatClusters" "checkFatStatus rd ty (fat_start sb p) = Ret (stat, p2)"
    "stat \<noteq> 1" "stat \<noteq> 2"
    using fat_Dump_Ret [OF d] by metis
  let ?ds = "data_start sb spf" and ?cs = "sb_clusterSize sb"
  have cs: "0 < ?cs" by (rule parseBootSector_ok(2) [OF D(1)])
  obtain fb where fb: "bm_inv R fb" "Bits fb = int totalSector" "used R fb = {..<totalSector}"
    "fat_Dump R rd p0 = bindG (scan_clusters n R rd ty sb totalSector 0 p2 (fb, ?ds))
         (\<lambda>(fb', block). Ret (fst (mark_run R (totalSector - block) (fb', block))))"
    using fat_Dump_unfold [OF R D] by blast
  obtain fb' block where S: "scan_clusters n R rd ty sb totalSector 0 p2 (fb, ?ds) = Ret (fb', block)"
    "b = fst (mark_run R (totalSector - block) (fb', block))"
    using d unfolding fb(4) by (auto simp: bindG_Ret)
  obtain es where E: "entries rd ty n p2 = Ret es" "length es = n" "block = ?ds + n * ?cs" "bm_inv R fb'"
    "Bits fb' = int totalSector" "used R fb' = {..<totalSector} - free_sectors ty ?cs ?ds es"
    using scan_clusters_spec [OF cs fb(1) _ _ S(1), of "{}"] fb(2,3) by auto
  obtain b' where M: "mark_run R (totalSector - block) (fb', block) = (b', block + (totalSector - block))" "bm_inv R b'"
    "Bits b' = Bits fb'" "used R b' = used R fb' \<union> ({block..<block + (totalSector - block)} \<inter> {..<nat (Bits fb')})"
    using mark_run_spec [OF E(4), of "totalSector - block" block] by blast
  have "b = b'" using S(2) M(1) by simp
  then have B: "bm_inv R b" "Bits b = int totalSector"
    "used R b = used R fb' \<union> ({block..<block + (totalSector - block)} \<inter> {..<totalSector})"
    using M(2-4) E(5) by simp_all
  have "s \<notin> free_sectors ty ?cs ?ds es" if "block \<le> s" for s
  proof -
    have "n * ?cs \<le> s - ?ds" using that E(3) by linarith
    then have "n \<le> (s - ?ds) div ?cs" using cs by (simp add: less_eq_div_iff_mult_less_eq)
    then show ?thesis using E(2) by (simp add: free_sectors_def)
  qed
  then have "used R b = {..<totalSector} - free_sectors ty ?cs ?ds es" unfolding B(3) E(6) by auto
  then have mem: "IsSet R b s \<longleftrightarrow> s < totalSector \<and> \<not> (?ds \<le> s \<and> (s - ?ds) div ?cs < n
      \<and> entry_free ty (es ! ((s - ?ds) div ?cs)))" for s
    using IsSet_used [OF B(1)] E(2) by (simp add: free_sectors_def)
  show ?thesis
    by (intro exI conjI allI, rule D(1), rule D(2), rule D(3), rule D(4), rule D(5), rule D(7), rule E(1), rule E(2),
        rule B(2), rule mem)
qed

text \<open>
   The parser returns a bitmap whenever its reads succeed, the volume is clean and the cluster
  count is within the limit: the check against a block beyond the volume never fires.
\<close>

lemma fat_dump_returns:
  assumes R: "roaring_ok R" and D: "parseBootSector rd (fat_seek p0 0) = Ret (sb, p)"
    "getFatType sb = Ret ty" "getTotalSector sb = Ret totalSector" "getSecPerFat sb = Ret spf"
    "getClusterCount sb = Ret n" "n \<le> maxFatClusters" "checkFatStatus rd ty (fat_start sb p) = Ret (0, p2)"
    and es: "entries rd ty n p2 = Ret es"
  shows "\<exists>b. fat_Dump R rd p0 = Ret b"
  by (rule fat_Dump_total [OF assms])

lemma fat_dump_returns_example: "\<exists>b. fat_Dump list_roaring (read_bytes demo_fat) demo_cursor = Ret b"
proof -
  obtain p2 where "checkFatStatus (read_bytes demo_fat) fat12 (fat_start demo_fat_sb (demo_cursor\<lparr>cursor := 90\<rparr>)) = Ret (0, p2)"
    "entries (read_bytes demo_fat) fat12 3 p2 = Ret (map (table_entry fat12 demo_fat 96) [2..<5])"
    by (rule demo_fat_entries)
  from fat_dump_returns [OF roaring_exact_ok [OF list_roaring_exact] demo_fat_parse demo_fat_sizes(1-5) this]
  show ?thesis .
qed

theorem fat_marks_witness:
  "\<exists>b. fat_Dump list_roaring (read_bytes demo_fat) demo_cursor = Ret b \<and> Bits b = 8
     \<and> \<not> IsSet list_roaring b 5 \<and> IsSet list_roaring b 6 \<and> \<not> IsSet list_roaring b 7 \<and> IsSet list_roaring b 0"
proof -
  obtain p2 where p2: "checkFatStatus (read_bytes demo_fat) fat12 (fat_start demo_fat_sb (demo_cursor\<lparr>cursor := 90\<rparr>)) = Ret (0, p2)"
    "entries (read_bytes demo_fat) fat12 3 p2 = Ret (map (table_entry fat12 demo_fat 96) [2..<5])"
    by (rule demo_fat_entries)
  note R = roaring_exact_ok [OF list_roaring_exact]
  obtain b where b: "fat_Dump list_roaring (read_bytes demo_fat) demo_cursor = Ret b"
    using fat_Dump_total [OF R demo_fat_parse demo_fat_sizes(1-5) p2] by blast
  have es: "map (table_entry fat12 demo_fat 96) [2..<5] = [0x000, 0xFFF, 0xFF7]"
    by (simp add: upt_rec table_entry_def le_at_def demo_fat_def demo_fat_boot_def)
  have "Bits b = int 8 \<and> (\<forall>s. IsSet list_roaring b s \<longleftrightarrow> s < 8 \<and>
      \<not> (data_start demo_fat_sb 1 \<le> s \<and> (s - data_start demo_fat_sb 1) div sb_clusterSize demo_fat_sb < 3
        \<and> entry_free fat12 ([0x000, 0xFFF, 0xFF7] ! ((s - data_start demo_fat_sb 1) div sb_clusterSize demo_fat_sb))))"
    using fat_marks [OF R b] unfolding demo_fat_parse es [symmetric] by (auto simp: demo_fat_sizes p2)
  then have m: "Bits b = 8" "IsSet list_roaring b s \<longleftrightarrow> s < 8 \<and>
      \<not> (5 \<le> s \<and> s - 5 < 3 \<and> entry_free fat12 ([0x000, 0xFFF, 0xFF7] ! (s - 5)))" for s
    unfolding demo_fat_sizes(6) by (simp_all add: demo_fat_sb_def)
  have "\<not> IsSet list_roaring b 5 \<and> IsSet list_roaring b 6 \<and> \<not> IsSet list_roaring b 7 \<and> IsSet list_roaring b 0"
    unfolding m(2) by (simp add: entry_free_def bad_entry_def)
  with b m(1) show ?thesis by blast
qed

text \<open>
  C21.  The sequential reads decode the table: after the two entries of the status check, the entries
  the parser sees are the entries 2, 3, \<open>\<dots>\<close> of the table on the disk, also for FAT12, where two entries
  share three bytes and the parser keeps half a byte between the reads.
\<close>

theorem fat_table_decoded:
  assumes "sb_sectorSize sb * sb_reserved sb + table_end ty (2 + n) \<le> length img"
  shows "\<exists>stat p2. checkFatStatus (read_bytes img) ty (fat_start sb p) = Ret (stat, p2)
     \<and> entries (read_bytes img) ty n p2
       = Ret (map (table_entry ty img (sb_sectorSize sb * sb_reserved sb)) [2..<2 + n])"
proof -
  let ?off = "sb_sectorSize sb * sb_reserved sb"
  have 0: "at_entry ty img ?off 0 (fat_start sb p)"
    by (cases ty) (simp_all add: at_entry_def fat_start_def fat_seek_def table_end_def)
  have "?off + table_end ty 2 \<le> length img" using assms table_end_mono [of 2 "2 + n" ty] by simp
  then obtain p2 stat where "checkFatStatus (read_bytes img) ty (fat_start sb p) = Ret (stat, p2)"
    "at_entry ty img ?off 2 p2"
    using checkFatStatus_two [OF 0] by blast
  with entries_decode [of ty img ?off 2 p2 n] assms show ?thesis by blast
qed

theorem fat_table_decoded_witness:
  "\<exists>stat p2. checkFatStatus (read_bytes demo_fat) fat12 (fat_start demo_fat_sb demo_cursor) = Ret (stat, p2)
     \<and> entries (read_bytes demo_fat) fat12 3 p2 = Ret [0x000, 0xFFF, 0xFF7]"
proof -
  have l: "sb_sectorSize demo_fat_sb * sb_reserved demo_fat_sb + table_end fat12 (2 + 3) \<le> length demo_fat"
    by (simp add: demo_fat_sb_def table_end_def demo_fat_def demo_fat_boot_def)
  have "map (table_entry fat12 demo_fat 96) [2..<2 + 3] = [0x000, 0xFFF, 0xFF7]"
    by (simp add: upt_rec table_entry_def le_at_def demo_fat_def demo_fat_boot_def)
  with fat_table_decoded [OF l, of demo_cursor] show ?thesis by (simp add: demo_fat_sb_def)
qed

end
