(* ===== verification/ExtFs.thy ===== *)
theory ExtFs
  imports Region
begin

text \<open>
  The bitmap parser for ext2, ext3 and ext4 (\<^verbatim>\<open>src/disk/filesystem/extfs\<close>).  Numbers are \<open>uint64\<close>
  or \<open>uint32\<close> as in the code, with the wrap-around written out; the indexing and the divisions that
  can panic on a corrupted superblock are the value \<open>Panics\<close>.  The counters of free blocks, which
  the code only logs, are left out.
\<close>

section \<open>The superblock\<close>

record superBlock =
  blocksCountLo :: nat
  firstDataBlock0 :: nat
  logBlockSize :: nat
  blocksPerGroup0 :: nat
  descSize0 :: nat
  featureIncompat :: nat
  featureRoCompat :: nat
  blocksCountHi :: nat
  logClusterSize :: nat
  firstMetaBg0 :: nat
  reservedGdtBlocks0 :: nat

definition parseSuperBlock :: "byte list \<Rightarrow> superBlock go" where
  "parseSuperBlock buf =
     (if length buf < 1024 then Fail (Errorf ''superblock buffer too small: %d'' [FInt (int (length buf))])
      else if le_at 2 buf 56 \<noteq> 0xEF53
      then Fail (Errorf ''not an ext2/3/4 filesystem (magic=0x%x)'' [FInt (int (le_at 2 buf 56))])
      else Ret \<lparr>blocksCountLo = le_at 4 buf 4, firstDataBlock0 = le_at 4 buf 20, logBlockSize = le_at 4 buf 24,
                blocksPerGroup0 = le_at 4 buf 32, descSize0 = le_at 2 buf 254, featureIncompat = le_at 4 buf 96,
                featureRoCompat = le_at 4 buf 100, blocksCountHi = le_at 4 buf 336, logClusterSize = le_at 4 buf 28,
                firstMetaBg0 = le_at 4 buf 260, reservedGdtBlocks0 = le_at 2 buf 206\<rparr>)"

record groupDesc =
  gd_blockBitmap :: nat
  gd_freeBlocksCount :: nat
  gd_flags :: nat

definition parseGroupDesc :: "byte list \<Rightarrow> bool \<Rightarrow> groupDesc go" where
  "parseGroupDesc buf is64 =
     (if length buf < 20 then Panics
      else let hi = (if is64 \<and> length buf \<ge> 64 then le_at 4 buf 32 else 0);
               freeHi = (if is64 \<and> length buf \<ge> 64 then le_at 2 buf 44 else 0)
           in Ret \<lparr>gd_blockBitmap = hi * 2 ^ 32 + le_at 4 buf 0,
                   gd_freeBlocksCount = freeHi * 2 ^ 16 + le_at 2 buf 12, gd_flags = le_at 2 buf 18\<rparr>)"

definition testBit :: "byte list \<Rightarrow> nat \<Rightarrow> bool" where
  "testBit buf i = bit (buf ! (i div 8)) (i mod 8)"

definition readFull :: "ReaderAt \<Rightarrow> int \<Rightarrow> nat \<Rightarrow> byte list go" where
  "readFull rd off n =
     (case rd off n of
        (buf, err) \<Rightarrow>
          if err \<noteq> None \<and> err \<noteq> Some (Sentinel EOF_err) then Fail (the err)
          else if length buf \<noteq> n
          then Fail (Errorf ''short read at offset %d: got %d want %d bytes''
                       [FInt off, FInt (int (length buf)), FInt (int n)])
          else Ret buf)"

section \<open>Where the group descriptors are\<close>

text \<open>Called with the bases 3, 5 and 7 only; a base below 2 would not end.\<close>

function power_loop :: "nat \<Rightarrow> nat \<Rightarrow> nat" where
  "power_loop n base = (if 2 \<le> base \<and> 0 < n \<and> n mod base = 0 then power_loop (n div base) base else n)"
  by pat_completeness auto
termination by (relation "measure fst") auto

declare power_loop.simps [simp del]

definition isPowerOf :: "nat \<Rightarrow> nat \<Rightarrow> bool" where
  "isPowerOf n base = (if n = 0 then False else power_loop n base = 1)"

definition hasSuperblockBackup :: "nat \<Rightarrow> bool \<Rightarrow> bool" where
  "hasSuperblockBackup grp sparseSuper' =
     (if grp = 0 \<or> grp = 1 then True
      else if \<not> sparseSuper' then True
      else isPowerOf grp 3 \<or> isPowerOf grp 5 \<or> isPowerOf grp 7)"

record gdtParams =
  firstDataBlock :: nat
  blocksPerGroup :: nat
  gp_blockSize :: nat
  descSize :: nat
  hasMetaBg :: bool
  firstMetaBg :: nat
  sparseSuper :: bool
  groupCount :: nat
  reservedGdtBlocks :: nat

definition gdtLocation :: "nat \<Rightarrow> gdtParams \<Rightarrow> (nat \<times> nat) go" where
  "gdtLocation g p =
     (let gdpb = gp_blockSize p div descSize p in
      if \<not> hasMetaBg p \<or> g < u64 (firstMetaBg p * gdpb) then
        let byteIdx = u64 (g * descSize p)
        in Ret (u64 (firstDataBlock p + 1 + byteIdx div gp_blockSize p), u32 (byteIdx mod gp_blockSize p))
      else if gdpb = 0 then Panics
      else
        let metaGroup = g div gdpb;
            firstGroupInMeta = u64 (metaGroup * gdpb);
            idxInChunk = g mod gdpb;
            chunkBlock = u64 (firstDataBlock p + firstGroupInMeta * blocksPerGroup p)
        in Ret (if hasSuperblockBackup firstGroupInMeta (sparseSuper p) then u64 (chunkBlock + 1) else chunkBlock,
                u32 (u32 idxInChunk * descSize p)))"

text \<open>Only called for a group whose descriptor was located, so \<open>gdpb\<close> is not 0 in a meta region.\<close>

definition isChunkCarrier :: "gdtParams \<Rightarrow> nat \<Rightarrow> bool \<Rightarrow> nat \<Rightarrow> bool" where
  "isChunkCarrier p gdpb inMetaBgRegion grp =
     (if \<not> inMetaBgRegion then False
      else let metaGroup = grp div gdpb;
               firstInMeta = u64 (metaGroup * gdpb);
               last0 = sub64 (u64 (firstInMeta + gdpb)) 1;
               lastInMeta = (if last0 > sub64 (groupCount p) 1 then sub64 (groupCount p) 1 else last0)
           in grp = firstInMeta \<or> grp = u64 (firstInMeta + 1) \<or> grp = lastInMeta)"

definition groupReservedBlocks :: "nat \<Rightarrow> gdtParams \<Rightarrow> nat" where
  "groupReservedBlocks g p =
     (let gdpb = gp_blockSize p div descSize p;
          inMetaBgRegion = (hasMetaBg p \<and> g \<ge> u64 (firstMetaBg p * gdpb))
      in if \<not> hasSuperblockBackup g (sparseSuper p)
         then (if isChunkCarrier p gdpb inMetaBgRegion g then 1 else 0)
         else if inMetaBgRegion then (if isChunkCarrier p gdpb inMetaBgRegion g then 2 else 1)
         else let gdtBlocksFull = sub64 (u64 (groupCount p * descSize p + gp_blockSize p)) 1 div gp_blockSize p
              in u64 (1 + (gdtBlocksFull + reservedGdtBlocks p)))"

text \<open>The cache of the last block read.\<close>

record lastBlockCache =
  cache_block :: nat
  cache_buf :: "byte list"
  cache_valid :: bool

definition cache_read :: "ReaderAt \<Rightarrow> lastBlockCache \<Rightarrow> nat \<Rightarrow> nat \<Rightarrow> lastBlockCache go" where
  "cache_read rd c blockNum blockSize =
     (if cache_valid c \<and> cache_block c = blockNum then Ret c
      else bindG (readFull rd (i64 (i64 (int blockNum) * int blockSize)) blockSize)
             (\<lambda>buf. Ret \<lparr>cache_block = blockNum, cache_buf = buf, cache_valid = True\<rparr>))"

section \<open>The geometry\<close>

record ext_geometry =
  x_total :: nat
  x_is64 :: bool
  x_bigalloc :: bool
  x_ratio :: nat
  x_gp :: gdtParams

definition ext_geometry_of :: "superBlock \<Rightarrow> ext_geometry go" where
  "ext_geometry_of sb =
     (let is64 = bit (featureIncompat sb) 7;
          blockSize = (if logBlockSize sb \<ge> 32 then 0 else u32 (1024 * 2 ^ logBlockSize sb))
      in if blockSize = 0 \<or> blocksPerGroup0 sb = 0
         then Fail (Errorf ''invalid superblock: block_size or blocks_per_group is zero'' [])
         else
           let totalBlocks = blocksCountLo sb + (if is64 then blocksCountHi sb * 2 ^ 32 else 0);
               ds = (if is64 \<and> descSize0 sb \<ge> 64 then descSize0 sb else 32);
               bigalloc = bit (featureRoCompat sb) 9
           in Ret \<lparr>x_total = totalBlocks, x_is64 = is64, x_bigalloc = bigalloc,
                   x_ratio = (if bigalloc then u32 (logClusterSize sb + 2 ^ 32 - logBlockSize sb) else 0),
                   x_gp = \<lparr>firstDataBlock = firstDataBlock0 sb, blocksPerGroup = blocksPerGroup0 sb,
                           gp_blockSize = blockSize, descSize = ds, hasMetaBg = bit (featureIncompat sb) 4,
                           firstMetaBg = firstMetaBg0 sb, sparseSuper = bit (featureRoCompat sb) 0,
                           groupCount = sub64 (u64 (sub64 totalBlocks (firstDataBlock0 sb) + blocksPerGroup0 sb)) 1
                                          div blocksPerGroup0 sb,
                           reservedGdtBlocks = reservedGdtBlocks0 sb\<rparr>\<rparr>)"

definition ext_super :: "ReaderAt \<Rightarrow> ext_geometry go" where
  "ext_super rd =
     bindG (wrapG ''read superblock failed: %v'' [] (readFull rd 1024 1024)) (\<lambda>buf.
     bindG (parseSuperBlock buf) ext_geometry_of)"

section \<open>The groups\<close>

text \<open>The bits of an ordinary group, one per block, and those of a bigalloc group, one per cluster.\<close>

fun clear_blocks :: "'r roaring \<Rightarrow> byte list \<Rightarrow> nat \<Rightarrow> nat \<Rightarrow> nat \<Rightarrow> 'r FsBitmap \<Rightarrow> 'r FsBitmap go" where
  "clear_blocks R buf startBlock i 0 fb = Ret fb"
| "clear_blocks R buf startBlock i (Suc n) fb =
     (if i div 8 \<ge> length buf then Panics
      else clear_blocks R buf startBlock (i + 1) n
             (if testBit buf i then fb else Clear R fb (u64 (startBlock + i))))"

fun clear_clusters ::
    "'r roaring \<Rightarrow> byte list \<Rightarrow> nat \<Rightarrow> nat \<Rightarrow> nat \<Rightarrow> nat \<Rightarrow> nat \<Rightarrow> 'r FsBitmap \<Rightarrow> 'r FsBitmap go" where
  "clear_clusters R buf startBlock len bpc c 0 fb = Ret fb"
| "clear_clusters R buf startBlock len bpc c (Suc n) fb =
     (let clusterStart = u64 (startBlock + c * bpc);
          clusterLen = (if u64 (clusterStart + bpc) > u64 (startBlock + len)
                        then sub64 (u64 (startBlock + len)) clusterStart else bpc)
      in if c div 8 \<ge> length buf then Panics
         else clear_clusters R buf startBlock len bpc (c + 1) n
                (if testBit buf c then fb else ClearRange R fb clusterStart (u32 clusterLen)))"

definition group_start :: "ext_geometry \<Rightarrow> nat \<Rightarrow> nat" where
  "group_start x g = u64 (firstDataBlock (x_gp x) + g * blocksPerGroup (x_gp x))"

definition blocksInGroup :: "ext_geometry \<Rightarrow> nat \<Rightarrow> nat" where
  "blocksInGroup x g =
     (if u64 (group_start x g + blocksPerGroup (x_gp x)) > x_total x
      then sub64 (x_total x) (group_start x g) else blocksPerGroup (x_gp x))"

definition blocksPerCluster :: "ext_geometry \<Rightarrow> nat" where
  "blocksPerCluster x = (if x_ratio x \<ge> 64 then 0 else 2 ^ x_ratio x)"

definition mark_group :: "'r roaring \<Rightarrow> ReaderAt \<Rightarrow> ext_geometry \<Rightarrow> nat \<Rightarrow> groupDesc \<Rightarrow> 'r FsBitmap \<Rightarrow> 'r FsBitmap go" where
  "mark_group R rd x g gd fb =
     (let start = group_start x g; len = blocksInGroup x g; bs = gp_blockSize (x_gp x) in
      if bit (gd_flags gd) 1 then
        let reserved = groupReservedBlocks g (x_gp x); fb1 = ClearRange R fb start (u32 len)
        in Ret (if reserved > 0 then SetRange R fb1 start (u32 reserved) else fb1)
      else
        bindG (wrapG ''read block bitmap of group %d failed: %v'' [FInt (int g)]
                 (readFull rd (i64 (i64 (int (gd_blockBitmap gd)) * int bs)) bs))
          (\<lambda>buf.
             if x_bigalloc x \<and> x_ratio x > 0 then
               (if blocksPerCluster x = 0 then Panics
                else clear_clusters R buf start len (blocksPerCluster x) 0
                       (sub64 (u64 (len + blocksPerCluster x)) 1 div blocksPerCluster x) fb)
             else clear_blocks R buf start 0 len fb))"

fun ext_groups ::
    "nat \<Rightarrow> 'r roaring \<Rightarrow> ReaderAt \<Rightarrow> ext_geometry \<Rightarrow> nat \<Rightarrow> lastBlockCache \<Rightarrow> 'r FsBitmap \<Rightarrow> 'r FsBitmap go" where
  "ext_groups 0 R rd x g c fb = Ret fb"
| "ext_groups (Suc n) R rd x g c fb =
     bindG (gdtLocation g (x_gp x)) (\<lambda>(blockNum, byteOffset).
     bindG (wrapG ''read group descriptor of group %d (block %d): %v'' [FInt (int g), FInt (int blockNum)]
              (cache_read rd c blockNum (gp_blockSize (x_gp x)))) (\<lambda>c'.
     bindG (if byteOffset > length (cache_buf c') then Panics
            else parseGroupDesc (drop byteOffset (cache_buf c')) (x_is64 x)) (\<lambda>gd.
     bindG (mark_group R rd x g gd fb) (\<lambda>fb'. ext_groups n R rd x (g + 1) c' fb'))))"

definition ext_Dump :: "'r roaring \<Rightarrow> ReaderAt \<Rightarrow> 'r FsBitmap go" where
  "ext_Dump R rd =
     bindG (ext_super rd) (\<lambda>x.
       ext_groups (groupCount (x_gp x)) R rd x 0 \<lparr>cache_block = 0, cache_buf = [], cache_valid = False\<rparr>
         (SetAll R (NewFsBitmap ''ext2/3/4'' BitmapFromFS (i64 (int (x_total x))) (int (gp_blockSize (x_gp x))))))"

end
