(* ===== verification/ExtFsLaws.thy ===== *)
theory ExtFsLaws
  imports ExtFs
begin

text \<open>
  What the ext parser computes: a block is unmarked exactly when the descriptor of its group and
  the group's bitmap say that it is free.  The specification \<open>ext_free\<close> reads descriptors without
  the cache.
\<close>

section \<open>Reading descriptors\<close>

definition block_at :: "ReaderAt \<Rightarrow> nat \<Rightarrow> nat \<Rightarrow> byte list go" where
  "block_at rd bs n = readFull rd (i64 (i64 (int n) * int bs)) bs"

definition desc_of :: "ReaderAt \<Rightarrow> ext_geometry \<Rightarrow> nat \<Rightarrow> groupDesc go" where
  "desc_of rd x g =
     bindG (gdtLocation g (x_gp x)) (\<lambda>(blockNum, byteOffset).
     bindG (block_at rd (gp_blockSize (x_gp x)) blockNum) (\<lambda>buf.
       if byteOffset > length buf then Panics else parseGroupDesc (drop byteOffset buf) (x_is64 x)))"

definition cache_ok :: "ReaderAt \<Rightarrow> nat \<Rightarrow> lastBlockCache \<Rightarrow> bool" where
  "cache_ok rd bs c \<longleftrightarrow> (cache_valid c \<longrightarrow> block_at rd bs (cache_block c) = Ret (cache_buf c))"

lemma cache_read_ok:
  assumes "cache_ok rd bs c" "cache_read rd c n bs = Ret c'"
  shows "cache_ok rd bs c'" "block_at rd bs n = Ret (cache_buf c')"
  using assms by (auto simp: cache_read_def cache_ok_def block_at_def bindG_Ret split: if_splits)

lemma readFull_length: "readFull rd off n = Ret buf \<Longrightarrow> length buf = n"
  by (auto simp: readFull_def split: prod.splits if_splits)

section \<open>The free blocks of a group\<close>

definition bit_index :: "ext_geometry \<Rightarrow> nat \<Rightarrow> nat" where
  "bit_index x i = (if x_bigalloc x \<and> x_ratio x > 0 then i div blocksPerCluster x else i)"

definition group_free :: "ReaderAt \<Rightarrow> ext_geometry \<Rightarrow> nat \<Rightarrow> groupDesc \<Rightarrow> nat \<Rightarrow> bool" where
  "group_free rd x g gd i =
     (if bit (gd_flags gd) 1 then u32 (groupReservedBlocks g (x_gp x)) \<le> i
      else (case block_at rd (gp_blockSize (x_gp x)) (gd_blockBitmap gd) of
              Ret buf \<Rightarrow> \<not> testBit buf (bit_index x i) | _ \<Rightarrow> False))"

definition ext_free :: "ReaderAt \<Rightarrow> ext_geometry \<Rightarrow> nat \<Rightarrow> bool" where
  "ext_free rd x n =
     (let d = n - firstDataBlock (x_gp x); g = d div blocksPerGroup (x_gp x) in
      firstDataBlock (x_gp x) \<le> n \<and>
      (case desc_of rd x g of Ret gd \<Rightarrow> group_free rd x g gd (d mod blocksPerGroup (x_gp x)) | _ \<Rightarrow> False))"

text \<open>A geometry whose sizes do not wrap.\<close>

definition geo_ok :: "ext_geometry \<Rightarrow> bool" where
  "geo_ok x \<longleftrightarrow> 0 < blocksPerGroup (x_gp x) \<and> blocksPerGroup (x_gp x) < 2 ^ 32
     \<and> firstDataBlock (x_gp x) \<le> x_total x \<and> x_total x < 2 ^ 63
     \<and> groupCount (x_gp x) = (x_total x - firstDataBlock (x_gp x) + blocksPerGroup (x_gp x) - 1) div blocksPerGroup (x_gp x)"

lemma ext_super_geo:
  assumes "ext_super rd = Ret x" "firstDataBlock (x_gp x) \<le> x_total x" "x_total x < 2 ^ 63"
  shows "geo_ok x"
proof -
  obtain sb buf where sb: "parseSuperBlock buf = Ret sb" "ext_geometry_of sb = Ret x"
    using assms(1) by (auto simp: ext_super_def bindG_Ret)
  have bpg: "blocksPerGroup0 sb < 2 ^ 32"
    using sb(1) le_at_less [of 4 buf 32] by (auto simp: parseSuperBlock_def split: if_splits)
  have x: "blocksPerGroup (x_gp x) = blocksPerGroup0 sb" "0 < blocksPerGroup0 sb"
    "firstDataBlock (x_gp x) = firstDataBlock0 sb"
    "groupCount (x_gp x) = sub64 (u64 (sub64 (x_total x) (firstDataBlock0 sb) + blocksPerGroup0 sb)) 1 div blocksPerGroup0 sb"
    using sb(2) by (auto simp: ext_geometry_of_def Let_def split: if_splits)
  have t64: "x_total x < 2 ^ 64" using assms(3) by simp
  have s: "sub64 (x_total x) (firstDataBlock0 sb) = x_total x - firstDataBlock0 sb"
    using assms(2) t64 unfolding x(3) by (rule sub64_le)
  have "x_total x - firstDataBlock0 sb + blocksPerGroup0 sb < 2 ^ 64" using assms(3) bpg by simp
  then have "groupCount (x_gp x) = (x_total x - firstDataBlock0 sb + blocksPerGroup0 sb - 1) div blocksPerGroup0 sb"
    unfolding x(4) s using x(2) by simp
  then show ?thesis using x bpg assms(2,3) by (simp add: geo_ok_def)
qed

lemma group_bounds:
  assumes ok: "geo_ok x" and g: "g < groupCount (x_gp x)"
  shows "group_start x g = firstDataBlock (x_gp x) + g * blocksPerGroup (x_gp x)" "group_start x g < x_total x"
    "blocksInGroup x g = min (blocksPerGroup (x_gp x)) (x_total x - group_start x g)"
    "blocksInGroup x g < 2 ^ 32" "group_start x g + blocksInGroup x g \<le> x_total x" "0 < blocksInGroup x g"
proof -
  let ?b = "blocksPerGroup (x_gp x)" and ?f = "firstDataBlock (x_gp x)" and ?t = "x_total x"
  have B: "0 < ?b" "?b < 2 ^ 32" "?f \<le> ?t" "?t < 2 ^ 63" and G: "groupCount (x_gp x) = (?t - ?f + ?b - 1) div ?b"
    using ok by (auto simp: geo_ok_def)
  have "(g + 1) * ?b \<le> ?t - ?f + ?b - 1"
    using g B(1) unfolding G by (metis Suc_eq_plus1 Suc_leI less_eq_div_iff_mult_less_eq)
  then have lt: "?f + g * ?b < ?t" using B by simp
  have two: "(2::nat) ^ 63 < 2 ^ 64" "(2::nat) ^ 63 + 2 ^ 32 < 2 ^ 64" by simp_all
  show s: "group_start x g = ?f + g * ?b" unfolding group_start_def using lt B(4) two by (intro u64_small) linarith
  show "group_start x g < ?t" using lt s by simp
  have "u64 (group_start x g + ?b) = group_start x g + ?b"
    using lt s B(2,4) two by (intro u64_small) linarith
  moreover have "sub64 ?t (group_start x g) = ?t - group_start x g"
    using lt s B(4) two by (intro sub64_le) linarith+
  ultimately show bl: "blocksInGroup x g = min ?b (?t - group_start x g)"
    by (auto simp: blocksInGroup_def min_def)
  show "blocksInGroup x g < 2 ^ 32" "group_start x g + blocksInGroup x g \<le> ?t" "0 < blocksInGroup x g"
    using bl lt s B by auto
qed

section \<open>Clearing\<close>

lemma clear_blocks_spec:
  assumes "bm_inv R fb" "clear_blocks R buf s i n fb = Ret fb'" "s + i + n < 2 ^ 64"
  shows "bm_inv R fb' \<and> Bits fb' = Bits fb
     \<and> used R fb' = used R fb - {b. \<exists>j. b = s + j \<and> i \<le> j \<and> j < i + n \<and> \<not> testBit buf j}"
  using assms
proof (induction n arbitrary: i fb)
  case (Suc n)
  let ?b = "if testBit buf i then fb else Clear R fb (u64 (s + i))"
  have u: "u64 (s + i) = s + i" using Suc.prems(3) by (intro u64_small) linarith
  have I: "bm_inv R ?b" "Bits ?b = Bits fb" "used R ?b = used R fb - (if testBit buf i then {} else {s + i})"
    using Suc.prems(1) fsbm.clear1_inv [OF Suc.prems(1)] fsbm.clear1_used [OF Suc.prems(1)] u by auto
  have "clear_blocks R buf s (i + 1) n ?b = Ret fb'" "s + (i + 1) + n < 2 ^ 64"
    using Suc.prems(2,3) by (auto split: if_splits)
  from Suc.IH [OF I(1) this] have H: "bm_inv R fb'" "Bits fb' = Bits fb"
    "used R fb' = used R ?b - {b. \<exists>j. b = s + j \<and> i + 1 \<le> j \<and> j < i + 1 + n \<and> \<not> testBit buf j}" using I(2) by auto
  have "{b. \<exists>j. b = s + j \<and> i \<le> j \<and> j < i + Suc n \<and> \<not> testBit buf j}
      = (if testBit buf i then {} else {s + i}) \<union> {b. \<exists>j. b = s + j \<and> i + 1 \<le> j \<and> j < i + 1 + n \<and> \<not> testBit buf j}"
    by (auto simp: Suc_le_eq le_less)
  then show ?case using H I(3) by (simp add: Diff_Diff_Int) blast
qed auto

lemma clear_clusters_spec:
  assumes "bm_inv R fb" "clear_clusters R buf s len bpc c n fb = Ret fb'"
    and "0 < bpc" "bpc \<le> 2 ^ 63" "s + len < 2 ^ 63" "len < 2 ^ 32" "n = 0 \<or> (c + n - 1) * bpc < len"
  shows "bm_inv R fb' \<and> Bits fb' = Bits fb
     \<and> used R fb' = used R fb - {b. \<exists>j. b = s + j \<and> j < len \<and> c \<le> j div bpc \<and> j div bpc < c + n \<and> \<not> testBit buf (j div bpc)}"
  using assms
proof (induction n arbitrary: c fb)
  case 0
  then show ?case by auto
next
  case (Suc n)
  have cl: "c * bpc < len"
  proof -
    have "c * bpc \<le> (c + Suc n - 1) * bpc" by (intro mult_le_mono1) simp
    also have "\<dots> < len" using Suc.prems(7) by blast
    finally show ?thesis .
  qed
  have two: "(2::nat) ^ 63 + 2 ^ 63 = 2 ^ 64" by simp
  have u: "u64 (s + c * bpc) = s + c * bpc" "u64 (s + c * bpc + bpc) = s + c * bpc + bpc" "u64 (s + len) = s + len"
    using cl Suc.prems(4,5) two by (intro u64_small; linarith)+
  define cLen where "cLen = (if s + c * bpc + bpc > s + len then sub64 (s + len) (s + c * bpc) else bpc)"
  have L: "cLen = min bpc (len - c * bpc)"
    unfolding cLen_def using cl Suc.prems(5) by (subst sub64_le) (auto simp: min_def)
  have cL: "cLen < segSize" "u32 cLen = cLen" using L Suc.prems(6) by (auto simp: segSize_def)
  let ?b = "if testBit buf c then fb else ClearRange R fb (s + c * bpc) cLen"
  have I: "bm_inv R ?b" "Bits ?b = Bits fb"
    "used R ?b = used R fb - (if testBit buf c then {} else {s + c * bpc..<s + c * bpc + cLen})"
    using Suc.prems(1) fsbm.clear_range_inv [OF Suc.prems(1) cL(1)] fsbm.clear_range_used [OF Suc.prems(1) cL(1)] by auto
  have r: "clear_clusters R buf s len bpc (c + 1) n ?b = Ret fb'"
    using Suc.prems(2) unfolding clear_clusters.simps Let_def u cLen_def [symmetric] cL(2)
    by (auto split: if_split_asm)
  have n: "n = 0 \<or> (c + 1 + n - 1) * bpc < len" using Suc.prems(7) by auto
  from Suc.IH [OF I(1) r Suc.prems(3-6) n] have H: "bm_inv R fb'" "Bits fb' = Bits fb"
    "used R fb' = used R ?b - {b. \<exists>j. b = s + j \<and> j < len \<and> c + 1 \<le> j div bpc \<and> j div bpc < c + 1 + n \<and> \<not> testBit buf (j div bpc)}"
    using I(2) by auto
  have c: "j div bpc = c \<and> j < len \<longleftrightarrow> c * bpc \<le> j \<and> j < c * bpc + cLen" for j
  proof -
    have "j div bpc = c \<longleftrightarrow> c * bpc \<le> j \<and> j < c * bpc + bpc"
      using Suc.prems(3) by (metis add.commute div_nat_eqI dividend_less_div_times div_times_less_eq_dividend mult.commute mult_Suc)
    moreover have "c * bpc + cLen = min (c * bpc + bpc) len"
      unfolding L min_add_distrib_right using cl by (simp only: le_add_diff_inverse less_imp_le)
    ultimately show ?thesis by (simp only: min_less_iff_conj) blast
  qed
  have "{b. \<exists>j. b = s + j \<and> j < len \<and> c \<le> j div bpc \<and> j div bpc < c + Suc n \<and> \<not> testBit buf (j div bpc)}
      = {b. \<exists>j. b = s + j \<and> (j div bpc = c \<and> j < len) \<and> \<not> testBit buf c}
        \<union> {b. \<exists>j. b = s + j \<and> j < len \<and> c + 1 \<le> j div bpc \<and> j div bpc < c + 1 + n \<and> \<not> testBit buf (j div bpc)}"
    by (auto simp: Suc_le_eq le_less)
  moreover have "{b. \<exists>j. b = s + j \<and> (j div bpc = c \<and> j < len) \<and> \<not> testBit buf c}
      = (if testBit buf c then {} else {s + c * bpc..<s + c * bpc + cLen})"
  proof -
    have "(\<exists>j. b = s + j \<and> c * bpc \<le> j \<and> j < c * bpc + cLen) \<longleftrightarrow> b \<in> {s + c * bpc..<s + c * bpc + cLen}" for b
    proof
      assume "b \<in> {s + c * bpc..<s + c * bpc + cLen}"
      then have "b = s + (b - s)" "c * bpc \<le> b - s" "b - s < c * bpc + cLen" by auto
      then show "\<exists>j. b = s + j \<and> c * bpc \<le> j \<and> j < c * bpc + cLen" by blast
    qed auto
    then show ?thesis unfolding c by (cases "testBit buf c") (simp_all add: set_eq_iff)
  qed
  ultimately show ?case using H by (simp only: I(3) Diff_Un Diff_Int2 Diff_eq) blast
qed

section \<open>One group\<close>

lemma mark_group_spec:
  assumes ok: "geo_ok x" and g: "g < groupCount (x_gp x)" and fb: "bm_inv R fb" "Bits fb = int (x_total x)"
    and U: "used R fb = {..<x_total x} - F" "\<And>b. b \<in> F \<Longrightarrow> b < group_start x g"
    and m: "mark_group R rd x g gd fb = Ret fb'"
  shows "bm_inv R fb' \<and> Bits fb' = int (x_total x)
     \<and> used R fb' = {..<x_total x} - (F \<union> {b. \<exists>i. b = group_start x g + i \<and> i < blocksInGroup x g \<and> group_free rd x g gd i})"
proof -
  note B = group_bounds [OF ok g]
  let ?s = "group_start x g" and ?l = "blocksInGroup x g"
  have t: "x_total x < 2 ^ 63" using ok by (simp add: geo_ok_def)
  have sl: "?s + ?l < 2 ^ 63" using B(5) t by linarith
  have l: "?l < segSize" "u32 ?l = ?l" using B(4) by (simp_all add: segSize_def)
  show ?thesis
  proof (cases "bit (gd_flags gd) 1")
    case True
    let ?r = "groupReservedBlocks g (x_gp x)"
    let ?b1 = "ClearRange R fb ?s ?l"
    have b1: "bm_inv R ?b1" "Bits ?b1 = Bits fb" "used R ?b1 = used R fb - {?s..<?s + ?l}"
      using fsbm.clear_range_inv [OF fb(1) l(1)] fsbm.clear_range_used [OF fb(1) l(1)] by simp_all
    have r: "u32 ?r < segSize" by (simp add: u32_seg)
    have e: "fb' = (if ?r > 0 then SetRange R ?b1 ?s (u32 ?r) else ?b1)"
      using m True l(2) by (simp add: mark_group_def Let_def)
    have b': "bm_inv R fb'" "Bits fb' = Bits fb" "used R fb' = used R ?b1 \<union> ({?s..<?s + u32 ?r} \<inter> {..<x_total x})"
      using b1 fsbm.set_range_inv [OF b1(1) r] fsbm.set_range_used [OF b1(1) r] fb(2) by (auto simp: e u32_def)
    have "{b. \<exists>i. b = ?s + i \<and> i < ?l \<and> group_free rd x g gd i} = {b. ?s + u32 ?r \<le> b \<and> b < ?s + ?l}"
      using True by (auto simp: group_free_def le_iff_add)
    moreover have "used R fb' = {..<x_total x} - (F \<union> {b. ?s + u32 ?r \<le> b \<and> b < ?s + ?l})"
      unfolding b'(3) b1(3) U(1)
    proof (rule set_eqI)
      fix b
      show "b \<in> {..<x_total x} - F - {?s..<?s + ?l} \<union> ({?s..<?s + u32 ?r} \<inter> {..<x_total x})
          \<longleftrightarrow> b \<in> {..<x_total x} - (F \<union> {b. ?s + u32 ?r \<le> b \<and> b < ?s + ?l})"
        using U(2) [of b] by auto
    qed
    ultimately show ?thesis using b'(1,2) fb(2) by simp
  next
    case False
    let ?bs = "gp_blockSize (x_gp x)"
    obtain buf where buf: "block_at rd ?bs (gd_blockBitmap gd) = Ret buf"
      "(if x_bigalloc x \<and> x_ratio x > 0 then
          (if blocksPerCluster x = 0 then Panics
           else clear_clusters R buf ?s ?l (blocksPerCluster x) 0
                  (sub64 (u64 (?l + blocksPerCluster x)) 1 div blocksPerCluster x) fb)
        else clear_blocks R buf ?s 0 ?l fb) = Ret fb'"
      using m False by (auto simp: mark_group_def Let_def bindG_Ret block_at_def)
    have gf: "group_free rd x g gd i \<longleftrightarrow> \<not> testBit buf (bit_index x i)" for i
      using False buf(1) by (simp add: group_free_def)
    show ?thesis
    proof (cases "x_bigalloc x \<and> x_ratio x > 0")
      case True
      let ?c = "blocksPerCluster x"
      have c: "0 < ?c" "?c \<le> 2 ^ 63"
        using buf(2) True power_increasing [of "x_ratio x" 63 "2::nat"]
        by (auto simp: blocksPerCluster_def split: if_splits)
      define n where "n = sub64 (u64 (?l + ?c)) 1 div ?c"
      have two: "(2::nat) ^ 32 + 2 ^ 63 < 2 ^ 64" by simp
      have lc: "?l + ?c < 2 ^ 64" using B(4) c(2) two by linarith
      then have n: "n = (?l + ?c - 1) div ?c" unfolding n_def using c(1) by simp
      have nd: "n * ?c \<le> ?l + ?c - 1" "?l + ?c - 1 < n * ?c + ?c"
        unfolding n using div_mult_mod_eq [of "?l + ?c - 1" ?c] mod_less_divisor [OF c(1), of "?l + ?c - 1"] by linarith+
      have last: "n = 0 \<or> (0 + n - 1) * ?c < ?l"
      proof (cases n)
        case (Suc k)
        then show ?thesis using nd(1) c(1) by simp
      qed simp
      have all: "j div ?c < n" if "j < ?l" for j
      proof -
        have "j < n * ?c" using that nd(2) by linarith
        then show ?thesis using c(1) by (simp add: less_mult_imp_div_less)
      qed
      have r: "clear_clusters R buf ?s ?l ?c 0 n fb = Ret fb'" using buf(2) True c(1) by (simp add: n_def)
      from clear_clusters_spec [OF fb(1) r c sl B(4) last] show ?thesis
        unfolding U(1) gf using True fb(2) all by (auto simp: bit_index_def)
    next
      case F: False
      have r: "clear_blocks R buf ?s 0 ?l fb = Ret fb'" using buf(2) unfolding if_not_P [OF F] .
      have bi: "bit_index x i = i" for i unfolding bit_index_def by (rule if_not_P [OF F])
      have "?s + 0 + ?l < 2 ^ 64" using sl by simp
      from clear_blocks_spec [OF fb(1) r this] show ?thesis
        unfolding U(1) gf bi using fb(2) by auto
    qed
  qed
qed

section \<open>All groups\<close>

lemma group_start_Suc:
  assumes "geo_ok x" "g + 1 < groupCount (x_gp x)"
  shows "group_start x (g + 1) = group_start x g + blocksInGroup x g"
proof -
  have g: "g < groupCount (x_gp x)" using assms(2) by simp
  note B = group_bounds [OF assms(1) g] and B' = group_bounds [OF assms]
  have "group_start x (g + 1) = group_start x g + blocksPerGroup (x_gp x)" unfolding B(1) B'(1) by simp
  then show ?thesis using B(3) B'(2) by simp
qed

definition free_upto :: "ReaderAt \<Rightarrow> ext_geometry \<Rightarrow> nat \<Rightarrow> nat set" where
  "free_upto rd x g = {b. \<exists>h i gd. h < g \<and> b = group_start x h + i \<and> i < blocksInGroup x h
      \<and> desc_of rd x h = Ret gd \<and> group_free rd x h gd i}"

lemma free_upto_bound:
  assumes ok: "geo_ok x" and g: "g < groupCount (x_gp x)" and b: "b \<in> free_upto rd x g"
  shows "b < group_start x g"
proof -
  obtain h i where h: "h < g" "b = group_start x h + i" "i < blocksInGroup x h"
    using b by (auto simp: free_upto_def)
  have hg: "h < groupCount (x_gp x)" using h(1) g by simp
  note B = group_bounds [OF ok hg]
  have "b < firstDataBlock (x_gp x) + (h + 1) * blocksPerGroup (x_gp x)" using h(2,3) B(1,3) by simp
  also have "\<dots> \<le> firstDataBlock (x_gp x) + g * blocksPerGroup (x_gp x)"
    using h(1) by (intro add_left_mono mult_le_mono1) simp
  also have "\<dots> = group_start x g" using group_bounds(1) [OF ok g] by simp
  finally show ?thesis .
qed

lemma ext_groups_spec:
  assumes ok: "geo_ok x"
  shows "ext_groups n R rd x g c fb = Ret fb' \<Longrightarrow> g + n = groupCount (x_gp x) \<Longrightarrow> bm_inv R fb \<Longrightarrow>
     Bits fb = int (x_total x) \<Longrightarrow> used R fb = {..<x_total x} - free_upto rd x g \<Longrightarrow> cache_ok rd (gp_blockSize (x_gp x)) c \<Longrightarrow>
     bm_inv R fb' \<and> Bits fb' = int (x_total x) \<and> used R fb' = {..<x_total x} - free_upto rd x (g + n)
     \<and> (\<forall>h. g \<le> h \<longrightarrow> h < g + n \<longrightarrow> (\<exists>gd. desc_of rd x h = Ret gd))"
proof (induction n arbitrary: g c fb)
  case (Suc n)
  have g: "g < groupCount (x_gp x)" using Suc.prems(2) by simp
  obtain bn off c' gd fb1 where S: "gdtLocation g (x_gp x) = Ret (bn, off)"
    "cache_read rd c bn (gp_blockSize (x_gp x)) = Ret c'"
    "(if off > length (cache_buf c') then Panics else parseGroupDesc (drop off (cache_buf c')) (x_is64 x)) = Ret gd"
    "mark_group R rd x g gd fb = Ret fb1" "ext_groups n R rd x (g + 1) c' fb1 = Ret fb'"
    using Suc.prems(1) by (auto simp: bindG_Ret)
  note C = cache_read_ok [OF Suc.prems(6) S(2)]
  have d: "desc_of rd x g = Ret gd" unfolding desc_of_def using S(1,3) C(2) by simp
  have m: "bm_inv R fb1" "Bits fb1 = int (x_total x)" "used R fb1 = {..<x_total x} - (free_upto rd x g
      \<union> {b. \<exists>i. b = group_start x g + i \<and> i < blocksInGroup x g \<and> group_free rd x g gd i})"
    using mark_group_spec [OF ok g Suc.prems(3,4,5) free_upto_bound [OF ok g, where rd = rd] S(4)] by blast+
  have "free_upto rd x g \<union> {b. \<exists>i. b = group_start x g + i \<and> i < blocksInGroup x g \<and> group_free rd x g gd i}
      = free_upto rd x (g + 1)"
    unfolding free_upto_def using d by (auto simp: less_Suc_eq)
  then have u: "used R fb1 = {..<x_total x} - free_upto rd x (g + 1)" using m(3) by simp
  have gn: "g + 1 + n = groupCount (x_gp x)" using Suc.prems(2) by simp
  note H = Suc.IH [OF S(5) gn m(1,2) u C(1)]
  have "\<exists>gd. desc_of rd x h = Ret gd" if "g \<le> h" "h < g + Suc n" for h
    using that d H by (cases "h = g") auto
  with H show ?case by simp
qed auto

lemma free_upto_all:
  assumes ok: "geo_ok x" and d: "\<forall>h < groupCount (x_gp x). \<exists>gd. desc_of rd x h = Ret gd" and b: "b < x_total x"
  shows "b \<in> free_upto rd x (groupCount (x_gp x)) \<longleftrightarrow> ext_free rd x b"
proof -
  let ?p = "blocksPerGroup (x_gp x)" and ?f = "firstDataBlock (x_gp x)"
  have p: "0 < ?p" and G: "groupCount (x_gp x) = (x_total x - ?f + ?p - 1) div ?p" using ok by (auto simp: geo_ok_def)
  show ?thesis
  proof (cases "?f \<le> b")
    case False
    have "group_start x h \<ge> ?f" if "h < groupCount (x_gp x)" for h using group_bounds(1) [OF ok that] by simp
    then show ?thesis using False by (fastforce simp: free_upto_def ext_free_def Let_def)
  next
    case True
    define h i where "h = (b - ?f) div ?p" and "i = (b - ?f) mod ?p"
    have bhi: "b = ?f + h * ?p + i" "i < ?p" using True p by (simp_all add: h_def i_def)
    have "h + 1 = (b - ?f + ?p) div ?p" unfolding h_def using div_add_self2 [of ?p "b - ?f"] p by simp
    also have "\<dots> \<le> (x_total x - ?f + ?p - 1) div ?p" using b True by (intro div_le_mono) linarith
    finally have hG: "h < groupCount (x_gp x)" unfolding G by simp
    note B = group_bounds [OF ok hG]
    obtain gd where gd: "desc_of rd x h = Ret gd" using d hG by blast
    have il: "i < blocksInGroup x h" unfolding B(3) B(1) using bhi b by simp
    have uniq: "h' = h \<and> i' = i"
      if "h' < groupCount (x_gp x)" "b = group_start x h' + i'" "i' < blocksInGroup x h'" for h' i'
    proof -
      note B' = group_bounds [OF ok that(1)]
      have "b - ?f = h' * ?p + i'" "i' < ?p" using that(2,3) B'(1,3) by simp_all
      then show ?thesis unfolding h_def i_def by simp
    qed
    have "ext_free rd x b \<longleftrightarrow> group_free rd x h gd i"
      unfolding ext_free_def Let_def h_def [symmetric] i_def [symmetric] gd using True by simp
    moreover have "b \<in> free_upto rd x (groupCount (x_gp x)) \<longleftrightarrow> group_free rd x h gd i"
    proof
      assume "b \<in> free_upto rd x (groupCount (x_gp x))"
      then obtain h' i' gd' where *: "h' < groupCount (x_gp x)" "b = group_start x h' + i'" "i' < blocksInGroup x h'"
        "desc_of rd x h' = Ret gd'" "group_free rd x h' gd' i'"
        unfolding free_upto_def by blast
      then show "group_free rd x h gd i" using uniq [OF *(1-3)] gd by auto
    next
      assume "group_free rd x h gd i"
      then show "b \<in> free_upto rd x (groupCount (x_gp x))"
        unfolding free_upto_def using hG il gd B(1) bhi(1) by auto
    qed
    ultimately show ?thesis by simp
  qed
qed

end
