(* ===== verification/ExtVolume.thy ===== *)
theory ExtVolume
  imports ExtFsLaws
begin

text \<open>The properties of the ext2, ext3 and ext4 parser.\<close>

section \<open>Powers\<close>

lemma power_loop_iff:
  assumes "2 \<le> base" "0 < n"
  shows "power_loop n base = 1 \<longleftrightarrow> (\<exists>k. n = base ^ k)"
  using assms
proof (induction n base rule: power_loop.induct)
  case (1 n base)
  show ?case
  proof (cases "n mod base = 0")
    case True
    then have n: "n = base * (n div base)" by auto
    have pos: "0 < n div base" using n 1(3) by (cases "n div base") auto
    have "power_loop n base = power_loop (n div base) base"
      using True 1(2,3) by (subst power_loop.simps) simp
    also have "\<dots> = 1 \<longleftrightarrow> (\<exists>k. n div base = base ^ k)" using 1(1) True 1(2,3) pos by blast
    also have "\<dots> \<longleftrightarrow> (\<exists>k. n = base ^ k)"
    proof
      assume "\<exists>k. n div base = base ^ k"
      then obtain k where "n div base = base ^ k" ..
      then have "n = base ^ Suc k" using n by simp
      then show "\<exists>k. n = base ^ k" ..
    next
      assume "\<exists>k. n = base ^ k"
      then obtain k where k: "n = base ^ k" ..
      have "k \<noteq> 0" using k True 1(2) by (cases k) auto
      then obtain j where "k = Suc j" by (cases k) auto
      then have "n div base = base ^ j" using k 1(2) by simp
      then show "\<exists>k. n div base = base ^ k" ..
    qed
    finally show ?thesis .
  next
    case False
    have "power_loop n base = n" using False by (subst power_loop.simps) simp
    moreover have "n = base ^ k \<Longrightarrow> n = 1" for k using False by (cases k) auto
    ultimately show ?thesis using power_0 [of base] by metis
  qed
qed

section \<open>An image\<close>

text \<open>Six blocks of 1024 bytes in one group; the blocks 3 and 5 are free.\<close>

definition demo_ext_super :: "byte list" where
  "demo_ext_super = replicate 4 0 @ [6, 0, 0, 0] @ replicate 12 0 @ [1, 0, 0, 0] @ [0, 0, 0, 0] @ [0, 0, 0, 0]
     @ [8, 0, 0, 0] @ replicate 20 0 @ [0x53, 0xEF] @ replicate 38 0 @ [0, 0, 0, 0] @ [1, 0, 0, 0] @ replicate 920 0"

definition demo_ext_gdt :: "byte list" where
  "demo_ext_gdt = [3, 0, 0, 0] @ replicate 1020 0"

definition demo_ext :: ReaderAt where
  "demo_ext off n =
     (if off = 1024 then demo_ext_super else if off = 2048 then demo_ext_gdt else 0x0B # replicate 1023 0, None)"

definition demo_ext_geometry :: ext_geometry where
  "demo_ext_geometry = \<lparr>x_total = 6, x_is64 = False, x_bigalloc = False, x_ratio = 0,
     x_gp = \<lparr>firstDataBlock = 1, blocksPerGroup = 8, gp_blockSize = 1024, descSize = 32, hasMetaBg = False,
       firstMetaBg = 0, sparseSuper = True, groupCount = 1, reservedGdtBlocks = 0\<rparr>\<rparr>"

lemma demo_ext_super: "ext_super demo_ext = Ret demo_ext_geometry"
proof -
  have l: "length demo_ext_super = 1024" by (simp add: demo_ext_super_def)
  then have "readFull demo_ext 1024 1024 = Ret demo_ext_super" by (simp add: readFull_def demo_ext_def)
  moreover have "parseSuperBlock demo_ext_super = Ret \<lparr>blocksCountLo = 6, firstDataBlock0 = 1, logBlockSize = 0,
      blocksPerGroup0 = 8, descSize0 = 0, featureIncompat = 0, featureRoCompat = 1, blocksCountHi = 0,
      logClusterSize = 0, firstMetaBg0 = 0, reservedGdtBlocks0 = 0\<rparr>"
    by (simp add: parseSuperBlock_def demo_ext_super_def le_at_def le_replicate)
  ultimately show ?thesis
    by (simp add: ext_super_def ext_geometry_of_def demo_ext_geometry_def Let_def bit_0)
qed

lemma demo_ext_desc: "desc_of demo_ext demo_ext_geometry 0 = Ret \<lparr>gd_blockBitmap = 3, gd_freeBlocksCount = 0, gd_flags = 0\<rparr>"
proof -
  have "gdtLocation 0 (x_gp demo_ext_geometry) = Ret (2, 0)" by (simp add: gdtLocation_def demo_ext_geometry_def Let_def)
  moreover have "block_at demo_ext 1024 2 = Ret demo_ext_gdt"
    by (simp add: block_at_def readFull_def demo_ext_def demo_ext_gdt_def)
  moreover have "parseGroupDesc demo_ext_gdt False = Ret \<lparr>gd_blockBitmap = 3, gd_freeBlocksCount = 0, gd_flags = 0\<rparr>"
    by (simp add: parseGroupDesc_def demo_ext_gdt_def le_at_def le_replicate)
  ultimately show ?thesis by (simp add: desc_of_def) (simp add: demo_ext_geometry_def)
qed

lemma demo_ext_bitmap: "block_at demo_ext 1024 3 = Ret (0x0B # replicate 1023 0)"
  by (simp add: block_at_def readFull_def demo_ext_def)

lemma demo_ext_free: "ext_free demo_ext demo_ext_geometry n \<longleftrightarrow> 1 \<le> n \<and> n < 9 \<and> \<not> bit (0x0B :: byte) (n - 1)" if "n < 9"
proof -
  have "testBit (0x0B # replicate 1023 0) (n - 1) = bit (0x0B :: byte) (n - 1)"
  proof -
    have "(n - 1) div 8 = 0" "(n - 1) mod 8 = n - 1" using that by simp_all
    then show ?thesis by (simp add: testBit_def)
  qed
  moreover have "(n - 1) div 8 = 0" "(n - 1) mod 8 = n - 1" using that by simp_all
  ultimately show ?thesis
    using that demo_ext_desc demo_ext_bitmap
    by (simp add: ext_free_def Let_def group_free_def bit_index_def demo_ext_geometry_def)
qed

lemma demo_ext_Dump: "\<exists>b. ext_Dump list_roaring demo_ext = Ret b"
proof -
  have "\<exists>b. clear_blocks R (0x0B # replicate 1023 0) s i n fb = Ret b" if "i + n \<le> 8" for R s i n and fb :: "nat list FsBitmap"
    using that by (induction n arbitrary: i fb) auto
  note C = this
  have "gdtLocation 0 (x_gp demo_ext_geometry) = Ret (2, 0)" by (simp add: gdtLocation_def demo_ext_geometry_def Let_def)
  moreover have "readFull demo_ext 2048 1024 = Ret demo_ext_gdt"
    by (simp add: readFull_def demo_ext_def demo_ext_gdt_def)
  moreover have "parseGroupDesc demo_ext_gdt False = Ret \<lparr>gd_blockBitmap = 3, gd_freeBlocksCount = 0, gd_flags = 0\<rparr>"
    by (simp add: parseGroupDesc_def demo_ext_gdt_def le_at_def le_replicate)
  moreover have "readFull demo_ext 3072 1024 = Ret (0x0B # replicate 1023 0)" by (simp add: readFull_def demo_ext_def)
  moreover have "\<exists>b. clear_blocks list_roaring (0x0B # replicate 1023 0) (Suc 0) 0 5
      (SetAll list_roaring (NewFsBitmap ''ext2/3/4'' BitmapFromFS 6 1024)) = Ret b"
    by (rule C) simp
  then obtain b where "clear_blocks list_roaring (0x0B # replicate 1023 0) (Suc 0) 0 5
      (SetAll list_roaring (NewFsBitmap ''ext2/3/4'' BitmapFromFS 6 1024)) = Ret b" ..
  ultimately show ?thesis
    unfolding ext_Dump_def demo_ext_super bindG_simps
    by (simp add: demo_ext_geometry_def cache_read_def mark_group_def group_start_def blocksInGroup_def Let_def)
qed

section \<open>Descriptor slots\<close>

definition gdt_ok :: "gdtParams \<Rightarrow> bool" where
  "gdt_ok p \<longleftrightarrow> 0 < descSize p \<and> descSize p dvd gp_blockSize p \<and> 0 < gp_blockSize p \<and> gp_blockSize p < 2 ^ 32
     \<and> 2 \<le> blocksPerGroup p \<and> blocksPerGroup p < 2 ^ 32 \<and> firstDataBlock p < 2 ^ 32 \<and> firstMetaBg p < 2 ^ 32"

definition in_meta :: "gdtParams \<Rightarrow> nat \<Rightarrow> bool" where
  "in_meta p g \<longleftrightarrow> hasMetaBg p \<and> firstMetaBg p * (gp_blockSize p div descSize p) \<le> g"

lemma mult_bounds: "a < 2 ^ m \<Longrightarrow> b < 2 ^ n \<Longrightarrow> a * b < (2::nat) ^ (m + n)"
  unfolding power_add by (rule mult_strict_mono) auto

lemma dvd_fits: "d dvd off \<Longrightarrow> d dvd (bs::nat) \<Longrightarrow> off < bs \<Longrightarrow> off + d \<le> bs"
  by (metis add.commute dvd_diff_nat dvd_imp_le le_diff_conv2 less_imp_le zero_less_diff)

lemma classic_slot:
  assumes ok: "gdt_ok p" and g: "g < 2 ^ 30" "\<not> in_meta p g"
  shows "gdtLocation g p = Ret (firstDataBlock p + 1 + g * descSize p div gp_blockSize p, g * descSize p mod gp_blockSize p)"
proof -
  let ?q = "gp_blockSize p div descSize p"
  have "descSize p \<le> gp_blockSize p" using ok by (auto simp: gdt_ok_def dest: dvd_imp_le)
  then have d: "descSize p < 2 ^ 32" using ok by (simp add: gdt_ok_def)
  have "gp_blockSize p < 2 ^ 32" using ok by (simp add: gdt_ok_def)
  then have q: "?q < 2 ^ 32" by (rule le_less_trans [OF div_le_dividend])
  have "firstMetaBg p * ?q < 2 ^ (32 + 32)" using ok q by (intro mult_bounds) (simp_all add: gdt_ok_def)
  then have u1: "u64 (firstMetaBg p * ?q) = firstMetaBg p * ?q" by (intro u64_small) simp
  have gd: "g * descSize p < 2 ^ (30 + 32)" using g(1) d by (rule mult_bounds)
  then have u2: "u64 (g * descSize p) = g * descSize p" by (intro u64_small) simp
  have "g * descSize p div gp_blockSize p < 2 ^ (30 + 32)" using gd by (rule le_less_trans [OF div_le_dividend])
  then have u3: "u64 (firstDataBlock p + 1 + g * descSize p div gp_blockSize p) = firstDataBlock p + 1 + g * descSize p div gp_blockSize p"
    using ok by (intro u64_small) (simp add: gdt_ok_def)
  have "g * descSize p mod gp_blockSize p < 2 ^ 32"
    using ok mod_less_divisor [of "gp_blockSize p" "g * descSize p"] unfolding gdt_ok_def by linarith
  then have u4: "u32 (g * descSize p mod gp_blockSize p) = g * descSize p mod gp_blockSize p" by (rule u32_small)
  have c: "\<not> hasMetaBg p \<or> g < firstMetaBg p * ?q" using g(2) by (auto simp: in_meta_def)
  show ?thesis unfolding gdtLocation_def Let_def u1 if_P [OF c] u2 u3 u4 ..
qed

lemma meta_slot:
  assumes ok: "gdt_ok p" and g: "g < 2 ^ 30" "in_meta p g"
  defines "q \<equiv> gp_blockSize p div descSize p"
  shows "\<exists>e \<le> 1. gdtLocation g p = Ret (firstDataBlock p + g div q * (q * blocksPerGroup p) + e, g mod q * descSize p)"
    "0 < q" "q * descSize p = gp_blockSize p"
proof -
  have o: "0 < descSize p" "descSize p dvd gp_blockSize p" "0 < gp_blockSize p" "gp_blockSize p < 2 ^ 32"
    "blocksPerGroup p < 2 ^ 32" "firstDataBlock p < 2 ^ 32" "firstMetaBg p < 2 ^ 32" using ok by (auto simp: gdt_ok_def)
  show qd: "q * descSize p = gp_blockSize p" unfolding q_def using o(2) by simp
  show q0: "0 < q" using qd o(3) by (cases q) auto
  have q: "q < 2 ^ 32" unfolding q_def using o(4) by (rule le_less_trans [OF div_le_dividend])
  have "firstMetaBg p * q < 2 ^ (32 + 32)" using o(7) q by (rule mult_bounds)
  then have u1: "u64 (firstMetaBg p * q) = firstMetaBg p * q" by (intro u64_small) simp
  have fg: "g div q * q \<le> g" by (rule div_times_less_eq_dividend)
  then have fg30: "g div q * q < 2 ^ 30" using g(1) by linarith
  then have u2: "u64 (g div q * q) = g div q * q" by (intro u64_small) simp
  have m: "g div q * q * blocksPerGroup p < 2 ^ (30 + 32)" using fg30 o(5) by (rule mult_bounds)
  then have u3: "u64 (firstDataBlock p + g div q * q * blocksPerGroup p) = firstDataBlock p + g div q * q * blocksPerGroup p"
    "u64 (firstDataBlock p + g div q * q * blocksPerGroup p + 1) = firstDataBlock p + g div q * q * blocksPerGroup p + 1"
    using o(6) by (simp_all add: u64_small)
  have gm: "g mod q < q" using q0 by simp
  then have u4: "u32 (g mod q) = g mod q" using q by (intro u32_small) linarith
  have "g mod q * descSize p < q * descSize p" using gm o(1) by simp
  then have u5: "u32 (g mod q * descSize p) = g mod q * descSize p" using o(4) qd by (intro u32_small) linarith
  have c: "\<not> (\<not> hasMetaBg p \<or> g < firstMetaBg p * q)" "\<not> q = 0" using g(2) q0 by (auto simp: in_meta_def q_def)
  have "gdtLocation g p = Ret (firstDataBlock p + g div q * q * blocksPerGroup p
      + (if hasSuperblockBackup (g div q * q) (sparseSuper p) then 1 else 0), g mod q * descSize p)"
    unfolding gdtLocation_def Let_def q_def [symmetric] u1 if_not_P [OF c(1)] if_not_P [OF c(2)] u2 u3 u4 u5 by simp
  then show "\<exists>e \<le> 1. gdtLocation g p = Ret (firstDataBlock p + g div q * (q * blocksPerGroup p) + e, g mod q * descSize p)"
    by (auto simp: mult.assoc)
qed

lemma near_multiples:
  assumes "a * k + e = b * k + (f::nat)" "e \<le> 1" "f \<le> 1" "2 \<le> k"
  shows "a = b"
proof -
  have "(a * k + e) div k = a" "(b * k + f) div k = b" using assms(2-4) by simp_all
  then show ?thesis using assms(1) by simp
qed

section \<open>Properties\<close>

text \<open>
  C24.  When the ext parser returns a bitmap, it has one bit per block, and a block is unmarked exactly
  when it lies in a block group whose descriptor and bitmap say it is free: for a group without a
  bitmap, every block behind the superblock and descriptor copies; otherwise the blocks whose bit
  (with bigalloc, whose cluster's bit) is clear.  Blocks in front of the first group stay marked.
\<close>

theorem ext_marks:
  assumes R: "roaring_ok R" and d: "ext_Dump R rd = Ret b" and x: "ext_super rd = Ret x"
    and size: "firstDataBlock (x_gp x) \<le> x_total x" "x_total x < 2 ^ 63"
  shows "Bits b = int (x_total x) \<and> (IsSet R b n \<longleftrightarrow> n < x_total x \<and> \<not> ext_free rd x n)"
proof -
  note ok = ext_super_geo [OF x size]
  let ?fb = "SetAll R (NewFsBitmap ''ext2/3/4'' BitmapFromFS (i64 (int (x_total x))) (int (gp_blockSize (x_gp x))))"
  let ?c = "\<lparr>cache_block = 0, cache_buf = [], cache_valid = False\<rparr>"
  have t: "i64 (int (x_total x)) = int (x_total x)" using size(2) by (intro i64_small) auto
  have t': "int (x_total x) < 2 ^ 63" using size(2) by simp
  have N: "bm_inv R (NewFsBitmap ''ext2/3/4'' BitmapFromFS (int (x_total x)) (int (gp_blockSize (x_gp x))))"
    using NewFsBitmap_spec [OF R t'] by auto
  have F: "bm_inv R ?fb" "Bits ?fb = int (x_total x)" "used R ?fb = {..<x_total x} - free_upto rd x 0"
    using fsbm.set_all_inv [OF N] fsbm.set_all_used [OF N] unfolding t by (simp_all add: NewFsBitmap_def free_upto_def)
  have "ext_groups (groupCount (x_gp x)) R rd x 0 ?c ?fb = Ret b"
    using d unfolding ext_Dump_def x by simp
  from ext_groups_spec [OF ok this _ F] have E: "bm_inv R b" "Bits b = int (x_total x)"
    "used R b = {..<x_total x} - free_upto rd x (groupCount (x_gp x))"
    "\<forall>h < groupCount (x_gp x). \<exists>gd. desc_of rd x h = Ret gd"
    by (auto simp: cache_ok_def)
  have "IsSet R b n \<longleftrightarrow> n < x_total x \<and> n \<notin> free_upto rd x (groupCount (x_gp x))"
    using IsSet_used [OF E(1)] E(3) by simp
  then show ?thesis using E(2) free_upto_all [OF ok E(4), of n] by blast
qed

theorem ext_marks_witness:
  "\<exists>b. ext_Dump list_roaring demo_ext = Ret b \<and> Bits b = 6 \<and> IsSet list_roaring b 0 \<and> IsSet list_roaring b 4
     \<and> \<not> IsSet list_roaring b 3"
proof -
  obtain b where b: "ext_Dump list_roaring demo_ext = Ret b" using demo_ext_Dump ..
  have s: "firstDataBlock (x_gp demo_ext_geometry) \<le> x_total demo_ext_geometry" "x_total demo_ext_geometry < 2 ^ 63"
    by (simp_all add: demo_ext_geometry_def)
  note M = ext_marks [OF roaring_exact_ok [OF list_roaring_exact] b demo_ext_super s]
  have t: "x_total demo_ext_geometry = 6" by (simp add: demo_ext_geometry_def)
  have "bit (0x0B :: byte) 3" "\<not> bit (0x0B :: byte) 2" by (simp_all add: bit_numeral_rec)
  then have "ext_free demo_ext demo_ext_geometry 3" "\<not> ext_free demo_ext demo_ext_geometry 4"
    "\<not> ext_free demo_ext demo_ext_geometry 0"
    by (simp_all add: demo_ext_free)
  then show ?thesis using b M [of 0] M [of 3] M [of 4] unfolding t by (intro exI [of _ b]) simp
qed

text \<open>
   The groups that carry a copy of the superblock are those of the documented rule: all of them
  without \<open>sparse_super\<close>, otherwise 0, 1 and the powers of 3, 5 and 7; the division loop ends.
\<close>

lemma superblock_backups:
  "hasSuperblockBackup g sparse =
     (if sparse then g = 0 \<or> (\<exists>k. g = 3 ^ k) \<or> (\<exists>k. g = 5 ^ k) \<or> (\<exists>k. g = 7 ^ k) else True)"
proof (cases "g = 0")
  case False
  then have "isPowerOf g 3 \<longleftrightarrow> (\<exists>k. g = 3 ^ k)" "isPowerOf g 5 \<longleftrightarrow> (\<exists>k. g = 5 ^ k)" "isPowerOf g 7 \<longleftrightarrow> (\<exists>k. g = 7 ^ k)"
    using power_loop_iff [of 3 g] power_loop_iff [of 5 g] power_loop_iff [of 7 g] by (simp_all add: isPowerOf_def)
  moreover have "g = 1 \<longrightarrow> (\<exists>k. g = 3 ^ k)" using power_0 [of "3::nat"] by metis
  ultimately show ?thesis using False unfolding hasSuperblockBackup_def by auto
qed (simp add: hasSuperblockBackup_def)

text \<open>
   Two block groups never share a descriptor slot: in the contiguous layout and within the
  meta-group layout, the located slots are aligned, lie inside one block and differ for different
  groups.
\<close>

lemma gdt_slots_distinct:
  assumes ok: "gdt_ok p" and g: "g < 2 ^ 30" "h < 2 ^ 30" "g \<noteq> h" and meta: "in_meta p g \<longleftrightarrow> in_meta p h"
  shows "\<exists>b off b' off'. gdtLocation g p = Ret (b, off) \<and> gdtLocation h p = Ret (b', off')
     \<and> off + descSize p \<le> gp_blockSize p \<and> descSize p dvd off \<and> (b, off) \<noteq> (b', off')"
proof -
  let ?d = "descSize p" and ?s = "gp_blockSize p"
  have d: "0 < ?d" "?d dvd ?s" "0 < ?s" "2 \<le> blocksPerGroup p" using ok by (auto simp: gdt_ok_def)
  show ?thesis
  proof (cases "in_meta p g")
    case False
    note G = classic_slot [OF ok g(1) False] and H = classic_slot [OF ok g(2) False [unfolded meta]]
    have dv: "?d dvd g * ?d mod ?s" using d(2) by (simp add: dvd_mod)
    have ne: "(g * ?d div ?s, g * ?d mod ?s) \<noteq> (h * ?d div ?s, h * ?d mod ?s)"
    proof
      assume "(g * ?d div ?s, g * ?d mod ?s) = (h * ?d div ?s, h * ?d mod ?s)"
      then have "g * ?d = h * ?d" by (metis div_mult_mod_eq prod.inject)
      then show False using g(3) d(1) by simp
    qed
    then show ?thesis using G H dv dvd_fits [OF dv d(2)] d(3) by auto
  next
    case True
    define q where "q = ?s div ?d"
    note G = meta_slot [OF ok g(1) True, folded q_def] and H = meta_slot [OF ok g(2) True [unfolded meta], folded q_def]
    obtain e f where e: "e \<le> 1" "gdtLocation g p = Ret (firstDataBlock p + g div q * (q * blocksPerGroup p) + e, g mod q * ?d)"
      and f: "f \<le> 1" "gdtLocation h p = Ret (firstDataBlock p + h div q * (q * blocksPerGroup p) + f, h mod q * ?d)"
      using G(1) H(1) by blast
    have k: "2 \<le> q * blocksPerGroup p" using G(2) d(4) by (metis Suc_leI mult_le_mono nat_mult_1 One_nat_def)
    have "g mod q * ?d < ?s" using G(2,3) d(1) by (metis mod_less_divisor mult_less_mono1)
    moreover have "?d dvd g mod q * ?d" by simp
    moreover have "(firstDataBlock p + g div q * (q * blocksPerGroup p) + e, g mod q * ?d)
        \<noteq> (firstDataBlock p + h div q * (q * blocksPerGroup p) + f, h mod q * ?d)"
    proof
      assume "(firstDataBlock p + g div q * (q * blocksPerGroup p) + e, g mod q * ?d)
        = (firstDataBlock p + h div q * (q * blocksPerGroup p) + f, h mod q * ?d)"
      then have "g div q * (q * blocksPerGroup p) + e = h div q * (q * blocksPerGroup p) + f" "g mod q = h mod q"
        using d(1) by simp_all
      then have "g div q = h div q" "g mod q = h mod q" using near_multiples e(1) f(1) k by blast+
      then show False using g(3) div_mult_mod_eq by metis
    qed
    ultimately show ?thesis using e(2) f(2) dvd_fits [OF _ d(2)] by blast
  qed
qed

lemma gdt_slots_distinct_example:
  "\<exists>b off b' off'. gdtLocation 40 (x_gp demo_ext_geometry) = Ret (b, off)
     \<and> gdtLocation 41 (x_gp demo_ext_geometry) = Ret (b', off') \<and> (b, off) \<noteq> (b', off')"
proof -
  have "gdt_ok (x_gp demo_ext_geometry)" "in_meta (x_gp demo_ext_geometry) 40 \<longleftrightarrow> in_meta (x_gp demo_ext_geometry) 41"
    by (simp_all add: gdt_ok_def in_meta_def demo_ext_geometry_def)
  from gdt_slots_distinct [OF this(1) _ _ _ this(2)] show ?thesis by auto
qed

end
