(* ===== verification/Ntfs.thy ===== *)
theory Ntfs
  imports Region
begin

text \<open>
  The bitmap parser for NTFS (\<^verbatim>\<open>src/disk/filesystem/ntfs\<close>): the boot sector, the FILE record of
  \<open>$Bitmap\<close> with its update-sequence correction, the attribute headers, the run list and the bitmap
  that the runs hold.  Every slice expression and every fixed-offset read of the code is a call of
  \<open>slice_of\<close>, \<open>byte_at\<close> or \<open>uint_at\<close>, which panic outside the slice, so that the absence of panics is
  a statement about the guards of the code.  Go's \<open>int\<close> is 64 bits wide.
\<close>

unbundle bit_operations_syntax

section \<open>Slices\<close>

definition slice_of :: "byte list \<Rightarrow> nat \<Rightarrow> nat \<Rightarrow> byte list go" where
  "slice_of buf a b = (if a \<le> b \<and> b \<le> length buf then Ret (take (b - a) (drop a buf)) else Panics)"

definition byte_at :: "byte list \<Rightarrow> nat \<Rightarrow> byte go" where
  "byte_at buf i = (if i < length buf then Ret (buf ! i) else Panics)"

text \<open>\<open>binary.LittleEndian.Uint16(buf[off:])\<close> and its 32- and 64-bit forms; \<open>n\<close> counts the bytes.\<close>

definition uint_at :: "nat \<Rightarrow> byte list \<Rightarrow> nat \<Rightarrow> nat go" where
  "uint_at n buf off = (if off + n \<le> length buf then Ret (le_at n buf off) else Panics)"

definition CheckBounds :: "int \<Rightarrow> int \<Rightarrow> int \<Rightarrow> unit go" where
  "CheckBounds off n len =
     (if off < 0 then Fail (Errorf ''safeio: negative offset %d'' [FInt off])
      else if n < 0 then Fail (Errorf ''safeio: negative length %d'' [FInt n])
      else if len < 0 then Fail (Errorf ''safeio: negative buffer length %d'' [FInt len])
      else let e = i64 (off + n) in
        if e < off \<or> e > len
        then Fail (Errorf ''safeio: range [%d,%d+%d) exceeds buffer length %d'' [FInt off, FInt off, FInt n, FInt len])
        else Ret ())"

definition Slice :: "byte list \<Rightarrow> int \<Rightarrow> int \<Rightarrow> byte list go" where
  "Slice buf off n =
     bindG (CheckBounds off n (int (length buf))) (\<lambda>_. slice_of buf (nat off) (nat (i64 (off + n))))"

section \<open>Checked arithmetic\<close>

definition mulCheck :: "int \<Rightarrow> int \<Rightarrow> int option" where
  "mulCheck a b =
     (if a < 0 \<or> b < 0 then None
      else if a = 0 \<or> b = 0 then Some 0
      else let p = i64 (a * b) in if tdiv p b \<noteq> a \<or> p < 0 then None else Some p)"

definition addCheck :: "int \<Rightarrow> int \<Rightarrow> int option" where
  "addCheck a b =
     (let s = i64 (a + b) in if (b > 0 \<and> s < a) \<or> (b < 0 \<and> s > a) then None else Some s)"

definition isPowerOfTwo :: "32 word \<Rightarrow> bool" where
  "isPowerOfTwo v \<longleftrightarrow> v \<noteq> 0 \<and> v AND (v - 1) = 0"

section \<open>The iteration guard\<close>

record LoopGuard =
  lg_max :: int
  lg_n :: int

definition NewLoopGuard :: "int \<Rightarrow> LoopGuard" where
  "NewLoopGuard m = \<lparr>lg_max = m, lg_n = 0\<rparr>"

definition guard_Next :: "LoopGuard \<Rightarrow> LoopGuard go" where
  "guard_Next g =
     (if lg_n g \<ge> lg_max g then Fail (Errorf ''loopLimit: %d'' [FInt (lg_max g)])
      else Ret (g\<lparr>lg_n := lg_n g + 1\<rparr>))"

definition guard_Count :: "LoopGuard \<Rightarrow> int" where
  "guard_Count g = lg_n g"

section \<open>Run lists\<close>

record dataRun =
  lengthClusters :: int
  startCluster :: int
  sparse :: bool

definition maxRunLengthClusters :: int where
  "maxRunLengthClusters = 2 ^ 40"

text \<open>The loops run from the last byte to the first.\<close>

definition readUintLE :: "byte list \<Rightarrow> 64 word" where
  "readUintLE b = foldr (\<lambda>x v. push_bit 8 v OR ucast x) b 0"

text \<open>
  The shift count is \<open>uint(64 - 8*len(b))\<close>, which wraps for more than eight bytes; a left shift by
  64 or more gives zero.
\<close>

definition readIntLE :: "byte list \<Rightarrow> 64 word" where
  "readIntLE b =
     (if b = [] then 0
      else let v = foldr (\<lambda>x v. push_bit 8 v OR ucast x) b 0;
               shift = u64_of_int (64 - 8 * int (length b))
           in if shift \<ge> 64 then 0 else signed_drop_bit shift (push_bit shift v))"

function run_list :: "byte list \<Rightarrow> LoopGuard \<Rightarrow> nat \<Rightarrow> int \<Rightarrow> dataRun list \<Rightarrow> dataRun list go" where
  "run_list buf g i prevLCN rs =
     (if i < length buf then
        bindG (wrapG ''ntfs: runlist: %v'' [] (guard_Next g)) (\<lambda>g.
        bindG (byte_at buf i) (\<lambda>header.
          if header = 0 then Ret rs
          else let i1 = i + 1; lenBytes = unat (header AND 0x0F); offBytes = unat (drop_bit 4 header) in
            if lenBytes = 0 \<or> i1 + lenBytes + offBytes > length buf
            then Fail (Errorf ''ntfs: malformed data run'' [])
            else bindG (slice_of buf i1 (i1 + lenBytes)) (\<lambda>lb.
              let len = sint (readUintLE lb); i2 = i1 + lenBytes in
              if len < 0 \<or> len > maxRunLengthClusters
              then Fail (Errorf ''ntfs: data run length %d out of range'' [FInt len])
              else if offBytes = 0
              then run_list buf g i2 prevLCN (rs @ [\<lparr>lengthClusters = len, startCluster = -1, sparse = True\<rparr>])
              else bindG (slice_of buf i2 (i2 + offBytes)) (\<lambda>ob.
                let prevLCN = i64 (prevLCN + sint (readIntLE ob)) in
                if prevLCN < 0
                then Fail (Errorf ''ntfs: data run negative start cluster %d'' [FInt prevLCN])
                else run_list buf g (i2 + offBytes) prevLCN
                       (rs @ [\<lparr>lengthClusters = len, startCluster = prevLCN, sparse = False\<rparr>])))))
      else Ret rs)"
  by pat_completeness auto

termination run_list
  by (relation "measure (\<lambda>(buf, g, i, p, rs). length buf - i)") auto

declare run_list.simps [simp del]

definition decodeRunList :: "byte list \<Rightarrow> dataRun list go" where
  "decodeRunList buf = run_list buf (NewLoopGuard (int (length buf) + 1)) 0 0 []"

section \<open>Attributes\<close>

record attribute =
  typeCode :: nat
  attr_name :: "nat list"
  nonResident :: bool
  attr_flags :: nat
  attrID :: nat
  residentData :: "byte list"
  attr_runs :: "dataRun list"
  realSize :: nat
  startVCN :: nat
  lastVCN :: nat
  compUnit :: nat

definition zero_attribute :: attribute where
  "zero_attribute = \<lparr>typeCode = 0, attr_name = [], nonResident = False, attr_flags = 0, attrID = 0,
     residentData = [], attr_runs = [], realSize = 0, startVCN = 0, lastVCN = 0, compUnit = 0\<rparr>"

text \<open>
  \<open>IsCompressed\<close>: the low bit of the flags is \<open>attrFlagCompressed\<close>.
\<close>

definition IsCompressed :: "attribute \<Rightarrow> bool" where
  "IsCompressed a \<longleftrightarrow> nonResident a \<and> compUnit a \<noteq> 0 \<and> attr_flags a AND 0x0001 \<noteq> 0"

text \<open>
  \<open>utf16.Decode\<close>.  A Go string of runes is represented by the list of its code points.
\<close>

fun utf16_Decode :: "nat list \<Rightarrow> nat list" where
  "utf16_Decode [] = []"
| "utf16_Decode [r] = [if 0xD800 \<le> r \<and> r < 0xE000 then 0xFFFD else r]"
| "utf16_Decode (r # s # us) =
     (if r < 0xD800 \<or> 0xE000 \<le> r then r # utf16_Decode (s # us)
      else if r < 0xDC00 \<and> 0xDC00 \<le> s \<and> s < 0xE000
      then ((r - 0xD800) * 0x400 + (s - 0xDC00) + 0x10000) # utf16_Decode us
      else 0xFFFD # utf16_Decode (s # us))"

definition decodeUTF16 :: "byte list \<Rightarrow> nat list" where
  "decodeUTF16 b = utf16_Decode (map (\<lambda>i. le_at 2 b (i * 2)) [0..<length b div 2])"

definition parseAttribute :: "byte list \<Rightarrow> attribute go" where
  "parseAttribute buf =
     bindG (wrapG ''ntfs: short attribute header: %v'' [] (CheckBounds 0 0x18 (int (length buf)))) (\<lambda>_.
     bindG (uint_at 4 buf 0) (\<lambda>tc.
     bindG (byte_at buf 8) (\<lambda>nonRes.
     bindG (byte_at buf 9) (\<lambda>nameLen.
     bindG (uint_at 2 buf 10) (\<lambda>nameOff.
     bindG (uint_at 2 buf 0x0C) (\<lambda>fl.
     bindG (uint_at 2 buf 0x0E) (\<lambda>aid.
     bindG (if nameLen > 0
            then (case Slice buf (int nameOff) (int (unat nameLen) * 2) of
                    Ret name \<Rightarrow> Ret (decodeUTF16 name) | Fail _ \<Rightarrow> Ret [] | Panics \<Rightarrow> Panics)
            else Ret []) (\<lambda>name.
       let a = zero_attribute\<lparr>typeCode := tc, attr_name := name, attr_flags := fl, attrID := aid\<rparr> in
       if nonRes = 0 then
         bindG (uint_at 4 buf 0x10) (\<lambda>contentLen.
         bindG (uint_at 2 buf 0x14) (\<lambda>contentOff.
         bindG (wrapG ''ntfs: resident attr content out of range: %v'' [] (Slice buf (int contentOff) (int contentLen)))
           (\<lambda>content. Ret (a\<lparr>residentData := content, realSize := contentLen\<rparr>))))
       else
         bindG (wrapG ''ntfs: short non-resident attribute header: %v'' [] (CheckBounds 0 0x40 (int (length buf)))) (\<lambda>_.
         bindG (uint_at 8 buf 0x10) (\<lambda>svcn.
         bindG (uint_at 8 buf 0x18) (\<lambda>lvcn.
         bindG (uint_at 2 buf 0x22) (\<lambda>cu.
         bindG (uint_at 8 buf 0x30) (\<lambda>rs.
         bindG (uint_at 2 buf 0x20) (\<lambda>runOff.
         bindG (wrapG ''ntfs: bad runlist offset: %v'' [] (Slice buf (int runOff) (int (length buf) - int runOff)))
           (\<lambda>runData. bindG (decodeRunList runData) (\<lambda>rl.
             Ret (a\<lparr>nonResident := True, startVCN := svcn, lastVCN := lvcn, compUnit := cu, realSize := rs,
                    attr_runs := rl\<rparr>)))))))))))))))))"

section \<open>FILE records\<close>

text \<open>
  The update-sequence array, the sector ends and the buffer are views of one array: the sequence
  number and the saved word are read from the buffer as the preceding sectors left it.
\<close>

fun fixup_sectors :: "nat \<Rightarrow> nat \<Rightarrow> nat list \<Rightarrow> byte list \<Rightarrow> byte list go" where
  "fixup_sectors uo bps [] buf = Ret buf"
| "fixup_sectors uo bps (i # is) buf =
     (let sectorEnd = (i + 1) * bps; saved = uo + 2 + i * 2 in
      if sectorEnd < 2 \<or> sectorEnd > length buf
      then Fail (Errorf ''fixup sector %d beyond record'' [FInt (int i)])
      else bindG (byte_at buf (sectorEnd - 2)) (\<lambda>t0.
           bindG (byte_at buf (sectorEnd - 1)) (\<lambda>t1.
           bindG (byte_at buf uo) (\<lambda>u0.
           bindG (byte_at buf (uo + 1)) (\<lambda>u1.
             if t0 \<noteq> u0 \<or> t1 \<noteq> u1 then Fail (Errorf ''fixup mismatch in sector %d'' [FInt (int i)])
             else bindG (byte_at buf saved) (\<lambda>s0.
                  let buf1 = buf[sectorEnd - 2 := s0] in
                  bindG (byte_at buf1 (saved + 1)) (\<lambda>s1.
                    fixup_sectors uo bps is (buf1[sectorEnd - 1 := s1]))))))))"

definition applyFixup :: "byte list \<Rightarrow> nat \<Rightarrow> nat \<Rightarrow> nat \<Rightarrow> byte list go" where
  "applyFixup buf usaOffset usaCount bps =
     (if usaCount = 0 then Ret buf
      else bindG (wrapG ''USA out of range: %v'' [] (CheckBounds (int usaOffset) (int usaCount * 2) (int (length buf))))
             (\<lambda>_. bindG (slice_of buf usaOffset (usaOffset + 2))
             (\<lambda>_. fixup_sectors usaOffset bps [0..<usaCount - 1] buf)))"

record fileRecord =
  fr_flags :: nat
  rec_attrs :: "attribute list"

definition isDir :: "fileRecord \<Rightarrow> bool" where
  "isDir f \<longleftrightarrow> fr_flags f AND 0x0002 \<noteq> 0"

function attr_loop :: "byte list \<Rightarrow> nat \<Rightarrow> attribute list \<Rightarrow> attribute list go" where
  "attr_loop buf off as =
     (if off + 4 \<le> length buf then
        bindG (uint_at 4 buf off) (\<lambda>tc.
          if tc = 0xFFFFFFFF \<or> off + 8 > length buf then Ret as
          else bindG (uint_at 4 buf (off + 4)) (\<lambda>recLen.
            if recLen = 0 \<or> off + recLen > length buf
            then Fail (Errorf ''ntfs: bad attribute length %d at %d'' [FInt (int recLen), FInt (int off)])
            else bindG (slice_of buf off (off + recLen)) (\<lambda>sub.
                 bindG (parseAttribute sub) (\<lambda>a. attr_loop buf (off + recLen) (as @ [a])))))
      else Ret as)"
  by pat_completeness auto

termination attr_loop
  by (relation "measure (\<lambda>(buf, off, as). length buf - off)") auto

declare attr_loop.simps [simp del]

definition FILE_magic :: "byte list" where
  "FILE_magic = [0x46, 0x49, 0x4C, 0x45]"

definition parseFileRecord :: "nat \<Rightarrow> byte list \<Rightarrow> fileRecord go" where
  "parseFileRecord bps buf =
     (if length buf < 0x30 then Fail (Errorf ''ntfs: short FILE record'' [])
      else bindG (slice_of buf 0 4) (\<lambda>magic.
        if magic \<noteq> FILE_magic
        then Fail (Errorf ''ntfs: bad FILE magic %q'' [FStr (map (\<lambda>x. char_of (unat x)) magic)])
        else
          bindG (uint_at 2 buf 0x04) (\<lambda>usaOffset.
          bindG (uint_at 2 buf 0x06) (\<lambda>usaCount.
          bindG (wrapG ''ntfs: FILE fixup: %v'' [] (applyFixup buf usaOffset usaCount bps)) (\<lambda>buf.
          bindG (uint_at 2 buf 0x16) (\<lambda>flags.
          bindG (uint_at 2 buf 0x14) (\<lambda>firstAttr.
          bindG (attr_loop buf firstAttr []) (\<lambda>as. Ret \<lparr>fr_flags = flags, rec_attrs = as\<rparr>))))))))"

section \<open>The parser\<close>

record bootSector =
  b_bytesPerSector :: nat
  b_sectorsPerCluster :: nat
  mftCluster :: nat
  mftRecordSize :: nat
  indexRecordSize :: nat
  b_totalSectors :: int

record ntfs_parser =
  p_dev :: string
  p_start :: int
  p_size :: int
  p_fr :: FsRegionReader
  p_boot :: bootSector
  p_mftRuns :: "dataRun list"
  p_bitmapRuns :: "dataRun list"

definition zero_boot :: bootSector where
  "zero_boot = \<lparr>b_bytesPerSector = 0, b_sectorsPerCluster = 0, mftCluster = 0, mftRecordSize = 0,
     indexRecordSize = 0, b_totalSectors = 0\<rparr>"

definition ntfs_NewBitmapParser ::
    "(string \<Rightarrow> nat result) \<Rightarrow> (string \<Rightarrow> byte list result) \<Rightarrow> string \<Rightarrow> int \<Rightarrow> int \<Rightarrow> ntfs_parser result" where
  "ntfs_NewBitmapParser fileSize openFile dev start size' =
     bindR (NewFsRegionReader fileSize openFile dev start size') (\<lambda>fr.
       Inr \<lparr>p_dev = dev, p_start = start, p_size = size', p_fr = fr, p_boot = zero_boot,
            p_mftRuns = [], p_bitmapRuns = []\<rparr>)"

definition ntfs_clusterSize :: "bootSector \<Rightarrow> int" where
  "ntfs_clusterSize b = i64 (int (b_bytesPerSector b) * int (b_sectorsPerCluster b))"

definition totalCluster :: "bootSector \<Rightarrow> int" where
  "totalCluster b = tdiv (b_totalSectors b) (int (b_sectorsPerCluster b))"

definition decodeClustersPerRecord :: "byte \<Rightarrow> int \<Rightarrow> nat" where
  "decodeClustersPerRecord v cs =
     (if sint v \<ge> 0 then
        let sz = i64 (sint v * cs) in
        if cs \<noteq> 0 \<and> tdiv sz cs \<noteq> sint v then 0
        else if sz < 0 \<or> sz > 2 ^ 32 - 1 then 0
        else u32 (nat sz)
      else let shift = - sint v in if shift < 9 \<or> shift > 16 then 0 else u32 (2 ^ nat shift))"

definition minBytesPerSector :: nat where
  "minBytesPerSector = 512"

definition maxRecordSize :: nat where
  "maxRecordSize = 2 ^ 20"

text \<open>
  A read whose \<open>io.EOF\<close> is ignored: the rest of the freshly made buffer stays zero.
\<close>

definition filled :: "nat \<Rightarrow> byte list \<times> gerror option \<Rightarrow> byte list go" where
  "filled n res =
     (case res of (bs, e) \<Rightarrow>
        if e \<noteq> None \<and> e \<noteq> Some (Sentinel EOF_err) then Fail (the e)
        else Ret (bs @ replicate (n - length bs) 0))"

definition parseBoot :: "ntfs_parser \<Rightarrow> ntfs_parser go" where
  "parseBoot p =
     (case fr_Read (p_fr p) 512 of (fr, res) \<Rightarrow>
      bindG (wrapG ''ntfs: read boot sector: %v'' [] (filled 512 res)) (\<lambda>buf.
      bindG (uint_at 2 buf 0x0B) (\<lambda>bps.
      bindG (byte_at buf 0x0D) (\<lambda>spc.
        if spc = 0
        then Fail (Errorf ''ntfs: invalid BPB (bytes/sector=%d sectors/cluster=%d)'' [FInt (int bps), FInt 0])
        else if \<not> isPowerOfTwo (of_nat bps) \<or> bps < minBytesPerSector
        then Fail (Errorf ''ntfs: invalid bytes-per-sector %d (must be a power of two >= %d)''
                     [FInt (int bps), FInt (int minBytesPerSector)])
        else
          bindG (uint_at 8 buf 0x28) (\<lambda>totalSects.
          bindG (uint_at 8 buf 0x30) (\<lambda>mftClus.
          bindG (byte_at buf 0x40) (\<lambda>cpr.
          bindG (byte_at buf 0x44) (\<lambda>cpi.
            let b0 = zero_boot\<lparr>b_bytesPerSector := bps, b_sectorsPerCluster := unat spc, mftCluster := mftClus,
                       b_totalSectors := i64 (int totalSects)\<rparr>;
                b = b0\<lparr>mftRecordSize := decodeClustersPerRecord cpr (ntfs_clusterSize b0),
                       indexRecordSize := decodeClustersPerRecord cpi (ntfs_clusterSize b0)\<rparr>
            in if mftRecordSize b = 0 \<or> mftRecordSize b > maxRecordSize
               then Fail (Errorf ''ntfs: invalid MFT record size %d'' [FInt (int (mftRecordSize b))])
               else if indexRecordSize b > maxRecordSize
               then Fail (Errorf ''ntfs: invalid index record size %d'' [FInt (int (indexRecordSize b))])
               else Ret (p\<lparr>p_fr := fr, p_boot := b\<rparr>)))))))))"

definition readFileRecordAt :: "ntfs_parser \<Rightarrow> int \<Rightarrow> fileRecord go" where
  "readFileRecordAt p off =
     bindG (filled (mftRecordSize (p_boot p)) (fr_ReadAt (p_fr p) off (mftRecordSize (p_boot p))))
       (parseFileRecord (b_bytesPerSector (p_boot p)))"

text \<open>The walk over the runs of \<open>$MFT\<close>; \<open>None\<close> is the result \<open>(0, false)\<close>.\<close>

fun mft_locate :: "int \<Rightarrow> int \<Rightarrow> int \<Rightarrow> dataRun list \<Rightarrow> int option" where
  "mft_locate cs target streamPos [] = None"
| "mft_locate cs target streamPos (run # rs) =
     Option.bind (mulCheck (lengthClusters run) cs) (\<lambda>runBytes.
     Option.bind (addCheck streamPos runBytes) (\<lambda>streamEnd.
       if target < streamEnd
       then if sparse run then None
            else Option.bind (mulCheck (startCluster run) cs) (\<lambda>base.
                   addCheck base (i64 (target - streamPos)))
       else mft_locate cs target streamEnd rs))"

text \<open>The slice of runs is nil exactly when no run was appended to it.\<close>

definition mftRecordOffset :: "ntfs_parser \<Rightarrow> nat \<Rightarrow> int option" where
  "mftRecordOffset p recNo =
     Option.bind (mulCheck (i64 (int recNo)) (int (mftRecordSize (p_boot p)))) (\<lambda>target.
       let cs = ntfs_clusterSize (p_boot p) in
       if p_mftRuns p = [] then
         Option.bind (mulCheck (i64 (int (mftCluster (p_boot p)))) cs) (\<lambda>base.
           if i64 (int (mftCluster (p_boot p))) < 0 then None else addCheck base target)
       else mft_locate cs target 0 (p_mftRuns p))"

definition attrData :: nat where
  "attrData = 0x80"

definition mftRecordMFT :: nat where
  "mftRecordMFT = 0"

definition mftRecordBitmap :: nat where
  "mftRecordBitmap = 6"

text \<open>The first unnamed non-resident \<open>$DATA\<close> attribute, which both loaders look for.\<close>

definition data_runs :: "fileRecord \<Rightarrow> dataRun list option" where
  "data_runs rec = map_option attr_runs (find (\<lambda>a. typeCode a = attrData \<and> attr_name a = [] \<and> nonResident a) (rec_attrs rec))"

definition loadMFTRuns :: "ntfs_parser \<Rightarrow> ntfs_parser go" where
  "loadMFTRuns p =
     (case mftRecordOffset p mftRecordMFT of
        None \<Rightarrow> Fail (Errorf ''ntfs: $MFT record offset unreachable'' [])
      | Some off \<Rightarrow>
          bindG (wrapG ''ntfs: read $MFT record: %v'' [] (readFileRecordAt p off)) (\<lambda>rec.
            case data_runs rec of
              Some rs \<Rightarrow> Ret (p\<lparr>p_mftRuns := rs\<rparr>)
            | None \<Rightarrow> Fail (Errorf ''ntfs: $MFT has no non-resident $DATA'' [])))"

definition loadBitmapRuns :: "ntfs_parser \<Rightarrow> ntfs_parser go" where
  "loadBitmapRuns p =
     (case mftRecordOffset p mftRecordBitmap of
        None \<Rightarrow> Fail (Errorf ''ntfs: $BITMAP record offset unreachable'' [])
      | Some off \<Rightarrow>
          bindG (wrapG ''ntfs: read $MFT record: %v'' [] (readFileRecordAt p off)) (\<lambda>rec.
            case data_runs rec of
              Some rs \<Rightarrow> Ret (p\<lparr>p_bitmapRuns := rs\<rparr>)
            | None \<Rightarrow> Fail (Errorf ''ntfs: $BITMAP has no non-resident $DATA'' [])))"

section \<open>The bitmap\<close>

definition bitmap_len :: "int \<Rightarrow> dataRun list \<Rightarrow> int" where
  "bitmap_len cs rs = foldl (\<lambda>n run. i64 (n + i64 (lengthClusters run * cs))) 0 rs"

fun read_runs :: "ReaderAt \<Rightarrow> int \<Rightarrow> dataRun list \<Rightarrow> int \<Rightarrow> byte list \<Rightarrow> byte list go" where
  "read_runs rd cs [] dest buf = Ret buf"
| "read_runs rd cs (run # rs) dest buf =
     (let len = i64 (lengthClusters run * cs); stop = i64 (dest + len) in
      if sparse run then read_runs rd cs rs stop buf
      else if \<not> (0 \<le> dest \<and> dest \<le> stop \<and> stop \<le> int (length buf)) then Panics
      else case rd (i64 (startCluster run * cs)) (nat (stop - dest)) of
             (bs, Some e) \<Rightarrow> Fail e
           | (bs, None) \<Rightarrow>
               read_runs rd cs rs stop (take (nat dest) buf @ bs @ drop (nat dest + length bs) buf))"

definition ntfs_Dump :: "'r roaring \<Rightarrow> ntfs_parser \<Rightarrow> 'r FsBitmap go" where
  "ntfs_Dump R p =
     bindG (parseBoot p) (\<lambda>p.
     bindG (loadBitmapRuns p) (\<lambda>p.
       let cs = ntfs_clusterSize (p_boot p); bitmapLen = bitmap_len cs (p_bitmapRuns p) in
       if bitmapLen < 0 \<or> bitmapLen > maxAlloc then Panics
       else bindG (read_runs (fr_ReadAt (p_fr p)) cs (p_bitmapRuns p) 0 (replicate (nat bitmapLen) 0)) (\<lambda>bitmapBytes.
         let totalClusters = totalCluster (p_boot p); needBytes = tdiv (i64 (totalClusters + 7)) 8 in
         if int (length bitmapBytes) < needBytes
         then Fail (Errorf ''ntfs bitmap: bitmap data too small: got %d bytes, need at least %d for %d clusters''
                      [FInt (int (length bitmapBytes)), FInt needBytes, FInt totalClusters])
         else Ret (NewFsBitmapFromBytes R ''ntfs'' BitmapFromFS bitmapBytes totalClusters cs))))"

end
