(* ===== verification/NtfsLaws.thy ===== *)
theory NtfsLaws
  imports Ntfs
begin

text \<open>
  The laws of the NTFS parser's parts: the checked arithmetic is exact, the little-endian readers are
  the numbers they stand for, the guards of the record and attribute parsers keep every slice
  expression in range, and the run-list decoder inverts the encoding.
\<close>

unbundle bit_operations_syntax

lemma mod_diff_self: "(z - m) mod m = z mod (m :: int)"
  by (metis minus_mod_self2)

section \<open>Checked arithmetic\<close>

lemma i64_wrap: "i64 z = z \<longleftrightarrow> - (2 ^ 63) \<le> z \<and> z < 2 ^ 63"
  using i64_bounds [of z] by (metis i64_small)

lemma i64_sum:
  assumes "- (2 ^ 63) \<le> a" "a < 2 ^ 63" "- (2 ^ 63) \<le> b" "b < 2 ^ 63"
  shows "i64 (a + b) = (if a + b \<ge> 2 ^ 63 then a + b - 2 ^ 64 else if a + b < - (2 ^ 63) then a + b + 2 ^ 64 else a + b)"
proof -
  consider "a + b \<ge> 2 ^ 63" | "a + b < - (2 ^ 63)" | "- (2 ^ 63) \<le> a + b" "a + b < 2 ^ 63" by linarith
  then show ?thesis
  proof cases
    case 1
    have "(a + b + 2 ^ 63) mod 2 ^ 64 = (a + b + 2 ^ 63 - 2 ^ 64) mod 2 ^ 64" by (rule mod_diff_self [symmetric])
    also have "\<dots> = a + b + 2 ^ 63 - 2 ^ 64" using 1 assms by (intro mod_pos_pos_trivial) auto
    finally show ?thesis using 1 by (simp add: i64_def)
  next
    case 2
    have "(a + b + 2 ^ 63) mod 2 ^ 64 = (a + b + 2 ^ 63 + 2 ^ 64) mod 2 ^ 64" by (rule mod_add_self2 [symmetric])
    also have "\<dots> = a + b + 2 ^ 63 + 2 ^ 64" using 2 assms by (intro mod_pos_pos_trivial) auto
    finally show ?thesis using 2 by (simp add: i64_def)
  qed simp_all
qed

lemma addCheck_exact:
  assumes "- (2 ^ 63) \<le> a" "a < 2 ^ 63" "- (2 ^ 63) \<le> b" "b < 2 ^ 63"
  shows "addCheck a b = (if - (2 ^ 63) \<le> a + b \<and> a + b < 2 ^ 63 then Some (a + b) else None)"
  using i64_sum [OF assms] assms by (auto simp: addCheck_def Let_def)

lemma mulCheck_exact:
  assumes "a < 2 ^ 63" "b < 2 ^ 63"
  shows "mulCheck a b = (if 0 \<le> a \<and> 0 \<le> b \<and> a * b < 2 ^ 63 then Some (a * b) else None)"
proof (cases "0 < a \<and> 0 < b")
  case False
  then show ?thesis by (auto simp: mulCheck_def)
next
  case True
  show ?thesis
  proof (cases "a * b < 2 ^ 63")
    case small: True
    have "0 < a * b" using True by simp
    then have "\<not> a * b < 0" by linarith
    moreover have "i64 (a * b) = a * b" using \<open>0 < a * b\<close> small by (intro i64_small) linarith+
    ultimately show ?thesis using True small by (simp add: mulCheck_def Let_def)
  next
    case big: False
    let ?p = "i64 (a * b)"
    have "tdiv ?p b \<noteq> a" if "0 \<le> ?p"
    proof
      assume "tdiv ?p b = a"
      then have "a * b + ?p mod b = ?p" using that True div_mult_mod_eq [of ?p b] by simp
      moreover have "0 \<le> ?p mod b" using True by simp
      ultimately have "a * b \<le> ?p" by linarith
      then show False using big i64_bounds(2) [of "a * b"] by simp
    qed
    then have "tdiv ?p b \<noteq> a \<or> ?p < 0" by linarith
    then have "mulCheck a b = None" using True by (simp add: mulCheck_def Let_def)
    then show ?thesis using big by simp
  qed
qed

lemma CheckBounds_safe [simp]: "CheckBounds off n len \<noteq> Panics"
  by (simp add: CheckBounds_def Let_def)

lemma CheckBounds_exact:
  assumes "off + n < 2 ^ 63"
  shows "CheckBounds off n len = Ret () \<longleftrightarrow> 0 \<le> off \<and> 0 \<le> n \<and> 0 \<le> len \<and> off + n \<le> len"
proof -
  have "i64 (off + n) = off + n" if "0 \<le> off" "0 \<le> n"
    using that assms by (intro i64_small) simp_all
  then show ?thesis using assms by (auto simp: CheckBounds_def Let_def split: if_splits)
qed

lemma Slice_safe: "Slice buf off n \<noteq> Panics"
  by (auto simp: Slice_def CheckBounds_def Let_def slice_of_def nat_le_iff)

section \<open>Little-endian integers\<close>

lemma le_word_step: "push_bit 8 v OR ucast (x :: byte) = 256 * v + (ucast x :: 64 word)"
proof -
  have "push_bit 8 v AND (ucast x :: 64 word) = 0"
    by (rule bit_word_eqI) (auto simp: bit_simps dest: bit_imp_le_length)
  then have "push_bit 8 v OR ucast x = push_bit 8 v + (ucast x :: 64 word)"
    by (simp add: disjunctive_add_eq_or)
  then show ?thesis by (simp add: push_bit_eq_mult mult.commute)
qed

lemma readUintLE_le: "readUintLE b = of_nat (le b)"
  by (induction b) (simp_all add: readUintLE_def le_word_step of_nat_unat)

lemma readUintLE_value: "length b \<le> 8 \<Longrightarrow> unat (readUintLE b) = le b"
proof -
  assume "length b \<le> 8"
  then have "(256 :: nat) ^ length b \<le> 256 ^ 8" by (intro power_increasing) auto
  then have "le b < 2 ^ 64" using le_bound [of b] by simp
  then show ?thesis by (simp add: readUintLE_le unat_of_nat)
qed

lemma sext_shift:
  assumes "s < 64"
  shows "sint (signed_drop_bit s (push_bit s (v :: 64 word))) = signed_take_bit (63 - s) (uint v)"
proof -
  have "sint (signed_drop_bit s (push_bit s v)) = drop_bit s (signed_take_bit 63 (push_bit s (uint v)))"
    unfolding sint_signed_drop_bit_eq by (simp add: sint_uint unsigned_push_bit_eq signed_take_bit_take_bit)
  also have "\<dots> = signed_take_bit (63 - s) (uint v)"
    using assms by (intro bit_eqI) (auto simp: bit_simps min_def)
  finally show ?thesis .
qed

lemma readIntLE_sext:
  assumes "0 < length b" "length b \<le> 8"
  shows "sint (readIntLE b) = signed_take_bit (8 * length b - 1) (int (le b))"
proof -
  have "64 - 8 * int (length b) < 2 ^ 64" by simp
  then have "u64_of_int (64 - 8 * int (length b)) = nat (64 - 8 * int (length b))"
    using assms by (intro u64_of_int_nonneg) linarith+
  then have s: "u64_of_int (64 - 8 * int (length b)) = 64 - 8 * length b" by linarith
  have "63 - (64 - 8 * length b) = 8 * length b - 1" using assms by simp
  moreover have "uint (readUintLE b) = int (le b)" using readUintLE_value [OF assms(2)] by (metis uint_nat)
  moreover have "readIntLE b = signed_drop_bit (64 - 8 * length b) (push_bit (64 - 8 * length b) (readUintLE b))"
    using assms unfolding readIntLE_def readUintLE_def Let_def s by (simp only: if_not_P list.size(3) less_irrefl) auto
  ultimately show ?thesis using sext_shift [of "64 - 8 * length b" "readUintLE b"] assms(1) by simp
qed

section \<open>The run-list decoder\<close>

definition data_run_ok :: "dataRun \<Rightarrow> bool" where
  "data_run_ok r \<longleftrightarrow> 0 \<le> lengthClusters r \<and> lengthClusters r \<le> maxRunLengthClusters
     \<and> (if sparse r then startCluster r = -1 else 0 \<le> startCluster r \<and> startCluster r < 2 ^ 63)"

text \<open>The header byte of a run.\<close>

abbreviation len_width :: "byte \<Rightarrow> nat" where
  "len_width h \<equiv> unat (h AND 0x0F)"

abbreviation off_width :: "byte \<Rightarrow> nat" where
  "off_width h \<equiv> unat (drop_bit 4 h)"

text \<open>
  One pass through the loop, when the guard has iterations left.  The guard counts the passes and
  the index advances by at least two in each, so it stays ahead.
\<close>

definition guard_ahead :: "byte list \<Rightarrow> nat \<Rightarrow> LoopGuard \<Rightarrow> bool" where
  "guard_ahead buf i g \<longleftrightarrow> lg_max g = int (length buf) + 1 \<and> lg_n g \<le> int i"

lemma run_list_end: "i \<ge> length buf \<Longrightarrow> run_list buf g i p rs = Ret rs"
  by (simp add: run_list.simps)

definition run_pass :: "byte list \<Rightarrow> LoopGuard \<Rightarrow> nat \<Rightarrow> int \<Rightarrow> dataRun list \<Rightarrow> dataRun list go" where
  "run_pass buf g i p rs =
     (let h = buf ! i; lb = take (len_width h) (drop (i + 1) buf); i2 = i + 1 + len_width h;
          ob = take (off_width h) (drop i2 buf); len = sint (readUintLE lb); lcn = i64 (p + sint (readIntLE ob)) in
      if h = 0 then Ret rs
      else if len_width h = 0 \<or> i2 + off_width h > length buf then Fail (Errorf ''ntfs: malformed data run'' [])
      else if len < 0 \<or> len > maxRunLengthClusters
      then Fail (Errorf ''ntfs: data run length %d out of range'' [FInt len])
      else if off_width h = 0
      then run_list buf g i2 p (rs @ [\<lparr>lengthClusters = len, startCluster = -1, sparse = True\<rparr>])
      else if lcn < 0 then Fail (Errorf ''ntfs: data run negative start cluster %d'' [FInt lcn])
      else run_list buf g (i2 + off_width h) lcn (rs @ [\<lparr>lengthClusters = len, startCluster = lcn, sparse = False\<rparr>]))"

lemma run_list_pass:
  assumes "guard_ahead buf i g" "i < length buf"
  obtains g' where "guard_ahead buf (i + 1) g'" "run_list buf g i p rs = run_pass buf g' i p rs"
proof
  let ?g = "g\<lparr>lg_n := lg_n g + 1\<rparr>"
  show "guard_ahead buf (i + 1) ?g" using assms by (simp add: guard_ahead_def)
  have n: "guard_Next g = Ret ?g" using assms by (simp add: guard_ahead_def guard_Next_def)
  show "run_list buf g i p rs = run_pass buf ?g i p rs"
    using assms(2) unfolding run_pass_def by (subst run_list.simps) (simp add: n byte_at_def slice_of_def Let_def)
qed

lemma guard_ahead_mono: "guard_ahead buf i g \<Longrightarrow> i \<le> j \<Longrightarrow> guard_ahead buf j g"
  by (auto simp: guard_ahead_def)

text \<open>What the decoder's result is like: never a panic, never the guard's error.\<close>

definition decoded :: "byte list \<Rightarrow> nat \<Rightarrow> dataRun list \<Rightarrow> dataRun list go \<Rightarrow> bool" where
  "decoded buf i rs m \<longleftrightarrow> (case m of Panics \<Rightarrow> False | Fail e \<Rightarrow> (\<forall>x. e \<noteq> Errorf ''ntfs: runlist: %v'' x)
     | Ret out \<Rightarrow> (\<exists>new. out = rs @ new \<and> (\<forall>r \<in> set new. data_run_ok r) \<and> 2 * length new \<le> length buf - i))"

lemma decoded_later:
  assumes "decoded buf j (rs @ [r]) m" "i + 2 \<le> j" "j \<le> length buf" "data_run_ok r"
  shows "decoded buf i rs m"
proof (cases m)
  case (Ret out)
  then obtain new where "out = rs @ r # new" "\<forall>r \<in> set new. data_run_ok r" "2 * length new \<le> length buf - j"
    using assms(1) by (auto simp: decoded_def)
  then show ?thesis using Ret assms(2-4) by (auto simp: decoded_def intro!: exI [of _ "r # new"])
qed (use assms(1) in \<open>auto simp: decoded_def\<close>)

lemma run_list_decoded: "guard_ahead buf i g \<Longrightarrow> decoded buf i rs (run_list buf g i p rs)"
proof (induction "length buf - i" arbitrary: g i p rs rule: less_induct)
  case less
  show ?case
  proof (cases "i < length buf")
    case False
    then show ?thesis by (simp add: run_list_end decoded_def)
  next
    case True
    obtain g' where g': "guard_ahead buf (i + 1) g'" and e: "run_list buf g i p rs = run_pass buf g' i p rs"
      by (rule run_list_pass [OF less.prems True])
    have rest: "decoded buf i rs (run_list buf g' j q (rs @ [r]))"
      if "i + 2 \<le> j" "j \<le> length buf" "data_run_ok r" for j q r
    proof -
      have "guard_ahead buf j g'" using g' that(1) by (auto intro: guard_ahead_mono)
      moreover have "length buf - j < length buf - i" using that True by simp
      ultimately have "decoded buf j (rs @ [r]) (run_list buf g' j q (rs @ [r]))" by (intro less.hyps) auto
      then show ?thesis using that by (rule decoded_later)
    qed
    have fail: "decoded buf i rs (Fail (Errorf s x))" if "s \<noteq> ''ntfs: runlist: %v''" for s x
      using that by (simp add: decoded_def)
    have stop: "decoded buf i rs (Ret rs)" by (simp add: decoded_def)
    have ok: "data_run_ok \<lparr>lengthClusters = l, startCluster = i64 z, sparse = False\<rparr>"
      if "0 \<le> l" "l \<le> maxRunLengthClusters" "0 \<le> i64 z" for l z
      using that i64_bounds(2) [of z] by (simp add: data_run_ok_def)
    have ok_sparse: "data_run_ok \<lparr>lengthClusters = l, startCluster = -1, sparse = True\<rparr>"
      if "0 \<le> l" "l \<le> maxRunLengthClusters" for l
      using that by (simp add: data_run_ok_def)
    show ?thesis unfolding e run_pass_def Let_def
      by (auto intro!: fail stop rest ok ok_sparse simp: not_less)
  qed
qed

lemma decodeRunList_decoded: "decoded buf 0 [] (decodeRunList buf)"
  unfolding decodeRunList_def by (rule run_list_decoded) (simp add: guard_ahead_def NewLoopGuard_def)

section \<open>Encoding a run list\<close>

text \<open>
  The format that \<open>decodeRunList\<close> reads: a header with the widths of the two fields, the length, and
  the distance from the previous run's start in two's complement; a hole has no second field.
\<close>

fun to_le :: "nat \<Rightarrow> nat \<Rightarrow> byte list" where
  "to_le 0 k = []"
| "to_le (Suc n) k = of_nat k # to_le n (k div 256)"

lemma length_to_le [simp]: "length (to_le n k) = n"
  by (induction n arbitrary: k) simp_all

lemma le_to_le: "le (to_le n k) = k mod 256 ^ n"
proof (induction n arbitrary: k)
  case (Suc n)
  have "unat (of_nat k :: byte) = k mod 256" by (simp add: unat_of_nat)
  then show ?case using Suc by (simp add: mod_mult2_eq)
qed simp

fun encode_runs :: "int \<Rightarrow> (nat \<times> nat \<times> dataRun) list \<Rightarrow> byte list" where
  "encode_runs p [] = []"
| "encode_runs p ((lw, ow, r) # es) =
     of_nat (lw + 16 * ow) # to_le lw (nat (lengthClusters r))
       @ to_le ow (nat ((startCluster r - p) mod 256 ^ ow))
       @ encode_runs (if sparse r then p else startCluster r) es"

fun encodable :: "int \<Rightarrow> (nat \<times> nat \<times> dataRun) list \<Rightarrow> bool" where
  "encodable p [] \<longleftrightarrow> True"
| "encodable p ((lw, ow, r) # es) \<longleftrightarrow>
     data_run_ok r \<and> 1 \<le> lw \<and> lw \<le> 8 \<and> lengthClusters r < 256 ^ lw
     \<and> (if sparse r then ow = 0
        else 1 \<le> ow \<and> ow \<le> 8 \<and> - (2 ^ (8 * ow - 1)) \<le> startCluster r - p \<and> startCluster r - p < 2 ^ (8 * ow - 1))
     \<and> encodable (if sparse r then p else startCluster r) es"

lemma run_header_fields:
  assumes "lw < 16" "ow < 16"
  shows "len_width (of_nat (lw + 16 * ow)) = lw" "off_width (of_nat (lw + 16 * ow)) = ow"
proof -
  have u: "unat (of_nat (lw + 16 * ow) :: byte) = lw + 16 * ow"
    using assms by (simp only: unat_of_nat) simp
  have "(0x0F :: byte) = mask 4" by (simp add: mask_eq_exp_minus_1)
  then have "len_width (of_nat (lw + 16 * ow)) = take_bit 4 (unat (of_nat (lw + 16 * ow) :: byte))"
    by (simp only: take_bit_eq_mask [symmetric] unsigned_take_bit_eq)
  then show "len_width (of_nat (lw + 16 * ow)) = lw" unfolding u using assms by (simp add: take_bit_eq_mod)
  have "off_width (of_nat (lw + 16 * ow)) = drop_bit 4 (unat (of_nat (lw + 16 * ow) :: byte))"
    by (rule unat_drop_bit_eq)
  then show "off_width (of_nat (lw + 16 * ow)) = ow" unfolding u using assms by (simp add: drop_bit_eq_div)
qed

lemma read_length:
  assumes "lw \<le> 8" "0 \<le> l" "l \<le> maxRunLengthClusters" "l < 256 ^ lw"
  shows "sint (readUintLE (to_le lw (nat l))) = l"
proof -
  have "nat l < 256 ^ lw" using assms(2,4) by (simp add: nat_less_iff)
  then have "unat (readUintLE (to_le lw (nat l))) = nat l"
    using readUintLE_value [of "to_le lw (nat l)"] assms(1) by (simp add: le_to_le)
  then have "uint (readUintLE (to_le lw (nat l))) = l" using assms(2) by (metis uint_nat int_nat_eq)
  then show ?thesis using assms(2,3) by (simp add: sint_uint signed_take_bit_int_eq_self maxRunLengthClusters_def)
qed

lemma read_distance:
  assumes "1 \<le> ow" "ow \<le> 8" "- (2 ^ (8 * ow - 1)) \<le> d" "d < 2 ^ (8 * ow - 1)"
  shows "sint (readIntLE (to_le ow (nat (d mod 256 ^ ow)))) = d"
proof -
  have p: "(256 :: int) ^ ow = 2 ^ (8 * ow)" by (simp add: power_mult)
  have "int (le (to_le ow (nat (d mod 256 ^ ow)))) = int (nat (d mod 256 ^ ow) mod 256 ^ ow)" by (simp add: le_to_le)
  also have "\<dots> = take_bit (8 * ow) d" by (simp add: zmod_int take_bit_eq_mod p)
  finally have "sint (readIntLE (to_le ow (nat (d mod 256 ^ ow)))) = signed_take_bit (8 * ow - 1) (take_bit (8 * ow) d)"
    using readIntLE_sext [of "to_le ow (nat (d mod 256 ^ ow))"] assms(1,2) by simp
  also have "\<dots> = signed_take_bit (8 * ow - 1) d" using assms(1) unfolding signed_take_bit_take_bit by (subst if_not_P) linarith+
  also have "\<dots> = d" using assms(3,4) by (intro signed_take_bit_int_eq_self) auto
  finally show ?thesis .
qed

lemma take_drop_at: "n = length xs \<Longrightarrow> i = length pre \<Longrightarrow> take n (drop i (pre @ xs @ ys)) = xs"
  by simp

lemma run_list_encoded:
  assumes "encodable p es" "guard_ahead buf i g" "buf = pre @ encode_runs p es @ 0 # rest" "i = length pre"
  shows "run_list buf g i p rs = Ret (rs @ map (snd \<circ> snd) es)"
  using assms
proof (induction es arbitrary: p pre i g rs)
  case Nil
  then have i: "i < length buf" "buf ! i = 0" by simp_all
  obtain g' where "run_list buf g i p rs = run_pass buf g' i p rs" by (rule run_list_pass [OF Nil(2) i(1)])
  then show ?case using i by (simp add: run_pass_def)
next
  case (Cons e es)
  obtain lw ow r where e: "e = (lw, ow, r)" by (cases e)
  let ?h = "of_nat (lw + 16 * ow) :: byte" and ?q = "if sparse r then p else startCluster r"
  let ?lb = "to_le lw (nat (lengthClusters r))" and ?ob = "to_le ow (nat ((startCluster r - p) mod 256 ^ ow))"
  have enc: "data_run_ok r" "1 \<le> lw" "lw \<le> 8" "lengthClusters r < 256 ^ lw" "ow \<le> 8" "encodable ?q es"
    "sparse r \<longleftrightarrow> ow = 0"
    using Cons.prems(1) by (auto simp: e split: if_splits)
  have buf: "buf = pre @ (?h # ?lb @ ?ob) @ encode_runs ?q es @ 0 # rest" using Cons.prems(3) by (simp add: e)
  have i: "i < length buf" "buf ! i = ?h" using buf Cons.prems(4) by (simp_all add: nth_append)
  obtain g' where g': "guard_ahead buf (i + 1) g'" "run_list buf g i p rs = run_pass buf g' i p rs"
    by (rule run_list_pass [OF Cons.prems(2) i(1)])
  let ?j = "i + 1 + lw + ow"
  have "guard_ahead buf ?j g'" using g'(1) by (rule guard_ahead_mono) simp
  from Cons.IH [OF enc(6) this, of "pre @ (?h # ?lb @ ?ob)" "rs @ [r]"] buf Cons.prems(4)
  have rest: "run_list buf g' ?j ?q (rs @ [r]) = Ret (rs @ map (snd \<circ> snd) (e # es))" by (simp add: e)
  have w: "len_width ?h = lw" "off_width ?h = ow" using run_header_fields [of lw ow] enc(3,5) by auto
  then have "?h \<noteq> 0" using enc(2) by auto
  have lb: "take lw (drop (i + 1) buf) = ?lb"
    using take_drop_at [of lw ?lb "i + 1" "pre @ [?h]" "?ob @ encode_runs ?q es @ 0 # rest"] buf Cons.prems(4) by simp
  have ob: "take ow (drop (i + 1 + lw) buf) = ?ob"
    using take_drop_at [of ow ?ob "i + 1 + lw" "pre @ ?h # ?lb" "encode_runs ?q es @ 0 # rest"] buf Cons.prems(4) by simp
  have len: "sint (readUintLE ?lb) = lengthClusters r" "0 \<le> lengthClusters r" "lengthClusters r \<le> maxRunLengthClusters"
    using read_length [of lw "lengthClusters r"] enc(1,3,4) by (auto simp: data_run_ok_def)
  have fits: "\<not> ?j > length buf" using buf Cons.prems(4) by simp
  have pass: "run_pass buf g' i p rs =
     (if ow = 0 then run_list buf g' ?j p (rs @ [\<lparr>lengthClusters = lengthClusters r, startCluster = -1, sparse = True\<rparr>])
      else let lcn = i64 (p + sint (readIntLE ?ob)) in
        if lcn < 0 then Fail (Errorf ''ntfs: data run negative start cluster %d'' [FInt lcn])
        else run_list buf g' ?j lcn (rs @ [\<lparr>lengthClusters = lengthClusters r, startCluster = lcn, sparse = False\<rparr>]))"
    unfolding run_pass_def Let_def i(2) w lb ob len(1) using \<open>?h \<noteq> 0\<close> enc(2) len(2,3) fits by auto
  show ?case
  proof (cases "sparse r")
    case True
    then have "r = \<lparr>lengthClusters = lengthClusters r, startCluster = -1, sparse = True\<rparr>"
      using enc(1) by (simp add: data_run_ok_def)
    then show ?thesis using True enc(7) rest g'(2) pass by simp
  next
    case False
    then have d: "1 \<le> ow" "- (2 ^ (8 * ow - 1)) \<le> startCluster r - p" "startCluster r - p < 2 ^ (8 * ow - 1)"
      using Cons.prems(1) by (auto simp: e)
    have "0 \<le> startCluster r" "startCluster r < 2 ^ 63" using enc(1) False by (simp_all add: data_run_ok_def)
    then have "i64 (p + sint (readIntLE ?ob)) = startCluster r" using read_distance [OF d(1) enc(5) d(2,3)] by simp
    then have "run_pass buf g' i p rs = run_list buf g' ?j (startCluster r)
        (rs @ [\<lparr>lengthClusters = lengthClusters r, startCluster = startCluster r, sparse = False\<rparr>])"
      using pass d(1) \<open>0 \<le> startCluster r\<close> by (simp add: Let_def)
    moreover have "\<lparr>lengthClusters = lengthClusters r, startCluster = startCluster r, sparse = False\<rparr> = r"
      using False by simp
    ultimately show ?thesis using False rest g'(2) by metis
  qed
qed

end
