(* ===== verification/NtfsRecord.thy ===== *)
theory NtfsRecord
  imports NtfsLaws
begin

text \<open>
  FILE records: the update-sequence correction on a record whose array lies in front of the first
  sector's end, and the proof that no record whatever makes the parser panic.
\<close>

section \<open>The update-sequence correction\<close>

definition sector_sealed :: "nat \<Rightarrow> nat \<Rightarrow> byte list \<Rightarrow> nat \<Rightarrow> bool" where
  "sector_sealed uo bps buf i \<longleftrightarrow> buf ! (i * bps + (bps - 2)) = buf ! uo \<and> buf ! (i * bps + (bps - 1)) = buf ! (uo + 1)"

text \<open>The last two bytes of the sectors \<open>i, \<dots>, n - 1\<close> replaced by the saved words.\<close>

definition usa_restored :: "nat \<Rightarrow> nat \<Rightarrow> nat \<Rightarrow> nat \<Rightarrow> byte list \<Rightarrow> byte list" where
  "usa_restored uo bps i n buf =
     map (\<lambda>k. if i \<le> k div bps \<and> k div bps < n \<and> bps - 2 \<le> k mod bps
              then buf ! (uo + 2 + 2 * (k div bps) + (k mod bps - (bps - 2))) else buf ! k) [0..<length buf]"

lemma usa_restored_none: "usa_restored uo bps n n buf = buf"
proof (rule nth_equalityI)
  fix k assume "k < length (usa_restored uo bps n n buf)"
  moreover have "\<not> (n \<le> k div bps \<and> k div bps < n \<and> bps - 2 \<le> k mod bps)" by linarith
  ultimately show "usa_restored uo bps n n buf ! k = buf ! k" by (simp add: usa_restored_def del: de_Morgan_conj)
qed (simp add: usa_restored_def)

lemma sector_pos:
  assumes "k mod bps = m" "m < bps"
  shows "k div bps = i \<longleftrightarrow> k = i * bps + (m :: nat)"
proof
  assume "k = i * bps + m"
  then have "k div bps = i + m div bps" using assms(2) by simp
  then show "k div bps = i" using assms(2) by simp
qed (use assms div_mult_mod_eq [of k bps] in auto)

lemma usa_restored_step:
  assumes g: "uo + 2 + 2 * n + 2 \<le> bps" "i < n" "n * bps \<le> length buf"
  defines "buf' \<equiv> buf[i * bps + (bps - 2) := buf ! (uo + 2 + 2 * i), i * bps + (bps - 1) := buf ! (uo + 3 + 2 * i)]"
  shows "usa_restored uo bps (i + 1) n buf' = usa_restored uo bps i n buf"
    "j < uo + 2 + 2 * n \<Longrightarrow> buf' ! j = buf ! j"
    "\<lbrakk>i < j; j < n\<rbrakk> \<Longrightarrow> sector_sealed uo bps buf' j = sector_sealed uo bps buf j"
proof -
  have low: "buf' ! k = buf ! k" if "k \<noteq> i * bps + (bps - 2)" "k \<noteq> i * bps + (bps - 1)" for k
    using that by (simp add: buf'_def)
  show usa: "buf' ! j = buf ! j" if "j < uo + 2 + 2 * n" for j
    using that g(1) by (intro low) (auto simp: add_increasing)
  show "sector_sealed uo bps buf' j = sector_sealed uo bps buf j" if "i < j" "j < n"
  proof -
    have "i * bps + bps \<le> j * bps" using that(1) by (metis Suc_leI mult_Suc add.commute mult_le_mono1)
    then have "buf' ! (j * bps + (bps - 2)) = buf ! (j * bps + (bps - 2))"
      "buf' ! (j * bps + (bps - 1)) = buf ! (j * bps + (bps - 1))" using g(1) by (auto intro!: low)
    then show ?thesis using usa [of uo] usa [of "uo + 1"] g(2) by (simp add: sector_sealed_def)
  qed
  have len: "length buf' = length buf" by (simp add: buf'_def)
  have end_i: "i * bps + bps \<le> length buf" using g(2,3) by (metis Suc_leI mult_Suc add.commute mult_le_mono1 order_trans)
  show "usa_restored uo bps (i + 1) n buf' = usa_restored uo bps i n buf"
  proof (rule nth_equalityI)
    fix k assume "k < length (usa_restored uo bps (i + 1) n buf')"
    then have k: "k < length buf" by (simp add: usa_restored_def len)
    let ?q = "k div bps" and ?m = "k mod bps"
    have m: "?m < bps" using g(1) by simp
    have usa_k: "buf' ! (uo + 2 + 2 * ?q + (?m - (bps - 2))) = buf ! (uo + 2 + 2 * ?q + (?m - (bps - 2)))" if "?q < n"
      using that m by (intro usa) linarith
    have here: "buf' ! k = (if ?q = i \<and> bps - 2 \<le> ?m then buf ! (uo + 2 + 2 * i + (?m - (bps - 2))) else buf ! k)"
    proof (cases "?q = i \<and> bps - 2 \<le> ?m")
      case True
      then have "?m = bps - 2 \<or> ?m = bps - 1" "k = i * bps + ?m" using m sector_pos [of k bps ?m i] by auto
      then show ?thesis using True k end_i g(1) by (elim disjE) (auto simp: buf'_def nth_list_update add.commute eval_nat_numeral)
    next
      case False
      have ne: "k \<noteq> i * bps + r" if "bps - 2 \<le> r" "r < bps" for r
      proof
        assume "k = i * bps + r"
        then have "?q = i" "?m = r" using that(2) by simp_all
        then show False using False that(1) by simp
      qed
      have "k \<noteq> i * bps + (bps - 2)" by (rule ne) (use g(1) in linarith)+
      moreover have "k \<noteq> i * bps + (bps - 1)" by (rule ne) (use g(1) in linarith)+
      ultimately show ?thesis using False low by auto
    qed
    show "usa_restored uo bps (i + 1) n buf' ! k = usa_restored uo bps i n buf ! k"
      using k here usa_k g(2) by (auto simp: usa_restored_def len)
  qed (simp add: usa_restored_def len)
qed

lemma fixup_sectors_restores:
  assumes "uo + 2 + 2 * n + 2 \<le> bps" "n * bps \<le> length buf" "i \<le> n"
  shows "((\<forall>j \<in> {i..<n}. sector_sealed uo bps buf j) \<longrightarrow> fixup_sectors uo bps [i..<n] buf = Ret (usa_restored uo bps i n buf))
    \<and> ((\<exists>j \<in> {i..<n}. \<not> sector_sealed uo bps buf j) \<longrightarrow>
        (\<exists>j \<in> {i..<n}. \<not> sector_sealed uo bps buf j
           \<and> fixup_sectors uo bps [i..<n] buf = Fail (Errorf ''fixup mismatch in sector %d'' [FInt (int j)])))"
  using assms(2,3)
proof (induction "n - i" arbitrary: i buf)
  case 0
  then show ?case by (simp add: usa_restored_none)
next
  case (Suc d)
  then have i: "i < n" "[i..<n] = i # [i + 1..<n]" by (simp_all add: upt_conv_Cons)
  let ?a = "i * bps + (bps - 2)" and ?b = "i * bps + (bps - 1)"
  have e: "i * bps + bps \<le> length buf" using i(1) Suc.prems(1) by (metis Suc_leI mult_Suc add.commute mult_le_mono1 order_trans)
  have se: "(i + 1) * bps - 2 = ?a" "(i + 1) * bps - 1 = ?b" "(i + 1) * bps = i * bps + bps" using assms(1) by auto
  let ?buf = "buf[?a := buf ! (uo + 2 + 2 * i), ?b := buf ! (uo + 3 + 2 * i)]"
  have "i * bps + bps - 1 \<ge> bps - 1" by simp
  then have bounds: "?a < length buf" "?b < length buf" "uo + 3 + 2 * i < ?a" "uo + 1 < length buf"
    using e assms(1) i(1) by (auto simp: add_increasing)
  have step: "fixup_sectors uo bps [i..<n] buf =
     (if sector_sealed uo bps buf i then fixup_sectors uo bps [i + 1..<n] ?buf
      else Fail (Errorf ''fixup mismatch in sector %d'' [FInt (int i)]))"
    using bounds e assms(1) unfolding i(2) fixup_sectors.simps Let_def se
    by (auto simp: byte_at_def sector_sealed_def ac_simps eval_nat_numeral)
  note R = usa_restored_step [OF assms(1) i(1) Suc.prems(1)]
  show ?case
  proof (cases "sector_sealed uo bps buf i")
    case False
    then show ?thesis using step i(1) by auto
  next
    case True
    have "{i..<n} = insert i {i + 1..<n}" using i(1) by auto
    moreover have "sector_sealed uo bps ?buf j = sector_sealed uo bps buf j" if "j \<in> {i + 1..<n}" for j
      using R(3) that by auto
    moreover have "((\<forall>j \<in> {i + 1..<n}. sector_sealed uo bps ?buf j) \<longrightarrow>
        fixup_sectors uo bps [i + 1..<n] ?buf = Ret (usa_restored uo bps (i + 1) n ?buf))
      \<and> ((\<exists>j \<in> {i + 1..<n}. \<not> sector_sealed uo bps ?buf j) \<longrightarrow>
        (\<exists>j \<in> {i + 1..<n}. \<not> sector_sealed uo bps ?buf j
           \<and> fixup_sectors uo bps [i + 1..<n] ?buf = Fail (Errorf ''fixup mismatch in sector %d'' [FInt (int j)])))"
      using Suc i(1) by (intro Suc.hyps) auto
    ultimately show ?thesis using step True R(1) by (metis insert_iff)
  qed
qed

section \<open>No record makes the parser panic\<close>

lemma bindG_Panics: "bindG m f = Panics \<longleftrightarrow> m = Panics \<or> (\<exists>x. m = Ret x \<and> f x = Panics)"
  by (cases m) simp_all

lemma wrapG_safe [simp]: "wrapG s args m = Panics \<longleftrightarrow> m = Panics"
  by (cases m) (simp_all add: wrapG_def)

lemma uint_at_in: "off + n \<le> length buf \<Longrightarrow> uint_at n buf off = Ret (le_at n buf off)"
  by (simp add: uint_at_def)

lemma byte_at_in: "i < length buf \<Longrightarrow> byte_at buf i = Ret (buf ! i)"
  by (simp add: byte_at_def)

lemma slice_of_in: "a \<le> b \<Longrightarrow> b \<le> length buf \<Longrightarrow> slice_of buf a b = Ret (take (b - a) (drop a buf))"
  by (simp add: slice_of_def)

lemma decodeRunList_safe: "decodeRunList buf \<noteq> Panics"
  using decodeRunList_decoded [of buf] by (auto simp: decoded_def)

lemma decodeRunList_ok: "decodeRunList buf = Ret rs \<Longrightarrow> r \<in> set rs \<Longrightarrow> data_run_ok r"
  using decodeRunList_decoded [of buf] by (auto simp: decoded_def)

lemma CheckBounds_from_0:
  "n < 2 ^ 63 \<Longrightarrow> CheckBounds 0 n (int (length buf)) = Ret () \<longleftrightarrow> 0 \<le> n \<and> n \<le> int (length (buf :: byte list))"
  using CheckBounds_exact [of 0 n "int (length buf)"] by auto

lemma parseAttribute_safe: "parseAttribute buf \<noteq> Panics"
proof (cases "CheckBounds 0 0x18 (int (length buf)) = Ret ()")
  case False
  then obtain e where "CheckBounds 0 0x18 (int (length buf)) = Fail e"
    by (cases "CheckBounds 0 0x18 (int (length buf))") auto
  then show ?thesis by (simp add: parseAttribute_def wrapG_def)
next
  case True
  then have l: "0x18 \<le> length buf" by (simp add: CheckBounds_from_0)
  have name: "(case Slice buf a b of Ret name \<Rightarrow> Ret (decodeUTF16 name) | Fail _ \<Rightarrow> Ret [] | Panics \<Rightarrow> Panics) \<noteq> Panics" for a b
    using Slice_safe [of buf a b] by (cases "Slice buf a b") auto
  have long: "uint_at 8 buf 0x10 = Ret (le_at 8 buf 0x10)" "uint_at 8 buf 0x18 = Ret (le_at 8 buf 0x18)"
    "uint_at 2 buf 0x22 = Ret (le_at 2 buf 0x22)" "uint_at 8 buf 0x30 = Ret (le_at 8 buf 0x30)"
    "uint_at 2 buf 0x20 = Ret (le_at 2 buf 0x20)"
    if "CheckBounds 0 0x40 (int (length buf)) = Ret ()"
    using that by (simp_all add: uint_at_def CheckBounds_from_0)
  have short: "uint_at 4 buf 0 = Ret (le_at 4 buf 0)" "byte_at buf 8 = Ret (buf ! 8)" "byte_at buf 9 = Ret (buf ! 9)"
    "uint_at 2 buf 10 = Ret (le_at 2 buf 10)" "uint_at 2 buf 0x0C = Ret (le_at 2 buf 0x0C)"
    "uint_at 2 buf 0x0E = Ret (le_at 2 buf 0x0E)" "uint_at 4 buf 0x10 = Ret (le_at 4 buf 0x10)"
    "uint_at 2 buf 0x14 = Ret (le_at 2 buf 0x14)"
    using l by (simp_all add: uint_at_def byte_at_def)
  show ?thesis unfolding parseAttribute_def Let_def short bindG_simps
    by (auto simp: name Slice_safe long decodeRunList_safe bindG_Panics split: if_splits)
qed

lemma fixup_sectors_length: "fixup_sectors uo bps is buf = Ret out \<Longrightarrow> length out = length buf"
proof (induction "is" arbitrary: buf)
  case (Cons i "is")
  then obtain buf' where "fixup_sectors uo bps is buf' = Ret out" "length buf' = length buf"
    by (auto simp: Let_def bindG_Ret split: if_splits)
  then show ?case using Cons.IH by simp
qed simp

lemma fixup_sectors_safe:
  "uo + 2 \<le> length buf \<Longrightarrow> \<forall>i \<in> set is. uo + 2 + i * 2 + 2 \<le> length buf \<Longrightarrow> fixup_sectors uo bps is buf \<noteq> Panics"
proof (induction "is" arbitrary: buf)
  case (Cons i "is")
  then have "uo + 2 + i * 2 + 2 \<le> length buf" by simp
  with Cons show ?case by (auto simp: Let_def byte_at_def)
qed simp

lemma applyFixup_bounds:
  assumes "uo < 2 ^ 62" "n < 2 ^ 61" "CheckBounds (int uo) (int n * 2) (int len) = Ret ()"
  shows "uo + n * 2 \<le> len"
proof -
  have "int uo + int n * 2 < 2 ^ 63" using assms(1,2) by simp
  then have "int uo + int n * 2 \<le> int len" using CheckBounds_exact assms(3) by blast
  then show ?thesis by linarith
qed

lemma applyFixup_length: "applyFixup buf uo n bps = Ret out \<Longrightarrow> length out = length buf"
  by (auto simp: applyFixup_def bindG_Ret fixup_sectors_length split: if_splits)

lemma applyFixup_safe:
  assumes "uo < 2 ^ 62" "n < 2 ^ 61"
  shows "applyFixup buf uo n bps \<noteq> Panics"
proof (cases "n = 0 \<or> CheckBounds (int uo) (int n * 2) (int (length buf)) \<noteq> Ret ()")
  case True
  then show ?thesis
    using CheckBounds_safe [of "int uo" "int n * 2" "int (length buf)"]
    by (cases "CheckBounds (int uo) (int n * 2) (int (length buf))") (auto simp: applyFixup_def wrapG_def)
next
  case False
  then have b: "uo + n * 2 \<le> length buf" "0 < n" using applyFixup_bounds [OF assms] by auto
  have "fixup_sectors uo bps [0..<n - 1] buf \<noteq> Panics"
    using b by (intro fixup_sectors_safe) auto
  then show ?thesis using False b by (simp add: applyFixup_def slice_of_in)
qed

lemma attr_loop_safe: "attr_loop buf off as \<noteq> Panics"
proof (induction "length buf - off" arbitrary: off as rule: less_induct)
  case less
  have "attr_loop buf (off + n) bs \<noteq> Panics" if "0 < n" "off + n \<le> length buf" for n bs
    using that by (intro less) auto
  then show ?case
    by (subst attr_loop.simps) (auto simp: uint_at_def slice_of_def parseAttribute_safe bindG_Panics not_less)
qed

lemma parseFileRecord_safe: "parseFileRecord bps buf \<noteq> Panics"
proof (cases "length buf < 0x30")
  case False
  have "le_at 2 buf 4 < 2 ^ 62" "le_at 2 buf 6 < 2 ^ 61"
    using le_at_less [of 2 buf 4] le_at_less [of 2 buf 6] by simp_all
  then have fixup: "applyFixup buf (le_at 2 buf 4) (le_at 2 buf 6) bps \<noteq> Panics" by (rule applyFixup_safe)
  have after: "uint_at 2 out 0x16 = Ret (le_at 2 out 0x16)" "uint_at 2 out 0x14 = Ret (le_at 2 out 0x14)"
    if "applyFixup buf (le_at 2 buf 4) (le_at 2 buf 6) bps = Ret out" for out
    using applyFixup_length [OF that] False by (simp_all add: uint_at_def)
  show ?thesis using False unfolding parseFileRecord_def
    by (auto simp: slice_of_in uint_at_in fixup after attr_loop_safe bindG_Panics split: if_splits)
qed (simp add: parseFileRecord_def)

text \<open>The runs of every attribute come from the run-list decoder.\<close>

lemma parseAttribute_runs: "parseAttribute buf = Ret a \<Longrightarrow> r \<in> set (attr_runs a) \<Longrightarrow> data_run_ok r"
  by (auto simp: parseAttribute_def bindG_Ret Let_def zero_attribute_def decodeRunList_ok split: if_splits)

lemma attr_loop_runs:
  assumes "attr_loop buf off as = Ret out" "\<forall>a \<in> set as. \<forall>r \<in> set (attr_runs a). data_run_ok r"
  shows "\<forall>a \<in> set out. \<forall>r \<in> set (attr_runs a). data_run_ok r"
  using assms
proof (induction "length buf - off" arbitrary: off as rule: less_induct)
  case less
  let ?ok = "\<lambda>bs. \<forall>a \<in> set bs. \<forall>r \<in> set (attr_runs a). data_run_ok r"
  have "?ok out" if "0 < n" "off + n \<le> length buf" "parseAttribute sub = Ret a" "attr_loop buf (off + n) (as @ [a]) = Ret out" for n sub a
    using less.hyps [of "off + n" "as @ [a]"] that less.prems(2) parseAttribute_runs [OF that(3)] by auto
  moreover have "as = out \<or> (\<exists>n sub a. 0 < n \<and> off + n \<le> length buf \<and> parseAttribute sub = Ret a
      \<and> attr_loop buf (off + n) (as @ [a]) = Ret out)"
    using less.prems(1) by (subst (asm) attr_loop.simps) (auto simp: bindG_Ret not_less split: if_splits)
  ultimately show ?case using less.prems(2) by metis
qed

end
