(* ===== verification/NtfsVolume.thy ===== *)
theory NtfsVolume
  imports NtfsRecord Bitmap
begin

text \<open>
  The NTFS parser on a volume: the boot sector's geometry, the runs of \<open>$Bitmap\<close>, and what \<open>Dump\<close>
  returns.
\<close>

section \<open>The steps of the parser\<close>

lemma filled_length: "filled n (bs, e) = Ret buf \<Longrightarrow> n \<le> length buf"
  by (auto simp: filled_def split: if_splits)

lemma filled_safe [simp]: "filled n res \<noteq> Panics"
  by (simp add: filled_def split: prod.splits)

lemma fr_Read_region:
  assumes "fr_Read r n = (r', res)"
  shows "fr_ReadAt r' = fr_ReadAt r" "region r' = region r" "region_ok r' = region_ok r" "fr_size r' = fr_size r"
proof -
  obtain k where r': "r' = r\<lparr>sr_off := k\<rparr>"
    using assms by (auto simp: fr_Read_def Let_def split: if_splits prod.splits intro: that [of "sr_off r"])
  then have f: "file_ReadAt r' = file_ReadAt r" by (intro ext) (simp add: file_ReadAt_def)
  have "fr_offset r' = fr_offset r" "fr_size r' = fr_size r" by (simp_all add: r')
  then show "fr_ReadAt r' = fr_ReadAt r" by (intro ext) (simp add: fr_ReadAt_def Let_def f)
  show "region r' = region r" "region_ok r' = region_ok r" "fr_size r' = fr_size r"
    by (simp_all add: r' region_def region_ok_def)
qed

lemma parseBoot_safe: "parseBoot p \<noteq> Panics"
proof -
  obtain fr bs e where r: "fr_Read (p_fr p) 512 = (fr, bs, e)" by (metis prod_cases3)
  have "uint_at 2 buf 0x0B = Ret (le_at 2 buf 0x0B)" "byte_at buf 0x0D = Ret (buf ! 0x0D)"
    "uint_at 8 buf 0x28 = Ret (le_at 8 buf 0x28)" "uint_at 8 buf 0x30 = Ret (le_at 8 buf 0x30)"
    "byte_at buf 0x40 = Ret (buf ! 0x40)" "byte_at buf 0x44 = Ret (buf ! 0x44)"
    if "filled 512 (bs, e) = Ret buf" for buf
    using filled_length [OF that] by (simp_all add: uint_at_def byte_at_def)
  then show ?thesis by (auto simp: parseBoot_def r bindG_Panics Let_def split: if_splits)
qed

lemma decodeClusters_range: "decodeClustersPerRecord v cs < 2 ^ 32"
  by (simp add: decodeClustersPerRecord_def Let_def u32_def)

text \<open>A power of two below \<open>2^16\<close> is at most \<open>2^15\<close>.\<close>

lemma isPowerOfTwo_16:
  assumes "isPowerOfTwo (of_nat n)" "n < 2 ^ 16"
  shows "n \<le> 2 ^ 15"
proof (rule ccontr)
  assume "\<not> n \<le> 2 ^ 15"
  then have n: "2 ^ 15 \<le> n - 1" "n - 1 < 2 ^ 16" "2 ^ 15 \<le> n" "0 < n" using assms(2) by auto
  have odd15: "bit (of_nat m :: 32 word) 15" if "2 ^ 15 \<le> m" "m < 2 ^ 16" for m :: nat
  proof -
    have "m div 2 ^ 15 = 1" using that by (simp add: div_nat_eqI)
    then have "bit m 15" by (simp add: bit_iff_odd)
    then show ?thesis by (simp add: bit_of_nat_iff)
  qed
  have "(of_nat n :: 32 word) - 1 = of_nat (n - 1)" using n(4) by simp
  then have "bit ((of_nat n :: 32 word) AND (of_nat n - 1)) 15"
    using odd15 [OF n(1,2)] odd15 [OF n(3) assms(2)] by (simp only: bit_and_iff)
  then show False using assms(1) by (simp add: isPowerOfTwo_def)
qed

definition boot_ok :: "bootSector \<Rightarrow> bool" where
  "boot_ok b \<longleftrightarrow> 512 \<le> b_bytesPerSector b \<and> b_bytesPerSector b \<le> 2 ^ 15
     \<and> 0 < b_sectorsPerCluster b \<and> b_sectorsPerCluster b < 2 ^ 8
     \<and> 0 < mftRecordSize b \<and> mftRecordSize b \<le> 2 ^ 20
     \<and> - (2 ^ 63) \<le> b_totalSectors b \<and> b_totalSectors b < 2 ^ 63"

lemma parseBoot_ok:
  assumes "parseBoot p = Ret p'"
  shows "boot_ok (p_boot p')" "p_fr p' = fst (fr_Read (p_fr p) 512)" "p_mftRuns p' = p_mftRuns p"
proof -
  obtain fr bs e where r: "fr_Read (p_fr p) 512 = (fr, bs, e)" by (metis prod_cases3)
  obtain buf b where b: "p' = p\<lparr>p_fr := fr, p_boot := b\<rparr>" "b_bytesPerSector b = le_at 2 buf 0x0B"
    "512 \<le> b_bytesPerSector b" "b_sectorsPerCluster b = unat (buf ! 0x0D)" "buf ! 0x0D \<noteq> 0"
    "isPowerOfTwo (of_nat (le_at 2 buf 0x0B))" "0 < mftRecordSize b" "mftRecordSize b \<le> maxRecordSize" "b_totalSectors b = i64 (int (le_at 8 buf 0x28))"
    using assms by (auto simp: parseBoot_def r bindG_Ret Let_def uint_at_def byte_at_def minBytesPerSector_def not_less
        split: if_splits)
  have "unat (buf ! 0x0D) < 256" using unsigned_less [of "buf ! 0x0D"] by simp
  moreover have "0 < unat (buf ! 0x0D)" using b(5) by (simp add: unat_gt_0)
  moreover have "le_at 2 buf 0x0B \<le> 2 ^ 15" using isPowerOfTwo_16 [OF b(6)] le_at_less [of 2 buf "0x0B"] by simp
  ultimately show "boot_ok (p_boot p')" using b i64_bounds [of "int (le_at 8 buf 0x28)"]
    by (simp add: boot_ok_def maxRecordSize_def)
  show "p_fr p' = fst (fr_Read (p_fr p) 512)" "p_mftRuns p' = p_mftRuns p" by (simp_all add: b(1) r)
qed

lemma cluster_bounds:
  assumes "boot_ok b"
  shows "ntfs_clusterSize b = int (b_bytesPerSector b) * int (b_sectorsPerCluster b)"
    "512 \<le> ntfs_clusterSize b" "ntfs_clusterSize b < 2 ^ 23"
proof -
  let ?p = "b_bytesPerSector b * b_sectorsPerCluster b"
  have "512 * 1 \<le> ?p" using assms by (intro mult_le_mono) (auto simp: boot_ok_def)
  moreover have "?p \<le> 2 ^ 15 * 255" using assms by (intro mult_le_mono) (auto simp: boot_ok_def)
  ultimately have "512 \<le> ?p" "?p < 2 ^ 23" by simp_all
  then have "int 512 \<le> int ?p" "int ?p < int (2 ^ 23)" by (simp_all only: of_nat_le_iff of_nat_less_iff)
  then have p: "512 \<le> int (b_bytesPerSector b) * int (b_sectorsPerCluster b)"
    "int (b_bytesPerSector b) * int (b_sectorsPerCluster b) < 2 ^ 23" by (simp_all flip: of_nat_mult)
  then show e: "ntfs_clusterSize b = int (b_bytesPerSector b) * int (b_sectorsPerCluster b)"
    unfolding ntfs_clusterSize_def by (intro i64_small) simp_all
  show "512 \<le> ntfs_clusterSize b" "ntfs_clusterSize b < 2 ^ 23" unfolding e by (rule p)+
qed

lemma readFileRecordAt_safe: "readFileRecordAt p off \<noteq> Panics"
  by (auto simp: readFileRecordAt_def bindG_Panics parseFileRecord_safe)

lemma loadBitmapRuns_safe: "loadBitmapRuns p \<noteq> Panics"
  by (auto simp: loadBitmapRuns_def bindG_Panics readFileRecordAt_safe split: option.splits)

lemma loadMFTRuns_safe: "loadMFTRuns p \<noteq> Panics"
  by (auto simp: loadMFTRuns_def bindG_Panics readFileRecordAt_safe split: option.splits)

lemma record_runs:
  assumes "readFileRecordAt p off = Ret rec" "data_runs rec = Some rs" "r \<in> set rs"
  shows "data_run_ok r"
proof -
  obtain buf as where "attr_loop buf (le_at 2 buf 0x14) [] = Ret as" "rec_attrs rec = as"
    using assms(1) by (auto simp: readFileRecordAt_def parseFileRecord_def bindG_Ret uint_at_def split: if_splits)
  then have "\<forall>a \<in> set (rec_attrs rec). \<forall>r \<in> set (attr_runs a). data_run_ok r" using attr_loop_runs by fastforce
  moreover obtain a where "a \<in> set (rec_attrs rec)" "rs = attr_runs a"
    using assms(2) by (auto simp: data_runs_def find_Some_iff intro: that [OF nth_mem])
  ultimately show ?thesis using assms(3) by blast
qed

lemma loadBitmapRuns_ok:
  assumes "loadBitmapRuns p = Ret p'"
  shows "\<exists>rs. p' = p\<lparr>p_bitmapRuns := rs\<rparr>" "\<forall>r \<in> set (p_bitmapRuns p'). data_run_ok r"
  using assms record_runs by (auto simp: loadBitmapRuns_def bindG_Ret split: option.splits)

section \<open>The contents of \<open>$Bitmap\<close>\<close>

definition run_size :: "int \<Rightarrow> dataRun \<Rightarrow> nat" where
  "run_size cs r = nat (lengthClusters r * cs)"

definition run_data :: "byte list \<Rightarrow> int \<Rightarrow> dataRun \<Rightarrow> byte list" where
  "run_data vol cs r =
     (if sparse r then replicate (run_size cs r) 0 else take (run_size cs r) (drop (nat (startCluster r * cs)) vol))"

definition file_data :: "byte list \<Rightarrow> int \<Rightarrow> dataRun list \<Rightarrow> byte list" where
  "file_data vol cs rs = concat (map (run_data vol cs) rs)"

text \<open>A run that lies on the volume.\<close>

definition run_inside :: "int \<Rightarrow> int \<Rightarrow> dataRun \<Rightarrow> bool" where
  "run_inside size' cs r \<longleftrightarrow> sparse r \<or> 0 < lengthClusters r \<and> (startCluster r + lengthClusters r) * cs \<le> size'"

lemma run_size_int:
  assumes "data_run_ok r" "512 \<le> cs" "cs < 2 ^ 23"
  shows "lengthClusters r * cs = int (run_size cs r)" "i64 (lengthClusters r * cs) = int (run_size cs r)"
proof -
  have l: "0 \<le> lengthClusters r" "lengthClusters r \<le> 2 ^ 40" using assms(1) by (auto simp: data_run_ok_def maxRunLengthClusters_def)
  then show e: "lengthClusters r * cs = int (run_size cs r)" using assms(2) by (simp add: run_size_def)
  have "lengthClusters r * cs \<le> 2 ^ 40 * cs" using l assms(2) by (intro mult_right_mono) auto
  then have "int (run_size cs r) < 2 ^ 63" using assms(3) e by simp
  then show "i64 (lengthClusters r * cs) = int (run_size cs r)" unfolding e by (intro i64_small) simp_all
qed

lemma run_data_length:
  assumes "data_run_ok r" "run_inside (int (length vol)) cs r" "512 \<le> cs" "cs < 2 ^ 23"
  shows "length (run_data vol cs r) = run_size cs r"
proof (cases "sparse r")
  case False
  then have "startCluster r * cs + int (run_size cs r) \<le> int (length vol)" "0 \<le> startCluster r * cs"
    using assms run_size_int(1) [OF assms(1,3,4)] by (auto simp: run_inside_def data_run_ok_def distrib_right)
  then have "nat (startCluster r * cs) + run_size cs r \<le> length vol" by linarith
  then show ?thesis using False by (simp add: run_data_def)
qed (simp add: run_data_def)

lemma bitmap_len_sum:
  assumes "\<forall>r \<in> set rs. data_run_ok r" "512 \<le> cs" "cs < 2 ^ 23" "int n + int (\<Sum>r \<leftarrow> rs. run_size cs r) < 2 ^ 63"
  shows "foldl (\<lambda>n run. i64 (n + i64 (lengthClusters run * cs))) (int n) rs = int (n + (\<Sum>r \<leftarrow> rs. run_size cs r))"
  using assms(1,4)
proof (induction rs arbitrary: n)
  case (Cons r rs)
  have "i64 (int n + int (run_size cs r)) = int (n + run_size cs r)" using Cons.prems(2) by (subst i64_small) simp_all
  then show ?case
    using Cons.IH [of "n + run_size cs r"] Cons.prems run_size_int(2) [OF _ assms(2,3), of r] by (simp add: add.assoc)
qed simp

lemma read_runs_data:
  assumes "\<forall>r \<in> set rs. data_run_ok r \<and> run_inside (fr_size fr) cs r" "512 \<le> cs" "cs < 2 ^ 23"
    "region_ok fr" "fr_size fr < 2 ^ 63" "int (length pre) + int (\<Sum>r \<leftarrow> rs. run_size cs r) < 2 ^ 63"
  shows "read_runs (fr_ReadAt fr) cs rs (int (length pre)) (pre @ replicate (\<Sum>r \<leftarrow> rs. run_size cs r) 0)
    = Ret (pre @ file_data (region fr) cs rs)"
  using assms(1,6)
proof (induction rs arbitrary: pre)
  case Nil
  then show ?case by (simp add: file_data_def)
next
  case (Cons r rs)
  let ?n = "run_size cs r" and ?m = "\<Sum>r \<leftarrow> rs. run_size cs r" and ?d = "run_data (region fr) cs r"
  have r: "data_run_ok r" "run_inside (fr_size fr) cs r" using Cons.prems(1) by simp_all
  have len: "length ?d = ?n" using run_data_length [OF r(1) _ assms(2,3), of "region fr"] r(2) region_length [OF assms(4)] by simp
  have stop: "i64 (int (length pre) + int ?n) = int (length (pre @ ?d))"
    using Cons.prems(2) len by (subst i64_small) simp_all
  have rest: "read_runs (fr_ReadAt fr) cs rs (int (length (pre @ ?d))) ((pre @ ?d) @ replicate ?m 0)
     = Ret ((pre @ ?d) @ file_data (region fr) cs rs)"
    using Cons.prems len by (intro Cons.IH) auto
  have fd: "(pre @ ?d) @ file_data (region fr) cs rs = pre @ file_data (region fr) cs (r # rs)" by (simp add: file_data_def)
  show ?case
  proof (cases "sparse r")
    case True
    then have "pre @ replicate (\<Sum>r \<leftarrow> r # rs. run_size cs r) 0 = (pre @ ?d) @ replicate ?m 0"
      by (simp add: run_data_def replicate_add)
    then show ?thesis using True rest fd stop by (simp add: run_size_int(2) [OF r(1) assms(2,3)] Let_def)
  next
    case False
    let ?s = "startCluster r * cs" and ?buf = "pre @ replicate (\<Sum>r \<leftarrow> r # rs. run_size cs r) 0"
    have s: "0 \<le> ?s" "?s + int ?n \<le> fr_size fr" "0 < lengthClusters r"
      using False r assms(2) run_size_int(1) [OF r(1) assms(2,3)] by (auto simp: run_inside_def data_run_ok_def distrib_right)
    moreover have "?s \<le> ?s + int ?n" by simp
    ultimately have "?s < 2 ^ 63" using assms(5) by linarith
    then have n: "0 < ?n" "i64 ?s = ?s" using s assms(2) by (auto simp: run_size_def intro!: i64_small)
    have rd: "fr_ReadAt fr ?s ?n = (?d, None)"
      using fr_ReadAt_region [OF assms(4) s(1) n(1)] len False by (simp add: read_bytes_def run_data_def)
    have "take (length pre) ?buf @ ?d @ drop (length pre + length ?d) ?buf = (pre @ ?d) @ replicate ?m 0"
      by (simp add: len)
    then show ?thesis using False rest fd rd n(2) stop len
      by (simp add: run_size_int(2) [OF r(1) assms(2,3)] Let_def)
  qed
qed

section \<open>\<open>Dump\<close>\<close>

lemma needBytes_le:
  assumes "- (2 ^ 63) \<le> t" "t \<le> 8 * int n" "n < 2 ^ 59"
  shows "tdiv (i64 (t + 7)) 8 \<le> int n"
proof -
  have e: "i64 (t + 7) = t + 7" using assms by (intro i64_small) auto
  show ?thesis
  proof (cases "0 \<le> t + 7")
    case True
    then have "tdiv (t + 7) 8 = (t + 7) div 8" by simp
    also have "\<dots> \<le> int n" using assms(2) by linarith
    finally show ?thesis by (simp add: e)
  next
    case False
    then have "tdiv (t + 7) 8 \<le> 0" by (simp add: tdiv_def)
    then show ?thesis by (simp add: e)
  qed
qed

lemma ntfs_Dump_steps:
  assumes "parseBoot p = Ret p1" "loadBitmapRuns p1 = Ret p2"
    "int (\<Sum>r \<leftarrow> p_bitmapRuns p2. run_size (ntfs_clusterSize (p_boot p2)) r) < 2 ^ 63"
  shows "boot_ok (p_boot p2)" "\<forall>r \<in> set (p_bitmapRuns p2). data_run_ok r"
    "bitmap_len (ntfs_clusterSize (p_boot p2)) (p_bitmapRuns p2) = int (\<Sum>r \<leftarrow> p_bitmapRuns p2. run_size (ntfs_clusterSize (p_boot p2)) r)"
    "fr_ReadAt (p_fr p2) = fr_ReadAt (p_fr p)"
proof -
  obtain rs where p2: "p2 = p1\<lparr>p_bitmapRuns := rs\<rparr>" using loadBitmapRuns_ok(1) [OF assms(2)] by blast
  show b: "boot_ok (p_boot p2)" using parseBoot_ok(1) [OF assms(1)] by (simp add: p2)
  show r: "\<forall>r \<in> set (p_bitmapRuns p2). data_run_ok r" by (rule loadBitmapRuns_ok(2) [OF assms(2)])
  show "bitmap_len (ntfs_clusterSize (p_boot p2)) (p_bitmapRuns p2) = int (\<Sum>r \<leftarrow> p_bitmapRuns p2. run_size (ntfs_clusterSize (p_boot p2)) r)"
    using bitmap_len_sum [OF r cluster_bounds(2,3) [OF b], of 0] assms(3) by (simp add: bitmap_len_def)
  show "fr_ReadAt (p_fr p2) = fr_ReadAt (p_fr p)"
    using parseBoot_ok(2) [OF assms(1)] fr_Read_region(1) [of "p_fr p" 512 "fst (fr_Read (p_fr p) 512)" "snd (fr_Read (p_fr p) 512)"]
    by (simp add: p2)
qed

lemma totalCluster_range:
  assumes "boot_ok b"
  shows "- (2 ^ 63) \<le> totalCluster b" "totalCluster b < 2 ^ 63"
proof -
  let ?s = "b_totalSectors b" and ?k = "int (b_sectorsPerCluster b)"
  have k: "0 < ?k" and s: "- (2 ^ 63) \<le> ?s" "?s < 2 ^ 63" using assms by (simp_all add: boot_ok_def)
  have q: "0 \<le> \<bar>?s\<bar> div ?k" "\<bar>?s\<bar> div ?k \<le> \<bar>?s\<bar>"
    using k pos_imp_zdiv_nonneg_iff [of ?k "\<bar>?s\<bar>"] zdiv_mono2 [of "\<bar>?s\<bar>" 1 ?k] by simp_all
  have "totalCluster b = sgn ?s * (\<bar>?s\<bar> div ?k)" using k by (simp add: totalCluster_def tdiv_def)
  then have "totalCluster b = \<bar>?s\<bar> div ?k \<and> 0 \<le> ?s \<or> totalCluster b = - (\<bar>?s\<bar> div ?k) \<and> ?s < 0"
    by (cases "0 < ?s"; cases "?s = 0") auto
  then show "- (2 ^ 63) \<le> totalCluster b" "totalCluster b < 2 ^ 63" using q s by linarith+
qed

lemma ntfs_Dump_returns:
  assumes R: "roaring_ok R" and p: "parseBoot p = Ret p1" "loadBitmapRuns p1 = Ret p2"
    and fr: "region_ok (p_fr p)" "fr_size (p_fr p) < 2 ^ 63"
    and inside: "\<forall>r \<in> set (p_bitmapRuns p2). run_inside (fr_size (p_fr p)) (ntfs_clusterSize (p_boot p2)) r"
    and small: "int (length (file_data (region (p_fr p)) (ntfs_clusterSize (p_boot p2)) (p_bitmapRuns p2))) \<le> 2 ^ 48"
    and enough: "totalCluster (p_boot p2) \<le> 8 * int (length (file_data (region (p_fr p)) (ntfs_clusterSize (p_boot p2)) (p_bitmapRuns p2)))"
  shows "ntfs_Dump R p = Ret (NewFsBitmapFromBytes R ''ntfs'' BitmapFromFS
      (file_data (region (p_fr p)) (ntfs_clusterSize (p_boot p2)) (p_bitmapRuns p2))
      (totalCluster (p_boot p2)) (ntfs_clusterSize (p_boot p2)))"
    "- (2 ^ 63) \<le> totalCluster (p_boot p2)" "totalCluster (p_boot p2) < 2 ^ 63"
proof -
  let ?cs = "ntfs_clusterSize (p_boot p2)" and ?rs = "p_bitmapRuns p2" and ?t = "totalCluster (p_boot p2)"
  let ?raw = "file_data (region (p_fr p)) ?cs ?rs" and ?n = "\<Sum>r \<leftarrow> ?rs. run_size ?cs r"
  have b: "boot_ok (p_boot p2)" using loadBitmapRuns_ok(1) [OF p(2)] parseBoot_ok(1) [OF p(1)] by auto
  note cs = cluster_bounds(2,3) [OF b]
  have ok: "\<forall>r \<in> set ?rs. data_run_ok r" by (rule loadBitmapRuns_ok(2) [OF p(2)])
  have "length (run_data (region (p_fr p)) ?cs r) = run_size ?cs r" if "r \<in> set ?rs" for r
    using that ok inside run_data_length [OF _ _ cs] region_length [OF fr(1)] by simp
  then have "map (length \<circ> run_data (region (p_fr p)) ?cs) ?rs = map (run_size ?cs) ?rs" by simp
  moreover have "length ?raw = sum_list (map (length \<circ> run_data (region (p_fr p)) ?cs) ?rs)"
    by (simp add: file_data_def length_concat)
  ultimately have n: "length ?raw = ?n" by (simp only:)
  then have n48: "int ?n \<le> 2 ^ 48" using small by simp
  then have n63: "int ?n < 2 ^ 63" by simp
  note S = ntfs_Dump_steps [OF p n63]
  have "read_runs (fr_ReadAt (p_fr p)) ?cs ?rs 0 (replicate ?n 0) = Ret ?raw"
    using read_runs_data [of ?rs "p_fr p" ?cs "[]"] ok inside cs fr n63 by simp
  moreover have "- (2 ^ 63) \<le> ?t \<and> ?t < 2 ^ 63" using totalCluster_range [OF b] by simp
  moreover have "\<not> int (length ?raw) < tdiv (i64 (?t + 7)) 8"
    using needBytes_le [of ?t "length ?raw"] calculation(2) enough small by simp
  ultimately show "ntfs_Dump R p = Ret (NewFsBitmapFromBytes R ''ntfs'' BitmapFromFS ?raw ?t ?cs)"
    "- (2 ^ 63) \<le> ?t" "?t < 2 ^ 63"
    using n48 by (simp_all add: ntfs_Dump_def p S(3,4) maxAlloc_def Let_def)
qed

section \<open>A small volume\<close>

text \<open>
  Nine clusters of one sector: the boot sector, seven records, the last of which is \<open>$Bitmap\<close> with the
  run list \<open>rl\<close>, and a cluster with a bitmap.
\<close>

definition demo_ntfs_boot :: "byte list" where
  "demo_ntfs_boot = replicate 11 0 @ [0, 2] @ [1] @ replicate 26 0 @ [9, 0, 0, 0, 0, 0, 0, 0] @ [1, 0, 0, 0, 0, 0, 0, 0]
     @ replicate 8 0 @ [0xF7, 0, 0, 0] @ [0xF7, 0, 0, 0] @ replicate 440 0"

definition demo_ntfs_attr :: "byte list \<Rightarrow> byte list" where
  "demo_ntfs_attr rl = [0x80, 0, 0, 0, 0x48, 0, 0, 0, 1, 0, 0x40, 0, 0, 0, 0, 0] @ replicate 16 0 @ [0x40, 0, 0, 0]
     @ replicate 12 0 @ [2] @ replicate 15 0 @ rl"

definition demo_ntfs_head :: "byte list" where
  "demo_ntfs_head = [0x46, 0x49, 0x4C, 0x45, 0x30, 0, 2, 0] @ replicate 12 0 @ [0x38, 0, 1, 0] @ replicate 24 0
     @ [7, 1, 0xAA, 0xBB, 0, 0, 0, 0]"

definition demo_ntfs_record :: "byte list \<Rightarrow> byte list \<Rightarrow> byte list" where
  "demo_ntfs_record rl tail = demo_ntfs_head @ demo_ntfs_attr rl @ [0xFF, 0xFF, 0xFF, 0xFF] @ replicate 378 0 @ tail"

definition demo_ntfs_volume :: "byte list \<Rightarrow> byte list" where
  "demo_ntfs_volume rl = demo_ntfs_boot @ replicate 3072 0 @ demo_ntfs_record rl [7, 1] @ [0x2D, 0x01] @ replicate 510 0"

definition demo_ntfs_parser :: "byte list \<Rightarrow> ntfs_parser" where
  "demo_ntfs_parser rl = \<lparr>p_dev = ''/dev/sda1'', p_start = 0, p_size = 4608,
     p_fr = \<lparr>fr_path = ''/dev/sda1'', fr_offset = 0, fr_size = 4608, fr_fileSize = 4608, fr_file = demo_ntfs_volume rl,
             fr_open = True, sr_off = 0\<rparr>,
     p_boot = zero_boot, p_mftRuns = [], p_bitmapRuns = []\<rparr>"

definition demo_ntfs_bpb :: bootSector where
  "demo_ntfs_bpb = \<lparr>b_bytesPerSector = 512, b_sectorsPerCluster = 1, mftCluster = 1, mftRecordSize = 512,
     indexRecordSize = 512, b_totalSectors = 9\<rparr>"

definition demo_ntfs_booted :: "byte list \<Rightarrow> ntfs_parser" where
  "demo_ntfs_booted rl = (demo_ntfs_parser rl)\<lparr>p_fr := (p_fr (demo_ntfs_parser rl))\<lparr>sr_off := 512\<rparr>, p_boot := demo_ntfs_bpb\<rparr>"

lemma demo_ntfs_lengths [simp]:
  "length demo_ntfs_boot = 512" "length (demo_ntfs_attr rl) = 64 + length rl" "length demo_ntfs_head = 56"
  "length (demo_ntfs_record rl tail) = 502 + length rl + length tail"
  "length (demo_ntfs_volume rl) = 4600 + length rl"
  by (simp_all add: demo_ntfs_boot_def demo_ntfs_attr_def demo_ntfs_head_def demo_ntfs_record_def demo_ntfs_volume_def)

lemma demo_parseBoot:
  assumes "length rl = 8"
  shows "parseBoot (demo_ntfs_parser rl) = Ret (demo_ntfs_booted rl)"
proof -
  have v: "take 512 (demo_ntfs_volume rl) = demo_ntfs_boot" by (simp add: demo_ntfs_volume_def)
  have r: "fr_Read (p_fr (demo_ntfs_parser rl)) 512 = ((p_fr (demo_ntfs_parser rl))\<lparr>sr_off := 512\<rparr>, demo_ntfs_boot, None)"
    using assms by (simp add: fr_Read_def demo_ntfs_parser_def file_ReadAt_def read_bytes_def v Let_def)
  have f: "uint_at 2 demo_ntfs_boot 0x0B = Ret 512" "byte_at demo_ntfs_boot 0x0D = Ret 1"
    "uint_at 8 demo_ntfs_boot 0x28 = Ret 9" "uint_at 8 demo_ntfs_boot 0x30 = Ret 1"
    "byte_at demo_ntfs_boot 0x40 = Ret 0xF7" "byte_at demo_ntfs_boot 0x44 = Ret 0xF7"
    by (simp_all add: uint_at_def byte_at_def) (simp_all add: demo_ntfs_boot_def le_at_def nth_append)
  have p2: "isPowerOfTwo 512" by (simp add: isPowerOfTwo_def)
  have c: "decodeClustersPerRecord 0xF7 512 = 512" by (simp add: decodeClustersPerRecord_def Let_def u32_def)
  show ?thesis
    unfolding parseBoot_def r
    by (simp add: filled_def f p2 c minBytesPerSector_def maxRecordSize_def zero_boot_def ntfs_clusterSize_def
        demo_ntfs_booted_def demo_ntfs_bpb_def Let_def)
qed

lemma demo_fixup:
  assumes "length rl = 8"
  shows "applyFixup (demo_ntfs_record rl [7, 1]) 0x30 2 512 = Ret (demo_ntfs_record rl [0xAA, 0xBB])"
proof -
  have b: "byte_at (demo_ntfs_record rl t) 0x30 = Ret 7" "byte_at (demo_ntfs_record rl t) 0x31 = Ret 1"
    "byte_at (demo_ntfs_record rl t) 0x32 = Ret 0xAA" "byte_at (demo_ntfs_record rl t) 0x33 = Ret 0xBB"
    for t
    by (simp_all add: byte_at_def demo_ntfs_record_def demo_ntfs_head_def nth_append)
  have e: "byte_at (demo_ntfs_record rl [x, y]) 510 = Ret x" "byte_at (demo_ntfs_record rl [x, y]) 511 = Ret y"
    "(demo_ntfs_record rl [x, y])[510 := x'] = demo_ntfs_record rl [x', y]"
    "(demo_ntfs_record rl [x, y])[511 := y'] = demo_ntfs_record rl [x, y']" for x y x' y'
    using assms by (simp_all add: byte_at_def demo_ntfs_record_def nth_append list_update_append)
  have "CheckBounds 48 4 512 = Ret ()" by (simp add: CheckBounds_def)
  then show ?thesis using assms by (simp add: applyFixup_def slice_of_def Let_def b e)
qed

lemma demo_attr:
  assumes "length rl = 8" "decodeRunList rl = Ret rs"
  shows "parseAttribute (demo_ntfs_attr rl) = Ret (zero_attribute\<lparr>typeCode := 0x80, nonResident := True, realSize := 2, attr_runs := rs\<rparr>)"
proof -
  have f: "uint_at 4 (demo_ntfs_attr rl) 0 = Ret 0x80" "byte_at (demo_ntfs_attr rl) 8 = Ret 1" "byte_at (demo_ntfs_attr rl) 9 = Ret 0"
    "uint_at 2 (demo_ntfs_attr rl) 10 = Ret 0x40" "uint_at 2 (demo_ntfs_attr rl) 0x0C = Ret 0" "uint_at 2 (demo_ntfs_attr rl) 0x0E = Ret 0"
    "uint_at 8 (demo_ntfs_attr rl) 0x10 = Ret 0" "uint_at 8 (demo_ntfs_attr rl) 0x18 = Ret 0" "uint_at 2 (demo_ntfs_attr rl) 0x22 = Ret 0"
    "uint_at 8 (demo_ntfs_attr rl) 0x30 = Ret 2" "uint_at 2 (demo_ntfs_attr rl) 0x20 = Ret 0x40"
    by (simp_all add: uint_at_def byte_at_def) (simp_all add: demo_ntfs_attr_def le_at_def nth_append le_replicate)
  have "drop 64 (demo_ntfs_attr rl) = rl" by (simp add: demo_ntfs_attr_def)
  then have "Slice (demo_ntfs_attr rl) 64 8 = Ret rl" using assms by (simp add: Slice_def CheckBounds_def slice_of_def)
  then show ?thesis using assms unfolding parseAttribute_def f by (simp add: CheckBounds_def zero_attribute_def Let_def)
qed

lemma demo_record:
  assumes "length rl = 8" "decodeRunList rl = Ret rs"
  shows "parseFileRecord 512 (demo_ntfs_record rl [7, 1])
    = Ret \<lparr>fr_flags = 1, rec_attrs = [zero_attribute\<lparr>typeCode := 0x80, nonResident := True, realSize := 2, attr_runs := rs\<rparr>]\<rparr>"
proof -
  let ?r = "\<lambda>t. demo_ntfs_record rl t"
  have h: "slice_of (?r [7, 1]) 0 4 = Ret FILE_magic" "uint_at 2 (?r [7, 1]) 4 = Ret 0x30" "uint_at 2 (?r [7, 1]) 6 = Ret 2"
    using assms by (simp_all add: slice_of_def uint_at_def)
      (simp_all add: demo_ntfs_record_def demo_ntfs_head_def FILE_magic_def le_at_def)
  have g: "uint_at 2 (?r [0xAA, 0xBB]) 0x16 = Ret 1" "uint_at 2 (?r [0xAA, 0xBB]) 0x14 = Ret 0x38"
    "uint_at 4 (?r [0xAA, 0xBB]) 0x38 = Ret 0x80" "uint_at 4 (?r [0xAA, 0xBB]) 0x3C = Ret 0x48"
    "uint_at 4 (?r [0xAA, 0xBB]) 0x80 = Ret 0xFFFFFFFF" "slice_of (?r [0xAA, 0xBB]) 0x38 0x80 = Ret (demo_ntfs_attr rl)"
    using assms by (simp_all add: slice_of_def uint_at_def)
      (simp_all add: demo_ntfs_record_def demo_ntfs_head_def demo_ntfs_attr_def le_at_def)
  have l: "length (?r [0xAA, 0xBB]) = 512" using assms by simp
  have "attr_loop (?r [0xAA, 0xBB]) 0x80 as = Ret as" for as
    by (subst attr_loop.simps) (simp add: l g del: demo_ntfs_lengths)
  then have "attr_loop (?r [0xAA, 0xBB]) 0x38 [] = Ret [zero_attribute\<lparr>typeCode := 0x80, nonResident := True, realSize := 2, attr_runs := rs\<rparr>]"
    by (subst attr_loop.simps) (simp add: l g demo_attr [OF assms] del: demo_ntfs_lengths)
  then show ?thesis using assms(1) unfolding parseFileRecord_def h g by (simp add: demo_fixup [OF assms(1)] g)
qed

lemma demo_loadBitmapRuns:
  assumes "length rl = 8" "decodeRunList rl = Ret rs"
  shows "loadBitmapRuns (demo_ntfs_booted rl) = Ret ((demo_ntfs_booted rl)\<lparr>p_bitmapRuns := rs\<rparr>)"
proof -
  have o: "mftRecordOffset (demo_ntfs_booted rl) 6 = Some 3584"
    by (simp add: mftRecordOffset_def demo_ntfs_booted_def demo_ntfs_parser_def demo_ntfs_bpb_def ntfs_clusterSize_def
        mulCheck_def addCheck_def)
  have "take 512 (drop 3584 (demo_ntfs_volume rl)) = demo_ntfs_record rl [7, 1]"
    using assms(1) by (simp add: demo_ntfs_volume_def)
  then have "fr_ReadAt (p_fr (demo_ntfs_booted rl)) 3584 512 = (demo_ntfs_record rl [7, 1], None)"
    using assms(1) by (simp add: fr_ReadAt_def demo_ntfs_booted_def demo_ntfs_parser_def file_ReadAt_def read_bytes_def)
  moreover have "mftRecordSize (p_boot (demo_ntfs_booted rl)) = 512" "b_bytesPerSector (p_boot (demo_ntfs_booted rl)) = 512"
    by (simp_all add: demo_ntfs_booted_def demo_ntfs_bpb_def)
  ultimately show ?thesis
    using assms(1) demo_record [OF assms]
    by (simp add: loadBitmapRuns_def mftRecordBitmap_def o readFileRecordAt_def filled_def data_runs_def attrData_def zero_attribute_def)
qed

section \<open>Properties\<close>

text \<open>
  C26.  When the boot sector and the record of \<open>$Bitmap\<close> parse, the file's runs lie on the volume, hold
  at most \<open>2^48\<close> bytes and have a bit for every cluster, the NTFS parser returns a bitmap with one bit
  per cluster, and a cluster is marked exactly when its bit in the contents of \<open>$Bitmap\<close> (the
  clusters of the runs in order, zeros for a hole) is set, least significant bit first.
\<close>

theorem ntfs_marks_clusters:
  assumes "roaring_ok R" "parseBoot p = Ret p1" "loadBitmapRuns p1 = Ret p2"
    "region_ok (p_fr p)" "fr_size (p_fr p) < 2 ^ 63"
    "cs = ntfs_clusterSize (p_boot p2)" "raw = file_data (region (p_fr p)) cs (p_bitmapRuns p2)"
    "\<forall>r \<in> set (p_bitmapRuns p2). run_inside (fr_size (p_fr p)) cs r"
    "int (length raw) \<le> 2 ^ 48" "totalCluster (p_boot p2) \<le> 8 * int (length raw)"
  shows "\<exists>b. ntfs_Dump R p = Ret b \<and> Bits b = totalCluster (p_boot p2) \<and> BlockSize b = cs
     \<and> (\<forall>c. IsSet R b c \<longleftrightarrow> int c < totalCluster (p_boot p2) \<and> bit (raw ! (c div 8)) (c mod 8))"
proof -
  note D = ntfs_Dump_returns [OF assms(1-5) assms(8-10) [unfolded assms(6,7)], folded assms(6), folded assms(7)]
  let ?b = "NewFsBitmapFromBytes R ''ntfs'' BitmapFromFS raw (totalCluster (p_boot p2)) cs"
  note S = NewFsBitmapFromBytes_spec [OF assms(1) D(3), of "''ntfs''" BitmapFromFS raw cs]
  have "IsSet R ?b c \<longleftrightarrow> int c < totalCluster (p_boot p2) \<and> bit (raw ! (c div 8)) (c mod 8)" for c
  proof -
    have "c div 8 < length raw" if "int c < totalCluster (p_boot p2)"
      using that assms(10) by (intro less_mult_imp_div_less) linarith
    then show ?thesis unfolding IsSet_used [OF S(1)] S(2) mem_Collect_eq by blast
  qed
  then show ?thesis using D(1) S(3) NewFsBitmapFromBytes_BlockSize by blast
qed

lemma demo_runs: "decodeRunList [0x11, 1, 8, 0, 0, 0, 0, 0] = Ret [\<lparr>lengthClusters = 1, startCluster = 8, sparse = False\<rparr>]"
  and demo_huge_runs: "decodeRunList [0x16, 0, 0, 0, 0, 0, 1, 8] = Ret [\<lparr>lengthClusters = 2 ^ 40, startCluster = 8, sparse = False\<rparr>]"
proof -
  have r: "sint (readUintLE [1]) = 1" "sint (readIntLE [8]) = 8" "sint (readUintLE [0, 0, 0, 0, 0, 1]) = 2 ^ 40"
    by (simp_all add: readUintLE_def readIntLE_def u64_of_int_def)
  show "decodeRunList [0x11, 1, 8, 0, 0, 0, 0, 0] = Ret [\<lparr>lengthClusters = 1, startCluster = 8, sparse = False\<rparr>]"
    "decodeRunList [0x16, 0, 0, 0, 0, 0, 1, 8] = Ret [\<lparr>lengthClusters = 2 ^ 40, startCluster = 8, sparse = False\<rparr>]"
    by (simp_all add: decodeRunList_def NewLoopGuard_def run_list.simps guard_Next_def byte_at_def slice_of_def r Let_def
        maxRunLengthClusters_def)
qed

theorem ntfs_marks_clusters_witness:
  "\<exists>b. ntfs_Dump list_roaring (demo_ntfs_parser [0x11, 1, 8, 0, 0, 0, 0, 0]) = Ret b \<and> Bits b = 9
     \<and> IsSet list_roaring b 8 \<and> \<not> IsSet list_roaring b 7"
proof -
  let ?rl = "[0x11, 1, 8, 0, 0, 0, 0, 0] :: byte list" and ?rs = "[\<lparr>lengthClusters = 1, startCluster = 8, sparse = False\<rparr>]"
  let ?p = "demo_ntfs_parser ?rl" and ?p2 = "(demo_ntfs_booted ?rl)\<lparr>p_bitmapRuns := ?rs\<rparr>"
  let ?raw = "[0x2D, 0x01 :: byte] @ replicate 510 0"
  have L: "length ?rl = 8" by simp
  have reg: "region (p_fr ?p) = demo_ntfs_volume ?rl" by (simp add: region_def demo_ntfs_parser_def)
  have "drop 4096 (demo_ntfs_volume ?rl) = ?raw" by (simp add: demo_ntfs_volume_def)
  then have raw: "?raw = file_data (region (p_fr ?p)) 512 (p_bitmapRuns ?p2)"
    unfolding reg by (simp add: file_data_def run_data_def run_size_def)
  have b: "p_boot ?p2 = demo_ntfs_bpb" by (simp add: demo_ntfs_booted_def)
  then have cs: "512 = ntfs_clusterSize (p_boot ?p2)" "totalCluster (p_boot ?p2) = 9"
    by (simp_all add: ntfs_clusterSize_def totalCluster_def demo_ntfs_bpb_def)
  have fr: "region_ok (p_fr ?p)" "fr_size (p_fr ?p) < 2 ^ 63" by (simp_all add: region_ok_def demo_ntfs_parser_def)
  have ins: "\<forall>r \<in> set (p_bitmapRuns ?p2). run_inside (fr_size (p_fr ?p)) 512 r"
    by (simp add: run_inside_def demo_ntfs_parser_def)
  have len: "int (length ?raw) \<le> 2 ^ 48" "totalCluster (p_boot ?p2) \<le> 8 * int (length ?raw)" using cs(2) by simp_all
  obtain b where b: "ntfs_Dump list_roaring ?p = Ret b" "Bits b = 9"
    "\<forall>c. IsSet list_roaring b c \<longleftrightarrow> int c < 9 \<and> bit (?raw ! (c div 8)) (c mod 8)"
    using ntfs_marks_clusters [OF roaring_exact_ok [OF list_roaring_exact] demo_parseBoot [OF L]
        demo_loadBitmapRuns [OF L demo_runs] fr cs(1) raw ins len] unfolding cs(2) by blast
  have "?raw ! (8 div 8) = 0x01" "?raw ! (7 div 8) = 0x2D" by simp_all
  moreover have "bit (0x01 :: byte) (8 mod 8)" "\<not> bit (0x2D :: byte) (7 mod 8)" by (simp_all add: bit_iff_odd)
  ultimately have "IsSet list_roaring b 8" "\<not> IsSet list_roaring b 7" using b(3) by auto
  then show ?thesis using b by blast
qed

text \<open>
  C27.  Whatever bytes the volume holds, reading the boot sector, the record of \<open>$MFT\<close> and the record of
  \<open>$Bitmap\<close> ends in a value or an error: no index and no slice expression of the record, fixup,
  attribute and run-list parsers is ever out of range.
\<close>

theorem ntfs_parsing_never_panics:
  "parseBoot p \<noteq> Panics \<and> loadMFTRuns p \<noteq> Panics \<and> loadBitmapRuns p \<noteq> Panics
     \<and> parseFileRecord bps buf \<noteq> Panics \<and> parseAttribute buf \<noteq> Panics \<and> decodeRunList buf \<noteq> Panics"
  by (simp add: parseBoot_safe loadMFTRuns_safe loadBitmapRuns_safe parseFileRecord_safe parseAttribute_safe
      decodeRunList_safe)



text \<open>
  C28.  Decoding inverts encoding: a run list written with fields of one to eight bytes that hold the
  lengths and the signed distances is decoded to the same runs, and what follows the terminator is
  ignored.
\<close>

theorem run_list_roundtrip:
  assumes "encodable 0 es"
  shows "decodeRunList (encode_runs 0 es @ 0 # rest) = Ret (map (snd \<circ> snd) es)"
  using run_list_encoded [OF assms, of "encode_runs 0 es @ 0 # rest" 0 _ "[]" rest "[]"]
  by (simp add: decodeRunList_def guard_ahead_def NewLoopGuard_def)

theorem run_list_roundtrip_witness:
  "decodeRunList [0x21, 3, 0x10, 0x20, 0x01, 2, 0x11, 1, 0xF0, 0, 5]
     = Ret [\<lparr>lengthClusters = 3, startCluster = 0x2010, sparse = False\<rparr>, \<lparr>lengthClusters = 2, startCluster = -1, sparse = True\<rparr>,
            \<lparr>lengthClusters = 1, startCluster = 0x2000, sparse = False\<rparr>]"
proof -
  let ?es = "[(1, 2, \<lparr>lengthClusters = 3, startCluster = 0x2010, sparse = False\<rparr>),
    (1, 0, \<lparr>lengthClusters = 2, startCluster = -1, sparse = True\<rparr>),
    (1, 1, \<lparr>lengthClusters = 1, startCluster = 0x2000, sparse = False\<rparr>)]"
  have "encodable 0 ?es" by (simp add: data_run_ok_def maxRunLengthClusters_def)
  moreover have "encode_runs 0 ?es @ 0 # [5] = [0x21, 3, 0x10, 0x20, 0x01, 2, 0x11, 1, 0xF0, 0, 5]"
  proof -
    have "to_le 2 k = [of_nat k, of_nat (k div 256)]" for k
      unfolding numeral_2_eq_2 by (simp only: to_le.simps)
    then show ?thesis by simp
  qed
  ultimately show ?thesis using run_list_roundtrip [of ?es "[5]"] by simp
qed

text \<open>
  The update-sequence correction of a record whose array lies in front of the first sector's
  end: when every sector ends in the sequence number, the last two bytes of each are replaced by the
  saved ones and nothing else changes; otherwise the record is rejected, naming a sector that does not.
\<close>

lemma fixup_restores_sectors:
  assumes "uo + 2 + 2 * n + 2 \<le> bps" "n * bps \<le> length buf" "bps \<le> length buf" "bps < 2 ^ 61"
  shows "((\<forall>i < n. sector_sealed uo bps buf i) \<longrightarrow> applyFixup buf uo (n + 1) bps = Ret (usa_restored uo bps 0 n buf))
    \<and> ((\<exists>i < n. \<not> sector_sealed uo bps buf i) \<longrightarrow>
        (\<exists>i < n. \<not> sector_sealed uo bps buf i
           \<and> applyFixup buf uo (n + 1) bps = Fail (Errorf ''fixup mismatch in sector %d'' [FInt (int i)])))"
proof -
  have "int uo + int (n + 1) * 2 < 2 ^ 63" using assms(1,4) by simp
  then have "CheckBounds (int uo) (int (n + 1) * 2) (int (length buf)) = Ret ()"
    using assms(1,3) by (subst CheckBounds_exact) auto
  moreover have "slice_of buf uo (uo + 2) = Ret (take 2 (drop uo buf))" using assms(1,3) by (simp add: slice_of_in)
  ultimately have "applyFixup buf uo (n + 1) bps = fixup_sectors uo bps [0..<n] buf"
    by (simp add: applyFixup_def)
  then show ?thesis using fixup_sectors_restores [OF assms(1,2), of 0] by auto
qed

lemma fixup_restores_sectors_example:
  "applyFixup [7, 1, 0xAA, 0xBB, 7, 1] 0 2 6 = Ret [7, 1, 0xAA, 0xBB, 0xAA, 0xBB]
   \<and> applyFixup [7, 1, 0xAA, 0xBB, 7, 2] 0 2 6 = Fail (Errorf ''fixup mismatch in sector %d'' [FInt 0])"
proof -
  have s: "sector_sealed 0 6 [7, 1, 0xAA, 0xBB, 7, 1] 0" "\<not> sector_sealed 0 6 [7, 1, 0xAA, 0xBB, 7, 2] 0"
    by (simp_all add: sector_sealed_def)
  have "[0..<6] = [0, 1, 2, 3, 4, 5 :: nat]" by (simp add: upt_rec)
  then have r: "usa_restored 0 6 0 1 [7, 1, 0xAA, 0xBB, 7, 1] = [7, 1, 0xAA, 0xBB, 0xAA, 0xBB]"
    by (simp add: usa_restored_def)
  have two: "(1 :: nat) + 1 = 2" by simp
  have "applyFixup [7, 1, 0xAA, 0xBB, 7, 1] 0 2 6 = Ret [7, 1, 0xAA, 0xBB, 0xAA, 0xBB]"
    using fixup_restores_sectors [of 0 1 6 "[7, 1, 0xAA, 0xBB, 7, 1]", unfolded two] s(1) r by simp
  moreover have "applyFixup [7, 1, 0xAA, 0xBB, 7, 2] 0 2 6 = Fail (Errorf ''fixup mismatch in sector %d'' [FInt 0])"
    using fixup_restores_sectors [of 0 1 6 "[7, 1, 0xAA, 0xBB, 7, 2]", unfolded two] s(2) by simp
  ultimately show ?thesis by (rule conjI)
qed

end
