(* ===== verification/Xfs.thy ===== *)
theory Xfs
  imports Region
begin

text \<open>
  The bitmap parser for XFS (\<^verbatim>\<open>src/disk/filesystem/xfs\<close>): all blocks are marked, then the blocks of
  every allocation group's free list and of its tree of free extents are cleared.  The records have
  the fields of the on-disk structures that the parser uses.  An operation takes the parser and
  returns \<open>Some\<close> of the parser and a result; \<open>None\<close> stands for a recursion that has not ended within
  the number of levels given as fuel.
\<close>

unbundle bit_operations_syntax

section \<open>Actions\<close>

type_synonym ('p, 'a) act = "'p \<Rightarrow> ('p \<times> 'a go) option"

definition bindA :: "('p, 'a) act \<Rightarrow> ('a \<Rightarrow> ('p, 'b) act) \<Rightarrow> ('p, 'b) act" where
  "bindA m f p =
     (case m p of
        None \<Rightarrow> None
      | Some (p', Ret x) \<Rightarrow> f x p'
      | Some (p', Fail e) \<Rightarrow> Some (p', Fail e)
      | Some (p', Panics) \<Rightarrow> Some (p', Panics))"

definition retA :: "'a go \<Rightarrow> ('p, 'a) act" where
  "retA r p = Some (p, r)"

text \<open>\<open>errors.Wrapf(err, ...)\<close>.\<close>

definition wrapA :: "string \<Rightarrow> farg list \<Rightarrow> ('p, 'a) act \<Rightarrow> ('p, 'a) act" where
  "wrapA s args m p = map_option (\<lambda>(p', r). (p', wrapG s args r)) (m p)"

section \<open>Big-endian fields\<close>

definition be_at :: "nat \<Rightarrow> byte list \<Rightarrow> nat \<Rightarrow> nat" where
  "be_at n buf off = le (rev (take n (drop off buf)))"

record xfs_superBlock =
  sb_Magicnum :: nat
  sb_BlockSize :: nat
  sb_Dblocks :: nat
  sb_Agblocks :: nat
  sb_Agcount :: nat
  sb_Versionnum :: nat
  sb_Sectsize :: nat

record agf =
  agf_Magicnum :: nat
  agf_Seqno :: nat
  agf_Length :: nat
  agf_Roots :: "nat list"
  agf_Levels :: "nat list"
  agf_Flfirst :: nat
  agf_Fllast :: nat
  agf_Flcount :: nat

text \<open>
  The structures with the widths of their fields in bytes.  \<open>binary.Read\<close> reads the fields one after the
  other, without padding.
\<close>

type_synonym layout = "(string \<times> nat) list"

definition superBlock_layout :: layout where
  "superBlock_layout =
    [(''Magicnum'', 4), (''BlockSize'', 4), (''Dblocks'', 8), (''Rblocks'', 8), (''Rextens'', 8), (''UUID'', 16),
     (''Logstart'', 8), (''Rootino'', 8), (''Rbmino'', 8), (''Rsmino'', 8), (''Rextsize'', 4), (''Agblocks'', 4),
     (''Agcount'', 4), (''Rbblocks'', 4), (''Logblocks'', 4), (''Versionnum'', 2), (''Sectsize'', 2), (''Inodesize'', 2),
     (''Inopblock'', 2), (''Fname'', 12), (''Blocklog'', 1), (''Sectlog'', 1), (''Inodelog'', 1), (''Inopblog'', 1),
     (''Agblklog'', 1), (''Rextslog'', 1), (''Inprogress'', 1), (''ImaxPct'', 1), (''Icount'', 8), (''Ifree'', 8),
     (''Fdblocks'', 8), (''Frextents'', 8), (''Uqunotino'', 8), (''Gquotino'', 8), (''Qflags'', 2), (''Flags'', 1),
     (''SharedVn'', 1), (''Inoalignmt'', 4), (''Unit'', 4), (''Width'', 4), (''Dirblklog'', 1), (''Logsectlog'', 1),
     (''Logsectsize'', 2), (''Logsunit'', 4), (''Features2'', 4), (''BadFeatures2'', 4), (''FeaturesCompat'', 4), (''FeaturesRoCompat'', 4),
     (''FeaturesIncompat'', 4), (''FeaturesLogIncompat'', 4), (''CRC'', 4), (''SpinoAlign'', 4), (''Pquotino'', 8), (''Lsn'', 8),
     (''MetaUUID'', 16)]"

definition agf_layout :: layout where
  "agf_layout =
    [(''Magicnum'', 4), (''Versionnum'', 4), (''Seqno'', 4), (''Length'', 4), (''Roots'', 12), (''Levels'', 12),
     (''Flfirst'', 4), (''Fllast'', 4), (''Flcount'', 4), (''Freeblks'', 4), (''Longest'', 4), (''Btreeblks'', 4),
     (''UUID'', 16), (''RmapBlocks'', 4), (''RefcountBlocks'', 4), (''RefcountRoot'', 4), (''RefcountLevel'', 4), (''Spare64'', 112),
     (''Lsn'', 8), (''CRC'', 4), (''Spare2'', 4)]"

definition agi_layout :: layout where
  "agi_layout =
    [(''Magicnum'', 4), (''Versionnum'', 4), (''Seqno'', 4), (''Length'', 4), (''Count'', 4), (''Root'', 4),
     (''Level'', 4), (''Freecount'', 4), (''Newino'', 4), (''Dirino'', 4), (''Unlinked'', 256), (''UUID'', 16),
     (''CRC'', 4), (''Pad32'', 4), (''Lsn'', 8), (''FreeRoot'', 4), (''FreeLevel'', 4), (''Iblocks'', 4),
     (''Fblocks'', 4)]"

definition agfl_layout :: layout where
  "agfl_layout = [(''Magicnum'', 4), (''Seqno'', 4), (''UUID'', 16), (''Lsn'', 8), (''CRC'', 4)]"

definition layout_size :: "layout \<Rightarrow> nat" where
  "layout_size l = sum_list (map snd l)"

fun field_pos :: "layout \<Rightarrow> string \<Rightarrow> nat" where
  "field_pos [] name = 0"
| "field_pos ((f, w) # l) name = (if f = name then 0 else w + field_pos l name)"

definition superBlock_size :: nat where "superBlock_size = layout_size superBlock_layout"

definition agf_size :: nat where "agf_size = layout_size agf_layout"

definition agi_size :: nat where "agi_size = layout_size agi_layout"

definition agfl_size :: nat where "agfl_size = layout_size agfl_layout"

definition superBlock_of :: "byte list \<Rightarrow> xfs_superBlock" where
  "superBlock_of d =
     (let at = field_pos superBlock_layout in
      \<lparr>sb_Magicnum = be_at 4 d (at ''Magicnum''), sb_BlockSize = be_at 4 d (at ''BlockSize''), sb_Dblocks = be_at 8 d (at ''Dblocks''),
       sb_Agblocks = be_at 4 d (at ''Agblocks''), sb_Agcount = be_at 4 d (at ''Agcount''),
       sb_Versionnum = be_at 2 d (at ''Versionnum''), sb_Sectsize = be_at 2 d (at ''Sectsize'')\<rparr>)"

definition agf_of :: "byte list \<Rightarrow> agf" where
  "agf_of d =
     (let at = field_pos agf_layout; r = at ''Roots''; l = at ''Levels'' in
      \<lparr>agf_Magicnum = be_at 4 d (at ''Magicnum''), agf_Seqno = be_at 4 d (at ''Seqno''), agf_Length = be_at 4 d (at ''Length''),
       agf_Roots = [be_at 4 d r, be_at 4 d (r + 4), be_at 4 d (r + 8)],
       agf_Levels = [be_at 4 d l, be_at 4 d (l + 4), be_at 4 d (l + 8)],
       agf_Flfirst = be_at 4 d (at ''Flfirst''), agf_Fllast = be_at 4 d (at ''Fllast''), agf_Flcount = be_at 4 d (at ''Flcount'')\<rparr>)"

lemma superBlock_of_eq:
  "superBlock_of d = \<lparr>sb_Magicnum = be_at 4 d 0, sb_BlockSize = be_at 4 d 4, sb_Dblocks = be_at 8 d 8,
     sb_Agblocks = be_at 4 d 84, sb_Agcount = be_at 4 d 88, sb_Versionnum = be_at 2 d 100, sb_Sectsize = be_at 2 d 102\<rparr>"
  by (simp add: superBlock_of_def superBlock_layout_def Let_def)

lemma agf_of_eq:
  "agf_of d = \<lparr>agf_Magicnum = be_at 4 d 0, agf_Seqno = be_at 4 d 8, agf_Length = be_at 4 d 12,
     agf_Roots = [be_at 4 d 16, be_at 4 d 20, be_at 4 d 24], agf_Levels = [be_at 4 d 28, be_at 4 d 32, be_at 4 d 36],
     agf_Flfirst = be_at 4 d 40, agf_Fllast = be_at 4 d 44, agf_Flcount = be_at 4 d 48\<rparr>"
  by (simp add: agf_of_def agf_layout_def Let_def)

lemma sizes_eq: "superBlock_size = 264" "agf_size = 224" "agi_size = 344" "agfl_size = 36"
  by (simp_all add: superBlock_size_def agf_size_def agi_size_def agfl_size_def layout_size_def superBlock_layout_def
      agf_layout_def agi_layout_def agfl_layout_def)

definition xfsSbMagic :: nat where "xfsSbMagic = 0x58465342"
definition xfsAgfMagic :: nat where "xfsAgfMagic = 0x58414746"
definition xfsAgiMagic :: nat where "xfsAgiMagic = 0x58414749"
definition xfsAgflMagic :: nat where "xfsAgflMagic = 0x5841464c"
definition xfsAbtbMagic :: nat where "xfsAbtbMagic = 0x41425442"
definition xfsAbtbCrcMagic :: nat where "xfsAbtbCrcMagic = 0x41423342"

definition xfs_version :: "xfs_superBlock \<Rightarrow> nat" where
  "xfs_version sb = sb_Versionnum sb AND 0x000f"

definition hasCrc :: "xfs_superBlock \<Rightarrow> bool" where
  "hasCrc sb \<longleftrightarrow> xfs_version sb = 5"

definition hasFeature :: "xfs_superBlock \<Rightarrow> nat \<Rightarrow> bool" where
  "hasFeature sb b \<longleftrightarrow> sb_Versionnum sb AND b \<noteq> 0"

text \<open>In memory \<open>agfl\<close> is padded to a multiple of eight: \<open>unsafe.Sizeof(agfl{})\<close> is 40.\<close>

definition sizeof_agfl :: int where "sizeof_agfl = 40"

definition agflBnoCount :: "xfs_superBlock \<Rightarrow> int" where
  "agflBnoCount sb = tdiv (int (sb_Sectsize sb) - (if hasCrc sb then sizeof_agfl else 0)) 4"

definition allocBtreeMaxRecs :: "int \<Rightarrow> int \<Rightarrow> bool \<Rightarrow> int" where
  "allocBtreeMaxRecs blockSize headerLen leaf =
     (let blocklen = blockSize - headerLen in if leaf then tdiv blocklen 8 else tdiv blocklen (8 + 4))"

section \<open>The parser\<close>

record 'r xfs_parser =
  x_fr :: FsRegionReader
  x_sb :: xfs_superBlock
  x_bitmap :: "'r FsBitmap"
  x_freeBits :: int

definition ErrUnexpectedEOF :: gerror where
  "ErrUnexpectedEOF = Errorf ''unexpected EOF'' []"

text \<open>
  \<open>io.ReadFull\<close>: repeated reads until the buffer is full or a read fails.  The first argument bounds
  the rounds; \<open>n + 1\<close> is enough because every read returns a byte or an error.
\<close>

fun read_full :: "nat \<Rightarrow> FsRegionReader \<Rightarrow> nat \<Rightarrow> byte list \<Rightarrow> (FsRegionReader \<times> byte list go) option" where
  "read_full k r n acc =
     (if length acc \<ge> n then Some (r, Ret acc)
      else case k of
        0 \<Rightarrow> None
      | Suc k' \<Rightarrow>
          (case fr_Read r (n - length acc) of
             (r', bs, e) \<Rightarrow>
               if length (acc @ bs) \<ge> n then Some (r', Ret (acc @ bs))
               else (case e of
                       Some x \<Rightarrow> Some (r', Fail (if acc @ bs \<noteq> [] \<and> x = Sentinel EOF_err then ErrUnexpectedEOF else x))
                     | None \<Rightarrow> read_full k' r' n (acc @ bs))))"

declare read_full.simps [simp del]

definition fr_ReadFull :: "nat \<Rightarrow> ('r xfs_parser, byte list) act" where
  "fr_ReadFull n p = map_option (\<lambda>(r, res). (p\<lparr>x_fr := r\<rparr>, res)) (read_full (n + 1) (x_fr p) n [])"

definition fr_SeekStart :: "int \<Rightarrow> ('r xfs_parser, unit) act" where
  "fr_SeekStart off p =
     (case fr_Seek (x_fr p) off SeekStart of
        (r, Inl e) \<Rightarrow> Some (p\<lparr>x_fr := r\<rparr>, Fail e)
      | (r, Inr _) \<Rightarrow> Some (p\<lparr>x_fr := r\<rparr>, Ret ()))"

definition readBlockAt :: "int \<Rightarrow> nat \<Rightarrow> ('r xfs_parser, byte list) act" where
  "readBlockAt offset blockSize =
     bindA (wrapA ''seek to %d'' [FInt offset] (fr_SeekStart offset)) (\<lambda>_.
       wrapA ''read block at %d'' [FInt offset] (fr_ReadFull blockSize))"

definition markFree :: "'r roaring \<Rightarrow> nat \<Rightarrow> nat \<Rightarrow> nat \<Rightarrow> 'r xfs_parser \<Rightarrow> 'r xfs_parser" where
  "markFree R agno agbno len p =
     p\<lparr>x_freeBits := i64 (x_freeBits p + int len),
       x_bitmap := ClearRange R (x_bitmap p) (u64 (agno * sb_Agblocks (x_sb p) + agbno)) len\<rparr>"

section \<open>The free list\<close>

text \<open>
  The loop from index \<open>i\<close> to \<open>stop\<close>, wrapping at the end of the array; \<open>scanFreeList\<close> has checked both indices.
\<close>

function free_list :: "'r roaring \<Rightarrow> nat \<Rightarrow> nat list \<Rightarrow> nat \<Rightarrow> nat \<Rightarrow> 'r xfs_parser \<Rightarrow> 'r xfs_parser" where
  "free_list R agno bnoArr stop i p =
     (if \<not> (i < length bnoArr \<and> stop < length bnoArr) then p
      else let p' = markFree R agno (bnoArr ! i) 1 p in
        if i = stop then p'
        else let i' = (if i + 1 = length bnoArr then 0 else i + 1) in free_list R agno bnoArr stop i' p')"
  by pat_completeness auto

termination free_list
  by (relation "measure (\<lambda>(R, agno, arr, stop, i, p). if i \<le> stop then stop - i else length arr + stop - i)")
    (auto split: if_splits)

declare free_list.simps [simp del]

definition scanFreeList :: "'r roaring \<Rightarrow> nat \<Rightarrow> agf \<Rightarrow> nat list \<Rightarrow> ('r xfs_parser, unit) act" where
  "scanFreeList R agno ag bnoArr p =
     (if agf_Flcount ag = 0 then Some (p, Ret ())
      else if agf_Flfirst ag \<ge> length bnoArr \<or> agf_Fllast ag \<ge> length bnoArr then Some (p, Ret ())
      else Some (free_list R agno bnoArr (agf_Fllast ag) (agf_Flfirst ag) p, Ret ()))"

section \<open>The tree of free extents\<close>

text \<open>A leaf: \<open>is\<close> are the records that are still to be visited.\<close>

fun scan_recs :: "'r roaring \<Rightarrow> agf \<Rightarrow> byte list \<Rightarrow> nat \<Rightarrow> nat \<Rightarrow> nat list \<Rightarrow> ('r xfs_parser, unit) act" where
  "scan_recs R ag data headerLen numrecs [] p = Some (p, Ret ())"
| "scan_recs R ag data headerLen numrecs (i # is) p =
     (let off = headerLen + i * 8 in
      if off + 8 > length data then Some (p, Fail (Errorf ''record %d out of range'' [FInt (int i)]))
      else let startBlock = be_at 4 data off; blockCount = be_at 4 data (off + 4) in
        if startBlock + blockCount > agf_Length ag
        then Some (p, Fail (Errorf ''AG%02d bnobt leaf record out of range: start=%d count=%d aglen=%d (headerLen=%d numrecs=%d)''
               [FInt (int (agf_Seqno ag)), FInt (int startBlock), FInt (int blockCount), FInt (int (agf_Length ag)),
                FInt (int headerLen), FInt (int numrecs)]))
        else scan_recs R ag data headerLen numrecs is (markFree R (agf_Seqno ag) startBlock blockCount p))"

text \<open>An inner block; \<open>scan\<close> visits a child.\<close>

fun scan_ptrs :: "(nat \<Rightarrow> ('r xfs_parser, unit) act) \<Rightarrow> byte list \<Rightarrow> int \<Rightarrow> nat list \<Rightarrow> ('r xfs_parser, unit) act" where
  "scan_ptrs scan data ptrBase [] p = Some (p, Ret ())"
| "scan_ptrs scan data ptrBase (i # is) p =
     (let off = ptrBase + int i * 4 in
      if off + 4 > int (length data) then Some (p, Fail (Errorf ''ptr %d out of range'' [FInt (int i)]))
      else bindA (scan (be_at 4 data (nat off))) (\<lambda>_. scan_ptrs scan data ptrBase is) p)"

definition scanFuncBno ::
    "(int \<Rightarrow> nat \<Rightarrow> int \<Rightarrow> ('r xfs_parser, unit) act) \<Rightarrow> 'r roaring \<Rightarrow> agf \<Rightarrow> byte list \<Rightarrow> int \<Rightarrow> ('r xfs_parser, unit) act" where
  "scanFuncBno scan R ag data level p =
     (if length data < 16 then Some (p, Panics)
      else let magic = be_at 4 data 0; numrecs = be_at 2 data 6 in
        if magic \<noteq> xfsAbtbCrcMagic \<and> magic \<noteq> xfsAbtbMagic then Some (p, Ret ())
        else let headerLen = (if magic = xfsAbtbCrcMagic then 56 else 16) in
          if length data < headerLen then Some (p, Fail (Errorf ''block too small: %d'' [FInt (int (length data))]))
          else if level = 0 then scan_recs R ag data headerLen numrecs [0..<numrecs] p
          else
            let blockSize = int (sb_BlockSize (x_sb p));
                maxrecs = allocBtreeMaxRecs blockSize (int headerLen) False;
                ptrBase = int headerLen + maxrecs * 8;
                agOffset = i64 (i64 (int (agf_Seqno ag) * int (sb_Agblocks (x_sb p))) * blockSize)
            in scan_ptrs (\<lambda>child. scan agOffset child level) data ptrBase [0..<numrecs] p)"

primrec scanSbtreeBno :: "nat \<Rightarrow> 'r roaring \<Rightarrow> agf \<Rightarrow> int \<Rightarrow> nat \<Rightarrow> int \<Rightarrow> ('r xfs_parser, unit) act" where
  "scanSbtreeBno 0 R ag agOffset agbno nlevels = (\<lambda>p. None)"
| "scanSbtreeBno (Suc k) R ag agOffset agbno nlevels =
     (\<lambda>p. let blockSize = sb_BlockSize (x_sb p); offset = i64 (agOffset + i64 (int agbno * int blockSize)) in
        case readBlockAt offset blockSize p of
          None \<Rightarrow> None
        | Some (p', Fail e) \<Rightarrow> Some (p', Ret ())
        | Some (p', Panics) \<Rightarrow> Some (p', Panics)
        | Some (p', Ret data) \<Rightarrow> scanFuncBno (scanSbtreeBno k R ag) R ag data (nlevels - 1) p')"

section \<open>\<open>Dump\<close>\<close>

definition read_struct :: "int \<Rightarrow> nat \<Rightarrow> ('r xfs_parser, byte list) act" where
  "read_struct off n = bindA (wrapA ''seek'' [] (fr_SeekStart off)) (\<lambda>_. wrapA ''read'' [] (fr_ReadFull n))"

definition scan_ag :: "nat \<Rightarrow> 'r roaring \<Rightarrow> int \<Rightarrow> nat \<Rightarrow> ('r xfs_parser, unit) act" where
  "scan_ag k R bnoCount agno p =
     (let sb = x_sb p; sect = int (sb_Sectsize sb);
          agOffset = i64 (i64 (int agno * int (sb_Agblocks sb)) * int (sb_BlockSize sb)) in
      bindA (read_struct (i64 (agOffset + 1 * sect)) agf_size) (\<lambda>d.
        if be_at 4 d 0 \<noteq> xfsAgfMagic then retA (Fail (Errorf ''wrong magic number of agf'' []))
        else let ag = agf_of d in
      bindA (read_struct (i64 (agOffset + 2 * sect)) agi_size) (\<lambda>d.
        if be_at 4 d 0 \<noteq> xfsAgiMagic then retA (Fail (Errorf ''wrong magic number of agi'' []))
        else
      bindA (read_struct (i64 (agOffset + 3 * sect)) agfl_size) (\<lambda>d.
        if be_at 4 d 0 \<noteq> xfsAgflMagic then retA (Fail (Errorf ''wrong magic number of agfl'' []))
        else if bnoCount < 0 then retA Panics
        else
      bindA (wrapA ''read'' [] (fr_ReadFull (nat bnoCount * 4))) (\<lambda>d.
        let bnoArr = map (\<lambda>i. be_at 4 d (i * 4)) [0..<nat bnoCount] in
      bindA (wrapA ''AG%02d scan freelist'' [FInt (int agno)] (scanFreeList R agno ag bnoArr)) (\<lambda>_.
        wrapA ''AG%02d scan bnobt'' [FInt (int agno)]
          (scanSbtreeBno k R ag agOffset (agf_Roots ag ! 0) (int (agf_Levels ag ! 0)))))))) p)"

fun scan_ags :: "nat \<Rightarrow> 'r roaring \<Rightarrow> int \<Rightarrow> nat list \<Rightarrow> ('r xfs_parser, unit) act" where
  "scan_ags k R bnoCount [] = retA (Ret ())"
| "scan_ags k R bnoCount (agno # as) = bindA (scan_ag k R bnoCount agno) (\<lambda>_. scan_ags k R bnoCount as)"

definition zero_parser :: "FsRegionReader \<Rightarrow> 'r xfs_parser" where
  "zero_parser fr = \<lparr>x_fr = fr, x_sb = \<lparr>sb_Magicnum = 0, sb_BlockSize = 0, sb_Dblocks = 0, sb_Agblocks = 0,
       sb_Agcount = 0, sb_Versionnum = 0, sb_Sectsize = 0\<rparr>, x_bitmap = NewFsBitmap '''' BitmapRaw 0 0, x_freeBits = 0\<rparr>"

definition xfs_NewBitmapParser ::
    "(string \<Rightarrow> nat result) \<Rightarrow> (string \<Rightarrow> byte list result) \<Rightarrow> string \<Rightarrow> int \<Rightarrow> int \<Rightarrow> 'r xfs_parser result" where
  "xfs_NewBitmapParser fileSize openFile dev start size' =
     bindR (NewFsRegionReader fileSize openFile dev start size') (\<lambda>fr. Inr (zero_parser fr))"

definition init_bitmap :: "'r roaring \<Rightarrow> byte list \<Rightarrow> 'r xfs_parser \<Rightarrow> 'r xfs_parser" where
  "init_bitmap R d p =
     (let sb = superBlock_of d in
      p\<lparr>x_sb := sb, x_bitmap := SetAll R (NewFsBitmap ''xfs'' BitmapFromFS (i64 (int (sb_Dblocks sb))) (int (sb_BlockSize sb)))\<rparr>)"

definition xfs_Dump :: "nat \<Rightarrow> 'r roaring \<Rightarrow> ('r xfs_parser, 'r FsBitmap) act" where
  "xfs_Dump k R =
     bindA (wrapA ''read superblock'' [] (fr_ReadFull superBlock_size)) (\<lambda>d.
       if be_at 4 d 0 \<noteq> xfsSbMagic then retA (Fail (Errorf ''wrong magic number of superblock'' []))
       else (\<lambda>p. bindA (scan_ags k R (agflBnoCount (superBlock_of d)) [0..<sb_Agcount (superBlock_of d)])
                  (\<lambda>_ p. Some (p, Ret (x_bitmap p))) (init_bitmap R d p)))"

end
