(* ===== verification/XfsLaws.thy ===== *)
theory XfsLaws
  imports Xfs
begin

text \<open>
  What the reads of the XFS parser return, as a function of the device, and the blocks that the free
  list and the tree of free extents name, as relations that mention neither the order of the visits
  nor the bitmap.
\<close>

section \<open>Reading\<close>

text \<open>Readers of the same region; only the position differs.\<close>

definition same_region :: "FsRegionReader \<Rightarrow> FsRegionReader \<Rightarrow> bool" where
  "same_region r r' \<longleftrightarrow> (\<exists>k. r' = r\<lparr>sr_off := k\<rparr>)"

lemma same_regionD:
  assumes "same_region r r'"
  shows "fr_offset r' = fr_offset r" "fr_size r' = fr_size r" "fr_file r' = fr_file r" "region_ok r' = region_ok r"
    "same_region r (r'\<lparr>sr_off := k\<rparr>)"
  using assms by (auto simp: same_region_def region_ok_def)

lemma same_region_refl [simp]: "same_region r r"
  unfolding same_region_def by (intro exI [of _ "sr_off r"]) simp

text \<open>The bytes from an absolute position on, if they lie inside the region.\<close>

definition bytes_at :: "FsRegionReader \<Rightarrow> int \<Rightarrow> nat \<Rightarrow> byte list option" where
  "bytes_at r pos n =
     (if n = 0 \<or> pos + int n \<le> fr_offset r + fr_size r then Some (take n (drop (nat pos) (fr_file r))) else None)"

lemma bytes_at_length:
  assumes "region_ok r" "0 \<le> pos" "bytes_at r pos n = Some d"
  shows "length d = n"
  using assms by (auto simp: bytes_at_def region_ok_def split: if_splits)

lemma fr_Read_inside:
  assumes "region_ok r" "0 \<le> sr_off r" "0 < n" "sr_off r + int n \<le> fr_offset r + fr_size r"
  shows "fr_Read r n = (r\<lparr>sr_off := sr_off r + int n\<rparr>, take n (drop (nat (sr_off r)) (fr_file r)), None)"
proof -
  have "length (take n (drop (nat (sr_off r)) (fr_file r))) = n" using assms by (auto simp: region_ok_def)
  then show ?thesis using assms by (simp add: fr_Read_def file_ReadAt_def read_bytes_def region_ok_def Let_def min_def)
qed

lemma fr_Read_end: "fr_offset r + fr_size r \<le> sr_off r \<Longrightarrow> fr_Read r n = (r, [], Some (Sentinel EOF_err))"
  by (simp add: fr_Read_def)

lemma fr_Read_cut:
  assumes "region_ok r" "0 \<le> sr_off r" "sr_off r < fr_offset r + fr_size r" "fr_offset r + fr_size r < sr_off r + int n"
  shows "fr_Read r n = (r\<lparr>sr_off := fr_offset r + fr_size r\<rparr>,
     take (nat (fr_offset r + fr_size r - sr_off r)) (drop (nat (sr_off r)) (fr_file r)), None)"
proof -
  let ?m = "nat (fr_offset r + fr_size r - sr_off r)"
  have "length (take ?m (drop (nat (sr_off r)) (fr_file r))) = ?m" using assms by (auto simp: region_ok_def)
  then show ?thesis using assms by (simp add: fr_Read_def file_ReadAt_def read_bytes_def region_ok_def Let_def min_def)
qed

lemma read_full_bytes:
  assumes "region_ok r" "0 \<le> sr_off r"
  shows "\<exists>r' res. read_full (n + 1) r n [] = Some (r', res) \<and> same_region r r'
     \<and> (case bytes_at r (sr_off r) n of
          Some d \<Rightarrow> res = Ret d \<and> sr_off r' = sr_off r + int n
        | None \<Rightarrow> (\<exists>e. res = Fail e))"
proof -
  consider (zero) "n = 0" | (inside) "0 < n" "sr_off r + int n \<le> fr_offset r + fr_size r"
    | (past) "0 < n" "fr_offset r + fr_size r \<le> sr_off r"
    | (cut) "0 < n" "sr_off r < fr_offset r + fr_size r" "fr_offset r + fr_size r < sr_off r + int n" by linarith
  then show ?thesis
  proof cases
    case zero
    then show ?thesis by (auto simp: read_full.simps bytes_at_def)
  next
    case inside
    have l: "length (take n (drop (nat (sr_off r)) (fr_file r))) = n" using assms inside by (auto simp: region_ok_def)
    show ?thesis using inside fr_Read_inside [OF assms inside] l
      by (subst read_full.simps) (auto simp: bytes_at_def same_region_def simp del: length_take)
  next
    case past
    then show ?thesis by (subst read_full.simps) (auto simp: fr_Read_end bytes_at_def)
  next
    case cut
    let ?m = "nat (fr_offset r + fr_size r - sr_off r)" and ?r = "r\<lparr>sr_off := fr_offset r + fr_size r\<rparr>"
    let ?bs = "take ?m (drop (nat (sr_off r)) (fr_file r))"
    have l: "length ?bs < n" "?bs \<noteq> []" using cut assms by (auto simp: region_ok_def)
    have "read_full (n + 1) r n [] = read_full n ?r n ?bs"
      using cut(1) l fr_Read_cut [OF assms cut(2,3)] by (subst read_full.simps) (simp del: length_take)
    also have "\<dots> = Some (?r, Fail ErrUnexpectedEOF)"
      using l cut(1) by (subst read_full.simps) (simp add: fr_Read_end Nat.gr0_conv_Suc split: nat.split del: length_take)
    finally have "read_full (n + 1) r n [] = Some (?r, Fail ErrUnexpectedEOF)" .
    moreover have "same_region r ?r" by (auto simp: same_region_def)
    ultimately show ?thesis using cut by (auto simp: bytes_at_def)
  qed
qed

text \<open>A position given to \<open>Seek\<close> is shifted by the region's offset twice.\<close>

definition seek_block :: "FsRegionReader \<Rightarrow> int \<Rightarrow> nat \<Rightarrow> byte list option" where
  "seek_block r off n = (if off + fr_offset r < 0 then None else bytes_at r (off + 2 * fr_offset r) n)"

lemma seek_read:
  assumes "region_ok r" "same_region r (x_fr p)"
  shows "\<exists>r' res. bindA (wrapA s1 a1 (fr_SeekStart off)) (\<lambda>_. wrapA s2 a2 (fr_ReadFull n)) p = Some (p\<lparr>x_fr := r'\<rparr>, res)
     \<and> same_region r r'
     \<and> (case seek_block r off n of
          Some d \<Rightarrow> res = Ret d \<and> sr_off r' = off + 2 * fr_offset r + int n
        | None \<Rightarrow> (\<exists>e. res = Fail e))"
proof -
  note D = same_regionD [OF assms(2)]
  let ?q = "off + 2 * fr_offset r"
  show ?thesis
  proof (cases "off + fr_offset r < 0")
    case True
    then have "fr_Seek (x_fr p) off SeekStart = (x_fr p, Inl (Errorf ''Seek: invalid offset'' []))"
      by (simp add: fr_Seek_def section_Seek_def D)
    then show ?thesis using True assms(2)
      by (intro exI [of _ "x_fr p"]) (simp add: bindA_def wrapA_def wrapG_def fr_SeekStart_def seek_block_def)
  next
    case False
    let ?r = "(x_fr p)\<lparr>sr_off := ?q\<rparr>"
    have sk: "fr_Seek (x_fr p) off SeekStart = (?r, Inr (?q - fr_offset r))"
      using False by (simp add: fr_Seek_def section_Seek_def D Let_def algebra_simps)
    have r: "region_ok ?r" "0 \<le> sr_off ?r" using assms(1) False same_regionD(4) [OF D(5)] by (auto simp: region_ok_def)
    obtain r' res where f: "read_full (n + 1) ?r n [] = Some (r', res)" "same_region ?r r'"
      "case bytes_at ?r (sr_off ?r) n of Some d \<Rightarrow> res = Ret d \<and> sr_off r' = sr_off ?r + int n | None \<Rightarrow> (\<exists>e. res = Fail e)"
      using read_full_bytes [OF r] by blast
    obtain k where "r' = (x_fr p)\<lparr>sr_off := k\<rparr>" using f(2) by (auto simp: same_region_def)
    then have "same_region r r'" using D(5) [of k] by simp
    moreover have "bytes_at ?r (sr_off ?r) n = seek_block r off n" using False D by (simp add: seek_block_def bytes_at_def)
    moreover have "bindA (wrapA s1 a1 (fr_SeekStart off)) (\<lambda>_. wrapA s2 a2 (fr_ReadFull n)) p = Some (p\<lparr>x_fr := r'\<rparr>, wrapG s2 a2 res)"
      using f(1) by (simp add: bindA_def wrapA_def fr_SeekStart_def sk fr_ReadFull_def)
    ultimately show ?thesis using f(3)
      by (intro exI [of _ r'] exI [of _ "wrapG s2 a2 res"]) (auto simp: wrapG_def split: option.splits)
  qed
qed

section \<open>Clearing blocks\<close>

lemma be_at_less: "be_at n buf off < 256 ^ n"
proof -
  have "be_at n buf off < 256 ^ length (rev (take n (drop off buf)))" unfolding be_at_def by (rule le_bound)
  also have "\<dots> \<le> 256 ^ n" by (rule power_increasing) simp_all
  finally show ?thesis .
qed

lemma be_at_4 [simp]: "be_at 4 buf off < 4294967296"
  using be_at_less [of 4 buf off] by simp

definition xfs_ok :: "'r roaring \<Rightarrow> FsRegionReader \<Rightarrow> xfs_superBlock \<Rightarrow> 'r xfs_parser \<Rightarrow> bool" where
  "xfs_ok R r sb p \<longleftrightarrow> region_ok r \<and> same_region r (x_fr p) \<and> x_sb p = sb \<and> bm_inv R (x_bitmap p) \<and> sb_Agblocks sb < 2 ^ 32"

text \<open>The step from one state to the next cleared exactly the blocks \<open>X\<close>.\<close>

definition cleared :: "'r roaring \<Rightarrow> FsRegionReader \<Rightarrow> xfs_superBlock \<Rightarrow> nat set \<Rightarrow> 'r xfs_parser \<Rightarrow> 'r xfs_parser \<Rightarrow> bool" where
  "cleared R r sb X p p' \<longleftrightarrow> xfs_ok R r sb p' \<and> used R (x_bitmap p') = used R (x_bitmap p) - X
     \<and> Bits (x_bitmap p') = Bits (x_bitmap p)"

lemma cleared_refl: "xfs_ok R r sb p \<Longrightarrow> cleared R r sb {} p p"
  by (simp add: cleared_def)

lemma cleared_trans: "cleared R r sb X p p1 \<Longrightarrow> cleared R r sb Y p1 p2 \<Longrightarrow> cleared R r sb (X \<union> Y) p p2"
  by (auto simp: cleared_def)

lemma cleared_reader: "xfs_ok R r sb p \<Longrightarrow> same_region r r' \<Longrightarrow> cleared R r sb X (p\<lparr>x_fr := r'\<rparr>) p' \<Longrightarrow> cleared R r sb X p p'"
  by (simp add: cleared_def)

lemma xfs_ok_reader: "xfs_ok R r sb p \<Longrightarrow> same_region r r' \<Longrightarrow> xfs_ok R r sb (p\<lparr>x_fr := r'\<rparr>)"
  by (simp add: xfs_ok_def)

definition extent :: "xfs_superBlock \<Rightarrow> nat \<Rightarrow> nat \<times> nat \<Rightarrow> nat set" where
  "extent sb agno = (\<lambda>(s, n). {agno * sb_Agblocks sb + s..<agno * sb_Agblocks sb + s + n})"

lemma markFree_cleared:
  assumes "xfs_ok R r sb p" "agno < 2 ^ 32" "s < 2 ^ 32" "n < 2 ^ 32"
  shows "cleared R r sb (extent sb agno (s, n)) p (markFree R agno s n p)"
proof -
  have "agno * sb_Agblocks sb \<le> (2 ^ 32 - 1) * (2 ^ 32 - 1)" using assms(1,2) by (intro mult_le_mono) (auto simp: xfs_ok_def)
  then have "u64 (agno * sb_Agblocks sb + s) = agno * sb_Agblocks sb + s" using assms(3) by (intro u64_small) simp
  moreover have "bm_inv R (x_bitmap p)" "x_sb p = sb" "n < segSize" using assms by (simp_all add: xfs_ok_def segSize_def)
  ultimately show ?thesis
    using assms(1) ClearRange_spec [of R "x_bitmap p" n "agno * sb_Agblocks sb + s"]
    by (simp add: cleared_def xfs_ok_def markFree_def extent_def)
qed

section \<open>The free list\<close>

definition on_circle :: "nat \<Rightarrow> nat \<Rightarrow> nat \<Rightarrow> nat \<Rightarrow> bool" where
  "on_circle size' i stop j \<longleftrightarrow> (if i \<le> stop then i \<le> j \<and> j \<le> stop else (i \<le> j \<and> j < size') \<or> j \<le> stop)"

lemma on_circle_step:
  assumes "i < size'" "stop < size'" "i \<noteq> stop" "j < size'"
  shows "on_circle size' i stop j \<longleftrightarrow> j = i \<or> on_circle size' (if i + 1 = size' then 0 else i + 1) stop j"
  using assms by (auto simp: on_circle_def)

lemma free_list_cleared:
  assumes "xfs_ok R r sb p" "agno < 2 ^ 32" "\<forall>b \<in> set arr. b < 2 ^ 32" "i < length arr" "stop < length arr"
  shows "cleared R r sb (\<Union>j \<in> {j. j < length arr \<and> on_circle (length arr) i stop j}. extent sb agno (arr ! j, 1)) p
     (free_list R agno arr stop i p)"
  using assms
proof (induction R agno arr stop i p rule: free_list.induct)
  case (1 R agno arr stop i p)
  let ?X = "\<lambda>i. \<Union>j \<in> {j. j < length arr \<and> on_circle (length arr) i stop j}. extent sb agno (arr ! j, 1)"
  let ?p = "markFree R agno (arr ! i) 1 p" and ?i = "if i + 1 = length arr then 0 else i + 1"
  have m: "cleared R r sb (extent sb agno (arr ! i, 1)) p ?p" using 1 by (intro markFree_cleared) auto
  show ?case
  proof (cases "i = stop")
    case True
    then have "{j. j < length arr \<and> on_circle (length arr) i stop j} = {i}" using 1 by (auto simp: on_circle_def)
    then show ?thesis using m True 1 by (subst free_list.simps) simp
  next
    case False
    have "cleared R r sb (?X ?i) ?p (free_list R agno arr stop ?i ?p)"
      using m False 1 by (intro 1(1)) (auto simp: cleared_def)
    then have "cleared R r sb (extent sb agno (arr ! i, 1) \<union> ?X ?i) p (free_list R agno arr stop ?i ?p)"
      by (rule cleared_trans [OF m])
    moreover have "{j. j < length arr \<and> on_circle (length arr) i stop j}
        = insert i {j. j < length arr \<and> on_circle (length arr) ?i stop j}"
      using on_circle_step [OF 1(5,6) False] 1(5) by auto
    ultimately show ?thesis using False 1 by (subst free_list.simps) (simp add: Let_def)
  qed
qed

section \<open>The tree\<close>

definition ag_offset :: "xfs_superBlock \<Rightarrow> nat \<Rightarrow> int" where
  "ag_offset sb agno = i64 (i64 (int agno * int (sb_Agblocks sb)) * int (sb_BlockSize sb))"

text \<open>A block of the tree that can be read: its bytes, the length of its header, the number of its entries.\<close>

definition node :: "FsRegionReader \<Rightarrow> xfs_superBlock \<Rightarrow> int \<Rightarrow> nat \<Rightarrow> (byte list \<times> nat \<times> nat) option" where
  "node r sb off agbno =
     (case seek_block r (i64 (off + i64 (int agbno * int (sb_BlockSize sb)))) (sb_BlockSize sb) of
        None \<Rightarrow> None
      | Some d \<Rightarrow>
          if be_at 4 d 0 = xfsAbtbCrcMagic then Some (d, 56, be_at 2 d 6)
          else if be_at 4 d 0 = xfsAbtbMagic then Some (d, 16, be_at 2 d 6)
          else None)"

definition rec_of :: "byte list \<Rightarrow> nat \<Rightarrow> nat \<Rightarrow> nat \<times> nat" where
  "rec_of d h i = (be_at 4 d (h + i * 8), be_at 4 d (h + i * 8 + 4))"

definition ptr_of :: "xfs_superBlock \<Rightarrow> byte list \<Rightarrow> nat \<Rightarrow> nat \<Rightarrow> nat" where
  "ptr_of sb d h i = be_at 4 d (nat (int h + allocBtreeMaxRecs (int (sb_BlockSize sb)) (int h) False * 8 + int i * 4))"

text \<open>The records of the leaves below a block, for a tree with \<open>nl\<close> levels.\<close>

inductive tree_rec :: "FsRegionReader \<Rightarrow> xfs_superBlock \<Rightarrow> agf \<Rightarrow> int \<Rightarrow> nat \<Rightarrow> int \<Rightarrow> nat \<times> nat \<Rightarrow> bool" for r sb ag where
  leaf: "\<lbrakk>node r sb off agbno = Some (d, h, n); i < n\<rbrakk> \<Longrightarrow> tree_rec r sb ag off agbno 1 (rec_of d h i)"
| inner: "\<lbrakk>node r sb off agbno = Some (d, h, n); nl \<noteq> 1; i < n;
    tree_rec r sb ag (ag_offset sb (agf_Seqno ag)) (ptr_of sb d h i) (nl - 1) e\<rbrakk> \<Longrightarrow> tree_rec r sb ag off agbno nl e"

inductive_cases tree_recE: "tree_rec r sb ag off agbno nl e"

lemma tree_rec_None: "node r sb off agbno = None \<Longrightarrow> \<not> tree_rec r sb ag off agbno nl e"
  by (auto elim: tree_recE)

lemma tree_rec_leaf: "node r sb off agbno = Some (d, h, n) \<Longrightarrow> {e. tree_rec r sb ag off agbno 1 e} = rec_of d h ` {..<n}"
  by (auto elim: tree_recE intro: tree_rec.leaf)

lemma tree_rec_inner:
  assumes "node r sb off agbno = Some (d, h, n)" "nl \<noteq> 1"
  shows "{e. tree_rec r sb ag off agbno nl e}
     = (\<Union>i \<in> {..<n}. {e. tree_rec r sb ag (ag_offset sb (agf_Seqno ag)) (ptr_of sb d h i) (nl - 1) e})" (is "?L = ?R")
proof (intro equalityI subsetI)
  fix e assume "e \<in> ?L"
  then have "tree_rec r sb ag off agbno nl e" by simp
  then show "e \<in> ?R" using assms by cases auto
next
  fix e assume "e \<in> ?R"
  then show "e \<in> ?L" using tree_rec.inner [OF assms] by blast
qed

lemma scan_recs_cleared:
  assumes "xfs_ok R r sb p" "agf_Seqno ag < 2 ^ 32" "scan_recs R ag d h n is p = Some (p', Ret ())"
  shows "cleared R r sb (\<Union>i \<in> set is. extent sb (agf_Seqno ag) (rec_of d h i)) p p'"
  using assms(1,3)
proof (induction "is" arbitrary: p)
  case Nil
  then show ?case by (simp add: cleared_refl)
next
  case (Cons i "is")
  let ?p = "markFree R (agf_Seqno ag) (be_at 4 d (h + i * 8)) (be_at 4 d (h + i * 8 + 4)) p"
  have m: "cleared R r sb (extent sb (agf_Seqno ag) (rec_of d h i)) p ?p"
    unfolding rec_of_def by (rule markFree_cleared [OF Cons.prems(1) assms(2)]) simp_all
  have "scan_recs R ag d h n is ?p = Some (p', Ret ())" using Cons.prems(2) by (simp add: Let_def split: if_splits)
  then have "cleared R r sb (\<Union>i \<in> set is. extent sb (agf_Seqno ag) (rec_of d h i)) ?p p'"
    using m by (intro Cons.IH) (auto simp: cleared_def)
  from cleared_trans [OF m this] show ?case by simp
qed

lemma scan_recs_returns: "scan_recs R ag d h n is p \<noteq> None"
  by (induction "is" arbitrary: p) (simp_all add: Let_def)

lemma scan_ptrs_cleared:
  assumes "\<And>child p p'. xfs_ok R r sb p \<Longrightarrow> scan child p = Some (p', Ret ()) \<Longrightarrow> cleared R r sb (X child) p p'"
    "xfs_ok R r sb p" "scan_ptrs scan d base is p = Some (p', Ret ())"
  shows "cleared R r sb (\<Union>i \<in> set is. X (be_at 4 d (nat (base + int i * 4)))) p p'"
  using assms(2,3)
proof (induction "is" arbitrary: p)
  case Nil
  then show ?case by (simp add: cleared_refl)
next
  case (Cons i "is")
  let ?c = "be_at 4 d (nat (base + int i * 4))"
  obtain p1 where s: "scan ?c p = Some (p1, Ret ())" "scan_ptrs scan d base is p1 = Some (p', Ret ())"
    using Cons.prems(2) by (auto simp: Let_def bindA_def split: if_splits option.splits prod.splits go.splits)
  have c: "cleared R r sb (X ?c) p p1" by (rule assms(1) [OF Cons.prems(1) s(1)])
  then have "cleared R r sb (\<Union>i \<in> set is. X (be_at 4 d (nat (base + int i * 4)))) p1 p'"
    using s(2) by (intro Cons.IH) (simp_all add: cleared_def)
  from cleared_trans [OF c this] show ?case by simp
qed

lemma scan_ptrs_returns:
  assumes "\<And>child p. xfs_ok R r sb p \<Longrightarrow> \<exists>p' res. scan child p = Some (p', res) \<and> xfs_ok R r sb p'" "xfs_ok R r sb p"
  shows "\<exists>p' res. scan_ptrs scan d base is p = Some (p', res) \<and> xfs_ok R r sb p'"
  using assms(2)
proof (induction "is" arbitrary: p)
  case (Cons i "is")
  obtain p1 res where s: "scan (be_at 4 d (nat (base + int i * 4))) p = Some (p1, res)" "xfs_ok R r sb p1"
    using assms(1) [OF Cons.prems] by blast
  show ?case using Cons.IH [OF s(2)] s Cons.prems by (cases res) (auto simp: Let_def bindA_def)
qed simp

text \<open>The parts of a visit, in terms of the block that is read.\<close>

lemma scanSbtreeBno_step:
  assumes "xfs_ok R r sb p"
  obtains r' where "same_region r r'" and
    "scanSbtreeBno (Suc k) R ag off agbno nl p =
       (case seek_block r (i64 (off + i64 (int agbno * int (sb_BlockSize sb)))) (sb_BlockSize sb) of
          None \<Rightarrow> Some (p\<lparr>x_fr := r'\<rparr>, Ret ())
        | Some d \<Rightarrow> scanFuncBno (scanSbtreeBno k R ag) R ag d (nl - 1) (p\<lparr>x_fr := r'\<rparr>))"
proof -
  have p: "region_ok r" "same_region r (x_fr p)" "x_sb p = sb" using assms by (simp_all add: xfs_ok_def)
  let ?o = "i64 (off + i64 (int agbno * int (sb_BlockSize sb)))"
  obtain r' res where "readBlockAt ?o (sb_BlockSize sb) p = Some (p\<lparr>x_fr := r'\<rparr>, res)" "same_region r r'"
    "case seek_block r ?o (sb_BlockSize sb) of
          Some d \<Rightarrow> res = Ret d \<and> sr_off r' = ?o + 2 * fr_offset r + int (sb_BlockSize sb)
        | None \<Rightarrow> (\<exists>e. res = Fail e)"
    using seek_read [OF p(1,2)] unfolding readBlockAt_def by blast
  then show thesis by (intro that [of r']) (auto simp: p(3) Let_def split: option.splits)
qed

lemma scanFuncBno_Ret:
  assumes "scanFuncBno scan R ag d level p = Some (p', Ret ())" "x_sb p = sb"
  obtains (none) "be_at 4 d 0 \<noteq> xfsAbtbCrcMagic" "be_at 4 d 0 \<noteq> xfsAbtbMagic" "p' = p"
  | (recs) h where "h = (if be_at 4 d 0 = xfsAbtbCrcMagic then 56 else 16)" "be_at 4 d 0 = xfsAbtbCrcMagic \<or> be_at 4 d 0 = xfsAbtbMagic"
      "level = 0" "scan_recs R ag d h (be_at 2 d 6) [0..<be_at 2 d 6] p = Some (p', Ret ())"
  | (ptrs) h where "h = (if be_at 4 d 0 = xfsAbtbCrcMagic then 56 else 16)" "be_at 4 d 0 = xfsAbtbCrcMagic \<or> be_at 4 d 0 = xfsAbtbMagic"
      "level \<noteq> 0" "scan_ptrs (\<lambda>child. scan (ag_offset sb (agf_Seqno ag)) child level) d
         (int h + allocBtreeMaxRecs (int (sb_BlockSize sb)) (int h) False * 8) [0..<be_at 2 d 6] p = Some (p', Ret ())"
  using assms unfolding scanFuncBno_def Let_def ag_offset_def by (auto split: if_splits)

definition tree_blocks :: "FsRegionReader \<Rightarrow> xfs_superBlock \<Rightarrow> agf \<Rightarrow> int \<Rightarrow> nat \<Rightarrow> int \<Rightarrow> nat set" where
  "tree_blocks r sb ag off agbno nl = (\<Union>e \<in> {e. tree_rec r sb ag off agbno nl e}. extent sb (agf_Seqno ag) e)"

lemma scanSbtreeBno_cleared:
  assumes "agf_Seqno ag < 2 ^ 32" "xfs_ok R r sb p" "scanSbtreeBno k R ag off agbno nl p = Some (p', Ret ())"
  shows "cleared R r sb (tree_blocks r sb ag off agbno nl) p p'"
  using assms(2,3)
proof (induction k arbitrary: off agbno nl p p')
  case (Suc k)
  obtain r' where r': "same_region r r'" and e: "scanSbtreeBno (Suc k) R ag off agbno nl p =
       (case seek_block r (i64 (off + i64 (int agbno * int (sb_BlockSize sb)))) (sb_BlockSize sb) of
          None \<Rightarrow> Some (p\<lparr>x_fr := r'\<rparr>, Ret ())
        | Some d \<Rightarrow> scanFuncBno (scanSbtreeBno k R ag) R ag d (nl - 1) (p\<lparr>x_fr := r'\<rparr>))"
    by (rule scanSbtreeBno_step [OF Suc.prems(1)])
  let ?p = "p\<lparr>x_fr := r'\<rparr>"
  have ok: "xfs_ok R r sb ?p" using Suc.prems(1) r' by (rule xfs_ok_reader)
  then have sb: "x_sb ?p = sb" by (simp add: xfs_ok_def)
  have "cleared R r sb (tree_blocks r sb ag off agbno nl) ?p p'"
  proof (cases "seek_block r (i64 (off + i64 (int agbno * int (sb_BlockSize sb)))) (sb_BlockSize sb)")
    case None
    then have "p' = ?p" "node r sb off agbno = None" using Suc.prems(2) e by (simp_all add: node_def)
    then show ?thesis using tree_rec_None cleared_refl [OF ok] by (simp add: tree_blocks_def)
  next
    case (Some d)
    then have f: "scanFuncBno (scanSbtreeBno k R ag) R ag d (nl - 1) ?p = Some (p', Ret ())" using Suc.prems(2) e by simp
    from f sb show ?thesis
    proof (cases rule: scanFuncBno_Ret)
      case none
      then have "node r sb off agbno = None" using Some by (simp add: node_def)
      then show ?thesis using none tree_rec_None cleared_refl [OF ok] by (simp add: tree_blocks_def)
    next
      case (recs h)
      then have "node r sb off agbno = Some (d, h, be_at 2 d 6)" "nl = 1" using Some by (auto simp: node_def)
      then have "tree_blocks r sb ag off agbno nl = (\<Union>i \<in> set [0..<be_at 2 d 6]. extent sb (agf_Seqno ag) (rec_of d h i))"
        using tree_rec_leaf [of r sb off agbno] by (auto simp: tree_blocks_def)
      then show ?thesis using scan_recs_cleared [OF ok assms(1) recs(4)] by simp
    next
      case (ptrs h)
      let ?o = "ag_offset sb (agf_Seqno ag)"
      have n: "node r sb off agbno = Some (d, h, be_at 2 d 6)" "nl \<noteq> 1" using ptrs Some by (auto simp: node_def)
      have "cleared R r sb (\<Union>i \<in> set [0..<be_at 2 d 6]. tree_blocks r sb ag ?o (ptr_of sb d h i) (nl - 1)) ?p p'"
        unfolding ptr_of_def by (rule scan_ptrs_cleared [OF Suc.IH ok ptrs(4)])
      moreover have "tree_blocks r sb ag off agbno nl = (\<Union>i \<in> set [0..<be_at 2 d 6]. tree_blocks r sb ag ?o (ptr_of sb d h i) (nl - 1))"
        unfolding tree_blocks_def tree_rec_inner [OF n] by auto
      ultimately show ?thesis by simp
    qed
  qed
  then show ?case by (rule cleared_reader [OF Suc.prems(1) r'])
qed simp

end
