(* ===== verification/XfsVolume.thy ===== *)
theory XfsVolume
  imports XfsLaws
begin

text \<open>
  The XFS parser on a volume: which blocks the returned bitmap marks, when the walk over the trees
  ends, and a volume on which it does not.
\<close>

section \<open>When the walk ends\<close>

lemma scan_recs_state:
  assumes "xfs_ok R r sb p" "agf_Seqno ag < 2 ^ 32"
  shows "\<exists>p' res. scan_recs R ag d h n is p = Some (p', res) \<and> xfs_ok R r sb p'"
  using assms(1)
proof (induction "is" arbitrary: p)
  case (Cons i "is")
  have "xfs_ok R r sb (markFree R (agf_Seqno ag) (be_at 4 d (h + i * 8)) (be_at 4 d (h + i * 8 + 4)) p)"
    using markFree_cleared [OF Cons.prems assms(2), of "be_at 4 d (h + i * 8)" "be_at 4 d (h + i * 8 + 4)"]
    by (simp add: cleared_def)
  from Cons.IH [OF this] Cons.prems show ?case by (auto simp: Let_def)
qed simp

lemma scanFuncBno_state:
  assumes "xfs_ok R r sb p" "agf_Seqno ag < 2 ^ 32"
    "level \<noteq> 0 \<Longrightarrow> (\<And>child p. xfs_ok R r sb p \<Longrightarrow>
       \<exists>p' res. scan (ag_offset sb (agf_Seqno ag)) child level p = Some (p', res) \<and> xfs_ok R r sb p')"
  shows "\<exists>p' res. scanFuncBno scan R ag d level p = Some (p', res) \<and> xfs_ok R r sb p'"
proof -
  have sb: "x_sb p = sb" using assms(1) by (simp add: xfs_ok_def)
  note recs = scan_recs_state [OF assms(1,2)]
  have "\<exists>p' res. scan_ptrs (\<lambda>child. scan (ag_offset sb (agf_Seqno ag)) child level) d base is p = Some (p', res) \<and> xfs_ok R r sb p'"
    if "level \<noteq> 0" for base "is"
    by (rule scan_ptrs_returns [OF assms(3) [OF that] assms(1)])
  then show ?thesis using assms(1) recs unfolding scanFuncBno_def Let_def sb ag_offset_def by simp
qed

lemma scanSbtreeBno_returns:
  assumes "agf_Seqno ag < 2 ^ 32" "xfs_ok R r sb p" "1 \<le> nl" "nl \<le> int k"
  shows "\<exists>p' res. scanSbtreeBno k R ag off agbno nl p = Some (p', res) \<and> xfs_ok R r sb p'"
  using assms(2-4)
proof (induction k arbitrary: off agbno nl p)
  case (Suc k)
  obtain r' where r': "same_region r r'" and e: "scanSbtreeBno (Suc k) R ag off agbno nl p =
       (case seek_block r (i64 (off + i64 (int agbno * int (sb_BlockSize sb)))) (sb_BlockSize sb) of
          None \<Rightarrow> Some (p\<lparr>x_fr := r'\<rparr>, Ret ())
        | Some d \<Rightarrow> scanFuncBno (scanSbtreeBno k R ag) R ag d (nl - 1) (p\<lparr>x_fr := r'\<rparr>))"
    by (rule scanSbtreeBno_step [OF Suc.prems(1)])
  have ok: "xfs_ok R r sb (p\<lparr>x_fr := r'\<rparr>)" using Suc.prems(1) r' by (rule xfs_ok_reader)
  have "\<exists>p' res. scanFuncBno (scanSbtreeBno k R ag) R ag d (nl - 1) (p\<lparr>x_fr := r'\<rparr>) = Some (p', res) \<and> xfs_ok R r sb p'" for d
    using Suc.prems(2,3) by (intro scanFuncBno_state [OF ok assms(1)] Suc.IH) auto
  then show ?case unfolding e using ok by (auto split: option.split)
qed simp

text \<open>A block that is its own first child, in a tree that claims to have no level.\<close>

definition self_child :: "FsRegionReader \<Rightarrow> xfs_superBlock \<Rightarrow> agf \<Rightarrow> nat \<Rightarrow> bool" where
  "self_child r sb ag agbno \<longleftrightarrow>
     (case node r sb (ag_offset sb (agf_Seqno ag)) agbno of
        None \<Rightarrow> False
      | Some (d, h, n) \<Rightarrow> 0 < n \<and> 56 \<le> length d \<and> ptr_of sb d h 0 = agbno
          \<and> int h + allocBtreeMaxRecs (int (sb_BlockSize sb)) (int h) False * 8 + 4 \<le> int (length d))"

lemma scanSbtreeBno_endless:
  assumes "self_child r sb ag agbno" "xfs_ok R r sb p" "nl \<le> 0"
  shows "scanSbtreeBno k R ag (ag_offset sb (agf_Seqno ag)) agbno nl p = None"
  using assms(2,3)
proof (induction k arbitrary: nl p)
  case (Suc k)
  let ?o = "ag_offset sb (agf_Seqno ag)"
  obtain r' where r': "same_region r r'" and e: "scanSbtreeBno (Suc k) R ag ?o agbno nl p =
       (case seek_block r (i64 (?o + i64 (int agbno * int (sb_BlockSize sb)))) (sb_BlockSize sb) of
          None \<Rightarrow> Some (p\<lparr>x_fr := r'\<rparr>, Ret ())
        | Some d \<Rightarrow> scanFuncBno (scanSbtreeBno k R ag) R ag d (nl - 1) (p\<lparr>x_fr := r'\<rparr>))"
    by (rule scanSbtreeBno_step [OF Suc.prems(1)])
  let ?p = "p\<lparr>x_fr := r'\<rparr>"
  have ok: "xfs_ok R r sb ?p" using Suc.prems(1) r' by (rule xfs_ok_reader)
  then have sb: "x_sb ?p = sb" by (simp add: xfs_ok_def)
  obtain d h n where n: "node r sb ?o agbno = Some (d, h, n)" "0 < n" "56 \<le> length d" "ptr_of sb d h 0 = agbno"
    "int h + allocBtreeMaxRecs (int (sb_BlockSize sb)) (int h) False * 8 + 4 \<le> int (length d)"
    using assms(1) by (auto simp: self_child_def split: option.splits)
  have d: "seek_block r (i64 (?o + i64 (int agbno * int (sb_BlockSize sb)))) (sb_BlockSize sb) = Some d"
    and h: "be_at 4 d 0 = xfsAbtbCrcMagic \<and> h = 56 \<or> be_at 4 d 0 \<noteq> xfsAbtbCrcMagic \<and> be_at 4 d 0 = xfsAbtbMagic \<and> h = 16"
    and num: "n = be_at 2 d 6"
    using n(1) by (auto simp: node_def split: option.splits if_splits)
  let ?base = "int h + allocBtreeMaxRecs (int (sb_BlockSize sb)) (int h) False * 8"
  have "scanSbtreeBno k R ag ?o agbno (nl - 1) ?p = None" using Suc.prems(2) ok by (intro Suc.IH) auto
  then have "scan_ptrs (\<lambda>child. scanSbtreeBno k R ag ?o child (nl - 1)) d ?base (0 # is) ?p = None" for "is"
    using n(4,5) by (simp add: Let_def bindA_def ptr_of_def)
  moreover have "[0..<n] = 0 # [1..<n]" using n(2) by (simp add: upt_conv_Cons)
  ultimately have "scan_ptrs (\<lambda>child. scanSbtreeBno k R ag ?o child (nl - 1)) d ?base [0..<n] ?p = None" by metis
  then have "scanFuncBno (scanSbtreeBno k R ag) R ag d (nl - 1) ?p = None"
    using n(3) h Suc.prems(2) unfolding scanFuncBno_def Let_def sb num ag_offset_def by auto
  then show ?case unfolding e d by simp
qed simp

section \<open>An allocation group\<close>

definition ag_header :: "FsRegionReader \<Rightarrow> xfs_superBlock \<Rightarrow> int \<Rightarrow> nat \<Rightarrow> (agf \<times> nat list) option" where
  "ag_header r sb cnt agno =
     (let o' = ag_offset sb agno; sect = int (sb_Sectsize sb) in
      case seek_block r (i64 (o' + 1 * sect)) agf_size of None \<Rightarrow> None | Some d1 \<Rightarrow>
      if be_at 4 d1 0 \<noteq> xfsAgfMagic then None else
      case seek_block r (i64 (o' + 2 * sect)) agi_size of None \<Rightarrow> None | Some d2 \<Rightarrow>
      if be_at 4 d2 0 \<noteq> xfsAgiMagic then None else
      case seek_block r (i64 (o' + 3 * sect)) agfl_size of None \<Rightarrow> None | Some d3 \<Rightarrow>
      if be_at 4 d3 0 \<noteq> xfsAgflMagic \<or> cnt < 0 then None else
      case bytes_at r (i64 (o' + 3 * sect) + 2 * fr_offset r + int agfl_size) (nat cnt * 4) of None \<Rightarrow> None | Some d4 \<Rightarrow>
      Some (agf_of d1, map (\<lambda>i. be_at 4 d4 (i * 4)) [0..<nat cnt]))"

definition list_blocks :: "xfs_superBlock \<Rightarrow> nat \<Rightarrow> agf \<Rightarrow> nat list \<Rightarrow> nat set" where
  "list_blocks sb agno ag arr =
     (if agf_Flcount ag = 0 \<or> agf_Flfirst ag \<ge> length arr \<or> agf_Fllast ag \<ge> length arr then {}
      else (\<Union>j \<in> {j. j < length arr \<and> on_circle (length arr) (agf_Flfirst ag) (agf_Fllast ag) j}. extent sb agno (arr ! j, 1)))"

lemma scanFreeList_cleared:
  assumes "xfs_ok R r sb p" "agno < 2 ^ 32" "\<forall>b \<in> set arr. b < 2 ^ 32"
  shows "\<exists>p'. scanFreeList R agno ag arr p = Some (p', Ret ()) \<and> cleared R r sb (list_blocks sb agno ag arr) p p'"
  using free_list_cleared [OF assms, of "agf_Flfirst ag" "agf_Fllast ag"] cleared_refl [OF assms(1)]
  by (auto simp: scanFreeList_def list_blocks_def not_le)

definition ag_walk :: "nat \<Rightarrow> 'r roaring \<Rightarrow> xfs_superBlock \<Rightarrow> nat \<Rightarrow> agf \<times> nat list \<Rightarrow> ('r xfs_parser, unit) act" where
  "ag_walk k R sb agno = (\<lambda>(ag, arr).
     bindA (wrapA ''AG%02d scan freelist'' [FInt (int agno)] (scanFreeList R agno ag arr)) (\<lambda>_.
        wrapA ''AG%02d scan bnobt'' [FInt (int agno)]
          (scanSbtreeBno k R ag (ag_offset sb agno) (agf_Roots ag ! 0) (int (agf_Levels ag ! 0)))))"

lemma read_struct_Some:
  assumes "xfs_ok R r sb p" "seek_block r off n = Some d"
  obtains r' where "same_region r r'" "sr_off r' = off + 2 * fr_offset r + int n"
    "\<And>f. bindA (read_struct off n) f p = f d (p\<lparr>x_fr := r'\<rparr>)"
proof -
  have p: "region_ok r" "same_region r (x_fr p)" using assms by (simp_all add: xfs_ok_def)
  obtain r' where "read_struct off n p = Some (p\<lparr>x_fr := r'\<rparr>, Ret d)" "same_region r r'" "sr_off r' = off + 2 * fr_offset r + int n"
    using seek_read [OF p, of "''seek''" "[]" off "''read''" "[]" n] assms(2) by (auto simp: read_struct_def)
  then show thesis by (intro that) (auto simp: bindA_def)
qed

lemma read_struct_None:
  assumes "xfs_ok R r sb p" "seek_block r off n = None"
  obtains r' e where "same_region r r'" "\<And>f. bindA (read_struct off n) f p = Some (p\<lparr>x_fr := r'\<rparr>, Fail e)"
proof -
  have p: "region_ok r" "same_region r (x_fr p)" using assms by (simp_all add: xfs_ok_def)
  obtain r' e where "read_struct off n p = Some (p\<lparr>x_fr := r'\<rparr>, Fail e)" "same_region r r'"
    using seek_read [OF p, of "''seek''" "[]" off "''read''" "[]" n] assms(2) by (auto simp: read_struct_def)
  then show thesis by (intro that) (auto simp: bindA_def)
qed

text \<open>The header of the group decides: without it the scan fails, with it the blocks are visited.\<close>

definition ag_outcome ::
    "nat \<Rightarrow> 'r roaring \<Rightarrow> FsRegionReader \<Rightarrow> xfs_superBlock \<Rightarrow> nat \<Rightarrow> (agf \<times> nat list) option \<Rightarrow> 'r xfs_parser \<Rightarrow> ('r xfs_parser \<times> unit go) option \<Rightarrow> bool" where
  "ag_outcome k R r sb agno hdr p out \<longleftrightarrow>
     (\<exists>r'. same_region r r' \<and>
        (case hdr of None \<Rightarrow> (\<exists>res. out = Some (p\<lparr>x_fr := r'\<rparr>, res) \<and> res \<noteq> Ret ())
         | Some h \<Rightarrow> out = ag_walk k R sb agno h (p\<lparr>x_fr := r'\<rparr>)))"

lemma ag_outcome_fail: "same_region r r' \<Longrightarrow> res \<noteq> Ret () \<Longrightarrow> ag_outcome k R r sb agno None p (Some (p\<lparr>x_fr := r'\<rparr>, res))"
  by (auto simp: ag_outcome_def)

lemma ag_outcome_reader: "ag_outcome k R r sb agno hdr (p\<lparr>x_fr := r'\<rparr>) out \<Longrightarrow> ag_outcome k R r sb agno hdr p out"
  by (cases hdr) (simp_all add: ag_outcome_def)

lemma ag_outcome_read:
  assumes "xfs_ok R r sb p"
    "seek_block r off n = None \<Longrightarrow> hdr = None"
    "\<And>d r'. \<lbrakk>seek_block r off n = Some d; same_region r r'; sr_off r' = off + 2 * fr_offset r + int n\<rbrakk>
       \<Longrightarrow> ag_outcome k R r sb agno hdr (p\<lparr>x_fr := r'\<rparr>) (f d (p\<lparr>x_fr := r'\<rparr>))"
  shows "ag_outcome k R r sb agno hdr p (bindA (read_struct off n) f p)"
proof (cases "seek_block r off n")
  case None
  obtain r' e where "same_region r r'" "bindA (read_struct off n) f p = Some (p\<lparr>x_fr := r'\<rparr>, Fail e)"
    using read_struct_None [OF assms(1) None] by metis
  then show ?thesis using assms(2) [OF None] ag_outcome_fail by (metis go.distinct(1))
next
  case (Some d)
  obtain r' where "same_region r r'" "sr_off r' = off + 2 * fr_offset r + int n"
    "bindA (read_struct off n) f p = f d (p\<lparr>x_fr := r'\<rparr>)"
    using read_struct_Some [OF assms(1) Some] by metis
  then show ?thesis using ag_outcome_reader assms(3) [OF Some] by metis
qed

lemma ag_outcome_bnos:
  assumes "xfs_ok R r sb p" "0 \<le> sr_off (x_fr p)"
    "hdr = map_option (\<lambda>d. (ag, map (\<lambda>i. be_at 4 d (i * 4)) [0..<m])) (bytes_at r (sr_off (x_fr p)) n)"
  shows "ag_outcome k R r sb agno hdr p
     (bindA (wrapA ''read'' [] (fr_ReadFull n)) (\<lambda>d. ag_walk k R sb agno (ag, map (\<lambda>i. be_at 4 d (i * 4)) [0..<m])) p)"
proof -
  have p: "region_ok (x_fr p)" "same_region r (x_fr p)" using assms(1) same_regionD(4) by (auto simp: xfs_ok_def)
  note D = same_regionD [OF p(2)]
  obtain r' res where f: "read_full (n + 1) (x_fr p) n [] = Some (r', res)" "same_region (x_fr p) r'"
    "case bytes_at (x_fr p) (sr_off (x_fr p)) n of Some d \<Rightarrow> res = Ret d \<and> sr_off r' = sr_off (x_fr p) + int n | None \<Rightarrow> (\<exists>e. res = Fail e)"
    using read_full_bytes [OF p(1) assms(2)] by blast
  have r': "same_region r r'" using f(2) D(5) by (auto simp: same_region_def)
  have b: "bytes_at (x_fr p) (sr_off (x_fr p)) n = bytes_at r (sr_off (x_fr p)) n" by (simp add: bytes_at_def D)
  show ?thesis
  proof (cases "bytes_at r (sr_off (x_fr p)) n")
    case None
    then obtain e where "res = Fail e" using f(3) b by auto
    then have "bindA (wrapA ''read'' [] (fr_ReadFull n)) g p = Some (p\<lparr>x_fr := r'\<rparr>, Fail (Errorf ''read'' [FErr e]))"
      for g :: "byte list \<Rightarrow> ('a xfs_parser, unit) act"
      using f(1) by (simp add: bindA_def wrapA_def wrapG_def fr_ReadFull_def)
    then show ?thesis using None assms(3) ag_outcome_fail [OF r', of "Fail (Errorf ''read'' [FErr e])"] by simp
  next
    case (Some d)
    then have "res = Ret d" using f(3) b by auto
    then show ?thesis using f(1) Some assms(3) r' by (auto simp: bindA_def wrapA_def fr_ReadFull_def ag_outcome_def)
  qed
qed

lemma scan_ag_outcome:
  assumes ok: "xfs_ok R r sb p"
  shows "ag_outcome k R r sb agno (ag_header r sb cnt agno) p (scan_ag k R cnt agno p)"
proof -
  let ?o = "ag_offset sb agno" and ?s = "int (sb_Sectsize sb)"
  have sb: "x_sb p = sb" and reg: "region_ok r" using ok by (simp_all add: xfs_ok_def)
  have fail: "ag_outcome k R r sb agno None q (retA res q)" if "xfs_ok R r sb q" "res \<noteq> Ret ()" for q res
    using that ag_outcome_fail [of r "x_fr q" res k R sb agno q] by (simp add: retA_def xfs_ok_def)
  show ?thesis
    unfolding scan_ag_def Let_def sb ag_offset_def [symmetric]
  proof (rule ag_outcome_read [OF ok], goal_cases)
    case 1
    then show ?case by (simp add: ag_header_def Let_def)
  next
    case (2 d1 r1)
    note ok1 = xfs_ok_reader [OF ok 2(2)]
    show ?case
    proof (cases "be_at 4 d1 0 = xfsAgfMagic")
      case False
      then show ?thesis using fail [OF ok1] 2(1) by (simp add: ag_header_def Let_def)
    next
      case m1: True
      then have c1: "\<not> be_at 4 d1 0 \<noteq> xfsAgfMagic" by simp
      show ?thesis unfolding if_not_P [OF c1]
      proof (rule ag_outcome_read [OF ok1], goal_cases)
        case 1
        then show ?case using m1 2(1) by (simp add: ag_header_def Let_def)
      next
        case r2: (2 d2 r2)
        note ok2 = xfs_ok_reader [OF ok1 r2(2)]
        show ?case
        proof (cases "be_at 4 d2 0 = xfsAgiMagic")
          case False
          then show ?thesis using fail [OF ok2] 2(1) r2(1) m1 by (simp add: ag_header_def Let_def)
        next
          case m2: True
          then have c2: "\<not> be_at 4 d2 0 \<noteq> xfsAgiMagic" by simp
          show ?thesis unfolding if_not_P [OF c2]
          proof (rule ag_outcome_read [OF ok2], goal_cases)
            case 1
            then show ?case using m1 m2 2(1) r2(1) by (simp add: ag_header_def Let_def)
          next
            case r3: (2 d3 r3)
            note ok3 = xfs_ok_reader [OF ok2 r3(2)]
            have hdr: "ag_header r sb cnt agno = (if be_at 4 d3 0 \<noteq> xfsAgflMagic \<or> cnt < 0 then None
                else map_option (\<lambda>d. (agf_of d1, map (\<lambda>i. be_at 4 d (i * 4)) [0..<nat cnt])) (bytes_at r (sr_off r3) (nat cnt * 4)))"
              using m1 m2 2(1) r2(1) r3(1,3) by (simp add: ag_header_def Let_def option.case_eq_if map_option_case)
            have pos: "0 \<le> sr_off r3" using r3(1,3) reg by (auto simp: seek_block_def region_ok_def split: if_splits)
            show ?case
            proof (cases "be_at 4 d3 0 \<noteq> xfsAgflMagic \<or> cnt < 0")
              case True
              then show ?thesis using fail [OF ok3] hdr by auto
            next
              case False
              then have "ag_header r sb cnt agno = map_option (\<lambda>d. (agf_of d1, map (\<lambda>i. be_at 4 d (i * 4)) [0..<nat cnt]))
                  (bytes_at r (sr_off (x_fr (p\<lparr>x_fr := r1\<rparr>\<lparr>x_fr := r2\<rparr>\<lparr>x_fr := r3\<rparr>))) (nat cnt * 4))"
                using hdr by auto
              from ag_outcome_bnos [OF ok3 _ this, of k agno] show ?thesis using False pos by (simp add: ag_walk_def)
            qed
          qed
        qed
      qed
    qed
  qed
qed

definition ag_blocks :: "FsRegionReader \<Rightarrow> xfs_superBlock \<Rightarrow> nat \<Rightarrow> agf \<times> nat list \<Rightarrow> nat set" where
  "ag_blocks r sb agno = (\<lambda>(ag, arr). list_blocks sb agno ag arr
     \<union> tree_blocks r sb ag (ag_offset sb agno) (agf_Roots ag ! 0) (int (agf_Levels ag ! 0)))"

lemma ag_header_bounds:
  assumes "ag_header r sb cnt agno = Some (ag, arr)"
  shows "agf_Seqno ag < 2 ^ 32" "\<forall>b \<in> set arr. b < 2 ^ 32"
proof -
  obtain d1 d4 where "ag = agf_of d1" "arr = map (\<lambda>i. be_at 4 d4 (i * 4)) [0..<nat cnt]"
    using assms by (auto simp: ag_header_def Let_def split: option.splits if_splits)
  then show "agf_Seqno ag < 2 ^ 32" "\<forall>b \<in> set arr. b < 2 ^ 32" by (auto simp: agf_of_eq)
qed

lemma wrapA_iff [simp]:
  "wrapA s a m p = None \<longleftrightarrow> m p = None" "wrapA s a m p = Some (p', Ret x) \<longleftrightarrow> m p = Some (p', Ret x)"
  by (auto simp: wrapA_def)

lemma bindA_Ret: "bindA m f p = Some (p', Ret y) \<longleftrightarrow> (\<exists>q x. m p = Some (q, Ret x) \<and> f x q = Some (p', Ret y))"
  by (auto simp: bindA_def split: option.splits prod.splits go.splits)

lemma ag_walk_cleared:
  assumes "xfs_ok R r sb p" "agno < 2 ^ 32" "agf_Seqno ag < 2 ^ 32" "\<forall>b \<in> set arr. b < 2 ^ 32"
    "ag_walk k R sb agno (ag, arr) p = Some (p', Ret ())"
  shows "cleared R r sb (ag_blocks r sb agno (ag, arr)) p p'"
proof -
  obtain q where q: "scanFreeList R agno ag arr p = Some (q, Ret ())" "cleared R r sb (list_blocks sb agno ag arr) p q"
    using scanFreeList_cleared [OF assms(1,2,4)] by blast
  then have "scanSbtreeBno k R ag (ag_offset sb agno) (agf_Roots ag ! 0) (int (agf_Levels ag ! 0)) q = Some (p', Ret ())"
    using assms(5) by (auto simp: ag_walk_def bindA_Ret)
  moreover have "xfs_ok R r sb q" using q(2) by (simp add: cleared_def)
  ultimately have "cleared R r sb (tree_blocks r sb ag (ag_offset sb agno) (agf_Roots ag ! 0) (int (agf_Levels ag ! 0))) q p'"
    using scanSbtreeBno_cleared [OF assms(3)] by blast
  from cleared_trans [OF q(2) this] show ?thesis by (simp add: ag_blocks_def)
qed

lemma scan_ag_cleared:
  assumes "xfs_ok R r sb p" "agno < 2 ^ 32" "scan_ag k R cnt agno p = Some (p', Ret ())"
  shows "\<exists>h. ag_header r sb cnt agno = Some h \<and> cleared R r sb (ag_blocks r sb agno h) p p'"
proof -
  obtain r' where r': "same_region r r'"
    "case ag_header r sb cnt agno of None \<Rightarrow> (\<exists>res. scan_ag k R cnt agno p = Some (p\<lparr>x_fr := r'\<rparr>, res) \<and> res \<noteq> Ret ())
       | Some h \<Rightarrow> scan_ag k R cnt agno p = ag_walk k R sb agno h (p\<lparr>x_fr := r'\<rparr>)"
    using scan_ag_outcome [OF assms(1), of k agno cnt] unfolding ag_outcome_def by blast
  then obtain ag arr where h: "ag_header r sb cnt agno = Some (ag, arr)" using assms(3) by (auto split: option.splits)
  then have "ag_walk k R sb agno (ag, arr) (p\<lparr>x_fr := r'\<rparr>) = Some (p', Ret ())" using r'(2) assms(3) by simp
  then have "cleared R r sb (ag_blocks r sb agno (ag, arr)) (p\<lparr>x_fr := r'\<rparr>) p'"
    by (rule ag_walk_cleared [OF xfs_ok_reader [OF assms(1) r'(1)] assms(2) ag_header_bounds [OF h]])
  then show ?thesis using h cleared_reader [OF assms(1) r'(1)] by blast
qed

lemma scan_ag_returns:
  assumes "xfs_ok R r sb p" "agno < 2 ^ 32"
    "\<forall>ag arr. ag_header r sb cnt agno = Some (ag, arr) \<longrightarrow> 1 \<le> agf_Levels ag ! 0 \<and> agf_Levels ag ! 0 \<le> k"
  shows "scan_ag k R cnt agno p \<noteq> None"
proof -
  obtain r' where r': "same_region r r'"
    "case ag_header r sb cnt agno of None \<Rightarrow> (\<exists>res. scan_ag k R cnt agno p = Some (p\<lparr>x_fr := r'\<rparr>, res) \<and> res \<noteq> Ret ())
       | Some h \<Rightarrow> scan_ag k R cnt agno p = ag_walk k R sb agno h (p\<lparr>x_fr := r'\<rparr>)"
    using scan_ag_outcome [OF assms(1), of k agno cnt] unfolding ag_outcome_def by blast
  show ?thesis
  proof (cases "ag_header r sb cnt agno")
    case (Some h)
    obtain ag arr where h: "h = (ag, arr)" by (cases h)
    note B = ag_header_bounds [OF Some [unfolded h]]
    obtain q where q: "scanFreeList R agno ag arr (p\<lparr>x_fr := r'\<rparr>) = Some (q, Ret ())" "xfs_ok R r sb q"
      using scanFreeList_cleared [OF xfs_ok_reader [OF assms(1) r'(1)] assms(2) B(2)] by (auto simp: cleared_def)
    have "1 \<le> int (agf_Levels ag ! 0)" "int (agf_Levels ag ! 0) \<le> int k" using assms(3) Some h by auto
    then have "scanSbtreeBno k R ag (ag_offset sb agno) (agf_Roots ag ! 0) (int (agf_Levels ag ! 0)) q \<noteq> None"
      using scanSbtreeBno_returns [OF B(1) q(2)] by (metis option.distinct(1))
    then show ?thesis using r'(2) Some q(1) by (simp add: h ag_walk_def bindA_def wrapA_def)
  qed (use r'(2) in auto)
qed

lemma scan_ags_cleared:
  assumes "xfs_ok R r sb p" "\<forall>a \<in> set as. a < 2 ^ 32" "scan_ags k R cnt as p = Some (p', Ret ())"
  shows "(\<forall>a \<in> set as. ag_header r sb cnt a \<noteq> None)
     \<and> cleared R r sb (\<Union>a \<in> set as. ag_blocks r sb a (the (ag_header r sb cnt a))) p p'"
  using assms
proof (induction as arbitrary: p)
  case Nil
  then show ?case by (simp add: retA_def cleared_refl)
next
  case (Cons a as)
  obtain q where q: "scan_ag k R cnt a p = Some (q, Ret ())" "scan_ags k R cnt as q = Some (p', Ret ())"
    using Cons.prems(3) by (auto simp: bindA_Ret)
  obtain h where h: "ag_header r sb cnt a = Some h" "cleared R r sb (ag_blocks r sb a h) p q"
    using scan_ag_cleared [OF Cons.prems(1) _ q(1)] Cons.prems(2) by auto
  then have "xfs_ok R r sb q" by (simp add: cleared_def)
  from Cons.IH [OF this _ q(2)] Cons.prems(2) h cleared_trans [OF h(2)] show ?case by simp
qed

lemma scan_ags_returns:
  assumes "xfs_ok R r sb p" "\<forall>a \<in> set as. a < 2 ^ 32"
    "\<forall>a \<in> set as. \<forall>ag arr. ag_header r sb cnt a = Some (ag, arr) \<longrightarrow> 1 \<le> agf_Levels ag ! 0 \<and> agf_Levels ag ! 0 \<le> k"
  shows "scan_ags k R cnt as p \<noteq> None"
  using assms
proof (induction as arbitrary: p)
  case (Cons a as)
  have "scan_ag k R cnt a p \<noteq> None" using Cons.prems by (intro scan_ag_returns) auto
  then obtain q res where q: "scan_ag k R cnt a p = Some (q, res)" by auto
  show ?case
  proof (cases res)
    case (Ret x)
    then have "xfs_ok R r sb q" using scan_ag_cleared [OF Cons.prems(1), of a k cnt q] q Cons.prems(2) by (auto simp: cleared_def)
    then show ?thesis using Cons q Ret by (simp add: bindA_def)
  qed (simp_all add: bindA_def q)
qed (simp add: retA_def)

section \<open>\<open>Dump\<close>\<close>

definition fresh_reader :: "FsRegionReader \<Rightarrow> bool" where
  "fresh_reader r \<longleftrightarrow> region_ok r \<and> sr_off r = fr_offset r"

lemma fresh_readerD: "fresh_reader r \<Longrightarrow> region_ok r \<and> 0 \<le> sr_off r"
  by (simp add: fresh_reader_def region_ok_def)

lemma init_bitmap_ok:
  assumes "roaring_ok R" "region_ok r" "same_region r r'"
  shows "xfs_ok R r (superBlock_of d) (init_bitmap R d (p\<lparr>x_fr := r'\<rparr>))"
    "used R (x_bitmap (init_bitmap R d (p\<lparr>x_fr := r'\<rparr>))) = {..<nat (i64 (int (sb_Dblocks (superBlock_of d))))}"
    "Bits (x_bitmap (init_bitmap R d (p\<lparr>x_fr := r'\<rparr>))) = i64 (int (sb_Dblocks (superBlock_of d)))"
proof -
  let ?n = "i64 (int (sb_Dblocks (superBlock_of d)))" and ?bs = "int (sb_BlockSize (superBlock_of d))"
  let ?b = "NewFsBitmap ''xfs'' BitmapFromFS ?n ?bs :: 'a FsBitmap"
  have N: "bm_inv R ?b" "Bits ?b = ?n" using NewFsBitmap_spec [OF assms(1) i64_bounds(2)] by auto
  then show "xfs_ok R r (superBlock_of d) (init_bitmap R d (p\<lparr>x_fr := r'\<rparr>))"
    using fsbm.set_all_inv [OF N(1)] assms(2,3) by (simp add: init_bitmap_def xfs_ok_def superBlock_of_eq Let_def)
  show "used R (x_bitmap (init_bitmap R d (p\<lparr>x_fr := r'\<rparr>))) = {..<nat ?n}"
    using fsbm.set_all_used [OF N(1)] N(2) by (simp add: init_bitmap_def Let_def)
  show "Bits (x_bitmap (init_bitmap R d (p\<lparr>x_fr := r'\<rparr>))) = ?n"
    using N(2) by (simp add: init_bitmap_def Let_def)
qed

lemma xfs_Dump_start:
  assumes "fresh_reader (x_fr p)" "bytes_at (x_fr p) (fr_offset (x_fr p)) superBlock_size = Some d" "be_at 4 d 0 = xfsSbMagic"
  obtains r' where "same_region (x_fr p) r'"
    "xfs_Dump k R p = bindA (scan_ags k R (agflBnoCount (superBlock_of d)) [0..<sb_Agcount (superBlock_of d)])
        (\<lambda>_ p. Some (p, Ret (x_bitmap p))) (init_bitmap R d (p\<lparr>x_fr := r'\<rparr>))"
proof -
  obtain r' where "read_full (superBlock_size + 1) (x_fr p) superBlock_size [] = Some (r', Ret d)" "same_region (x_fr p) r'"
    using read_full_bytes [of "x_fr p" superBlock_size] fresh_readerD [OF assms(1)] assms(1,2) by (auto simp: fresh_reader_def)
  then show thesis using assms(3) by (intro that [of r']) (simp_all add: xfs_Dump_def bindA_def wrapA_def fr_ReadFull_def)
qed

lemma xfs_Dump_Ret:
  assumes "fresh_reader (x_fr p)" "xfs_Dump k R p = Some (p', Ret b)"
  obtains d where "bytes_at (x_fr p) (fr_offset (x_fr p)) superBlock_size = Some d" "be_at 4 d 0 = xfsSbMagic"
proof -
  obtain r' res where f: "read_full (superBlock_size + 1) (x_fr p) superBlock_size [] = Some (r', res)"
    "case bytes_at (x_fr p) (fr_offset (x_fr p)) superBlock_size of Some d \<Rightarrow> res = Ret d \<and> sr_off r' = sr_off (x_fr p) + int superBlock_size
       | None \<Rightarrow> (\<exists>e. res = Fail e)"
    using read_full_bytes [of "x_fr p" superBlock_size] fresh_readerD [OF assms(1)] assms(1) by (auto simp: fresh_reader_def)
  then show thesis using assms(2) that
    by (auto simp: xfs_Dump_def bindA_Ret fr_ReadFull_def retA_def split: option.splits if_splits)
qed

lemma Agcount_bound: "\<forall>a \<in> set [0..<sb_Agcount (superBlock_of d)]. a < 2 ^ 32"
  by (auto simp: superBlock_of_eq intro: less_trans [OF _ be_at_4])

section \<open>A small volume\<close>

text \<open>
  One allocation group of 33 blocks of 64 bytes, with headers of one sector each; the root of the
  tree of free extents is block 32.
\<close>

definition demo_xfs_sb :: "byte list" where
  "demo_xfs_sb = [0x58, 0x46, 0x53, 0x42, 0, 0, 0, 64] @ [0, 0, 0, 0, 0, 0, 0, 33] @ replicate 68 0
     @ [0, 0, 0, 33] @ [0, 0, 0, 1] @ replicate 8 0 @ [0, 5] @ [2, 0] @ replicate 160 0"

definition demo_agf :: "byte \<Rightarrow> byte list" where
  "demo_agf level = [0x58, 0x41, 0x47, 0x46, 0, 0, 0, 1, 0, 0, 0, 0, 0, 0, 0, 33] @ [0, 0, 0, 32] @ replicate 8 0
     @ [0, 0, 0, level] @ replicate 192 0"

definition demo_agi :: "byte list" where
  "demo_agi = [0x58, 0x41, 0x47, 0x49] @ replicate 340 0"

definition demo_agfl :: "byte list" where
  "demo_agfl = [0x58, 0x41, 0x46, 0x4C] @ replicate 32 0"

definition demo_xfs_volume :: "byte \<Rightarrow> byte list \<Rightarrow> byte list" where
  "demo_xfs_volume level root = demo_xfs_sb @ replicate 248 0 @ demo_agf level @ replicate 288 0
     @ demo_agi @ replicate 168 0 @ demo_agfl @ replicate 476 0 @ root"

definition demo_xfs :: "byte \<Rightarrow> byte list \<Rightarrow> nat list xfs_parser" where
  "demo_xfs level root = zero_parser \<lparr>fr_path = ''/dev/sda1'', fr_offset = 0, fr_size = 2112, fr_fileSize = 2112,
     fr_file = demo_xfs_volume level root, fr_open = True, sr_off = 0\<rparr>"

text \<open>A leaf with the extent of the blocks 5 and 6, and a block that is its own child.\<close>

definition demo_leaf :: "byte list" where
  "demo_leaf = [0x41, 0x42, 0x54, 0x42, 0, 0, 0, 1] @ replicate 8 0 @ [0, 0, 0, 5, 0, 0, 0, 2] @ replicate 40 0"

definition demo_loop :: "byte list" where
  "demo_loop = [0x41, 0x42, 0x54, 0x42, 0, 0, 0, 1] @ replicate 40 0 @ [0, 0, 0, 32] @ replicate 12 0"

definition demo_superBlock :: xfs_superBlock where
  "demo_superBlock = \<lparr>sb_Magicnum = xfsSbMagic, sb_BlockSize = 64, sb_Dblocks = 33, sb_Agblocks = 33, sb_Agcount = 1,
     sb_Versionnum = 5, sb_Sectsize = 512\<rparr>"

lemma demo_xfs_lengths [simp]:
  "length demo_xfs_sb = 264" "length (demo_agf level) = 224" "length demo_agi = 344" "length demo_agfl = 36"
  "length (demo_xfs_volume level root) = 2048 + length root" "length demo_leaf = 64" "length demo_loop = 64"
  by (simp_all add: demo_xfs_sb_def demo_agf_def demo_agi_def demo_agfl_def demo_xfs_volume_def demo_leaf_def demo_loop_def)

lemma demo_xfs_fields:
  "superBlock_of demo_xfs_sb = demo_superBlock" "be_at 4 demo_xfs_sb 0 = xfsSbMagic" "agflBnoCount demo_superBlock = 118"
  "be_at 4 (demo_agf level) 0 = xfsAgfMagic" "be_at 4 demo_agi 0 = xfsAgiMagic" "be_at 4 demo_agfl 0 = xfsAgflMagic"
  "agf_Seqno (agf_of (demo_agf level)) = 0" "agf_Length (agf_of (demo_agf level)) = 33"
  "agf_Roots (agf_of (demo_agf level)) ! 0 = 32" "agf_Levels (agf_of (demo_agf level)) ! 0 = unat level"
  "agf_Flcount (agf_of (demo_agf level)) = 0"
  by (simp_all add: superBlock_of_eq demo_superBlock_def be_at_def demo_xfs_sb_def agflBnoCount_def hasCrc_def xfs_version_def
      sizeof_agfl_def demo_agf_def demo_agi_def demo_agfl_def agf_of_eq xfsSbMagic_def xfsAgfMagic_def xfsAgiMagic_def
      xfsAgflMagic_def le_replicate)

lemma demo_xfs_reads:
  assumes "length root = 64"
  shows "fresh_reader (x_fr (demo_xfs level root))" "fr_offset (x_fr (demo_xfs level root)) = 0"
    "bytes_at (x_fr (demo_xfs level root)) 0 superBlock_size = Some demo_xfs_sb"
    "seek_block (x_fr (demo_xfs level root)) 512 agf_size = Some (demo_agf level)"
    "seek_block (x_fr (demo_xfs level root)) 1024 agi_size = Some demo_agi"
    "seek_block (x_fr (demo_xfs level root)) 1536 agfl_size = Some demo_agfl"
    "bytes_at (x_fr (demo_xfs level root)) 1572 472 = Some (replicate 472 0)"
    "seek_block (x_fr (demo_xfs level root)) 2048 64 = Some root"
  using assms by (simp_all add: fresh_reader_def region_ok_def demo_xfs_def zero_parser_def bytes_at_def seek_block_def
      sizes_eq)
    (simp_all add: demo_xfs_volume_def)

lemma demo_xfs_offset: "ag_offset demo_superBlock 0 = 0"
  by (simp add: ag_offset_def)

lemma demo_xfs_header:
  assumes "length root = 64"
  shows "ag_header (x_fr (demo_xfs level root)) demo_superBlock 118 0 = Some (agf_of (demo_agf level), map (\<lambda>i. be_at 4 (replicate 472 0) (i * 4)) [0..<118])"
proof -
  have "sb_Sectsize demo_superBlock = 512" by (simp add: demo_superBlock_def)
  moreover have "bytes_at (x_fr (demo_xfs level root)) (1536 + int agfl_size) 472 = Some (replicate 472 0)"
    using demo_xfs_reads(7) [OF assms] by (simp add: sizes_eq)
  ultimately show ?thesis using demo_xfs_reads [OF assms] demo_xfs_fields
    by (simp add: ag_header_def Let_def demo_xfs_offset)
qed

section \<open>Properties\<close>

text \<open>
  C30.  When the XFS parser returns a bitmap, it has one bit per data block of the volume, and a block
  is unmarked exactly when it is named by the free list of an allocation group or lies in an extent
  that a leaf of the group's tree records, where the trees are those that can be reached through
  readable blocks from the roots.
\<close>

theorem xfs_marks_used:
  assumes "roaring_ok R" "fresh_reader (x_fr p)" "xfs_Dump k R p = Some (p', Ret b)"
  shows "\<exists>d sb. bytes_at (x_fr p) (fr_offset (x_fr p)) superBlock_size = Some d \<and> sb = superBlock_of d
     \<and> Bits b = i64 (int (sb_Dblocks sb))
     \<and> (\<forall>c. IsSet R b c \<longleftrightarrow> int c < i64 (int (sb_Dblocks sb)) \<and>
          \<not> (\<exists>a < sb_Agcount sb. \<exists>ag arr. ag_header (x_fr p) sb (agflBnoCount sb) a = Some (ag, arr) \<and>
               (c \<in> list_blocks sb a ag arr \<or>
                (\<exists>e. tree_rec (x_fr p) sb ag (ag_offset sb a) (agf_Roots ag ! 0) (int (agf_Levels ag ! 0)) e
                   \<and> c \<in> extent sb (agf_Seqno ag) e))))"
proof -
  let ?r = "x_fr p"
  obtain d where d: "bytes_at ?r (fr_offset ?r) superBlock_size = Some d" "be_at 4 d 0 = xfsSbMagic"
    by (rule xfs_Dump_Ret [OF assms(2,3)])
  let ?sb = "superBlock_of d"
  obtain r' where r': "same_region ?r r'" "xfs_Dump k R p = bindA (scan_ags k R (agflBnoCount ?sb) [0..<sb_Agcount ?sb])
        (\<lambda>_ p. Some (p, Ret (x_bitmap p))) (init_bitmap R d (p\<lparr>x_fr := r'\<rparr>))"
    by (rule xfs_Dump_start [OF assms(2) d])
  let ?p = "init_bitmap R d (p\<lparr>x_fr := r'\<rparr>)"
  note I = init_bitmap_ok [OF assms(1) _ r'(1), of d p]
  have reg: "region_ok ?r" using assms(2) by (simp add: fresh_reader_def)
  have s: "scan_ags k R (agflBnoCount ?sb) [0..<sb_Agcount ?sb] ?p = Some (p', Ret ())" "b = x_bitmap p'"
    using assms(3) r'(2) by (auto simp: bindA_Ret)
  have C: "\<forall>a \<in> set [0..<sb_Agcount ?sb]. ag_header ?r ?sb (agflBnoCount ?sb) a \<noteq> None"
    "cleared R ?r ?sb (\<Union>a \<in> set [0..<sb_Agcount ?sb]. ag_blocks ?r ?sb a (the (ag_header ?r ?sb (agflBnoCount ?sb) a))) ?p p'"
    using scan_ags_cleared [OF I(1) [OF reg] Agcount_bound s(1)] by auto
  have inv: "bm_inv R b" "Bits b = i64 (int (sb_Dblocks ?sb))"
    using C(2) I(3) [OF reg] s(2) by (simp_all add: cleared_def xfs_ok_def)
  have u: "used R b = {..<nat (i64 (int (sb_Dblocks ?sb)))}
      - (\<Union>a \<in> set [0..<sb_Agcount ?sb]. ag_blocks ?r ?sb a (the (ag_header ?r ?sb (agflBnoCount ?sb) a)))"
    using C(2) I(2) [OF reg] s(2) by (simp add: cleared_def)
  have free: "c \<in> ag_blocks ?r ?sb a (the (ag_header ?r ?sb (agflBnoCount ?sb) a)) \<longleftrightarrow>
      (\<exists>ag arr. ag_header ?r ?sb (agflBnoCount ?sb) a = Some (ag, arr) \<and>
               (c \<in> list_blocks ?sb a ag arr \<or>
                (\<exists>e. tree_rec ?r ?sb ag (ag_offset ?sb a) (agf_Roots ag ! 0) (int (agf_Levels ag ! 0)) e
                   \<and> c \<in> extent ?sb (agf_Seqno ag) e)))" if "a < sb_Agcount ?sb" for a c
  proof -
    have "ag_header ?r ?sb (agflBnoCount ?sb) a \<noteq> None" using C(1) that by auto
    then obtain ag arr where "ag_header ?r ?sb (agflBnoCount ?sb) a = Some (ag, arr)" by auto
    then show ?thesis by (auto simp: ag_blocks_def tree_blocks_def)
  qed
  have "IsSet R b c \<longleftrightarrow> int c < i64 (int (sb_Dblocks ?sb)) \<and>
      \<not> (\<exists>a < sb_Agcount ?sb. c \<in> ag_blocks ?r ?sb a (the (ag_header ?r ?sb (agflBnoCount ?sb) a)))" for c
    unfolding IsSet_used [OF inv(1)] u by (auto simp: nat_less_iff zless_nat_eq_int_zless)
  then show ?thesis using d(1) inv(2) free by (intro exI [of _ d] exI [of _ ?sb]) auto
qed

lemma demo_leaf_scan:
  "\<exists>p'. xfs_Dump 1 list_roaring (demo_xfs 1 demo_leaf) = Some (p', Ret (x_bitmap p'))"
proof -
  let ?p = "demo_xfs 1 demo_leaf" and ?ag = "agf_of (demo_agf 1)" and ?R = list_roaring
  have l: "length demo_leaf = 64" by simp
  note D = demo_xfs_reads [OF l, of 1] and H = demo_xfs_header [OF l, of 1]
  obtain r1 where r1: "same_region (x_fr ?p) r1" "xfs_Dump 1 ?R ?p = bindA (scan_ags 1 ?R 118 [0..<1])
        (\<lambda>_ p. Some (p, Ret (x_bitmap p))) (init_bitmap ?R demo_xfs_sb (?p\<lparr>x_fr := r1\<rparr>))"
    using xfs_Dump_start [of ?p demo_xfs_sb 1 ?R] D(1-3) demo_xfs_fields(1-3) by (auto simp: demo_superBlock_def)
  let ?q = "init_bitmap ?R demo_xfs_sb (?p\<lparr>x_fr := r1\<rparr>)"
  have ok: "xfs_ok ?R (x_fr ?p) demo_superBlock ?q"
    using init_bitmap_ok(1) [OF roaring_exact_ok [OF list_roaring_exact] _ r1(1), of demo_xfs_sb ?p] D(1) demo_xfs_fields(1)
    by (simp add: fresh_reader_def)
  obtain r2 where r2: "same_region (x_fr ?p) r2"
    "scan_ag 1 ?R 118 0 ?q = ag_walk 1 ?R demo_superBlock 0 (?ag, map (\<lambda>i. be_at 4 (replicate 472 0) (i * 4)) [0..<118]) (?q\<lparr>x_fr := r2\<rparr>)"
    using scan_ag_outcome [OF ok, of 1 0 118] H by (auto simp: ag_outcome_def)
  obtain r3 where r3: "scanSbtreeBno (Suc 0) ?R ?ag 0 32 1 (?q\<lparr>x_fr := r2\<rparr>) =
      scanFuncBno (scanSbtreeBno 0 ?R ?ag) ?R ?ag demo_leaf (1 - 1) (?q\<lparr>x_fr := r2\<rparr>\<lparr>x_fr := r3\<rparr>)"
  proof (rule scanSbtreeBno_step [OF xfs_ok_reader [OF ok r2(1)], of 0 ?ag 0 32 1], goal_cases)
    case (1 r')
    then show ?case using D(8) by (intro 1(1) [of r']) (simp add: demo_superBlock_def)
  qed
  have f: "be_at 4 demo_leaf 0 = xfsAbtbMagic" "be_at 4 demo_leaf 0 \<noteq> xfsAbtbCrcMagic" "be_at 2 demo_leaf 6 = 1"
    "be_at 4 demo_leaf 16 = 5" "be_at 4 demo_leaf 20 = 2"
    by (simp_all add: be_at_def demo_leaf_def xfsAbtbMagic_def xfsAbtbCrcMagic_def)
  have "\<exists>p'. scanFuncBno (scanSbtreeBno 0 ?R ?ag) ?R ?ag demo_leaf (1 - 1) p = Some (p', Ret ())" for p
    using f demo_xfs_fields(8) by (simp add: scanFuncBno_def Let_def)
  then obtain p' where "scanSbtreeBno (Suc 0) ?R ?ag 0 32 1 (?q\<lparr>x_fr := r2\<rparr>) = Some (p', Ret ())" using r3 by metis
  then have "ag_walk 1 ?R demo_superBlock 0 (?ag, arr) (?q\<lparr>x_fr := r2\<rparr>) = Some (p', Ret ())" for arr
    using demo_xfs_fields(9,10,11) [of 1] by (simp add: ag_walk_def bindA_def wrapA_def scanFreeList_def demo_xfs_offset del: scanSbtreeBno.simps)
  then show ?thesis using r1(2) r2(2) by (auto simp: bindA_def retA_def)
qed

theorem xfs_marks_used_witness:
  "\<exists>p' b. xfs_Dump 1 list_roaring (demo_xfs 1 demo_leaf) = Some (p', Ret b) \<and> Bits b = 33 \<and> \<not> IsSet list_roaring b 6"
proof -
  let ?p = "demo_xfs 1 demo_leaf" and ?ag = "agf_of (demo_agf 1)"
  have l: "length demo_leaf = 64" by simp
  note D = demo_xfs_reads [OF l, of 1] and H = demo_xfs_header [OF l, of 1]
  obtain p' where p': "xfs_Dump 1 list_roaring ?p = Some (p', Ret (x_bitmap p'))" using demo_leaf_scan by blast
  obtain d sb where S: "bytes_at (x_fr ?p) (fr_offset (x_fr ?p)) superBlock_size = Some d" "sb = superBlock_of d"
    "Bits (x_bitmap p') = i64 (int (sb_Dblocks sb))"
    "\<forall>c. IsSet list_roaring (x_bitmap p') c \<longleftrightarrow> int c < i64 (int (sb_Dblocks sb)) \<and>
          \<not> (\<exists>a < sb_Agcount sb. \<exists>ag arr. ag_header (x_fr ?p) sb (agflBnoCount sb) a = Some (ag, arr) \<and>
               (c \<in> list_blocks sb a ag arr \<or>
                (\<exists>e. tree_rec (x_fr ?p) sb ag (ag_offset sb a) (agf_Roots ag ! 0) (int (agf_Levels ag ! 0)) e
                   \<and> c \<in> extent sb (agf_Seqno ag) e)))"
    using xfs_marks_used [OF roaring_exact_ok [OF list_roaring_exact] D(1) p'] by blast
  have sb: "sb = demo_superBlock" "sb_Dblocks sb = 33" "sb_Agcount sb = 1" "agflBnoCount sb = 118"
    using S(1,2) D(2,3) demo_xfs_fields(1,3) by (simp_all add: demo_superBlock_def)
  have "node (x_fr ?p) sb 0 32 = Some (demo_leaf, 16, 1)"
    using D(8) sb(1) by (simp add: node_def demo_superBlock_def be_at_def demo_leaf_def xfsAbtbMagic_def xfsAbtbCrcMagic_def)
  then have "tree_rec (x_fr ?p) sb ?ag 0 32 1 (rec_of demo_leaf 16 0)" by (rule tree_rec.leaf) simp
  moreover have "rec_of demo_leaf 16 0 = (5, 2)" by (simp add: rec_of_def be_at_def demo_leaf_def)
  ultimately have "tree_rec (x_fr ?p) sb ?ag 0 32 1 (5, 2)" "6 \<in> extent sb 0 (5, 2)" by (simp_all add: extent_def)
  then have "\<not> IsSet list_roaring (x_bitmap p') 6"
    using S(4) sb H demo_xfs_fields(7,9,10) [of 1] demo_xfs_offset by auto
  then show ?thesis using p' S(3) sb(2) by auto
qed

text \<open>
  C31.  The walk over the trees ends: when no group claims a tree without levels, \<open>Dump\<close> returns after a
  recursion no deeper than the largest number of levels a group can state.
\<close>

theorem xfs_dump_ends:
  assumes "roaring_ok R" "fresh_reader (x_fr p)"
    "\<forall>d a ag arr. bytes_at (x_fr p) (fr_offset (x_fr p)) superBlock_size = Some d \<longrightarrow> a < sb_Agcount (superBlock_of d)
        \<longrightarrow> ag_header (x_fr p) (superBlock_of d) (agflBnoCount (superBlock_of d)) a = Some (ag, arr) \<longrightarrow> agf_Levels ag ! 0 \<noteq> 0"
  shows "\<exists>p' res. xfs_Dump (2 ^ 32) R p = Some (p', res)"
proof (cases "\<exists>d. bytes_at (x_fr p) (fr_offset (x_fr p)) superBlock_size = Some d \<and> be_at 4 d 0 = xfsSbMagic")
  case False
  obtain r' res where f: "read_full (superBlock_size + 1) (x_fr p) superBlock_size [] = Some (r', res)"
    "case bytes_at (x_fr p) (fr_offset (x_fr p)) superBlock_size of Some d \<Rightarrow> res = Ret d \<and> sr_off r' = sr_off (x_fr p) + int superBlock_size
       | None \<Rightarrow> (\<exists>e. res = Fail e)"
    using read_full_bytes [of "x_fr p" superBlock_size] fresh_readerD [OF assms(2)] assms(2) by (auto simp: fresh_reader_def)
  then show ?thesis using False
    by (auto simp: xfs_Dump_def bindA_def wrapA_def wrapG_def fr_ReadFull_def retA_def split: option.splits)
next
  case True
  let ?r = "x_fr p"
  obtain d where d: "bytes_at ?r (fr_offset ?r) superBlock_size = Some d" "be_at 4 d 0 = xfsSbMagic" using True by blast
  let ?sb = "superBlock_of d"
  obtain r' where r': "same_region ?r r'" "xfs_Dump (2 ^ 32) R p = bindA (scan_ags (2 ^ 32) R (agflBnoCount ?sb) [0..<sb_Agcount ?sb])
        (\<lambda>_ p. Some (p, Ret (x_bitmap p))) (init_bitmap R d (p\<lparr>x_fr := r'\<rparr>))"
    by (rule xfs_Dump_start [OF assms(2) d])
  have L: "1 \<le> agf_Levels ag ! 0 \<and> agf_Levels ag ! 0 \<le> 2 ^ 32" if h: "a < sb_Agcount ?sb" "ag_header ?r ?sb (agflBnoCount ?sb) a = Some (ag, arr)" for a ag arr
  proof -
    obtain d1 where "ag = agf_of d1" using h(2) by (auto simp: ag_header_def Let_def split: option.splits if_splits)
    then have "agf_Levels ag ! 0 < 4294967296" by (simp add: agf_of_eq)
    moreover have "agf_Levels ag ! 0 \<noteq> 0" using assms(3) d(1) h by blast
    ultimately show ?thesis by simp
  qed
  have reg: "region_ok ?r" using assms(2) by (simp add: fresh_reader_def)
  have "scan_ags (2 ^ 32) R (agflBnoCount ?sb) [0..<sb_Agcount ?sb] (init_bitmap R d (p\<lparr>x_fr := r'\<rparr>)) \<noteq> None"
    by (rule scan_ags_returns [OF init_bitmap_ok(1) [OF assms(1) reg r'(1)] Agcount_bound]) (use L in auto)
  then show ?thesis unfolding r'(2) by (auto simp: bindA_def split: go.splits)
qed

theorem xfs_dump_ends_witness:
  "\<exists>p' res. xfs_Dump (2 ^ 32) list_roaring (demo_xfs 1 demo_leaf) = Some (p', res)"
proof (rule xfs_dump_ends [OF roaring_exact_ok [OF list_roaring_exact]])
  have l: "length demo_leaf = 64" by simp
  show "fresh_reader (x_fr (demo_xfs 1 demo_leaf))" by (rule demo_xfs_reads(1) [OF l])
  show "\<forall>d a ag arr. bytes_at (x_fr (demo_xfs 1 demo_leaf)) (fr_offset (x_fr (demo_xfs 1 demo_leaf))) superBlock_size = Some d
     \<longrightarrow> a < sb_Agcount (superBlock_of d)
     \<longrightarrow> ag_header (x_fr (demo_xfs 1 demo_leaf)) (superBlock_of d) (agflBnoCount (superBlock_of d)) a = Some (ag, arr)
     \<longrightarrow> agf_Levels ag ! 0 \<noteq> 0"
    using demo_xfs_reads(2,3) [OF l, of 1] demo_xfs_header [OF l, of 1] demo_xfs_fields(1,3) demo_xfs_fields(10) [of 1]
    by (auto simp: demo_superBlock_def [THEN arg_cong, of sb_Agcount])
qed

text \<open>
  C32.  A tree that claims to have no level is walked below level zero: when its root is its own first
  child the recursion of \<open>scanSbtreeBno\<close> and \<open>scanFuncBno\<close> never ends.
\<close>

theorem xfs_endless_recursion:
  assumes "roaring_ok R" "fresh_reader (x_fr p)"
    "bytes_at (x_fr p) (fr_offset (x_fr p)) superBlock_size = Some d" "be_at 4 d 0 = xfsSbMagic" "0 < sb_Agcount (superBlock_of d)"
    "ag_header (x_fr p) (superBlock_of d) (agflBnoCount (superBlock_of d)) 0 = Some (ag, arr)"
    "agf_Seqno ag = 0" "agf_Levels ag ! 0 = 0" "self_child (x_fr p) (superBlock_of d) ag (agf_Roots ag ! 0)"
  shows "xfs_Dump k R p = None"
proof -
  let ?r = "x_fr p" and ?sb = "superBlock_of d"
  obtain r' where r': "same_region ?r r'" "xfs_Dump k R p = bindA (scan_ags k R (agflBnoCount ?sb) [0..<sb_Agcount ?sb])
        (\<lambda>_ p. Some (p, Ret (x_bitmap p))) (init_bitmap R d (p\<lparr>x_fr := r'\<rparr>))"
    by (rule xfs_Dump_start [OF assms(2-4)])
  let ?p = "init_bitmap R d (p\<lparr>x_fr := r'\<rparr>)"
  have ok: "xfs_ok R ?r ?sb ?p" using init_bitmap_ok(1) [OF assms(1) _ r'(1)] assms(2) by (simp add: fresh_reader_def)
  obtain r2 where r2: "same_region ?r r2" "scan_ag k R (agflBnoCount ?sb) 0 ?p = ag_walk k R ?sb 0 (ag, arr) (?p\<lparr>x_fr := r2\<rparr>)"
    using scan_ag_outcome [OF ok, of k 0 "agflBnoCount ?sb"] assms(6) by (auto simp: ag_outcome_def)
  obtain q where q: "scanFreeList R 0 ag arr (?p\<lparr>x_fr := r2\<rparr>) = Some (q, Ret ())" "xfs_ok R ?r ?sb q"
    using scanFreeList_cleared [OF xfs_ok_reader [OF ok r2(1)] _ ag_header_bounds(2) [OF assms(6)], of 0 ag] by (auto simp: cleared_def)
  have "scanSbtreeBno k R ag (ag_offset ?sb 0) (agf_Roots ag ! 0) (int (agf_Levels ag ! 0)) q = None"
    using scanSbtreeBno_endless [OF assms(9) q(2), of "int (agf_Levels ag ! 0)" k] assms(7,8) by simp
  then have "scan_ag k R (agflBnoCount ?sb) 0 ?p = None" using r2(2) q(1) by (simp add: ag_walk_def bindA_def wrapA_def)
  moreover have "[0..<sb_Agcount ?sb] = 0 # [1..<sb_Agcount ?sb]" using assms(5) by (simp add: upt_conv_Cons)
  ultimately show ?thesis unfolding r'(2) by (simp add: bindA_def)
qed

theorem xfs_endless_recursion_witness: "\<forall>k. xfs_Dump k list_roaring (demo_xfs 0 demo_loop) = None"
proof
  fix k
  have l: "length demo_loop = 64" by simp
  note D = demo_xfs_reads [OF l, of 0] and H = demo_xfs_header [OF l, of 0]
  have "node (x_fr (demo_xfs 0 demo_loop)) demo_superBlock 0 32 = Some (demo_loop, 16, 1)"
    using D(8) by (simp add: node_def demo_superBlock_def be_at_def demo_loop_def xfsAbtbMagic_def xfsAbtbCrcMagic_def)
  moreover have "ptr_of demo_superBlock demo_loop 16 0 = 32"
    by (simp add: ptr_of_def demo_superBlock_def allocBtreeMaxRecs_def be_at_def demo_loop_def)
  ultimately have "self_child (x_fr (demo_xfs 0 demo_loop)) demo_superBlock (agf_of (demo_agf 0)) 32"
    using demo_xfs_fields(7) [of 0] by (simp add: self_child_def demo_xfs_offset allocBtreeMaxRecs_def, simp add: demo_superBlock_def)
  moreover have "sb_Agcount demo_superBlock = 1" by (simp add: demo_superBlock_def)
  ultimately show "xfs_Dump k list_roaring (demo_xfs 0 demo_loop) = None"
    using D(1-3) H demo_xfs_fields(1-3) demo_xfs_fields(7,9,10) [of 0]
    by (intro xfs_endless_recursion [OF roaring_exact_ok [OF list_roaring_exact], of _ demo_xfs_sb "agf_of (demo_agf 0)"]) simp_all
qed

end
