(* ===== verification/LinkedList.thy ===== *)
theory LinkedList
  imports Prelude
begin

text \<open>
  The doubly linked list of the qcow2 caches (\<^verbatim>\<open>src/disk/image/qcow2/linked_list.go\<close>).  The cells live in
  an explicit store: a pointer is a position of \<open>ll_cells\<close>, \<open>nil\<close> is \<open>None\<close>, and \<open>newCell\<close> appends.
  Cells that are unlinked stay in the store, as they do for a caller that still holds a pointer.
  \<open>None\<close> as the result of an operation is the panic of a nil dereference or of an index out of range.
  The invariant \<open>dll\<close> relates the store to the list of pointers from head to tail, and the locale
  \<open>pointer_queue\<close> states what the cache relies on.
\<close>

section \<open>The list\<close>

record 'a linkedListCell =
  cell_value :: 'a
  cell_next :: "nat option"
  cell_previous :: "nat option"

record 'a linkedList =
  ll_head :: "nat option"
  ll_size :: nat
  ll_tail :: "nat option"
  ll_cells :: "'a linkedListCell list"

definition newLinkedList :: "'a linkedList" where
  "newLinkedList = \<lparr>ll_head = None, ll_size = 0, ll_tail = None, ll_cells = []\<rparr>"

definition newCell :: "'a \<Rightarrow> 'a linkedListCell list \<Rightarrow> nat \<times> 'a linkedListCell list" where
  "newCell v h = (length h, h @ [\<lparr>cell_value = v, cell_next = None, cell_previous = None\<rparr>])"

definition put_next :: "nat \<Rightarrow> nat option \<Rightarrow> 'a linkedListCell list \<Rightarrow> 'a linkedListCell list" where
  "put_next p n h = h[p := (h ! p)\<lparr>cell_next := n\<rparr>]"

definition put_previous :: "nat \<Rightarrow> nat option \<Rightarrow> 'a linkedListCell list \<Rightarrow> 'a linkedListCell list" where
  "put_previous p n h = h[p := (h ! p)\<lparr>cell_previous := n\<rparr>]"

definition setNext :: "nat \<Rightarrow> nat \<Rightarrow> 'a linkedListCell list \<Rightarrow> 'a linkedListCell list" where
  "setNext cell nxt h = put_previous nxt (Some cell) (put_next cell (Some nxt) h)"

definition addRear :: "'a linkedList \<Rightarrow> 'a \<Rightarrow> 'a linkedList \<times> nat" where
  "addRear l element =
     (let (cell, h) = newCell element (ll_cells l) in
      case ll_tail l of
        None \<Rightarrow> (l\<lparr>ll_head := Some cell, ll_tail := Some cell, ll_size := 1, ll_cells := h\<rparr>, cell)
      | Some t \<Rightarrow>
          (l\<lparr>ll_cells := setNext t cell h, ll_tail := Some cell, ll_size := u64 (ll_size l + 1)\<rparr>, cell))"

definition removeFront :: "'a linkedList \<Rightarrow> ('a linkedList \<times> 'a result) option" where
  "removeFront l =
     (if ll_size l = 0 then Some (l, Inl (Errorf ''can't remove from an empty list'' []))
      else case ll_head l of
        None \<Rightarrow> None
      | Some p \<Rightarrow>
          let returnValue = cell_value (ll_cells l ! p) in
          if ll_size l = 1 then Some (l\<lparr>ll_tail := None, ll_head := None, ll_size := 0\<rparr>, Inr returnValue)
          else (case cell_next (ll_cells l ! p) of
                  None \<Rightarrow> None
                | Some q \<Rightarrow>
                    Some (l\<lparr>ll_head := Some q, ll_cells := put_previous q None (ll_cells l),
                            ll_size := ll_size l - 1\<rparr>, Inr returnValue)))"

text \<open>The pointers that callers pass come from \<open>addRear\<close> and are never nil.\<close>

definition removeByPointer :: "'a linkedList \<Rightarrow> nat \<Rightarrow> 'a linkedList \<times> 'a result" where
  "removeByPointer l pointer =
     (if ll_size l = 0 then (l, Inl (Errorf ''attempt to delete from an empty list'' []))
      else
        let nxt = cell_next (ll_cells l ! pointer); prev = cell_previous (ll_cells l ! pointer) in
        if nxt = None \<and> prev = None \<and> ll_size l \<noteq> 1
        then (l, Inl (Errorf ''broken list, head and tail are the same, but list size is %d'' [FInt (int (ll_size l))]))
        else
          let l1 = (case prev of
                      Some q \<Rightarrow> l\<lparr>ll_cells := put_next q nxt (ll_cells l)\<rparr>
                    | None \<Rightarrow> l\<lparr>ll_head := nxt\<rparr>);
              l2 = (case nxt of
                      Some q \<Rightarrow> l1\<lparr>ll_cells := put_previous q prev (ll_cells l1)\<rparr>
                    | None \<Rightarrow> l1\<lparr>ll_tail := prev\<rparr>)
          in (l2\<lparr>ll_size := ll_size l2 - 1\<rparr>, Inr (cell_value (ll_cells l ! pointer))))"

text \<open>
  The loop of \<open>content\<close>; \<open>n\<close> is the number of free places of the result, so a cyclic list panics,
  and \<open>zero\<close> is the zero value of the element type, which fills the places a short list leaves.
\<close>

fun content_from :: "nat \<Rightarrow> 'a \<Rightarrow> 'a linkedList \<Rightarrow> nat \<Rightarrow> 'a list option" where
  "content_from 0 zero l item = None"
| "content_from (Suc n) zero l item =
     (case cell_next (ll_cells l ! item) of
        Some q \<Rightarrow> map_option (\<lambda>vs. cell_value (ll_cells l ! item) # vs) (content_from n zero l q)
      | None \<Rightarrow> (case ll_tail l of
                   None \<Rightarrow> None
                 | Some t \<Rightarrow> Some (cell_value (ll_cells l ! t) # replicate n zero)))"

definition content :: "'a \<Rightarrow> 'a linkedList \<Rightarrow> 'a list option" where
  "content zero l =
     (if ll_size l = 0 then Some []
      else case ll_head l of None \<Rightarrow> None | Some p \<Rightarrow> content_from (ll_size l) zero l p)"

section \<open>Segments of the store\<close>

definition hd_or :: "nat list \<Rightarrow> nat option \<Rightarrow> nat option" where
  "hd_or ps n = (case ps of [] \<Rightarrow> n | p # _ \<Rightarrow> Some p)"

definition last_or :: "nat option \<Rightarrow> nat list \<Rightarrow> nat option" where
  "last_or n ps = (if ps = [] then n else Some (last ps))"

lemma ends [simp]:
  "hd_or [] n = n" "hd_or (p # ps) n = Some p" "last_or n [] = n" "last_or n (p # ps) = last_or (Some p) ps"
  by (simp_all add: hd_or_def last_or_def)

lemma hd_or_append [simp]: "hd_or (xs @ ys) n = hd_or xs (hd_or ys n)"
  by (cases xs) simp_all

lemma last_or_append [simp]: "last_or n (xs @ ys) = last_or (last_or n xs) ys"
  by (simp add: last_or_def)

text \<open>The pointers \<open>ps\<close> are linked in this order, between the neighbours \<open>pr\<close> and \<open>nx\<close>.\<close>

fun seg :: "'a linkedListCell list \<Rightarrow> nat option \<Rightarrow> nat list \<Rightarrow> nat option \<Rightarrow> bool" where
  "seg h pr [] nx = True"
| "seg h pr (p # ps) nx =
     (p < length h \<and> cell_previous (h ! p) = pr \<and> cell_next (h ! p) = hd_or ps nx \<and> seg h (Some p) ps nx)"

lemma seg_append: "seg h pr (xs @ ys) nx \<longleftrightarrow> seg h pr xs (hd_or ys nx) \<and> seg h (last_or pr xs) ys nx"
proof (induction xs arbitrary: pr)
  case (Cons x xs)
  then show ?case by simp
qed simp

lemma seg_frame: "seg h pr ps nx \<Longrightarrow> (\<And>p. p \<in> set ps \<Longrightarrow> p < length h' \<and> h' ! p = h ! p) \<Longrightarrow> seg h' pr ps nx"
  by (induction ps arbitrary: pr) auto

lemma seg_bound: "seg h pr ps nx \<Longrightarrow> p \<in> set ps \<Longrightarrow> p < length h"
  by (induction ps arbitrary: pr) auto

lemma put_simps [simp]:
  "length (put_next p n h) = length h" "length (put_previous p n h) = length h"
  "q \<noteq> p \<Longrightarrow> put_next p n h ! q = h ! q" "q \<noteq> p \<Longrightarrow> put_previous p n h ! q = h ! q"
  "p < length h \<Longrightarrow> put_next p n h ! p = (h ! p)\<lparr>cell_next := n\<rparr>"
  "p < length h \<Longrightarrow> put_previous p n h ! p = (h ! p)\<lparr>cell_previous := n\<rparr>"
  by (simp_all add: put_next_def put_previous_def)

lemma put_value [simp]:
  "cell_value (put_next p n h ! q) = cell_value (h ! q)" "cell_value (put_previous p n h ! q) = cell_value (h ! q)"
proof -
  have u: "cell_value (h[p := x] ! q) = cell_value (h ! q)" if "cell_value x = cell_value (h ! p)" for x
    using that by (cases "p < length h") (auto simp: nth_list_update list_update_beyond)
  show "cell_value (put_next p n h ! q) = cell_value (h ! q)" "cell_value (put_previous p n h ! q) = cell_value (h ! q)"
    unfolding put_next_def put_previous_def by (rule u, simp)+
qed

lemma seg_put_other:
  assumes "seg h pr ps nx" "q \<notin> set ps"
  shows "seg (put_next q n h) pr ps nx" "seg (put_previous q n h) pr ps nx"
  by (rule seg_frame [OF assms(1)]; use assms in \<open>metis put_simps(1-4) seg_bound\<close>)+

lemma seg_put_next:
  assumes "seg h pr (xs @ [x]) nx" "distinct (xs @ [x])"
  shows "seg (put_next x n h) pr (xs @ [x]) n"
proof -
  have "seg (put_next x n h) pr xs (Some x)"
    by (rule seg_put_other) (use assms in \<open>simp_all add: seg_append\<close>)
  then show ?thesis using assms by (simp add: seg_append)
qed

lemma seg_put_previous:
  assumes "seg h pr (y # ys) nx" "y \<notin> set ys"
  shows "seg (put_previous y n h) n (y # ys) nx"
proof -
  have "seg (put_previous y n h) (Some y) ys nx"
    by (rule seg_put_other) (use assms in simp_all)
  then show ?thesis using assms by simp
qed

text \<open>Unlinking the cell between two segments.\<close>

definition unlink :: "nat list \<Rightarrow> nat list \<Rightarrow> 'a linkedListCell list \<Rightarrow> 'a linkedListCell list" where
  "unlink xs ys h =
     (let h1 = (case last_or None xs of None \<Rightarrow> h | Some q \<Rightarrow> put_next q (hd_or ys None) h)
      in case hd_or ys None of None \<Rightarrow> h1 | Some q \<Rightarrow> put_previous q (last_or None xs) h1)"

lemma unlink_frame [simp]: "length (unlink xs ys h) = length h" "cell_value (unlink xs ys h ! q) = cell_value (h ! q)"
  by (simp_all add: unlink_def Let_def split: option.split)

lemma seg_unlink:
  assumes s: "seg h None (xs @ p # ys) None" and d: "distinct (xs @ p # ys)"
  shows "seg (unlink xs ys h) None (xs @ ys) None"
proof -
  have sx: "seg h None xs (Some p)" and sy: "seg h (Some p) ys None" using s by (simp_all add: seg_append)
  define h1 where "h1 = (case last_or None xs of None \<Rightarrow> h | Some q \<Rightarrow> put_next q (hd_or ys None) h)"
  have x1: "seg h1 None xs (hd_or ys None)"
  proof (cases xs rule: rev_cases)
    case (snoc zs z)
    then show ?thesis using seg_put_next [of h None zs z] sx d by (simp add: h1_def)
  qed simp
  have y1: "seg h1 (Some p) ys None"
  proof (cases xs rule: rev_cases)
    case (snoc zs z)
    then have "z \<notin> set ys" using d by simp
    then show ?thesis using sy snoc by (simp add: h1_def seg_put_other)
  qed (use sy in \<open>simp add: h1_def\<close>)
  have u: "unlink xs ys h = (case hd_or ys None of None \<Rightarrow> h1 | Some q \<Rightarrow> put_previous q (last_or None xs) h1)"
    unfolding unlink_def h1_def Let_def ..
  show ?thesis
  proof (cases ys)
    case Nil
    then show ?thesis using x1 u by simp
  next
    case (Cons y ys')
    then have "y \<notin> set xs" "y \<notin> set ys'" using d by auto
    then show ?thesis using x1 y1 u Cons seg_put_other(2) [OF x1, of y] seg_put_previous [of h1 "Some p" y ys']
      by (simp add: seg_append)
  qed
qed

section \<open>The invariant\<close>

definition dll :: "'a linkedList \<Rightarrow> nat list \<Rightarrow> bool" where
  "dll l ps \<longleftrightarrow> distinct ps \<and> seg (ll_cells l) None ps None \<and> ll_head l = hd_or ps None \<and> ll_tail l = last_or None ps
     \<and> ll_size l = length ps \<and> length ps < 2 ^ 64"

definition ptr_value :: "'a linkedList \<Rightarrow> nat \<Rightarrow> 'a" where
  "ptr_value l p = cell_value (ll_cells l ! p)"

lemma dll_unique: "dll l ps \<Longrightarrow> dll l qs \<Longrightarrow> ps = qs"
proof -
  have "seg h pr ps None \<Longrightarrow> seg h pr qs None \<Longrightarrow> hd_or ps None = hd_or qs None \<Longrightarrow> ps = qs"
    for h :: "'a linkedListCell list" and pr
  proof (induction ps arbitrary: pr qs)
    case Nil
    then show ?case by (cases qs) auto
  next
    case (Cons p ps)
    then show ?case by (cases qs) auto
  qed
  then show "dll l ps \<Longrightarrow> dll l qs \<Longrightarrow> ps = qs" by (auto simp: dll_def)
qed

lemma dll_new: "dll newLinkedList []"
  by (simp add: dll_def newLinkedList_def)

lemma dll_bound: "dll l ps \<Longrightarrow> p \<in> set ps \<Longrightarrow> p < length (ll_cells l)"
  by (auto simp: dll_def dest: seg_bound)

lemma addRear_dll:
  assumes d: "dll l ps" and len: "Suc (length ps) < 2 ^ 64"
  shows "dll (fst (addRear l v)) (ps @ [snd (addRear l v)])"
    "ptr_value (fst (addRear l v)) (snd (addRear l v)) = v"
    "p \<in> set ps \<Longrightarrow> ptr_value (fst (addRear l v)) p = ptr_value l p"
proof -
  let ?c = "length (ll_cells l)"
  let ?h = "ll_cells l @ [\<lparr>cell_value = v, cell_next = None, cell_previous = None\<rparr>]"
  have f: "?c \<notin> set ps" using d by (auto dest: dll_bound)
  have s: "seg ?h None ps None" 
    by (rule seg_frame [of "ll_cells l"]) (use d in \<open>auto simp: dll_def nth_append dest: seg_bound\<close>)
  have P: "dll (fst (addRear l v)) (ps @ [snd (addRear l v)])
     \<and> (\<forall>p \<le> ?c. ptr_value (fst (addRear l v)) p = cell_value (?h ! p)) \<and> snd (addRear l v) = ?c"
  proof (cases ps rule: rev_cases)
    case Nil
    then show ?thesis using d by (simp add: dll_def addRear_def newCell_def ptr_value_def)
  next
    case (snoc zs t)
    then have t: "ll_tail l = Some t" "t \<noteq> ?c" "t < length ?h" using d f by (auto simp: dll_def dest: seg_bound)
    have "seg (put_next t (Some ?c) ?h) None (zs @ [t]) (Some ?c)"
      using seg_put_next [of ?h None zs t] s d snoc by (simp add: dll_def)
    then have "seg (setNext t ?c ?h) None ps (Some ?c)"
      using seg_put_other(2) [of _ None ps "Some ?c" ?c] f snoc by (simp add: setNext_def)
    moreover have "seg (setNext t ?c ?h) (Some t) [?c] None" using t by (simp add: setNext_def)
    ultimately have "seg (setNext t ?c ?h) None (ps @ [?c]) None" using snoc by (subst seg_append) simp
    moreover have "hd_or ps None = hd_or ps (Some ?c)" using snoc by (cases ps) simp_all
    moreover have "addRear l v
        = (l\<lparr>ll_cells := setNext t ?c ?h, ll_tail := Some ?c, ll_size := u64 (ll_size l + 1)\<rparr>, ?c)"
      using t(1) by (simp add: addRear_def newCell_def)
    ultimately show ?thesis
      using d f len by (simp add: dll_def ptr_value_def u64_small) (simp add: setNext_def)
  qed
  then show "dll (fst (addRear l v)) (ps @ [snd (addRear l v)])"
    "ptr_value (fst (addRear l v)) (snd (addRear l v)) = v" by (blast, simp)
  show "ptr_value (fst (addRear l v)) p = ptr_value l p" if "p \<in> set ps"
    using P dll_bound [OF d that] by (simp add: ptr_value_def nth_append)
qed

lemma removeByPointer_dll:
  assumes d: "dll l (xs @ p # ys)"
  shows "\<exists>l'. removeByPointer l p = (l', Inr (ptr_value l p)) \<and> dll l' (xs @ ys) \<and> ptr_value l' = ptr_value l"
proof -
  let ?h = "ll_cells l"
  have s: "seg ?h None (xs @ p # ys) None" "distinct (xs @ p # ys)" using d by (simp_all add: dll_def)
  then have c: "cell_next (?h ! p) = hd_or ys None" "cell_previous (?h ! p) = last_or None xs"
    by (simp_all add: seg_append)
  have u: "seg (unlink xs ys ?h) None (xs @ ys) None" using s by (rule seg_unlink)
  have one: "ll_size l = Suc (length xs + length ys)" using d by (simp add: dll_def)
  have ok: "\<not> (hd_or ys None = None \<and> last_or None xs = None \<and> ll_size l \<noteq> 1)"
    using one by (auto simp: hd_or_def last_or_def split: list.splits if_splits)
  let ?l = "l\<lparr>ll_cells := unlink xs ys ?h, ll_size := length xs + length ys, ll_head := hd_or (xs @ ys) None,
              ll_tail := last_or None (xs @ ys)\<rparr>"
  have ht: "ll_head l = hd_or (xs @ [p]) None" "ll_tail l = last_or None (p # ys)"
    using d by (simp_all add: dll_def)
  have "removeByPointer l p = (?l, Inr (ptr_value l p))"
    unfolding removeByPointer_def c Let_def if_not_P [OF ok]
    using ht by (cases xs rule: rev_cases; cases ys)
      (auto simp: one unlink_def Let_def ptr_value_def intro!: linkedList.equality)
  moreover have "dll ?l (xs @ ys)" using u s d by (auto simp: dll_def)
  moreover have "ptr_value ?l = ptr_value l" by (simp add: ptr_value_def fun_eq_iff)
  ultimately show ?thesis by blast
qed

lemma removeFront_dll:
  assumes d: "dll l (p # ps)"
  shows "\<exists>l'. removeFront l = Some (l', Inr (ptr_value l p)) \<and> dll l' ps \<and> ptr_value l' = ptr_value l"
proof (cases ps)
  case Nil
  then show ?thesis using d by (simp add: dll_def removeFront_def ptr_value_def fun_eq_iff)
next
  case (Cons q qs)
  have "seg (put_previous q None (ll_cells l)) None (q # qs) None"
    using d Cons by (intro seg_put_previous [of _ "Some p"]) (auto simp: dll_def)
  then show ?thesis using d Cons by (auto simp: dll_def removeFront_def ptr_value_def fun_eq_iff last_or_def)
qed

lemma removeFront_empty: "dll l [] \<Longrightarrow> removeFront l = Some (l, Inl (Errorf ''can't remove from an empty list'' []))"
  by (simp add: dll_def removeFront_def)

lemma content_dll:
  assumes "dll l ps"
  shows "content zero l = Some (map (ptr_value l) ps)"
proof -
  have "seg (ll_cells l) pr (p # qs) None \<Longrightarrow> ll_tail l = last_or None (p # qs) \<Longrightarrow>
      content_from (Suc (length qs)) zero l p = Some (map (ptr_value l) (p # qs))" for pr p qs
    by (induction qs arbitrary: pr p) (simp_all add: ptr_value_def last_or_def)
  then show ?thesis using assms by (cases ps) (auto simp: content_def dll_def)
qed

section \<open>What the cache relies on\<close>

text \<open>
  A queue of keys whose elements are removed by pointer.  \<open>linked\<close> ties it to an index: every key of
  the index names its own cell of the queue, and every cell belongs to a key.
\<close>

record cacheMapEntry =
  ce_data :: nat
  ce_cell :: nat

locale pointer_queue =
  fixes inv :: "'q \<Rightarrow> nat list \<Rightarrow> bool"
    and val :: "'q \<Rightarrow> nat \<Rightarrow> 'k"
    and add :: "'q \<Rightarrow> 'k \<Rightarrow> 'q \<times> nat"
    and front :: "'q \<Rightarrow> ('q \<times> 'k result) option"
    and del :: "'q \<Rightarrow> nat \<Rightarrow> 'q \<times> 'k result"
  assumes inv_distinct: "inv q ps \<Longrightarrow> distinct ps"
    and add_inv: "inv q ps \<Longrightarrow> Suc (length ps) < 2 ^ 64 \<Longrightarrow> inv (fst (add q k)) (ps @ [snd (add q k)])"
    and add_val: "inv q ps \<Longrightarrow> Suc (length ps) < 2 ^ 64 \<Longrightarrow> val (fst (add q k)) (snd (add q k)) = k"
    and add_frame: "inv q ps \<Longrightarrow> Suc (length ps) < 2 ^ 64 \<Longrightarrow> p \<in> set ps \<Longrightarrow> val (fst (add q k)) p = val q p"
    and front_ok: "inv q (p # ps) \<Longrightarrow> \<exists>q'. front q = Some (q', Inr (val q p)) \<and> inv q' ps \<and> val q' = val q"
    and front_fails: "inv q [] \<Longrightarrow> \<exists>e. front q = Some (q, Inl e)"
    and del_ok: "inv q (xs @ p # ys) \<Longrightarrow> \<exists>q'. del q p = (q', Inr (val q p)) \<and> inv q' (xs @ ys) \<and> val q' = val q"
begin

definition linked :: "'q \<Rightarrow> ('k \<rightharpoonup> cacheMapEntry) \<Rightarrow> nat \<Rightarrow> nat list \<Rightarrow> bool" where
  "linked q M n ps \<longleftrightarrow> inv q ps \<and> distinct (map (val q) ps) \<and> dom M = val q ` set ps
     \<and> (\<forall>k e. M k = Some e \<longrightarrow> ce_cell e \<in> set ps \<and> val q (ce_cell e) = k \<and> ce_data e < n)
     \<and> inj_on (\<lambda>k. ce_data (the (M k))) (dom M)"

lemma linkedI:
  assumes "inv q ps" "distinct (map (val q) ps)" "dom M = val q ` set ps"
    "\<And>k e. M k = Some e \<Longrightarrow> ce_cell e \<in> set ps \<and> val q (ce_cell e) = k \<and> ce_data e < n"
    "inj_on (\<lambda>k. ce_data (the (M k))) (dom M)"
  shows "linked q M n ps"
  using assms unfolding linked_def by blast

lemma linked_entries: "linked q M n ps \<Longrightarrow> M k = Some e \<Longrightarrow> ce_cell e \<in> set ps \<and> val q (ce_cell e) = k \<and> ce_data e < n"
  unfolding linked_def by blast

lemma linked_inv: "linked q M n ps \<Longrightarrow> inv q ps"
  by (simp add: linked_def)

lemma linked_inj: "linked q M n ps \<Longrightarrow> inj_on (\<lambda>k. ce_data (the (M k))) (dom M)"
  unfolding linked_def by blast

lemma linked_mono: "linked q M n ps \<Longrightarrow> n \<le> m \<Longrightarrow> linked q M m ps"
  by (fastforce simp: linked_def)

lemma linked_card: "linked q M n ps \<Longrightarrow> card (dom M) = length ps"
  by (auto simp: linked_def card_image distinct_map distinct_card)

lemma linked_entry:
  assumes "linked q M n ps" "M k = Some e"
  obtains xs ys where "ps = xs @ ce_cell e # ys" "val q (ce_cell e) = k" "ce_data e < n"
proof -
  have "ce_cell e \<in> set ps" "val q (ce_cell e) = k" "ce_data e < n" using assms by (auto simp: linked_def)
  then show ?thesis using that by (meson split_list)
qed

lemma linked_without:
  assumes l: "linked q M n (xs @ p # ys)" and i: "inv q' (xs @ ys)" "val q' = val q"
  shows "linked q' (M(val q p := None)) n (xs @ ys)"
proof -
  have d: "distinct (map (val q) (xs @ p # ys))" using l by (simp add: linked_def)
  have "dom M = val q ` set (xs @ p # ys)" using l by (simp add: linked_def)
  then have img: "val q ` set (xs @ ys) = dom M - {val q p}" using d by (simp, blast)
  have c: "ce_cell e \<in> set (xs @ ys) \<and> val q (ce_cell e) = k \<and> ce_data e < n" if "M k = Some e" "k \<noteq> val q p" for k e
    using linked_entries [OF l that(1)] that(2) by auto
  have j: "inj_on (\<lambda>k. ce_data (the ((M(val q p := None)) k))) (dom M - {val q p})"
    using linked_inj [OF l] by (simp add: inj_on_def)
  show ?thesis
  proof (rule linkedI)
    show "dom (M(val q p := None)) = val q' ` set (xs @ ys)" unfolding i(2) img by simp
    show "inj_on (\<lambda>k. ce_data (the ((M(val q p := None)) k))) (dom (M(val q p := None)))" using j by simp
  qed (use i d c in \<open>auto split: if_splits\<close>)
qed

lemma detach:
  assumes l: "linked q M n (xs @ p # ys)"
  shows "\<exists>q'. del q p = (q', Inr (val q p)) \<and> linked q' (M(val q p := None)) n (xs @ ys) \<and> val q' = val q"
  using del_ok [OF linked_inv [OF l]] linked_without [OF l] by blast

lemma detach_front:
  assumes l: "linked q M n (p # ps)"
  shows "\<exists>q'. front q = Some (q', Inr (val q p)) \<and> linked q' (M(val q p := None)) n ps \<and> val q' = val q"
  using front_ok [OF linked_inv [OF l]] linked_without [of q M n "[]" p ps] l by fastforce

lemma attach:
  assumes l: "linked q M n ps" and k: "k \<notin> dom M" and len: "Suc (length ps) < 2 ^ 64"
    and d: "d < n" "\<And>k e. M k = Some e \<Longrightarrow> ce_data e \<noteq> d"
  shows "linked (fst (add q k)) (M(k \<mapsto> \<lparr>ce_data = d, ce_cell = snd (add q k)\<rparr>)) n (ps @ [snd (add q k)])"
    "map (val (fst (add q k))) (ps @ [snd (add q k)]) = map (val q) ps @ [k]"
proof -
  let ?q = "fst (add q k)" and ?p = "snd (add q k)"
  have i: "inv q ps" using l by (simp add: linked_def)
  note A = add_inv [OF i len, of k] add_val [OF i len, of k] add_frame [OF i len, of _ k]
  show vals: "map (val ?q) (ps @ [?p]) = map (val q) ps @ [k]" using A by simp
  have dist: "distinct (map (val ?q) (ps @ [?p]))" unfolding vals using l k by (auto simp: linked_def)
  have img: "val ?q ` set (ps @ [?p]) = insert k (dom M)"
    using arg_cong [OF vals, of set] l by (simp add: linked_def)
  have j: "inj_on (\<lambda>x. ce_data (the ((M(k \<mapsto> \<lparr>ce_data = d, ce_cell = ?p\<rparr>)) x))) (insert k (dom M))"
    using linked_inj [OF l] k d(2) by (auto simp: inj_on_def split: if_splits) blast+
  show "linked ?q (M(k \<mapsto> \<lparr>ce_data = d, ce_cell = ?p\<rparr>)) n (ps @ [?p])"
  proof (rule linkedI)
    show "ce_cell e \<in> set (ps @ [?p]) \<and> val ?q (ce_cell e) = x \<and> ce_data e < n"
      if "(M(k \<mapsto> \<lparr>ce_data = d, ce_cell = ?p\<rparr>)) x = Some e" for x e
      using that linked_entries [OF l, of x e] A d(1) by (auto split: if_splits)
    show "dom (M(k \<mapsto> \<lparr>ce_data = d, ce_cell = ?p\<rparr>)) = val ?q ` set (ps @ [?p])" unfolding img by simp
    show "inj_on (\<lambda>x. ce_data (the ((M(k \<mapsto> \<lparr>ce_data = d, ce_cell = ?p\<rparr>)) x))) (dom (M(k \<mapsto> \<lparr>ce_data = d, ce_cell = ?p\<rparr>)))"
      using j by simp
  qed (rule A(1) dist)+
qed

end

interpretation lq: pointer_queue dll ptr_value addRear removeFront removeByPointer
proof
  show "distinct ps" if "dll q ps" for q :: "'a linkedList" and ps using that by (simp add: dll_def)
qed (blast intro: addRear_dll removeFront_dll removeFront_empty removeByPointer_dll)+

end
