(* ===== verification/LruCache.thy ===== *)
theory LruCache
  imports LinkedList "HOL-Library.AList"
begin

text \<open>
  The least-recently-used cache of the qcow2 tables (\<^verbatim>\<open>src/disk/image/qcow2/lru_cache.go\<close>).  The values
  are vectors behind pointers: callers change a cached vector through the pointer that \<open>get\<close> returns,
  so the vectors live in the store \<open>lru_vectors\<close> and an entry holds positions of it.  The keys are
  \<open>uint64\<close>, as in both uses of the cache.  \<open>lru_view\<close> is what a client sees, the keys with their vectors
  from the least to the most recently used, and the operations refine those on this list.
\<close>

section \<open>Vectors\<close>

record 'p VectorCache =
  vc_data :: "'p list"
  vc_dirty :: bool

definition newVectorCache :: "'p \<Rightarrow> nat \<Rightarrow> 'p VectorCache" where
  "newVectorCache zero count = \<lparr>vc_data = replicate count zero, vc_dirty = True\<rparr>"

definition vectorCacheFromArray :: "'p list \<Rightarrow> 'p VectorCache" where
  "vectorCacheFromArray vec = \<lparr>vc_data = vec, vc_dirty = False\<rparr>"

definition vc_get :: "'p VectorCache \<Rightarrow> nat \<Rightarrow> 'p option" where
  "vc_get c index = (if index < length (vc_data c) then Some (vc_data c ! index) else None)"

definition vc_set :: "'p VectorCache \<Rightarrow> nat \<Rightarrow> 'p \<Rightarrow> 'p VectorCache option" where
  "vc_set c index v =
     (if index < length (vc_data c) then Some \<lparr>vc_data = (vc_data c)[index := v], vc_dirty = True\<rparr> else None)"

definition vc_markClean :: "'p VectorCache \<Rightarrow> 'p VectorCache" where
  "vc_markClean c = c\<lparr>vc_dirty := False\<rparr>"

section \<open>The cache\<close>

record 'p LruCacheMap =
  lru_capacity :: nat
  lru_store :: "(nat \<times> cacheMapEntry) list"
  lru_queue :: "nat linkedList"
  lru_vectors :: "'p VectorCache list"

definition newCacheMap :: "nat \<Rightarrow> 'p LruCacheMap" where
  "newCacheMap capacity =
     \<lparr>lru_capacity = capacity, lru_store = [], lru_queue = newLinkedList, lru_vectors = []\<rparr>"

definition containsKey :: "'p LruCacheMap \<Rightarrow> nat \<Rightarrow> bool" where
  "containsKey c key = (map_of (lru_store c) key \<noteq> None)"

text \<open>\<open>get\<close> ignores the error of \<open>removeByPointer\<close>; the index is then the zero value.\<close>

definition lru_get :: "'p LruCacheMap \<Rightarrow> nat \<Rightarrow> 'p LruCacheMap \<times> nat option" where
  "lru_get c key =
     (case map_of (lru_store c) key of
        None \<Rightarrow> (c, None)
      | Some e \<Rightarrow>
          let (q, r) = removeByPointer (lru_queue c) (ce_cell e);
              index = (case r of Inr k \<Rightarrow> k | Inl _ \<Rightarrow> 0);
              (q', cell) = addRear q index
          in (c\<lparr>lru_queue := q', lru_store := AList.update key \<lparr>ce_data = ce_data e, ce_cell = cell\<rparr> (lru_store c)\<rparr>,
              Some (ce_data e)))"

definition store_new :: "'p LruCacheMap \<Rightarrow> nat linkedList \<Rightarrow> nat \<Rightarrow> 'p VectorCache \<Rightarrow> 'p LruCacheMap" where
  "store_new c q key v =
     (let (q', cell) = addRear q key
      in c\<lparr>lru_queue := q', lru_vectors := lru_vectors c @ [v],
           lru_store := AList.update key \<lparr>ce_data = length (lru_vectors c), ce_cell = cell\<rparr> (lru_store c)\<rparr>)"

definition lru_set :: "'p LruCacheMap \<Rightarrow> nat \<Rightarrow> 'p VectorCache \<Rightarrow> 'p LruCacheMap \<times> gerror option" where
  "lru_set c key v =
     (case map_of (lru_store c) key of
        Some previous \<Rightarrow>
          (case removeByPointer (lru_queue c) (ce_cell previous) of
             (q, Inl er) \<Rightarrow> (c\<lparr>lru_queue := q\<rparr>, Some er)
           | (q, Inr _) \<Rightarrow> (store_new c q key v, None))
      | None \<Rightarrow> (store_new c (lru_queue c) key v, None))"

definition lru_remove :: "'p LruCacheMap \<Rightarrow> nat \<Rightarrow> 'p LruCacheMap \<times> gerror option" where
  "lru_remove c key =
     (case map_of (lru_store c) key of
        None \<Rightarrow> (c, None)
      | Some e \<Rightarrow>
          (case removeByPointer (lru_queue c) (ce_cell e) of
             (q, Inl er) \<Rightarrow> (c\<lparr>lru_queue := q\<rparr>, Some er)
           | (q, Inr _) \<Rightarrow> (c\<lparr>lru_queue := q, lru_store := AList.delete key (lru_store c)\<rparr>, None)))"

text \<open>The callback writes an evicted vector back; it changes the state \<open>'s\<close> of the caller and may fail.\<close>

type_synonym ('s, 'p) writeCallback = "'s \<Rightarrow> nat \<Rightarrow> 'p VectorCache \<Rightarrow> 's \<times> gerror option"

definition lru_insert ::
    "('s, 'p) writeCallback \<Rightarrow> 's \<Rightarrow> 'p LruCacheMap \<Rightarrow> nat \<Rightarrow> 'p VectorCache \<Rightarrow> ('s \<times> 'p LruCacheMap \<times> gerror option) option" where
  "lru_insert writeCallback s c index block =
     (if length (lru_store c) = lru_capacity c then
        (case removeFront (lru_queue c) of
           None \<Rightarrow> None
         | Some (q, Inl er) \<Rightarrow> Some (s, c\<lparr>lru_queue := q\<rparr>, Some er)
         | Some (q, Inr toEvict) \<Rightarrow>
             (case map_of (lru_store c) toEvict of
                None \<Rightarrow>
                  Some (s, c\<lparr>lru_queue := q\<rparr>,
                        Some (Errorf ''inconsistent LRU cache,  value to evict %v from queue not present in the cache''
                                [FInt (int toEvict)]))
              | Some evicted \<Rightarrow>
                  let c1 = c\<lparr>lru_queue := q, lru_store := AList.delete toEvict (lru_store c)\<rparr>;
                      v = lru_vectors c ! ce_data evicted
                  in if vc_dirty v then
                       (case writeCallback s toEvict v of
                          (s', Some er) \<Rightarrow> Some (s', c1, Some er)
                        | (s', None) \<Rightarrow> Some (s', lru_set c1 index block))
                     else Some (s, lru_set c1 index block)))
      else Some (s, lru_set c index block))"

section \<open>The invariant and the view\<close>

definition lru_inv :: "'p LruCacheMap \<Rightarrow> nat list \<Rightarrow> bool" where
  "lru_inv c ps \<longleftrightarrow> lq.linked (lru_queue c) (map_of (lru_store c)) (length (lru_vectors c)) ps
     \<and> distinct (map fst (lru_store c)) \<and> length ps \<le> lru_capacity c \<and> lru_capacity c < 2 ^ 64"

definition lru_ok :: "'p LruCacheMap \<Rightarrow> bool" where
  "lru_ok c \<longleftrightarrow> (\<exists>ps. lru_inv c ps)"

definition lru_vec :: "'p LruCacheMap \<Rightarrow> nat \<Rightarrow> 'p VectorCache" where
  "lru_vec c k = lru_vectors c ! ce_data (the (map_of (lru_store c) k))"

definition lru_view :: "'p LruCacheMap \<Rightarrow> (nat \<times> 'p VectorCache) list" where
  "lru_view c = map (\<lambda>k. (k, lru_vec c k)) (the (content 0 (lru_queue c)))"

text \<open>The operations on the view.\<close>

definition av_drop :: "(nat \<times> 'p VectorCache) list \<Rightarrow> nat \<Rightarrow> (nat \<times> 'p VectorCache) list" where
  "av_drop xs k = filter (\<lambda>x. fst x \<noteq> k) xs"

definition av_set :: "(nat \<times> 'p VectorCache) list \<Rightarrow> nat \<Rightarrow> 'p VectorCache \<Rightarrow> (nat \<times> 'p VectorCache) list" where
  "av_set xs k v = av_drop xs k @ [(k, v)]"

definition av_insert ::
    "('s, 'p) writeCallback \<Rightarrow> nat \<Rightarrow> 's \<Rightarrow> (nat \<times> 'p VectorCache) list \<Rightarrow> nat \<Rightarrow> 'p VectorCache \<Rightarrow>
     's \<times> (nat \<times> 'p VectorCache) list \<times> bool" where
  "av_insert wb cap s xs k v =
     (if length xs = cap then
        (case xs of
           [] \<Rightarrow> (s, xs, False)
         | (e, w) # ys \<Rightarrow>
             if vc_dirty w then (case wb s e w of (s', Some _) \<Rightarrow> (s', ys, False) | (s', None) \<Rightarrow> (s', av_set ys k v, True))
             else (s, av_set ys k v, True))
      else (s, av_set xs k v, True))"

section \<open>The operations keep the invariant\<close>

lemma lru_view_keys:
  assumes "lru_inv c ps"
  shows "lru_view c = map (\<lambda>p. (ptr_value (lru_queue c) p, lru_vec c (ptr_value (lru_queue c) p))) ps"
  using assms content_dll [of "lru_queue c" ps 0] by (auto simp: lru_inv_def lru_view_def dest: lq.linked_inv)

lemma map_fst_view: "lru_inv c ps \<Longrightarrow> map fst (lru_view c) = map (ptr_value (lru_queue c)) ps"
  by (simp add: lru_view_keys)

lemma lru_inv_linked: "lru_inv c ps \<Longrightarrow> lq.linked (lru_queue c) (map_of (lru_store c)) (length (lru_vectors c)) ps"
  by (simp add: lru_inv_def)

lemma lru_keys:
  assumes "lru_inv c ps"
  shows "distinct (map (ptr_value (lru_queue c)) ps)" "dom (map_of (lru_store c)) = ptr_value (lru_queue c) ` set ps"
  using lru_inv_linked [OF assms] unfolding lq.linked_def by blast+

lemma distinct_view: "lru_inv c ps \<Longrightarrow> distinct (map fst (lru_view c))"
  using lru_keys(1) by (simp add: map_fst_view)

lemma length_view: "lru_inv c ps \<Longrightarrow> length (lru_view c) = length (lru_store c)"
proof -
  assume i: "lru_inv c ps"
  then have "card (dom (map_of (lru_store c))) = length ps" by (blast dest: lru_inv_linked lq.linked_card)
  moreover have "card (dom (map_of (lru_store c))) = length (lru_store c)"
    using i by (simp add: lru_inv_def dom_map_of_conv_image_fst distinct_card flip: set_map)
  ultimately show ?thesis using i by (simp add: lru_view_keys)
qed

lemma keys_view: "lru_inv c ps \<Longrightarrow> fst ` set (lru_view c) = dom (map_of (lru_store c))"
  using lru_keys(2) [of c ps] by (simp add: lru_view_keys image_image)

lemma in_view: "lru_inv c ps \<Longrightarrow> x \<in> set (lru_view c) \<longleftrightarrow> fst x \<in> dom (map_of (lru_store c)) \<and> snd x = lru_vec c (fst x)"
  using lru_keys(2) [of c ps] by (cases x) (auto simp: lru_view_keys)

lemma view_lookup:
  "lru_inv c ps \<Longrightarrow> map_of (lru_view c) k = (if containsKey c k then Some (lru_vec c k) else None)"
proof -
  assume i: "lru_inv c ps"
  show ?thesis
  proof (cases "containsKey c k")
    case True
    then have "(k, lru_vec c k) \<in> set (lru_view c)" using in_view [OF i] by (auto simp: containsKey_def)
    then show ?thesis using True distinct_view [OF i] by (simp add: map_of_is_SomeI)
  next
    case False
    then have "k \<notin> fst ` set (lru_view c)" using keys_view [OF i] by (auto simp: containsKey_def)
    then show ?thesis using False by (simp add: map_of_eq_None_iff)
  qed
qed

lemma lru_inv_new: "capacity < 2 ^ 64 \<Longrightarrow> lru_inv (newCacheMap capacity) []"
  by (simp add: lru_inv_def newCacheMap_def lq.linked_def dll_new)

text \<open>Unlinking an entry, and linking a new one at the rear.\<close>

lemma map_of_delete_upd: "map_of (AList.delete k al) = (map_of al)(k := None)"
  by (simp add: delete_conv')

lemma lru_vec_cong: "map_of (lru_store c) k = map_of (lru_store c') k \<Longrightarrow> lru_vectors c = lru_vectors c' \<Longrightarrow> lru_vec c k = lru_vec c' k"
  by (simp add: lru_vec_def)

lemma view_without:
  assumes i: "lru_inv c (xs @ p # ys)"
    and l: "lq.linked q' ((map_of (lru_store c))(ptr_value (lru_queue c) p := None)) (length (lru_vectors c)) (xs @ ys)"
    and v: "ptr_value q' = ptr_value (lru_queue c)"
  defines "k \<equiv> ptr_value (lru_queue c) p"
  defines "c' \<equiv> c\<lparr>lru_queue := q', lru_store := AList.delete k (lru_store c)\<rparr>"
  shows "lru_inv c' (xs @ ys)" "lru_view c' = av_drop (lru_view c) k"
proof -
  show i': "lru_inv c' (xs @ ys)"
    using i l by (simp add: lru_inv_def c'_def k_def map_of_delete_upd distinct_delete)
  have d: "distinct (map (ptr_value (lru_queue c)) (xs @ p # ys))" using i by (rule lru_keys)
  have ne: "ptr_value (lru_queue c) r \<noteq> k" if "r \<in> set (xs @ ys)" for r
    using d that unfolding k_def by (simp, metis imageI)
  have "lru_vec c' (ptr_value (lru_queue c) r) = lru_vec c (ptr_value (lru_queue c) r)" if "r \<in> set (xs @ ys)" for r
    using ne [OF that] by (simp add: c'_def lru_vec_def map_of_delete_upd)
  then show "lru_view c' = av_drop (lru_view c) k"
    unfolding lru_view_keys [OF i'] lru_view_keys [OF i] using v ne
    by (simp add: av_drop_def c'_def filter_map o_def flip: k_def)
qed

lemma lru_detach:
  assumes i: "lru_inv c ps" and e: "map_of (lru_store c) k = Some e"
  shows "\<exists>q' ps'. removeByPointer (lru_queue c) (ce_cell e) = (q', Inr k) \<and> Suc (length ps') = length ps
     \<and> lru_inv (c\<lparr>lru_queue := q', lru_store := AList.delete k (lru_store c)\<rparr>) ps'
     \<and> lru_view (c\<lparr>lru_queue := q', lru_store := AList.delete k (lru_store c)\<rparr>) = av_drop (lru_view c) k"
proof -
  obtain xs ys where ps: "ps = xs @ ce_cell e # ys" "ptr_value (lru_queue c) (ce_cell e) = k"
    using lq.linked_entry [OF lru_inv_linked [OF i] e] by blast
  obtain q' where q: "removeByPointer (lru_queue c) (ce_cell e) = (q', Inr k)"
    "lq.linked q' ((map_of (lru_store c))(k := None)) (length (lru_vectors c)) (xs @ ys)"
    "ptr_value q' = ptr_value (lru_queue c)"
    using lq.detach [of "lru_queue c" _ _ xs "ce_cell e" ys] lru_inv_linked [OF i] ps by auto
  show ?thesis
    using view_without [of c xs "ce_cell e" ys q'] i q ps by (intro exI [of _ q'] exI [of _ "xs @ ys"]) simp
qed

lemma lru_detach_front:
  assumes i: "lru_inv c (p # ps)"
  shows "\<exists>q' k v. removeFront (lru_queue c) = Some (q', Inr k) \<and> lru_view c = (k, v) # av_drop (lru_view c) k
     \<and> map_of (lru_store c) k \<noteq> None \<and> lru_vec c k = v
     \<and> lru_inv (c\<lparr>lru_queue := q', lru_store := AList.delete k (lru_store c)\<rparr>) ps
     \<and> lru_view (c\<lparr>lru_queue := q', lru_store := AList.delete k (lru_store c)\<rparr>) = av_drop (lru_view c) k"
proof -
  let ?k = "ptr_value (lru_queue c) p"
  obtain q' where q: "removeFront (lru_queue c) = Some (q', Inr ?k)"
    "lq.linked q' ((map_of (lru_store c))(?k := None)) (length (lru_vectors c)) ps"
    "ptr_value q' = ptr_value (lru_queue c)"
    using lq.detach_front [OF lru_inv_linked [OF i]] by blast
  define vs where "vs = map (\<lambda>p. (ptr_value (lru_queue c) p, lru_vec c (ptr_value (lru_queue c) p))) ps"
  have v: "lru_view c = (?k, lru_vec c ?k) # vs" using lru_view_keys [OF i] by (simp add: vs_def)
  then have "distinct (map fst ((?k, lru_vec c ?k) # vs))" using distinct_view [OF i] by simp
  then have "av_drop vs ?k = vs" 
    by (simp add: av_drop_def filter_id_conv) (metis imageI)
  then have w: "lru_view c = (?k, lru_vec c ?k) # av_drop (lru_view c) ?k"
    unfolding v by (simp add: av_drop_def)
  have "?k \<in> dom (map_of (lru_store c))" unfolding lru_keys(2) [OF i] by simp
  then have m: "map_of (lru_store c) ?k \<noteq> None" by auto
  have "lru_inv c ([] @ p # ps)" using i by simp
  note W = view_without [OF this _ q(3), simplified append.simps, OF q(2)]
  show ?thesis by (intro exI [of _ q'] exI [of _ ?k] exI [of _ "lru_vec c ?k"] conjI q(1) w m refl W)
qed

lemma lru_attach:
  assumes i: "lru_inv c ps" and k: "\<not> containsKey c k" and len: "length ps < lru_capacity c"
    and S: "map_of S = (map_of (lru_store c))(k \<mapsto> \<lparr>ce_data = d, ce_cell = snd (addRear (lru_queue c) k)\<rparr>)"
      "distinct (map fst S)"
    and V: "length (lru_vectors c) \<le> length V" "\<And>j. j < length (lru_vectors c) \<Longrightarrow> V ! j = lru_vectors c ! j"
    and d: "d < length V" "\<And>k e. map_of (lru_store c) k = Some e \<Longrightarrow> ce_data e \<noteq> d"
  defines "c' \<equiv> c\<lparr>lru_queue := fst (addRear (lru_queue c) k), lru_vectors := V, lru_store := S\<rparr>"
  shows "lru_ok c'" "lru_view c' = lru_view c @ [(k, V ! d)]"
proof -
  let ?q = "fst (addRear (lru_queue c) k)" and ?p = "snd (addRear (lru_queue c) k)"
  have k': "k \<notin> dom (map_of (lru_store c))" using k by (auto simp: containsKey_def)
  have l: "lq.linked (lru_queue c) (map_of (lru_store c)) (length V) ps"
    using lq.linked_mono [OF lru_inv_linked [OF i] V(1)] .
  have len': "Suc (length ps) < 2 ^ 64" using i len unfolding lru_inv_def by linarith
  note A = lq.attach [OF l k' len' d]
  have i': "lru_inv c' (ps @ [?p])" using A(1) S i len by (simp add: lru_inv_def c'_def)
  then show "lru_ok c'" by (auto simp: lru_ok_def)
  have vec: "lru_vec c' x = lru_vec c x" if x: "x \<in> dom (map_of (lru_store c))" for x
  proof -
    obtain e where e: "map_of (lru_store c) x = Some e" using x by auto
    then have "ce_data e < length (lru_vectors c)" using lq.linked_entries [OF lru_inv_linked [OF i] e] by simp
    moreover have "x \<noteq> k" using x k' by auto
    ultimately show ?thesis using e V(2) by (simp add: lru_vec_def c'_def S(1))
  qed
  have veck: "lru_vec c' k = V ! d" by (simp add: lru_vec_def c'_def S(1))
  have "lru_view c' = map (\<lambda>x. (x, lru_vec c' x)) (map (ptr_value (lru_queue c')) (ps @ [?p]))"
    unfolding lru_view_keys [OF i'] by simp
  also have "\<dots> = map (\<lambda>x. (x, lru_vec c' x)) (map (ptr_value (lru_queue c)) ps @ [k])"
    using A(2) by (simp add: c'_def)
  also have "\<dots> = lru_view c @ [(k, V ! d)]"
    using vec veck unfolding lru_keys(2) [OF i] by (simp add: lru_view_keys [OF i])
  finally show "lru_view c' = lru_view c @ [(k, V ! d)]" .
qed

lemma lru_get_hit:
  assumes i: "lru_ok c" and k: "containsKey c k"
  obtains c' d where "lru_get c k = (c', Some d)" "lru_ok c'" "lru_view c' = av_set (lru_view c) k (lru_vec c k)"
    "ce_data (the (map_of (lru_store c') k)) = d" "d < length (lru_vectors c')" "lru_vectors c' = lru_vectors c"
    "lru_capacity c' = lru_capacity c"
proof -
  obtain ps where ps: "lru_inv c ps" using i by (auto simp: lru_ok_def)
  obtain e where e: "map_of (lru_store c) k = Some e" using k by (auto simp: containsKey_def)
  obtain q' ps' where q: "removeByPointer (lru_queue c) (ce_cell e) = (q', Inr k)" "Suc (length ps') = length ps"
    and i1: "lru_inv (c\<lparr>lru_queue := q', lru_store := AList.delete k (lru_store c)\<rparr>) ps'"
    and v1: "lru_view (c\<lparr>lru_queue := q', lru_store := AList.delete k (lru_store c)\<rparr>) = av_drop (lru_view c) k"
    using lru_detach [OF ps e] by blast
  let ?S = "AList.update k \<lparr>ce_data = ce_data e, ce_cell = snd (addRear q' k)\<rparr> (lru_store c)"
  let ?c' = "c\<lparr>lru_queue := fst (addRear q' k), lru_store := ?S\<rparr>"
  have len: "length ps' < lru_capacity c" using ps q(2) by (simp add: lru_inv_def)
  have dd: "ce_data e < length (lru_vectors c)" using lq.linked_entries [OF lru_inv_linked [OF ps] e] by blast
  have fresh: "ce_data e' \<noteq> ce_data e" if e': "((map_of (lru_store c))(k := None)) k' = Some e'" for k' e'
  proof -
    have "k' \<noteq> k" "map_of (lru_store c) k' = Some e'" using e' by (auto split: if_splits)
    then show ?thesis using lq.linked_inj [OF lru_inv_linked [OF ps]] e by (force simp: inj_on_def dom_def)
  qed
  have A: "lru_ok ?c'" "lru_view ?c' = av_drop (lru_view c) k @ [(k, lru_vectors c ! ce_data e)]"
    using lru_attach [OF i1, of k ?S "ce_data e" "lru_vectors c"] ps len dd fresh
    by (simp_all add: v1 containsKey_def map_of_delete_upd fun_upd_upd lru_inv_def)
  show ?thesis
  proof (rule that)
    show "lru_get c k = (?c', Some (ce_data e))" by (simp add: lru_get_def e q(1) split_beta)
  qed (use A dd e in \<open>simp_all add: av_set_def lru_vec_def\<close>)
qed

lemma lru_get_miss: "\<not> containsKey c k \<Longrightarrow> lru_get c k = (c, None)"
  by (simp add: lru_get_def containsKey_def)

text \<open>A change through the pointer of a key changes the vector of that key and no other.\<close>

lemma lru_write_through:
  fixes v :: "'p VectorCache"
  assumes i: "lru_ok c" and k: "containsKey c k"
  defines "c' \<equiv> c\<lparr>lru_vectors := (lru_vectors c)[ce_data (the (map_of (lru_store c) k)) := v]\<rparr>"
  shows "lru_ok c'" "lru_view c' = map (\<lambda>(x, w). (x, if x = k then v else w)) (lru_view c)"
proof -
  obtain ps where ps: "lru_inv c ps" using i by (auto simp: lru_ok_def)
  obtain e where e: "map_of (lru_store c) k = Some e" using k by (auto simp: containsKey_def)
  have i': "lru_inv c' ps" using ps by (simp add: lru_inv_def c'_def)
  then show "lru_ok c'" by (auto simp: lru_ok_def)
  have dd: "ce_data e < length (lru_vectors c)" using lq.linked_entries [OF lru_inv_linked [OF ps] e] by blast
  have vec: "lru_vec c' x = (if x = k then v else lru_vec c x)" if x: "x \<in> dom (map_of (lru_store c))" for x
  proof -
    obtain e' where e': "map_of (lru_store c) x = Some e'" using x by auto
    have "ce_data e' \<noteq> ce_data e" if "x \<noteq> k"
      using lq.linked_inj [OF lru_inv_linked [OF ps]] e e' that by (force simp: inj_on_def dom_def)
    then show ?thesis using dd e e' by (cases "x = k") (simp_all add: c'_def lru_vec_def)
  qed
  then have vec': "lru_vec c' (ptr_value (lru_queue c) p) = (if ptr_value (lru_queue c) p = k then v else lru_vec c (ptr_value (lru_queue c) p))"
    if "p \<in> set ps" for p using that unfolding lru_keys(2) [OF ps] by blast
  show "lru_view c' = map (\<lambda>(x, w). (x, if x = k then v else w)) (lru_view c)"
    unfolding lru_view_keys [OF i'] lru_view_keys [OF ps] using vec' by (simp add: c'_def)
qed

lemma store_new_view:
  assumes i: "lru_inv (c\<lparr>lru_queue := q, lru_store := AList.delete k (lru_store c)\<rparr>) ps"
    and d: "distinct (map fst (lru_store c))" and len: "length ps < lru_capacity c"
  shows "lru_ok (store_new c q k v)"
    "lru_view (store_new c q k v) = lru_view (c\<lparr>lru_queue := q, lru_store := AList.delete k (lru_store c)\<rparr>) @ [(k, v)]"
proof -
  let ?S = "AList.update k \<lparr>ce_data = length (lru_vectors c), ce_cell = snd (addRear q k)\<rparr> (lru_store c)"
  have "ce_data e \<noteq> length (lru_vectors c)" if "((map_of (lru_store c))(k := None)) k' = Some e" for k' e
    using lq.linked_entries [OF lru_inv_linked [OF i], of k' e] that by (simp add: map_of_delete_upd)
  then have A: "lru_ok (c\<lparr>lru_queue := fst (addRear q k), lru_vectors := lru_vectors c @ [v], lru_store := ?S\<rparr>)"
    "lru_view (c\<lparr>lru_queue := fst (addRear q k), lru_vectors := lru_vectors c @ [v], lru_store := ?S\<rparr>)
      = lru_view (c\<lparr>lru_queue := q, lru_store := AList.delete k (lru_store c)\<rparr>) @ [(k, v)]"
    using lru_attach [OF i, of k ?S "length (lru_vectors c)" "lru_vectors c @ [v]"] d len
    by (simp_all add: containsKey_def map_of_delete_upd fun_upd_upd nth_append)
  have "store_new c q k v = c\<lparr>lru_queue := fst (addRear q k), lru_vectors := lru_vectors c @ [v], lru_store := ?S\<rparr>"
    by (simp add: store_new_def split_beta)
  with A show "lru_ok (store_new c q k v)"
    "lru_view (store_new c q k v) = lru_view (c\<lparr>lru_queue := q, lru_store := AList.delete k (lru_store c)\<rparr>) @ [(k, v)]"
    by simp_all
qed

lemma store_new_capacity [simp]: "lru_capacity (store_new c q k v) = lru_capacity c"
  by (simp add: store_new_def split_beta)

lemma lru_set_view:
  assumes i: "lru_ok c" and room: "containsKey c k \<or> length (lru_view c) < lru_capacity c"
  obtains c' where "lru_set c k v = (c', None)" "lru_ok c'" "lru_view c' = av_set (lru_view c) k v"
    "lru_capacity c' = lru_capacity c"
proof -
  obtain ps where ps: "lru_inv c ps" using i by (auto simp: lru_ok_def)
  then have d: "distinct (map fst (lru_store c))" by (simp add: lru_inv_def)
  show ?thesis
  proof (cases "map_of (lru_store c) k")
    case None
    then have del: "AList.delete k (lru_store c) = lru_store c" by (simp add: map_of_eq_None_iff delete_id)
    have "k \<notin> fst ` set (lru_view c)" using None keys_view [OF ps] by auto
    then have "av_drop (lru_view c) k = lru_view c" by (force simp: av_drop_def filter_id_conv)
    moreover have "length ps < lru_capacity c" using room None ps by (auto simp: containsKey_def lru_view_keys)
    ultimately show ?thesis
      using store_new_view [where c = c and q = "lru_queue c" and k = k and ps = ps and v = v] ps d None that [of "store_new c (lru_queue c) k v"]
      by (simp add: del lru_set_def av_set_def)
  next
    case (Some e)
    obtain q' ps' where q: "removeByPointer (lru_queue c) (ce_cell e) = (q', Inr k)" "Suc (length ps') = length ps"
      and i1: "lru_inv (c\<lparr>lru_queue := q', lru_store := AList.delete k (lru_store c)\<rparr>) ps'"
      and v1: "lru_view (c\<lparr>lru_queue := q', lru_store := AList.delete k (lru_store c)\<rparr>) = av_drop (lru_view c) k"
      using lru_detach [OF ps Some] by blast
    have "length ps' < lru_capacity c" using ps q(2) by (simp add: lru_inv_def)
    then show ?thesis
      using store_new_view [OF i1 d, of v] Some q(1) v1 that [of "store_new c q' k v"] by (simp add: lru_set_def av_set_def)
  qed
qed

lemma lru_remove_view:
  assumes i: "lru_ok c"
  obtains c' where "lru_remove c k = (c', None)" "lru_ok c'" "lru_view c' = av_drop (lru_view c) k"
    "lru_capacity c' = lru_capacity c"
proof -
  obtain ps where ps: "lru_inv c ps" using i by (auto simp: lru_ok_def)
  show ?thesis
  proof (cases "map_of (lru_store c) k")
    case None
    have "k \<notin> fst ` set (lru_view c)" using None keys_view [OF ps] by auto
    then have "av_drop (lru_view c) k = lru_view c" by (force simp: av_drop_def filter_id_conv)
    then show ?thesis using None i that [of c] by (simp add: lru_remove_def)
  next
    case (Some e)
    obtain q' ps' where q: "removeByPointer (lru_queue c) (ce_cell e) = (q', Inr k)"
      "lru_inv (c\<lparr>lru_queue := q', lru_store := AList.delete k (lru_store c)\<rparr>) ps'"
      "lru_view (c\<lparr>lru_queue := q', lru_store := AList.delete k (lru_store c)\<rparr>) = av_drop (lru_view c) k"
      using lru_detach [OF ps Some] by blast
    then show ?thesis
      using Some that [of "c\<lparr>lru_queue := q', lru_store := AList.delete k (lru_store c)\<rparr>"]
      by (auto simp: lru_remove_def lru_ok_def)
  qed
qed

lemma lru_insert_view:
  assumes i: "lru_ok c"
  shows "\<exists>s' c' er. lru_insert wb s c k v = Some (s', c', er) \<and> lru_ok c' \<and> lru_capacity c' = lru_capacity c
     \<and> av_insert wb (lru_capacity c) s (lru_view c) k v = (s', lru_view c', er = None)"
proof -
  obtain ps where ps: "lru_inv c ps" using i by (auto simp: lru_ok_def)
  note lv = length_view [OF ps]
  show ?thesis
  proof (cases "length (lru_store c) = lru_capacity c")
    case False
    then have "length (lru_view c) < lru_capacity c" using ps lv by (auto simp: lru_inv_def lru_view_keys)
    then obtain c' where "lru_set c k v = (c', None)" "lru_ok c'" "lru_view c' = av_set (lru_view c) k v"
      "lru_capacity c' = lru_capacity c" using lru_set_view [OF i] by metis
    then show ?thesis using False lv by (simp add: lru_insert_def av_insert_def)
  next
    case full: True
    show ?thesis
    proof (cases ps)
      case Nil
      then have "lru_view c = []" "removeFront (lru_queue c) = Some (lru_queue c, Inl (Errorf ''can't remove from an empty list'' []))"
        using ps removeFront_empty lq.linked_inv [OF lru_inv_linked [OF ps]] by (simp_all add: lru_view_keys)
      then show ?thesis using full lv i by (simp add: lru_insert_def av_insert_def)
    next
      case (Cons p ps')
      obtain q' x w where q: "removeFront (lru_queue c) = Some (q', Inr x)" "lru_view c = (x, w) # av_drop (lru_view c) x"
        "map_of (lru_store c) x \<noteq> None" "lru_vec c x = w"
        "lru_inv (c\<lparr>lru_queue := q', lru_store := AList.delete x (lru_store c)\<rparr>) ps'"
        "lru_view (c\<lparr>lru_queue := q', lru_store := AList.delete x (lru_store c)\<rparr>) = av_drop (lru_view c) x"
        using lru_detach_front [of c p ps'] ps Cons by blast
      define c1 where "c1 = c\<lparr>lru_queue := q', lru_store := AList.delete x (lru_store c)\<rparr>"
      define ys where "ys = av_drop (lru_view c) x"
      have ok1: "lru_ok c1" "lru_view c1 = ys" "lru_capacity c1 = lru_capacity c"
        using q(5,6) by (auto simp: c1_def ys_def lru_ok_def)
      have vw: "lru_view c = (x, w) # ys" using q(2) by (simp add: ys_def)
      then have "length (lru_view c1) < lru_capacity c1" using full lv ok1 by simp
      then obtain c2 where c2: "lru_set c1 k v = (c2, None)" "lru_ok c2" "lru_view c2 = av_set ys k v"
        "lru_capacity c2 = lru_capacity c" using lru_set_view [OF ok1(1)] ok1 by metis
      obtain e where e: "map_of (lru_store c) x = Some e" using q(3) by auto
      have "lru_insert wb s c k v =
          (if vc_dirty w then (case wb s x w of (s', Some er) \<Rightarrow> Some (s', c1, Some er) | (s', None) \<Rightarrow> Some (s', c2, None))
           else Some (s, c2, None))"
        using full q(1,4) e by (simp add: lru_insert_def c1_def [symmetric] c2(1) lru_vec_def)
      moreover have "av_insert wb (lru_capacity c) s (lru_view c) k v =
          (if vc_dirty w then (case wb s x w of (s', Some _) \<Rightarrow> (s', ys, False) | (s', None) \<Rightarrow> (s', av_set ys k v, True))
           else (s, av_set ys k v, True))"
        using full lv by (simp add: av_insert_def vw)
      ultimately show ?thesis using c2 ok1 by (cases "wb s x w"; cases "snd (wb s x w)") auto
    qed
  qed
qed

section \<open>The cache as a map\<close>

abbreviation lru_map :: "'p LruCacheMap \<Rightarrow> nat \<rightharpoonup> 'p VectorCache" where
  "lru_map c \<equiv> map_of (lru_view c)"

lemma map_of_av_drop [simp]: "map_of (av_drop xs k) = (map_of xs)(k := None)"
  by (induction xs) (auto simp: av_drop_def fun_eq_iff)

lemma map_of_av_set [simp]: "map_of (av_set xs k v) = (map_of xs)(k \<mapsto> v)"
  by (auto simp: av_set_def map_add_def fun_eq_iff split: option.split)

lemma lru_map_contains: "lru_ok c \<Longrightarrow> containsKey c k \<longleftrightarrow> lru_map c k \<noteq> None"
  by (auto simp: lru_ok_def view_lookup split: if_splits)

lemma lru_map_vec: "lru_ok c \<Longrightarrow> lru_map c k = Some v \<Longrightarrow> lru_vec c k = v"
  by (auto simp: lru_ok_def view_lookup split: if_splits)

lemma lru_view_bound: "lru_ok c \<Longrightarrow> length (lru_view c) \<le> lru_capacity c"
  by (auto simp: lru_ok_def lru_view_keys lru_inv_def)

lemma lru_get_map:
  assumes i: "lru_ok c" and k: "lru_map c k = Some v"
  obtains c' d where "lru_get c k = (c', Some d)" "lru_ok c'" "lru_map c' = lru_map c" "lru_vectors c' ! d = v"
    "ce_data (the (map_of (lru_store c') k)) = d" "lru_capacity c' = lru_capacity c"
proof -
  have "containsKey c k" using i k by (simp add: lru_map_contains)
  from lru_get_hit [OF i this] obtain c' d where g: "lru_get c k = (c', Some d)" "lru_ok c'"
    "lru_view c' = av_set (lru_view c) k (lru_vec c k)" "ce_data (the (map_of (lru_store c') k)) = d"
    "lru_capacity c' = lru_capacity c" by metis
  have m: "lru_map c' = lru_map c" using g(3) lru_map_vec [OF i k] k by (simp add: fun_upd_idem)
  then have "lru_vec c' k = v" using lru_map_vec [OF g(2)] k by simp
  then have "lru_vectors c' ! d = v" using g(4) by (simp add: lru_vec_def)
  with g m that show ?thesis by blast
qed

lemma lru_write_map:
  fixes w :: "'p VectorCache"
  assumes i: "lru_ok c" and k: "lru_map c k = Some v" and d: "ce_data (the (map_of (lru_store c) k)) = d"
  defines "c' \<equiv> c\<lparr>lru_vectors := (lru_vectors c)[d := w]\<rparr>"
  shows "lru_ok c'" "lru_map c' = (lru_map c)(k \<mapsto> w)" "length (lru_view c') = length (lru_view c)"
    "lru_capacity c' = lru_capacity c"
proof -
  have c: "containsKey c k" using i k by (simp add: lru_map_contains)
  note W = lru_write_through [OF i c, of w, unfolded d, folded c'_def]
  show "lru_ok c'" "length (lru_view c') = length (lru_view c)" "lru_capacity c' = lru_capacity c"
    using W by (simp_all add: c'_def)
  have "map_of (map (\<lambda>(x, u). (x, if x = k then w else u)) xs) x = (if x = k then map_option (\<lambda>_. w) (map_of xs x) else map_of xs x)"
    for xs :: "(nat \<times> 'p VectorCache) list" and x by (induction xs) auto
  then show "lru_map c' = (lru_map c)(k \<mapsto> w)" using W(2) k by (auto simp: fun_eq_iff)
qed

text \<open>Once a key is removed, a change through its old pointer has no effect on the cache.\<close>

lemma lru_write_removed:
  fixes w :: "'p VectorCache"
  assumes i: "lru_ok c" and k: "lru_map c k = Some v" and d: "ce_data (the (map_of (lru_store c) k)) = d"
    and r: "lru_remove c k = (c1, None)"
  defines "c' \<equiv> c1\<lparr>lru_vectors := (lru_vectors c1)[d := w]\<rparr>"
  shows "lru_ok c'" "lru_view c' = lru_view c1" "lru_capacity c' = lru_capacity c1"
proof -
  obtain ps where ps: "lru_inv c ps" using i by (auto simp: lru_ok_def)
  obtain e where e: "map_of (lru_store c) k = Some e" using lru_map_contains [OF i, of k] k by (auto simp: containsKey_def)
  have s1: "map_of (lru_store c1) = (map_of (lru_store c))(k := None)"
    using r e by (auto simp: lru_remove_def map_of_delete_upd split: prod.splits sum.splits)
  obtain ps1 where ps1: "lru_inv c1 ps1" using lru_remove_view [OF i, of k] r by (auto simp: lru_ok_def)
  have i': "lru_inv c' ps1" using ps1 by (simp add: lru_inv_def c'_def)
  then show "lru_ok c'" by (auto simp: lru_ok_def)
  have vec: "lru_vec c' x = lru_vec c1 x" if x: "x \<in> dom (map_of (lru_store c1))" for x
  proof -
    obtain e' where e': "map_of (lru_store c) x = Some e'" "x \<noteq> k" using x unfolding s1 by (auto split: if_splits)
    have "ce_data e' \<noteq> d"
      using lq.linked_inj [OF lru_inv_linked [OF ps]] e e' d by (force simp: inj_on_def dom_def)
    then show ?thesis using e' by (simp add: c'_def lru_vec_def s1)
  qed
  show "lru_view c' = lru_view c1"
    unfolding lru_view_keys [OF i'] lru_view_keys [OF ps1] using vec unfolding lru_keys(2) [OF ps1] by (simp add: c'_def)
  show "lru_capacity c' = lru_capacity c1" by (simp add: c'_def)
qed

text \<open>Inserting a key: there was room, or the oldest entry \<open>e\<close> left, and was written back if it was dirty.\<close>

lemma lru_insert_map:
  assumes i: "lru_ok c" and cap: "0 < lru_capacity c"
  shows "\<exists>s' c' er. lru_insert wb s c k v = Some (s', c', er) \<and> lru_ok c' \<and> lru_capacity c' = lru_capacity c \<and>
     (s' = s \<and> er = None \<and> lru_map c' = (lru_map c)(k \<mapsto> v)
      \<or> (\<exists>e w. lru_map c e = Some w \<and>
           (if vc_dirty w \<and> snd (wb s e w) \<noteq> None
            then s' = fst (wb s e w) \<and> er \<noteq> None \<and> lru_map c' = (lru_map c)(e := None)
            else s' = (if vc_dirty w then fst (wb s e w) else s) \<and> er = None \<and> lru_map c' = (lru_map c)(e := None, k \<mapsto> v))))"
proof -
  obtain s' c' er where r: "lru_insert wb s c k v = Some (s', c', er)" "lru_ok c'" "lru_capacity c' = lru_capacity c"
    "av_insert wb (lru_capacity c) s (lru_view c) k v = (s', lru_view c', er = None)"
    using lru_insert_view [OF i, of wb s k v] by blast
  show ?thesis
  proof (cases "length (lru_view c) = lru_capacity c")
    case False
    then have "s' = s \<and> er = None \<and> lru_view c' = av_set (lru_view c) k v" using r(4) by (auto simp: av_insert_def)
    then show ?thesis using r by auto
  next
    case True
    then obtain e w ys where x: "lru_view c = (e, w) # ys" using cap by (cases "lru_view c") auto
    obtain ps where "lru_inv c ps" using i by (auto simp: lru_ok_def)
    then have "distinct (map fst (lru_view c))" by (rule distinct_view)
    then have "e \<notin> fst ` set ys" unfolding x by simp
    then have "map_of ys e = None" by (simp add: map_of_eq_None_iff)
    then have ys: "(lru_map c)(e := None) = map_of ys" using x by (auto simp: fun_eq_iff)
    have l: "Suc (length ys) = lru_capacity c" using True x by simp
    have r4: "av_insert wb (lru_capacity c) s ((e, w) # ys) k v = (s', lru_view c', er = None)" using r(4) x by simp
    have "lru_map c e = Some w" using x by simp
    moreover have "if vc_dirty w \<and> snd (wb s e w) \<noteq> None
            then s' = fst (wb s e w) \<and> er \<noteq> None \<and> lru_map c' = (lru_map c)(e := None)
            else s' = (if vc_dirty w then fst (wb s e w) else s) \<and> er = None \<and> lru_map c' = (lru_map c)(e := None, k \<mapsto> v)"
      using r4 l unfolding ys by (cases "wb s e w"; cases "snd (wb s e w)") 
        (auto simp: av_insert_def split: if_splits simp flip: map_of_av_set)
    ultimately show ?thesis using r by blast
  qed
qed

lemma lru_new: "n < 2 ^ 64 \<Longrightarrow> lru_ok (newCacheMap n)" "n < 2 ^ 64 \<Longrightarrow> lru_view (newCacheMap n) = []"
  "lru_capacity (newCacheMap n) = n"
  using lru_inv_new lru_view_keys [OF lru_inv_new] by (auto simp: lru_ok_def) (simp add: newCacheMap_def)

lemma lru_set_first:
  assumes "0 < n" "n < 2 ^ 64"
  shows "lru_ok (fst (lru_set (newCacheMap n) k v))" "lru_view (fst (lru_set (newCacheMap n) k v)) = [(k, v)]"
    "lru_capacity (fst (lru_set (newCacheMap n) k v)) = n"
proof -
  have "length (lru_view (newCacheMap n :: 'a LruCacheMap)) < lru_capacity (newCacheMap n :: 'a LruCacheMap)"
    using assms by (simp add: lru_new)
  then obtain c where "lru_set (newCacheMap n) k v = (c, None)" "lru_ok c" "lru_view c = av_set [] k v" "lru_capacity c = n"
    using lru_set_view [OF lru_new(1) [OF assms(2)] disjI2, of k v] assms(2) by (auto simp: lru_new)
  then show "lru_ok (fst (lru_set (newCacheMap n) k v))" "lru_view (fst (lru_set (newCacheMap n) k v)) = [(k, v)]"
    "lru_capacity (fst (lru_set (newCacheMap n) k v)) = n" by (simp_all add: av_set_def av_drop_def)
qed

section \<open>Properties\<close>

text \<open>
  C19. The cache refines a list of at most \<open>capacity\<close> entries from the least to the most recently used:
  \<open>get\<close> finds exactly the vectors of the list and moves the entry to its end, \<open>remove\<close> drops an entry, and
  \<open>insert\<close> never panics and agrees with the insertion on the list, which, when the list is full, drops the first
  entry after the callback has written it back, if it was changed.
\<close>

theorem lru_refines:
  fixes wb :: "('s, 'p) writeCallback"
  assumes "lru_ok c"
  shows "(\<exists>c' r. lru_get c k = (c', r) \<and> lru_ok c'
       \<and> (case r of None \<Rightarrow> map_of (lru_view c) k = None \<and> c' = c
          | Some d \<Rightarrow> map_of (lru_view c) k = Some (lru_vectors c' ! d) \<and> lru_view c' = av_set (lru_view c) k (lru_vectors c' ! d)))
    \<and> (\<exists>c'. lru_remove c k = (c', None) \<and> lru_ok c' \<and> lru_view c' = av_drop (lru_view c) k)
    \<and> (\<exists>s' c' er. lru_insert wb s c k v = Some (s', c', er) \<and> lru_ok c'
         \<and> av_insert wb (lru_capacity c) s (lru_view c) k v = (s', lru_view c', er = None))
    \<and> length (lru_view c) \<le> lru_capacity c"
proof (intro conjI)
  show "\<exists>c' r. lru_get c k = (c', r) \<and> lru_ok c'
       \<and> (case r of None \<Rightarrow> map_of (lru_view c) k = None \<and> c' = c
          | Some d \<Rightarrow> map_of (lru_view c) k = Some (lru_vectors c' ! d) \<and> lru_view c' = av_set (lru_view c) k (lru_vectors c' ! d))"
  proof (cases "lru_map c k")
    case None
    then show ?thesis using lru_get_miss [of c k] lru_map_contains [OF assms, of k] assms by simp
  next
    case (Some w)
    then have "containsKey c k" using assms by (simp add: lru_map_contains)
    then obtain c' d where "lru_get c k = (c', Some d)" "lru_ok c'" "lru_view c' = av_set (lru_view c) k w"
      using lru_get_hit [OF assms] lru_map_vec [OF assms Some] by metis
    moreover obtain c2 d2 where "lru_get c k = (c2, Some d2)" "lru_vectors c2 ! d2 = w" using lru_get_map [OF assms Some] by metis
    ultimately show ?thesis using Some by simp
  qed
  show "\<exists>c'. lru_remove c k = (c', None) \<and> lru_ok c' \<and> lru_view c' = av_drop (lru_view c) k"
    using lru_remove_view [OF assms] by metis
  show "\<exists>s' c' er. lru_insert wb s c k v = Some (s', c', er) \<and> lru_ok c'
         \<and> av_insert wb (lru_capacity c) s (lru_view c) k v = (s', lru_view c', er = None)"
    using lru_insert_view [OF assms, of wb s k v] by blast
  show "length (lru_view c) \<le> lru_capacity c" by (rule lru_view_bound [OF assms])
qed

text \<open>A full cache with one changed entry: the callback, which records what it writes, gets the entry that leaves.\<close>

definition demo_full :: "nat LruCacheMap" where
  "demo_full = fst (lru_set (newCacheMap 1) 5 \<lparr>vc_data = [7], vc_dirty = True\<rparr>)"

lemma demo_full_ok: "lru_ok demo_full" "lru_view demo_full = [(5, \<lparr>vc_data = [7], vc_dirty = True\<rparr>)]" "lru_capacity demo_full = 1"
  unfolding demo_full_def using lru_set_first [of 1] by simp_all

theorem lru_refines_witness:
  "\<exists>c'. lru_insert (\<lambda>s k v. ((k, vc_data v) # s, None)) [] demo_full 6 (vectorCacheFromArray [8]) = Some ([(5, [7])], c', None)
     \<and> lru_view c' = [(6, vectorCacheFromArray [8])]"
proof -
  have "av_insert (\<lambda>s k v. ((k, vc_data v) # s, None)) (lru_capacity demo_full) [] (lru_view demo_full) 6 (vectorCacheFromArray [8])
      = ([(5, [7])], [(6, vectorCacheFromArray [8])], True)"
    by (simp add: demo_full_ok av_insert_def av_set_def av_drop_def)
  then show ?thesis
    using lru_refines [OF demo_full_ok(1), of 6 "\<lambda>s k v. ((k, vc_data v) # s, None)" "[]" "vectorCacheFromArray [8]"] by auto
qed

end
