(* ===== verification/QcowFile.thy ===== *)
theory QcowFile
  imports Restore LruCache
begin

text \<open>
  The file of a qcow2 image (\<^verbatim>\<open>src/disk/image/qcow2/qcow_raw_file.go\<close> and the encodings of \<^verbatim>\<open>util.go\<close>):
  tables of big-endian pointers and reference counts at offsets of the file.  The operating system is
  a parameter: \<open>os_read\<close> and \<open>os_write\<close> decide which calls fail.  A file that ends early is an error of
  the read itself.
\<close>

unbundle bit_operations_syntax

section \<open>Big-endian integers\<close>

fun be :: "byte list \<Rightarrow> nat" where
  "be [] = 0"
| "be (b # bs) = unat b * 256 ^ length bs + be bs"

fun put_be :: "nat \<Rightarrow> nat \<Rightarrow> byte list" where
  "put_be 0 v = []"
| "put_be (Suc n) v = of_nat (v div 256 ^ n) # put_be n (v mod 256 ^ n)"

lemma length_put_be [simp]: "length (put_be n v) = n"
  by (induction n arbitrary: v) simp_all

lemma be_put_be: "v < 256 ^ n \<Longrightarrow> be (put_be n v) = v"
proof (induction n arbitrary: v)
  case (Suc n)
  have "v div 256 ^ n < 256" using Suc.prems by (simp add: less_mult_imp_div_less mult.commute)
  then have "unat (of_nat (v div 256 ^ n) :: byte) = v div 256 ^ n" by (simp add: unsigned_of_nat take_bit_eq_mod)
  then show ?case using Suc by (simp add: mult.commute)
qed simp

lemma be_less: "be bs < 256 ^ length bs"
proof (induction bs)
  case (Cons b bs)
  have "unat b < 256" using unsigned_less [of b] by simp
  then have "unat b * 256 ^ length bs + 256 ^ length bs \<le> 256 * 256 ^ length bs"
    by (metis Suc_leI add.commute mult_Suc mult_le_mono1)
  with Cons have "unat b * 256 ^ length bs + be bs < 256 * 256 ^ length bs" by linarith
  then show ?case by simp
qed simp

section \<open>The file\<close>

record os_calls =
  os_write :: "OsFile \<Rightarrow> byte list \<Rightarrow> (nat \<times> gerror) option"
  os_read :: "OsFile \<Rightarrow> nat \<Rightarrow> gerror option"
  os_truncate :: "OsFile \<Rightarrow> nat \<Rightarrow> gerror option"
  os_sync :: "OsFile \<Rightarrow> gerror option"

record QcowRawFile =
  rf_file :: OsFile
  rf_clusterSize :: nat
  rf_clusterMask :: nat
  rf_readOnly :: bool

definition qcowRawFileFromFile :: "OsFile \<Rightarrow> nat \<Rightarrow> bool \<Rightarrow> QcowRawFile result" where
  "qcowRawFileFromFile file cs readOnly =
     (if \<exists>n < 64. cs = 2 ^ n
      then Inr \<lparr>rf_file = file, rf_clusterSize = cs, rf_clusterMask = cs - 1, rf_readOnly = readOnly\<rparr>
      else Inl (Errorf ''invalid cluster size %d, must be power of two'' [FInt (int cs)]))"

text \<open>\<open>Seek(int64(offset), 0)\<close>: the system refuses a negative position.\<close>

definition file_Seek :: "OsFile \<Rightarrow> nat \<Rightarrow> OsFile result" where
  "file_Seek f offset = (if offset \<ge> 2 ^ 63 then Inl (Errorf ''invalid argument'' []) else Inr (f\<lparr>fpos := offset\<rparr>))"

text \<open>\<open>io.ReadFull\<close> from the current position, as \<open>binary.Read\<close> does.\<close>

definition file_ReadFull :: "os_calls \<Rightarrow> OsFile \<Rightarrow> nat \<Rightarrow> OsFile \<times> byte list result" where
  "file_ReadFull os f n =
     (case os_read os f n of
        Some er \<Rightarrow> (f, Inl er)
      | None \<Rightarrow>
          let bs = take n (drop (fpos f) (fdata f)); f' = f\<lparr>fpos := fpos f + length bs\<rparr>
          in if length bs = n then (f', Inr bs)
             else (f', Inl (if bs = [] then Sentinel EOF_err else Errorf ''unexpected EOF'' [])))"

text \<open>\<open>ReadAt\<close> does not move the position and fails when bytes are missing.\<close>

definition file_at :: "os_calls \<Rightarrow> OsFile \<Rightarrow> nat \<Rightarrow> nat \<Rightarrow> byte list result" where
  "file_at os f offset n =
     (if offset \<ge> 2 ^ 63 then Inl (Errorf ''negative offset'' [])
      else case os_read os (f\<lparr>fpos := offset\<rparr>) n of
        Some er \<Rightarrow> Inl er
      | None \<Rightarrow> if length (take n (drop offset (fdata f))) = n then Inr (take n (drop offset (fdata f)))
                 else Inl (Sentinel EOF_err))"

fun read_pointers :: "os_calls \<Rightarrow> nat \<Rightarrow> nat \<Rightarrow> OsFile \<Rightarrow> OsFile \<times> nat list result" where
  "read_pointers os msk 0 f = (f, Inr [])"
| "read_pointers os msk (Suc n) f =
     (case file_ReadFull os f 8 of
        (f1, Inl er) \<Rightarrow> (f1, Inl er)
      | (f1, Inr bs) \<Rightarrow>
          (case read_pointers os msk n f1 of
             (f2, Inl er) \<Rightarrow> (f2, Inl er)
           | (f2, Inr vs) \<Rightarrow> (f2, Inr ((be bs AND msk) # vs))))"

definition readPointerTable :: "os_calls \<Rightarrow> QcowRawFile \<Rightarrow> nat \<Rightarrow> nat \<Rightarrow> nat \<Rightarrow> QcowRawFile \<times> nat list result" where
  "readPointerTable os rf offset count msk0 =
     (case file_Seek (rf_file rf) offset of
        Inl er \<Rightarrow> (rf, Inl er)
      | Inr f \<Rightarrow>
          (case read_pointers os (if msk0 = 0 then 2 ^ 64 - 1 else msk0) count f of
             (f', r) \<Rightarrow> (rf\<lparr>rf_file := f'\<rparr>, r)))"

definition readPointerCluster :: "os_calls \<Rightarrow> QcowRawFile \<Rightarrow> nat \<Rightarrow> nat \<Rightarrow> QcowRawFile \<times> nat list result" where
  "readPointerCluster os rf offset msk0 = readPointerTable os rf offset (rf_clusterSize rf div 8) msk0"

definition clusterOffset :: "QcowRawFile \<Rightarrow> nat \<Rightarrow> nat" where
  "clusterOffset rf address = address AND rf_clusterMask rf"

definition limitRangeCluster :: "QcowRawFile \<Rightarrow> nat \<Rightarrow> nat \<Rightarrow> nat" where
  "limitRangeCluster rf address count =
     (let limit = sub64 (rf_clusterSize rf) (clusterOffset rf address) in if count < limit then count else limit)"

definition writeToReadOnly :: "nat \<Rightarrow> nat \<Rightarrow> gerror" where
  "writeToReadOnly at n =
     Errorf ''image is read only, can't write at %d, with data size %d'' [FInt (int at), FInt (int n)]"

definition flagged :: "nat \<Rightarrow> nat \<Rightarrow> nat" where
  "flagged nonZeroFlags v = (if v = 0 then v else v OR nonZeroFlags)"

definition writePointerTable :: "os_calls \<Rightarrow> QcowRawFile \<Rightarrow> nat \<Rightarrow> nat list \<Rightarrow> nat \<Rightarrow> QcowRawFile \<times> gerror option" where
  "writePointerTable os rf offset table nonZeroFlags =
     (if rf_readOnly rf then (rf, Some (writeToReadOnly offset (length table * 8)))
      else case file_Seek (rf_file rf) offset of
        Inl er \<Rightarrow> (rf, Some er)
      | Inr f \<Rightarrow>
          (case file_Write (os_write os) f (concat (map (\<lambda>v. put_be 8 (flagged nonZeroFlags v)) table)) of
             (f', er) \<Rightarrow> (rf\<lparr>rf_file := f'\<rparr>, er)))"

definition readUint64At :: "os_calls \<Rightarrow> QcowRawFile \<Rightarrow> nat \<Rightarrow> nat result" where
  "readUint64At os rf address = bindR (file_at os (rf_file rf) address 8) (\<lambda>bs. Inr (be bs))"

definition writeUint64At :: "os_calls \<Rightarrow> QcowRawFile \<Rightarrow> nat \<Rightarrow> nat \<Rightarrow> QcowRawFile \<times> gerror option" where
  "writeUint64At os rf v address =
     (if rf_readOnly rf then (rf, Some (writeToReadOnly address 8))
      else if address \<ge> 2 ^ 63 then (rf, Some (Errorf ''negative offset'' []))
      else case file_Write (os_write os) ((rf_file rf)\<lparr>fpos := address\<rparr>) (put_be 8 v) of
        (f', er) \<Rightarrow> (rf\<lparr>rf_file := f'\<lparr>fpos := fpos (rf_file rf)\<rparr>\<rparr>, er))"

text \<open>\<open>Truncate\<close> to a larger size fills with zeros.  \<open>^clusterMask\<close> is the complement at 64 bits.\<close>

definition allocateClusterAtFileEnd :: "os_calls \<Rightarrow> QcowRawFile \<Rightarrow> nat \<Rightarrow> QcowRawFile \<times> nat result" where
  "allocateClusterAtFileEnd os rf maxValidClusterOffset =
     (if rf_readOnly rf then (rf, Inl (Errorf ''attempt to resize read only file with Truncate'' []))
      else
        let fileEnd = length (fdata (rf_file rf)); f = (rf_file rf)\<lparr>fpos := fileEnd\<rparr>;
            newClusterAddress = sub64 (u64 (fileEnd + rf_clusterSize rf)) 1 AND (2 ^ 64 - 1 - rf_clusterMask rf);
            size = u64 (newClusterAddress + rf_clusterSize rf)
        in if newClusterAddress > maxValidClusterOffset
           then (rf\<lparr>rf_file := f\<rparr>, Inl (Errorf ''wrong new cluster address'' []))
           else if size \<ge> 2 ^ 63 then (rf\<lparr>rf_file := f\<rparr>, Inl (Errorf ''invalid argument'' []))
           else case os_truncate os f size of
             Some er \<Rightarrow> (rf\<lparr>rf_file := f\<rparr>, Inl er)
           | None \<Rightarrow>
               (rf\<lparr>rf_file := f\<lparr>fdata := take size (fdata f) @ replicate (size - fileEnd) 0\<rparr>\<rparr>, Inr newClusterAddress))"

definition zeroCluster :: "os_calls \<Rightarrow> QcowRawFile \<Rightarrow> nat \<Rightarrow> QcowRawFile \<times> gerror option" where
  "zeroCluster os rf address =
     (case file_Seek (rf_file rf) address of
        Inl er \<Rightarrow> (rf, Some er)
      | Inr f \<Rightarrow>
          (case file_Write (os_write os) f (replicate (rf_clusterSize rf) 0) of (f', er) \<Rightarrow> (rf\<lparr>rf_file := f'\<rparr>, er)))"

definition writeCluster :: "os_calls \<Rightarrow> QcowRawFile \<Rightarrow> nat \<Rightarrow> byte list \<Rightarrow> QcowRawFile \<times> gerror option" where
  "writeCluster os rf address initialData =
     (if rf_readOnly rf then (rf, Some (writeToReadOnly address (length initialData)))
      else if length initialData < rf_clusterSize rf then (rf, Some (Errorf ''initital data is too small'' []))
      else if address \<ge> 2 ^ 63 then (rf, Some (Errorf ''negative offset'' []))
      else case file_Write (os_write os) ((rf_file rf)\<lparr>fpos := address\<rparr>) initialData of
        (f', er) \<Rightarrow> (rf\<lparr>rf_file := f'\<lparr>fpos := fpos (rf_file rf)\<rparr>\<rparr>, er))"

definition file_sync :: "os_calls \<Rightarrow> QcowRawFile \<Rightarrow> gerror option" where
  "file_sync os rf = (if rf_readOnly rf then Some (Errorf ''attempt to sync read only backing file'' []) else os_sync os (rf_file rf))"

section \<open>Tables on the disk\<close>

definition disk_word :: "OsFile \<Rightarrow> nat \<Rightarrow> nat" where
  "disk_word f off = be (take 8 (drop off (fdata f)))"

definition disk_words :: "OsFile \<Rightarrow> nat \<Rightarrow> nat \<Rightarrow> nat list" where
  "disk_words f off n = map (\<lambda>i. disk_word f (off + 8 * i)) [0..<n]"

lemma disk_words_Suc: "disk_words f off (Suc n) = disk_word f off # disk_words f (off + 8) n"
proof -
  have "[0..<Suc n] = 0 # map Suc [0..<n]" by (simp add: map_Suc_upt upt_conv_Cons)
  then show ?thesis unfolding disk_words_def by (simp add: o_def add.assoc)
qed

lemma length_disk_words [simp]: "length (disk_words f off n) = n"
  by (simp add: disk_words_def)

lemma disk_word_less: "disk_word f off < 2 ^ 64"
proof -
  have "disk_word f off < 256 ^ length (take 8 (drop off (fdata f)))" unfolding disk_word_def by (rule be_less)
  also have "\<dots> \<le> 256 ^ 8" by (rule power_increasing) simp_all
  finally show ?thesis by simp
qed

definition reads_ok :: "os_calls \<Rightarrow> bool" where
  "reads_ok os \<longleftrightarrow> (\<forall>f n. os_read os f n = None)"

lemma read_pointers_ok:
  assumes "reads_ok os" "fpos f + 8 * n \<le> length (fdata f)"
  shows "read_pointers os msk n f = (f\<lparr>fpos := fpos f + 8 * n\<rparr>, Inr (map (\<lambda>v. v AND msk) (disk_words f (fpos f) n)))"
  using assms
proof (induction n arbitrary: f)
  case (Suc n)
  let ?f = "f\<lparr>fpos := fpos f + 8\<rparr>"
  have "file_ReadFull os f 8 = (?f, Inr (take 8 (drop (fpos f) (fdata f))))"
    using Suc.prems by (simp add: file_ReadFull_def reads_ok_def Let_def)
  moreover have "read_pointers os msk n ?f = (?f\<lparr>fpos := fpos ?f + 8 * n\<rparr>, Inr (map (\<lambda>v. v AND msk) (disk_words ?f (fpos ?f) n)))"
    using Suc.prems by (intro Suc.IH) simp_all
  moreover have "disk_words ?f (fpos ?f) n = disk_words f (fpos f + 8) n" by (simp add: disk_words_def disk_word_def)
  ultimately show ?case by (simp add: disk_words_Suc disk_word_def add.assoc)
qed (simp add: disk_words_def)

lemma readPointerTable_ok:
  assumes "reads_ok os" "off + 8 * n \<le> length (fdata (rf_file rf))" "off < 2 ^ 63"
  shows "readPointerTable os rf off n msk = (rf\<lparr>rf_file := (rf_file rf)\<lparr>fpos := off + 8 * n\<rparr>\<rparr>,
     Inr (map (\<lambda>v. v AND (if msk = 0 then 2 ^ 64 - 1 else msk)) (disk_words (rf_file rf) off n)))"
proof -
  have "disk_words ((rf_file rf)\<lparr>fpos := off\<rparr>) off n = disk_words (rf_file rf) off n"
    by (simp add: disk_words_def disk_word_def)
  then show ?thesis
    using assms read_pointers_ok [of os "(rf_file rf)\<lparr>fpos := off\<rparr>" n]
    by (simp add: readPointerTable_def file_Seek_def del: read_pointers.simps)
qed

text \<open>Writing a table replaces the words of the table and no other.\<close>

definition put_table :: "OsFile \<Rightarrow> nat \<Rightarrow> nat list \<Rightarrow> OsFile" where
  "put_table f off vs = file_put (f\<lparr>fpos := off\<rparr>) (concat (map (put_be 8) vs))"

lemma length_words [simp]: "length (concat (map (put_be 8) vs)) = 8 * length vs"
  by (induction vs) simp_all

lemma put_table_data:
  assumes "off + 8 * length vs \<le> length (fdata f)"
  shows "fdata (put_table f off vs) = take off (fdata f) @ concat (map (put_be 8) vs) @ drop (off + 8 * length vs) (fdata f)"
  using assms by (simp add: put_table_def file_put_def)

lemma length_put_table:
  "off + 8 * length vs \<le> length (fdata f) \<Longrightarrow> length (fdata (put_table f off vs)) = length (fdata f)"
  by (simp add: put_table_data)

lemma take_drop_words: "i < length vs \<Longrightarrow> take 8 (drop (8 * i) (concat (map (put_be 8) vs) @ r)) = put_be 8 (vs ! i)"
proof (induction vs arbitrary: i)
  case (Cons v vs)
  then show ?case by (cases i) (simp_all add: drop_append take_append)
qed simp

lemma put_table_same:
  assumes "off + 8 * length vs \<le> length (fdata f)" "\<And>v. v \<in> set vs \<Longrightarrow> v < 2 ^ 64"
  shows "disk_words (put_table f off vs) off (length vs) = vs"
proof (rule nth_equalityI)
  fix i assume "i < length (disk_words (put_table f off vs) off (length vs))"
  then have i: "i < length vs" by simp
  have "drop (off + 8 * i) (fdata (put_table f off vs))
      = drop (8 * i) (concat (map (put_be 8) vs) @ drop (off + 8 * length vs) (fdata f))"
    using assms(1) by (simp add: put_table_data drop_append)
  then have "disk_word (put_table f off vs) (off + 8 * i) = be (put_be 8 (vs ! i))"
    unfolding disk_word_def by (simp only: take_drop_words [OF i])
  then show "disk_words (put_table f off vs) off (length vs) ! i = vs ! i"
    using i assms(2) [of "vs ! i"] by (simp add: disk_words_def be_put_be)
qed simp

lemma put_bytes_other:
  assumes fit: "off + length bs \<le> length (fdata f)" and d: "off' + 8 * n \<le> off \<or> off + length bs \<le> off'"
  shows "disk_words (file_put (f\<lparr>fpos := off\<rparr>) bs) off' n = disk_words f off' n"
proof -
  let ?f = "file_put (f\<lparr>fpos := off\<rparr>) bs"
  have data: "fdata ?f = take off (fdata f) @ bs @ drop (off + length bs) (fdata f)" using fit by (simp add: file_put_def)
  have w: "take 8 (drop a (fdata ?f)) = take 8 (drop a (fdata f))" if "a + 8 \<le> off \<or> off + length bs \<le> a" for a
    using that
  proof
    assume "a + 8 \<le> off"
    then have "8 \<le> off - a" "a \<le> off" "off \<le> length (fdata f)" using fit by linarith+
    then show ?thesis by (simp add: data drop_take min.absorb1)
  next
    assume "off + length bs \<le> a"
    then show ?thesis using fit by (simp add: data)
  qed
  have "disk_word ?f (off' + 8 * i) = disk_word f (off' + 8 * i)" if "i < n" for i
    unfolding disk_word_def using d that by (subst w) auto
  then show ?thesis by (simp add: disk_words_def)
qed

lemma put_table_other:
  assumes "off + 8 * length vs \<le> length (fdata f)" "off' + 8 * n \<le> off \<or> off + 8 * length vs \<le> off'"
  shows "disk_words (put_table f off vs) off' n = disk_words f off' n"
  unfolding put_table_def using assms by (intro put_bytes_other) simp_all

lemma length_file_put: "fpos f + length bs \<le> length (fdata f) \<Longrightarrow> length (fdata (file_put f bs)) = length (fdata f)"
  by (simp add: file_put_def)

definition writes_ok :: "os_calls \<Rightarrow> bool" where
  "writes_ok os \<longleftrightarrow> (\<forall>f bs. os_write os f bs = None)"

lemma writePointerTable_ok:
  assumes "writes_ok os" "\<not> rf_readOnly rf" "off < 2 ^ 63"
  shows "writePointerTable os rf off vs fl = (rf\<lparr>rf_file := put_table (rf_file rf) off (map (flagged fl) vs)\<rparr>, None)"
  using assms by (simp add: writePointerTable_def file_Seek_def file_Write_def writes_ok_def put_table_def o_def)

text \<open>A system where every call succeeds.\<close>

definition healthy_os :: os_calls where
  "healthy_os = \<lparr>os_write = \<lambda>_ _. None, os_read = \<lambda>_ _. None, os_truncate = \<lambda>_ _. None, os_sync = \<lambda>_. None\<rparr>"

lemma healthy_os_ok: "reads_ok healthy_os" "writes_ok healthy_os"
  by (simp_all add: healthy_os_def reads_ok_def writes_ok_def)

end
