(* ===== verification/QcowHeader.thy ===== *)
theory QcowHeader
  imports QcowFile "HOL-Library.Monad_Syntax"
begin

text \<open>
  The header of a qcow2 image (\<^verbatim>\<open>src/disk/image/qcow2/qcow2header.go\<close>, its errors in \<^verbatim>\<open>header_errors.go\<close> and
  its arithmetic in \<^verbatim>\<open>util.go\<close>): creation, encoding, decoding and validation.  Fields of type \<open>uint32\<close> and
  \<open>uint64\<close> are numbers whose wrap-around is written out; \<open>None\<close> is a panic, here the division by zero.
\<close>

unbundle bit_operations_syntax

section \<open>Errors\<close>

datatype header_error =
    ErrInvalidMagic nat
  | ErrBackingFileNameTooLong nat
  | ErrBackingFileNameNonZeroOffsetZeroLength nat
  | ErrBackingFileZeroOffsetNameLengthNotZero nat
  | ErrInvalidClusterBits nat
  | ErrUnsupportedCryptMethod nat
  | ErrL1TableTooLarge nat
  | ErrL1OffsetExceedsFileBoundaries
  | ErrNoReferenceCountTableClusters
  | ErrSnapshotsUnsupported nat
  | ErrCompressionNotSupported
  | ErrExternalDataFileNotSupported
  | ErrExtendedL2EntriesNotSupported
  | ErrRawExternalDataNotSupported
  | ErrBitmapExtensionsNotSupported
  | ErrInvalidReferenceCountOrder nat
  | ErrInvalidHeaderLength nat
  | ErrOffsetIsNotAClusterBoundary nat nat
  | ErrReferenceCountTableTooLarge
  | ErrTooManyReferenceCountClusters
  | ErrInvalidVersion nat
  | HErr gerror

text \<open>The messages; the trace of source lines that the errors also carry is left out.\<close>

fun header_error_Error :: "header_error \<Rightarrow> gerror" where
  "header_error_Error (ErrInvalidMagic m) = Errorf ''header magic must be equal to %x, actual value is %x'' [FInt 0x514649fb, FInt (int m)]"
| "header_error_Error (ErrBackingFileNameTooLong n) = Errorf ''backing file size is %d, valid value is < %d'' [FInt (int n), FInt 1023]"
| "header_error_Error (ErrBackingFileNameNonZeroOffsetZeroLength offset) =
     Errorf ''header with backing file offset %d has zero backing file size'' [FInt (int offset)]"
| "header_error_Error (ErrBackingFileZeroOffsetNameLengthNotZero n) =
     Errorf ''header with backing file offset 0 has non zero backing size %d'' [FInt (int n)]"
| "header_error_Error (ErrInvalidClusterBits b) = Errorf ''cluster bits must be in (%d, %d), not %d'' [FInt 9, FInt 30, FInt (int b)]"
| "header_error_Error (ErrUnsupportedCryptMethod m) =
     (if m = 1 then Errorf ''support of AES encryption is not yet implemented'' []
      else if m = 2 then Errorf ''support of LUKS encryption is not yet implemented'' []
      else Errorf ''unkown cryptMethod field %d'' [FInt (int m)])"
| "header_error_Error (ErrL1TableTooLarge n) = Errorf ''l1 table size is %d but must not exceed %d'' [FInt (int n), FInt (32 * 1024 * 1024)]"
| "header_error_Error ErrL1OffsetExceedsFileBoundaries = Errorf [] []"
| "header_error_Error ErrNoReferenceCountTableClusters = Errorf ''no reference count table clusters'' []"
| "header_error_Error (ErrSnapshotsUnsupported n) =
     Errorf ''snapshots are not yet supported, number of snapshots is %d != 0'' [FInt (int n)]"
| "header_error_Error ErrCompressionNotSupported =
     Errorf ''compression type bit has been set, but non default compression is not yet supported'' []"
| "header_error_Error ErrExternalDataFileNotSupported = Errorf ''external data files are not supported'' []"
| "header_error_Error ErrExtendedL2EntriesNotSupported = Errorf ''extended L2 entries are not yet supported'' []"
| "header_error_Error ErrRawExternalDataNotSupported = Errorf ''raw external data is not yet supported'' []"
| "header_error_Error ErrBitmapExtensionsNotSupported = Errorf ''bitmap extensions are not yet supported'' []"
| "header_error_Error (ErrInvalidReferenceCountOrder n) =
     Errorf ''despite that spec supports valus < 6, only refcount order 4 (two byte reference counts are supported), %d received''
       [FInt (int n)]"
| "header_error_Error (ErrInvalidHeaderLength n) =
     Errorf ''header_length field must be > %d for QCOW2 version 3 disks, %d received'' [FInt 104, FInt (int n)]"
| "header_error_Error (ErrOffsetIsNotAClusterBoundary offset cs) =
     Errorf ''offset %d is not a cluster boundary for cluster size %d'' [FInt (int offset), FInt (int cs)]"
| "header_error_Error ErrReferenceCountTableTooLarge = Errorf [] []"
| "header_error_Error ErrTooManyReferenceCountClusters = Errorf [] []"
| "header_error_Error (ErrInvalidVersion n) = Errorf ''only QCOW2 disk version 3 is supported now, received %d'' [FInt (int n)]"
| "header_error_Error (HErr er) = er"

definition ErrHeaderWrite :: "gerror \<Rightarrow> gerror" where
  "ErrHeaderWrite base = Errorf ''error while writing image header to a file'' [FErr base]"

section \<open>Arithmetic\<close>

text \<open>\<open>divRoundUp\<close> at the width \<open>w\<close> of its type argument: the sum wraps.\<close>

definition divRoundUp :: "nat \<Rightarrow> nat \<Rightarrow> nat \<Rightarrow> nat option" where
  "divRoundUp w dividend divisor =
     (if divisor = 0 then None else Some ((dividend + divisor - 1) mod 2 ^ w div divisor))"

definition getClusterSize :: "nat \<Rightarrow> nat" where
  "getClusterSize clusterBits = (if clusterBits < 64 then 2 ^ clusterBits else 0)"

definition offsetIsClusterBoundary :: "nat \<Rightarrow> nat \<Rightarrow> header_error option" where
  "offsetIsClusterBoundary offset cs =
     (if offset AND sub64 cs 1 \<noteq> 0 then Some (ErrOffsetIsNotAClusterBoundary offset cs) else None)"

definition checkAddUint64Boundaries :: "nat \<Rightarrow> nat \<Rightarrow> gerror option" where
  "checkAddUint64Boundaries first second =
     (if (2 ^ 64 - 1) - first < second
      then Some (Errorf ''sum of values %d and %d overflow uint64 boundarie'' [FInt (int first), FInt (int second)])
      else None)"

definition L1TableMaxSize :: nat where "L1TableMaxSize = 32 * 1024 * 1024"

definition V3BareHeaderSize :: nat where "V3BareHeaderSize = 104"

definition EmptyHeaderExtensionAreaSize :: nat where "EmptyHeaderExtensionAreaSize = 8"

definition DefaultClusterBits :: nat where "DefaultClusterBits = 16"

definition maxBackingFileNameSize :: nat where "maxBackingFileNameSize = 1023"

definition QcowMagic :: nat where "QcowMagic = 0x514649fb"

section \<open>The header\<close>

record ImageHeader =
  h_magic :: nat
  h_versionNumber :: nat
  h_backingFileOffset :: nat
  h_backingFileSize :: nat
  h_clusterBits :: nat
  h_virtualDiskSizeBytes :: nat
  h_cryptMethod :: nat
  h_l1Size :: nat
  h_l1TableOffset :: nat
  h_refCountTableOffset :: nat
  h_refCountTableClusters :: nat
  h_nbSnapshots :: nat
  h_snapshotOffset :: nat
  h_incompatibleFeatures :: nat
  h_compatibleFeatures :: nat
  h_autoClearFeatures :: nat
  h_refCountOrder :: nat
  h_Length :: nat
  h_compressionType :: byte
  h_clusterSize :: nat
  h_imageCorrupt :: bool
  h_imageRefCountDirty :: bool
  h_lazyRefcounts :: bool
  h_backingFilePath :: "byte list option"
  h_numClusters :: nat
  h_l2Size :: nat
  h_numL2Clusters :: nat
  h_l1Clusters :: nat
  h_refCountClustersNumberComputed :: nat

text \<open>The zero value of the type.\<close>

definition zero_header :: ImageHeader where
  "zero_header = \<lparr>h_magic = 0, h_versionNumber = 0, h_backingFileOffset = 0, h_backingFileSize = 0, h_clusterBits = 0,
     h_virtualDiskSizeBytes = 0, h_cryptMethod = 0, h_l1Size = 0, h_l1TableOffset = 0, h_refCountTableOffset = 0,
     h_refCountTableClusters = 0, h_nbSnapshots = 0, h_snapshotOffset = 0, h_incompatibleFeatures = 0,
     h_compatibleFeatures = 0, h_autoClearFeatures = 0, h_refCountOrder = 0, h_Length = 0, h_compressionType = 0,
     h_clusterSize = 0, h_imageCorrupt = False, h_imageRefCountDirty = False, h_lazyRefcounts = False,
     h_backingFilePath = None, h_numClusters = 0, h_l2Size = 0, h_numL2Clusters = 0, h_l1Clusters = 0,
     h_refCountClustersNumberComputed = 0\<rparr>"

definition diskSizeLimitForCluster :: "ImageHeader \<Rightarrow> nat" where
  "diskSizeLimitForCluster h = u64 (u64 (L1TableMaxSize * h_clusterSize h) * h_clusterSize h) div 8 div 8"

definition maxRefCountClusters :: "nat \<Rightarrow> nat \<Rightarrow> nat \<Rightarrow> nat \<Rightarrow> nat option" where
  "maxRefCountClusters numClusters numL2Clusters l1Clusters cs =
     do { let numberOfClusters = u32 (numClusters + numL2Clusters + l1Clusters + 1);
          forData \<leftarrow> divRoundUp 32 (u32 (numberOfClusters * 2)) cs;
          forRefCounts \<leftarrow> divRoundUp 32 (u32 (forData * 2)) cs;
          Some (u32 (forData + forRefCounts)) }"

definition findRefcountTableClustersNumber :: "nat \<Rightarrow> nat \<Rightarrow> nat \<Rightarrow> nat \<Rightarrow> nat option" where
  "findRefcountTableClustersNumber numClusters numL2Clusters l1Clusters cs =
     do { m \<leftarrow> maxRefCountClusters numClusters numL2Clusters l1Clusters cs;
          divRoundUp 32 (u32 (m * 8)) cs }"

definition preComputeTableSizes :: "ImageHeader \<Rightarrow> ImageHeader option" where
  "preComputeTableSizes h =
     do { n \<leftarrow> divRoundUp 64 (h_virtualDiskSizeBytes h) (h_clusterSize h);
          let numClusters = u32 n;
          let l2Size = u32 (h_clusterSize h div 8);
          numL2Clusters \<leftarrow> divRoundUp 32 numClusters l2Size;
          l1Clusters \<leftarrow> divRoundUp 32 numL2Clusters (u32 (h_clusterSize h));
          computed \<leftarrow> findRefcountTableClustersNumber numClusters numL2Clusters l1Clusters (u32 (h_clusterSize h));
          Some (h\<lparr>h_numClusters := numClusters, h_l2Size := l2Size, h_numL2Clusters := numL2Clusters,
                  h_l1Clusters := l1Clusters, h_refCountClustersNumberComputed := computed\<rparr>) }"

section \<open>Validation\<close>

definition validateMagic :: "ImageHeader \<Rightarrow> header_error option" where
  "validateMagic h = (if h_magic h \<noteq> QcowMagic then Some (ErrInvalidMagic (h_magic h)) else None)"

definition validateVersionNumber :: "ImageHeader \<Rightarrow> header_error option" where
  "validateVersionNumber h = (if h_versionNumber h \<noteq> 3 then Some (ErrInvalidVersion (h_versionNumber h)) else None)"

definition validateBackingFileSizeOffset :: "ImageHeader \<Rightarrow> header_error option" where
  "validateBackingFileSizeOffset h =
     (if h_backingFileOffset h = 0 \<and> h_backingFileSize h > 0
      then Some (ErrBackingFileZeroOffsetNameLengthNotZero (h_backingFileSize h))
      else if h_backingFileSize h = 0 \<and> h_backingFileOffset h > 0
      then Some (ErrBackingFileNameNonZeroOffsetZeroLength (h_backingFileOffset h))
      else if h_backingFileSize h > maxBackingFileNameSize then Some (ErrBackingFileNameTooLong (h_backingFileSize h))
      else None)"

definition validateClusterBits :: "ImageHeader \<Rightarrow> header_error option" where
  "validateClusterBits h =
     (if h_clusterBits h < 9 \<or> h_clusterBits h > 30 then Some (ErrInvalidClusterBits (h_clusterBits h)) else None)"

text \<open>The message shows both sizes with a unit; it is kept with the sizes themselves.\<close>

definition size_limit_error :: "nat \<Rightarrow> nat \<Rightarrow> gerror" where
  "size_limit_error virtualSize limit =
     Errorf ''virtual disk size is %s, must be less than %s due to L1 cache size limitation'' [FInt (int virtualSize), FInt (int limit)]"

definition validateVirtualDiskSize :: "ImageHeader \<Rightarrow> header_error option" where
  "validateVirtualDiskSize h =
     (if h_virtualDiskSizeBytes h > diskSizeLimitForCluster h
      then Some (HErr (size_limit_error (h_virtualDiskSizeBytes h) (diskSizeLimitForCluster h))) else None)"

definition validateCryptMethod :: "ImageHeader \<Rightarrow> header_error option" where
  "validateCryptMethod h = (if h_cryptMethod h \<noteq> 0 then Some (ErrUnsupportedCryptMethod (h_cryptMethod h)) else None)"

definition validateL1TableSize :: "ImageHeader \<Rightarrow> header_error option" where
  "validateL1TableSize h = (if h_l1Size h > L1TableMaxSize then Some (ErrL1TableTooLarge (h_l1Size h)) else None)"

definition validateL1TableOffset :: "ImageHeader \<Rightarrow> header_error option" where
  "validateL1TableOffset h =
     (if h_l1TableOffset h > h_virtualDiskSizeBytes h
      then Some (HErr (Errorf ''table offset %d is more than virtual file size %d''
             [FInt (int (h_l1TableOffset h)), FInt (int (h_virtualDiskSizeBytes h))])) else None)"

definition validateRefCountTableClusters :: "ImageHeader \<Rightarrow> header_error option" where
  "validateRefCountTableClusters h = (if h_refCountTableClusters h = 0 then Some ErrNoReferenceCountTableClusters else None)"

definition validateNbSnapshots :: "ImageHeader \<Rightarrow> header_error option" where
  "validateNbSnapshots h = (if h_nbSnapshots h \<noteq> 0 then Some (ErrSnapshotsUnsupported (h_nbSnapshots h)) else None)"

text \<open>
  The receiver of \<open>validate\<close> is a copy, so the two flags that this check sets are set on the copy; the
  pair is the copy and the error.
\<close>

definition validateIncompatibleFeatures :: "ImageHeader \<Rightarrow> ImageHeader \<times> header_error option" where
  "validateIncompatibleFeatures h =
     (let f = h_incompatibleFeatures h;
          h1 = (if bit f 1 then h\<lparr>h_imageCorrupt := True\<rparr> else h);
          h2 = (if bit f 0 then h1\<lparr>h_imageRefCountDirty := True\<rparr> else h1)
      in (h2, if bit f 3 then Some ErrCompressionNotSupported
              else if bit f 2 then Some ErrExternalDataFileNotSupported
              else if bit f 4 then Some ErrExtendedL2EntriesNotSupported else None))"

definition validateAutoClearFeatures :: "ImageHeader \<Rightarrow> header_error option" where
  "validateAutoClearFeatures h =
     (if h_autoClearFeatures h AND 2 \<noteq> 0 then Some ErrRawExternalDataNotSupported
      else if h_autoClearFeatures h AND 1 \<noteq> 0 then Some ErrBitmapExtensionsNotSupported else None)"

definition validateRefCountOrder :: "ImageHeader \<Rightarrow> header_error option" where
  "validateRefCountOrder h = (if h_refCountOrder h \<noteq> 4 then Some (ErrInvalidReferenceCountOrder (h_refCountOrder h)) else None)"

definition validateHeaderLength :: "ImageHeader \<Rightarrow> header_error option" where
  "validateHeaderLength h = (if h_Length h < V3BareHeaderSize then Some (ErrInvalidHeaderLength (h_Length h)) else None)"

text \<open>The first error of a sequence of checks.\<close>

definition or_else :: "header_error option \<Rightarrow> header_error option \<Rightarrow> header_error option" where
  "or_else a b = (case a of Some er \<Rightarrow> Some er | None \<Rightarrow> b)"

definition checkOffsetsForClusterBoundaries :: "ImageHeader \<Rightarrow> header_error option" where
  "checkOffsetsForClusterBoundaries h =
     or_else (offsetIsClusterBoundary (h_l1TableOffset h) (h_clusterSize h))
       (or_else (offsetIsClusterBoundary (h_snapshotOffset h) (h_clusterSize h))
         (offsetIsClusterBoundary (h_refCountTableOffset h) (h_clusterSize h)))"

definition refcountTableSizeSanityCheck :: "ImageHeader \<Rightarrow> header_error option" where
  "refcountTableSizeSanityCheck h =
     (let total = u32 (h_l1Clusters h + h_refCountClustersNumberComputed h) in
      if h_refCountTableClusters h > u32 (2 * h_refCountClustersNumberComputed h)
      then Some (HErr (Errorf ''too many clusters (%d) specified for reference count table'' [FInt (int (h_refCountTableClusters h))]))
      else if total > L1TableMaxSize
      then Some (HErr (Errorf ''reference count table is too large (%d)'' [FInt (int total)])) else None)"

definition validateNumberOfL2Clusters :: "ImageHeader \<Rightarrow> header_error option" where
  "validateNumberOfL2Clusters h =
     (if h_numL2Clusters h > L1TableMaxSize
      then Some (HErr (Errorf ''reference count table is too large (%d)'' [FInt (int (h_numL2Clusters h))])) else None)"

definition validate :: "ImageHeader \<Rightarrow> header_error option" where
  "validate h =
     foldr or_else
       [validateMagic h, validateVersionNumber h, validateBackingFileSizeOffset h, validateClusterBits h,
        validateVirtualDiskSize h, validateCryptMethod h, validateL1TableSize h, validateL1TableOffset h,
        validateRefCountTableClusters h, validateNbSnapshots h, snd (validateIncompatibleFeatures h),
        validateAutoClearFeatures h, validateRefCountOrder h, validateHeaderLength h,
        checkOffsetsForClusterBoundaries h, validateNumberOfL2Clusters h, refcountTableSizeSanityCheck h] None"

section \<open>Encoding and decoding\<close>

definition toByte :: "ImageHeader \<Rightarrow> byte list" where
  "toByte h =
     put_be 4 (h_magic h) @ put_be 4 (h_versionNumber h) @ put_be 8 (h_backingFileOffset h) @ put_be 4 (h_backingFileSize h)
     @ put_be 4 (h_clusterBits h) @ put_be 8 (h_virtualDiskSizeBytes h) @ put_be 4 (h_cryptMethod h) @ put_be 4 (h_l1Size h)
     @ put_be 8 (h_l1TableOffset h) @ put_be 8 (h_refCountTableOffset h) @ put_be 4 (h_refCountTableClusters h)
     @ put_be 4 (h_nbSnapshots h) @ put_be 8 (h_snapshotOffset h) @ put_be 8 (h_incompatibleFeatures h)
     @ put_be 8 (h_compatibleFeatures h) @ put_be 8 (h_autoClearFeatures h) @ put_be 4 (h_refCountOrder h) @ put_be 4 (h_Length h)
     @ (if h_Length h = 104 then [] else [h_compressionType h, 0, 0, 0, 0, 0, 0, 0])"

text \<open>The fields are read one after the other with \<open>binary.Read\<close>.\<close>

fun read_fields :: "os_calls \<Rightarrow> nat list \<Rightarrow> OsFile \<Rightarrow> OsFile \<times> nat list result" where
  "read_fields os [] f = (f, Inr [])"
| "read_fields os (n # ns) f =
     (case file_ReadFull os f n of
        (f1, Inl er) \<Rightarrow> (f1, Inl er)
      | (f1, Inr bs) \<Rightarrow>
          (case read_fields os ns f1 of
             (f2, Inl er) \<Rightarrow> (f2, Inl er)
           | (f2, Inr vs) \<Rightarrow> (f2, Inr (be bs # vs))))"

definition header_fields :: "nat list" where
  "header_fields = [4, 4, 8, 4, 4, 8, 4, 4, 8, 8, 4, 4, 8, 8, 8, 8, 4, 4]"

definition header_of :: "nat list \<Rightarrow> byte \<Rightarrow> byte list option \<Rightarrow> ImageHeader" where
  "header_of v ct path = zero_header
     \<lparr>h_magic := v ! 0, h_versionNumber := v ! 1, h_backingFileOffset := v ! 2, h_backingFileSize := v ! 3,
      h_clusterBits := v ! 4, h_virtualDiskSizeBytes := v ! 5, h_cryptMethod := v ! 6, h_l1Size := v ! 7,
      h_l1TableOffset := v ! 8, h_refCountTableOffset := v ! 9, h_refCountTableClusters := v ! 10, h_nbSnapshots := v ! 11,
      h_snapshotOffset := v ! 12, h_incompatibleFeatures := v ! 13, h_compatibleFeatures := v ! 14,
      h_autoClearFeatures := v ! 15, h_refCountOrder := v ! 16, h_Length := v ! 17, h_compressionType := ct,
      h_clusterSize := getClusterSize (v ! 4), h_backingFilePath := path\<rparr>"

definition read_compression :: "os_calls \<Rightarrow> nat \<Rightarrow> OsFile \<Rightarrow> OsFile \<times> byte result" where
  "read_compression os headerLength f =
     (if headerLength > V3BareHeaderSize
      then (case file_ReadFull os f 1 of (f1, Inl er) \<Rightarrow> (f1, Inl er) | (f1, Inr bs) \<Rightarrow> (f1, Inr (hd bs)))
      else (f, Inr 0))"

definition read_backing :: "os_calls \<Rightarrow> nat \<Rightarrow> nat \<Rightarrow> OsFile \<Rightarrow> OsFile \<times> byte list option result" where
  "read_backing os offset count f =
     (if offset \<noteq> 0 \<and> count \<noteq> 0 then
        (case file_Seek f offset of
           Inl er \<Rightarrow> (f, Inl (Errorf ''while seeking backing file offset, an error occured %s'' [FErr er]))
         | Inr f1 \<Rightarrow>
             (case file_ReadFull os f1 count of
                (f2, Inl er) \<Rightarrow> (f2, Inl (Errorf ''while reading backing file path, an error occured %s'' [FErr er]))
              | (f2, Inr bs) \<Rightarrow> (f2, Inr (Some bs))))
      else (f, Inr None))"

definition imageHeaderFromFile :: "os_calls \<Rightarrow> OsFile \<Rightarrow> (OsFile \<times> (header_error + ImageHeader)) option" where
  "imageHeaderFromFile os f =
     (case read_fields os header_fields (f\<lparr>fpos := 0\<rparr>) of
        (f1, Inl er) \<Rightarrow> Some (f1, Inl (HErr er))
      | (f1, Inr v) \<Rightarrow>
          (case read_compression os (v ! 17) f1 of
             (f2, Inl er) \<Rightarrow> Some (f2, Inl (HErr er))
           | (f2, Inr ct) \<Rightarrow>
               (case read_backing os (v ! 2) (v ! 3) f2 of
                  (f3, Inl er) \<Rightarrow> Some (f3, Inl (HErr er))
                | (f3, Inr path) \<Rightarrow>
                    (case preComputeTableSizes (header_of v ct path) of
                       None \<Rightarrow> None
                     | Some h \<Rightarrow> Some (f3, case validate h of Some er \<Rightarrow> Inl er | None \<Rightarrow> Inr h)))))"

section \<open>Creation\<close>

definition createHeaderForSizeAndPath :: "nat \<Rightarrow> byte list option \<Rightarrow> ImageHeader result option" where
  "createHeaderForSizeAndPath virtualSize backingFilePath =
     do { let cs = getClusterSize DefaultClusterBits;
          let l2Size = u32 (cs div 8);
          n \<leftarrow> divRoundUp 64 virtualSize cs;
          let numClusters = u32 n;
          numL2Clusters \<leftarrow> divRoundUp 32 numClusters l2Size;
          l1Clusters \<leftarrow> divRoundUp 32 numL2Clusters (u32 cs);
          let maxLength = u32 cs - V3BareHeaderSize - EmptyHeaderExtensionAreaSize;
          let len = (case backingFilePath of None \<Rightarrow> 0 | Some p \<Rightarrow> u32 (length p));
          let off = (case backingFilePath of None \<Rightarrow> 0 | Some p \<Rightarrow> V3BareHeaderSize + EmptyHeaderExtensionAreaSize);
          if len > maxLength
          then Some (Inl (Errorf ''backing file path of size %d is too long, expected values < %d'' [FInt (int len), FInt (int maxLength)]))
          else
          do { rc \<leftarrow> findRefcountTableClustersNumber numClusters numL2Clusters l1Clusters (u32 cs);
               let h = zero_header
                 \<lparr>h_magic := QcowMagic, h_versionNumber := 3, h_backingFileOffset := off, h_backingFileSize := len,
                  h_clusterBits := DefaultClusterBits, h_virtualDiskSizeBytes := virtualSize, h_l1Size := numL2Clusters,
                  h_l1TableOffset := cs, h_refCountTableOffset := u64 (cs * u32 (l1Clusters + 1)),
                  h_refCountTableClusters := rc, h_refCountOrder := 4, h_Length := V3BareHeaderSize,
                  h_backingFilePath := backingFilePath, h_clusterSize := cs\<rparr>;
               if virtualSize > diskSizeLimitForCluster h then Some (Inl (size_limit_error virtualSize (diskSizeLimitForCluster h)))
               else do { h' \<leftarrow> preComputeTableSizes h; Some (Inr h') } } }"

text \<open>A step of \<open>writeToFile\<close>: nothing happens after an error.\<close>

definition header_write :: "os_calls \<Rightarrow> byte list \<Rightarrow> OsFile \<times> gerror option \<Rightarrow> OsFile \<times> gerror option" where
  "header_write os bs s =
     (case s of
        (f, Some er) \<Rightarrow> (f, Some er)
      | (f, None) \<Rightarrow>
          (case file_Write (os_write os) f bs of
             (f', Some er) \<Rightarrow> (f', Some (ErrHeaderWrite er))
           | (f', None) \<Rightarrow> (f', None)))"

definition header_seek :: "nat \<Rightarrow> OsFile \<times> gerror option \<Rightarrow> OsFile \<times> gerror option" where
  "header_seek offset s =
     (case s of
        (f, Some er) \<Rightarrow> (f, Some er)
      | (f, None) \<Rightarrow> (case file_Seek f offset of Inl er \<Rightarrow> (f, Some (ErrHeaderWrite er)) | Inr f' \<Rightarrow> (f', None)))"

definition writeToFile :: "os_calls \<Rightarrow> OsFile \<Rightarrow> ImageHeader \<Rightarrow> OsFile \<times> gerror option" where
  "writeToFile os f h =
     (let s0 = (f\<lparr>fpos := 0\<rparr>, None);
          s1 = header_write os (toByte h) s0;
          s2 = header_write os (replicate 8 0) s1;
          s3 = (case h_backingFilePath h of None \<Rightarrow> s2 | Some p \<Rightarrow> header_write os p s2);
          refCountBlocksSize = u64 (h_refCountTableClusters h * h_clusterSize h);
          s4 = header_seek (sub64 (u64 (refCountBlocksSize + h_refCountTableOffset h)) 2) s3
      in header_write os [0] s4)"

end
