(* ===== verification/PointerTable.thy ===== *)
theory PointerTable
  imports QcowHeader
begin

text \<open>
  The two-level table from guest addresses to clusters of a qcow2 image
  (\<^verbatim>\<open>src/disk/image/qcow2/pointer_table_caches.go\<close>), with the write-back cache and without.  Every
  operation takes and returns the file; \<open>None\<close> is a panic.  An error of the operating system is \<open>QErr\<close>,
  the errors by which the tables ask their caller for clusters are the other constructors.
\<close>

unbundle bit_operations_syntax

section \<open>Errors and entries\<close>

datatype qerror =
    ErrNeedPointerCluster
  | ErrNeedFreeClusters "(nat \<times> nat) list" nat
  | ErrNeedNewCluster
  | ErrNeedReadCluster nat
  | QErr gerror

definition L1TableOffsetMask :: nat where "L1TableOffsetMask = 0x00fffffffffffe00"

definition L2TableOffsetMask :: nat where "L2TableOffsetMask = 0x00fffffffffffe00"

definition CompressedFlag :: nat where "CompressedFlag = 2 ^ 62"

definition ClusterUsedFlag :: nat where "ClusterUsedFlag = 2 ^ 63"

definition l1TableIndex :: "ImageHeader \<Rightarrow> nat \<Rightarrow> nat" where
  "l1TableIndex h address = address div h_clusterSize h div h_l2Size h"

definition l2TableIndex :: "ImageHeader \<Rightarrow> nat \<Rightarrow> nat" where
  "l2TableIndex h address = address div h_clusterSize h mod h_l2Size h"

definition readL2Cluster :: "os_calls \<Rightarrow> QcowRawFile \<Rightarrow> nat \<Rightarrow> QcowRawFile \<times> nat list result" where
  "readL2Cluster os rf clusterAddress =
     (case readPointerCluster os rf clusterAddress 0 of
        (rf', Inl er) \<Rightarrow> (rf', Inl er)
      | (rf', Inr vs) \<Rightarrow>
          if \<exists>v \<in> set vs. v AND CompressedFlag \<noteq> 0
          then (rf', Inl (Errorf ''compressed clusters are not supported'' []))
          else (rf', Inr (map (\<lambda>v. v AND L2TableOffsetMask) vs)))"

section \<open>The write-back cache\<close>

record pointerWriteBackCache =
  pc_l1 :: "nat VectorCache"
  pc_header :: ImageHeader
  pc_cache :: "nat LruCacheMap"
  pc_evicted :: "nat list"

definition newL1WriteBackCache :: "os_calls \<Rightarrow> ImageHeader \<Rightarrow> QcowRawFile \<Rightarrow> QcowRawFile \<times> nat VectorCache result" where
  "newL1WriteBackCache os h rf =
     (case readPointerTable os rf (h_l1TableOffset h) (h_numL2Clusters h) L1TableOffsetMask of
        (rf', Inl er) \<Rightarrow> (rf', Inl er)
      | (rf', Inr t) \<Rightarrow> (rf', Inr (vectorCacheFromArray t)))"

definition newPointerWriteBackCache ::
    "os_calls \<Rightarrow> ImageHeader \<Rightarrow> QcowRawFile \<Rightarrow> nat \<Rightarrow> QcowRawFile \<times> pointerWriteBackCache result" where
  "newPointerWriteBackCache os h rf cacheSize =
     (case newL1WriteBackCache os h rf of
        (rf', Inl er) \<Rightarrow> (rf', Inl er)
      | (rf', Inr t) \<Rightarrow>
          (rf', Inr \<lparr>pc_l1 = t, pc_header = h, pc_cache = newCacheMap cacheSize, pc_evicted = []\<rparr>))"

text \<open>What happens to a changed table that leaves the cache.  The address is recorded before the write.\<close>

definition evict_l2 :: "os_calls \<Rightarrow> (QcowRawFile \<times> nat list, nat) writeCallback" where
  "evict_l2 os s index v =
     (case s of (rf, ev) \<Rightarrow>
        (case writePointerTable os rf index (vc_data v) ClusterUsedFlag of
           (rf', er) \<Rightarrow> ((rf', List.insert index ev), er)))"

definition evict_l2_read :: "os_calls \<Rightarrow> (QcowRawFile \<times> nat list, nat) writeCallback" where
  "evict_l2_read os s index v = (if rf_readOnly (fst s) then (s, None) else evict_l2 os s index v)"

definition load_l2 ::
    "os_calls \<Rightarrow> QcowRawFile \<Rightarrow> pointerWriteBackCache \<Rightarrow> nat \<Rightarrow> (QcowRawFile \<times> pointerWriteBackCache \<times> gerror option) option" where
  "load_l2 os rf pc l2 =
     (if containsKey (pc_cache pc) l2 then Some (rf, pc, None)
      else case readL2Cluster os rf l2 of
        (rf1, Inl er) \<Rightarrow> Some (rf1, pc, Some er)
      | (rf1, Inr data) \<Rightarrow>
          (case lru_insert (evict_l2_read os) (rf1, pc_evicted pc) (pc_cache pc) l2 (vectorCacheFromArray data) of
             None \<Rightarrow> None
           | Some ((rf2, ev), c, er) \<Rightarrow> Some (rf2, pc\<lparr>pc_cache := c, pc_evicted := ev\<rparr>, er)))"

definition readClusterAddress ::
    "os_calls \<Rightarrow> QcowRawFile \<Rightarrow> pointerWriteBackCache \<Rightarrow> nat \<Rightarrow> (QcowRawFile \<times> pointerWriteBackCache \<times> (qerror + nat)) option" where
  "readClusterAddress os rf pc virtualAddress =
     (case vc_get (pc_l1 pc) (l1TableIndex (pc_header pc) virtualAddress) of
        None \<Rightarrow> None
      | Some l2 \<Rightarrow>
          if l2 = 0 then Some (rf, pc, Inl ErrNeedPointerCluster)
          else (case load_l2 os rf pc l2 of
                  None \<Rightarrow> None
                | Some (rf', pc', Some er) \<Rightarrow> Some (rf', pc', Inl (QErr er))
                | Some (rf', pc', None) \<Rightarrow>
                    (case lru_get (pc_cache pc') l2 of
                       (c, None) \<Rightarrow> None
                     | (c, Some d) \<Rightarrow>
                         (case vc_get (lru_vectors c ! d) (l2TableIndex (pc_header pc) virtualAddress) of
                            None \<Rightarrow> None
                          | Some a \<Rightarrow> Some (rf', pc'\<lparr>pc_cache := c\<rparr>, Inr a)))))"

definition addNewPointerCluster ::
    "os_calls \<Rightarrow> QcowRawFile \<Rightarrow> pointerWriteBackCache \<Rightarrow> nat \<Rightarrow> nat \<Rightarrow>
     (QcowRawFile \<times> pointerWriteBackCache \<times> gerror option) option" where
  "addNewPointerCluster os rf pc virtualAddress newClusterAddress =
     (case vc_set (pc_l1 pc) (l1TableIndex (pc_header pc) virtualAddress) newClusterAddress of
        None \<Rightarrow> None
      | Some l1 \<Rightarrow>
          (case lru_insert (evict_l2 os) (rf, pc_evicted pc) (pc_cache pc) newClusterAddress
                  (newVectorCache 0 (h_l2Size (pc_header pc))) of
             None \<Rightarrow> None
           | Some ((rf', ev), c, er) \<Rightarrow> Some (rf', pc\<lparr>pc_l1 := l1, pc_cache := c, pc_evicted := ev\<rparr>, er)))"

definition put_vector :: "nat LruCacheMap \<Rightarrow> nat \<Rightarrow> nat VectorCache \<Rightarrow> nat LruCacheMap" where
  "put_vector c d v = c\<lparr>lru_vectors := (lru_vectors c)[d := v]\<rparr>"

text \<open>
  \<open>obtainNewCluster\<close> is the closure of the image; \<open>'s\<close> is what it changes besides the file.  The result
  is nil, a plain error, or the request to count references, which callers treat as success.
\<close>

definition updateClusterAddress ::
    "('s \<Rightarrow> QcowRawFile \<Rightarrow> 's \<times> QcowRawFile \<times> nat result) \<Rightarrow> 's \<Rightarrow> QcowRawFile \<Rightarrow> pointerWriteBackCache \<Rightarrow> nat \<Rightarrow> nat \<Rightarrow>
     ('s \<times> QcowRawFile \<times> pointerWriteBackCache \<times> qerror option) option" where
  "updateClusterAddress obtainNewCluster s rf pc virtualAddress newClusterAddress =
     (let h = pc_header pc; i1 = l1TableIndex h virtualAddress; i2 = l2TableIndex h virtualAddress in
      case vc_get (pc_l1 pc) i1 of
        None \<Rightarrow> None
      | Some l2 \<Rightarrow>
          (case lru_get (pc_cache pc) l2 of
             (c, None) \<Rightarrow> None
           | (c, Some d) \<Rightarrow>
               let item = lru_vectors c ! d in
               if \<not> vc_dirty item \<and> l2 \<notin> set (pc_evicted pc) then
                 (case obtainNewCluster s rf of
                    (s', rf', Inl er) \<Rightarrow> Some (s', rf', pc\<lparr>pc_cache := c\<rparr>, Some (QErr er))
                  | (s', rf', Inr newL2) \<Rightarrow>
                      (case vc_set (pc_l1 pc) i1 newL2 of
                         None \<Rightarrow> None
                       | Some l1 \<Rightarrow>
                           (case lru_remove c l2 of
                              (c1, Some er) \<Rightarrow> Some (s', rf', pc\<lparr>pc_l1 := l1, pc_cache := c1\<rparr>, Some (QErr er))
                            | (c1, None) \<Rightarrow>
                                (case vc_set item i2 newClusterAddress of
                                   None \<Rightarrow> None
                                 | Some item' \<Rightarrow>
                                     (case lru_set (put_vector c1 d item') newL2 item' of
                                        (c2, Some er) \<Rightarrow> Some (s', rf', pc\<lparr>pc_l1 := l1, pc_cache := c2\<rparr>, Some (QErr er))
                                      | (c2, None) \<Rightarrow>
                                          Some (s', rf', pc\<lparr>pc_l1 := l1, pc_cache := c2\<rparr>,
                                                Some (ErrNeedFreeClusters [(l2, 0), (newL2, 1)] l2)))))))
               else
                 (case vc_set item i2 newClusterAddress of
                    None \<Rightarrow> None
                  | Some item' \<Rightarrow> Some (s, rf, pc\<lparr>pc_cache := put_vector c d item'\<rparr>, None))))"

text \<open>\<open>sync\<close> visits the cached tables in the order \<open>ks\<close>, which Go does not specify.\<close>

fun sync_tables ::
    "os_calls \<Rightarrow> nat list \<Rightarrow> QcowRawFile \<Rightarrow> nat LruCacheMap \<Rightarrow> QcowRawFile \<times> nat LruCacheMap \<times> gerror option" where
  "sync_tables os [] rf c = (rf, c, None)"
| "sync_tables os (address # ks) rf c =
     (let d = ce_data (the (map_of (lru_store c) address)); v = lru_vectors c ! d in
      if \<not> vc_dirty v then sync_tables os ks rf c
      else if address = 0 then (rf, c, Some (Errorf ''invalid address value 0'' []))
      else case writePointerTable os rf address (vc_data v) ClusterUsedFlag of
             (rf', Some er) \<Rightarrow> (rf', c, Some er)
           | (rf', None) \<Rightarrow> sync_tables os ks rf' (put_vector c d (vc_markClean v)))"

definition pt_sync ::
    "os_calls \<Rightarrow> nat list \<Rightarrow> QcowRawFile \<Rightarrow> pointerWriteBackCache \<Rightarrow> QcowRawFile \<times> pointerWriteBackCache \<times> gerror option" where
  "pt_sync os ks rf pc = (case sync_tables os ks rf (pc_cache pc) of (rf', c, er) \<Rightarrow> (rf', pc\<lparr>pc_cache := c\<rparr>, er))"

definition syncL1 ::
    "os_calls \<Rightarrow> QcowRawFile \<Rightarrow> pointerWriteBackCache \<Rightarrow> QcowRawFile \<times> pointerWriteBackCache \<times> bool result" where
  "syncL1 os rf pc =
     (if vc_dirty (pc_l1 pc) then
        (case writePointerTable os rf (h_l1TableOffset (pc_header pc)) (vc_data (pc_l1 pc)) 0 of
           (rf', Some er) \<Rightarrow> (rf', pc, Inl er)
         | (rf', None) \<Rightarrow> (rf', pc\<lparr>pc_evicted := [], pc_l1 := vc_markClean (pc_l1 pc)\<rparr>, Inr True))
      else (rf, pc, Inr False))"

section \<open>Without a cache\<close>

definition l2ClusterAddressOffsetInFile :: "ImageHeader \<Rightarrow> nat \<Rightarrow> nat" where
  "l2ClusterAddressOffsetInFile h virtualAddress = u64 (h_l1TableOffset h + 8 * l1TableIndex h virtualAddress)"

definition nc_getL2ClusterAddress :: "os_calls \<Rightarrow> ImageHeader \<Rightarrow> QcowRawFile \<Rightarrow> nat \<Rightarrow> nat result" where
  "nc_getL2ClusterAddress os h rf va = readUint64At os rf (l2ClusterAddressOffsetInFile h va)"

definition nc_setL2ClusterAddress ::
    "os_calls \<Rightarrow> ImageHeader \<Rightarrow> QcowRawFile \<Rightarrow> nat \<Rightarrow> nat \<Rightarrow> QcowRawFile \<times> nat result" where
  "nc_setL2ClusterAddress os h rf va newL2 =
     (case writeUint64At os rf newL2 (l2ClusterAddressOffsetInFile h va) of
        (rf', Some er) \<Rightarrow> (rf', Inl er)
      | (rf', None) \<Rightarrow> (rf', Inr newL2))"

definition nc_readClusterAddress :: "os_calls \<Rightarrow> ImageHeader \<Rightarrow> QcowRawFile \<Rightarrow> nat \<Rightarrow> qerror + nat" where
  "nc_readClusterAddress os h rf va =
     (case nc_getL2ClusterAddress os h rf va of
        Inl er \<Rightarrow> Inl (QErr er)
      | Inr l2 \<Rightarrow>
          if l2 = 0 then Inl ErrNeedPointerCluster
          else case readUint64At os rf (u64 (l2 + 8 * l2TableIndex h va)) of Inl er \<Rightarrow> Inl (QErr er) | Inr a \<Rightarrow> Inr a)"

definition nc_addNewPointerCluster ::
    "os_calls \<Rightarrow> ImageHeader \<Rightarrow> QcowRawFile \<Rightarrow> nat \<Rightarrow> nat \<Rightarrow> QcowRawFile \<times> gerror option" where
  "nc_addNewPointerCluster os h rf va newL2 =
     (case nc_setL2ClusterAddress os h rf va newL2 of (rf', Inl er) \<Rightarrow> (rf', Some er) | (rf', Inr _) \<Rightarrow> (rf', None))"

definition nc_updateClusterAddress ::
    "os_calls \<Rightarrow> ImageHeader \<Rightarrow> QcowRawFile \<Rightarrow> nat \<Rightarrow> nat \<Rightarrow> QcowRawFile \<times> gerror option" where
  "nc_updateClusterAddress os h rf va a =
     (case nc_getL2ClusterAddress os h rf va of
        Inl er \<Rightarrow> (rf, Some er)
      | Inr l2 \<Rightarrow> writeUint64At os rf a (u64 (l2 + 8 * l2TableIndex h va)))"

end
