(* ===== verification/PointerLaws.thy ===== *)
theory PointerLaws
  imports PointerTable
begin

text \<open>
  The pointer tables refine a list of tables.  \<open>mem_image\<close> is what the image is for its user: for
  every slot of the first level no table, or the entries of the table, taken from the cache or from the
  file.  \<open>disk_image\<close> is what another process would find if this one stopped now.  Reading changes
  neither, an update changes one entry of the first and nothing of the second, and writing the cache
  back makes the second equal to the first.
\<close>

unbundle bit_operations_syntax

section \<open>Tables in the file\<close>

definition geometry :: "ImageHeader \<Rightarrow> QcowRawFile \<Rightarrow> bool" where
  "geometry h rf \<longleftrightarrow> rf_clusterSize rf = h_clusterSize h \<and> 8 * h_l2Size h = h_clusterSize h \<and> 0 < h_l2Size h
     \<and> \<not> rf_readOnly rf \<and> h_l1TableOffset h + 8 * h_numL2Clusters h \<le> length (fdata (rf_file rf))
     \<and> length (fdata (rf_file rf)) < 2 ^ 63"

definition cluster_ok :: "ImageHeader \<Rightarrow> QcowRawFile \<Rightarrow> nat \<Rightarrow> bool" where
  "cluster_ok h rf a \<longleftrightarrow> a \<noteq> 0 \<and> h_clusterSize h dvd a \<and> a + h_clusterSize h \<le> length (fdata (rf_file rf))
     \<and> (a + h_clusterSize h \<le> h_l1TableOffset h \<or> h_l1TableOffset h + 8 * h_numL2Clusters h \<le> a)"

definition entry_ok :: "nat \<Rightarrow> bool" where
  "entry_ok v \<longleftrightarrow> v AND L2TableOffsetMask = v"

definition disk_l1 :: "ImageHeader \<Rightarrow> QcowRawFile \<Rightarrow> nat list" where
  "disk_l1 h rf = map (\<lambda>v. v AND L1TableOffsetMask) (disk_words (rf_file rf) (h_l1TableOffset h) (h_numL2Clusters h))"

definition raw_l2 :: "ImageHeader \<Rightarrow> QcowRawFile \<Rightarrow> nat \<Rightarrow> nat list" where
  "raw_l2 h rf a = disk_words (rf_file rf) a (h_l2Size h)"

definition disk_l2 :: "ImageHeader \<Rightarrow> QcowRawFile \<Rightarrow> nat \<Rightarrow> nat list" where
  "disk_l2 h rf a = map (\<lambda>v. v AND L2TableOffsetMask) (raw_l2 h rf a)"

definition supported :: "ImageHeader \<Rightarrow> QcowRawFile \<Rightarrow> nat \<Rightarrow> bool" where
  "supported h rf a \<longleftrightarrow> (\<forall>v \<in> set (raw_l2 h rf a). v AND CompressedFlag = 0)"

lemma masked_bound: "v AND m = v \<Longrightarrow> v \<le> (m::nat)"
  by (metis and_nat_def nat_le_iff of_nat_and_eq AND_upper2 of_nat_0_le_iff)

lemma entry_flagged:
  assumes "entry_ok v"
  shows "flagged ClusterUsedFlag v < 2 ^ 64" "flagged ClusterUsedFlag v AND L2TableOffsetMask = v"
    "flagged ClusterUsedFlag v AND CompressedFlag = 0"
proof -
  have m: "L2TableOffsetMask < 2 ^ 56" "ClusterUsedFlag AND L2TableOffsetMask = 0" "L2TableOffsetMask AND CompressedFlag = 0"
    "ClusterUsedFlag AND CompressedFlag = 0"
    by (simp_all add: L2TableOffsetMask_def ClusterUsedFlag_def CompressedFlag_def)
  have v: "v AND L2TableOffsetMask = v" using assms by (simp add: entry_ok_def)
  have dist: "(x OR y) AND z = (x AND z) OR (y AND z)" for x y z :: nat by (auto simp: bit_eq_iff bit_simps)
  have "v AND CompressedFlag = v AND (L2TableOffsetMask AND CompressedFlag)" using v by (metis and.assoc)
  then have vc: "v AND CompressedFlag = 0" using m(3) by simp
  have "v \<le> L2TableOffsetMask" using v by (rule masked_bound)
  then have "v < 2 ^ 64" using m(1) by simp
  then have "take_bit 64 (v OR ClusterUsedFlag) = v OR ClusterUsedFlag"
    by (simp add: take_bit_nat_eq_self ClusterUsedFlag_def)
  then have "v OR ClusterUsedFlag < 2 ^ 64" by (metis take_bit_nat_less_exp)
  then show "flagged ClusterUsedFlag v < 2 ^ 64" by (simp add: flagged_def)
  show "flagged ClusterUsedFlag v AND L2TableOffsetMask = v" using v m(2) by (simp add: flagged_def dist)
  show "flagged ClusterUsedFlag v AND CompressedFlag = 0" using vc m(4) by (simp add: flagged_def dist)
qed

lemma masked_ok: "entry_ok (v AND L2TableOffsetMask)"
  by (simp add: entry_ok_def and.assoc)

text \<open>A file that differs at most in the table at \<open>k\<close>.\<close>

definition same_but :: "ImageHeader \<Rightarrow> QcowRawFile \<Rightarrow> QcowRawFile \<Rightarrow> nat \<Rightarrow> bool" where
  "same_but h rf rf' k \<longleftrightarrow> geometry h rf' \<and> length (fdata (rf_file rf)) \<le> length (fdata (rf_file rf'))
     \<and> rf_clusterMask rf' = rf_clusterMask rf
     \<and> disk_l1 h rf' = disk_l1 h rf
     \<and> (\<forall>a. h_clusterSize h dvd a \<longrightarrow> a \<noteq> k \<longrightarrow> a + h_clusterSize h \<le> length (fdata (rf_file rf)) \<longrightarrow> raw_l2 h rf' a = raw_l2 h rf a)"

text \<open>A file that keeps what it had outside of the clusters \<open>K\<close>.\<close>

definition keeps_outside :: "ImageHeader \<Rightarrow> nat set \<Rightarrow> QcowRawFile \<Rightarrow> QcowRawFile \<Rightarrow> bool" where
  "keeps_outside h K rf rf' \<longleftrightarrow> length (fdata (rf_file rf)) \<le> length (fdata (rf_file rf')) \<and> rf_clusterMask rf' = rf_clusterMask rf
     \<and> (\<forall>a. h_clusterSize h dvd a \<longrightarrow> a \<notin> K \<longrightarrow> a + h_clusterSize h \<le> length (fdata (rf_file rf)) \<longrightarrow> raw_l2 h rf' a = raw_l2 h rf a)"

lemma keeps_refl [simp]: "keeps_outside h K rf rf"
  by (simp add: keeps_outside_def)

lemma keeps_same_but: "same_but h rf rf' k \<Longrightarrow> k \<in> K \<Longrightarrow> keeps_outside h K rf rf'"
  by (auto simp: same_but_def keeps_outside_def)

lemma keeps_trans:
  assumes "keeps_outside h K rf rf1" "keeps_outside h K' rf1 rf2" "K \<subseteq> K2" "K' \<subseteq> K2"
  shows "keeps_outside h K2 rf rf2"
proof -
  note A = assms(1) [unfolded keeps_outside_def] and B = assms(2) [unfolded keeps_outside_def]
  have "raw_l2 h rf2 a = raw_l2 h rf a" if "h_clusterSize h dvd a" "a \<notin> K2" "a + h_clusterSize h \<le> length (fdata (rf_file rf))" for a
  proof -
    have "a \<notin> K" "a \<notin> K'" "a + h_clusterSize h \<le> length (fdata (rf_file rf1))" using that assms(3,4) A by auto
    then show ?thesis using A B that by simp
  qed
  then show ?thesis using A B by (simp add: keeps_outside_def)
qed

lemma keeps_mono: "keeps_outside h K rf rf' \<Longrightarrow> K \<subseteq> K' \<Longrightarrow> keeps_outside h K' rf rf'"
  by (auto simp: keeps_outside_def)

lemma dvd_apart: "d dvd a \<Longrightarrow> d dvd b \<Longrightarrow> a \<noteq> b \<Longrightarrow> a + d \<le> b \<or> b + d \<le> (a::nat)"
  by (metis add.commute dvd_diff_nat dvd_imp_le le_diff_conv2 less_imp_le linorder_neqE_nat zero_less_diff)

lemma write_table:
  assumes g: "geometry h rf" and k: "cluster_ok h rf k" and t: "length t = h_l2Size h" "\<And>v. v \<in> set t \<Longrightarrow> entry_ok v"
    and os: "writes_ok os"
  shows "\<exists>rf'. writePointerTable os rf k t ClusterUsedFlag = (rf', None) \<and> same_but h rf rf' k \<and> disk_l2 h rf' k = t
     \<and> supported h rf' k \<and> length (fdata (rf_file rf')) = length (fdata (rf_file rf))"
proof -
  let ?vs = "map (flagged ClusterUsedFlag) t"
  let ?rf = "rf\<lparr>rf_file := put_table (rf_file rf) k ?vs\<rparr>"
  have fit: "k + 8 * length ?vs \<le> length (fdata (rf_file rf))" using g k t(1) by (simp add: geometry_def cluster_ok_def)
  then have len: "length (fdata (rf_file ?rf)) = length (fdata (rf_file rf))" by (simp add: length_put_table)
  have cs: "8 * length ?vs = h_clusterSize h" using g t(1) by (simp add: geometry_def)
  have other: "disk_words (rf_file ?rf) a n = disk_words (rf_file rf) a n"
    if "a + 8 * n \<le> k \<or> k + h_clusterSize h \<le> a" for a n
    using that put_table_other [OF fit, of a n] cs by simp
  have "raw_l2 h ?rf a = raw_l2 h rf a" if "h_clusterSize h dvd a" "a \<noteq> k" for a
    using dvd_apart [OF that(1) _ that(2)] k g other [of a "h_l2Size h"] by (auto simp: raw_l2_def cluster_ok_def geometry_def)
  moreover have "disk_l1 h ?rf = disk_l1 h rf"
    using k other [of "h_l1TableOffset h" "h_numL2Clusters h"] by (auto simp: disk_l1_def cluster_ok_def)
  ultimately have "same_but h rf ?rf k" using g len by (simp add: same_but_def geometry_def)
  moreover have raw: "raw_l2 h ?rf k = ?vs"
    using put_table_same [OF fit] entry_flagged(1) t by (auto simp: raw_l2_def)
  moreover have "k < 2 ^ 63" using fit g by (simp add: geometry_def)
  ultimately show ?thesis
    using writePointerTable_ok [OF os, of rf k] g len t entry_flagged
    by (intro exI [of _ ?rf]) (auto simp: geometry_def disk_l2_def supported_def o_def intro: map_idI)
qed

lemma readL2Cluster_ok:
  assumes "geometry h rf" "cluster_ok h rf a" "supported h rf a" "reads_ok os"
  shows "\<exists>p. readL2Cluster os rf a = (rf\<lparr>rf_file := (rf_file rf)\<lparr>fpos := p\<rparr>\<rparr>, Inr (disk_l2 h rf a))"
proof -
  have "rf_clusterSize rf = 8 * h_l2Size h" using assms(1) by (simp add: geometry_def)
  then have "rf_clusterSize rf div 8 = h_l2Size h" by simp
  moreover have "a + 8 * h_l2Size h \<le> length (fdata (rf_file rf))" "a < 2 ^ 63" using assms(1,2) by (auto simp: geometry_def cluster_ok_def)
  ultimately have "readPointerCluster os rf a 0 = (rf\<lparr>rf_file := (rf_file rf)\<lparr>fpos := a + 8 * h_l2Size h\<rparr>\<rparr>,
      Inr (map (\<lambda>v. v AND (2 ^ 64 - 1)) (raw_l2 h rf a)))"
    using readPointerTable_ok [OF assms(4), of a "h_l2Size h" rf 0] by (simp add: readPointerCluster_def raw_l2_def)
  moreover have "map (\<lambda>v. v AND (2 ^ 64 - 1)) (raw_l2 h rf a) = raw_l2 h rf a"
  proof (rule map_idI)
    fix v assume "v \<in> set (raw_l2 h rf a)"
    then obtain b where "v = disk_word (rf_file rf) b" by (auto simp: raw_l2_def disk_words_def)
    then have "v < 2 ^ 64" using disk_word_less by metis
    moreover have "v AND (2 ^ 64 - 1) = take_bit 64 v" by (simp add: take_bit_eq_mask mask_eq_exp_minus_1)
    ultimately show "v AND (2 ^ 64 - 1) = v" by (simp add: take_bit_nat_eq_self)
  qed
  ultimately show ?thesis using assms(3) by (auto simp: readL2Cluster_def supported_def disk_l2_def)
qed

section \<open>The invariant\<close>

definition vector_ok :: "ImageHeader \<Rightarrow> QcowRawFile \<Rightarrow> nat \<Rightarrow> nat VectorCache \<Rightarrow> bool" where
  "vector_ok h rf k v \<longleftrightarrow> length (vc_data v) = h_l2Size h \<and> (\<forall>x \<in> set (vc_data v). entry_ok x)
     \<and> (if vc_dirty v then k \<notin> set (disk_l1 h rf) else vc_data v = disk_l2 h rf k \<and> supported h rf k)"

definition dirty_in :: "(nat \<rightharpoonup> nat VectorCache) \<Rightarrow> nat \<Rightarrow> bool" where
  "dirty_in M a \<longleftrightarrow> (\<exists>v. M a = Some v \<and> vc_dirty v)"

text \<open>
  \<open>L\<close> is the first level in memory, \<open>M\<close> the cached tables, \<open>ev\<close> the tables that left the cache since
  the first level was last written.  No table that the file's own first level names is ever dirty or
  written again.
\<close>

definition tables_ok :: "ImageHeader \<Rightarrow> QcowRawFile \<Rightarrow> nat list \<Rightarrow> (nat \<rightharpoonup> nat VectorCache) \<Rightarrow> nat list \<Rightarrow> bool" where
  "tables_ok h rf L M ev \<longleftrightarrow> geometry h rf \<and> length L = h_numL2Clusters h
     \<and> (\<forall>a \<in> set L. a AND L1TableOffsetMask = a)
     \<and> (\<forall>i < length L. \<forall>j < length L. i \<noteq> j \<longrightarrow> L ! i = L ! j \<longrightarrow> L ! i = 0)
     \<and> (\<forall>a \<in> set L. a \<noteq> 0 \<longrightarrow> cluster_ok h rf a \<and> (supported h rf a \<or> dirty_in M a))
     \<and> (\<forall>a \<in> set (disk_l1 h rf). a \<noteq> 0 \<longrightarrow> cluster_ok h rf a)
     \<and> (\<forall>k v. M k = Some v \<longrightarrow> cluster_ok h rf k \<and> vector_ok h rf k v)
     \<and> set ev \<inter> set (disk_l1 h rf) = {}"

lemma tables_okD:
  assumes "tables_ok h rf L M ev"
  shows "geometry h rf" "length L = h_numL2Clusters h" "\<And>a. a \<in> set L \<Longrightarrow> a AND L1TableOffsetMask = a"
    "\<And>i j. i < length L \<Longrightarrow> j < length L \<Longrightarrow> i \<noteq> j \<Longrightarrow> L ! i = L ! j \<Longrightarrow> L ! i = 0"
    "\<And>a. a \<in> set L \<Longrightarrow> a \<noteq> 0 \<Longrightarrow> cluster_ok h rf a"
    "\<And>a. a \<in> set L \<Longrightarrow> a \<noteq> 0 \<Longrightarrow> \<not> supported h rf a \<Longrightarrow> dirty_in M a"
    "\<And>a. a \<in> set (disk_l1 h rf) \<Longrightarrow> a \<noteq> 0 \<Longrightarrow> cluster_ok h rf a"
    "\<And>k v. M k = Some v \<Longrightarrow> cluster_ok h rf k" "\<And>k v. M k = Some v \<Longrightarrow> vector_ok h rf k v"
    "set ev \<inter> set (disk_l1 h rf) = {}"
  using assms unfolding tables_ok_def by blast+

lemma tables_okI:
  assumes "geometry h rf" "length L = h_numL2Clusters h" "\<And>a. a \<in> set L \<Longrightarrow> a AND L1TableOffsetMask = a"
    "\<And>i j. i < length L \<Longrightarrow> j < length L \<Longrightarrow> i \<noteq> j \<Longrightarrow> L ! i = L ! j \<Longrightarrow> L ! i = 0"
    "\<And>a. a \<in> set L \<Longrightarrow> a \<noteq> 0 \<Longrightarrow> cluster_ok h rf a \<and> (supported h rf a \<or> dirty_in M a)"
    "\<And>a. a \<in> set (disk_l1 h rf) \<Longrightarrow> a \<noteq> 0 \<Longrightarrow> cluster_ok h rf a"
    "\<And>k v. M k = Some v \<Longrightarrow> cluster_ok h rf k \<and> vector_ok h rf k v" "set ev \<inter> set (disk_l1 h rf) = {}"
  shows "tables_ok h rf L M ev"
  using assms unfolding tables_ok_def by blast

definition l2_table :: "ImageHeader \<Rightarrow> QcowRawFile \<Rightarrow> (nat \<rightharpoonup> nat VectorCache) \<Rightarrow> nat \<Rightarrow> nat list" where
  "l2_table h rf M a = (case M a of Some v \<Rightarrow> vc_data v | None \<Rightarrow> disk_l2 h rf a)"

definition mem_image :: "ImageHeader \<Rightarrow> QcowRawFile \<Rightarrow> nat list \<Rightarrow> (nat \<rightharpoonup> nat VectorCache) \<Rightarrow> nat list option list" where
  "mem_image h rf L M = map (\<lambda>a. if a = 0 then None else Some (l2_table h rf M a)) L"

definition disk_image :: "ImageHeader \<Rightarrow> QcowRawFile \<Rightarrow> nat list option list" where
  "disk_image h rf = mem_image h rf (disk_l1 h rf) (\<lambda>_. None)"

text \<open>The invariant and the image depend on the position of the file only through its contents.\<close>

lemma fpos_irrelevant [simp]:
  "disk_l1 h (rf\<lparr>rf_file := (rf_file rf)\<lparr>fpos := p\<rparr>\<rparr>) = disk_l1 h rf"
  "raw_l2 h (rf\<lparr>rf_file := (rf_file rf)\<lparr>fpos := p\<rparr>\<rparr>) = raw_l2 h rf"
  "disk_l2 h (rf\<lparr>rf_file := (rf_file rf)\<lparr>fpos := p\<rparr>\<rparr>) = disk_l2 h rf"
  "supported h (rf\<lparr>rf_file := (rf_file rf)\<lparr>fpos := p\<rparr>\<rparr>) = supported h rf"
  "geometry h (rf\<lparr>rf_file := (rf_file rf)\<lparr>fpos := p\<rparr>\<rparr>) = geometry h rf"
  "cluster_ok h (rf\<lparr>rf_file := (rf_file rf)\<lparr>fpos := p\<rparr>\<rparr>) = cluster_ok h rf"
  "vector_ok h (rf\<lparr>rf_file := (rf_file rf)\<lparr>fpos := p\<rparr>\<rparr>) = vector_ok h rf"
  "disk_words ((rf_file rf)\<lparr>fpos := p\<rparr>) = disk_words (rf_file rf)"
  by (auto simp: disk_l1_def raw_l2_def disk_l2_def supported_def geometry_def cluster_ok_def vector_ok_def
      disk_words_def disk_word_def fun_eq_iff)

lemma fpos_keeps [simp]:
  "keeps_outside h K (rf\<lparr>rf_file := (rf_file rf)\<lparr>fpos := p\<rparr>\<rparr>) rf' = keeps_outside h K rf rf'"
  "keeps_outside h K rf' (rf\<lparr>rf_file := (rf_file rf)\<lparr>fpos := p\<rparr>\<rparr>) = keeps_outside h K rf' rf"
  by (simp_all add: keeps_outside_def)

lemma fpos_irrelevant2 [simp]:
  "l2_table h (rf\<lparr>rf_file := (rf_file rf)\<lparr>fpos := p\<rparr>\<rparr>) = l2_table h rf"
  "tables_ok h (rf\<lparr>rf_file := (rf_file rf)\<lparr>fpos := p\<rparr>\<rparr>) = tables_ok h rf"
  "mem_image h (rf\<lparr>rf_file := (rf_file rf)\<lparr>fpos := p\<rparr>\<rparr>) = mem_image h rf"
  "disk_image h (rf\<lparr>rf_file := (rf_file rf)\<lparr>fpos := p\<rparr>\<rparr>) = disk_image h rf"
proof -
  show l2: "l2_table h (rf\<lparr>rf_file := (rf_file rf)\<lparr>fpos := p\<rparr>\<rparr>) = l2_table h rf"
    by (simp add: l2_table_def fun_eq_iff split: option.split)
  show "tables_ok h (rf\<lparr>rf_file := (rf_file rf)\<lparr>fpos := p\<rparr>\<rparr>) = tables_ok h rf" by (simp add: tables_ok_def fun_eq_iff)
  show "mem_image h (rf\<lparr>rf_file := (rf_file rf)\<lparr>fpos := p\<rparr>\<rparr>) = mem_image h rf" by (simp add: mem_image_def l2 fun_eq_iff)
  then show "disk_image h (rf\<lparr>rf_file := (rf_file rf)\<lparr>fpos := p\<rparr>\<rparr>) = disk_image h rf" by (simp add: disk_image_def)
qed

text \<open>The frame: a file that differs at one cluster only.\<close>

lemma same_but_frame:
  assumes s: "same_but h rf rf' k" and a: "cluster_ok h rf a"
  shows "cluster_ok h rf' a" "a \<noteq> k \<Longrightarrow> disk_l2 h rf' a = disk_l2 h rf a" "a \<noteq> k \<Longrightarrow> supported h rf' a = supported h rf a"
  using s a by (auto simp: same_but_def cluster_ok_def disk_l2_def supported_def)

lemma same_but_vector:
  assumes s: "same_but h rf rf' k" and a: "cluster_ok h rf a" "a \<noteq> k"
  shows "vector_ok h rf' a v = vector_ok h rf a v"
  using same_but_frame [OF s a(1)] a(2) s by (simp add: vector_ok_def same_but_def)

lemma disk_image_frame:
  assumes s: "same_but h rf rf' k" and t: "tables_ok h rf L M ev" and k: "k \<notin> set (disk_l1 h rf)"
  shows "disk_image h rf' = disk_image h rf"
proof -
  have l: "disk_l1 h rf' = disk_l1 h rf" using s by (simp add: same_but_def)
  have "disk_l2 h rf' a = disk_l2 h rf a" if "a \<in> set (disk_l1 h rf)" "a \<noteq> 0" for a
    using same_but_frame(2) [OF s tables_okD(7) [OF t that]] that k by blast
  then show ?thesis by (simp add: disk_image_def mem_image_def l l2_table_def)
qed

section \<open>Tables leave and enter the cache\<close>

lemma tables_evict_clean:
  assumes t: "tables_ok h rf L M ev" and e: "M e = Some w" "\<not> vc_dirty w"
  shows "tables_ok h rf L (M(e := None)) ev" "l2_table h rf (M(e := None)) = l2_table h rf M"
proof -
  have v: "vc_data w = disk_l2 h rf e" "supported h rf e" using tables_okD(9) [OF t e(1)] e(2) by (simp_all add: vector_ok_def)
  show "l2_table h rf (M(e := None)) = l2_table h rf M" using v e by (auto simp: l2_table_def fun_eq_iff)
  show "tables_ok h rf L (M(e := None)) ev" using t v e unfolding tables_ok_def by (auto simp: dirty_in_def)
qed

lemma tables_write_back:
  assumes t: "tables_ok h rf L M ev" and e: "M e = Some w" "vc_dirty w" and os: "writes_ok os"
  obtains rf' where "writePointerTable os rf e (vc_data w) ClusterUsedFlag = (rf', None)"
    "tables_ok h rf' L (M(e \<mapsto> vc_markClean w)) ev" "tables_ok h rf' L (M(e := None)) (List.insert e ev)"
    "mem_image h rf' L (M(e \<mapsto> vc_markClean w)) = mem_image h rf L M" "mem_image h rf' L (M(e := None)) = mem_image h rf L M"
    "disk_image h rf' = disk_image h rf" "same_but h rf rf' e" "length (fdata (rf_file rf')) = length (fdata (rf_file rf))"
proof -
  have ce: "cluster_ok h rf e" and vo: "vector_ok h rf e w" using tables_okD [OF t] e by auto
  then have x: "length (vc_data w) = h_l2Size h" "\<And>v. v \<in> set (vc_data w) \<Longrightarrow> entry_ok v" "e \<notin> set (disk_l1 h rf)"
    using e(2) by (auto simp: vector_ok_def)
  obtain rf' where r: "writePointerTable os rf e (vc_data w) ClusterUsedFlag = (rf', None)" "same_but h rf rf' e"
    "disk_l2 h rf' e = vc_data w" "supported h rf' e" "length (fdata (rf_file rf')) = length (fdata (rf_file rf))"
    using write_table [OF tables_okD(1) [OF t] ce x(1,2) os] by blast
  note fr = same_but_frame [OF r(2)]
  have l1: "disk_l1 h rf' = disk_l1 h rf" "geometry h rf'" using r(2) by (simp_all add: same_but_def)
  have sup: "supported h rf' a \<or> dirty_in (M(e := None)) a" if "a \<in> set L" "a \<noteq> 0" for a
  proof (cases "a = e")
    case False
    then show ?thesis using tables_okD(5,6) [OF t that] fr(3) [of a] by (auto simp: dirty_in_def)
  qed (use r in simp)
  have sup': "supported h rf' a \<or> dirty_in (M(e \<mapsto> vc_markClean w)) a" if "a \<in> set L" "a \<noteq> 0" for a
    using sup [OF that] r(4) by (cases "a = e") (auto simp: dirty_in_def)
  have cached: "cluster_ok h rf' k \<and> vector_ok h rf' k v" if "M k = Some v" "k \<noteq> e" for k v
    using tables_okD(8,9) [OF t that(1)] fr(1) same_but_vector [OF r(2)] that(2) by blast
  have clean: "vector_ok h rf' e (vc_markClean w)" using x r by (simp add: vector_ok_def vc_markClean_def)
  have base: "geometry h rf'" "length L = h_numL2Clusters h" "\<forall>a \<in> set L. a AND L1TableOffsetMask = a"
    "\<forall>i < length L. \<forall>j < length L. i \<noteq> j \<longrightarrow> L ! i = L ! j \<longrightarrow> L ! i = 0"
    "\<forall>a \<in> set L. a \<noteq> 0 \<longrightarrow> cluster_ok h rf' a" "\<forall>a \<in> set (disk_l1 h rf). a \<noteq> 0 \<longrightarrow> cluster_ok h rf' a"
    using tables_okD [OF t] l1 fr(1) by blast+
  have T1: "tables_ok h rf' L (M(e := None)) (List.insert e ev)"
    unfolding tables_ok_def l1 using base sup cached tables_okD(10) [OF t] x(3) by auto
  have T2: "tables_ok h rf' L (M(e \<mapsto> vc_markClean w)) ev"
    unfolding tables_ok_def l1 using base sup' cached clean fr(1) [OF ce] tables_okD(10) [OF t] by auto
  have same: "l2_table h rf' (M(e := None)) a = l2_table h rf M a" "l2_table h rf' (M(e \<mapsto> vc_markClean w)) a = l2_table h rf M a"
    if "a \<in> set L" "a \<noteq> 0" for a
    using fr(2) [OF tables_okD(5) [OF t that]] r(3) e by (auto simp: l2_table_def vc_markClean_def split: option.split)
  show ?thesis
    using that [OF r(1) T2 T1] same disk_image_frame [OF r(2) t x(3)] r(2,5) by (simp add: mem_image_def)
qed

lemma tables_load:
  assumes t: "tables_ok h rf L M ev" and k: "M k = None" "cluster_ok h rf k" "supported h rf k"
  shows "tables_ok h rf L (M(k \<mapsto> vectorCacheFromArray (disk_l2 h rf k))) ev"
    "l2_table h rf (M(k \<mapsto> vectorCacheFromArray (disk_l2 h rf k))) = l2_table h rf M"
proof -
  have "vector_ok h rf k (vectorCacheFromArray (disk_l2 h rf k))"
    using k(3) masked_ok by (auto simp: vector_ok_def vectorCacheFromArray_def disk_l2_def raw_l2_def)
  then show "tables_ok h rf L (M(k \<mapsto> vectorCacheFromArray (disk_l2 h rf k))) ev"
    using t k unfolding tables_ok_def by (auto simp: dirty_in_def)
  show "l2_table h rf (M(k \<mapsto> vectorCacheFromArray (disk_l2 h rf k))) = l2_table h rf M"
    using k(1) by (auto simp: l2_table_def vectorCacheFromArray_def fun_eq_iff)
qed

lemma tables_frame:
  assumes t: "tables_ok h rf L M ev" and s: "same_but h rf rf' n" and n: "n \<notin> set L" "n \<notin> set (disk_l1 h rf)" "M n = None"
  shows "tables_ok h rf' L M ev" "mem_image h rf' L M = mem_image h rf L M" "disk_image h rf' = disk_image h rf"
proof -
  note fr = same_but_frame [OF s]
  have l1: "disk_l1 h rf' = disk_l1 h rf" "geometry h rf'" using s by (simp_all add: same_but_def)
  have inL: "cluster_ok h rf' a \<and> supported h rf' a = supported h rf a \<and> disk_l2 h rf' a = disk_l2 h rf a" if "a \<in> set L" "a \<noteq> 0" for a
    using fr [OF tables_okD(5) [OF t that]] that n(1) by blast
  have "cluster_ok h rf' k \<and> vector_ok h rf' k v" if "M k = Some v" for k v
    using tables_okD(8,9) [OF t that] fr(1) same_but_vector [OF s] that n(3) by fastforce
  then show "tables_ok h rf' L M ev"
    unfolding tables_ok_def l1 using tables_okD [OF t] l1 fr(1) inL by blast
  show "mem_image h rf' L M = mem_image h rf L M" using inL by (simp add: mem_image_def l2_table_def split: option.split)
  show "disk_image h rf' = disk_image h rf" by (rule disk_image_frame [OF s t n(2)])
qed

lemma tables_new:
  assumes t: "tables_ok h rf L M ev" and i: "i < length L" and n: "cluster_ok h rf n" "n \<notin> set L" "n \<notin> set (disk_l1 h rf)"
      "n AND L1TableOffsetMask = n"
    and v: "vc_dirty v" "length (vc_data v) = h_l2Size h" "\<And>x. x \<in> set (vc_data v) \<Longrightarrow> entry_ok x"
  shows "tables_ok h rf (L[i := n]) (M(n \<mapsto> v)) ev"
    "mem_image h rf (L[i := n]) (M(n \<mapsto> v)) = (mem_image h rf L M)[i := Some (vc_data v)]"
proof -
  have set: "a \<in> set L \<or> a = n" if "a \<in> set (L[i := n])" for a using that set_update_subset_insert by fastforce
  have "supported h rf a \<or> dirty_in (M(n \<mapsto> v)) a" if "a \<in> set L" "a \<noteq> 0" for a
    using tables_okD(6) [OF t that] v(1) by (auto simp: dirty_in_def)
  moreover have "dirty_in (M(n \<mapsto> v)) n" using v(1) by (simp add: dirty_in_def)
  ultimately have sup: "supported h rf a \<or> dirty_in (M(n \<mapsto> v)) a" if "a \<in> set (L[i := n])" "a \<noteq> 0" for a
    using set [OF that(1)] that(2) by blast
  have dist: "L[i := n] ! x = 0" if "x < length L" "y < length L" "x \<noteq> y" "L[i := n] ! x = L[i := n] ! y" for x y
    using that n(2) i tables_okD(4) [OF t that(1-3)] by (auto simp: nth_list_update split: if_splits)
  have vn: "vector_ok h rf n v" using v n(3) by (simp add: vector_ok_def)
  show "tables_ok h rf (L[i := n]) (M(n \<mapsto> v)) ev"
  proof (rule tables_okI)
    show "a AND L1TableOffsetMask = a" if "a \<in> set (L[i := n])" for a using set [OF that] tables_okD(3) [OF t] n(4) by blast
    show "cluster_ok h rf a \<and> (supported h rf a \<or> dirty_in (M(n \<mapsto> v)) a)" if "a \<in> set (L[i := n])" "a \<noteq> 0" for a
      using set [OF that(1)] sup [OF that] tables_okD(5) [OF t] n(1) that(2) by blast
    show "L[i := n] ! x = 0" if "x < length (L[i := n])" "y < length (L[i := n])" "x \<noteq> y" "L[i := n] ! x = L[i := n] ! y" for x y
      using dist that by simp
    show "cluster_ok h rf k \<and> vector_ok h rf k w" if "(M(n \<mapsto> v)) k = Some w" for k w
      using that tables_okD(8,9) [OF t] n(1) vn by (auto split: if_splits)
  qed (use tables_okD [OF t] in simp_all)
  have "n \<noteq> 0" using n(1) by (simp add: cluster_ok_def)
  have other: "l2_table h rf (M(n \<mapsto> v)) (L ! x) = l2_table h rf M (L ! x)" if "x < length L" for x
    using n(2) nth_mem [OF that] by (auto simp: l2_table_def)
  show "mem_image h rf (L[i := n]) (M(n \<mapsto> v)) = (mem_image h rf L M)[i := Some (vc_data v)]"
  proof (rule nth_equalityI)
    fix x assume "x < length (mem_image h rf (L[i := n]) (M(n \<mapsto> v)))"
    then have x: "x < length L" by (simp add: mem_image_def)
    show "mem_image h rf (L[i := n]) (M(n \<mapsto> v)) ! x = (mem_image h rf L M)[i := Some (vc_data v)] ! x"
      using other [OF x] x \<open>n \<noteq> 0\<close> by (cases "x = i") (simp_all add: mem_image_def l2_table_def)
  qed (simp add: mem_image_def)
qed

lemma tables_put:
  assumes t: "tables_ok h rf L M ev" and i: "i < length L" "L ! i \<noteq> 0" and w: "M (L ! i) = Some w" "vc_dirty w \<or> L ! i \<in> set ev"
    and v: "vc_dirty v" "length (vc_data v) = h_l2Size h" "\<And>x. x \<in> set (vc_data v) \<Longrightarrow> entry_ok x"
  shows "tables_ok h rf L (M(L ! i \<mapsto> v)) ev" "mem_image h rf L (M(L ! i \<mapsto> v)) = (mem_image h rf L M)[i := Some (vc_data v)]"
proof -
  let ?a = "L ! i"
  have "?a \<notin> set (disk_l1 h rf)" using tables_okD(9) [OF t w(1)] tables_okD(10) [OF t] w(2) by (auto simp: vector_ok_def)
  then have va: "vector_ok h rf ?a v" using v by (simp add: vector_ok_def)
  have sup: "supported h rf a \<or> dirty_in (M(?a \<mapsto> v)) a" if "a \<in> set L" "a \<noteq> 0" for a
    using tables_okD(6) [OF t that] v(1) by (auto simp: dirty_in_def)
  show "tables_ok h rf L (M(?a \<mapsto> v)) ev"
  proof (rule tables_okI)
    show "cluster_ok h rf a \<and> (supported h rf a \<or> dirty_in (M(?a \<mapsto> v)) a)" if "a \<in> set L" "a \<noteq> 0" for a
      using sup [OF that] tables_okD(5) [OF t that] by blast
    show "L ! x = 0" if "x < length L" "y < length L" "x \<noteq> y" "L ! x = L ! y" for x y by (rule tables_okD(4) [OF t that])
    show "cluster_ok h rf k \<and> vector_ok h rf k u" if "(M(?a \<mapsto> v)) k = Some u" for k u
      using that tables_okD(8,9) [OF t] w(1) va by (auto split: if_splits)
  qed (use tables_okD(1-3,7,10) [OF t] in blast)+
  have other: "l2_table h rf (M(?a \<mapsto> v)) (L ! x) = l2_table h rf M (L ! x)" if "x < length L" "x \<noteq> i" "L ! x \<noteq> 0" for x
    using tables_okD(4) [OF t that(1) i(1) that(2)] that(3) by (auto simp: l2_table_def)
  show "mem_image h rf L (M(?a \<mapsto> v)) = (mem_image h rf L M)[i := Some (vc_data v)]"
  proof (rule nth_equalityI)
    fix x assume "x < length (mem_image h rf L (M(?a \<mapsto> v)))"
    then have x: "x < length L" by (simp add: mem_image_def)
    show "mem_image h rf L (M(?a \<mapsto> v)) ! x = (mem_image h rf L M)[i := Some (vc_data v)] ! x"
      using other [OF x] x i(2) by (cases "x = i") (simp_all add: mem_image_def l2_table_def)
  qed (simp add: mem_image_def)
qed

section \<open>The operations\<close>

definition pt_inv :: "QcowRawFile \<Rightarrow> pointerWriteBackCache \<Rightarrow> bool" where
  "pt_inv rf pc \<longleftrightarrow> tables_ok (pc_header pc) rf (vc_data (pc_l1 pc)) (lru_map (pc_cache pc)) (pc_evicted pc)
     \<and> lru_ok (pc_cache pc) \<and> 0 < lru_capacity (pc_cache pc)
     \<and> (\<not> vc_dirty (pc_l1 pc) \<longrightarrow> disk_l1 (pc_header pc) rf = vc_data (pc_l1 pc))"

definition pt_image :: "QcowRawFile \<Rightarrow> pointerWriteBackCache \<Rightarrow> nat list option list" where
  "pt_image rf pc = mem_image (pc_header pc) rf (vc_data (pc_l1 pc)) (lru_map (pc_cache pc))"

lemma evict_insert:
  assumes t: "tables_ok h rf L (lru_map c) ev" and c: "lru_ok c" "0 < lru_capacity c" and k: "lru_map c k = None" "cluster_ok h rf k"
    and os: "writes_ok os" and wb: "wb = evict_l2 os \<or> wb = evict_l2_read os"
  obtains rf' ev' c' M0 where "lru_insert wb (rf, ev) c k v = Some ((rf', ev'), c', None)" "lru_ok c'"
    "lru_capacity c' = lru_capacity c" "lru_map c' = M0(k \<mapsto> v)" "M0 k = None" "tables_ok h rf' L M0 ev'"
    "mem_image h rf' L M0 = mem_image h rf L (lru_map c)" "disk_image h rf' = disk_image h rf" "disk_l1 h rf' = disk_l1 h rf"
    "cluster_ok h rf' k" "disk_l2 h rf' k = disk_l2 h rf k" "supported h rf' k = supported h rf k"
    "keeps_outside h (dom (lru_map c)) rf rf'" "dom M0 \<subseteq> dom (lru_map c)"
    "length (fdata (rf_file rf')) = length (fdata (rf_file rf))"
proof -
  have wb': "wb (rf, ev) e w = evict_l2 os (rf, ev) e w" for e w
    using wb tables_okD(1) [OF t] by (auto simp: evict_l2_read_def geometry_def)
  obtain s' c' er where r: "lru_insert wb (rf, ev) c k v = Some (s', c', er)" "lru_ok c'" "lru_capacity c' = lru_capacity c"
    and d: "s' = (rf, ev) \<and> er = None \<and> lru_map c' = (lru_map c)(k \<mapsto> v)
      \<or> (\<exists>e w. lru_map c e = Some w \<and>
           (if vc_dirty w \<and> snd (evict_l2 os (rf, ev) e w) \<noteq> None
            then s' = fst (evict_l2 os (rf, ev) e w) \<and> er \<noteq> None \<and> lru_map c' = (lru_map c)(e := None)
            else s' = (if vc_dirty w then fst (evict_l2 os (rf, ev) e w) else (rf, ev)) \<and> er = None \<and> lru_map c' = (lru_map c)(e := None, k \<mapsto> v)))"
    using lru_insert_map [OF c, of wb "(rf, ev)" k v] unfolding wb' by blast
  from d consider "s' = (rf, ev)" "er = None" "lru_map c' = (lru_map c)(k \<mapsto> v)"
    | e w where "lru_map c e = Some w" "\<not> vc_dirty w" "s' = (rf, ev)" "er = None" "lru_map c' = (lru_map c)(e := None, k \<mapsto> v)"
    | e w where "lru_map c e = Some w" "vc_dirty w" "if snd (evict_l2 os (rf, ev) e w) \<noteq> None then True
        else s' = fst (evict_l2 os (rf, ev) e w) \<and> er = None \<and> lru_map c' = (lru_map c)(e := None, k \<mapsto> v)"
    by (auto split: if_splits)
  then show ?thesis
  proof cases
    case 1
    then show ?thesis using that [of rf ev c' "lru_map c"] r t k by simp
  next
    case (2 e w)
    then have "mem_image h rf L ((lru_map c)(e := None)) = mem_image h rf L (lru_map c)"
      using tables_evict_clean(2) [OF t 2(1,2)] by (simp add: mem_image_def)
    moreover have "dom ((lru_map c)(e := None)) \<subseteq> dom (lru_map c)" by auto
    ultimately show ?thesis using that [of rf ev c' "(lru_map c)(e := None)"] r k 2 tables_evict_clean(1) [OF t 2(1,2)] by simp
  next
    case (3 e w)
    obtain rf' where w: "writePointerTable os rf e (vc_data w) ClusterUsedFlag = (rf', None)"
      "tables_ok h rf' L ((lru_map c)(e := None)) (List.insert e ev)"
      "mem_image h rf' L ((lru_map c)(e := None)) = mem_image h rf L (lru_map c)" "disk_image h rf' = disk_image h rf"
      "same_but h rf rf' e" "length (fdata (rf_file rf')) = length (fdata (rf_file rf))"
      using tables_write_back [OF t 3(1,2) os] by metis
    have "k \<noteq> e" using 3(1) k(1) by auto
    then have kk: "cluster_ok h rf' k" "disk_l2 h rf' k = disk_l2 h rf k" "supported h rf' k = supported h rf k"
      using same_but_frame [OF w(5) k(2)] by auto
    have "s' = (rf', List.insert e ev)" "er = None" "lru_map c' = (lru_map c)(e := None, k \<mapsto> v)"
      using 3(3) w(1) by (simp_all add: evict_l2_def)
    moreover have "dom ((lru_map c)(e := None)) \<subseteq> dom (lru_map c)" by auto
    moreover have "keeps_outside h (dom (lru_map c)) rf rf'" using keeps_same_but [OF w(5)] domI [of "lru_map c" e w] 3(1) by simp
    ultimately show ?thesis
      using that [of rf' "List.insert e ev" c' "(lru_map c)(e := None)"] r w kk k(1) by (simp add: same_but_def)
  qed
qed

end
