(* ===== verification/PointerCache.thy ===== *)
theory PointerCache
  imports PointerLaws
begin

text \<open>
  What the operations of the cached pointer table do to the images of \<open>PointerLaws\<close>, with the clusters
  for copied tables taken from a source of fresh clusters: the locale \<open>cluster_source\<close>, interpreted on
  \<open>getNewCluster\<close> of \<^verbatim>\<open>src/disk/image/qcow2/qcow2.go\<close>.
\<close>

unbundle bit_operations_syntax

section \<open>Reading\<close>

text \<open>The clusters that the tables occupy, in memory or on the disk.\<close>

definition pt_used :: "QcowRawFile \<Rightarrow> pointerWriteBackCache \<Rightarrow> nat set" where
  "pt_used rf pc = set (vc_data (pc_l1 pc)) \<union> set (disk_l1 (pc_header pc) rf) \<union> dom (lru_map (pc_cache pc))"

lemma pt_inv_l1: "pt_inv rf pc \<Longrightarrow> length (vc_data (pc_l1 pc)) = h_numL2Clusters (pc_header pc)"
  unfolding pt_inv_def by (blast dest: tables_okD(2))

lemma pt_image_length: "pt_inv rf pc \<Longrightarrow> length (pt_image rf pc) = h_numL2Clusters (pc_header pc)"
  using pt_inv_l1 by (simp add: pt_image_def mem_image_def)

lemma pt_image_slot:
  assumes "pt_inv rf pc" "i < h_numL2Clusters (pc_header pc)"
  shows "pt_image rf pc ! i = (let a = vc_data (pc_l1 pc) ! i in
    if a = 0 then None else Some (l2_table (pc_header pc) rf (lru_map (pc_cache pc)) a))"
  using assms(2) pt_inv_l1 [OF assms(1)] by (simp add: pt_image_def mem_image_def Let_def)

lemma load_l2_ok:
  assumes i: "pt_inv rf pc" and l: "l2 \<in> set (vc_data (pc_l1 pc))" "l2 \<noteq> 0" and os: "reads_ok os" "writes_ok os"
  obtains rf' pc' where "load_l2 os rf pc l2 = Some (rf', pc', None)" "pt_inv rf' pc'" "pc_header pc' = pc_header pc"
    "pc_l1 pc' = pc_l1 pc" "pt_image rf' pc' = pt_image rf pc" "disk_image (pc_header pc) rf' = disk_image (pc_header pc) rf"
    "lru_map (pc_cache pc') l2 \<noteq> None" "keeps_outside (pc_header pc) (pt_used rf pc) rf rf'" "pt_used rf' pc' \<subseteq> pt_used rf pc"
    "length (fdata (rf_file rf')) = length (fdata (rf_file rf))"
proof -
  let ?h = "pc_header pc" and ?L = "vc_data (pc_l1 pc)" and ?M = "lru_map (pc_cache pc)"
  have t: "tables_ok ?h rf ?L ?M (pc_evicted pc)" and c: "lru_ok (pc_cache pc)" "0 < lru_capacity (pc_cache pc)"
    and d1: "\<not> vc_dirty (pc_l1 pc) \<longrightarrow> disk_l1 ?h rf = ?L" using i by (simp_all add: pt_inv_def)
  show ?thesis
  proof (cases "?M l2")
    case (Some v)
    then show ?thesis using that [of rf pc] i c by (simp add: load_l2_def lru_map_contains)
  next
    case None
    have cl: "cluster_ok ?h rf l2" by (rule tables_okD(5) [OF t l])
    have su: "supported ?h rf l2" using tables_okD(6) [OF t l] None by (auto simp: dirty_in_def)
    obtain p where rd: "readL2Cluster os rf l2 = (rf\<lparr>rf_file := (rf_file rf)\<lparr>fpos := p\<rparr>\<rparr>, Inr (disk_l2 ?h rf l2))"
      using readL2Cluster_ok [OF tables_okD(1) [OF t] cl su os(1)] by blast
    let ?rf = "rf\<lparr>rf_file := (rf_file rf)\<lparr>fpos := p\<rparr>\<rparr>" and ?v = "vectorCacheFromArray (disk_l2 ?h rf l2)"
    obtain rf' ev' c' M0 where e: "lru_insert (evict_l2_read os) (?rf, pc_evicted pc) (pc_cache pc) l2 ?v = Some ((rf', ev'), c', None)"
      "lru_ok c'" "lru_capacity c' = lru_capacity (pc_cache pc)" "lru_map c' = M0(l2 \<mapsto> ?v)" "M0 l2 = None"
      "tables_ok ?h rf' ?L M0 ev'" "mem_image ?h rf' ?L M0 = mem_image ?h ?rf ?L ?M" "disk_image ?h rf' = disk_image ?h ?rf"
      "disk_l1 ?h rf' = disk_l1 ?h ?rf" "cluster_ok ?h rf' l2" "disk_l2 ?h rf' l2 = disk_l2 ?h ?rf l2"
      "supported ?h rf' l2 = supported ?h ?rf l2" "keeps_outside ?h (dom ?M) ?rf rf'" "dom M0 \<subseteq> dom ?M"
      "length (fdata (rf_file rf')) = length (fdata (rf_file ?rf))"
      using evict_insert [of ?h ?rf ?L "pc_cache pc" "pc_evicted pc" l2 os "evict_l2_read os" ?v] t c None cl os(2)
      by (simp only: fpos_irrelevant fpos_irrelevant2) blast
    have v: "?v = vectorCacheFromArray (disk_l2 ?h rf' l2)" using e(11) by simp
    have "supported ?h rf' l2" using e(12) su by simp
    note ld = tables_load [OF e(6,5,10) this, folded v]
    let ?pc = "pc\<lparr>pc_cache := c', pc_evicted := ev'\<rparr>"
    have "pt_inv rf' ?pc" using ld(1) e(2,3,4,9) c d1 by (simp add: pt_inv_def)
    moreover have "mem_image ?h rf' ?L (lru_map c') = mem_image ?h rf' ?L M0"
      using ld(2) e(4) by (simp add: mem_image_def)
    then have "pt_image rf' ?pc = pt_image rf pc" using e(7) by (simp add: pt_image_def)
    moreover have "keeps_outside ?h (pt_used rf pc) rf rf'" using keeps_mono [OF e(13)] by (auto simp: pt_used_def)
    moreover have "pt_used rf' ?pc \<subseteq> pt_used rf pc" using e(4,9,14) l(1) by (auto simp: pt_used_def)
    ultimately show ?thesis
      using that [of rf' ?pc] rd e None c(1) by (simp add: load_l2_def lru_map_contains)
  qed
qed

lemma read_ok:
  assumes i: "pt_inv rf pc" and va: "l1TableIndex (pc_header pc) va < h_numL2Clusters (pc_header pc)"
    and os: "reads_ok os" "writes_ok os"
  shows "\<exists>rf' pc'. readClusterAddress os rf pc va = Some (rf', pc',
        case pt_image rf pc ! l1TableIndex (pc_header pc) va of
          None \<Rightarrow> Inl ErrNeedPointerCluster
        | Some t \<Rightarrow> Inr (t ! l2TableIndex (pc_header pc) va))
     \<and> pt_inv rf' pc' \<and> pc_header pc' = pc_header pc \<and> pc_l1 pc' = pc_l1 pc \<and> pt_image rf' pc' = pt_image rf pc
     \<and> disk_image (pc_header pc) rf' = disk_image (pc_header pc) rf
     \<and> keeps_outside (pc_header pc) (pt_used rf pc) rf rf' \<and> pt_used rf' pc' \<subseteq> pt_used rf pc
     \<and> length (fdata (rf_file rf')) = length (fdata (rf_file rf))
     \<and> (pt_image rf pc ! l1TableIndex (pc_header pc) va \<noteq> None
          \<longrightarrow> lru_map (pc_cache pc') (vc_data (pc_l1 pc) ! l1TableIndex (pc_header pc) va) \<noteq> None)"
proof -
  let ?h = "pc_header pc" and ?i = "l1TableIndex (pc_header pc) va" and ?j = "l2TableIndex (pc_header pc) va"
  define l2 where "l2 = vc_data (pc_l1 pc) ! ?i"
  have t: "tables_ok ?h rf (vc_data (pc_l1 pc)) (lru_map (pc_cache pc)) (pc_evicted pc)" using i by (simp add: pt_inv_def)
  have len: "?i < length (vc_data (pc_l1 pc))" using va tables_okD(2) [OF t] by simp
  then have g: "vc_get (pc_l1 pc) ?i = Some l2" "l2 \<in> set (vc_data (pc_l1 pc))" by (simp_all add: vc_get_def l2_def)
  have j: "?j < h_l2Size ?h" using tables_okD(1) [OF t] by (simp add: geometry_def l2TableIndex_def)
  show ?thesis
  proof (cases "l2 = 0")
    case True
    then show ?thesis using g(1) i pt_image_slot [OF i va] by (simp add: readClusterAddress_def l2_def [symmetric])
  next
    case False
    obtain rf' pc' where l: "load_l2 os rf pc l2 = Some (rf', pc', None)" "pt_inv rf' pc'" "pc_header pc' = ?h"
      "pc_l1 pc' = pc_l1 pc" "pt_image rf' pc' = pt_image rf pc" "disk_image ?h rf' = disk_image ?h rf"
      "lru_map (pc_cache pc') l2 \<noteq> None" "keeps_outside ?h (pt_used rf pc) rf rf'" "pt_used rf' pc' \<subseteq> pt_used rf pc"
      "length (fdata (rf_file rf')) = length (fdata (rf_file rf))"
      using load_l2_ok [OF i g(2) False os] by metis
    then obtain w where w: "lru_map (pc_cache pc') l2 = Some w" by auto
    have c: "lru_ok (pc_cache pc')" using l(2) by (simp add: pt_inv_def)
    obtain c' d where gt: "lru_get (pc_cache pc') l2 = (c', Some d)" "lru_ok c'" "lru_map c' = lru_map (pc_cache pc')"
      "lru_vectors c' ! d = w" "lru_capacity c' = lru_capacity (pc_cache pc')"
      using lru_get_map [OF c w] by metis
    have "pt_image rf' pc' ! ?i = Some (vc_data w)"
      using pt_image_slot [OF l(2), of ?i] va l(3,4) False w by (simp add: l2_def [symmetric] l2_table_def)
    then have im: "pt_image rf pc ! ?i = Some (vc_data w)" using l(5) by simp
    have "length (vc_data w) = h_l2Size ?h"
      using l(2,3) w by (auto simp: pt_inv_def vector_ok_def dest!: tables_okD(9))
    then have "vc_get w ?j = Some (vc_data w ! ?j)" using j by (simp add: vc_get_def)
    moreover have "pt_inv rf' (pc'\<lparr>pc_cache := c'\<rparr>)" "pt_image rf' (pc'\<lparr>pc_cache := c'\<rparr>) = pt_image rf' pc'"
      using l(2) gt by (simp_all add: pt_inv_def pt_image_def)
    moreover have "pt_used rf' (pc'\<lparr>pc_cache := c'\<rparr>) = pt_used rf' pc'" using gt(3) by (simp add: pt_used_def)
    ultimately show ?thesis
      using g(1) False l gt im w by (simp add: readClusterAddress_def l2_def [symmetric])
  qed
qed

section \<open>Updating\<close>

text \<open>
  A source of clusters.  \<open>avail h s rf U\<close>: in the state \<open>s\<close> the source hands out clusters outside of \<open>U\<close>.
\<close>

locale cluster_source =
  fixes obtainCluster :: "'s \<Rightarrow> QcowRawFile \<Rightarrow> 's \<times> QcowRawFile \<times> nat result"
    and avail :: "ImageHeader \<Rightarrow> 's \<Rightarrow> QcowRawFile \<Rightarrow> nat set \<Rightarrow> bool"
  assumes fresh: "avail h s rf U \<Longrightarrow> obtainCluster s rf = (s', rf', Inr n) \<Longrightarrow> geometry h rf \<Longrightarrow>
      same_but h rf rf' n \<and> cluster_ok h rf' n \<and> n \<notin> U \<and> n AND L1TableOffsetMask = n \<and> avail h s' rf' (insert n U)"
    and refused: "avail h s rf U \<Longrightarrow> obtainCluster s rf = (s', rf', Inl er) \<Longrightarrow> geometry h rf \<Longrightarrow>
      \<exists>n. n \<notin> U \<and> same_but h rf rf' n"
begin

lemma obtained:
  assumes i: "pt_inv rf pc" and a: "avail (pc_header pc) s rf U" "pt_used rf pc \<subseteq> U" and o: "obtainCluster s rf = (s', rf', r)"
  shows "pt_inv rf' pc" "pt_image rf' pc = pt_image rf pc" "disk_image (pc_header pc) rf' = disk_image (pc_header pc) rf"
    "pt_used rf' pc = pt_used rf pc" "keeps_outside (pc_header pc) (- U) rf rf'"
proof -
  let ?h = "pc_header pc"
  have t: "tables_ok ?h rf (vc_data (pc_l1 pc)) (lru_map (pc_cache pc)) (pc_evicted pc)" using i by (simp add: pt_inv_def)
  obtain n where n: "n \<notin> U" "same_but ?h rf rf' n"
    using fresh [OF a(1)] refused [OF a(1)] o tables_okD(1) [OF t] by (cases r) blast+
  then have n': "n \<notin> set (vc_data (pc_l1 pc))" "n \<notin> set (disk_l1 ?h rf)" "lru_map (pc_cache pc) n = None"
    using a(2) by (auto simp: pt_used_def)
  have l1: "disk_l1 ?h rf' = disk_l1 ?h rf" using n(2) by (simp add: same_but_def)
  note f = tables_frame [OF t n(2) n']
  show "pt_inv rf' pc" using i f(1) l1 by (simp add: pt_inv_def)
  show "pt_image rf' pc = pt_image rf pc" using f(2) by (simp add: pt_image_def)
  show "disk_image ?h rf' = disk_image ?h rf" by (rule f(3))
  show "pt_used rf' pc = pt_used rf pc" by (simp add: pt_used_def l1)
  show "keeps_outside ?h (- U) rf rf'" using keeps_same_but [OF n(2)] n(1) by simp
qed

lemma update_ok:
  assumes i: "pt_inv rf pc" and va: "l1TableIndex (pc_header pc) va < h_numL2Clusters (pc_header pc)"
    and w: "lru_map (pc_cache pc) (vc_data (pc_l1 pc) ! l1TableIndex (pc_header pc) va) = Some w" and x: "entry_ok x"
    and a: "avail (pc_header pc) s rf U" "pt_used rf pc \<subseteq> U"
  shows "\<exists>s' rf' pc' r. updateClusterAddress obtainCluster s rf pc va x = Some (s', rf', pc', r)
     \<and> pt_inv rf' pc' \<and> pc_header pc' = pc_header pc \<and> disk_image (pc_header pc) rf' = disk_image (pc_header pc) rf
     \<and> pt_image rf' pc' =
         (if \<exists>er. r = Some (QErr er) then pt_image rf pc
          else (pt_image rf pc)[l1TableIndex (pc_header pc) va :=
                 Some ((vc_data w)[l2TableIndex (pc_header pc) va := x])])
     \<and> keeps_outside (pc_header pc) (- U) rf rf' \<and> pt_used rf' pc' \<subseteq> pt_used rf pc \<union> - U
     \<and> ((\<exists>er. r = Some (QErr er)) \<longrightarrow> (\<exists>er. obtainCluster s rf = (s', rf', Inl er)) \<and> pt_used rf' pc' \<subseteq> U)
     \<and> ((\<forall>er. r \<noteq> Some (QErr er)) \<longrightarrow> avail (pc_header pc) s' rf' (U \<union> pt_used rf' pc'))
     \<and> (\<forall>xs z. r = Some (ErrNeedFreeClusters xs z) \<longrightarrow> (\<forall>y \<in> set xs. fst y \<in> U \<union> pt_used rf' pc'))"
proof -
  let ?h = "pc_header pc" and ?i = "l1TableIndex (pc_header pc) va" and ?j = "l2TableIndex (pc_header pc) va"
  let ?L = "vc_data (pc_l1 pc)" and ?M = "lru_map (pc_cache pc)" and ?ev = "pc_evicted pc"
  define l2 where "l2 = ?L ! ?i"
  have t: "tables_ok ?h rf ?L ?M ?ev" and c: "lru_ok (pc_cache pc)" "0 < lru_capacity (pc_cache pc)" using i by (simp_all add: pt_inv_def)
  have len: "?i < length ?L" using va tables_okD(2) [OF t] by simp
  have g: "vc_get (pc_l1 pc) ?i = Some l2" using len by (simp add: vc_get_def l2_def)
  have w': "?M l2 = Some w" using w by (simp add: l2_def)
  have cl: "cluster_ok ?h rf l2" and vo: "vector_ok ?h rf l2 w" using tables_okD(8,9) [OF t w'] by auto
  have nz: "l2 \<noteq> 0" using cl by (simp add: cluster_ok_def)
  have j: "?j < length (vc_data w)" using vo tables_okD(1) [OF t] by (simp add: vector_ok_def geometry_def l2TableIndex_def)
  define w2 where "w2 = \<lparr>vc_data = (vc_data w)[?j := x], vc_dirty = True\<rparr>"
  have st: "vc_set w ?j x = Some w2" using j by (simp add: vc_set_def w2_def)
  have w2: "vc_dirty w2" "length (vc_data w2) = h_l2Size ?h" "\<And>y. y \<in> set (vc_data w2) \<Longrightarrow> entry_ok y"
    using vo x set_update_subset_insert [of "vc_data w" ?j x] by (auto simp: w2_def vector_ok_def)
  obtain c' d where gt: "lru_get (pc_cache pc) l2 = (c', Some d)" "lru_ok c'" "lru_map c' = ?M" "lru_vectors c' ! d = w"
    "ce_data (the (map_of (lru_store c') l2)) = d" "lru_capacity c' = lru_capacity (pc_cache pc)"
    using lru_get_map [OF c(1) w'] by metis
  have wc: "lru_map c' l2 = Some w" using gt(3) w' by simp
  show ?thesis
  proof (cases "\<not> vc_dirty w \<and> l2 \<notin> set ?ev")
    case False
    note P = lru_write_map [OF gt(2) wc gt(5), of w2]
    have q: "vc_dirty w \<or> ?L ! ?i \<in> set ?ev" "?L ! ?i \<noteq> 0" "?M (?L ! ?i) = Some w" using False nz w' by (auto simp: l2_def)
    note T = tables_put [OF t len q(2,3,1) w2, folded l2_def]
    let ?pc = "pc\<lparr>pc_cache := put_vector c' d w2\<rparr>"
    have "updateClusterAddress obtainCluster s rf pc va x = Some (s, rf, ?pc, None)"
      using False g gt(1,4) st by (auto simp: updateClusterAddress_def Let_def)
    moreover have "pt_inv rf ?pc" using i T(1) P gt(3,6) c by (simp add: pt_inv_def put_vector_def)
    moreover have "pt_image rf ?pc = (pt_image rf pc)[?i := Some ((vc_data w)[?j := x])]"
      using T(2) P gt(3) by (simp add: pt_image_def put_vector_def w2_def)
    moreover have "pt_used rf ?pc = pt_used rf pc" unfolding pt_used_def using P(2) gt(3) wc by (auto simp: put_vector_def)
    moreover have "U \<union> pt_used rf pc = U" using a(2) by auto
    ultimately show ?thesis using a(1) by simp
  next
    case clean: True
    obtain s' rf' r where o: "obtainCluster s rf = (s', rf', r)" by (cases "obtainCluster s rf")
    note O = obtained [OF i a o]
    show ?thesis
    proof (cases r)
      case (Inl er)
      have "updateClusterAddress obtainCluster s rf pc va x = Some (s', rf', pc\<lparr>pc_cache := c'\<rparr>, Some (QErr er))"
        using clean g gt(1,4) o Inl by (simp add: updateClusterAddress_def Let_def)
      moreover have "pt_inv rf' (pc\<lparr>pc_cache := c'\<rparr>)" "pt_image rf' (pc\<lparr>pc_cache := c'\<rparr>) = pt_image rf pc"
        using O gt by (simp_all add: pt_inv_def pt_image_def)
      moreover have "pt_used rf' (pc\<lparr>pc_cache := c'\<rparr>) = pt_used rf pc" using O(4) gt(3) by (simp add: pt_used_def)
      ultimately show ?thesis using O(3,5) o Inl a(2) by simp
    next
      case (Inr n)
      have t': "tables_ok ?h rf' ?L ?M ?ev" using O(1) by (simp add: pt_inv_def)
      have n: "cluster_ok ?h rf' n" "n \<notin> U" "n AND L1TableOffsetMask = n"
        using fresh [OF a(1) o [unfolded Inr] tables_okD(1) [OF t]] by auto
      have "pt_used rf' pc \<subseteq> U" using a(2) O(4) by simp
      then have n': "n \<notin> set ?L" "n \<notin> set (disk_l1 ?h rf')" "?M n = None"
        using n(2) by (auto simp: pt_used_def)
      obtain c1 where rm: "lru_remove c' l2 = (c1, None)" "lru_ok c1" "lru_view c1 = av_drop (lru_view c') l2"
        "lru_capacity c1 = lru_capacity c'" using lru_remove_view [OF gt(2)] by metis
      have m1: "lru_map c1 = ?M(l2 := None)" using rm(3) gt(3) by simp
      have sz: "length (lru_view c1) < lru_capacity c1"
      proof -
        have "(l2, w) \<in> set (lru_view c')" using wc by (rule map_of_SomeD)
        then have "length (lru_view c1) < length (lru_view c')" unfolding rm(3) av_drop_def by (auto intro!: length_filter_less)
        then show ?thesis using lru_view_bound [OF gt(2)] rm(4) by simp
      qed
      note P = lru_write_removed [OF gt(2) wc gt(5) rm(1), of w2, folded put_vector_def]
      obtain c2 where c2: "lru_set (put_vector c1 d w2) n w2 = (c2, None)" "lru_ok c2"
        "lru_view c2 = av_set (lru_view c1) n w2" "lru_capacity c2 = lru_capacity c1"
        using lru_set_view [OF P(1), of n w2] P(2,3) sz by (metis (no_types, lifting))
      have m2: "lru_map c2 = ?M(l2 := None, n \<mapsto> w2)" using c2(3) m1 by simp
      let ?l1 = "\<lparr>vc_data = ?L[?i := n], vc_dirty = True\<rparr>"
      let ?pc = "pc\<lparr>pc_l1 := ?l1, pc_cache := c2\<rparr>"
      have up: "updateClusterAddress obtainCluster s rf pc va x
          = Some (s', rf', ?pc, Some (ErrNeedFreeClusters [(l2, 0), (n, 1)] l2))"
        using clean g gt(1,4) o Inr rm(1) st c2(1) len by (simp add: updateClusterAddress_def Let_def vc_set_def)
      have tc: "tables_ok ?h rf' ?L (?M(l2 := None)) ?ev" "mem_image ?h rf' ?L (?M(l2 := None)) = mem_image ?h rf' ?L ?M"
        using tables_evict_clean [OF t' w'] clean by (simp_all add: mem_image_def)
      note T = tables_new [OF tc(1) len n(1) n'(1,2) n(3) w2]
      have "pt_inv rf' ?pc" using T(1) m2 c2 rm(4) gt(6) c(2) by (simp add: pt_inv_def)
      moreover have "pt_image rf' ?pc = (pt_image rf pc)[?i := Some ((vc_data w)[?j := x])]"
        using T(2) m2 tc(2) O(2) by (simp add: pt_image_def w2_def)
      moreover have "pt_used rf' ?pc \<subseteq> insert n (pt_used rf' pc) \<and> n \<in> pt_used rf' ?pc"
        unfolding pt_used_def using m2 len set_update_subset_insert [of ?L ?i n] set_update_memI [OF len, of n] by auto
      then have us: "pt_used rf' ?pc \<subseteq> insert n (pt_used rf pc)" "n \<in> pt_used rf' ?pc" unfolding O(4) by auto
      moreover have "avail ?h s' rf' (insert n U)" using fresh [OF a(1) o [unfolded Inr] tables_okD(1) [OF t]] by blast
      moreover have "U \<union> pt_used rf' ?pc = insert n U" using us a(2) by auto
      moreover have "l2 \<in> U" using a(2) w' by (auto simp: pt_used_def)
      ultimately show ?thesis using up O(3,5) n(2) by auto
    qed
  qed
qed

end

text \<open>A source that stays usable when it refuses a cluster.\<close>

locale steady_source = cluster_source +
  assumes steady: "avail h s rf U \<Longrightarrow> obtainCluster s rf = (s', rf', Inl er) \<Longrightarrow> geometry h rf \<Longrightarrow> avail h s' rf' U"
begin

lemma update_steady:
  assumes i: "pt_inv rf pc" and va: "l1TableIndex (pc_header pc) va < h_numL2Clusters (pc_header pc)"
    and w: "lru_map (pc_cache pc) (vc_data (pc_l1 pc) ! l1TableIndex (pc_header pc) va) = Some w" and x: "entry_ok x"
    and a: "avail (pc_header pc) s rf U" "pt_used rf pc \<subseteq> U"
  shows "\<exists>s' rf' pc' r. updateClusterAddress obtainCluster s rf pc va x = Some (s', rf', pc', r)
     \<and> pt_inv rf' pc' \<and> pc_header pc' = pc_header pc
     \<and> pt_image rf' pc' =
         (if \<exists>er. r = Some (QErr er) then pt_image rf pc
          else (pt_image rf pc)[l1TableIndex (pc_header pc) va :=
                 Some ((vc_data w)[l2TableIndex (pc_header pc) va := x])])
     \<and> keeps_outside (pc_header pc) (- U) rf rf' \<and> pt_used rf' pc' \<subseteq> pt_used rf pc \<union> - U
     \<and> avail (pc_header pc) s' rf' (U \<union> pt_used rf' pc')
     \<and> (\<forall>xs z. r = Some (ErrNeedFreeClusters xs z) \<longrightarrow> (\<forall>y \<in> set xs. fst y \<in> U \<union> pt_used rf' pc'))"
proof -
  have g: "geometry (pc_header pc) rf" using i tables_okD(1) by (auto simp: pt_inv_def)
  obtain s' rf' pc' r where u: "updateClusterAddress obtainCluster s rf pc va x = Some (s', rf', pc', r)" "pt_inv rf' pc'"
    "pc_header pc' = pc_header pc" "pt_image rf' pc' =
         (if \<exists>er. r = Some (QErr er) then pt_image rf pc
          else (pt_image rf pc)[l1TableIndex (pc_header pc) va := Some ((vc_data w)[l2TableIndex (pc_header pc) va := x])])"
    "keeps_outside (pc_header pc) (- U) rf rf'" "pt_used rf' pc' \<subseteq> pt_used rf pc \<union> - U"
    "(\<exists>er. r = Some (QErr er)) \<longrightarrow> (\<exists>er. obtainCluster s rf = (s', rf', Inl er)) \<and> pt_used rf' pc' \<subseteq> U"
    "(\<forall>er. r \<noteq> Some (QErr er)) \<longrightarrow> avail (pc_header pc) s' rf' (U \<union> pt_used rf' pc')"
    "\<forall>xs z. r = Some (ErrNeedFreeClusters xs z) \<longrightarrow> (\<forall>y \<in> set xs. fst y \<in> U \<union> pt_used rf' pc')"
    using update_ok [OF assms] by blast
  have "avail (pc_header pc) s' rf' (U \<union> pt_used rf' pc')"
  proof (cases "\<exists>er. r = Some (QErr er)")
    case True
    then have "U \<union> pt_used rf' pc' = U" "avail (pc_header pc) s' rf' U" using u(7) steady [OF a(1) _ g] by auto
    then show ?thesis by simp
  qed (use u(8) in blast)
  then show ?thesis using u(1-6,9) by blast
qed

end

lemma entry_ok_0 [simp]: "entry_ok 0"
  by (simp add: entry_ok_def)

lemma add_ok:
  assumes i: "pt_inv rf pc" and va: "l1TableIndex (pc_header pc) va < h_numL2Clusters (pc_header pc)" and os: "writes_ok os"
    and n: "cluster_ok (pc_header pc) rf n" "n \<notin> set (vc_data (pc_l1 pc))" "n \<notin> set (disk_l1 (pc_header pc) rf)"
      "lru_map (pc_cache pc) n = None" "n AND L1TableOffsetMask = n"
  shows "\<exists>rf' pc'. addNewPointerCluster os rf pc va n = Some (rf', pc', None) \<and> pt_inv rf' pc'
     \<and> pc_header pc' = pc_header pc \<and> disk_image (pc_header pc) rf' = disk_image (pc_header pc) rf
     \<and> pt_image rf' pc' = (pt_image rf pc)[l1TableIndex (pc_header pc) va := Some (replicate (h_l2Size (pc_header pc)) 0)]
     \<and> keeps_outside (pc_header pc) (pt_used rf pc) rf rf' \<and> pt_used rf' pc' \<subseteq> insert n (pt_used rf pc)
     \<and> length (fdata (rf_file rf')) = length (fdata (rf_file rf)) \<and> lru_map (pc_cache pc') n \<noteq> None \<and> vc_data (pc_l1 pc') = (vc_data (pc_l1 pc))[l1TableIndex (pc_header pc) va := n]"
proof -
  let ?h = "pc_header pc" and ?i = "l1TableIndex (pc_header pc) va" and ?L = "vc_data (pc_l1 pc)"
  let ?v = "newVectorCache 0 (h_l2Size ?h) :: nat VectorCache"
  have t: "tables_ok ?h rf ?L (lru_map (pc_cache pc)) (pc_evicted pc)" and c: "lru_ok (pc_cache pc)" "0 < lru_capacity (pc_cache pc)"
    using i by (simp_all add: pt_inv_def)
  have len: "?i < length ?L" using va pt_inv_l1 [OF i] by simp
  obtain rf' ev' c' M0 where e: "lru_insert (evict_l2 os) (rf, pc_evicted pc) (pc_cache pc) n ?v = Some ((rf', ev'), c', None)"
    "lru_ok c'" "lru_capacity c' = lru_capacity (pc_cache pc)" "lru_map c' = M0(n \<mapsto> ?v)" "M0 n = None"
    "tables_ok ?h rf' ?L M0 ev'" "mem_image ?h rf' ?L M0 = mem_image ?h rf ?L (lru_map (pc_cache pc))"
    "disk_image ?h rf' = disk_image ?h rf" "disk_l1 ?h rf' = disk_l1 ?h rf" "cluster_ok ?h rf' n"
    "keeps_outside ?h (dom (lru_map (pc_cache pc))) rf rf'" "dom M0 \<subseteq> dom (lru_map (pc_cache pc))"
    "length (fdata (rf_file rf')) = length (fdata (rf_file rf))"
    using evict_insert [OF t c n(4,1) os disjI1 [OF refl], of ?v] by metis
  have v: "vc_dirty ?v" "length (vc_data ?v) = h_l2Size ?h" "\<And>x. x \<in> set (vc_data ?v) \<Longrightarrow> entry_ok x"
    by (simp_all add: newVectorCache_def)
  have "n \<notin> set (disk_l1 ?h rf')" using n(3) e(9) by simp
  note T = tables_new [OF e(6) len e(10) n(2) this n(5) v]
  let ?pc = "pc\<lparr>pc_l1 := \<lparr>vc_data = ?L[?i := n], vc_dirty = True\<rparr>, pc_cache := c', pc_evicted := ev'\<rparr>"
  have "addNewPointerCluster os rf pc va n = Some (rf', ?pc, None)"
    using len e(1) by (simp add: addNewPointerCluster_def vc_set_def)
  moreover have "pt_inv rf' ?pc" using T(1) e(2,3,4) c(2) by (simp add: pt_inv_def)
  moreover have "pt_image rf' ?pc = (pt_image rf pc)[?i := Some (replicate (h_l2Size ?h) 0)]"
    using T(2) e(4,7) by (simp add: pt_image_def newVectorCache_def)
  moreover have "keeps_outside ?h (pt_used rf pc) rf rf'" using keeps_mono [OF e(11)] by (auto simp: pt_used_def)
  moreover have "pt_used rf' ?pc \<subseteq> insert n (pt_used rf pc)"
    using e(4,9,12) set_update_subset_insert [of ?L ?i n] by (auto simp: pt_used_def)
  ultimately show ?thesis using e(4,8,13) by auto
qed

section \<open>Writing back\<close>

lemma sync_tables_ok:
  assumes "tables_ok h rf L (lru_map c) ev" "lru_ok c" "set ks \<subseteq> dom (lru_map c)" "writes_ok os"
  shows "\<exists>rf' c'. sync_tables os ks rf c = (rf', c', None) \<and> tables_ok h rf' L (lru_map c') ev \<and> lru_ok c'
     \<and> lru_capacity c' = lru_capacity c \<and> dom (lru_map c') = dom (lru_map c)
     \<and> mem_image h rf' L (lru_map c') = mem_image h rf L (lru_map c) \<and> disk_image h rf' = disk_image h rf
     \<and> disk_l1 h rf' = disk_l1 h rf
     \<and> (\<forall>k. dirty_in (lru_map c') k \<longrightarrow> dirty_in (lru_map c) k \<and> k \<notin> set ks)"
  using assms
proof (induction ks arbitrary: rf c)
  case (Cons k ks)
  obtain v where v: "lru_map c k = Some v" using Cons.prems(3) by auto
  define d where "d = ce_data (the (map_of (lru_store c) k))"
  have vec: "lru_vectors c ! d = v" using lru_map_vec [OF Cons.prems(2) v] by (simp add: lru_vec_def d_def)
  show ?case
  proof (cases "vc_dirty v")
    case False
    then have "\<not> dirty_in (lru_map c) k" using v by (simp add: dirty_in_def)
    moreover have "set ks \<subseteq> dom (lru_map c)" using Cons.prems(3) by simp
    ultimately show ?thesis
      using Cons.IH [OF Cons.prems(1,2) _ Cons.prems(4)] False vec by (auto simp: d_def [symmetric])
  next
    case True
    have nz: "k \<noteq> 0" using tables_okD(8) [OF Cons.prems(1) v] by (simp add: cluster_ok_def)
    obtain rf1 where w: "writePointerTable os rf k (vc_data v) ClusterUsedFlag = (rf1, None)"
      "tables_ok h rf1 L ((lru_map c)(k \<mapsto> vc_markClean v)) ev"
      "mem_image h rf1 L ((lru_map c)(k \<mapsto> vc_markClean v)) = mem_image h rf L (lru_map c)"
      "disk_image h rf1 = disk_image h rf" "same_but h rf rf1 k"
      using tables_write_back [OF Cons.prems(1) v True Cons.prems(4)] by metis
    define c1 where "c1 = put_vector c d (vc_markClean v)"
    note P = lru_write_map [OF Cons.prems(2) v d_def [symmetric], of "vc_markClean v", folded put_vector_def c1_def]
    have st: "sync_tables os (k # ks) rf c = sync_tables os ks rf1 c1"
      using True nz vec w(1) by (simp add: d_def [symmetric] c1_def)
    have dm: "dom (lru_map c1) = dom (lru_map c)" unfolding P(2) using v by auto
    have dt: "dirty_in (lru_map c) x \<and> x \<noteq> k" if "dirty_in (lru_map c1) x" for x
      using that unfolding P(2) by (auto simp: dirty_in_def vc_markClean_def split: if_splits)
    have l1: "disk_l1 h rf1 = disk_l1 h rf" using w(5) by (simp add: same_but_def)
    have "tables_ok h rf1 L (lru_map c1) ev" "set ks \<subseteq> dom (lru_map c1)" using w(2) Cons.prems(3) unfolding P(2) by auto
    from Cons.IH [OF this(1) P(1) this(2) Cons.prems(4)] obtain rf' c' where r: "sync_tables os ks rf1 c1 = (rf', c', None)"
      "tables_ok h rf' L (lru_map c') ev" "lru_ok c'" "lru_capacity c' = lru_capacity c1" "dom (lru_map c') = dom (lru_map c1)"
      "mem_image h rf' L (lru_map c') = mem_image h rf1 L (lru_map c1)" "disk_image h rf' = disk_image h rf1"
      "disk_l1 h rf' = disk_l1 h rf1" "\<forall>k. dirty_in (lru_map c') k \<longrightarrow> dirty_in (lru_map c1) k \<and> k \<notin> set ks"
      by blast
    have "mem_image h rf' L (lru_map c') = mem_image h rf L (lru_map c)" using r(6) w(3) unfolding P(2) by simp
    moreover have "\<forall>x. dirty_in (lru_map c') x \<longrightarrow> dirty_in (lru_map c) x \<and> x \<notin> set (k # ks)" using r(9) dt by auto
    ultimately show ?thesis using st r dm l1 w(4) P(4) by (intro exI [of _ rf'] exI [of _ c']) simp
  qed
qed simp

lemma clean_tables:
  assumes t: "tables_ok h rf L M ev" and c: "\<And>k. \<not> dirty_in M k"
  shows "l2_table h rf M = disk_l2 h rf"
proof
  fix a
  show "l2_table h rf M a = disk_l2 h rf a"
    using tables_okD(9) [OF t, of a] c [of a] by (cases "M a") (auto simp: l2_table_def vector_ok_def dirty_in_def)
qed

lemma masked_less: "v AND L1TableOffsetMask = v \<Longrightarrow> v < 2 ^ 64"
  using masked_bound [of v L1TableOffsetMask] by (simp add: L1TableOffsetMask_def)

lemma write_l1:
  assumes g: "geometry h rf" and L: "length L = h_numL2Clusters h" "\<And>a. a \<in> set L \<Longrightarrow> a AND L1TableOffsetMask = a"
    and os: "writes_ok os"
  obtains rf' where "writePointerTable os rf (h_l1TableOffset h) L 0 = (rf', None)" "geometry h rf'" "disk_l1 h rf' = L"
    "\<And>a. cluster_ok h rf a \<Longrightarrow> cluster_ok h rf' a \<and> raw_l2 h rf' a = raw_l2 h rf a"
proof -
  let ?o = "h_l1TableOffset h"
  let ?rf = "rf\<lparr>rf_file := put_table (rf_file rf) ?o L\<rparr>"
  have fl: "map (flagged 0) L = L" by (rule map_idI) (simp add: flagged_def)
  have fit: "?o + 8 * length L \<le> length (fdata (rf_file rf))" using g L(1) by (simp add: geometry_def)
  have len: "length (fdata (rf_file ?rf)) = length (fdata (rf_file rf))" using fit by (simp add: length_put_table)
  have "?o < 2 ^ 63" using fit g by (simp add: geometry_def)
  then have w: "writePointerTable os rf ?o L 0 = (?rf, None)"
    using writePointerTable_ok [OF os, of rf ?o L 0] g fl by (simp add: geometry_def)
  have "disk_words (rf_file ?rf) ?o (h_numL2Clusters h) = L"
    using put_table_same [OF fit masked_less [OF L(2)]] L(1) by simp
  then have d: "disk_l1 h ?rf = L" using L(2) by (simp add: disk_l1_def map_idI)
  have "cluster_ok h ?rf a \<and> raw_l2 h ?rf a = raw_l2 h rf a" if a: "cluster_ok h rf a" for a
    using a g len L(1) put_table_other [OF fit, of a "h_l2Size h"] unfolding cluster_ok_def geometry_def raw_l2_def by auto
  moreover have "geometry h ?rf" using g len by (simp add: geometry_def)
  ultimately show ?thesis using that w d by blast
qed

lemma syncL1_ok:
  assumes i: "pt_inv rf pc" and c: "\<And>k. \<not> dirty_in (lru_map (pc_cache pc)) k" and os: "writes_ok os"
  shows "\<exists>rf' pc' b. syncL1 os rf pc = (rf', pc', Inr b) \<and> pt_inv rf' pc' \<and> pc_header pc' = pc_header pc
     \<and> pt_image rf' pc' = pt_image rf pc \<and> disk_image (pc_header pc) rf' = pt_image rf pc
     \<and> vc_data (pc_l1 pc') = vc_data (pc_l1 pc) \<and> \<not> vc_dirty (pc_l1 pc') \<and> pc_cache pc' = pc_cache pc"
proof -
  let ?h = "pc_header pc" and ?L = "vc_data (pc_l1 pc)" and ?M = "lru_map (pc_cache pc)"
  have t: "tables_ok ?h rf ?L ?M (pc_evicted pc)" using i by (simp add: pt_inv_def)
  note cl = clean_tables [OF t c]
  show ?thesis
  proof (cases "vc_dirty (pc_l1 pc)")
    case False
    then have "disk_l1 ?h rf = ?L" using i by (simp add: pt_inv_def)
    then have "disk_image ?h rf = pt_image rf pc" by (simp add: disk_image_def pt_image_def mem_image_def cl) (simp add: l2_table_def)
    then show ?thesis using False i by (auto simp: syncL1_def)
  next
    case True
    obtain rf' where w: "writePointerTable os rf (h_l1TableOffset ?h) ?L 0 = (rf', None)" "geometry ?h rf'" "disk_l1 ?h rf' = ?L"
      "\<And>a. cluster_ok ?h rf a \<Longrightarrow> cluster_ok ?h rf' a \<and> raw_l2 ?h rf' a = raw_l2 ?h rf a"
      using write_l1 [OF tables_okD(1-3) [OF t] os] by blast
    have w2: "disk_l2 ?h rf' a = disk_l2 ?h rf a" "supported ?h rf' a = supported ?h rf a" if "cluster_ok ?h rf a" for a
      using w(4) [OF that] by (simp_all add: disk_l2_def supported_def)
    let ?pc = "pc\<lparr>pc_evicted := [], pc_l1 := vc_markClean (pc_l1 pc)\<rparr>"
    have su: "supported ?h rf' a" if "a \<in> set ?L" "a \<noteq> 0" for a
      using tables_okD(5,6) [OF t that] c w2(2) by blast
    have vo: "vector_ok ?h rf' k v" if m: "?M k = Some v" for k v
      using tables_okD(9) [OF t m] tables_okD(8) [OF t m] c [of k] m w2 by (auto simp: vector_ok_def dirty_in_def)
    have t': "tables_ok ?h rf' ?L ?M []"
    proof (rule tables_okI)
      show "?L ! x = 0" if "x < length ?L" "y < length ?L" "x \<noteq> y" "?L ! x = ?L ! y" for x y by (rule tables_okD(4) [OF t that])
      show "cluster_ok ?h rf' a \<and> (supported ?h rf' a \<or> dirty_in ?M a)" if "a \<in> set ?L" "a \<noteq> 0" for a
        using su [OF that] w(4) [OF tables_okD(5) [OF t that]] by blast
      show "cluster_ok ?h rf' a" if "a \<in> set (disk_l1 ?h rf')" "a \<noteq> 0" for a
        using that w(4) [OF tables_okD(5) [OF t]] unfolding w(3) by blast
      show "cluster_ok ?h rf' k \<and> vector_ok ?h rf' k v" if "?M k = Some v" for k v
        using vo [OF that] w(4) [OF tables_okD(8) [OF t that]] by blast
    qed (use tables_okD(2,3) [OF t] w(2) in simp_all)
    note cl' = clean_tables [OF t' c]
    have same: "mem_image ?h rf' ?L ?M = mem_image ?h rf ?L ?M"
      unfolding mem_image_def cl cl' using w2(1) tables_okD(5) [OF t] by simp
    have "disk_image ?h rf' = mem_image ?h rf' ?L ?M"
      by (simp add: disk_image_def mem_image_def w(3) cl') (simp add: l2_table_def)
    moreover have "pt_inv rf' ?pc" using i t' w(3) by (simp add: pt_inv_def vc_markClean_def)
    ultimately show ?thesis using True w(1) same by (auto simp: syncL1_def pt_image_def vc_markClean_def)
  qed
qed

lemma reopen_ok:
  assumes i: "pt_inv rf pc" and c: "\<And>k. \<not> dirty_in (lru_map (pc_cache pc)) k" "\<not> vc_dirty (pc_l1 pc)"
    and os: "reads_ok os" and n: "0 < n" "n < 2 ^ 64"
  shows "\<exists>rf' pc'. newPointerWriteBackCache os (pc_header pc) rf n = (rf', Inr pc') \<and> pt_inv rf' pc'
     \<and> pc_header pc' = pc_header pc \<and> pt_image rf' pc' = pt_image rf pc"
proof -
  let ?h = "pc_header pc" and ?L = "vc_data (pc_l1 pc)"
  have t: "tables_ok ?h rf ?L (lru_map (pc_cache pc)) (pc_evicted pc)" and d: "disk_l1 ?h rf = ?L" using i c(2) by (simp_all add: pt_inv_def)
  have "h_l1TableOffset ?h < 2 ^ 63" "h_l1TableOffset ?h + 8 * h_numL2Clusters ?h \<le> length (fdata (rf_file rf))"
    using tables_okD(1) [OF t] by (simp_all add: geometry_def)
  then obtain p where "readPointerTable os rf (h_l1TableOffset ?h) (h_numL2Clusters ?h) L1TableOffsetMask
      = (rf\<lparr>rf_file := (rf_file rf)\<lparr>fpos := p\<rparr>\<rparr>, Inr ?L)"
    using readPointerTable_ok [OF os, of "h_l1TableOffset ?h" "h_numL2Clusters ?h" rf L1TableOffsetMask] d
    by (auto simp: disk_l1_def L1TableOffsetMask_def)
  moreover define pc' where "pc' = \<lparr>pc_l1 = vectorCacheFromArray ?L, pc_header = ?h, pc_cache = newCacheMap n, pc_evicted = []\<rparr>"
  ultimately have op: "newPointerWriteBackCache os ?h rf n = (rf\<lparr>rf_file := (rf_file rf)\<lparr>fpos := p\<rparr>\<rparr>, Inr pc')"
    by (simp add: newPointerWriteBackCache_def newL1WriteBackCache_def)
  have nc: "lru_ok (newCacheMap n :: nat LruCacheMap)" using lru_inv_new [OF n(2)] by (auto simp: lru_ok_def)
  have em: "lru_map (newCacheMap n :: nat LruCacheMap) = (\<lambda>_. None)"
    unfolding lru_view_keys [OF lru_inv_new [OF n(2)]] by simp
  have "tables_ok ?h rf ?L (\<lambda>_. None) []"
  proof (rule tables_okI)
    show "?L ! x = 0" if "x < length ?L" "y < length ?L" "x \<noteq> y" "?L ! x = ?L ! y" for x y by (rule tables_okD(4) [OF t that])
    show "cluster_ok ?h rf a \<and> (supported ?h rf a \<or> dirty_in (\<lambda>_. None) a)" if "a \<in> set ?L" "a \<noteq> 0" for a
      using tables_okD(5,6) [OF t that] c(1) by blast
  qed (use tables_okD [OF t] in simp_all)
  then have "pt_inv (rf\<lparr>rf_file := (rf_file rf)\<lparr>fpos := p\<rparr>\<rparr>) pc'"
    using nc n d by (simp add: pt_inv_def pc'_def em vectorCacheFromArray_def) (simp add: newCacheMap_def)
  moreover have "pt_image (rf\<lparr>rf_file := (rf_file rf)\<lparr>fpos := p\<rparr>\<rparr>) pc' = pt_image rf pc"
    by (simp add: pt_image_def pc'_def em vectorCacheFromArray_def mem_image_def clean_tables [OF t c(1)]) (simp add: l2_table_def)
  ultimately show ?thesis using op by (auto simp: pc'_def)
qed

end
