(* ===== verification/QcowAlloc.thy ===== *)
theory QcowAlloc
  imports PointerCache
begin

text \<open>
  The clusters of an image come from the list of free clusters, or from the end of the file
  (\<open>getNewCluster\<close> of \<^verbatim>\<open>src/disk/image/qcow2/qcow2.go\<close>).  \<open>pool_ok\<close> is what the list promises; under it
  a new cluster overlaps no table, so \<open>getNewCluster\<close> is a source in the sense of \<open>cluster_source\<close>.
\<close>

unbundle bit_operations_syntax

record cluster_pool =
  cp_avail :: "nat list"
  cp_max :: nat

definition init_cluster :: "os_calls \<Rightarrow> QcowRawFile \<Rightarrow> nat \<Rightarrow> byte list option \<Rightarrow> QcowRawFile \<times> gerror option" where
  "init_cluster os rf a initialData = (case initialData of Some d \<Rightarrow> writeCluster os rf a d | None \<Rightarrow> zeroCluster os rf a)"

text \<open>The last free cluster is taken before it is written; an error loses it.\<close>

definition getNewCluster ::
    "os_calls \<Rightarrow> byte list option \<Rightarrow> cluster_pool \<Rightarrow> QcowRawFile \<Rightarrow> cluster_pool \<times> QcowRawFile \<times> nat result" where
  "getNewCluster os initialData s rf =
     (if cp_avail s \<noteq> [] then
        (case init_cluster os rf (last (cp_avail s)) initialData of
           (rf', Some er) \<Rightarrow> (s\<lparr>cp_avail := butlast (cp_avail s)\<rparr>, rf', Inl er)
         | (rf', None) \<Rightarrow> (s\<lparr>cp_avail := butlast (cp_avail s)\<rparr>, rf', Inr (last (cp_avail s))))
      else
        (case allocateClusterAtFileEnd os rf (cp_max s) of
           (rf', Inl er) \<Rightarrow> (s, rf', Inl er)
         | (rf', Inr a) \<Rightarrow>
             (case initialData of
                None \<Rightarrow> (s, rf', Inr a)
              | Some d \<Rightarrow>
                  (case writeCluster os rf' a d of
                     (rf2, Some er) \<Rightarrow> (s, rf2, Inl er)
                   | (rf2, None) \<Rightarrow> (s, rf2, Inr a)))))"

definition pool_ok :: "ImageHeader \<Rightarrow> cluster_pool \<Rightarrow> QcowRawFile \<Rightarrow> nat set \<Rightarrow> bool" where
  "pool_ok h s rf U \<longleftrightarrow> distinct (cp_avail s)
     \<and> (\<forall>a \<in> set (cp_avail s). cluster_ok h rf a \<and> a \<notin> U \<and> a AND L1TableOffsetMask = a)
     \<and> (\<forall>u \<in> U. u + h_clusterSize h \<le> length (fdata (rf_file rf)))
     \<and> rf_clusterMask rf = h_clusterSize h - 1 \<and> (\<exists>n \<ge> 9. h_clusterSize h = 2 ^ n)
     \<and> cp_max s + 2 * h_clusterSize h < 2 ^ 56 \<and> 0 < length (fdata (rf_file rf))"

section \<open>Rounding up to a cluster\<close>

lemma and_not_mask:
  assumes "x < 2 ^ 64" "n \<le> 64"
  shows "x AND (2 ^ 64 - 1 - (2 ^ n - 1)) = x div 2 ^ n * (2::nat) ^ n"
proof -
  have "(2::nat) ^ 64 = 2 ^ (64 - n) * 2 ^ n" using assms(2) by (simp flip: power_add)
  then have m: "2 ^ 64 - 1 - (2 ^ n - 1) = push_bit n (mask (64 - n) :: nat)"
    by (simp add: push_bit_eq_mult mask_eq_exp_minus_1 diff_mult_distrib)
  have "take_bit 64 x = x" using assms(1) by (rule take_bit_nat_eq_self)
  then have hi: "bit x k \<Longrightarrow> k < 64" for k by (metis bit_take_bit_iff)
  have "x AND push_bit n (mask (64 - n)) = push_bit n (drop_bit n x)"
    using hi assms(2) by (auto simp: bit_eq_iff bit_simps) (metis diff_less_mono)
  then show ?thesis unfolding m by (simp add: push_bit_eq_mult drop_bit_eq_div)
qed

lemma aligned_masked:
  assumes "a < 2 ^ 56" "512 dvd a"
  shows "a AND L1TableOffsetMask = a"
proof -
  obtain b where b: "a = push_bit 9 b" using assms(2) by (auto simp: push_bit_eq_mult mult.commute)
  have "L1TableOffsetMask = push_bit 9 (mask 47)" by (simp add: L1TableOffsetMask_def push_bit_eq_mult mask_eq_exp_minus_1)
  moreover have "take_bit 56 a = a" using assms(1) by (rule take_bit_nat_eq_self)
  then have "bit a k \<Longrightarrow> k < 56" for k by (metis bit_take_bit_iff)
  then have "bit b k \<Longrightarrow> k < 47" for k using b by (fastforce simp: bit_simps dest: spec [of _ "k + 9"])
  ultimately show ?thesis unfolding b by (auto simp: bit_eq_iff bit_simps)
qed

lemma round_up:
  assumes "0 < (cs::nat)"
  shows "x \<le> (x + cs - 1) div cs * cs" "cs dvd (x + cs - 1) div cs * cs"
proof -
  define y where "y = x + cs - 1"
  have "y = y div cs * cs + y mod cs" by simp
  moreover have "y mod cs < cs" using assms by simp
  ultimately show "x \<le> (x + cs - 1) div cs * cs" unfolding y_def using assms by linarith
qed simp

section \<open>New clusters are fresh\<close>

lemma write_cluster_frame:
  assumes g: "geometry h rf" and a: "cluster_ok h rf a" and bs: "length bs \<le> h_clusterSize h"
  shows "same_but h rf (rf\<lparr>rf_file := file_put ((rf_file rf)\<lparr>fpos := a\<rparr>) bs\<rparr>) a"
    "length (fdata (file_put ((rf_file rf)\<lparr>fpos := a\<rparr>) bs)) = length (fdata (rf_file rf))"
proof -
  let ?f = "file_put ((rf_file rf)\<lparr>fpos := a\<rparr>) bs"
  have fit: "a + length bs \<le> length (fdata (rf_file rf))" using a bs by (simp add: cluster_ok_def)
  show len: "length (fdata ?f) = length (fdata (rf_file rf))" using fit by (simp add: length_file_put)
  have other: "disk_words ?f b n = disk_words (rf_file rf) b n" if "b + 8 * n \<le> a \<or> a + h_clusterSize h \<le> b" for b n
    using that bs by (intro put_bytes_other [OF fit]) auto
  have "raw_l2 h (rf\<lparr>rf_file := ?f\<rparr>) b = raw_l2 h rf b" if "h_clusterSize h dvd b" "b \<noteq> a" for b
    using dvd_apart [OF that(1) _ that(2)] a g other [of b "h_l2Size h"] by (auto simp: raw_l2_def cluster_ok_def geometry_def)
  moreover have "disk_l1 h (rf\<lparr>rf_file := ?f\<rparr>) = disk_l1 h rf"
    using a other [of "h_l1TableOffset h" "h_numL2Clusters h"] by (auto simp: disk_l1_def cluster_ok_def)
  ultimately show "same_but h rf (rf\<lparr>rf_file := ?f\<rparr>) a" using g len by (simp add: same_but_def geometry_def)
qed

lemma zeroCluster_frame:
  assumes g: "geometry h rf" and a: "cluster_ok h rf a" and z: "zeroCluster os rf a = (rf', er)"
  shows "same_but h rf rf' a" "length (fdata (rf_file rf')) = length (fdata (rf_file rf))" "rf_clusterMask rf' = rf_clusterMask rf"
proof -
  have cs: "rf_clusterSize rf = h_clusterSize h" using g by (simp add: geometry_def)
  have "\<exists>bs. length bs \<le> h_clusterSize h \<and> rf' = rf\<lparr>rf_file := file_put ((rf_file rf)\<lparr>fpos := a\<rparr>) bs\<rparr>"
  proof -
    have "a < 2 ^ 63" using g a by (simp add: geometry_def cluster_ok_def)
    then have sk: "file_Seek (rf_file rf) a = Inr ((rf_file rf)\<lparr>fpos := a\<rparr>)" by (simp add: file_Seek_def)
    show ?thesis
    proof (cases "os_write os ((rf_file rf)\<lparr>fpos := a\<rparr>) (replicate (h_clusterSize h) 0)")
      case None
      then show ?thesis using z sk cs by (intro exI [of _ "replicate (h_clusterSize h) 0"]) (auto simp: zeroCluster_def file_Write_def)
    next
      case (Some p)
      then show ?thesis
        using z sk cs by (intro exI [of _ "take (fst p) (replicate (h_clusterSize h) 0)"]) (auto simp: zeroCluster_def file_Write_def split: prod.splits)
    qed
  qed
  then show "same_but h rf rf' a" "length (fdata (rf_file rf')) = length (fdata (rf_file rf))" "rf_clusterMask rf' = rf_clusterMask rf"
    using write_cluster_frame [OF g a] by auto
qed

lemma allocate_fresh:
  assumes g: "geometry h rf" and p: "pool_ok h s rf U" and al: "allocateClusterAtFileEnd os rf (cp_max s) = (rf', r)"
  shows "case r of
      Inl er \<Rightarrow> \<exists>p. rf' = rf\<lparr>rf_file := (rf_file rf)\<lparr>fpos := p\<rparr>\<rparr>
    | Inr n \<Rightarrow> same_but h rf rf' n \<and> cluster_ok h rf' n \<and> length (fdata (rf_file rf)) \<le> n
        \<and> length (fdata (rf_file rf')) = n + h_clusterSize h \<and> n AND L1TableOffsetMask = n \<and> rf_clusterMask rf' = rf_clusterMask rf"
proof -
  let ?len = "length (fdata (rf_file rf))" and ?cs = "h_clusterSize h"
  obtain k where k: "9 \<le> k" "?cs = 2 ^ k" using p by (auto simp: pool_ok_def)
  have cs: "rf_clusterSize rf = ?cs" "rf_clusterMask rf = 2 ^ k - 1" "\<not> rf_readOnly rf" "?len < 2 ^ 63" "0 < ?len"
    using g p k by (simp_all add: geometry_def pool_ok_def)
  have small: "cp_max s + 2 * ?cs < 2 ^ 56" using p by (simp add: pool_ok_def)
  then have "(2::nat) ^ k < 2 ^ 56" using k(2) by simp
  then have k56: "k < 56" by (rule power_less_imp_less_exp [of 2, rotated]) simp
  define n where "n = (?len + ?cs - 1) div ?cs * ?cs"
  have pos: "0 < ?cs" using k by simp
  note R = round_up [OF pos, of ?len, folded n_def]
  have "u64 (?len + ?cs) = ?len + ?cs" using cs(4) small by (intro u64_small) simp
  moreover have "1 \<le> ?len + ?cs" using cs(5) by linarith
  moreover have "?len + ?cs < 2 ^ 64" using cs(4) small by simp
  ultimately have "sub64 (u64 (?len + ?cs)) 1 = ?len + ?cs - 1" by (simp only: sub64_le)
  moreover have "?len + ?cs - 1 < 2 ^ 64" using cs(4) small by simp
  ultimately have addr: "sub64 (u64 (?len + rf_clusterSize rf)) 1 AND (2 ^ 64 - 1 - rf_clusterMask rf) = n"
    unfolding cs(1,2) using and_not_mask [of "?len + ?cs - 1" k] k56 k(2) by (simp add: n_def)
  show ?thesis
  proof (cases "n > cp_max s")
    case True
    then show ?thesis using al addr cs(3) by (auto simp: allocateClusterAtFileEnd_def Let_def)
  next
    case False
    then have sz: "u64 (n + ?cs) = n + ?cs" "n + ?cs < 2 ^ 56" using small by (auto intro: u64_small)
    show ?thesis
    proof (cases "os_truncate os ((rf_file rf)\<lparr>fpos := ?len\<rparr>) (n + ?cs)")
      case (Some er)
      then show ?thesis using al addr cs False sz by (auto simp: allocateClusterAtFileEnd_def Let_def)
    next
      case None
      let ?f = "(rf_file rf)\<lparr>fpos := ?len, fdata := fdata (rf_file rf) @ replicate (n + ?cs - ?len) 0\<rparr>"
      have r: "rf' = rf\<lparr>rf_file := ?f\<rparr>" "r = Inr n"
        using al addr cs False sz None R(1) by (auto simp: allocateClusterAtFileEnd_def Let_def)
      have words: "disk_words ?f b m = disk_words (rf_file rf) b m" if "b + 8 * m \<le> ?len" for b m
        unfolding disk_words_def disk_word_def using that by (intro map_cong refl) simp
      have len: "length (fdata ?f) = n + ?cs" using R(1) by simp
      have l1: "h_l1TableOffset h + 8 * h_numL2Clusters h \<le> ?len" "8 * h_l2Size h = ?cs" using g by (simp_all add: geometry_def)
      have ge: "geometry h rf'" using g len sz R(1) unfolding r geometry_def by simp
      have sb: "same_but h rf rf' n"
        unfolding same_but_def using ge R(1) len l1 words by (simp add: r disk_l1_def raw_l2_def)
      have "0 < n" using R(1) cs(5) by linarith
      then have co: "cluster_ok h rf' n" using R l1 len by (simp add: cluster_ok_def r)
      have "(2::nat) ^ 9 dvd 2 ^ k" using k(1) by (rule le_imp_power_dvd)
      then have "512 dvd n" using R(2) k(2) by (simp add: dvd_trans)
      then have "n AND L1TableOffsetMask = n" using sz(2) by (intro aligned_masked) simp_all
      then show ?thesis using sb co R(1) len by (simp add: r)
    qed
  qed
qed

interpretation qc: cluster_source "getNewCluster os None" pool_ok for os
proof
  fix h s rf U s' rf' n
  assume p: "pool_ok h s rf U" and o: "getNewCluster os None s rf = (s', rf', Inr n)" and g: "geometry h rf"
  show "same_but h rf rf' n \<and> cluster_ok h rf' n \<and> n \<notin> U \<and> n AND L1TableOffsetMask = n \<and> pool_ok h s' rf' (insert n U)"
  proof (cases "cp_avail s = []")
    case False
    then obtain xs where xs: "cp_avail s = xs @ [n]" "zeroCluster os rf n = (rf', None)" "s' = s\<lparr>cp_avail := xs\<rparr>"
      using o by (cases "cp_avail s" rule: rev_cases) (auto simp: getNewCluster_def init_cluster_def split: prod.splits option.splits)
    then have n: "cluster_ok h rf n" "n \<notin> U" "n AND L1TableOffsetMask = n" "n \<notin> set xs" using p by (auto simp: pool_ok_def)
    note z = zeroCluster_frame [OF g n(1) xs(2)]
    have "cluster_ok h rf' a" if "cluster_ok h rf a" for a using same_but_frame(1) [OF z(1) that] .
    moreover have "n + h_clusterSize h \<le> length (fdata (rf_file rf))" using n(1) by (simp add: cluster_ok_def)
    ultimately show ?thesis using z n p xs by (auto simp: pool_ok_def)
  next
    case True
    then have al: "allocateClusterAtFileEnd os rf (cp_max s) = (rf', Inr n)" "s' = s"
      using o by (auto simp: getNewCluster_def split: prod.splits sum.splits)
    note f = allocate_fresh [OF g p al(1), simplified]
    have "0 < h_clusterSize h" using g by (simp add: geometry_def)
    moreover have inU: "u + h_clusterSize h \<le> length (fdata (rf_file rf))" if "u \<in> U" for u using p that by (simp add: pool_ok_def)
    ultimately have "n \<notin> U" using f by (metis add_le_same_cancel1 le_trans not_less)
    moreover have "\<forall>u \<in> U. u + h_clusterSize h \<le> length (fdata (rf_file rf'))" using f inU by (metis le_add1 le_trans)
    ultimately show ?thesis using f p al True unfolding pool_ok_def by auto
  qed
next
  fix h s rf U s' rf' er
  assume p: "pool_ok h s rf U" and o: "getNewCluster os None s rf = (s', rf', Inl er)" and g: "geometry h rf"
  show "\<exists>n. n \<notin> U \<and> same_but h rf rf' n"
  proof (cases "cp_avail s = []")
    case False
    then obtain xs n er' where xs: "cp_avail s = xs @ [n]" "zeroCluster os rf n = (rf', Some er')"
      using o by (cases "cp_avail s" rule: rev_cases) (auto simp: getNewCluster_def init_cluster_def split: prod.splits option.splits)
    then have n: "cluster_ok h rf n" "n \<notin> U" using p by (auto simp: pool_ok_def)
    then show ?thesis using zeroCluster_frame(1) [OF g n(1) xs(2)] by blast
  next
    case True
    then have al: "allocateClusterAtFileEnd os rf (cp_max s) = (rf', Inl er)"
      using o by (auto simp: getNewCluster_def split: prod.splits sum.splits)
    obtain q where q: "rf' = rf\<lparr>rf_file := (rf_file rf)\<lparr>fpos := q\<rparr>\<rparr>" using allocate_fresh [OF g p al] by auto
    have "length (fdata (rf_file rf)) \<notin> U" 
    proof
      assume "length (fdata (rf_file rf)) \<in> U"
      then have "h_clusterSize h = 0" using p by (auto simp: pool_ok_def)
      then show False using g by (auto simp: geometry_def)
    qed
    then show ?thesis using g unfolding q by (auto simp: same_but_def)
  qed
qed

end
