(* ===== verification/RefCount.thy ===== *)
theory RefCount
  imports QcowAlloc
begin

text \<open>
  The reference counts of a qcow2 image (\<^verbatim>\<open>src/disk/image/qcow2/referenceCount.go\<close>): a table of blocks of
  16-bit counts, with a write-back cache of blocks and without.  \<open>None\<close> is a panic.
\<close>

unbundle bit_operations_syntax

section \<open>Blocks in the file\<close>

definition readRefCountBlock :: "os_calls \<Rightarrow> QcowRawFile \<Rightarrow> nat \<Rightarrow> QcowRawFile \<times> nat list result" where
  "readRefCountBlock os rf offset =
     (case file_Seek (rf_file rf) offset of
        Inl er \<Rightarrow> (rf, Inl er)
      | Inr f \<Rightarrow> (case read_fields os (replicate (rf_clusterSize rf div 2) 2) f of (f', r) \<Rightarrow> (rf\<lparr>rf_file := f'\<rparr>, r)))"

definition writeRefcountBlock :: "os_calls \<Rightarrow> QcowRawFile \<Rightarrow> nat \<Rightarrow> nat list \<Rightarrow> QcowRawFile \<times> gerror option" where
  "writeRefcountBlock os rf offset table =
     (if rf_readOnly rf then (rf, Some (writeToReadOnly offset (length table * 2)))
      else case file_Seek (rf_file rf) offset of
        Inl er \<Rightarrow> (rf, Some er)
      | Inr f \<Rightarrow>
          (case file_Write (os_write os) f (concat (map (put_be 2) table)) of (f', er) \<Rightarrow> (rf\<lparr>rf_file := f'\<rparr>, er)))"

definition readUint16At :: "os_calls \<Rightarrow> QcowRawFile \<Rightarrow> nat \<Rightarrow> nat result" where
  "readUint16At os rf address = bindR (file_at os (rf_file rf) address 2) (\<lambda>bs. Inr (be bs))"

definition writeUint16At :: "os_calls \<Rightarrow> QcowRawFile \<Rightarrow> nat \<Rightarrow> nat \<Rightarrow> QcowRawFile \<times> gerror option" where
  "writeUint16At os rf v address =
     (if rf_readOnly rf then (rf, Some (writeToReadOnly address 2))
      else if address \<ge> 2 ^ 63 then (rf, Some (Errorf ''negative offset'' []))
      else case file_Write (os_write os) ((rf_file rf)\<lparr>fpos := address\<rparr>) (put_be 2 v) of
        (f', er) \<Rightarrow> (rf\<lparr>rf_file := f'\<lparr>fpos := fpos (rf_file rf)\<rparr>\<rparr>, er))"

section \<open>The write-back table\<close>

record ReferenceCountWriteBack =
  rc_table :: "nat VectorCache"
  rc_offset :: nat
  rc_cache :: "nat LruCacheMap"
  rc_perBlock :: nat
  rc_clusterSize :: nat
  rc_maxValidClusterOffset :: nat
  rc_evicted :: "nat list"

definition max_cluster_offset :: "nat \<Rightarrow> nat \<Rightarrow> nat \<Rightarrow> nat" where
  "max_cluster_offset entries blockEntries cs = u64 (sub64 (u64 (entries * blockEntries)) 1 * cs)"

definition newReferenceCountWriteBack ::
    "os_calls \<Rightarrow> QcowRawFile \<Rightarrow> nat \<Rightarrow> nat \<Rightarrow> nat \<Rightarrow> nat \<Rightarrow> nat \<Rightarrow> QcowRawFile \<times> ReferenceCountWriteBack result" where
  "newReferenceCountWriteBack os rf refcountTableOffset refcountTableEntries refcountBlockEntries cs cacheSize =
     (case readPointerTable os rf refcountTableOffset refcountTableEntries 0 of
        (rf', Inl er) \<Rightarrow> (rf', Inl er)
      | (rf', Inr t) \<Rightarrow>
          (rf', Inr \<lparr>rc_table = vectorCacheFromArray t, rc_offset = refcountTableOffset, rc_cache = newCacheMap cacheSize,
                    rc_perBlock = refcountBlockEntries, rc_clusterSize = cs,
                    rc_maxValidClusterOffset = max_cluster_offset (length t) refcountBlockEntries cs, rc_evicted = []\<rparr>))"

text \<open>\<open>(table index, index into the block)\<close>.\<close>

definition getRefcountIndex :: "nat \<Rightarrow> nat \<Rightarrow> nat \<Rightarrow> nat \<times> nat" where
  "getRefcountIndex address cs perBlock = (address div cs div perBlock, address div cs mod perBlock)"

text \<open>
  What happens to a changed block that leaves the cache.  The key was an index of the table when the block
  was cached, and the table keeps its length.
\<close>

definition evict_block :: "os_calls \<Rightarrow> nat VectorCache \<Rightarrow> (QcowRawFile \<times> nat list, nat) writeCallback" where
  "evict_block os table s index v =
     (case s of (rf, ev) \<Rightarrow>
        (case writeRefcountBlock os rf (vc_data table ! index) (vc_data v) of (rf', er) \<Rightarrow> ((rf', List.insert index ev), er)))"

definition evict_block_read :: "os_calls \<Rightarrow> nat VectorCache \<Rightarrow> (QcowRawFile \<times> nat list, nat) writeCallback" where
  "evict_block_read os table s index v = (if rf_readOnly (fst s) then (s, None) else evict_block os table s index v)"

definition cache_block ::
    "os_calls \<Rightarrow> QcowRawFile \<Rightarrow> ReferenceCountWriteBack \<Rightarrow> nat \<Rightarrow> (nat \<times> nat VectorCache) option \<Rightarrow>
     (QcowRawFile \<times> ReferenceCountWriteBack \<times> qerror option) option" where
  "cache_block os rf rc tableIndex newCluster =
     (if containsKey (rc_cache rc) tableIndex then Some (rf, rc, None)
      else case newCluster of
        None \<Rightarrow>
          (case vc_get (rc_table rc) tableIndex of
             None \<Rightarrow> None
           | Some blockAddrDisk \<Rightarrow> Some (rf, rc, Some (if blockAddrDisk = 0 then ErrNeedNewCluster else ErrNeedReadCluster blockAddrDisk)))
      | Some (address, block) \<Rightarrow>
          (case vc_set (rc_table rc) tableIndex address of
             None \<Rightarrow> None
           | Some t \<Rightarrow>
               (case lru_insert (evict_block os t) (rf, rc_evicted rc) (rc_cache rc) tableIndex block of
                  None \<Rightarrow> None
                | Some ((rf', ev), c, er) \<Rightarrow> Some (rf', rc\<lparr>rc_table := t, rc_cache := c, rc_evicted := ev\<rparr>, map_option QErr er))))"

text \<open>The last step of \<open>setClusterRefcount\<close>: the block is fetched again and changed.\<close>

definition put_refcount ::
    "ReferenceCountWriteBack \<Rightarrow> nat \<Rightarrow> nat \<Rightarrow> nat \<Rightarrow> ReferenceCountWriteBack option" where
  "put_refcount rc tableIndex blockIndex refcount =
     (case lru_get (rc_cache rc) tableIndex of
        (c, None) \<Rightarrow> None
      | (c, Some d) \<Rightarrow>
          (case vc_set (lru_vectors c ! d) blockIndex refcount of
             None \<Rightarrow> None
           | Some v \<Rightarrow> Some (rc\<lparr>rc_cache := put_vector c d v\<rparr>)))"

text \<open>The result is an error or the dropped cluster, if any.\<close>

definition rc_setClusterRefcount ::
    "os_calls \<Rightarrow> QcowRawFile \<Rightarrow> ReferenceCountWriteBack \<Rightarrow> nat \<Rightarrow> nat \<Rightarrow> (nat \<times> nat VectorCache) option \<Rightarrow>
     (QcowRawFile \<times> ReferenceCountWriteBack \<times> (qerror + nat option)) option" where
  "rc_setClusterRefcount os rf rc clusterAddress refcount newCluster =
     (let (tableIndex, blockIndex) = getRefcountIndex clusterAddress (rc_clusterSize rc) (rc_perBlock rc) in
      case vc_get (rc_table rc) tableIndex of
        None \<Rightarrow> None
      | Some blockAddrDisk \<Rightarrow>
          (case cache_block os rf rc tableIndex newCluster of
             None \<Rightarrow> None
           | Some (rf1, rc1, Some er) \<Rightarrow> Some (rf1, rc1, Inl er)
           | Some (rf1, rc1, None) \<Rightarrow>
               (case lru_get (rc_cache rc1) tableIndex of
                  (c, None) \<Rightarrow> None
                | (c, Some d) \<Rightarrow>
                    if \<not> vc_dirty (lru_vectors c ! d) \<and> tableIndex \<notin> set (rc_evicted rc1) then
                      (case newCluster of
                         None \<Rightarrow> Some (rf1, rc1\<lparr>rc_cache := c\<rparr>, Inl ErrNeedNewCluster)
                       | Some (address, block) \<Rightarrow>
                           (case vc_set (rc_table rc1) tableIndex address of
                              None \<Rightarrow> None
                            | Some t \<Rightarrow>
                                (case put_refcount (rc1\<lparr>rc_cache := c, rc_table := t\<rparr>) tableIndex blockIndex refcount of
                                   None \<Rightarrow> None
                                 | Some rc2 \<Rightarrow> Some (rf1, rc2, Inr (Some blockAddrDisk)))))
                    else
                      (case put_refcount (rc1\<lparr>rc_cache := c\<rparr>) tableIndex blockIndex refcount of
                         None \<Rightarrow> None
                       | Some rc2 \<Rightarrow> Some (rf1, rc2, Inr None)))))"

definition getClusterRefcount ::
    "os_calls \<Rightarrow> QcowRawFile \<Rightarrow> ReferenceCountWriteBack \<Rightarrow> nat \<Rightarrow> (QcowRawFile \<times> ReferenceCountWriteBack \<times> nat result) option" where
  "getClusterRefcount os rf rc address =
     (let (tableIndex, blockIndex) = getRefcountIndex address (rc_clusterSize rc) (rc_perBlock rc) in
      case vc_get (rc_table rc) tableIndex of
        None \<Rightarrow> None
      | Some blockAddrDisk \<Rightarrow>
          if blockAddrDisk = 0 then Some (rf, rc, Inr 0)
          else
            (case (if containsKey (rc_cache rc) tableIndex then Some (rf, rc, None)
                   else case readRefCountBlock os rf blockAddrDisk of
                     (rf1, Inl er) \<Rightarrow> Some (rf1, rc, Some er)
                   | (rf1, Inr block) \<Rightarrow>
                       (case lru_insert (evict_block_read os (rc_table rc)) (rf1, rc_evicted rc) (rc_cache rc) tableIndex (vectorCacheFromArray block) of
                          None \<Rightarrow> None
                        | Some ((rf2, ev), c, er) \<Rightarrow> Some (rf2, rc\<lparr>rc_cache := c, rc_evicted := ev\<rparr>, er))) of
               None \<Rightarrow> None
             | Some (rf2, rc2, Some er) \<Rightarrow> Some (rf2, rc2, Inl er)
             | Some (rf2, rc2, None) \<Rightarrow>
                 (case lru_get (rc_cache rc2) tableIndex of
                    (c, None) \<Rightarrow> Some (rf2, rc2, Inl (Errorf ''table index not found in cache %d'' [FInt (int tableIndex)]))
                  | (c, Some d) \<Rightarrow>
                      (case vc_get (lru_vectors c ! d) blockIndex of
                         None \<Rightarrow> None
                       | Some v \<Rightarrow> Some (rf2, rc2\<lparr>rc_cache := c\<rparr>, Inr v)))))"

text \<open>\<open>flushBlocks\<close> writes every cached block, in the order \<open>ks\<close>, which Go does not specify.\<close>

fun flushBlocks ::
    "os_calls \<Rightarrow> nat list \<Rightarrow> QcowRawFile \<Rightarrow> ReferenceCountWriteBack \<Rightarrow> (QcowRawFile \<times> ReferenceCountWriteBack \<times> gerror option) option" where
  "flushBlocks os [] rf rc = Some (rf, rc, None)"
| "flushBlocks os (tableIndex # ks) rf rc =
     (case vc_get (rc_table rc) tableIndex of
        None \<Rightarrow> None
      | Some address \<Rightarrow>
          if address = 0 then Some (rf, rc, Some (Errorf ''zero address while flushing the block'' []))
          else
            let d = ce_data (the (map_of (lru_store (rc_cache rc)) tableIndex)); v = lru_vectors (rc_cache rc) ! d in
            case writeRefcountBlock os rf address (vc_data v) of
              (rf', Some er) \<Rightarrow> Some (rf', rc, Some er)
            | (rf', None) \<Rightarrow> flushBlocks os ks rf' (rc\<lparr>rc_cache := put_vector (rc_cache rc) d (vc_markClean v)\<rparr>))"

definition flushTable :: "os_calls \<Rightarrow> QcowRawFile \<Rightarrow> ReferenceCountWriteBack \<Rightarrow> QcowRawFile \<times> ReferenceCountWriteBack \<times> bool result" where
  "flushTable os rf rc =
     (if vc_dirty (rc_table rc) then
        (case writePointerTable os rf (rc_offset rc) (vc_data (rc_table rc)) 0 of
           (rf', Some er) \<Rightarrow> (rf', rc, Inl er)
         | (rf', None) \<Rightarrow> (rf', rc\<lparr>rc_evicted := [], rc_table := vc_markClean (rc_table rc)\<rparr>, Inr True))
      else (rf, rc, Inr False))"

section \<open>Without a cache\<close>

record ReferenceCountNoCache =
  rn_offset :: nat
  rn_perBlock :: nat
  rn_clusterSize :: nat
  rn_maxValidClusterOffset :: nat

definition newReferenceCountNoCache :: "nat \<Rightarrow> nat \<Rightarrow> nat \<Rightarrow> nat \<Rightarrow> ReferenceCountNoCache" where
  "newReferenceCountNoCache refcountTableOffset refcountTableEntries refcountBlockEntries cs =
     \<lparr>rn_offset = refcountTableOffset, rn_perBlock = refcountBlockEntries, rn_clusterSize = cs,
      rn_maxValidClusterOffset = max_cluster_offset refcountTableEntries refcountBlockEntries cs\<rparr>"

text \<open>The errors of the last two writes are assigned and not looked at.\<close>

definition rn_setClusterRefcount ::
    "os_calls \<Rightarrow> QcowRawFile \<Rightarrow> ReferenceCountNoCache \<Rightarrow> nat \<Rightarrow> nat \<Rightarrow> (nat \<times> nat VectorCache) option \<Rightarrow> QcowRawFile \<times> (qerror + nat option)" where
  "rn_setClusterRefcount os rf rn clusterAddress refcount newCluster =
     (let (tableIndex, blockIndex) = getRefcountIndex clusterAddress (rn_clusterSize rn) (rn_perBlock rn);
          slot = u64 (rn_offset rn + 8 * tableIndex) in
      case readUint64At os rf slot of
        Inl er \<Rightarrow> (rf, Inl (QErr er))
      | Inr blockAddrDisk \<Rightarrow>
          (case newCluster of
             Some (address, block) \<Rightarrow>
               (case writeRefcountBlock os rf address (vc_data block) of
                  (rf1, Some er) \<Rightarrow> (rf1, Inl (QErr er))
                | (rf1, None) \<Rightarrow>
                    let rf2 = fst (writeUint64At os rf1 address slot)
                    in (fst (writeUint16At os rf2 refcount (u64 (address + blockIndex * 2))), Inr None))
           | None \<Rightarrow>
               if blockAddrDisk = 0 then (rf, Inl ErrNeedNewCluster)
               else (fst (writeUint16At os rf refcount (u64 (blockAddrDisk + blockIndex * 2))), Inr None)))"

definition rn_getClusterRefcount :: "os_calls \<Rightarrow> QcowRawFile \<Rightarrow> ReferenceCountNoCache \<Rightarrow> nat \<Rightarrow> nat result" where
  "rn_getClusterRefcount os rf rn address =
     (let (tableIndex, blockIndex) = getRefcountIndex address (rn_clusterSize rn) (rn_perBlock rn) in
      bindR (readUint64At os rf (u64 (rn_offset rn + 8 * tableIndex)))
        (\<lambda>blockAddrDisk. if blockAddrDisk = 0 then Inr 0 else readUint16At os rf (u64 (blockAddrDisk + 2 * blockIndex))))"

end
