(* ===== verification/RefCountLaws.thy ===== *)
theory RefCountLaws
  imports RefCount
begin

text \<open>
  What the reference counts do to the file: they write only into clusters that hold blocks of counts, and they ask
  for a new cluster at most once per block until the table is written.
\<close>

unbundle bit_operations_syntax

section \<open>Clusters as bytes\<close>

lemma be_inj: "length xs = length ys \<Longrightarrow> be xs = be ys \<Longrightarrow> xs = ys"
proof (induction xs arbitrary: ys)
  case (Cons x xs)
  then obtain y zs where ys: "ys = y # zs" "length xs = length zs" by (cases ys) auto
  let ?m = "256 ^ length zs :: nat"
  have e: "unat x * ?m + be xs = unat y * ?m + be zs" using Cons.prems(2) ys by simp
  have l: "be xs < ?m" "be zs < ?m" using be_less [of xs] be_less [of zs] ys(2) by simp_all
  have "unat x = (unat x * ?m + be xs) div ?m" "be xs = (unat x * ?m + be xs) mod ?m" using l by simp_all
  then have "unat x = unat y" "be xs = be zs" using e l by simp_all
  then have "x = y" "be xs = be zs" by (auto intro: unsigned_word_eqI)
  then show ?case using Cons.IH ys by simp
qed simp

definition cluster_bytes :: "ImageHeader \<Rightarrow> QcowRawFile \<Rightarrow> nat \<Rightarrow> byte list" where
  "cluster_bytes h rf a = take (h_clusterSize h) (drop a (fdata (rf_file rf)))"

lemma words_bytes:
  "disk_words f a n = disk_words f' a n \<Longrightarrow> a + 8 * n \<le> length (fdata f) \<Longrightarrow> a + 8 * n \<le> length (fdata f') \<Longrightarrow>
   take (8 * n) (drop a (fdata f)) = take (8 * n) (drop a (fdata f'))"
proof (induction n arbitrary: a)
  case (Suc n)
  have split: "take (8 * Suc n) (drop a xs) = take 8 (drop a xs) @ take (8 * n) (drop (a + 8) xs)" for xs :: "byte list"
    by (simp add: take_add add.commute)
  have "disk_word f a = disk_word f' a" "disk_words f (a + 8) n = disk_words f' (a + 8) n"
    using Suc.prems(1) by (simp_all add: disk_words_Suc)
  moreover from this(1) have "take 8 (drop a (fdata f)) = take 8 (drop a (fdata f'))"
    using Suc.prems by (intro be_inj) (simp_all add: disk_word_def)
  ultimately show ?case unfolding split using Suc.IH [of "a + 8"] Suc.prems by simp
qed simp

lemma raw_bytes:
  assumes "raw_l2 h rf' a = raw_l2 h rf a" "8 * h_l2Size h = h_clusterSize h"
    "a + h_clusterSize h \<le> length (fdata (rf_file rf))" "a + h_clusterSize h \<le> length (fdata (rf_file rf'))"
  shows "cluster_bytes h rf' a = cluster_bytes h rf a"
  using words_bytes [of "rf_file rf'" a "h_l2Size h" "rf_file rf"] assms by (simp add: raw_l2_def cluster_bytes_def)

lemma keeps_bytes:
  assumes "keeps_outside h K rf rf'" "cluster_ok h rf a" "a \<notin> K" "geometry h rf"
  shows "cluster_bytes h rf' a = cluster_bytes h rf a"
  using assms by (intro raw_bytes) (auto simp: keeps_outside_def cluster_ok_def geometry_def)

lemma keeps_cluster_ok: "keeps_outside h K rf rf' \<Longrightarrow> cluster_ok h rf a \<Longrightarrow> cluster_ok h rf' a"
  by (auto simp: keeps_outside_def cluster_ok_def)

section \<open>Blocks\<close>

lemma length_put_shorts: "length (concat (map (put_be 2) t)) = 2 * length t"
  by (induction t) simp_all

lemma writeRefcountBlock_ok:
  assumes g: "geometry h rf" and a: "cluster_ok h rf a" and t: "2 * length t \<le> h_clusterSize h" and os: "writes_ok os"
  obtains rf' where "writeRefcountBlock os rf a t = (rf', None)" "same_but h rf rf' a"
    "length (fdata (rf_file rf')) = length (fdata (rf_file rf))"
proof -
  let ?bs = "concat (map (put_be 2) t)"
  have "a < 2 ^ 63" "\<not> rf_readOnly rf" using g a by (simp_all add: geometry_def cluster_ok_def)
  then have "writeRefcountBlock os rf a t = (rf\<lparr>rf_file := file_put ((rf_file rf)\<lparr>fpos := a\<rparr>) ?bs\<rparr>, None)"
    using os by (simp add: writeRefcountBlock_def file_Seek_def file_Write_def writes_ok_def)
  then show ?thesis using that write_cluster_frame [OF g a, of ?bs] t by (simp add: length_put_shorts)
qed

definition block_ok :: "ImageHeader \<Rightarrow> QcowRawFile \<Rightarrow> nat list \<Rightarrow> nat \<Rightarrow> nat \<Rightarrow> nat VectorCache \<Rightarrow> bool" where
  "block_ok h rf T n k v \<longleftrightarrow> k < length T \<and> T ! k \<noteq> 0 \<and> length (vc_data v) = n"

definition rc_ok :: "ImageHeader \<Rightarrow> QcowRawFile \<Rightarrow> ReferenceCountWriteBack \<Rightarrow> bool" where
  "rc_ok h rf rc \<longleftrightarrow> lru_ok (rc_cache rc) \<and> 0 < lru_capacity (rc_cache rc) \<and> rc_clusterSize rc = h_clusterSize h
     \<and> 2 * rc_perBlock rc = h_clusterSize h \<and> 0 < rc_perBlock rc
     \<and> length (vc_data (rc_table rc)) * rc_perBlock rc * h_clusterSize h = rc_maxValidClusterOffset rc + h_clusterSize h
     \<and> (\<forall>t \<in> set (vc_data (rc_table rc)). t \<noteq> 0 \<longrightarrow> cluster_ok h rf t)
     \<and> (\<forall>k v. lru_map (rc_cache rc) k = Some v \<longrightarrow> block_ok h rf (vc_data (rc_table rc)) (rc_perBlock rc) k v)
     \<and> (\<forall>k \<in> set (rc_evicted rc). k < length (vc_data (rc_table rc)) \<and> vc_data (rc_table rc) ! k \<noteq> 0)"

definition rc_used :: "ReferenceCountWriteBack \<Rightarrow> nat set" where
  "rc_used rc = set (vc_data (rc_table rc)) - {0}"

text \<open>A block that has a cluster of its own, which the table on the disk does not name.\<close>

definition settled :: "ReferenceCountWriteBack \<Rightarrow> nat \<Rightarrow> bool" where
  "settled rc k \<longleftrightarrow> dirty_in (lru_map (rc_cache rc)) k \<or> k \<in> set (rc_evicted rc)"

lemma rc_okD:
  assumes "rc_ok h rf rc"
  shows "lru_ok (rc_cache rc)" "0 < lru_capacity (rc_cache rc)" "rc_clusterSize rc = h_clusterSize h" "2 * rc_perBlock rc = h_clusterSize h"
    "0 < rc_perBlock rc" "length (vc_data (rc_table rc)) * rc_perBlock rc * h_clusterSize h = rc_maxValidClusterOffset rc + h_clusterSize h"
    "\<And>t. t \<in> set (vc_data (rc_table rc)) \<Longrightarrow> t \<noteq> 0 \<Longrightarrow> cluster_ok h rf t"
    "\<And>k v. lru_map (rc_cache rc) k = Some v \<Longrightarrow> block_ok h rf (vc_data (rc_table rc)) (rc_perBlock rc) k v"
    "\<And>k. k \<in> set (rc_evicted rc) \<Longrightarrow> k < length (vc_data (rc_table rc)) \<and> vc_data (rc_table rc) ! k \<noteq> 0"
  using assms unfolding rc_ok_def by blast+

lemma rc_okI:
  assumes "lru_ok (rc_cache rc)" "0 < lru_capacity (rc_cache rc)" "rc_clusterSize rc = h_clusterSize h" "2 * rc_perBlock rc = h_clusterSize h"
    "0 < rc_perBlock rc" "length (vc_data (rc_table rc)) * rc_perBlock rc * h_clusterSize h = rc_maxValidClusterOffset rc + h_clusterSize h"
    "\<And>t. t \<in> set (vc_data (rc_table rc)) \<Longrightarrow> t \<noteq> 0 \<Longrightarrow> cluster_ok h rf t"
    "\<And>k v. lru_map (rc_cache rc) k = Some v \<Longrightarrow> block_ok h rf (vc_data (rc_table rc)) (rc_perBlock rc) k v"
    "\<And>k. k \<in> set (rc_evicted rc) \<Longrightarrow> k < length (vc_data (rc_table rc)) \<and> vc_data (rc_table rc) ! k \<noteq> 0"
  shows "rc_ok h rf rc"
  using assms unfolding rc_ok_def by blast

lemma rc_ok_keeps: "rc_ok h rf rc \<Longrightarrow> keeps_outside h K rf rf' \<Longrightarrow> rc_ok h rf' rc"
  using keeps_cluster_ok unfolding rc_ok_def block_ok_def by blast

text \<open>Inserting a block: at most one block leaves the cache and is written into its own cluster.\<close>

lemma evict_block_insert:
  assumes r: "rc_ok h rf rc" and g: "geometry h rf" and os: "writes_ok os" and k: "lru_map (rc_cache rc) k = None"
    and t: "\<And>j. j \<noteq> k \<Longrightarrow> vc_data t ! j = vc_data (rc_table rc) ! j"
    and wb: "wb = evict_block os t \<or> wb = evict_block_read os t"
  obtains rf' ev' c' M0 where "lru_insert wb (rf, rc_evicted rc) (rc_cache rc) k v = Some ((rf', ev'), c', None)" "lru_ok c'"
    "lru_capacity c' = lru_capacity (rc_cache rc)" "lru_map c' = M0(k \<mapsto> v)" "\<forall>j w. M0 j = Some w \<longrightarrow> lru_map (rc_cache rc) j = Some w"
    "geometry h rf'" "disk_l1 h rf' = disk_l1 h rf" "keeps_outside h (rc_used rc) rf rf'"
    "length (fdata (rf_file rf')) = length (fdata (rf_file rf))"
    "set (rc_evicted rc) \<subseteq> set ev'" "set ev' \<subseteq> set (rc_evicted rc) \<union> dom (lru_map (rc_cache rc))"
    "\<forall>j. dirty_in (lru_map (rc_cache rc)) j \<longrightarrow> dirty_in M0 j \<or> j \<in> set ev'"
proof -
  let ?c = "rc_cache rc" and ?ev = "rc_evicted rc"
  have wb': "wb (rf, ?ev) e w = evict_block os t (rf, ?ev) e w" for e w
    using wb g by (auto simp: evict_block_read_def geometry_def)
  obtain s' c' er where i: "lru_insert wb (rf, ?ev) ?c k v = Some (s', c', er)" "lru_ok c'" "lru_capacity c' = lru_capacity ?c"
    and d: "s' = (rf, ?ev) \<and> er = None \<and> lru_map c' = (lru_map ?c)(k \<mapsto> v)
      \<or> (\<exists>e w. lru_map ?c e = Some w \<and>
           (if vc_dirty w \<and> snd (evict_block os t (rf, ?ev) e w) \<noteq> None
            then s' = fst (evict_block os t (rf, ?ev) e w) \<and> er \<noteq> None \<and> lru_map c' = (lru_map ?c)(e := None)
            else s' = (if vc_dirty w then fst (evict_block os t (rf, ?ev) e w) else (rf, ?ev)) \<and> er = None
              \<and> lru_map c' = (lru_map ?c)(e := None, k \<mapsto> v)))"
    using lru_insert_map [OF rc_okD(1,2) [OF r], of wb "(rf, ?ev)" k v] unfolding wb' by blast
  have sub: "\<forall>j u. ((lru_map ?c)(e := None)) j = Some u \<longrightarrow> lru_map ?c j = Some u" for e by simp
  from d consider "s' = (rf, ?ev)" "er = None" "lru_map c' = (lru_map ?c)(k \<mapsto> v)"
    | e w where "lru_map ?c e = Some w" "\<not> vc_dirty w" "s' = (rf, ?ev)" "er = None" "lru_map c' = (lru_map ?c)(e := None, k \<mapsto> v)"
    | e w where "lru_map ?c e = Some w" "vc_dirty w" "if snd (evict_block os t (rf, ?ev) e w) \<noteq> None then True
        else s' = fst (evict_block os t (rf, ?ev) e w) \<and> er = None \<and> lru_map c' = (lru_map ?c)(e := None, k \<mapsto> v)"
    by (auto split: if_splits)
  then show ?thesis
  proof cases
    case 1
    then show ?thesis using that [of rf ?ev c' "lru_map ?c"] i g by simp
  next
    case (2 e w)
    have "\<forall>j. dirty_in (lru_map ?c) j \<longrightarrow> dirty_in ((lru_map ?c)(e := None)) j \<or> j \<in> set ?ev"
      using 2(1,2) by (auto simp: dirty_in_def)
    then show ?thesis using i g 2 by (intro that [of rf ?ev c' "(lru_map ?c)(e := None)", OF _ _ _ _ sub]) simp_all
  next
    case (3 e w)
    have ek: "e \<noteq> k" using 3(1) k by auto
    have b: "block_ok h rf (vc_data (rc_table rc)) (rc_perBlock rc) e w" using rc_okD(8) [OF r 3(1)] .
    define a where "a = vc_data (rc_table rc) ! e"
    have a: "a \<in> rc_used rc" "cluster_ok h rf a" "vc_data t ! e = a" "2 * length (vc_data w) \<le> h_clusterSize h"
      using b rc_okD(4,7) [OF r] t [OF ek] by (auto simp: block_ok_def rc_used_def a_def)
    obtain rf' where w: "writeRefcountBlock os rf a (vc_data w) = (rf', None)" "same_but h rf rf' a"
      "length (fdata (rf_file rf')) = length (fdata (rf_file rf))"
      using writeRefcountBlock_ok [OF g a(2,4) os] by blast
    have s: "s' = (rf', List.insert e ?ev)" "er = None" "lru_map c' = (lru_map ?c)(e := None, k \<mapsto> v)"
      using 3(3) w(1) a(3) by (simp_all add: evict_block_def)
    have "\<forall>j. dirty_in (lru_map ?c) j \<longrightarrow> dirty_in ((lru_map ?c)(e := None)) j \<or> j \<in> set (List.insert e ?ev)"
      by (auto simp: dirty_in_def)
    moreover have "set (List.insert e ?ev) \<subseteq> set ?ev \<union> dom (lru_map ?c)" using 3(1) by auto
    moreover have "geometry h rf'" "disk_l1 h rf' = disk_l1 h rf" using w(2) by (simp_all add: same_but_def)
    moreover have "set ?ev \<subseteq> set (List.insert e ?ev)" by auto
    moreover have "lru_insert wb (rf, ?ev) ?c k v = Some ((rf', List.insert e ?ev), c', None)" using i(1) s by simp
    ultimately show ?thesis
      using i(2,3) s(3) w(3) keeps_same_but [OF w(2) a(1)]
      by (intro that [of rf' "List.insert e ?ev" c' "(lru_map ?c)(e := None)", OF _ _ _ _ sub])
  qed
qed

end
