(* ===== verification/RefCountSet.thy ===== *)
theory RefCountSet
  imports RefCountLaws
begin

text \<open>\<open>setClusterRefcount\<close> of the table of reference counts, branch by branch.\<close>

lemma put_refcount_ok:
  assumes r: "rc_ok h rf rc" and v: "lru_map (rc_cache rc) k = Some v" and b: "b < rc_perBlock rc"
  obtains c where "put_refcount rc k b cnt = Some (rc\<lparr>rc_cache := c\<rparr>)" "rc_ok h rf (rc\<lparr>rc_cache := c\<rparr>)"
    "lru_map c = (lru_map (rc_cache rc))(k \<mapsto> \<lparr>vc_data = (vc_data v)[b := cnt], vc_dirty = True\<rparr>)"
proof -
  obtain c d where g: "lru_get (rc_cache rc) k = (c, Some d)" "lru_ok c" "lru_map c = lru_map (rc_cache rc)" "lru_vectors c ! d = v"
    "ce_data (the (map_of (lru_store c) k)) = d" "lru_capacity c = lru_capacity (rc_cache rc)"
    using lru_get_map [OF rc_okD(1) [OF r] v] by metis
  define w where "w = \<lparr>vc_data = (vc_data v)[b := cnt], vc_dirty = True\<rparr>"
  have blk: "block_ok h rf (vc_data (rc_table rc)) (rc_perBlock rc) k v" using rc_okD(8) [OF r v] .
  then have "b < length (vc_data v)" using b by (simp add: block_ok_def)
  then have st: "vc_set v b cnt = Some w" by (simp add: vc_set_def w_def)
  have wc: "lru_map c k = Some v" using g(3) v by simp
  note P = lru_write_map [OF g(2) wc g(5), of w, folded put_vector_def]
  let ?rc = "rc\<lparr>rc_cache := put_vector c d w\<rparr>"
  have m: "lru_map (put_vector c d w) = (lru_map (rc_cache rc))(k \<mapsto> w)" using P(2) g(3) by simp
  have wl: "length (vc_data w) = length (vc_data v)" by (simp add: w_def)
  have "rc_ok h rf ?rc"
  proof (rule rc_okI)
    show "block_ok h rf (vc_data (rc_table ?rc)) (rc_perBlock ?rc) j u" if "lru_map (rc_cache ?rc) j = Some u" for j u
      using that blk wl rc_okD(8) [OF r, of j] unfolding block_ok_def by (auto simp: m split: if_splits)
  qed (use P g(6) rc_okD [OF r] in simp_all)
  then show ?thesis using that [of "put_vector c d w"] m g(1,4) st by (simp add: put_refcount_def w_def)
qed

lemma table_set_ok:
  assumes r: "rc_ok h rf rc" and a: "cluster_ok h rf a" and k: "k < length (vc_data (rc_table rc))"
  shows "rc_ok h rf (rc\<lparr>rc_table := \<lparr>vc_data = (vc_data (rc_table rc))[k := a], vc_dirty = True\<rparr>\<rparr>)"
proof (rule rc_okI)
  let ?T = "vc_data (rc_table rc)"
  let ?rc = "rc\<lparr>rc_table := \<lparr>vc_data = ?T[k := a], vc_dirty = True\<rparr>\<rparr>"
  have nz: "a \<noteq> 0" using a by (simp add: cluster_ok_def)
  show "cluster_ok h rf t" if "t \<in> set (vc_data (rc_table ?rc))" "t \<noteq> 0" for t
    using that set_update_subset_insert [of ?T k a] rc_okD(7) [OF r] a by auto
  show "block_ok h rf (vc_data (rc_table ?rc)) (rc_perBlock ?rc) j u" if "lru_map (rc_cache ?rc) j = Some u" for j u
    using that rc_okD(8) [OF r, of j u] nz k by (auto simp: block_ok_def nth_list_update)
  show "j < length (vc_data (rc_table ?rc)) \<and> vc_data (rc_table ?rc) ! j \<noteq> 0" if "j \<in> set (rc_evicted ?rc)" for j
    using that rc_okD(9) [OF r, of j] nz k by (auto simp: nth_list_update)
qed (use rc_okD(1-6) [OF r] in simp_all)

definition new_ok :: "ImageHeader \<Rightarrow> QcowRawFile \<Rightarrow> ReferenceCountWriteBack \<Rightarrow> (nat \<times> nat VectorCache) option \<Rightarrow> bool" where
  "new_ok h rf rc new \<longleftrightarrow> (case new of None \<Rightarrow> True | Some (a, b) \<Rightarrow> cluster_ok h rf a \<and> length (vc_data b) = rc_perBlock rc)"

definition new_cluster :: "(nat \<times> nat VectorCache) option \<Rightarrow> nat set" where
  "new_cluster new = (case new of None \<Rightarrow> {} | Some (a, b) \<Rightarrow> {a})"

text \<open>What a step of the reference counts keeps of the file and of the counts.\<close>

definition rc_step :: "ImageHeader \<Rightarrow> nat set \<Rightarrow> QcowRawFile \<Rightarrow> ReferenceCountWriteBack \<Rightarrow> QcowRawFile \<Rightarrow> ReferenceCountWriteBack \<Rightarrow> bool" where
  "rc_step h K rf rc rf' rc' \<longleftrightarrow> rc_ok h rf' rc' \<and> geometry h rf' \<and> disk_l1 h rf' = disk_l1 h rf \<and> keeps_outside h (rc_used rc \<union> K) rf rf'
     \<and> rc_used rc' \<subseteq> rc_used rc \<union> K \<and> length (vc_data (rc_table rc')) = length (vc_data (rc_table rc))
     \<and> rc_perBlock rc' = rc_perBlock rc \<and> rc_maxValidClusterOffset rc' = rc_maxValidClusterOffset rc \<and> rc_offset rc' = rc_offset rc
     \<and> (\<forall>k. settled rc k \<longrightarrow> settled rc' k)"

lemma rc_step_refl: "rc_ok h rf rc \<Longrightarrow> geometry h rf \<Longrightarrow> rc_step h K rf rc rf rc"
  by (auto simp: rc_step_def)

lemma rc_step_trans:
  assumes "rc_step h K rf rc rf1 rc1" "rc_step h K' rf1 rc1 rf2 rc2" "K' \<subseteq> K"
  shows "rc_step h K rf rc rf2 rc2"
proof -
  note A = assms(1) [unfolded rc_step_def] and B = assms(2) [unfolded rc_step_def]
  have "keeps_outside h (rc_used rc \<union> K) rf rf2"
    using A B assms(3) by (intro keeps_trans [of h "rc_used rc \<union> K" rf rf1 "rc_used rc1 \<union> K'" rf2]) auto
  moreover have "rc_used rc2 \<subseteq> rc_used rc \<union> K" using A B assms(3) by blast
  ultimately show ?thesis using A B unfolding rc_step_def by simp
qed

lemma cache_block_ok:
  assumes r: "rc_ok h rf rc" and g: "geometry h rf" and os: "writes_ok os" and k: "k < length (vc_data (rc_table rc))"
    and n: "new_ok h rf rc new"
  shows "\<exists>rf' rc' er. cache_block os rf rc k new = Some (rf', rc', er) \<and> rc_step h (new_cluster new) rf rc rf' rc'
     \<and> length (fdata (rf_file rf')) = length (fdata (rf_file rf))
     \<and> (case er of
          None \<Rightarrow> lru_map (rc_cache rc') k \<noteq> None \<and> (settled rc' k \<longleftrightarrow> settled rc k \<or> lru_map (rc_cache rc) k = None \<and> new \<noteq> None \<and> vc_dirty (snd (the new)))
        | Some e \<Rightarrow> new = None \<and> rf' = rf \<and> rc' = rc
            \<and> (e = ErrNeedNewCluster \<and> \<not> settled rc k \<or> (\<exists>a \<in> rc_used rc. e = ErrNeedReadCluster a)))"
proof (cases "lru_map (rc_cache rc) k")
  case (Some v)
  then have "containsKey (rc_cache rc) k" using lru_map_contains [OF rc_okD(1) [OF r]] by simp
  then show ?thesis using Some rc_step_refl [OF r g] by (auto simp: cache_block_def)
next
  case None
  then have c: "\<not> containsKey (rc_cache rc) k" using lru_map_contains [OF rc_okD(1) [OF r]] by simp
  let ?T = "vc_data (rc_table rc)"
  show ?thesis
  proof (cases new)
    case no: None
    have "?T ! k = 0 \<Longrightarrow> \<not> settled rc k" using None rc_okD(9) [OF r, of k] by (auto simp: settled_def dirty_in_def)
    moreover have "?T ! k \<noteq> 0 \<Longrightarrow> ?T ! k \<in> rc_used rc" using k by (simp add: rc_used_def)
    ultimately show ?thesis using no c k rc_step_refl [OF r g] by (auto simp: cache_block_def vc_get_def)
  next
    case (Some p)
    obtain a b where p: "p = (a, b)" by (cases p)
    have ab: "cluster_ok h rf a" "length (vc_data b) = rc_perBlock rc" using n Some p by (simp_all add: new_ok_def)
    define t where "t = \<lparr>vc_data = ?T[k := a], vc_dirty = True\<rparr>"
    have oth: "\<And>j. j \<noteq> k \<Longrightarrow> vc_data t ! j = ?T ! j" by (simp add: t_def)
    obtain rf' ev' c' M0 where i: "lru_insert (evict_block os t) (rf, rc_evicted rc) (rc_cache rc) k b = Some ((rf', ev'), c', None)"
      "lru_ok c'" "lru_capacity c' = lru_capacity (rc_cache rc)" "lru_map c' = M0(k \<mapsto> b)"
      "\<forall>j w. M0 j = Some w \<longrightarrow> lru_map (rc_cache rc) j = Some w" "geometry h rf'" "disk_l1 h rf' = disk_l1 h rf"
      "keeps_outside h (rc_used rc) rf rf'" "length (fdata (rf_file rf')) = length (fdata (rf_file rf))"
      "set (rc_evicted rc) \<subseteq> set ev'" "set ev' \<subseteq> set (rc_evicted rc) \<union> dom (lru_map (rc_cache rc))"
      "\<forall>j. dirty_in (lru_map (rc_cache rc)) j \<longrightarrow> dirty_in M0 j \<or> j \<in> set ev'"
      by (rule evict_block_insert [OF r g os None oth disjI1 [OF refl], of b])
    define rc' where "rc' = rc\<lparr>rc_table := t, rc_cache := c', rc_evicted := ev'\<rparr>"
    have r1: "rc_ok h rf' (rc\<lparr>rc_table := t\<rparr>)" unfolding t_def
      by (rule rc_ok_keeps [OF table_set_ok [OF r ab(1) k] i(8)])
    note R = rc_okD [OF r1, simplified]
    have tk: "t' \<noteq> 0" if "t' = vc_data t ! k" for t' using that ab(1) k by (simp add: t_def cluster_ok_def)
    have ok: "rc_ok h rf' rc'"
    proof (rule rc_okI)
      show "block_ok h rf' (vc_data (rc_table rc')) (rc_perBlock rc') j w" if "lru_map (rc_cache rc') j = Some w" for j w
        using that i(4,5) R(8) [of j w] tk ab(2) k by (auto simp: rc'_def block_ok_def t_def split: if_splits)
      show "j < length (vc_data (rc_table rc')) \<and> vc_data (rc_table rc') ! j \<noteq> 0" if "j \<in> set (rc_evicted rc')" for j
        using that i(11) R(8,9) by (force simp: rc'_def block_ok_def)
    qed (use i(2,3) R in \<open>simp_all add: rc'_def\<close>)
    have us: "rc_used rc' \<subseteq> rc_used rc \<union> {a}" using set_update_subset_insert [of ?T k a] by (auto simp: rc_used_def rc'_def t_def)
    have st: "settled rc' j" if "settled rc j" for j
      using that i(4,10,12) None by (auto simp: settled_def rc'_def dirty_in_def split: if_splits)
    have "keeps_outside h (insert a (rc_used rc)) rf rf'" by (rule keeps_mono [OF i(8)]) auto
    then have "rc_step h (new_cluster new) rf rc rf' rc'"
      unfolding rc_step_def using ok i(6,7) us st Some p by (auto simp: new_cluster_def rc'_def t_def)
    moreover have "settled rc' k \<longleftrightarrow> settled rc k \<or> vc_dirty b"
      using i(4,10,11) None by (auto simp: settled_def rc'_def dirty_in_def)
    moreover have "cache_block os rf rc k new = Some (rf', rc', None)"
      using c Some p k i(1) by (simp add: cache_block_def vc_set_def t_def rc'_def)
    moreover have "lru_map (rc_cache rc') k \<noteq> None" using i(4) by (simp add: rc'_def)
    ultimately show ?thesis using i(9) None Some p by simp
  qed
qed

text \<open>
  The whole step.  Without a cluster at hand it asks for a new one only when the block is not settled; with one at
  hand it ends.
\<close>

lemma rc_set_ok:
  assumes r: "rc_ok h rf rc" and g: "geometry h rf" and os: "writes_ok os" and n: "new_ok h rf rc new"
    and k: "address div h_clusterSize h div rc_perBlock rc < length (vc_data (rc_table rc))"
  shows "\<exists>rf' rc' res. rc_setClusterRefcount os rf rc address cnt new = Some (rf', rc', res)
     \<and> rc_step h (new_cluster new) rf rc rf' rc' \<and> length (fdata (rf_file rf')) = length (fdata (rf_file rf))
     \<and> (case res of
          Inr _ \<Rightarrow> settled rc' (address div h_clusterSize h div rc_perBlock rc)
        | Inl e \<Rightarrow> new = None \<and> (e = ErrNeedNewCluster \<and> \<not> settled rc (address div h_clusterSize h div rc_perBlock rc)
            \<or> (\<exists>a \<in> rc_used rc. e = ErrNeedReadCluster a)))"
proof -
  define ti where "ti = address div h_clusterSize h div rc_perBlock rc"
  define bi where "bi = address div h_clusterSize h mod rc_perBlock rc"
  have ix: "getRefcountIndex address (rc_clusterSize rc) (rc_perBlock rc) = (ti, bi)"
    using rc_okD(3) [OF r] by (simp add: getRefcountIndex_def ti_def bi_def)
  have ti: "ti < length (vc_data (rc_table rc))" using k by (simp add: ti_def)
  have bi: "bi < rc_perBlock rc" using rc_okD(5) [OF r] by (simp add: bi_def)
  obtain rf1 rc1 er where c: "cache_block os rf rc ti new = Some (rf1, rc1, er)" "rc_step h (new_cluster new) rf rc rf1 rc1"
    "length (fdata (rf_file rf1)) = length (fdata (rf_file rf))"
    "case er of
       None \<Rightarrow> lru_map (rc_cache rc1) ti \<noteq> None \<and> (settled rc1 ti \<longleftrightarrow> settled rc ti \<or> lru_map (rc_cache rc) ti = None \<and> new \<noteq> None \<and> vc_dirty (snd (the new)))
     | Some e \<Rightarrow> new = None \<and> rf1 = rf \<and> rc1 = rc \<and> (e = ErrNeedNewCluster \<and> \<not> settled rc ti \<or> (\<exists>a \<in> rc_used rc. e = ErrNeedReadCluster a))"
    using cache_block_ok [OF r g os ti n] by blast
  have vg: "vc_get (rc_table rc) ti = Some (vc_data (rc_table rc) ! ti)" using ti by (simp add: vc_get_def)
  show ?thesis
  proof (cases er)
    case (Some e)
    then have "rc_setClusterRefcount os rf rc address cnt new = Some (rf1, rc1, Inl e)"
      using ix vg c(1) by (simp add: rc_setClusterRefcount_def)
    then show ?thesis using c Some unfolding ti_def by simp
  next
    case None
    note S = c(2) [unfolded rc_step_def]
    have r1: "rc_ok h rf1 rc1" and ti1: "ti < length (vc_data (rc_table rc1))" and bi1: "bi < rc_perBlock rc1"
      using S ti bi by simp_all
    obtain v where v: "lru_map (rc_cache rc1) ti = Some v" using c(4) None by auto
    obtain c' d where lg: "lru_get (rc_cache rc1) ti = (c', Some d)" "lru_ok c'" "lru_map c' = lru_map (rc_cache rc1)"
      "lru_vectors c' ! d = v" "lru_capacity c' = lru_capacity (rc_cache rc1)"
      using lru_get_map [OF rc_okD(1) [OF r1] v] by metis
    define rc2 where "rc2 = rc1\<lparr>rc_cache := c'\<rparr>"
    have r2: "rc_ok h rf1 rc2" using r1 lg by (simp add: rc_ok_def rc2_def)
    have s2: "rc_step h K rf1 rc1 rf1 rc2" for K
      using r2 S lg(3) by (auto simp: rc_step_def rc2_def rc_used_def settled_def)
    have v2: "lru_map (rc_cache rc2) ti = Some v" using v lg(3) by (simp add: rc2_def)
    show ?thesis
    proof (cases "\<not> vc_dirty v \<and> ti \<notin> set (rc_evicted rc1)")
      case False
      obtain c3 where p: "put_refcount rc2 ti bi cnt = Some (rc2\<lparr>rc_cache := c3\<rparr>)" "rc_ok h rf1 (rc2\<lparr>rc_cache := c3\<rparr>)"
        "lru_map c3 = (lru_map (rc_cache rc2))(ti \<mapsto> \<lparr>vc_data = (vc_data v)[bi := cnt], vc_dirty = True\<rparr>)"
        using put_refcount_ok [OF r2 v2, of bi cnt] bi1 by (auto simp: rc2_def)
      have st: "settled (rc2\<lparr>rc_cache := c3\<rparr>) ti" "\<And>j. settled rc2 j \<Longrightarrow> settled (rc2\<lparr>rc_cache := c3\<rparr>) j"
        using p(3) by (auto simp: settled_def dirty_in_def)
      have "rc_step h (new_cluster new) rf1 rc2 rf1 (rc2\<lparr>rc_cache := c3\<rparr>)"
        using p(2) st(2) S by (auto simp: rc_step_def rc_used_def)
      then have "rc_step h (new_cluster new) rf rc rf1 (rc2\<lparr>rc_cache := c3\<rparr>)"
        using rc_step_trans [OF rc_step_trans [OF c(2) s2 subset_refl]] by blast
      moreover have "rc_setClusterRefcount os rf rc address cnt new = Some (rf1, rc2\<lparr>rc_cache := c3\<rparr>, Inr None)"
        using ix vg c(1) None lg(1,4) False p(1) by (auto simp: rc_setClusterRefcount_def rc2_def)
      ultimately show ?thesis using c(3) st(1) unfolding ti_def by simp
    next
      case clean: True
      then have ns: "\<not> settled rc1 ti" using v by (auto simp: settled_def dirty_in_def)
      show ?thesis
      proof (cases new)
        case no: None
        then have "rc_setClusterRefcount os rf rc address cnt new = Some (rf1, rc2, Inl ErrNeedNewCluster)"
          using ix vg c(1) None lg(1,4) clean by (simp add: rc_setClusterRefcount_def rc2_def)
        moreover have "\<not> settled rc ti" using ns S by blast
        ultimately show ?thesis using c(3) rc_step_trans [OF c(2) s2 subset_refl] no unfolding ti_def by simp
      next
        case (Some p)
        obtain a b where ab: "p = (a, b)" by (cases p)
        have a: "cluster_ok h rf1 a" using n Some ab S keeps_cluster_ok by (auto simp: new_ok_def)
        define rc3 where "rc3 = rc2\<lparr>rc_table := \<lparr>vc_data = (vc_data (rc_table rc1))[ti := a], vc_dirty = True\<rparr>\<rparr>"
        have r3: "rc_ok h rf1 rc3" unfolding rc3_def using table_set_ok [OF r2 a, of ti] ti1 by (simp add: rc2_def)
        have v3: "lru_map (rc_cache rc3) ti = Some v" using v2 by (simp add: rc3_def)
        obtain c3 where p: "put_refcount rc3 ti bi cnt = Some (rc3\<lparr>rc_cache := c3\<rparr>)" "rc_ok h rf1 (rc3\<lparr>rc_cache := c3\<rparr>)"
          "lru_map c3 = (lru_map (rc_cache rc3))(ti \<mapsto> \<lparr>vc_data = (vc_data v)[bi := cnt], vc_dirty = True\<rparr>)"
          using put_refcount_ok [OF r3 v3, of bi cnt] bi1 by (auto simp: rc2_def rc3_def)
        have st: "settled (rc3\<lparr>rc_cache := c3\<rparr>) ti" "\<And>j. settled rc2 j \<Longrightarrow> settled (rc3\<lparr>rc_cache := c3\<rparr>) j"
          using p(3) by (auto simp: settled_def dirty_in_def rc3_def)
        have "rc_step h (new_cluster new) rf1 rc2 rf1 (rc3\<lparr>rc_cache := c3\<rparr>)"
          using p(2) st(2) S Some ab set_update_subset_insert [of "vc_data (rc_table rc1)" ti a]
          by (auto simp: rc_step_def rc_used_def rc3_def rc2_def new_cluster_def)
        then have "rc_step h (new_cluster new) rf rc rf1 (rc3\<lparr>rc_cache := c3\<rparr>)"
          using rc_step_trans [OF rc_step_trans [OF c(2) s2 subset_refl]] by blast
        moreover have "rc_setClusterRefcount os rf rc address cnt new
            = Some (rf1, rc3\<lparr>rc_cache := c3\<rparr>, Inr (Some (vc_data (rc_table rc) ! ti)))"
          using ix vg c(1) None lg(1,4) clean p(1) Some ab ti1 by (simp add: rc_setClusterRefcount_def rc2_def rc3_def vc_set_def)
        ultimately show ?thesis using c(3) st(1) unfolding ti_def by simp
      qed
    qed
  qed
qed

end
