(* ===== verification/QcowImage.thy ===== *)
theory QcowImage
  imports RefCount
begin

text \<open>
  A qcow2 image (\<open>ImageFile\<close> of \<^verbatim>\<open>src/disk/image/qcow2/qcow2.go\<close>, opened with the caching factory): reading and
  writing of guest bytes, over the pointer tables and the reference counts.  The structure copies that
  the Go code makes of the raw file share one descriptor, so the image has one file.  A chain of backing
  images is a list whose head is the top image.  \<open>None\<close> is a panic or the end of the fuel.
\<close>

unbundle bit_operations_syntax

record image =
  i_rf :: QcowRawFile
  i_header :: ImageHeader
  i_pt :: pointerWriteBackCache
  i_rc :: ReferenceCountWriteBack
  i_unrefClusters :: "nat list"
  i_availClusters :: "nat list"
  i_closed :: bool
  i_readOnly :: bool

definition pool_of :: "image \<Rightarrow> cluster_pool" where
  "pool_of im = \<lparr>cp_avail = i_availClusters im, cp_max = rc_maxValidClusterOffset (i_rc im)\<rparr>"

definition image_getNewCluster :: "os_calls \<Rightarrow> byte list option \<Rightarrow> image \<Rightarrow> image \<times> nat result" where
  "image_getNewCluster os initialData im =
     (case getNewCluster os initialData (pool_of im) (i_rf im) of
        (s, rf, r) \<Rightarrow> (im\<lparr>i_availClusters := cp_avail s, i_rf := rf\<rparr>, r))"

text \<open>The messages of the errors by which the tables ask for clusters.\<close>

fun qerror_Error :: "qerror \<Rightarrow> gerror" where
  "qerror_Error ErrNeedPointerCluster = Errorf ''need new pointer cluster'' []"
| "qerror_Error (ErrNeedFreeClusters xs c) = Errorf ''need free clusters'' []"
| "qerror_Error ErrNeedNewCluster = Errorf ''need a new cluster'' []"
| "qerror_Error (ErrNeedReadCluster a) = Errorf ''need to read a cluster'' []"
| "qerror_Error (QErr er) = er"

section \<open>Reference counts\<close>

text \<open>The loop of \<open>setClusterRefcount\<close>; it returns the clusters added for blocks and the dropped ones.\<close>

fun refcount_loop ::
    "nat \<Rightarrow> os_calls \<Rightarrow> image \<Rightarrow> nat \<Rightarrow> nat \<Rightarrow> (nat \<times> nat VectorCache) option \<Rightarrow> nat list \<Rightarrow> (image \<times> (nat list \<times> nat list) result) option" where
  "refcount_loop 0 os im address count newCluster added = None"
| "refcount_loop (Suc n) os im address count newCluster added =
     (case rc_setClusterRefcount os (i_rf im) (i_rc im) address count newCluster of
        None \<Rightarrow> None
      | Some (rf, rc, r) \<Rightarrow>
          let im1 = im\<lparr>i_rf := rf, i_rc := rc\<rparr> in
          (case r of
             Inr dropped \<Rightarrow> Some (im1, Inr (added, case dropped of None \<Rightarrow> [] | Some d \<Rightarrow> [d]))
           | Inl er \<Rightarrow>
               (case er of
                  ErrNeedNewCluster \<Rightarrow>
                    (case image_getNewCluster os None im1 of
                       (im2, Inl er) \<Rightarrow> Some (im2, Inl er)
                     | (im2, Inr a) \<Rightarrow> refcount_loop n os im2 address count (Some (a, newVectorCache 0 (rc_perBlock rc))) (added @ [a]))
                | ErrNeedReadCluster a \<Rightarrow>
                    (case readRefCountBlock os rf a of
                       (rf2, Inl er) \<Rightarrow> Some (im1\<lparr>i_rf := rf2\<rparr>, Inl er)
                     | (rf2, Inr block) \<Rightarrow> refcount_loop n os (im1\<lparr>i_rf := rf2\<rparr>) address count (Some (a, vectorCacheFromArray block)) added)
                | _ \<Rightarrow> Some (im1, Inl (qerror_Error er)))))"

fun each_cluster ::
    "(image \<Rightarrow> nat \<Rightarrow> (image \<times> nat list result) option) \<Rightarrow> image \<Rightarrow> nat list \<Rightarrow> (image \<times> gerror option) option" where
  "each_cluster f im [] = Some (im, None)"
| "each_cluster f im (a # as) =
     (case f im a of
        None \<Rightarrow> None
      | Some (im', Inl er) \<Rightarrow> Some (im', Some er)
      | Some (im', Inr _) \<Rightarrow> each_cluster f im' as)"

primrec image_setClusterRefcount :: "nat \<Rightarrow> os_calls \<Rightarrow> image \<Rightarrow> nat \<Rightarrow> nat \<Rightarrow> (image \<times> nat list result) option" where
  "image_setClusterRefcount 0 os im address count = None"
| "image_setClusterRefcount (Suc n) os im address count =
     (case refcount_loop 2 os im address count None [] of
        None \<Rightarrow> None
      | Some (im1, Inl er) \<Rightarrow> Some (im1, Inl er)
      | Some (im1, Inr (added, unreferenced)) \<Rightarrow>
          (case each_cluster (\<lambda>im a. image_setClusterRefcount n os im a 1) im1 added of
             None \<Rightarrow> None
           | Some (im2, Some er) \<Rightarrow> Some (im2, Inl er)
           | Some (im2, None) \<Rightarrow> Some (im2, Inr unreferenced)))"

text \<open>Every level of the recursion gives one more block a cluster of its own, so this is enough.\<close>

definition refcount_fuel :: "image \<Rightarrow> nat" where
  "refcount_fuel im = length (vc_data (rc_table (i_rc im))) + 1"

section \<open>Reading\<close>

definition limitRangeFile :: "ImageHeader \<Rightarrow> nat \<Rightarrow> nat \<Rightarrow> nat" where
  "limitRangeFile h address count =
     (if checkAddUint64Boundaries address count \<noteq> None then 0
      else if address > h_virtualDiskSizeBytes h then 0
      else let remainingOffset = h_virtualDiskSizeBytes h - address in if count < remainingOffset then count else remainingOffset)"

definition beyond_error :: "ImageHeader \<Rightarrow> nat \<Rightarrow> gerror" where
  "beyond_error h address = Errorf ''address %d is bigger the virtual file size %d'' [FInt (int address), FInt (int (h_virtualDiskSizeBytes h))]"

definition fileOffsetRead :: "os_calls \<Rightarrow> image \<Rightarrow> nat \<Rightarrow> (image \<times> nat option result) option" where
  "fileOffsetRead os im address =
     (if address \<ge> h_virtualDiskSizeBytes (i_header im) then Some (im, Inl (beyond_error (i_header im) address))
      else case readClusterAddress os (i_rf im) (i_pt im) address of
        None \<Rightarrow> None
      | Some (rf, pt, r) \<Rightarrow>
          Some (im\<lparr>i_rf := rf, i_pt := pt\<rparr>,
            case r of
              Inl ErrNeedPointerCluster \<Rightarrow> Inr None
            | Inl er \<Rightarrow> Inl (qerror_Error er)
            | Inr clusterAddress \<Rightarrow> Inr (if clusterAddress = 0 then None else Some (u64 (clusterAddress + clusterOffset rf address)))))"

text \<open>\<open>B\<close> reads from the backing image, whose state is \<open>'b\<close>.\<close>

fun read_loop ::
    "nat \<Rightarrow> os_calls \<Rightarrow> ('b \<Rightarrow> nat \<Rightarrow> nat \<Rightarrow> ('b \<times> byte list result) option) \<Rightarrow> nat \<Rightarrow> nat \<Rightarrow> image \<Rightarrow> 'b option \<Rightarrow> nat \<Rightarrow> byte list \<Rightarrow>
     (image \<times> 'b option \<times> byte list result) option" where
  "read_loop 0 os B address readCount im backing done buffer = None"
| "read_loop (Suc n) os B address readCount im backing done buffer =
     (if \<not> done < readCount then Some (im, backing, Inr buffer)
      else let currentAddress = u64 (address + done) in
        case fileOffsetRead os im currentAddress of
          None \<Rightarrow> None
        | Some (im1, Inl er) \<Rightarrow> Some (im1, backing, Inl er)
        | Some (im1, Inr r) \<Rightarrow>
            let count = limitRangeCluster (i_rf im1) currentAddress (readCount - done) in
            (case r of
               Some fileOffset \<Rightarrow>
                 (case file_at os (rf_file (i_rf im1)) fileOffset count of
                    Inl er \<Rightarrow> Some (im1, backing, Inl er)
                  | Inr bs \<Rightarrow> read_loop n os B address readCount im1 backing (done + count) (buffer @ bs))
             | None \<Rightarrow>
                 (case backing of
                    None \<Rightarrow> read_loop n os B address readCount im1 backing (done + count) (buffer @ replicate count 0)
                  | Some b \<Rightarrow>
                      (case B b currentAddress count of
                         None \<Rightarrow> None
                       | Some (b', Inl er) \<Rightarrow> Some (im1, Some b', Inl er)
                       | Some (b', Inr bs) \<Rightarrow> read_loop n os B address readCount im1 (Some b') (done + count) (buffer @ bs)))))"

text \<open>
  The buffer of a read is made with the requested size, not with the part of it inside the disk; a size above
  \<open>maxAlloc\<close> is a panic of \<open>make\<close>, which is \<open>None\<close> here.
\<close>

primrec read_at :: "nat \<Rightarrow> os_calls \<Rightarrow> image list \<Rightarrow> nat \<Rightarrow> nat \<Rightarrow> (image list \<times> byte list result) option" where
  "read_at 0 os ims address count = None"
| "read_at (Suc n) os ims address count =
     (case ims of
        [] \<Rightarrow> None
      | im # bs \<Rightarrow>
          if int count > maxAlloc then None
          else let readCount = limitRangeFile (i_header im) address count in
          (case read_loop (Suc readCount) os (read_at n os) address readCount im (if bs = [] then None else Some bs) 0 [] of
             None \<Rightarrow> None
           | Some (im', backing, r) \<Rightarrow> Some (im' # (case backing of None \<Rightarrow> [] | Some bs' \<Rightarrow> bs'), r)))"

definition ReadAt :: "os_calls \<Rightarrow> image list \<Rightarrow> nat \<Rightarrow> nat \<Rightarrow> (image list \<times> byte list result) option" where
  "ReadAt os ims address count = read_at (length ims) os ims address count"

section \<open>Writing\<close>

definition appendDataCluster :: "os_calls \<Rightarrow> image \<Rightarrow> byte list option \<Rightarrow> (image \<times> nat result) option" where
  "appendDataCluster os im initialData =
     (case image_getNewCluster os initialData im of
        (im1, Inl er) \<Rightarrow> Some (im1, Inl er)
      | (im1, Inr a) \<Rightarrow>
          (case image_setClusterRefcount (refcount_fuel im1) os im1 a 1 of
             None \<Rightarrow> None
           | Some (im2, Inl er) \<Rightarrow> Some (im2, Inl er)
           | Some (im2, Inr unref) \<Rightarrow> Some (im2\<lparr>i_unrefClusters := i_unrefClusters im2 @ unref\<rparr>, Inr a)))"

text \<open>The pairs are the reference counts still to be set.\<close>

definition image_updateClusterAddress ::
    "os_calls \<Rightarrow> image \<Rightarrow> nat \<Rightarrow> nat \<Rightarrow> (nat \<times> nat) list \<Rightarrow> (image \<times> (nat \<times> nat) list \<times> gerror option) option" where
  "image_updateClusterAddress os im virtualAddress clusterAddress beingSet =
     (case updateClusterAddress (getNewCluster os None) (pool_of im) (i_rf im) (i_pt im) virtualAddress clusterAddress of
        None \<Rightarrow> None
      | Some (s, rf, pt, r) \<Rightarrow>
          let im1 = im\<lparr>i_availClusters := cp_avail s, i_rf := rf, i_pt := pt\<rparr> in
          Some (case r of
             None \<Rightarrow> (im1, beingSet, None)
           | Some (ErrNeedFreeClusters xs c) \<Rightarrow> (im1\<lparr>i_unrefClusters := i_unrefClusters im1 @ [c]\<rparr>, beingSet @ xs, None)
           | Some er \<Rightarrow> (im1, beingSet, Some (qerror_Error er))))"

fun set_refcounts :: "os_calls \<Rightarrow> image \<Rightarrow> (nat \<times> nat) list \<Rightarrow> (image \<times> gerror option) option" where
  "set_refcounts os im [] = Some (im, None)"
| "set_refcounts os im ((a, c) # xs) =
     (case image_setClusterRefcount (refcount_fuel im) os im a c of
        None \<Rightarrow> None
      | Some (im1, Inl er) \<Rightarrow> Some (im1, Some er)
      | Some (im1, Inr unref) \<Rightarrow> set_refcounts os (im1\<lparr>i_unrefClusters := i_unrefClusters im1 @ unref\<rparr>) xs)"

text \<open>The address of the cluster, with a new table when the first level has none, and the counts to set.\<close>

definition locate_cluster ::
    "os_calls \<Rightarrow> image \<Rightarrow> nat \<Rightarrow> (image \<times> (nat \<times> (nat \<times> nat) list) result) option" where
  "locate_cluster os im address =
     (case readClusterAddress os (i_rf im) (i_pt im) address of
        None \<Rightarrow> None
      | Some (rf, pt, r) \<Rightarrow>
          let im1 = im\<lparr>i_rf := rf, i_pt := pt\<rparr> in
          (case r of
             Inr clusterAddress \<Rightarrow> Some (im1, Inr (clusterAddress, []))
           | Inl ErrNeedPointerCluster \<Rightarrow>
               (case image_getNewCluster os None im1 of
                  (im2, Inl er) \<Rightarrow> Some (im2, Inl er)
                | (im2, Inr newL2) \<Rightarrow>
                    (case addNewPointerCluster os (i_rf im2) (i_pt im2) address newL2 of
                       None \<Rightarrow> None
                     | Some (rf3, pt3, er) \<Rightarrow>
                         Some (im2\<lparr>i_rf := rf3, i_pt := pt3\<rparr>, case er of Some e \<Rightarrow> Inl e | None \<Rightarrow> Inr (0, [(newL2, 1)]))))
           | Inl er \<Rightarrow> Some (im1, Inl (qerror_Error er))))"

definition initial_data ::
    "('b \<Rightarrow> nat \<Rightarrow> nat \<Rightarrow> ('b \<times> byte list result) option) \<Rightarrow> ImageHeader \<Rightarrow> 'b option \<Rightarrow> nat \<Rightarrow> ('b option \<times> byte list option result) option" where
  "initial_data B h backing address =
     (case backing of
        None \<Rightarrow> Some (None, Inr None)
      | Some b \<Rightarrow>
          (case B b (address - address mod h_clusterSize h) (h_clusterSize h) of
             None \<Rightarrow> None
           | Some (b', Inl er) \<Rightarrow> Some (Some b', Inl er)
           | Some (b', Inr data) \<Rightarrow> Some (Some b', Inr (Some data))))"

text \<open>The branch for an address without a cluster.\<close>

definition new_data_cluster ::
    "os_calls \<Rightarrow> ('b \<Rightarrow> nat \<Rightarrow> nat \<Rightarrow> ('b \<times> byte list result) option) \<Rightarrow> image \<Rightarrow> 'b option \<Rightarrow> nat \<Rightarrow> (nat \<times> nat) list \<Rightarrow>
     (image \<times> 'b option \<times> (nat \<times> (nat \<times> nat) list) result) option" where
  "new_data_cluster os B im backing address beingSet =
     (case initial_data B (i_header im) backing address of
        None \<Rightarrow> None
      | Some (backing', Inl er) \<Rightarrow> Some (im, backing', Inl er)
      | Some (backing', Inr initialData) \<Rightarrow>
          (case appendDataCluster os im initialData of
             None \<Rightarrow> None
           | Some (im2, Inl er) \<Rightarrow> Some (im2, backing', Inl er)
           | Some (im2, Inr a) \<Rightarrow>
               (case image_updateClusterAddress os im2 address a beingSet of
                  None \<Rightarrow> None
                | Some (im3, beingSet', er) \<Rightarrow>
                    Some (im3, backing', case er of Some e \<Rightarrow> Inl e | None \<Rightarrow> Inr (a, beingSet')))))"

definition fileOffsetWrite ::
    "os_calls \<Rightarrow> ('b \<Rightarrow> nat \<Rightarrow> nat \<Rightarrow> ('b \<times> byte list result) option) \<Rightarrow> image \<Rightarrow> 'b option \<Rightarrow> nat \<Rightarrow>
     (image \<times> 'b option \<times> nat result) option" where
  "fileOffsetWrite os B im backing address =
     (if address \<ge> h_virtualDiskSizeBytes (i_header im) then Some (im, backing, Inl (beyond_error (i_header im) address))
      else case locate_cluster os im address of
        None \<Rightarrow> None
      | Some (im1, Inl er) \<Rightarrow> Some (im1, backing, Inl er)
      | Some (im1, Inr (clusterAddress, beingSet)) \<Rightarrow>
          (case (if clusterAddress \<noteq> 0 then Some (im1, backing, Inr (clusterAddress, beingSet))
                 else new_data_cluster os B im1 backing address beingSet) of
             None \<Rightarrow> None
           | Some (im3, backing', Inl er) \<Rightarrow> Some (im3, backing', Inl er)
           | Some (im3, backing', Inr (a, beingSet')) \<Rightarrow>
               (case set_refcounts os im3 beingSet' of
                  None \<Rightarrow> None
                | Some (im4, Some er) \<Rightarrow> Some (im4, backing', Inl er)
                | Some (im4, None) \<Rightarrow> Some (im4, backing', Inr (u64 (a + clusterOffset (i_rf im4) address))))))"

definition raw_WriteAt :: "os_calls \<Rightarrow> QcowRawFile \<Rightarrow> byte list \<Rightarrow> nat \<Rightarrow> QcowRawFile \<times> gerror option" where
  "raw_WriteAt os rf bs offset =
     (if rf_readOnly rf then (rf, Some (writeToReadOnly offset (length bs)))
      else if offset \<ge> 2 ^ 63 then (rf, Some (Errorf ''negative offset'' []))
      else case file_Write (os_write os) ((rf_file rf)\<lparr>fpos := offset\<rparr>) bs of
        (f', er) \<Rightarrow> (rf\<lparr>rf_file := f'\<lparr>fpos := fpos (rf_file rf)\<rparr>\<rparr>, er))"

fun write_loop ::
    "nat \<Rightarrow> os_calls \<Rightarrow> ('b \<Rightarrow> nat \<Rightarrow> nat \<Rightarrow> ('b \<times> byte list result) option) \<Rightarrow> nat \<Rightarrow> byte list \<Rightarrow> nat \<Rightarrow> image \<Rightarrow> 'b option \<Rightarrow> nat \<Rightarrow>
     (image \<times> 'b option \<times> gerror option) option" where
  "write_loop 0 os B address data writeCount im backing done = None"
| "write_loop (Suc n) os B address data writeCount im backing done =
     (if \<not> done < writeCount then Some (im, backing, None)
      else let currentAddress = u64 (address + done) in
        case fileOffsetWrite os B im backing currentAddress of
          None \<Rightarrow> None
        | Some (im1, backing', Inl er) \<Rightarrow> Some (im1, backing', Some er)
        | Some (im1, backing', Inr offset) \<Rightarrow>
            let count = limitRangeCluster (i_rf im1) currentAddress (writeCount - done) in
            (case raw_WriteAt os (i_rf im1) (take count (drop done data)) offset of
               (rf2, Some er) \<Rightarrow> Some (im1\<lparr>i_rf := rf2\<rparr>, backing', Some er)
             | (rf2, None) \<Rightarrow> write_loop n os B address data writeCount (im1\<lparr>i_rf := rf2\<rparr>) backing' (done + count)))"

definition WriteAt :: "os_calls \<Rightarrow> image list \<Rightarrow> nat \<Rightarrow> byte list \<Rightarrow> (image list \<times> gerror option) option" where
  "WriteAt os ims address data =
     (case ims of
        [] \<Rightarrow> None
      | im # bs \<Rightarrow>
          if i_readOnly im then Some (ims, Some (writeToReadOnly address (length data)))
          else
            let writeCount = limitRangeFile (i_header im) address (length data) in
            (case write_loop (Suc writeCount) os (ReadAt os) address data writeCount im (if bs = [] then None else Some bs) 0 of
               None \<Rightarrow> None
             | Some (im', backing, er) \<Rightarrow> Some (im' # (case backing of None \<Rightarrow> [] | Some bs' \<Rightarrow> bs'), er)))"

section \<open>Writing back\<close>

definition syncCache :: "os_calls \<Rightarrow> nat list \<Rightarrow> nat list \<Rightarrow> image \<Rightarrow> (image \<times> gerror option) option" where
  "syncCache os ks bs im =
     (case pt_sync os ks (i_rf im) (i_pt im) of
        (rf1, pt1, Some er) \<Rightarrow> Some (im\<lparr>i_rf := rf1, i_pt := pt1\<rparr>, Some er)
      | (rf1, pt1, None) \<Rightarrow>
          (case flushBlocks os bs rf1 (i_rc im) of
             None \<Rightarrow> None
           | Some (rf2, rc2, Some er) \<Rightarrow> Some (im\<lparr>i_rf := rf2, i_pt := pt1, i_rc := rc2\<rparr>, Some er)
           | Some (rf2, rc2, None) \<Rightarrow>
               (case file_sync os rf2 of
                  Some er \<Rightarrow> Some (im\<lparr>i_rf := rf2, i_pt := pt1, i_rc := rc2\<rparr>, Some er)
                | None \<Rightarrow>
                    (case flushTable os rf2 rc2 of
                       (rf3, rc3, Inl er) \<Rightarrow> Some (im\<lparr>i_rf := rf3, i_pt := pt1, i_rc := rc3\<rparr>, Some er)
                     | (rf3, rc3, Inr changed) \<Rightarrow>
                         (case syncL1 os rf3 pt1 of
                            (rf4, pt4, Inl er) \<Rightarrow> Some (im\<lparr>i_rf := rf4, i_pt := pt4, i_rc := rc3\<rparr>, Some er)
                          | (rf4, pt4, Inr changed') \<Rightarrow>
                              Some (im\<lparr>i_rf := rf4, i_pt := pt4, i_rc := rc3\<rparr>,
                                    if changed \<or> changed' then file_sync os rf4 else None))))))"

definition Flush :: "os_calls \<Rightarrow> nat list \<Rightarrow> nat list \<Rightarrow> image \<Rightarrow> (image \<times> gerror option) option" where
  "Flush os ks bs im =
     (case syncCache os ks bs im of
        None \<Rightarrow> None
      | Some (im1, Some er) \<Rightarrow> Some (im1, Some er)
      | Some (im1, None) \<Rightarrow> Some (im1\<lparr>i_availClusters := i_availClusters im1 @ i_unrefClusters im1, i_unrefClusters := []\<rparr>, None))"

end
