(* ===== verification/QcowHeaderLaws.thy ===== *)
theory QcowHeaderLaws
  imports QcowHeader
begin

text \<open>
  Properties of the header: which files make the decoder panic, what a validated header guarantees to the
  tables, that a created header is found again when its file is opened, and where its tables lie.
\<close>

unbundle bit_operations_syntax

section \<open>Table sizes\<close>

lemma divRoundUp_Some: "0 < b \<Longrightarrow> a + b - 1 < 2 ^ w \<Longrightarrow> divRoundUp w a b = Some ((a + b - 1) div b)"
  by (simp add: divRoundUp_def)

lemma divRoundUp_None [simp]: "divRoundUp w a b = None \<longleftrightarrow> b = 0"
  by (simp add: divRoundUp_def)

lemma ceil_le_iff: "0 < b \<Longrightarrow> (a + b - 1) div b \<le> c \<longleftrightarrow> a \<le> c * (b::nat)"
proof -
  assume "0 < b"
  then have "(a + b - 1) div b \<le> c \<longleftrightarrow> a + b - 1 < Suc c * b" by (simp add: div_less_iff_less_mult less_Suc_eq_le [symmetric])
  also have "\<dots> \<longleftrightarrow> a \<le> c * b" using \<open>0 < b\<close> by auto
  finally show ?thesis .
qed

lemma maxRefCount_None [simp]: "maxRefCountClusters a b c cs = None \<longleftrightarrow> cs = 0"
  unfolding maxRefCountClusters_def Let_def bind_eq_None_conv by simp

lemma findRefcount_None [simp]: "findRefcountTableClustersNumber a b c cs = None \<longleftrightarrow> cs = 0"
  unfolding findRefcountTableClustersNumber_def bind_eq_None_conv by simp

lemma preCompute_None: "preComputeTableSizes h = None \<longleftrightarrow>
    h_clusterSize h = 0 \<or> u32 (h_clusterSize h div 8) = 0 \<or> u32 (h_clusterSize h) = 0"
  by (auto simp: preComputeTableSizes_def Let_def bind_eq_None_conv)

lemma preCompute_keeps:
  assumes "preComputeTableSizes h = Some h'"
  shows "h'\<lparr>h_numClusters := h_numClusters h, h_l2Size := h_l2Size h, h_numL2Clusters := h_numL2Clusters h,
     h_l1Clusters := h_l1Clusters h, h_refCountClustersNumberComputed := h_refCountClustersNumberComputed h\<rparr> = h"
  using assms by (auto simp: preComputeTableSizes_def Let_def bind_eq_Some_conv)

lemma preCompute_sizes:
  assumes "preComputeTableSizes h0 = Some h"
  shows "h_l2Size h = u32 (h_clusterSize h0 div 8)" "h_clusterSize h = h_clusterSize h0" "h_clusterBits h = h_clusterBits h0"
    "h_virtualDiskSizeBytes h = h_virtualDiskSizeBytes h0" "h_lazyRefcounts h = h_lazyRefcounts h0"
    "\<exists>n. divRoundUp 64 (h_virtualDiskSizeBytes h0) (h_clusterSize h0) = Some n
      \<and> divRoundUp 32 (u32 n) (u32 (h_clusterSize h0 div 8)) = Some (h_numL2Clusters h)"
  using assms by (auto simp: preComputeTableSizes_def Let_def bind_eq_Some_conv)

lemma cluster_size_panics:
  "h_clusterSize h = getClusterSize b \<Longrightarrow> preComputeTableSizes h = None \<longleftrightarrow> b < 3 \<or> 32 \<le> b"
proof -
  assume h: "h_clusterSize h = getClusterSize b"
  have three: "(2::nat) ^ b div 8 = 2 ^ (b - 3)" if "3 \<le> b" using power_diff [of "2::nat" 3 b] that by simp
  consider "b < 3" | "3 \<le> b" "b < 32" | "32 \<le> b" "b < 64" | "64 \<le> b" by linarith
  then show ?thesis
  proof cases
    case 1
    then have "b = 0 \<or> b = 1 \<or> b = 2" by auto
    then show ?thesis using 1 h by (auto simp: preCompute_None getClusterSize_def)
  next
    case 2
    then have "(2::nat) ^ b < 2 ^ 32" by (intro power_strict_increasing) simp_all
    moreover from 2 have "(2::nat) ^ (b - 3) < 2 ^ 32" by (intro power_strict_increasing) simp_all
    ultimately show ?thesis using 2 h three by (simp add: preCompute_None getClusterSize_def)
  next
    case 3
    then have "(2::nat) ^ 32 dvd 2 ^ b" by (intro le_imp_power_dvd)
    then have "u32 (2 ^ b) = 0" by (simp add: u32_def)
    then show ?thesis using 3 h by (simp add: preCompute_None getClusterSize_def)
  next
    case 4
    then show ?thesis using h by (simp add: preCompute_None getClusterSize_def)
  qed
qed

section \<open>Decoding\<close>

fun fields :: "nat list \<Rightarrow> byte list \<Rightarrow> nat list" where
  "fields [] bs = []"
| "fields (n # ns) bs = be (take n bs) # fields ns (drop n bs)"

lemma read_fields_ok:
  assumes "reads_ok os" "fpos f + sum_list ns \<le> length (fdata f)"
  shows "read_fields os ns f = (f\<lparr>fpos := fpos f + sum_list ns\<rparr>, Inr (fields ns (drop (fpos f) (fdata f))))"
  using assms
proof (induction ns arbitrary: f)
  case (Cons n ns)
  let ?f = "f\<lparr>fpos := fpos f + n\<rparr>"
  have "file_ReadFull os f n = (?f, Inr (take n (drop (fpos f) (fdata f))))"
    using Cons.prems by (simp add: file_ReadFull_def reads_ok_def Let_def)
  moreover have "read_fields os ns ?f = (?f\<lparr>fpos := fpos ?f + sum_list ns\<rparr>, Inr (fields ns (drop (fpos ?f) (fdata ?f))))"
    using Cons.prems by (intro Cons.IH) simp_all
  ultimately show ?case by (simp add: add.assoc add.commute)
qed simp

lemma sum_header_fields: "sum_list header_fields = 104"
  by (simp add: header_fields_def)

lemma decode:
  assumes "reads_ok os" "104 \<le> length (fdata f)"
  defines "v \<equiv> fields header_fields (fdata f)"
  assumes "v ! 17 \<le> 104"
    "v ! 2 = 0 \<or> v ! 3 = 0 \<or> v ! 2 + v ! 3 \<le> length (fdata f) \<and> v ! 2 < 2 ^ 63"
  shows "\<exists>p. imageHeaderFromFile os f =
      (case preComputeTableSizes (header_of v 0 (if v ! 2 = 0 \<or> v ! 3 = 0 then None else Some (take (v ! 3) (drop (v ! 2) (fdata f))))) of
         None \<Rightarrow> None
       | Some h \<Rightarrow> Some (f\<lparr>fpos := p\<rparr>, case validate h of Some er \<Rightarrow> Inl er | None \<Rightarrow> Inr h))"
proof -
  have r: "read_fields os header_fields (f\<lparr>fpos := 0\<rparr>) = (f\<lparr>fpos := 104\<rparr>, Inr v)"
    using read_fields_ok [OF assms(1), of "f\<lparr>fpos := 0\<rparr>" header_fields] assms(2) by (simp add: sum_header_fields v_def)
  have c: "read_compression os (v ! 17) (f\<lparr>fpos := 104\<rparr>) = (f\<lparr>fpos := 104\<rparr>, Inr 0)"
    using assms(4) by (simp add: read_compression_def V3BareHeaderSize_def)
  show ?thesis
  proof (cases "v ! 2 = 0 \<or> v ! 3 = 0")
    case True
    then have "read_backing os (v ! 2) (v ! 3) (f\<lparr>fpos := 104\<rparr>) = (f\<lparr>fpos := 104\<rparr>, Inr None)"
      by (auto simp: read_backing_def)
    then show ?thesis using r c True by (intro exI [of _ 104]) (simp add: imageHeaderFromFile_def)
  next
    case False
    then have b: "v ! 2 + v ! 3 \<le> length (fdata f)" "v ! 2 < 2 ^ 63" using assms(5) by auto
    have "read_backing os (v ! 2) (v ! 3) (f\<lparr>fpos := 104\<rparr>)
        = (f\<lparr>fpos := v ! 2 + v ! 3\<rparr>, Inr (Some (take (v ! 3) (drop (v ! 2) (fdata f)))))"
      using b False assms(1) by (simp add: read_backing_def file_Seek_def file_ReadFull_def reads_ok_def Let_def)
    then show ?thesis using r c False by (intro exI [of _ "v ! 2 + v ! 3"]) (simp add: imageHeaderFromFile_def)
  qed
qed

text \<open>When the reads of the decoder fail.\<close>

lemma read_fields_short:
  "reads_ok os \<Longrightarrow> fpos f \<le> length (fdata f) \<Longrightarrow> length (fdata f) < fpos f + sum_list ns \<Longrightarrow> \<exists>f' er. read_fields os ns f = (f', Inl er)"
proof (induction ns arbitrary: f)
  case (Cons n ns)
  show ?case
  proof (cases "fpos f + n \<le> length (fdata f)")
    case True
    let ?f = "f\<lparr>fpos := fpos f + n\<rparr>"
    have "file_ReadFull os f n = (?f, Inr (take n (drop (fpos f) (fdata f))))"
      using Cons.prems True by (simp add: file_ReadFull_def reads_ok_def Let_def)
    moreover have "\<exists>f' er. read_fields os ns ?f = (f', Inl er)" using Cons.prems True by (intro Cons.IH) simp_all
    ultimately show ?thesis by auto
  next
    case False
    then show ?thesis using Cons.prems by (auto simp: file_ReadFull_def reads_ok_def Let_def)
  qed
qed simp

lemma compression_full:
  "reads_ok os \<Longrightarrow> n \<le> 104 \<or> fpos f + 1 \<le> length (fdata f) \<Longrightarrow> \<exists>f' b. read_compression os n f = (f', Inr b) \<and> fdata f' = fdata f"
  by (auto simp: read_compression_def V3BareHeaderSize_def file_ReadFull_def reads_ok_def Let_def)

lemma compression_short:
  "reads_ok os \<Longrightarrow> \<not> (n \<le> 104 \<or> fpos f + 1 \<le> length (fdata f)) \<Longrightarrow> \<exists>f' er. read_compression os n f = (f', Inl er)"
  by (auto simp: read_compression_def V3BareHeaderSize_def file_ReadFull_def reads_ok_def Let_def)

lemma backing_full:
  "reads_ok os \<Longrightarrow> a = 0 \<or> n = 0 \<or> a < 2 ^ 63 \<and> a + n \<le> length (fdata f) \<Longrightarrow> \<exists>f' p. read_backing os a n f = (f', Inr p)"
  by (auto simp: read_backing_def file_Seek_def file_ReadFull_def reads_ok_def Let_def)

lemma backing_short:
  "reads_ok os \<Longrightarrow> \<not> (a = 0 \<or> n = 0 \<or> a < 2 ^ 63 \<and> a + n \<le> length (fdata f)) \<Longrightarrow> \<exists>f' er. read_backing os a n f = (f', Inl er)"
  by (auto simp: read_backing_def file_Seek_def file_ReadFull_def reads_ok_def Let_def)

section \<open>Validation\<close>

lemma or_else_None [simp]: "or_else a b = None \<longleftrightarrow> a = None \<and> b = None"
  by (simp add: or_else_def split: option.split)

lemma validate_None: "validate h = None \<longleftrightarrow>
    validateMagic h = None \<and> validateVersionNumber h = None \<and> validateBackingFileSizeOffset h = None \<and> validateClusterBits h = None
  \<and> validateVirtualDiskSize h = None \<and> validateCryptMethod h = None \<and> validateL1TableSize h = None \<and> validateL1TableOffset h = None
  \<and> validateRefCountTableClusters h = None \<and> validateNbSnapshots h = None \<and> snd (validateIncompatibleFeatures h) = None
  \<and> validateAutoClearFeatures h = None \<and> validateRefCountOrder h = None \<and> validateHeaderLength h = None
  \<and> checkOffsetsForClusterBoundaries h = None \<and> validateNumberOfL2Clusters h = None \<and> refcountTableSizeSanityCheck h = None"
  by (simp add: validate_def)

lemma boundary_dvd:
  assumes "cs = 2 ^ b" "b < 64"
  shows "offsetIsClusterBoundary x cs = None \<longleftrightarrow> cs dvd x"
proof -
  have "1 \<le> cs" using assms(1) by simp
  moreover have "cs < 2 ^ 64" unfolding assms(1) by (rule power_strict_increasing [OF assms(2)]) simp
  ultimately have "x AND sub64 cs 1 = x AND mask b" using assms(1) by (simp add: mask_eq_exp_minus_1)
  then have "x AND sub64 cs 1 = x mod cs" using assms(1) by (simp add: take_bit_eq_mask [symmetric] take_bit_eq_mod)
  then show ?thesis by (auto simp: offsetIsClusterBoundary_def dvd_eq_mod_eq_0)
qed

text \<open>The product in the limit of the disk size wraps to zero for clusters of 1 MiB and more.\<close>

lemma valid_limit:
  assumes "validate h = None" "h_clusterSize h = 2 ^ b" "20 \<le> b"
  shows "h_virtualDiskSizeBytes h = 0"
proof -
  have "(2::nat) ^ 64 dvd 2 ^ 25 * 2 ^ b * 2 ^ b" using le_imp_power_dvd [of 64 "25 + b + b" "2::nat"] assms(3) unfolding power_add by simp
  then have "u64 (u64 (L1TableMaxSize * 2 ^ b) * 2 ^ b) = 0" by (simp add: u64_def L1TableMaxSize_def mod_mult_left_eq)
  then show ?thesis
    using assms(1,2) by (auto simp: validate_None validateVirtualDiskSize_def diskSizeLimitForCluster_def split: if_splits)
qed

text \<open>The limit of the disk size is a quotient of a \<open>uint64\<close>.\<close>

lemma limit_bounded: "validate h = None \<Longrightarrow> h_virtualDiskSizeBytes h < 2 ^ 58"
proof -
  assume "validate h = None"
  then have "h_virtualDiskSizeBytes h \<le> u64 (u64 (L1TableMaxSize * h_clusterSize h) * h_clusterSize h) div 8 div 8"
    by (auto simp: validate_None validateVirtualDiskSize_def diskSizeLimitForCluster_def split: if_splits)
  moreover have "u64 x div 8 div 8 < 2 ^ 58" for x
  proof -
    have "u64 x < 2 ^ 64" by (simp add: u64_def)
    then show ?thesis by (simp add: div_less_iff_less_mult)
  qed
  ultimately show ?thesis by (rule le_less_trans)
qed

section \<open>Quotients that are rounded up\<close>

definition ceil_div :: "nat \<Rightarrow> nat \<Rightarrow> nat" where
  "ceil_div a b = (a + b - 1) div b"

lemma ceil_div_bounds:
  assumes "0 < b"
  shows "ceil_div a b \<le> c \<longleftrightarrow> a \<le> c * b" "a \<le> ceil_div a b * b" "0 < ceil_div a b \<longleftrightarrow> 0 < a"
proof -
  show le: "ceil_div a b \<le> c \<longleftrightarrow> a \<le> c * b" for c using ceil_le_iff [OF assms, of a c] by (simp add: ceil_div_def)
  show "a \<le> ceil_div a b * b" using le [of "ceil_div a b"] by simp
  show "0 < ceil_div a b \<longleftrightarrow> 0 < a" using le [of 0] by auto
qed

lemma divRoundUp_ceil: "0 < b \<Longrightarrow> a + b < 2 ^ w \<Longrightarrow> divRoundUp w a b = Some (ceil_div a b)"
  by (simp add: divRoundUp_Some ceil_div_def)

text \<open>
  Whether the first level has a slot for every cluster: the number of clusters is first cut to 32 bits and then rounded up in 32 bits.
\<close>

lemma slots_iff:
  assumes num: "divRoundUp 32 (u32 (ceil_div vs cs)) l2 = Some k" and pos: "0 < vs" "0 < cs" and l2: "0 < l2" "l2 < 2 ^ 31"
  shows "(\<forall>va < vs. va div cs div l2 < k) \<longleftrightarrow> ceil_div vs cs + l2 \<le> 2 ^ 32"
proof -
  let ?n = "ceil_div vs cs"
  have k: "k = ((u32 ?n + l2 - 1) mod 2 ^ 32) div l2" using num l2 by (simp add: divRoundUp_def)
  have n: "0 < ?n" using ceil_div_bounds(3) pos by blast
  have inside: "va div cs < ?n" if "va < vs" for va
    using ceil_div_bounds(2) [OF pos(2), of vs] that pos by (simp add: div_less_iff_less_mult)
  show ?thesis
  proof
    assume fits: "?n + l2 \<le> 2 ^ 32"
    then have "k = ceil_div ?n l2" using l2 n by (simp add: k ceil_div_def)
    then show "\<forall>va < vs. va div cs div l2 < k"
      using inside ceil_div_bounds(2) [OF l2(1), of ?n] l2(1) by (auto simp: div_less_iff_less_mult intro: less_le_trans)
  next
    assume all: "\<forall>va < vs. va div cs div l2 < k"
    show "?n + l2 \<le> 2 ^ 32"
    proof (rule ccontr)
      assume no: "\<not> ?n + l2 \<le> 2 ^ 32"
      have e: "vs + cs - 1 = (vs - 1) + cs" using pos by simp
      have "?n = (vs - 1) div cs + 1" unfolding ceil_div_def e using pos(2) by (simp only: div_add_self2 neq0_conv)
      then have last: "(vs - 1) div cs = ?n - 1" by (simp only: add_diff_cancel_right')
      have "(vs - 1) div cs div l2 < k" using all pos by simp
      then have lt: "?n - 1 < k * l2" unfolding last by (simp only: div_less_iff_less_mult [OF l2(1)])
      have kl: "k * l2 \<le> (u32 ?n + l2 - 1) mod 2 ^ 32" unfolding k by (rule div_times_less_eq_dividend)
      show False
      proof (cases "?n < 2 ^ 32")
        case True
        then have "(u32 ?n + l2 - 1) mod 2 ^ 32 = ?n + l2 - 1 - 2 ^ 32" using no l2 by (simp add: le_mod_geq)
        then show False using lt kl l2 True by simp
      next
        case False
        moreover have "(u32 ?n + l2 - 1) mod 2 ^ 32 < 2 ^ 32" by simp
        ultimately show False using lt kl by linarith
      qed
    qed
  qed
qed

section \<open>Created headers\<close>

text \<open>The sizes that \<open>preComputeTableSizes\<close> finds for clusters of 64 KiB, up to 64 TiB, where no sum wraps.\<close>

definition data_clusters :: "nat \<Rightarrow> nat" where "data_clusters vs = ceil_div vs 65536"

definition l2_clusters :: "nat \<Rightarrow> nat" where "l2_clusters vs = ceil_div (data_clusters vs) 8192"

definition l1_clusters :: "nat \<Rightarrow> nat" where "l1_clusters vs = ceil_div (l2_clusters vs) 65536"

definition ref_blocks :: "nat \<Rightarrow> nat" where
  "ref_blocks vs = (let d = ceil_div (2 * (data_clusters vs + l2_clusters vs + l1_clusters vs + 1)) 65536 in d + ceil_div (2 * d) 65536)"

definition ref_clusters :: "nat \<Rightarrow> nat" where "ref_clusters vs = ceil_div (8 * ref_blocks vs) 65536"

lemma sizes_bounded:
  assumes "vs \<le> 2 ^ 46"
  shows "data_clusters vs \<le> 2 ^ 30" "l2_clusters vs \<le> 2 ^ 17" "l1_clusters vs \<le> 2" "ref_blocks vs \<le> 32775" "ref_clusters vs \<le> 5"
    "0 < ref_blocks vs" "0 < ref_clusters vs"
proof -
  show d: "data_clusters vs \<le> 2 ^ 30" using assms by (simp add: data_clusters_def ceil_div_bounds)
  then show l2: "l2_clusters vs \<le> 2 ^ 17" by (simp add: l2_clusters_def ceil_div_bounds)
  then show l1: "l1_clusters vs \<le> 2" by (simp add: l1_clusters_def ceil_div_bounds)
  define r where "r = ceil_div (2 * (data_clusters vs + l2_clusters vs + l1_clusters vs + 1)) 65536"
  have r: "r \<le> 32773" "0 < r" using d l2 l1 by (simp_all add: r_def ceil_div_bounds)
  have rb: "ref_blocks vs = r + ceil_div (2 * r) 65536" by (simp add: ref_blocks_def r_def Let_def)
  have "ceil_div (2 * r) 65536 \<le> 2" using r by (simp add: ceil_div_bounds)
  then show "ref_blocks vs \<le> 32775" "0 < ref_blocks vs" using r rb by simp_all
  then show "ref_clusters vs \<le> 5" "0 < ref_clusters vs" by (simp_all add: ref_clusters_def ceil_div_bounds)
qed

lemma refcount_sizes:
  assumes "vs \<le> 2 ^ 46"
  shows "findRefcountTableClustersNumber (data_clusters vs) (l2_clusters vs) (l1_clusters vs) 65536 = Some (ref_clusters vs)"
proof -
  note B = sizes_bounded [OF assms]
  let ?n = "data_clusters vs + l2_clusters vs + l1_clusters vs + 1"
  let ?d = "ceil_div (2 * ?n) 65536"
  have n: "?n * 2 < 2 ^ 32 - 65536" using B(1-3) by simp
  then have d: "?d \<le> 65536" by (simp add: ceil_div_bounds)
  have "divRoundUp 32 (u32 (?n * 2)) 65536 = Some ?d" using n by (subst divRoundUp_ceil) (simp_all add: mult.commute)
  moreover have "divRoundUp 32 (u32 (?d * 2)) 65536 = Some (ceil_div (2 * ?d) 65536)"
    using d by (subst divRoundUp_ceil) (simp_all add: mult.commute)
  moreover have "u32 ?n = ?n" using n by simp
  moreover have "u32 (?d + ceil_div (2 * ?d) 65536) = ref_blocks vs" using B(4) by (simp add: ref_blocks_def Let_def)
  ultimately have "maxRefCountClusters (data_clusters vs) (l2_clusters vs) (l1_clusters vs) 65536 = Some (ref_blocks vs)"
    unfolding maxRefCountClusters_def Let_def by simp
  moreover have "divRoundUp 32 (u32 (ref_blocks vs * 8)) 65536 = Some (ref_clusters vs)"
    using B(4) by (subst divRoundUp_ceil) (simp_all add: ref_clusters_def mult.commute)
  ultimately show ?thesis by (simp add: findRefcountTableClustersNumber_def)
qed

lemma table_sizes:
  assumes "vs \<le> 2 ^ 46"
  shows "divRoundUp 64 vs 65536 = Some (data_clusters vs)" "u32 (data_clusters vs) = data_clusters vs"
    "divRoundUp 32 (data_clusters vs) 8192 = Some (l2_clusters vs)" "divRoundUp 32 (l2_clusters vs) 65536 = Some (l1_clusters vs)"
    "u32 (l1_clusters vs + 1) = l1_clusters vs + 1"
proof -
  note B = sizes_bounded [OF assms]
  show "divRoundUp 64 vs 65536 = Some (data_clusters vs)" using assms by (simp add: divRoundUp_ceil data_clusters_def)
  show "u32 (data_clusters vs) = data_clusters vs" using B(1) by simp
  show "divRoundUp 32 (data_clusters vs) 8192 = Some (l2_clusters vs)" using B(1) by (simp add: divRoundUp_ceil l2_clusters_def)
  show "divRoundUp 32 (l2_clusters vs) 65536 = Some (l1_clusters vs)" using B(2) by (simp add: divRoundUp_ceil l1_clusters_def)
  show "u32 (l1_clusters vs + 1) = l1_clusters vs + 1" using B(3) by simp
qed

lemma preCompute_64K:
  assumes "h_virtualDiskSizeBytes h = vs" "vs \<le> 2 ^ 46" "h_clusterSize h = 65536"
  shows "preComputeTableSizes h = Some (h\<lparr>h_numClusters := data_clusters vs, h_l2Size := 8192, h_numL2Clusters := l2_clusters vs,
     h_l1Clusters := l1_clusters vs, h_refCountClustersNumberComputed := ref_clusters vs\<rparr>)"
proof -
  have "u32 (65536 div 8) = 8192" "u32 65536 = 65536" by (simp_all add: u32_def)
  then show ?thesis
    unfolding preComputeTableSizes_def Let_def assms(1,3)
    by (simp only: table_sizes [OF assms(2)] refcount_sizes [OF assms(2)] Option.bind.simps)
qed

definition path_length :: "byte list option \<Rightarrow> nat" where
  "path_length path = (case path of None \<Rightarrow> 0 | Some p \<Rightarrow> length p)"

definition created :: "nat \<Rightarrow> byte list option \<Rightarrow> ImageHeader" where
  "created vs path = zero_header
     \<lparr>h_magic := QcowMagic, h_versionNumber := 3, h_backingFileOffset := (if path = None then 0 else 112),
      h_backingFileSize := path_length path, h_clusterBits := 16, h_virtualDiskSizeBytes := vs, h_l1Size := l2_clusters vs,
      h_l1TableOffset := 65536, h_refCountTableOffset := 65536 * (l1_clusters vs + 1), h_refCountTableClusters := ref_clusters vs,
      h_refCountOrder := 4, h_Length := 104, h_backingFilePath := path, h_clusterSize := 65536, h_numClusters := data_clusters vs,
      h_l2Size := 8192, h_numL2Clusters := l2_clusters vs, h_l1Clusters := l1_clusters vs,
      h_refCountClustersNumberComputed := ref_clusters vs\<rparr>"

lemma create_ok:
  assumes "vs \<le> 2 ^ 46" "path_length path \<le> 65424"
  shows "createHeaderForSizeAndPath vs path = Some (Inr (created vs path))"
proof -
  note B = sizes_bounded [OF assms(1)]
  have k: "u32 (65536 div 8) = 8192" "u32 65536 = 65536" "getClusterSize DefaultClusterBits = 65536"
    by (simp_all add: u32_def getClusterSize_def DefaultClusterBits_def)
  have len: "(case path of None \<Rightarrow> 0 | Some p \<Rightarrow> u32 (length p)) = path_length path"
    using assms(2) by (auto simp: path_length_def split: option.splits)
  have off: "(case path of None \<Rightarrow> 0 | Some p \<Rightarrow> V3BareHeaderSize + EmptyHeaderExtensionAreaSize) = (if path = None then 0 else 112)"
    by (simp add: V3BareHeaderSize_def EmptyHeaderExtensionAreaSize_def split: option.split)
  have o: "u64 (65536 * (l1_clusters vs + 1)) = 65536 * (l1_clusters vs + 1)" using B(3) by simp
  have lim: "diskSizeLimitForCluster h = 2 ^ 51" if "h_clusterSize h = 65536" for h :: ImageHeader
    by (simp add: diskSizeLimitForCluster_def that L1TableMaxSize_def)
  have m: "\<not> path_length path > 65536 - V3BareHeaderSize - EmptyHeaderExtensionAreaSize"
    using assms(2) by (simp add: V3BareHeaderSize_def EmptyHeaderExtensionAreaSize_def)
  show ?thesis
    unfolding createHeaderForSizeAndPath_def Let_def k len off
    using assms(1) m
    by (simp add: table_sizes [OF assms(1), simplified] refcount_sizes [OF assms(1)] lim preCompute_64K [OF refl] o [simplified])
      (simp add: created_def zero_header_def V3BareHeaderSize_def DefaultClusterBits_def)
qed

lemma created_valid:
  assumes "vs \<le> 2 ^ 46" "65536 \<le> vs" "path_length path \<le> 1023" "path \<noteq> Some []"
  shows "validate (created vs path) = None"
proof -
  note B = sizes_bounded [OF assms(1)]
  have b: "offsetIsClusterBoundary (65536 * k) 65536 = None" for k by (subst boundary_dvd [of _ 16]) simp_all
  have l: "diskSizeLimitForCluster (created vs path) = 2 ^ 51"
    by (simp add: diskSizeLimitForCluster_def created_def L1TableMaxSize_def)
  have bf: "validateBackingFileSizeOffset (created vs path) = None"
    using assms(3,4) by (cases path) (simp_all add: validateBackingFileSizeOffset_def created_def zero_header_def path_length_def maxBackingFileNameSize_def)
  have off: "checkOffsetsForClusterBoundaries (created vs path) = None"
    using b [of 0] b [of 1] b [of "l1_clusters vs + 1"] by (simp add: checkOffsetsForClusterBoundaries_def created_def zero_header_def)
  have vd: "validateVirtualDiskSize (created vs path) = None"
    using assms(1) l by (simp add: validateVirtualDiskSize_def) (simp add: created_def)
  have rs: "refcountTableSizeSanityCheck (created vs path) = None"
    using B by (simp add: refcountTableSizeSanityCheck_def created_def L1TableMaxSize_def Let_def)
  show ?thesis
    unfolding validate_None using bf off vd rs B assms(2)
    by (simp add: validateMagic_def validateVersionNumber_def validateClusterBits_def validateCryptMethod_def validateL1TableSize_def
        validateL1TableOffset_def validateRefCountTableClusters_def validateNbSnapshots_def validateIncompatibleFeatures_def
        validateAutoClearFeatures_def validateRefCountOrder_def validateHeaderLength_def validateNumberOfL2Clusters_def
        created_def zero_header_def L1TableMaxSize_def V3BareHeaderSize_def Let_def)
qed

lemma field_step: "v < 256 ^ n \<Longrightarrow> fields (n # ns) (put_be n v @ bs) = v # fields ns bs"
  by (simp add: be_put_be)

definition created_fields :: "nat \<Rightarrow> byte list option \<Rightarrow> nat list" where
  "created_fields vs path = [QcowMagic, 3, if path = None then 0 else 112, path_length path, 16, vs, 0, l2_clusters vs, 65536,
     65536 * (l1_clusters vs + 1), ref_clusters vs, 0, 0, 0, 0, 0, 4, 104]"

lemma fields_created:
  assumes "vs \<le> 2 ^ 46" "path_length path \<le> 65424"
  shows "fields header_fields (toByte (created vs path) @ bs) = created_fields vs path"
proof -
  note B = sizes_bounded [OF assms(1)]
  show ?thesis
    unfolding header_fields_def toByte_def created_def append_assoc
    using B assms by (simp add: field_step zero_header_def QcowMagic_def created_fields_def del: fields.simps(2) put_be.simps)
qed

lemma file_put_end: "file_put \<lparr>fdata = d, fpos = length d\<rparr> bs = \<lparr>fdata = d @ bs, fpos = length d + length bs\<rparr>"
  by (simp add: file_put_def)

lemma file_put_behind: "length d \<le> p \<Longrightarrow>
    file_put \<lparr>fdata = d, fpos = p\<rparr> bs = \<lparr>fdata = d @ replicate (p - length d) 0 @ bs, fpos = p + length bs\<rparr>"
  by (simp add: file_put_def)

lemma header_write_ok: "writes_ok os \<Longrightarrow> header_write os bs (f, None) = (file_put f bs, None)"
  by (simp add: header_write_def file_Write_def writes_ok_def)

lemma written_header:
  assumes "writes_ok os" "vs \<le> 2 ^ 46" "path_length path \<le> 65424"
  shows "\<exists>rest p. writeToFile os \<lparr>fdata = [], fpos = 0\<rparr> (created vs path) =
     (\<lparr>fdata = toByte (created vs path) @ replicate 8 0 @ (case path of None \<Rightarrow> [] | Some b \<Rightarrow> b) @ rest, fpos = p\<rparr>, None)"
proof -
  note B = sizes_bounded [OF assms(2)]
  let ?h = "created vs path" and ?b = "case path of None \<Rightarrow> [] | Some b \<Rightarrow> b"
  define D where "D = toByte ?h @ replicate 8 0 @ ?b"
  define T where "T = 65536 * ref_clusters vs + 65536 * (l1_clusters vs + 1)"
  have len: "length D = 112 + path_length path"
    by (simp add: D_def toByte_def path_length_def created_def split: option.split)
  have s3: "(case path of None \<Rightarrow> header_write os (replicate 8 0) (header_write os (toByte ?h) (\<lparr>fdata = [], fpos = 0\<rparr>, None))
      | Some p \<Rightarrow> header_write os p (header_write os (replicate 8 0) (header_write os (toByte ?h) (\<lparr>fdata = [], fpos = 0\<rparr>, None))))
      = (\<lparr>fdata = D, fpos = length D\<rparr>, None)"
    using file_put_end [of "[]" "toByte ?h"] file_put_end [of "toByte ?h" "replicate 8 0"] file_put_end [of "toByte ?h @ replicate 8 0" ?b]
    by (cases path) (simp_all add: header_write_ok [OF assms(1)] D_def)
  have sel: "h_backingFilePath ?h = path" "h_refCountTableClusters ?h = ref_clusters vs" "h_clusterSize ?h = 65536"
    "h_refCountTableOffset ?h = 65536 * (l1_clusters vs + 1)" "\<lparr>fdata = [], fpos = 0\<rparr>\<lparr>fpos := 0\<rparr> = \<lparr>fdata = [], fpos = 0\<rparr>"
    by (simp_all add: created_def)
  have T: "131072 \<le> T" "T \<le> 65536 * 8" using B by (simp_all add: T_def)
  have "u64 (u64 (ref_clusters vs * 65536) + 65536 * (l1_clusters vs + 1)) = T" using B by (simp add: T_def mult.commute)
  then have sk: "sub64 (u64 (u64 (ref_clusters vs * 65536) + 65536 * (l1_clusters vs + 1))) 2 = T - 2" using T by simp
  have "header_seek (T - 2) (\<lparr>fdata = D, fpos = length D\<rparr>, None) = (\<lparr>fdata = D, fpos = T - 2\<rparr>, None)"
    using T by (simp add: header_seek_def file_Seek_def)
  moreover have "length D \<le> T - 2" using len assms(3) T(1) by simp
  ultimately have "writeToFile os \<lparr>fdata = [], fpos = 0\<rparr> ?h
      = (\<lparr>fdata = D @ replicate (T - 2 - length D) 0 @ [0], fpos = T - 2 + 1\<rparr>, None)"
    unfolding writeToFile_def Let_def sel s3 sk by (simp add: header_write_ok [OF assms(1)] file_put_behind)
  then show ?thesis unfolding D_def by auto
qed

text \<open>
  What is found when the file of a created header is opened.  A path of length zero is written with an offset and not read back;
  it and a path that is too long are refused, and so is a disk that is smaller than the offset of its first-level table.
\<close>

definition reopens :: "nat \<Rightarrow> byte list option \<Rightarrow> bool" where
  "reopens vs path \<longleftrightarrow> 65536 \<le> vs \<and> path \<noteq> Some [] \<and> path_length path \<le> 1023"

lemma created_refused:
  assumes "\<not> reopens vs path"
  shows "validate ((created vs path)\<lparr>h_backingFilePath := p\<rparr>) \<noteq> None"
proof -
  let ?h = "(created vs path)\<lparr>h_backingFilePath := p\<rparr>"
  consider "vs < 65536" | "path = Some []" | "1023 < path_length path" using assms by (auto simp: reopens_def)
  then have "validateL1TableOffset ?h \<noteq> None \<or> validateBackingFileSizeOffset ?h \<noteq> None"
  proof cases
    case 1
    then show ?thesis by (simp add: validateL1TableOffset_def created_def zero_header_def)
  next
    case 2
    then show ?thesis by (simp add: validateBackingFileSizeOffset_def created_def zero_header_def path_length_def)
  next
    case 3
    then show ?thesis by (auto simp: validateBackingFileSizeOffset_def created_def zero_header_def maxBackingFileNameSize_def)
  qed
  then show ?thesis unfolding validate_None by blast
qed

lemma reopen_file:
  assumes "writes_ok os" "reads_ok os" "vs \<le> 2 ^ 46" "path_length path \<le> 65424"
  shows "\<exists>f q. writeToFile os \<lparr>fdata = [], fpos = 0\<rparr> (created vs path) = (f, None)
     \<and> imageHeaderFromFile os f = Some (f\<lparr>fpos := q\<rparr>,
         case validate ((created vs path)\<lparr>h_backingFilePath := (if path = Some [] then None else path)\<rparr>) of
           Some er \<Rightarrow> Inl er | None \<Rightarrow> Inr ((created vs path)\<lparr>h_backingFilePath := (if path = Some [] then None else path)\<rparr>))"
proof -
  let ?h = "created vs path" and ?b = "case path of None \<Rightarrow> [] | Some b \<Rightarrow> b" and ?p = "if path = Some [] then None else path"
  obtain rest p where w: "writeToFile os \<lparr>fdata = [], fpos = 0\<rparr> ?h = (\<lparr>fdata = toByte ?h @ replicate 8 0 @ ?b @ rest, fpos = p\<rparr>, None)"
    using written_header [OF assms(1,3,4)] by blast
  define f where "f = \<lparr>fdata = toByte ?h @ replicate 8 0 @ ?b @ rest, fpos = p\<rparr>"
  have v: "fields header_fields (fdata f) = created_fields vs path" unfolding f_def using fields_created [OF assms(3,4)] by simp
  have len: "length (toByte ?h) = 104" by (simp add: toByte_def created_def)
  have bytes: "take (path_length path) (drop 112 (fdata f)) = ?b"
    using len by (auto simp: f_def path_length_def split: option.split)
  have h: "header_of (created_fields vs path) 0 x = ?h\<lparr>h_backingFilePath := x, h_numClusters := 0, h_l2Size := 0, h_numL2Clusters := 0,
      h_l1Clusters := 0, h_refCountClustersNumberComputed := 0\<rparr>" for x
    by (simp add: header_of_def created_fields_def created_def zero_header_def getClusterSize_def)
  have pre: "preComputeTableSizes (header_of (created_fields vs path) 0 x) = Some (?h\<lparr>h_backingFilePath := x\<rparr>)" for x
    unfolding h by (subst preCompute_64K [OF refl]) (use assms(3) in \<open>simp_all add: created_def\<close>)
  have pth: "(if created_fields vs path ! 2 = 0 \<or> created_fields vs path ! 3 = 0 then None
      else Some (take (created_fields vs path ! 3) (drop (created_fields vs path ! 2) (fdata f)))) = ?p"
    using bytes by (auto simp: created_fields_def path_length_def split: option.splits)
  have long: "104 \<le> length (fdata f)" using len by (simp add: f_def)
  have hl: "fields header_fields (fdata f) ! 17 \<le> 104" unfolding v by (simp add: created_fields_def)
  have rd: "fields header_fields (fdata f) ! 2 = 0 \<or> fields header_fields (fdata f) ! 3 = 0
      \<or> fields header_fields (fdata f) ! 2 + fields header_fields (fdata f) ! 3 \<le> length (fdata f) \<and> fields header_fields (fdata f) ! 2 < 2 ^ 63"
    unfolding v using len by (auto simp: created_fields_def f_def path_length_def split: option.splits)
  obtain q where "imageHeaderFromFile os f = (case preComputeTableSizes (header_of (created_fields vs path) 0 ?p) of
         None \<Rightarrow> None | Some h \<Rightarrow> Some (f\<lparr>fpos := q\<rparr>, case validate h of Some er \<Rightarrow> Inl er | None \<Rightarrow> Inr h))"
    using decode [OF assms(2) long hl rd] unfolding v pth by blast
  then show ?thesis using w by (intro exI [of _ f] exI [of _ q]) (simp only: pre f_def option.case simp_thms)
qed

lemma reopen_created:
  assumes "writes_ok os" "reads_ok os" "vs \<le> 2 ^ 46" "reopens vs path"
  shows "\<exists>h f p. createHeaderForSizeAndPath vs path = Some (Inr h) \<and> writeToFile os \<lparr>fdata = [], fpos = 0\<rparr> h = (f, None)
     \<and> imageHeaderFromFile os f = Some (f\<lparr>fpos := p\<rparr>, Inr h)"
proof -
  have p: "65536 \<le> vs" "path \<noteq> Some []" "path_length path \<le> 1023" using assms(4) by (simp_all add: reopens_def)
  have "(created vs path)\<lparr>h_backingFilePath := (if path = Some [] then None else path)\<rparr> = created vs path"
    using p(2) by (simp add: created_def)
  then show ?thesis
    using reopen_file [OF assms(1-3), of path] create_ok [OF assms(3), of path] created_valid [OF assms(3) p(1,3,2)] p(3) by auto
qed

section \<open>Any size\<close>

text \<open>The layout of a created header, whatever wraps.\<close>

lemma create_any:
  assumes "vs \<le> 2 ^ 51" "path_length path \<le> 65424"
  defines "k \<equiv> (ceil_div vs 65536 mod 2 ^ 32 + 8191) mod 2 ^ 32 div 8192"
  shows "\<exists>h. createHeaderForSizeAndPath vs path = Some (Inr h) \<and> h_numL2Clusters h = k \<and> h_l1TableOffset h = 65536
     \<and> h_refCountTableOffset h = 65536 * (ceil_div k 65536 + 1)"
proof -
  have k: "k \<le> 524288" unfolding k_def by (simp add: less_Suc_eq_le [symmetric] div_less_iff_less_mult)
  have c: "u32 (65536 div 8) = 8192" "u32 65536 = 65536" "getClusterSize DefaultClusterBits = 65536"
    by (simp_all add: u32_def getClusterSize_def DefaultClusterBits_def)
  have n: "divRoundUp 64 vs 65536 = Some (ceil_div vs 65536)" using assms(1) by (simp add: divRoundUp_ceil)
  have less1: "x + 8192 - 1 = x + (8191::nat)" for x by simp
  have l2: "divRoundUp 32 (u32 (ceil_div vs 65536)) 8192 = Some k" by (simp only: divRoundUp_def k_def u32_def less1) simp
  have l1: "divRoundUp 32 k 65536 = Some (ceil_div k 65536)" using k by (simp add: divRoundUp_ceil)
  obtain rc where rc: "findRefcountTableClustersNumber (u32 (ceil_div vs 65536)) k (ceil_div k 65536) 65536 = Some rc"
    using findRefcount_None [of "u32 (ceil_div vs 65536)" k "ceil_div k 65536" 65536] by fastforce
  have "ceil_div k 65536 \<le> 8" using k by (simp add: ceil_div_bounds)
  then have o: "u64 (65536 * u32 (ceil_div k 65536 + 1)) = 65536 * (ceil_div k 65536 + 1)" by simp
  have len: "(case path of None \<Rightarrow> 0 | Some p \<Rightarrow> u32 (length p)) = path_length path"
    using assms(2) by (auto simp: path_length_def split: option.splits)
  have lim: "diskSizeLimitForCluster h = 2 ^ 51" if "h_clusterSize h = 65536" for h :: ImageHeader
    by (simp add: diskSizeLimitForCluster_def that L1TableMaxSize_def)
  have m: "\<not> path_length path > 65536 - V3BareHeaderSize - EmptyHeaderExtensionAreaSize"
    using assms(2) by (simp add: V3BareHeaderSize_def EmptyHeaderExtensionAreaSize_def)
  have pre: "preComputeTableSizes h = Some (h\<lparr>h_numClusters := u32 (ceil_div vs 65536), h_l2Size := 8192, h_numL2Clusters := k,
      h_l1Clusters := ceil_div k 65536, h_refCountClustersNumberComputed := rc\<rparr>)"
    if "h_virtualDiskSizeBytes h = vs" "h_clusterSize h = 65536" for h :: ImageHeader
    unfolding preComputeTableSizes_def Let_def that by (simp only: c n l2 l1 rc Option.bind.simps)
  show ?thesis
    unfolding createHeaderForSizeAndPath_def Let_def c len
    using assms(1) m o by (simp add: n l2 l1 rc lim pre)
qed

section \<open>Properties\<close>

text \<open>
  C22. A header that \<open>createHeaderForSizeAndPath\<close> builds for at most 64 TiB is written without an error.  When the file is
  opened it is found again field by field, with the same backing path, exactly when the disk has at least one cluster and the path is
  absent or has between 1 and 1023 bytes; the other headers that the creation accepts, with a path that is empty or has 1024 to 65424
  bytes or for a smaller disk, are refused when the file is opened.
\<close>

theorem header_reopens:
  assumes "writes_ok os" "reads_ok os" "vs \<le> 2 ^ 46" "path_length path \<le> 65424"
  shows "\<exists>h f p r. createHeaderForSizeAndPath vs path = Some (Inr h) \<and> writeToFile os \<lparr>fdata = [], fpos = 0\<rparr> h = (f, None)
     \<and> imageHeaderFromFile os f = Some (f\<lparr>fpos := p\<rparr>, r) \<and> (if reopens vs path then r = Inr h else \<exists>er. r = Inl er)"
proof (cases "reopens vs path")
  case True
  then show ?thesis using reopen_created [OF assms(1-3)] by auto
next
  case False
  then show ?thesis
    using reopen_file [OF assms] create_ok [OF assms(3,4)] created_refused [OF False, of "if path = Some [] then None else path"] by auto
qed

theorem header_reopens_witness:
  "\<exists>h f p. createHeaderForSizeAndPath 131072 (Some [47, 98]) = Some (Inr h) \<and> writeToFile healthy_os \<lparr>fdata = [], fpos = 0\<rparr> h = (f, None)
     \<and> imageHeaderFromFile healthy_os f = Some (f\<lparr>fpos := p\<rparr>, Inr h)"
  using header_reopens [OF healthy_os_ok(2,1), of 131072 "Some [47, 98]"] by (auto simp: path_length_def reopens_def)

text \<open>
  C23. What a header guarantees once \<open>imageHeaderFromFile\<close> has accepted it: the cluster size is the power of two of its field,
  between 512 and 2 to the 30, a second-level table fills one cluster, and the tables begin at a cluster.  The number of clusters is
  kept in \<open>uint32\<close> and not checked: the first level has a slot for every address of a disk exactly when the clusters of the disk
  and the slots of one table are together at most \<open>2 ^ 32\<close>; with more, as for a disk of 256 TiB with clusters of 64 KiB, some addresses
  have none.  The product in the size limit wraps, so with clusters of 1 MiB and more only an empty disk is accepted.  The flag for
  lazy reference counts is never taken from the file.
\<close>

theorem header_wf:
  assumes "imageHeaderFromFile os f = Some (f', Inr h)"
  shows "9 \<le> h_clusterBits h \<and> h_clusterBits h \<le> 30 \<and> h_clusterSize h = 2 ^ h_clusterBits h \<and> 8 * h_l2Size h = h_clusterSize h
     \<and> h_clusterSize h dvd h_l1TableOffset h \<and> h_clusterSize h dvd h_refCountTableOffset h \<and> h_versionNumber h = 3
     \<and> (20 \<le> h_clusterBits h \<longrightarrow> h_virtualDiskSizeBytes h = 0) \<and> \<not> h_lazyRefcounts h
     \<and> (0 < h_virtualDiskSizeBytes h \<longrightarrow>
          ((\<forall>va < h_virtualDiskSizeBytes h. va div h_clusterSize h div h_l2Size h < h_numL2Clusters h)
             \<longleftrightarrow> ceil_div (h_virtualDiskSizeBytes h) (h_clusterSize h) + h_l2Size h \<le> 2 ^ 32))"
proof -
  obtain v ct path where p: "preComputeTableSizes (header_of v ct path) = Some h" "validate h = None"
    using assms by (auto simp: imageHeaderFromFile_def split: prod.splits sum.splits option.splits)
  let ?b = "h_clusterBits h" and ?cs = "h_clusterSize h" and ?vs = "h_virtualDiskSizeBytes h"
  note V = p(2) [unfolded validate_None]
  have bits: "9 \<le> ?b" "?b \<le> 30" using V by (auto simp: validateClusterBits_def split: if_splits)
  note S = preCompute_sizes [OF p(1)]
  have cs: "?cs = 2 ^ ?b" using S(2,3) bits by (simp add: header_of_def getClusterSize_def)
  have lt: "(2::nat) ^ ?b < 2 ^ 31" using bits by (intro power_strict_increasing) simp_all
  have three: "(2::nat) ^ ?b = 8 * 2 ^ (?b - 3)" using power_add [of "2::nat" 3 "?b - 3"] bits by simp
  have l2s: "h_l2Size h = 2 ^ (?b - 3)" using S(1,2) lt three by (simp add: cs)
  have al: "?cs dvd h_l1TableOffset h" "?cs dvd h_refCountTableOffset h"
    using V bits by (simp_all add: checkOffsetsForClusterBoundaries_def boundary_dvd [OF cs])
  have big: "?vs = 0" if "20 \<le> ?b" using valid_limit [OF p(2) cs that] .
  have slots: "(\<forall>va < ?vs. va div ?cs div h_l2Size h < h_numL2Clusters h) \<longleftrightarrow> ceil_div ?vs ?cs + h_l2Size h \<le> 2 ^ 32" if pos: "0 < ?vs"
  proof -
    have b19: "?b < 20" using big pos not_less by blast
    have "(2::nat) ^ ?b \<le> 2 ^ 19" using b19 by (intro power_increasing) simp_all
    then have cs19: "?cs \<le> 2 ^ 19" "0 < ?cs" by (simp_all add: cs)
    have "?vs \<le> 2 ^ 63" using limit_bounded [OF p(2)] by simp
    then have n: "divRoundUp 64 ?vs ?cs = Some (ceil_div ?vs ?cs)" using cs19 by (intro divRoundUp_ceil) simp_all
    have l2: "0 < h_l2Size h" "h_l2Size h < 2 ^ 31" using l2s lt three by simp_all
    have num: "divRoundUp 32 (u32 (ceil_div ?vs ?cs)) (h_l2Size h) = Some (h_numL2Clusters h)" using S(1,2,4,6) n l2s three by simp
    show ?thesis by (rule slots_iff [OF num pos cs19(2) l2])
  qed
  show ?thesis
    using slots bits cs l2s three al big S(5) V by (simp add: validateVersionNumber_def header_of_def zero_header_def split: if_splits)
qed

theorem header_wf_witness:
  "\<exists>h. createHeaderForSizeAndPath 131072 None = Some (Inr h) \<and> h_clusterSize h = 2 ^ h_clusterBits h \<and> 131071 div h_clusterSize h div h_l2Size h < h_numL2Clusters h"
proof -
  obtain h f p where r: "createHeaderForSizeAndPath 131072 None = Some (Inr h)" "imageHeaderFromFile healthy_os f = Some (f\<lparr>fpos := p\<rparr>, Inr h)"
    using reopen_created [OF healthy_os_ok(2,1), of 131072 None] by (auto simp: path_length_def reopens_def)
  have "h = created 131072 None" using r(1) create_ok [of 131072 None] by (simp add: path_length_def)
  then have "h_virtualDiskSizeBytes h = 131072" "h_clusterSize h = 65536" "h_l2Size h = 8192" by (simp_all add: created_def)
  moreover from this have "ceil_div (h_virtualDiskSizeBytes h) (h_clusterSize h) + h_l2Size h \<le> 2 ^ 32" by (simp add: ceil_div_def)
  moreover from calculation(1) have "0 < h_virtualDiskSizeBytes h" "131071 < h_virtualDiskSizeBytes h" by simp_all
  ultimately show ?thesis using header_wf [OF r(2)] r(1) by blast
qed

text \<open>
  C38. The tables of a created image, for every size that the creation accepts.  The number of entries of the first level is taken for
  a number of bytes when the place of the reference count table is chosen, so the first level ends before that table begins only
  while the disk has at most \<open>2 ^ 26\<close> clusters, that is 4 TiB; above, the table of reference counts lies inside the first level.
  The number of clusters is counted modulo \<open>2 ^ 32\<close>, so from 256 TiB on the same happens again; and when the rounding wraps
  as well, just below a multiple of 256 TiB, the first level has no entry at all and ends in time.
\<close>

theorem created_tables:
  assumes "vs \<le> 2 ^ 51" "path_length path \<le> 65424"
  shows "\<exists>h. createHeaderForSizeAndPath vs path = Some (Inr h)
     \<and> h_numL2Clusters h = (ceil_div vs 65536 mod 2 ^ 32 + 8191) mod 2 ^ 32 div 8192
     \<and> (h_l1TableOffset h + 8 * h_numL2Clusters h \<le> h_refCountTableOffset h
         \<longleftrightarrow> ceil_div vs 65536 mod 2 ^ 32 \<le> 2 ^ 26 \<or> 2 ^ 32 - 8192 < ceil_div vs 65536 mod 2 ^ 32)"
proof -
  define n where "n = ceil_div vs 65536 mod 2 ^ 32"
  define k where "k = (n + 8191) mod 2 ^ 32 div 8192"
  have n: "n < 2 ^ 32" by (simp add: n_def)
  obtain h where h: "createHeaderForSizeAndPath vs path = Some (Inr h)" "h_numL2Clusters h = k" "h_l1TableOffset h = 65536"
    "h_refCountTableOffset h = 65536 * (ceil_div k 65536 + 1)"
    using create_any [OF assms] unfolding n_def k_def by blast
  have "8 * k \<le> 65536 * ceil_div k 65536 \<longleftrightarrow> k \<le> 8192"
  proof
    assume "8 * k \<le> 65536 * ceil_div k 65536"
    moreover have "65536 * ceil_div k 65536 \<le> k + 65535" by (simp add: ceil_div_def)
    ultimately have "k \<le> 65536" by simp
    then have "ceil_div k 65536 \<le> 1" by (simp add: ceil_div_bounds)
    then show "k \<le> 8192" using \<open>8 * k \<le> 65536 * ceil_div k 65536\<close> by simp
  next
    assume k: "k \<le> 8192"
    show "8 * k \<le> 65536 * ceil_div k 65536"
    proof (cases "k = 0")
      case False
      then have "0 < ceil_div k 65536" using ceil_div_bounds(3) [of 65536 k] by simp
      then show ?thesis using k by simp
    qed simp
  qed
  moreover have "k \<le> 8192 \<longleftrightarrow> n \<le> 2 ^ 26 \<or> 2 ^ 32 - 8192 < n"
  proof (cases "n + 8191 < 2 ^ 32")
    case True
    then have "k = ceil_div n 8192" by (simp add: k_def ceil_div_def)
    then show ?thesis using True by (simp add: ceil_div_bounds)
  next
    case False
    then have "k = 0" using n by (simp add: k_def le_mod_geq)
    then show ?thesis using False by simp
  qed
  ultimately show ?thesis using h by (simp add: k_def n_def)
qed

theorem created_tables_witness:
  "\<exists>h h'. createHeaderForSizeAndPath (2 ^ 43) None = Some (Inr h) \<and> h_refCountTableOffset h < h_l1TableOffset h + 8 * h_numL2Clusters h
     \<and> createHeaderForSizeAndPath (2 ^ 48) None = Some (Inr h') \<and> h_numL2Clusters h' = 0"
proof -
  have "path_length None \<le> 65424" by (simp add: path_length_def)
  from created_tables [OF _ this, of "2 ^ 43"] created_tables [OF _ this, of "2 ^ 48"] show ?thesis by (auto simp: ceil_div_def)
qed

definition field_at :: "OsFile \<Rightarrow> nat \<Rightarrow> nat \<Rightarrow> nat" where
  "field_at f p n = be (take n (drop p (fdata f)))"

text \<open>
  C39. The sizes of the tables are computed before the header is validated.  \<open>imageHeaderFromFile\<close> panics, instead of returning an
  error, exactly when its reads succeed and the field of the cluster bits is below 3 or above 31, whatever the magic number.  The
  reads succeed when the file has the 104 bytes of the header, the byte behind them if the header claims to be longer, and
  the backing path where the header places it; a file of zeros panics.
\<close>

theorem header_panics:
  assumes "reads_ok os"
  shows "imageHeaderFromFile os f = None \<longleftrightarrow>
     104 \<le> length (fdata f) \<and> (field_at f 100 4 \<le> 104 \<or> 105 \<le> length (fdata f))
     \<and> (field_at f 8 8 = 0 \<or> field_at f 16 4 = 0 \<or> field_at f 8 8 < 2 ^ 63 \<and> field_at f 8 8 + field_at f 16 4 \<le> length (fdata f))
     \<and> (field_at f 20 4 < 3 \<or> 32 \<le> field_at f 20 4)"
proof (cases "104 \<le> length (fdata f)")
  case False
  then show ?thesis
    using read_fields_short [OF assms(1), of "f\<lparr>fpos := 0\<rparr>" header_fields] by (auto simp: sum_header_fields imageHeaderFromFile_def)
next
  case True
  define v where "v = fields header_fields (fdata f)"
  have v: "v ! 2 = field_at f 8 8" "v ! 3 = field_at f 16 4" "v ! 4 = field_at f 20 4" "v ! 17 = field_at f 100 4"
    by (simp_all add: v_def header_fields_def field_at_def)
  have r: "read_fields os header_fields (f\<lparr>fpos := 0\<rparr>) = (f\<lparr>fpos := 104\<rparr>, Inr v)"
    using read_fields_ok [OF assms(1), of "f\<lparr>fpos := 0\<rparr>" header_fields] True by (simp add: sum_header_fields v_def)
  have "h_clusterSize (header_of v ct path) = getClusterSize (field_at f 20 4)" for ct path by (simp add: header_of_def v)
  note bad = cluster_size_panics [OF this]
  show ?thesis
  proof (cases "field_at f 100 4 \<le> 104 \<or> 105 \<le> length (fdata f)")
    case False
    then show ?thesis using compression_short [OF assms(1), of "field_at f 100 4" "f\<lparr>fpos := 104\<rparr>"] by (auto simp: imageHeaderFromFile_def r v)
  next
    case len: True
    then obtain f2 ct where c: "read_compression os (field_at f 100 4) (f\<lparr>fpos := 104\<rparr>) = (f2, Inr ct)" "fdata f2 = fdata f"
      using compression_full [OF assms(1), of "field_at f 100 4" "f\<lparr>fpos := 104\<rparr>"] by auto
    show ?thesis
    proof (cases "field_at f 8 8 = 0 \<or> field_at f 16 4 = 0 \<or> field_at f 8 8 < 2 ^ 63 \<and> field_at f 8 8 + field_at f 16 4 \<le> length (fdata f)")
      case False
      then show ?thesis using backing_short [OF assms(1), of "field_at f 8 8" "field_at f 16 4" f2] by (auto simp: imageHeaderFromFile_def r v c)
    next
      case known: True
      then obtain f3 path where "read_backing os (field_at f 8 8) (field_at f 16 4) f2 = (f3, Inr path)"
        using backing_full [OF assms(1), of "field_at f 8 8" "field_at f 16 4" f2] c(2) by auto
      then have "imageHeaderFromFile os f = None \<longleftrightarrow> preComputeTableSizes (header_of v ct path) = None"
        by (simp add: imageHeaderFromFile_def r v c split: option.split)
      then show ?thesis using bad True len known by simp
    qed
  qed
qed

theorem header_panics_witness: "imageHeaderFromFile healthy_os \<lparr>fdata = replicate 104 0, fpos = 0\<rparr> = None"
proof -
  have z: "be (replicate m 0) = 0" for m by (induction m) simp_all
  show ?thesis using header_panics [OF healthy_os_ok(1), of "\<lparr>fdata = replicate 104 0, fpos = 0\<rparr>"] z [of 8] z [of 4] by (simp add: field_at_def)
qed

end
