(* ===== verification/ImageAlloc.thy ===== *)
theory ImageAlloc
  imports RefCountSet QcowImage QcowHeaderLaws
begin

text \<open>
  The image takes clusters and sets reference counts.  \<open>core_ok U\<close> holds of an image whose clusters in use are among
  \<open>U\<close>: what follows writes only into blocks of counts and into clusters outside of \<open>U\<close>.
\<close>

unbundle bit_operations_syntax

section \<open>A new cluster and its contents\<close>

lemma bytes_file_put:
  assumes "a + length bs \<le> length (fdata f)"
  shows "take (length bs) (drop a (fdata (file_put (f\<lparr>fpos := a\<rparr>) bs))) = bs"
  using assms by (simp add: file_put_def)

lemma put_cluster_ok:
  assumes g: "geometry h rf" and a: "cluster_ok h rf a" and bs: "length bs = h_clusterSize h"
    and rf': "rf' = rf\<lparr>rf_file := (file_put ((rf_file rf)\<lparr>fpos := a\<rparr>) bs)\<lparr>fpos := p\<rparr>\<rparr>"
  shows "same_but h rf rf' a" "cluster_bytes h rf' a = bs" "length (fdata (rf_file rf')) = length (fdata (rf_file rf))"
proof -
  let ?rf = "rf\<lparr>rf_file := file_put ((rf_file rf)\<lparr>fpos := a\<rparr>) bs\<rparr>"
  note w = write_cluster_frame [OF g a eq_refl [OF bs]]
  have e: "rf' = ?rf\<lparr>rf_file := (rf_file ?rf)\<lparr>fpos := p\<rparr>\<rparr>" by (simp add: rf')
  show "same_but h rf rf' a" unfolding e using w(1) by (simp only: same_but_def fpos_irrelevant) simp
  show "length (fdata (rf_file rf')) = length (fdata (rf_file rf))" using w(2) by (simp add: rf')
  show "cluster_bytes h rf' a = bs"
    using bytes_file_put [of a bs "rf_file rf"] a bs by (simp add: cluster_bytes_def rf' cluster_ok_def)
qed

lemma written:
  assumes "file_Write w f bs = (f', None)"
  shows "f' = file_put f bs"
  using assms by (auto simp: file_Write_def split: option.splits)

lemma zeroCluster_written:
  assumes "zeroCluster os rf a = (rf', None)" "rf_clusterSize rf = h_clusterSize h"
  shows "\<exists>p. rf' = rf\<lparr>rf_file := (file_put ((rf_file rf)\<lparr>fpos := a\<rparr>) (replicate (h_clusterSize h) 0))\<lparr>fpos := p\<rparr>\<rparr>"
proof -
  obtain f' where "file_Write (os_write os) ((rf_file rf)\<lparr>fpos := a\<rparr>) (replicate (h_clusterSize h) 0) = (f', None)" "rf' = rf\<lparr>rf_file := f'\<rparr>"
    using assms by (auto simp: zeroCluster_def file_Seek_def split: if_splits prod.splits)
  then show ?thesis using written by (intro exI [of _ "fpos f'"]) auto
qed

lemma writeCluster_written:
  assumes "writeCluster os rf a d = (rf', None)"
  shows "\<exists>p. rf' = rf\<lparr>rf_file := (file_put ((rf_file rf)\<lparr>fpos := a\<rparr>) d)\<lparr>fpos := p\<rparr>\<rparr>"
proof -
  obtain f' where "file_Write (os_write os) ((rf_file rf)\<lparr>fpos := a\<rparr>) d = (f', None)" "rf' = rf\<lparr>rf_file := f'\<lparr>fpos := fpos (rf_file rf)\<rparr>\<rparr>"
    using assms by (auto simp: writeCluster_def split: if_splits prod.splits)
  then show ?thesis using written by (intro exI [of _ "fpos (rf_file rf)"]) auto
qed

definition init_bytes :: "ImageHeader \<Rightarrow> byte list option \<Rightarrow> byte list" where
  "init_bytes h d = (case d of None \<Rightarrow> replicate (h_clusterSize h) 0 | Some bs \<Rightarrow> bs)"

definition init_ok :: "ImageHeader \<Rightarrow> byte list option \<Rightarrow> bool" where
  "init_ok h d \<longleftrightarrow> length (init_bytes h d) = h_clusterSize h"

lemma allocated_zero:
  assumes "allocateClusterAtFileEnd os rf m = (rf', Inr n)" "length (fdata (rf_file rf)) \<le> n" "length (fdata (rf_file rf')) = n + h_clusterSize h"
  shows "cluster_bytes h rf' n = replicate (h_clusterSize h) 0" "n \<le> m"
proof -
  obtain s where s: "fdata (rf_file rf') = take s (fdata (rf_file rf)) @ replicate (s - length (fdata (rf_file rf))) 0" "n \<le> m"
    using assms(1) by (auto simp: allocateClusterAtFileEnd_def Let_def split: if_splits option.splits)
  show "n \<le> m" by (rule s(2))
  have "drop n (fdata (rf_file rf')) = replicate (h_clusterSize h) 0"
    using assms(2,3) unfolding s(1) by (simp add: drop_append)
  then show "cluster_bytes h rf' n = replicate (h_clusterSize h) 0" by (simp add: cluster_bytes_def)
qed

lemma init_cluster_ok:
  assumes "init_cluster os rf n d = (rf', None)" "geometry h rf" "cluster_ok h rf n" "init_ok h d"
  shows "same_but h rf rf' n" "cluster_bytes h rf' n = init_bytes h d" "length (fdata (rf_file rf')) = length (fdata (rf_file rf))"
proof -
  have cs: "rf_clusterSize rf = h_clusterSize h" using assms(2) by (simp add: geometry_def)
  have "\<exists>p. rf' = rf\<lparr>rf_file := (file_put ((rf_file rf)\<lparr>fpos := n\<rparr>) (init_bytes h d))\<lparr>fpos := p\<rparr>\<rparr>"
    using assms(1) zeroCluster_written [OF _ cs] writeCluster_written by (auto simp: init_cluster_def init_bytes_def split: option.splits)
  then obtain p where e: "rf' = rf\<lparr>rf_file := (file_put ((rf_file rf)\<lparr>fpos := n\<rparr>) (init_bytes h d))\<lparr>fpos := p\<rparr>\<rparr>" ..
  have l: "length (init_bytes h d) = h_clusterSize h" using assms(4) by (simp add: init_ok_def)
  show "same_but h rf rf' n" "cluster_bytes h rf' n = init_bytes h d" "length (fdata (rf_file rf')) = length (fdata (rf_file rf))"
    using put_cluster_ok [OF assms(2,3) l e] by simp_all
qed

lemma pool_take:
  assumes p: "pool_ok h s rf U" and a: "cp_avail s = xs @ [n]"
  shows "cluster_ok h rf n" "n \<notin> U" "n AND L1TableOffsetMask = n" "pool_ok h (s\<lparr>cp_avail := xs\<rparr>) rf (insert n U)"
proof -
  show c: "cluster_ok h rf n" "n \<notin> U" "n AND L1TableOffsetMask = n" using p a by (auto simp: pool_ok_def)
  have "n + h_clusterSize h \<le> length (fdata (rf_file rf))" using c(1) by (simp add: cluster_ok_def)
  then show "pool_ok h (s\<lparr>cp_avail := xs\<rparr>) rf (insert n U)" using p a by (auto simp: pool_ok_def)
qed

lemma pool_ok_length:
  assumes "pool_ok h s rf U" "length (fdata (rf_file rf')) = length (fdata (rf_file rf))" "rf_clusterMask rf' = rf_clusterMask rf"
  shows "pool_ok h s rf' U"
  using assms by (auto simp: pool_ok_def cluster_ok_def)

lemma same_but_trans: "same_but h rf rf1 n \<Longrightarrow> same_but h rf1 rf2 n \<Longrightarrow> same_but h rf rf2 n"
proof -
  assume a: "same_but h rf rf1 n" and b: "same_but h rf1 rf2 n"
  have k: "keeps_outside h {n} rf rf2" using keeps_trans [OF keeps_same_but [OF a, of "{n}"] keeps_same_but [OF b, of "{n}"]] by simp
  show ?thesis using a b k by (simp add: same_but_def keeps_outside_def)
qed

lemma getNewCluster_ok:
  assumes p: "pool_ok h s rf U" and g: "geometry h rf" and i: "init_ok h d" and o: "getNewCluster os d s rf = (s', rf', Inr n)"
  shows "same_but h rf rf' n" "cluster_ok h rf' n" "n \<notin> U" "n AND L1TableOffsetMask = n" "pool_ok h s' rf' (insert n U)"
    "cluster_bytes h rf' n = init_bytes h d" "cp_max s' = cp_max s"
    "length (fdata (rf_file rf')) \<le> max (length (fdata (rf_file rf))) (cp_max s + h_clusterSize h)"
proof -
  have "same_but h rf rf' n \<and> cluster_ok h rf' n \<and> n \<notin> U \<and> n AND L1TableOffsetMask = n \<and> pool_ok h s' rf' (insert n U)
    \<and> cluster_bytes h rf' n = init_bytes h d \<and> cp_max s' = cp_max s
    \<and> length (fdata (rf_file rf')) \<le> max (length (fdata (rf_file rf))) (cp_max s + h_clusterSize h)"
  proof (cases "cp_avail s = []")
    case False
    then obtain xs where xs: "cp_avail s = xs @ [n]" "init_cluster os rf n d = (rf', None)" "s' = s\<lparr>cp_avail := xs\<rparr>"
      using o by (cases "cp_avail s" rule: rev_cases) (auto simp: getNewCluster_def split: prod.splits option.splits)
    note T = pool_take [OF p xs(1)]
    note I = init_cluster_ok [OF xs(2) g T(1) i]
    have "rf_clusterMask rf' = rf_clusterMask rf" using I(1) by (simp add: same_but_def)
    then show ?thesis using T I pool_ok_length [OF T(4) I(3)] same_but_frame(1) [OF I(1) T(1)] xs(3) by simp
  next
    case True
    obtain rfa where al: "allocateClusterAtFileEnd os rf (cp_max s) = (rfa, Inr n)" "s' = s"
      "d = None \<and> rf' = rfa \<or> (\<exists>bs. d = Some bs \<and> writeCluster os rfa n bs = (rf', None))"
      using o True by (auto simp: getNewCluster_def split: prod.splits sum.splits option.splits)
    have fr: "getNewCluster os None s rf = (s, rfa, Inr n)" using al(1) True by (simp add: getNewCluster_def)
    have F: "same_but h rf rfa n" "cluster_ok h rfa n" "n \<notin> U" "n AND L1TableOffsetMask = n" "pool_ok h s rfa (insert n U)"
      using qc.fresh [OF p fr g] by auto
    have A: "length (fdata (rf_file rf)) \<le> n" "length (fdata (rf_file rfa)) = n + h_clusterSize h"
      using allocate_fresh [OF g p al(1)] by auto
    note Z = allocated_zero [OF al(1) A]
    have ga: "geometry h rfa" using F(1) by (simp add: same_but_def)
    from al(3) show ?thesis
    proof
      assume "d = None \<and> rf' = rfa"
      then show ?thesis using F A Z al(2) by (simp add: init_bytes_def)
    next
      assume "\<exists>bs. d = Some bs \<and> writeCluster os rfa n bs = (rf', None)"
      then obtain bs where d: "d = Some bs" "init_cluster os rfa n d = (rf', None)" by (auto simp: init_cluster_def)
      note I = init_cluster_ok [OF d(2) ga F(2) i]
      have "rf_clusterMask rf' = rf_clusterMask rfa" using I(1) by (simp add: same_but_def)
      then show ?thesis
        using F A Z(2) I al(2) pool_ok_length [OF F(5) I(3)] same_but_frame(1) [OF I(1) F(2)] same_but_trans [OF F(1) I(1)] by simp
    qed
  qed
  then show "same_but h rf rf' n" "cluster_ok h rf' n" "n \<notin> U" "n AND L1TableOffsetMask = n" "pool_ok h s' rf' (insert n U)"
    "cluster_bytes h rf' n = init_bytes h d" "cp_max s' = cp_max s"
    "length (fdata (rf_file rf')) \<le> max (length (fdata (rf_file rf))) (cp_max s + h_clusterSize h)" by blast+
qed

lemma init_cluster_writes:
  assumes "writes_ok os" "geometry h rf" "cluster_ok h rf n" "init_ok h d"
  shows "\<exists>rf'. init_cluster os rf n d = (rf', None)"
proof -
  have "n < 2 ^ 63" "rf_clusterSize rf = h_clusterSize h" "\<not> rf_readOnly rf" using assms(2,3) by (simp_all add: geometry_def cluster_ok_def)
  then show ?thesis
    using assms(1,4) by (auto simp: init_cluster_def zeroCluster_def writeCluster_def file_Seek_def file_Write_def writes_ok_def
        init_ok_def init_bytes_def split: option.splits)
qed

text \<open>With writes that succeed only the end of the file can refuse a cluster; nothing but the position changes then.\<close>

lemma getNewCluster_refused:
  assumes os: "writes_ok os" and p: "pool_ok h s rf U" and g: "geometry h rf" and i: "init_ok h d"
    and o: "getNewCluster os d s rf = (s', rf', Inl er)"
  shows "\<exists>q. rf' = rf\<lparr>rf_file := (rf_file rf)\<lparr>fpos := q\<rparr>\<rparr>" "s' = s"
proof -
  have e: "cp_avail s = []"
  proof (rule ccontr)
    assume "cp_avail s \<noteq> []"
    then obtain xs n where xs: "cp_avail s = xs @ [n]" by (metis rev_exhaust)
    then show False using init_cluster_writes [OF os g pool_take(1) [OF p xs] i] o by (auto simp: getNewCluster_def)
  qed
  obtain rfa ra where al: "allocateClusterAtFileEnd os rf (cp_max s) = (rfa, ra)" by fastforce
  have "ra = Inl er \<and> rf' = rfa \<and> s' = s"
  proof (cases ra)
    case (Inr n)
    have F: "same_but h rf rfa n" "cluster_ok h rfa n" using allocate_fresh [OF g p al] Inr by auto
    then have "geometry h rfa" by (simp add: same_but_def)
    from init_cluster_writes [OF os this F(2) i] show ?thesis
      using o e al Inr by (auto simp: getNewCluster_def init_cluster_def split: option.splits prod.splits)
  qed (use o e al in \<open>auto simp: getNewCluster_def\<close>)
  then show "\<exists>q. rf' = rf\<lparr>rf_file := (rf_file rf)\<lparr>fpos := q\<rparr>\<rparr>" "s' = s" using allocate_fresh [OF g p al] by auto
qed

section \<open>The image\<close>

definition core_ok :: "nat set \<Rightarrow> image \<Rightarrow> bool" where
  "core_ok U im \<longleftrightarrow> geometry (i_header im) (i_rf im) \<and> rc_ok (i_header im) (i_rf im) (i_rc im) \<and> rc_used (i_rc im) \<subseteq> U
     \<and> pool_ok (i_header im) (pool_of im) (i_rf im) U
     \<and> length (fdata (rf_file (i_rf im))) \<le> rc_maxValidClusterOffset (i_rc im) + h_clusterSize (i_header im)"

lemma core_okD:
  assumes "core_ok U im"
  shows "geometry (i_header im) (i_rf im)" "rc_ok (i_header im) (i_rf im) (i_rc im)" "rc_used (i_rc im) \<subseteq> U"
    "pool_ok (i_header im) (pool_of im) (i_rf im) U"
    "length (fdata (rf_file (i_rf im))) \<le> rc_maxValidClusterOffset (i_rc im) + h_clusterSize (i_header im)"
  using assms by (simp_all add: core_ok_def)

text \<open>Steps that leave the pointer tables alone.\<close>

definition img_step :: "nat set \<Rightarrow> image \<Rightarrow> nat set \<Rightarrow> image \<Rightarrow> bool" where
  "img_step U im U' im' \<longleftrightarrow> core_ok U' im' \<and> U \<subseteq> U' \<and> i_header im' = i_header im \<and> i_readOnly im' = i_readOnly im \<and> i_pt im' = i_pt im
     \<and> disk_l1 (i_header im) (i_rf im') = disk_l1 (i_header im) (i_rf im)
     \<and> keeps_outside (i_header im) (rc_used (i_rc im) \<union> - U) (i_rf im) (i_rf im')
     \<and> rc_used (i_rc im') \<subseteq> rc_used (i_rc im) \<union> - U
     \<and> length (vc_data (rc_table (i_rc im'))) = length (vc_data (rc_table (i_rc im)))
     \<and> rc_perBlock (i_rc im') = rc_perBlock (i_rc im) \<and> (\<forall>k. settled (i_rc im) k \<longrightarrow> settled (i_rc im') k)"

lemma img_step_refl: "core_ok U im \<Longrightarrow> img_step U im U im"
  by (simp add: img_step_def)

lemma img_step_trans:
  assumes "img_step U im U1 im1" "img_step U1 im1 U2 im2"
  shows "img_step U im U2 im2"
proof -
  note A = assms(1) [unfolded img_step_def] and B = assms(2) [unfolded img_step_def]
  have h: "i_header im1 = i_header im" using A by simp
  have "keeps_outside (i_header im) (rc_used (i_rc im1) \<union> - U1) (i_rf im1) (i_rf im2)" using B h by simp
  moreover have "rc_used (i_rc im1) \<union> - U1 \<subseteq> rc_used (i_rc im) \<union> - U" using A by auto
  ultimately have "keeps_outside (i_header im) (rc_used (i_rc im) \<union> - U) (i_rf im) (i_rf im2)"
    using A keeps_trans by blast
  moreover have "rc_used (i_rc im2) \<subseteq> rc_used (i_rc im) \<union> - U" using A B by auto
  ultimately show ?thesis using A B h unfolding img_step_def by auto
qed

lemma core_fpos: "core_ok U im \<Longrightarrow> core_ok U (im\<lparr>i_rf := (i_rf im)\<lparr>rf_file := (rf_file (i_rf im))\<lparr>fpos := q\<rparr>\<rparr>\<rparr>)"
  by (auto simp: core_ok_def rc_ok_def pool_ok_def block_ok_def pool_of_def)

lemma image_getNewCluster_ok:
  assumes c: "core_ok U im" and i: "init_ok (i_header im) d" and os: "writes_ok os" and o: "image_getNewCluster os d im = (im', r)"
  shows "case r of
      Inl er \<Rightarrow> img_step U im U im' \<and> i_rc im' = i_rc im
    | Inr n \<Rightarrow> img_step U im (insert n U) im' \<and> i_rc im' = i_rc im \<and> n \<notin> U \<and> cluster_ok (i_header im) (i_rf im') n
        \<and> n AND L1TableOffsetMask = n \<and> cluster_bytes (i_header im) (i_rf im') n = init_bytes (i_header im) d"
proof -
  let ?h = "i_header im"
  note C = core_okD [OF c]
  obtain s rf where g: "getNewCluster os d (pool_of im) (i_rf im) = (s, rf, r)" "im' = im\<lparr>i_availClusters := cp_avail s, i_rf := rf\<rparr>"
    using o by (auto simp: image_getNewCluster_def split: prod.splits)
  show ?thesis
  proof (cases r)
    case (Inl er)
    obtain q where q: "rf = (i_rf im)\<lparr>rf_file := (rf_file (i_rf im))\<lparr>fpos := q\<rparr>\<rparr>" "s = pool_of im"
      using getNewCluster_refused [OF os C(4,1) i g(1) [unfolded Inl]] by blast
    have "im' = im\<lparr>i_rf := (i_rf im)\<lparr>rf_file := (rf_file (i_rf im))\<lparr>fpos := q\<rparr>\<rparr>\<rparr>" by (simp add: g(2) q pool_of_def)
    then show ?thesis using core_fpos [OF c, of q] Inl by (simp add: img_step_def)
  next
    case (Inr n)
    note N = getNewCluster_ok [OF C(4,1) i g(1) [unfolded Inr]]
    have p: "pool_of im' = s" using N(7) by (simp add: g(2) pool_of_def)
    have kp: "keeps_outside ?h (rc_used (i_rc im) \<union> - U) (i_rf im) rf" using keeps_same_but [OF N(1)] N(3) by simp
    have "geometry ?h rf" "disk_l1 ?h rf = disk_l1 ?h (i_rf im)" using N(1) by (simp_all add: same_but_def)
    moreover have "rc_ok ?h rf (i_rc im)" by (rule rc_ok_keeps [OF C(2) kp])
    moreover have "length (fdata (rf_file rf)) \<le> rc_maxValidClusterOffset (i_rc im) + h_clusterSize ?h"
      using N(8) C(5) by (simp add: pool_of_def)
    ultimately have "core_ok (insert n U) im'" using N(5) C(3) p by (auto simp: core_ok_def g(2))
    then show ?thesis using N Inr kp \<open>disk_l1 ?h rf = disk_l1 ?h (i_rf im)\<close> by (auto simp: img_step_def g(2))
  qed
qed

section \<open>Setting a reference count\<close>

lemma length_fields: "length (fields ns bs) = length ns"
  by (induction ns arbitrary: bs) simp_all

lemma readRefCountBlock_ok:
  assumes "reads_ok os" "geometry h rf" "cluster_ok h rf a" "2 * n = h_clusterSize h"
  shows "\<exists>q vs. readRefCountBlock os rf a = (rf\<lparr>rf_file := (rf_file rf)\<lparr>fpos := q\<rparr>\<rparr>, Inr vs) \<and> length vs = n"
proof -
  have cs: "rf_clusterSize rf = 2 * n" "a + 2 * n \<le> length (fdata (rf_file rf))" "a < 2 ^ 63"
    using assms(2-4) by (auto simp: geometry_def cluster_ok_def)
  have "sum_list (replicate n 2) = 2 * n" by (simp add: sum_list_replicate)
  then have "read_fields os (replicate n 2) ((rf_file rf)\<lparr>fpos := a\<rparr>)
      = ((rf_file rf)\<lparr>fpos := a + 2 * n\<rparr>, Inr (fields (replicate n 2) (drop a (fdata (rf_file rf)))))"
    using read_fields_ok [OF assms(1), of "(rf_file rf)\<lparr>fpos := a\<rparr>" "replicate n 2"] cs by simp
  then show ?thesis using cs by (auto simp: readRefCountBlock_def file_Seek_def length_fields)
qed

lemma in_table:
  assumes "core_ok U im" "a + h_clusterSize (i_header im) \<le> length (fdata (rf_file (i_rf im)))"
  shows "a div h_clusterSize (i_header im) div rc_perBlock (i_rc im) < length (vc_data (rc_table (i_rc im)))"
proof -
  note C = core_okD [OF assms(1)] and R = rc_okD [OF core_okD(2) [OF assms(1)]]
  have pos: "0 < h_clusterSize (i_header im)" using R(4,5) by simp
  have "a + h_clusterSize (i_header im) \<le> length (vc_data (rc_table (i_rc im))) * rc_perBlock (i_rc im) * h_clusterSize (i_header im)"
    using assms(2) C(5) R(6) by simp
  then have "a < length (vc_data (rc_table (i_rc im))) * rc_perBlock (i_rc im) * h_clusterSize (i_header im)" using pos by simp
  then show ?thesis using pos R(5) by (simp add: div_less_iff_less_mult)
qed

lemma used_in_table: "core_ok U im \<Longrightarrow> a \<in> U \<Longrightarrow> a + h_clusterSize (i_header im) \<le> length (fdata (rf_file (i_rf im)))"
  by (simp add: core_ok_def pool_ok_def)

lemma rc_step_img:
  assumes s: "img_step U im U2 im2" and r: "rc_step (i_header im) K (i_rf im2) (i_rc im2) rf3 rc3"
    and K: "K \<subseteq> rc_used (i_rc im) \<union> - U" "K \<subseteq> U2" and l: "length (fdata (rf_file rf3)) = length (fdata (rf_file (i_rf im2)))"
  shows "img_step U im U2 (im2\<lparr>i_rf := rf3, i_rc := rc3\<rparr>)"
proof -
  let ?h = "i_header im"
  note S = s [unfolded img_step_def] and R = r [unfolded rc_step_def]
  have C: "core_ok U2 im2" "i_header im2 = ?h" using S by simp_all
  note D = core_okD [OF C(1), unfolded C(2)]
  have m: "rf_clusterMask rf3 = rf_clusterMask (i_rf im2)" using R by (simp add: keeps_outside_def)
  have "pool_ok ?h (pool_of im2) rf3 U2" by (rule pool_ok_length [OF D(4) l m])
  then have "pool_ok ?h (pool_of (im2\<lparr>i_rf := rf3, i_rc := rc3\<rparr>)) rf3 U2" using R by (simp add: pool_of_def)
  then have "core_ok U2 (im2\<lparr>i_rf := rf3, i_rc := rc3\<rparr>)" using R D l K(2) C(2) by (auto simp: core_ok_def)
  moreover have "rc_used (i_rc im2) \<union> K \<subseteq> rc_used (i_rc im) \<union> - U" using S K(1) by auto
  then have "keeps_outside ?h (rc_used (i_rc im) \<union> - U) (i_rf im) rf3" "rc_used rc3 \<subseteq> rc_used (i_rc im) \<union> - U"
    using S R keeps_trans by blast+
  ultimately show ?thesis using S R unfolding img_step_def by simp
qed

lemma fpos_img: "img_step U im U2 im2 \<Longrightarrow> img_step U im U2 (im2\<lparr>i_rf := (i_rf im2)\<lparr>rf_file := (rf_file (i_rf im2))\<lparr>fpos := q\<rparr>\<rparr>\<rparr>)"
  using core_fpos [of U2 im2 q] by (simp add: img_step_def)

lemma refcount_loop_ok:
  assumes c: "core_ok U im" and a: "address + h_clusterSize (i_header im) \<le> length (fdata (rf_file (i_rf im)))"
    and os: "writes_ok os" "reads_ok os"
  defines "ti \<equiv> address div h_clusterSize (i_header im) div rc_perBlock (i_rc im)"
  shows "\<exists>im' r U'. refcount_loop 2 os im address cnt None [] = Some (im', r) \<and> img_step U im U' im'
     \<and> (case r of Inl er \<Rightarrow> True
        | Inr (added, unref) \<Rightarrow> set added \<subseteq> U' \<and> settled (i_rc im') ti \<and> (added = [] \<or> \<not> settled (i_rc im) ti))"
proof -
  let ?h = "i_header im"
  note C = core_okD [OF c] and R = rc_okD [OF core_okD(2) [OF c]]
  note I = img_step_refl [OF c]
  have nn: "new_ok ?h (i_rf im) (i_rc im) None" by (simp add: new_ok_def)
  obtain rf1 rc1 res where s1: "rc_setClusterRefcount os (i_rf im) (i_rc im) address cnt None = Some (rf1, rc1, res)"
    "rc_step ?h (new_cluster None) (i_rf im) (i_rc im) rf1 rc1" "length (fdata (rf_file rf1)) = length (fdata (rf_file (i_rf im)))"
    "case res of Inr _ \<Rightarrow> settled rc1 ti
      | Inl e \<Rightarrow> (None :: (nat \<times> nat VectorCache) option) = None \<and> (e = ErrNeedNewCluster \<and> \<not> settled (i_rc im) ti \<or> (\<exists>a \<in> rc_used (i_rc im). e = ErrNeedReadCluster a))"
    using rc_set_ok [OF C(2,1) os(1) nn in_table [OF c a], of cnt] unfolding ti_def by blast
  define im1 where "im1 = im\<lparr>i_rf := rf1, i_rc := rc1\<rparr>"
  have i1: "img_step U im U im1" unfolding im1_def by (rule rc_step_img [OF I s1(2) _ _ s1(3)]) (simp_all add: new_cluster_def)
  show ?thesis
  proof (cases res)
    case (Inr d)
    then have "refcount_loop 2 os im address cnt None [] = Some (im1, Inr ([], case d of None \<Rightarrow> [] | Some d \<Rightarrow> [d]))"
      using s1(1) by (simp add: numeral_2_eq_2 im1_def)
    then show ?thesis using i1 s1(4) Inr
      by (intro exI [of _ im1] exI [of _ "Inr ([], case d of None \<Rightarrow> [] | Some d \<Rightarrow> [d])"] exI [of _ U]) (simp add: im1_def)
  next
    case (Inl e)
    text \<open>The second round, with a cluster at hand.\<close>
    have second: "\<exists>im' U' unref. refcount_loop (Suc 0) os im2 address cnt (Some (n, b)) added = Some (im', Inr (added, unref))
        \<and> img_step U im U2 im' \<and> settled (i_rc im') ti"
      if i2: "img_step U im U2 im2" and n: "cluster_ok ?h (i_rf im2) n" "length (vc_data b) = rc_perBlock (i_rc im2)"
        "n \<in> U2" "n \<in> rc_used (i_rc im) \<union> - U" for im2 U2 n b added
    proof -
      have S: "core_ok U2 im2" "i_header im2 = ?h" "rc_perBlock (i_rc im2) = rc_perBlock (i_rc im)"
        "length (vc_data (rc_table (i_rc im2))) = length (vc_data (rc_table (i_rc im)))" using i2 by (simp_all add: img_step_def)
      note D = core_okD [OF S(1), unfolded S(2)]
      have k2: "address div h_clusterSize ?h div rc_perBlock (i_rc im2) < length (vc_data (rc_table (i_rc im2)))"
        using in_table [OF c a] S(3,4) by simp
      have n2: "new_ok ?h (i_rf im2) (i_rc im2) (Some (n, b))" using n by (simp add: new_ok_def)
      obtain rf3 rc3 res3 where s3: "rc_setClusterRefcount os (i_rf im2) (i_rc im2) address cnt (Some (n, b)) = Some (rf3, rc3, res3)"
        "rc_step ?h (new_cluster (Some (n, b))) (i_rf im2) (i_rc im2) rf3 rc3" "length (fdata (rf_file rf3)) = length (fdata (rf_file (i_rf im2)))"
        "case res3 of Inr _ \<Rightarrow> settled rc3 ti
          | Inl e \<Rightarrow> Some (n, b) = None \<and> (e = ErrNeedNewCluster \<and> \<not> settled (i_rc im2) ti \<or> (\<exists>a \<in> rc_used (i_rc im2). e = ErrNeedReadCluster a))"
        using rc_set_ok [OF D(2,1) os(1) n2 k2, of cnt] unfolding ti_def S(3) by blast
      have "img_step U im U2 (im2\<lparr>i_rf := rf3, i_rc := rc3\<rparr>)"
        using n(3,4) by (intro rc_step_img [OF i2 s3(2) _ _ s3(3)]) (simp_all add: new_cluster_def)
      moreover obtain d where "res3 = Inr d" using s3(4) by (cases res3) auto
      ultimately show ?thesis using s3(1,4) by auto
    qed
    from s1(4) Inl consider "e = ErrNeedNewCluster" "\<not> settled (i_rc im) ti" | b where "b \<in> rc_used (i_rc im)" "e = ErrNeedReadCluster b" by auto
    then show ?thesis
    proof cases
      case 1
      have c1: "core_ok U im1" "i_header im1 = ?h" using i1 by (simp_all add: img_step_def)
      obtain im2 r where g: "image_getNewCluster os None im1 = (im2, r)" by fastforce
      have G: "case r of Inl er \<Rightarrow> img_step U im1 U im2
          | Inr n \<Rightarrow> img_step U im1 (insert n U) im2 \<and> i_rc im2 = i_rc im1 \<and> n \<notin> U \<and> cluster_ok ?h (i_rf im2) n"
        using image_getNewCluster_ok [OF c1(1) _ os(1) g] c1(2) by (auto simp: init_ok_def init_bytes_def split: sum.splits)
      show ?thesis
      proof (cases r)
        case (Inl er)
        then have "refcount_loop 2 os im address cnt None [] = Some (im2, Inl er)"
          using s1(1) \<open>res = Inl e\<close> 1(1) g by (simp add: numeral_2_eq_2 im1_def)
        then show ?thesis using img_step_trans [OF i1] G Inl by auto
      next
        case (Inr n)
        have i2: "img_step U im (insert n U) im2" using img_step_trans [OF i1] G Inr by simp
        have pb: "rc_perBlock rc1 = rc_perBlock (i_rc im2)" using G Inr by (simp add: im1_def)
        obtain im' U' unref where f: "refcount_loop (Suc 0) os im2 address cnt (Some (n, newVectorCache 0 (rc_perBlock rc1))) [n] = Some (im', Inr ([n], unref))"
          "img_step U im (insert n U) im'" "settled (i_rc im') ti"
          using second [OF i2, of n "newVectorCache 0 (rc_perBlock rc1)" "[n]"] G Inr pb by (auto simp: newVectorCache_def)
        have "refcount_loop 2 os im address cnt None [] = Some (im', Inr ([n], unref))"
          using s1(1) \<open>res = Inl e\<close> 1(1) g Inr f(1) by (simp add: numeral_2_eq_2 im1_def del: refcount_loop.simps(2)) (simp add: s1(1) im1_def)
        then show ?thesis using f(2,3) 1(2) by (intro exI [of _ im'] exI [of _ "Inr ([n], unref)"] exI [of _ "insert n U"]) simp
      qed
    next
      case (2 b)
      have b: "cluster_ok ?h rf1 b" "b \<in> U"
        using 2(1) R(7) C(3) keeps_cluster_ok s1(2) by (auto simp: rc_used_def rc_step_def)
      have g1: "geometry ?h rf1" "2 * rc_perBlock rc1 = h_clusterSize ?h" using s1(2) R(4) by (simp_all add: rc_step_def)
      obtain q vs where rd: "readRefCountBlock os rf1 b = (rf1\<lparr>rf_file := (rf_file rf1)\<lparr>fpos := q\<rparr>\<rparr>, Inr vs)" "length vs = rc_perBlock rc1"
        using readRefCountBlock_ok [OF os(2) g1(1) b(1) g1(2)] by blast
      define im2 where "im2 = im1\<lparr>i_rf := (i_rf im1)\<lparr>rf_file := (rf_file (i_rf im1))\<lparr>fpos := q\<rparr>\<rparr>\<rparr>"
      have i2: "img_step U im U im2" unfolding im2_def by (rule fpos_img [OF i1])
      obtain im' unref where f: "refcount_loop (Suc 0) os im2 address cnt (Some (b, vectorCacheFromArray vs)) [] = Some (im', Inr ([], unref))"
        "img_step U im U im'" "settled (i_rc im') ti"
        using second [OF i2, of b "vectorCacheFromArray vs" "[]"] b 2(1) rd(2) by (auto simp: im2_def im1_def vectorCacheFromArray_def)
      have "im2 = im\<lparr>i_rf := rf1, i_rc := rc1, i_rf := rf1\<lparr>rf_file := (rf_file rf1)\<lparr>fpos := q\<rparr>\<rparr>\<rparr>" by (simp add: im2_def im1_def)
      then have "refcount_loop (Suc k) os im address cnt None [] = refcount_loop k os im2 address cnt (Some (b, vectorCacheFromArray vs)) []" for k
        using rd(1) \<open>res = Inl e\<close> 2(2) s1(1) by simp
      then have "refcount_loop 2 os im address cnt None [] = Some (im', Inr ([], unref))"
        using f(1) by (simp only: numeral_2_eq_2)
      then show ?thesis using f(2,3) by (intro exI [of _ im'] exI [of _ "Inr ([], unref)"] exI [of _ U]) simp
    qed
  qed
qed

text \<open>The blocks that have no cluster of their own yet.\<close>

definition unsettled :: "image \<Rightarrow> nat" where
  "unsettled im = card {k. k < length (vc_data (rc_table (i_rc im))) \<and> \<not> settled (i_rc im) k}"

lemma unsettled_step: "img_step U im U' im' \<Longrightarrow> unsettled im' \<le> unsettled im"
  unfolding unsettled_def by (rule card_mono) (auto simp: img_step_def)

lemma unsettled_less:
  assumes "img_step U im U' im'" "k < length (vc_data (rc_table (i_rc im)))" "\<not> settled (i_rc im) k" "settled (i_rc im') k"
  shows "unsettled im' < unsettled im"
  unfolding unsettled_def by (rule psubset_card_mono) (use assms in \<open>auto simp: img_step_def\<close>)

lemma unsettled_fuel: "unsettled im < refcount_fuel im"
proof -
  have "unsettled im \<le> card {..<length (vc_data (rc_table (i_rc im)))}"
    unfolding unsettled_def by (rule card_mono) auto
  then show ?thesis by (simp add: refcount_fuel_def)
qed

lemma each_cluster_ok:
  assumes step: "\<And>im U a. core_ok U im \<Longrightarrow> a \<in> U \<Longrightarrow> unsettled im < n \<Longrightarrow> \<exists>im' r U'. f im a = Some (im', r) \<and> img_step U im U' im'"
  shows "core_ok U im \<Longrightarrow> set as \<subseteq> U \<Longrightarrow> unsettled im < n \<Longrightarrow> \<exists>im' er U'. each_cluster f im as = Some (im', er) \<and> img_step U im U' im'"
proof (induction as arbitrary: im U)
  case Nil
  then show ?case using img_step_refl by auto
next
  case (Cons a as)
  obtain im1 r U1 where f: "f im a = Some (im1, r)" "img_step U im U1 im1"
    using step [of U im a] Cons.prems by auto
  show ?case
  proof (cases r)
    case (Inr u)
    have "core_ok U1 im1" "U \<subseteq> U1" using f(2) by (simp_all add: img_step_def)
    moreover have "unsettled im1 < n" using unsettled_step [OF f(2)] Cons.prems(3) by simp
    ultimately obtain im2 er U2 where "each_cluster f im1 as = Some (im2, er)" "img_step U1 im1 U2 im2"
      using Cons.IH [of U1 im1] Cons.prems(2) by (meson order_trans set_subset_Cons)
    then show ?thesis using f Inr img_step_trans by fastforce
  qed (use f in auto)
qed

lemma setClusterRefcount_fuel:
  assumes os: "writes_ok os" "reads_ok os"
  shows "core_ok U im \<Longrightarrow> a \<in> U \<Longrightarrow> unsettled im < n \<Longrightarrow>
    \<exists>im' r U'. image_setClusterRefcount n os im a cnt = Some (im', r) \<and> img_step U im U' im'"
proof (induction n arbitrary: im U a cnt)
  case (Suc n)
  define ti where "ti = a div h_clusterSize (i_header im) div rc_perBlock (i_rc im)"
  note inside = used_in_table [OF Suc.prems(1,2)]
  obtain im1 r U1 where l: "refcount_loop 2 os im a cnt None [] = Some (im1, r)" "img_step U im U1 im1"
    "case r of Inl er \<Rightarrow> True
     | Inr (added, unref) \<Rightarrow> set added \<subseteq> U1 \<and> settled (i_rc im1) ti \<and> (added = [] \<or> \<not> settled (i_rc im) ti)"
    using refcount_loop_ok [OF Suc.prems(1) inside os, of cnt] unfolding ti_def by blast
  show ?case
  proof (cases r)
    case (Inl er)
    then show ?thesis using l by auto
  next
    case (Inr p)
    obtain added unref where p: "r = Inr (added, unref)" using Inr by (cases p) auto
    have c1: "core_ok U1 im1" using l(2) by (simp add: img_step_def)
    have ti: "ti < length (vc_data (rc_table (i_rc im)))" unfolding ti_def by (rule in_table [OF Suc.prems(1) inside])
    have "added = [] \<or> unsettled im1 < n"
      using unsettled_less [OF l(2) ti] l(3) p Suc.prems(3) by auto
    then obtain im2 er U2 where e: "each_cluster (\<lambda>im a. image_setClusterRefcount n os im a 1) im1 added = Some (im2, er)" "img_step U1 im1 U2 im2"
    proof (cases "added = []")
      case False
      then have "unsettled im1 < n" "set added \<subseteq> U1" using \<open>added = [] \<or> unsettled im1 < n\<close> l(3) p by auto
      from each_cluster_ok [of n "\<lambda>im a. image_setClusterRefcount n os im a 1", OF Suc.IH c1 this(2,1)] that show thesis by blast
    qed (use that img_step_refl [OF c1] in auto)
    have "img_step U im U2 im2" by (rule img_step_trans [OF l(2) e(2)])
    moreover have "\<exists>r'. image_setClusterRefcount (Suc n) os im a cnt = Some (im2, r')"
      using e(1) by (cases er) (simp_all add: l(1) p)
    ultimately show ?thesis by blast
  qed
qed simp

lemma image_setClusterRefcount_ok:
  assumes "core_ok U im" "a \<in> U" "writes_ok os" "reads_ok os"
  shows "\<exists>im' r U'. image_setClusterRefcount (refcount_fuel im) os im a cnt = Some (im', r) \<and> img_step U im U' im'"
  using setClusterRefcount_fuel [OF assms(3,4,1,2) unsettled_fuel] .

end
