(* ===== verification/QcowTables.thy ===== *)
theory QcowTables
  imports QcowAlloc
begin

text \<open>
  What the pointer tables of an image promise to the image (\<^verbatim>\<open>src/disk/image/qcow2/qcow2.go\<close>): an update is
  seen by later reads and by no other address, nothing an interrupted process leaves behind changes
  before the first level is written, and an image that was written back is found again when it is opened.
\<close>

definition cluster_address :: "os_calls \<Rightarrow> QcowRawFile \<Rightarrow> pointerWriteBackCache \<Rightarrow> nat \<Rightarrow> (qerror + nat) option" where
  "cluster_address os rf pc va = map_option (\<lambda>(rf', pc', r). r) (readClusterAddress os rf pc va)"

definition in_tables :: "ImageHeader \<Rightarrow> nat \<Rightarrow> bool" where
  "in_tables h va \<longleftrightarrow> l1TableIndex h va < h_numL2Clusters h"

definition image_entry :: "ImageHeader \<Rightarrow> nat list option list \<Rightarrow> nat \<Rightarrow> qerror + nat" where
  "image_entry h img va =
     (case img ! l1TableIndex h va of None \<Rightarrow> Inl ErrNeedPointerCluster | Some t \<Rightarrow> Inr (t ! l2TableIndex h va))"

lemma cluster_address_image:
  assumes "pt_inv rf pc" "in_tables (pc_header pc) va" "reads_ok os" "writes_ok os"
  shows "cluster_address os rf pc va = Some (image_entry (pc_header pc) (pt_image rf pc) va)"
  using read_ok [OF assms(1) _ assms(3,4), of va] assms(2)
  by (auto simp: cluster_address_def in_tables_def image_entry_def)

lemma same_slot: "l1TableIndex h va' = l1TableIndex h va \<Longrightarrow> l2TableIndex h va' = l2TableIndex h va
    \<Longrightarrow> va' div h_clusterSize h = va div h_clusterSize h"
  by (metis l1TableIndex_def l2TableIndex_def div_mod_decomp)

lemma image_entry_update:
  assumes "in_tables h va" "length img = h_numL2Clusters h" "img ! l1TableIndex h va = Some t" "length t = h_l2Size h" "0 < h_l2Size h"
  shows "image_entry h (img[l1TableIndex h va := Some (t[l2TableIndex h va := x])]) va' =
     (if va' div h_clusterSize h = va div h_clusterSize h then Inr x else image_entry h img va')"
proof -
  have b: "l1TableIndex h va < length img" "l2TableIndex h va < length t"
    using assms by (simp_all add: in_tables_def l2TableIndex_def)
  have slot: "va' div h_clusterSize h = va div h_clusterSize h
      \<longleftrightarrow> l1TableIndex h va' = l1TableIndex h va \<and> l2TableIndex h va' = l2TableIndex h va"
    using same_slot [of h va' va] unfolding l1TableIndex_def l2TableIndex_def by metis
  show ?thesis unfolding slot
    using b assms(3) by (cases "l1TableIndex h va' = l1TableIndex h va") (simp_all add: image_entry_def nth_list_update)
qed

section \<open>Examples\<close>

text \<open>
  An image with clusters of 512 bytes: the header, the first level with one table, the table and a free cluster.
\<close>

definition demo_header :: ImageHeader where
  "demo_header = zero_header\<lparr>h_clusterSize := 512, h_l2Size := 64, h_numL2Clusters := 2, h_l1TableOffset := 512, h_virtualDiskSizeBytes := 65536\<rparr>"

definition demo_rf :: QcowRawFile where
  "demo_rf = \<lparr>rf_file = \<lparr>fdata = replicate 512 0 @ [0, 0, 0, 0, 0, 0, 4, 0] @ replicate 1528 0, fpos = 0\<rparr>,
     rf_clusterSize = 512, rf_clusterMask = 511, rf_readOnly = False\<rparr>"

definition demo_tables :: "nat VectorCache \<Rightarrow> nat \<Rightarrow> nat VectorCache \<Rightarrow> pointerWriteBackCache" where
  "demo_tables l1 k v = \<lparr>pc_l1 = l1, pc_header = demo_header, pc_cache = fst (lru_set (newCacheMap 2) k v), pc_evicted = []\<rparr>"

lemmas demo_cache = lru_set_first [of 2, simplified]

lemma demo_words: "520 \<le> a \<Longrightarrow> a + 8 * n \<le> 2048 \<Longrightarrow> disk_words (rf_file demo_rf) a n = replicate n 0"
proof -
  assume a: "520 \<le> a" "a + 8 * n \<le> 2048"
  have z: "be (replicate m 0) = 0" for m by (induction m) simp_all
  have "disk_word (rf_file demo_rf) (a + 8 * i) = 0" if "i < n" for i
  proof -
    obtain j where "a + 8 * i = 520 + j" using a(1) le_Suc_ex [of 520 "a + 8 * i"] by auto
    moreover have "drop (520 + j) (fdata (rf_file demo_rf)) = replicate (1528 - j) 0"
      using drop_drop [of j 520 "fdata (rf_file demo_rf)"] by (simp add: demo_rf_def add.commute)
    ultimately show ?thesis using z by (simp add: disk_word_def)
  qed
  then show ?thesis by (simp add: disk_words_def map_replicate_trivial [symmetric])
qed

lemma demo_disk:
  "geometry demo_header demo_rf" "disk_l1 demo_header demo_rf = [1024, 0]"
  "cluster_ok demo_header demo_rf 1024" "cluster_ok demo_header demo_rf 1536"
  "disk_l2 demo_header demo_rf 1024 = replicate 64 0" "supported demo_header demo_rf 1024"
proof -
  show "geometry demo_header demo_rf" "cluster_ok demo_header demo_rf 1024" "cluster_ok demo_header demo_rf 1536"
    by (simp_all add: geometry_def cluster_ok_def demo_header_def demo_rf_def)
  have "disk_word (rf_file demo_rf) 512 = 1024" by (simp add: disk_word_def demo_rf_def)
  moreover have "disk_words (rf_file demo_rf) 520 1 = [0]" using demo_words [of 520 1] by simp
  ultimately have "disk_words (rf_file demo_rf) 512 (Suc 1) = [1024, 0]" by (simp only: disk_words_Suc) simp
  then have "disk_words (rf_file demo_rf) 512 2 = [1024, 0]" unfolding Suc_1 .
  then show "disk_l1 demo_header demo_rf = [1024, 0]" by (simp add: disk_l1_def demo_header_def L1TableOffsetMask_def)
  have "raw_l2 demo_header demo_rf 1024 = replicate 64 0" using demo_words [of 1024 64] by (simp add: raw_l2_def demo_header_def)
  then show "disk_l2 demo_header demo_rf 1024 = replicate 64 0" "supported demo_header demo_rf 1024"
    by (simp_all add: disk_l2_def supported_def)
qed

lemma demo_clean: "pt_inv demo_rf (demo_tables (vectorCacheFromArray [1024, 0]) 1024 (vectorCacheFromArray (replicate 64 0)))"
proof -
  have "tables_ok demo_header demo_rf [1024, 0] [1024 \<mapsto> vectorCacheFromArray (replicate 64 0)] []"
    using demo_disk by (intro tables_okI)
      (auto simp: vectorCacheFromArray_def vector_ok_def nth_Cons L1TableOffsetMask_def demo_header_def split: if_splits nat.splits)
  then show ?thesis
    unfolding pt_inv_def demo_tables_def using demo_disk(2) by (simp add: vectorCacheFromArray_def demo_cache)
qed

lemma demo_dirty: "pt_inv demo_rf (demo_tables \<lparr>vc_data = [1536, 0], vc_dirty = True\<rparr> 1536 \<lparr>vc_data = replicate 64 4096, vc_dirty = True\<rparr>)"
proof -
  have "tables_ok demo_header demo_rf [1536, 0] [1536 \<mapsto> \<lparr>vc_data = replicate 64 4096, vc_dirty = True\<rparr>] []"
    using demo_disk by (intro tables_okI)
      (auto simp: vector_ok_def dirty_in_def nth_Cons entry_ok_def L2TableOffsetMask_def L1TableOffsetMask_def demo_header_def split: if_splits nat.splits)
  then show ?thesis unfolding pt_inv_def demo_tables_def by (simp add: demo_cache)
qed

lemma demo_keys: "dom (map_of (lru_store (fst (lru_set (newCacheMap 2) k v)))) = {k}"
  by (simp add: lru_set_def newCacheMap_def store_new_def split_beta)

section \<open>Properties\<close>

text \<open>
  C17. An update of a cluster address, with the clusters for copied tables taken from \<open>getNewCluster\<close>,
  keeps the invariant and what an interrupted process leaves in the file.  Unless the operating system
  refused a cluster, every later read finds the new address for all bytes of the updated guest cluster and what it
  found before for all others; after an error every read finds what it found before.
\<close>

theorem pointer_table_update:
  assumes "pt_inv rf pc" "in_tables (pc_header pc) va" "entry_ok x" "reads_ok os" "writes_ok os"
    "containsKey (pc_cache pc) (vc_data (pc_l1 pc) ! l1TableIndex (pc_header pc) va)"
    "vc_data (pc_l1 pc) ! l1TableIndex (pc_header pc) va \<noteq> 0"
    "pool_ok (pc_header pc) s rf (pt_used rf pc)"
  shows "\<exists>s' rf' pc' r. updateClusterAddress (getNewCluster os None) s rf pc va x = Some (s', rf', pc', r)
     \<and> pt_inv rf' pc' \<and> disk_image (pc_header pc) rf' = disk_image (pc_header pc) rf
     \<and> (\<forall>va'. in_tables (pc_header pc) va' \<longrightarrow> cluster_address os rf' pc' va' =
          (if (\<forall>er. r \<noteq> Some (QErr er)) \<and> va' div h_clusterSize (pc_header pc) = va div h_clusterSize (pc_header pc)
           then Some (Inr x) else cluster_address os rf pc va'))"
proof -
  let ?h = "pc_header pc" and ?l2 = "vc_data (pc_l1 pc) ! l1TableIndex (pc_header pc) va"
  have va: "l1TableIndex ?h va < h_numL2Clusters ?h" using assms(2) by (simp add: in_tables_def)
  have t: "tables_ok ?h rf (vc_data (pc_l1 pc)) (lru_map (pc_cache pc)) (pc_evicted pc)" and c: "lru_ok (pc_cache pc)"
    using assms(1) by (simp_all add: pt_inv_def)
  obtain w where w: "lru_map (pc_cache pc) ?l2 = Some w" using assms(6) lru_map_contains [OF c] by auto
  have slot: "pt_image rf pc ! l1TableIndex ?h va = Some (vc_data w)"
    using pt_image_slot [OF assms(1) va] assms(7) w by (simp add: l2_table_def)
  have lw: "length (vc_data w) = h_l2Size ?h" "0 < h_l2Size ?h"
    using tables_okD(9) [OF t w] tables_okD(1) [OF t] by (simp_all add: vector_ok_def geometry_def)
  obtain s' rf' pc' r where u: "updateClusterAddress (getNewCluster os None) s rf pc va x = Some (s', rf', pc', r)" "pt_inv rf' pc'"
    "pc_header pc' = ?h" "disk_image ?h rf' = disk_image ?h rf"
    "pt_image rf' pc' = (if \<exists>er. r = Some (QErr er) then pt_image rf pc
        else (pt_image rf pc)[l1TableIndex ?h va := Some ((vc_data w)[l2TableIndex ?h va := x])])"
    using qc.update_ok [OF assms(1) va w assms(3,8) subset_refl] by blast
  note E = image_entry_update [OF assms(2) pt_image_length [OF assms(1)] slot lw, of x]
  have "cluster_address os rf' pc' va' = (if (\<forall>er. r \<noteq> Some (QErr er)) \<and> va' div h_clusterSize ?h = va div h_clusterSize ?h
      then Some (Inr x) else cluster_address os rf pc va')" if "in_tables ?h va'" for va'
    using that E [of va'] u(3,5) cluster_address_image [OF u(2) _ assms(4,5), of va'] cluster_address_image [OF assms(1) that assms(4,5)]
    by simp
  then show ?thesis using u by blast
qed

theorem pointer_table_update_witness:
  "\<exists>s' rf' pc' r. updateClusterAddress (getNewCluster healthy_os None) \<lparr>cp_avail = [1536], cp_max = 4096\<rparr> demo_rf
       (demo_tables (vectorCacheFromArray [1024, 0]) 1024 (vectorCacheFromArray (replicate 64 0))) 0 4096 = Some (s', rf', pc', r)
     \<and> disk_image demo_header rf' = disk_image demo_header demo_rf"
proof -
  let ?pc = "demo_tables (vectorCacheFromArray [1024, 0]) 1024 (vectorCacheFromArray (replicate 64 0))"
  have h: "pc_header ?pc = demo_header" and l1: "vc_data (pc_l1 ?pc) = [1024, 0]"
    by (simp_all add: demo_tables_def vectorCacheFromArray_def)
  have c: "lru_map (pc_cache ?pc) = [1024 \<mapsto> vectorCacheFromArray (replicate 64 0)]" by (simp add: demo_tables_def demo_cache)
  have "containsKey (pc_cache ?pc) 1024" by (simp add: containsKey_def demo_tables_def lru_set_def newCacheMap_def store_new_def split_beta)
  moreover have "pt_used demo_rf ?pc = {1024, 0}" using demo_disk(2) by (auto simp: pt_used_def h l1 c)
  moreover have "(512::nat) = 2 ^ 9" by simp
  then have "\<exists>n \<ge> 9. (512::nat) = 2 ^ n" by blast
  then have "pool_ok demo_header \<lparr>cp_avail = [1536], cp_max = 4096\<rparr> demo_rf {1024, 0}"
    using demo_disk(4) by (simp add: pool_ok_def) (simp add: demo_header_def demo_rf_def L1TableOffsetMask_def)
  moreover have "in_tables demo_header 0" "l1TableIndex demo_header 0 = 0" by (simp_all add: in_tables_def l1TableIndex_def demo_header_def)
  moreover have "entry_ok 4096" by (simp add: entry_ok_def L2TableOffsetMask_def)
  ultimately show ?thesis
    using pointer_table_update [OF demo_clean, of 0 4096 healthy_os "\<lparr>cp_avail = [1536], cp_max = 4096\<rparr>"] healthy_os_ok
    unfolding h l1 by auto
qed

text \<open>
  C18. Writing back: \<open>sync\<close>, in whatever order it visits the cached tables, changes nothing that a
  process opening the file finds; \<open>syncL1\<close> after it makes all updates visible at once; and opening the
  file again gives every address the cluster it had before.
\<close>

theorem pointer_table_flush:
  assumes "pt_inv rf pc" "set ks = dom (map_of (lru_store (pc_cache pc)))" "reads_ok os" "writes_ok os" "0 < n" "n < 2 ^ 64"
  shows "\<exists>rf1 pc1 rf2 pc2 b rf3 pc3.
      pt_sync os ks rf pc = (rf1, pc1, None) \<and> disk_image (pc_header pc) rf1 = disk_image (pc_header pc) rf
    \<and> syncL1 os rf1 pc1 = (rf2, pc2, Inr b) \<and> disk_image (pc_header pc) rf2 = pt_image rf pc \<and> pt_inv rf2 pc2
    \<and> newPointerWriteBackCache os (pc_header pc) rf2 n = (rf3, Inr pc3)
    \<and> (\<forall>va. in_tables (pc_header pc) va \<longrightarrow>
          cluster_address os rf2 pc2 va = cluster_address os rf pc va \<and> cluster_address os rf3 pc3 va = cluster_address os rf pc va)"
proof -
  let ?h = "pc_header pc" and ?L = "vc_data (pc_l1 pc)"
  have t: "tables_ok ?h rf ?L (lru_map (pc_cache pc)) (pc_evicted pc)" and c: "lru_ok (pc_cache pc)"
    and cap: "0 < lru_capacity (pc_cache pc)" and d1: "\<not> vc_dirty (pc_l1 pc) \<longrightarrow> disk_l1 ?h rf = ?L"
    using assms(1) by (simp_all add: pt_inv_def)
  have ks: "set ks = dom (lru_map (pc_cache pc))"
    using assms(2) lru_map_contains [OF c] by (auto simp: containsKey_def dom_def)
  obtain rf1 c1 where s: "sync_tables os ks rf (pc_cache pc) = (rf1, c1, None)" "tables_ok ?h rf1 ?L (lru_map c1) (pc_evicted pc)"
    "lru_ok c1" "lru_capacity c1 = lru_capacity (pc_cache pc)" "dom (lru_map c1) = dom (lru_map (pc_cache pc))"
    "mem_image ?h rf1 ?L (lru_map c1) = mem_image ?h rf ?L (lru_map (pc_cache pc))"
    "disk_image ?h rf1 = disk_image ?h rf" "disk_l1 ?h rf1 = disk_l1 ?h rf"
    "\<forall>k. dirty_in (lru_map c1) k \<longrightarrow> dirty_in (lru_map (pc_cache pc)) k \<and> k \<notin> set ks"
    using sync_tables_ok [OF t c equalityD1 [OF ks] assms(4)] by blast
  define pc1 where "pc1 = pc\<lparr>pc_cache := c1\<rparr>"
  have i1: "pt_inv rf1 pc1" "pc_header pc1 = ?h" "pt_image rf1 pc1 = pt_image rf pc"
    using s cap d1 by (simp_all add: pt_inv_def pc1_def pt_image_def)
  have cl: "\<not> dirty_in (lru_map (pc_cache pc1)) k" for k using s(9) ks by (auto simp: pc1_def dirty_in_def)
  obtain rf2 pc2 b where l: "syncL1 os rf1 pc1 = (rf2, pc2, Inr b)" "pt_inv rf2 pc2" "pc_header pc2 = ?h"
    "pt_image rf2 pc2 = pt_image rf pc" "disk_image ?h rf2 = pt_image rf pc" "\<not> vc_dirty (pc_l1 pc2)" "pc_cache pc2 = pc_cache pc1"
    using syncL1_ok [OF i1(1) cl assms(4)] unfolding i1(2,3) by blast
  obtain rf3 pc3 where n: "newPointerWriteBackCache os ?h rf2 n = (rf3, Inr pc3)" "pt_inv rf3 pc3" "pc_header pc3 = ?h"
    "pt_image rf3 pc3 = pt_image rf pc"
    using reopen_ok [OF l(2) _ l(6) assms(3,5,6)] cl unfolding l(3,4,7) by blast
  have "pt_sync os ks rf pc = (rf1, pc1, None)" using s(1) by (simp add: pt_sync_def pc1_def)
  moreover have "cluster_address os rf2 pc2 va = cluster_address os rf pc va \<and> cluster_address os rf3 pc3 va = cluster_address os rf pc va"
    if "in_tables ?h va" for va
    using that cluster_address_image [OF l(2) _ assms(3,4), of va] cluster_address_image [OF n(2) _ assms(3,4), of va]
      cluster_address_image [OF assms(1) that assms(3,4)] l(3,4) n(3,4) by simp
  ultimately show ?thesis using s(7) l(1,2,5) n(1) by blast
qed

theorem pointer_table_flush_witness:
  "\<exists>rf1 pc1. pt_sync healthy_os [1536] demo_rf
       (demo_tables \<lparr>vc_data = [1536, 0], vc_dirty = True\<rparr> 1536 \<lparr>vc_data = replicate 64 4096, vc_dirty = True\<rparr>) = (rf1, pc1, None)
     \<and> disk_image demo_header rf1 = [Some (replicate 64 0), None]"
proof -
  let ?pc = "demo_tables \<lparr>vc_data = [1536, 0], vc_dirty = True\<rparr> 1536 \<lparr>vc_data = replicate 64 4096, vc_dirty = True\<rparr>"
  have "disk_image demo_header demo_rf = [Some (replicate 64 0), None]"
    using demo_disk(2,5) by (simp add: disk_image_def mem_image_def l2_table_def)
  moreover have "pc_header ?pc = demo_header" "set [1536] = dom (map_of (lru_store (pc_cache ?pc)))"
    by (simp_all add: demo_tables_def demo_keys)
  ultimately show ?thesis using pointer_table_flush [OF demo_dirty, of "[1536]" healthy_os 2] healthy_os_ok by auto
qed

end
