(* ===== verification/ImageRead.thy ===== *)
theory ImageRead
  imports ImageAlloc QcowTables
begin

text \<open>
  Reading of guest bytes (\<open>ReadAt\<close>).  The bytes of an image are those of the clusters that its pointer tables
  name; where they name none, the bytes of the backing image, or zeros.  The backing image is an interface:
  \<open>byte_source\<close> says what the loop of \<open>ReadAt\<close> expects of it, and a chain of images that are only read provides it.
\<close>

unbundle bit_operations_syntax

section \<open>The clusters of an image\<close>

definition entry :: "ImageHeader \<Rightarrow> nat list option list \<Rightarrow> nat \<Rightarrow> nat" where
  "entry h T va = (case T ! l1TableIndex h va of None \<Rightarrow> 0 | Some t \<Rightarrow> t ! l2TableIndex h va)"

definition cluster_of :: "image \<Rightarrow> nat \<Rightarrow> nat" where
  "cluster_of im va = entry (i_header im) (pt_image (i_rf im) (i_pt im)) va"

definition own_byte :: "image \<Rightarrow> nat \<Rightarrow> byte" where
  "own_byte im va = cluster_bytes (i_header im) (i_rf im) (cluster_of im va) ! (va mod h_clusterSize (i_header im))"

definition guest_byte :: "image \<Rightarrow> (nat \<Rightarrow> byte) \<Rightarrow> nat \<Rightarrow> byte" where
  "guest_byte im below va = (if cluster_of im va = 0 then below va else own_byte im va)"

definition layout_ok :: "image \<Rightarrow> bool" where
  "layout_ok im \<longleftrightarrow> pt_inv (i_rf im) (i_pt im) \<and> pc_header (i_pt im) = i_header im
     \<and> (\<exists>n. 9 \<le> n \<and> n \<le> 21 \<and> h_clusterSize (i_header im) = 2 ^ n) \<and> rf_clusterMask (i_rf im) = h_clusterSize (i_header im) - 1
     \<and> h_virtualDiskSizeBytes (i_header im) < 2 ^ 63
     \<and> (\<forall>va < h_virtualDiskSizeBytes (i_header im). in_tables (i_header im) va)
     \<and> (\<forall>va. in_tables (i_header im) va \<longrightarrow> cluster_of im va \<noteq> 0 \<longrightarrow>
          cluster_ok (i_header im) (i_rf im) (cluster_of im va) \<and> cluster_of im va \<notin> pt_used (i_rf im) (i_pt im))"

lemma layoutD:
  assumes "layout_ok im"
  shows "pt_inv (i_rf im) (i_pt im)" "pc_header (i_pt im) = i_header im" "geometry (i_header im) (i_rf im)"
    "0 < h_clusterSize (i_header im)" "h_clusterSize (i_header im) \<le> 2 ^ 21" "rf_clusterSize (i_rf im) = h_clusterSize (i_header im)"
    "h_virtualDiskSizeBytes (i_header im) < 2 ^ 63" "\<And>va. va < h_virtualDiskSizeBytes (i_header im) \<Longrightarrow> in_tables (i_header im) va"
    "\<And>va. in_tables (i_header im) va \<Longrightarrow> cluster_of im va \<noteq> 0 \<Longrightarrow> cluster_ok (i_header im) (i_rf im) (cluster_of im va)"
    "\<And>va. in_tables (i_header im) va \<Longrightarrow> cluster_of im va \<noteq> 0 \<Longrightarrow> cluster_of im va \<notin> pt_used (i_rf im) (i_pt im)"
proof -
  obtain n where n: "n \<le> 21" "h_clusterSize (i_header im) = 2 ^ n" using assms by (auto simp: layout_ok_def)
  then show "0 < h_clusterSize (i_header im)" "h_clusterSize (i_header im) \<le> 2 ^ 21" by (simp_all add: power_increasing del: power_numeral)
  show g: "geometry (i_header im) (i_rf im)" using assms tables_okD(1) by (fastforce simp: layout_ok_def pt_inv_def)
  then show "rf_clusterSize (i_rf im) = h_clusterSize (i_header im)" by (simp add: geometry_def)
qed (use assms in \<open>auto simp: layout_ok_def\<close>)

lemma clusterOffset_mod:
  assumes "layout_ok im"
  shows "clusterOffset (i_rf im) va = va mod h_clusterSize (i_header im)"
proof -
  obtain n where "h_clusterSize (i_header im) = 2 ^ n" "rf_clusterMask (i_rf im) = 2 ^ n - 1" using assms by (auto simp: layout_ok_def)
  then show ?thesis by (simp add: clusterOffset_def take_bit_eq_mod [symmetric] take_bit_eq_mask mask_eq_exp_minus_1)
qed

lemma limitRange_mod:
  assumes "layout_ok im"
  shows "limitRangeCluster (i_rf im) va cnt = min cnt (h_clusterSize (i_header im) - va mod h_clusterSize (i_header im))"
proof -
  note L = layoutD [OF assms]
  have "va mod h_clusterSize (i_header im) \<le> h_clusterSize (i_header im)" using L(4) by (simp add: less_imp_le)
  moreover have "h_clusterSize (i_header im) < 2 ^ 64" using L(5) by simp
  ultimately have "sub64 (h_clusterSize (i_header im)) (va mod h_clusterSize (i_header im)) = h_clusterSize (i_header im) - va mod h_clusterSize (i_header im)"
    by (rule sub64_le)
  then show ?thesis unfolding limitRangeCluster_def clusterOffset_mod [OF assms] L(6) by (auto simp: Let_def)
qed

text \<open>Bytes of one cluster are together in the file.\<close>

lemma same_cluster:
  assumes "0 < cs" "i < cs - va mod (cs::nat)"
  shows "(va + i) div cs = va div cs" "(va + i) mod cs = va mod cs + i"
proof -
  have l: "va mod cs + i < cs" using assms by linarith
  have e: "va + i = va mod cs + i + cs * (va div cs)" by simp
  show "(va + i) div cs = va div cs" unfolding e using l by (simp only: div_mult_self2 assms(1) neq0_conv) simp
  show "(va + i) mod cs = va mod cs + i" unfolding e using l by (simp only: mod_mult_self2) simp
qed

lemma cluster_of_cong: "va' div h_clusterSize (i_header im) = va div h_clusterSize (i_header im) \<Longrightarrow> cluster_of im va' = cluster_of im va"
  unfolding cluster_of_def entry_def l1TableIndex_def l2TableIndex_def by (simp split: option.split)

lemma chunk_bytes:
  assumes L: "layout_ok im" and va: "in_tables (i_header im) va" "cluster_of im va \<noteq> 0"
    and n: "cnt \<le> h_clusterSize (i_header im) - va mod h_clusterSize (i_header im)"
  shows "take cnt (drop (cluster_of im va + va mod h_clusterSize (i_header im)) (fdata (rf_file (i_rf im)))) = map (own_byte im) [va..<va + cnt]"
proof (rule nth_equalityI)
  let ?cs = "h_clusterSize (i_header im)" and ?c = "cluster_of im va"
  note D = layoutD [OF L]
  have c: "?c + ?cs \<le> length (fdata (rf_file (i_rf im)))" using D(9) [OF va] by (simp add: cluster_ok_def)
  have m: "va mod ?cs + cnt \<le> ?cs" using n mod_le_divisor [OF D(4), of va] by (metis add.commute le_diff_conv2)
  show len: "length (take cnt (drop (?c + va mod ?cs) (fdata (rf_file (i_rf im))))) = length (map (own_byte im) [va..<va + cnt])"
    using c m by simp
  fix i assume "i < length (take cnt (drop (?c + va mod ?cs) (fdata (rf_file (i_rf im)))))"
  then have i: "i < cnt" by simp
  have s: "(va + i) div ?cs = va div ?cs" "(va + i) mod ?cs = va mod ?cs + i" using same_cluster [OF D(4), of i va] n i by simp_all
  have "own_byte im (va + i) = fdata (rf_file (i_rf im)) ! (?c + (va mod ?cs + i))"
    using cluster_of_cong [OF s(1)] s(2) c m i by (simp add: own_byte_def cluster_bytes_def)
  then show "take cnt (drop (?c + va mod ?cs) (fdata (rf_file (i_rf im)))) ! i = map (own_byte im) [va..<va + cnt] ! i"
    using i c m by (simp add: add.assoc)
qed

section \<open>Where a byte is\<close>

text \<open>What reading changes: the caches and the position of the file, or tables that leave the cache.\<close>

definition read_step :: "image \<Rightarrow> image \<Rightarrow> bool" where
  "read_step im im' \<longleftrightarrow> im' = im\<lparr>i_rf := i_rf im', i_pt := i_pt im'\<rparr> \<and> pt_inv (i_rf im') (i_pt im') \<and> pc_header (i_pt im') = pc_header (i_pt im)
     \<and> pt_image (i_rf im') (i_pt im') = pt_image (i_rf im) (i_pt im) \<and> vc_data (pc_l1 (i_pt im')) = vc_data (pc_l1 (i_pt im))
     \<and> keeps_outside (i_header im) (pt_used (i_rf im) (i_pt im)) (i_rf im) (i_rf im') \<and> pt_used (i_rf im') (i_pt im') \<subseteq> pt_used (i_rf im) (i_pt im)
     \<and> length (fdata (rf_file (i_rf im'))) = length (fdata (rf_file (i_rf im)))"

lemma read_step_header:
  assumes "read_step im im'"
  shows "i_header im' = i_header im" "i_rc im' = i_rc im" "pool_of im' = pool_of im" "i_readOnly im' = i_readOnly im"
proof -
  have e: "im' = im\<lparr>i_rf := i_rf im', i_pt := i_pt im'\<rparr>" using assms unfolding read_step_def by (elim conjE)
  show "i_header im' = i_header im" "i_rc im' = i_rc im" "pool_of im' = pool_of im" "i_readOnly im' = i_readOnly im"
    by (subst e, simp add: pool_of_def)+
qed

lemma read_step_view:
  assumes s: "read_step im im'" and L: "layout_ok im"
  shows "layout_ok im'" "cluster_of im' = cluster_of im" "\<And>va. in_tables (i_header im) va \<Longrightarrow> cluster_of im va \<noteq> 0 \<Longrightarrow> own_byte im' va = own_byte im va"
proof -
  note S = s [unfolded read_step_def] and H = read_step_header [OF s] and D = layoutD [OF L]
  show c: "cluster_of im' = cluster_of im" using S H by (simp add: cluster_of_def fun_eq_iff)
  have k: "keeps_outside (i_header im) (pt_used (i_rf im) (i_pt im)) (i_rf im) (i_rf im')" using S by simp
  then have m: "rf_clusterMask (i_rf im') = rf_clusterMask (i_rf im)" by (simp add: keeps_outside_def)
  show "layout_ok im'" using L S m D(9,10) keeps_cluster_ok [OF k] unfolding layout_ok_def c H by auto
  show "own_byte im' va = own_byte im va" if "in_tables (i_header im) va" "cluster_of im va \<noteq> 0" for va
    using keeps_bytes [OF k D(9) [OF that] D(10) [OF that] D(3)] by (simp add: own_byte_def c H)
qed

lemma fileOffsetRead_ok:
  assumes L: "layout_ok im" and va: "va < h_virtualDiskSizeBytes (i_header im)" and os: "reads_ok os" "writes_ok os"
  shows "\<exists>im'. fileOffsetRead os im va =
      Some (im', Inr (if cluster_of im va = 0 then None else Some (cluster_of im va + va mod h_clusterSize (i_header im)))) \<and> read_step im im'"
proof -
  note D = layoutD [OF L]
  let ?h = "i_header im"
  have t: "l1TableIndex ?h va < h_numL2Clusters ?h" using D(8) [OF va] by (simp add: in_tables_def)
  obtain rf' pt' where r: "readClusterAddress os (i_rf im) (i_pt im) va = Some (rf', pt',
        case pt_image (i_rf im) (i_pt im) ! l1TableIndex ?h va of None \<Rightarrow> Inl ErrNeedPointerCluster | Some t \<Rightarrow> Inr (t ! l2TableIndex ?h va))"
    "pt_inv rf' pt'" "pc_header pt' = ?h" "pc_l1 pt' = pc_l1 (i_pt im)" "pt_image rf' pt' = pt_image (i_rf im) (i_pt im)"
    "keeps_outside ?h (pt_used (i_rf im) (i_pt im)) (i_rf im) rf'" "pt_used rf' pt' \<subseteq> pt_used (i_rf im) (i_pt im)"
    "length (fdata (rf_file rf')) = length (fdata (rf_file (i_rf im)))"
    using read_ok [OF D(1) _ os, of va] t unfolding D(2) by blast
  let ?im = "im\<lparr>i_rf := rf', i_pt := pt'\<rparr>"
  have s: "read_step im ?im" using r D(2) by (simp add: read_step_def)
  have "layout_ok ?im" by (rule read_step_view(1) [OF s L])
  then have off: "clusterOffset rf' va = va mod h_clusterSize ?h" using clusterOffset_mod [of ?im va] by simp
  have "u64 (cluster_of im va + va mod h_clusterSize ?h) = cluster_of im va + va mod h_clusterSize ?h" if "cluster_of im va \<noteq> 0"
  proof (rule u64_small)
    have "cluster_of im va + h_clusterSize ?h \<le> length (fdata (rf_file (i_rf im)))" "length (fdata (rf_file (i_rf im))) < 2 ^ 63"
      using D(9) [OF D(8) [OF va] that] D(3) by (simp_all add: cluster_ok_def geometry_def)
    moreover have "va mod h_clusterSize ?h < h_clusterSize ?h" using D(4) by simp
    ultimately show "cluster_of im va + va mod h_clusterSize ?h < 2 ^ 64" by simp
  qed
  then show ?thesis using s r(1) va off
    by (intro exI [of _ ?im]) (auto simp: fileOffsetRead_def cluster_of_def entry_def split: option.splits)
qed

section \<open>The loop of a read\<close>

text \<open>An image whose file may be marked as read only; its mark has no influence on what it holds.\<close>

definition writable :: "image \<Rightarrow> image" where
  "writable im = im\<lparr>i_rf := (i_rf im)\<lparr>rf_readOnly := False\<rparr>\<rparr>"

lemma readOnly_irrelevant [simp]:
  "disk_l1 h (rf\<lparr>rf_readOnly := b\<rparr>) = disk_l1 h rf" "disk_l2 h (rf\<lparr>rf_readOnly := b\<rparr>) = disk_l2 h rf"
  "pt_image (rf\<lparr>rf_readOnly := b\<rparr>) pc = pt_image rf pc" "cluster_bytes h (rf\<lparr>rf_readOnly := b\<rparr>) a = cluster_bytes h rf a"
  by (simp_all add: disk_l1_def disk_l2_def raw_l2_def fun_eq_iff pt_image_def mem_image_def l2_table_def cluster_bytes_def cong: option.case_cong)

lemma writable_view [simp]:
  "i_header (writable im) = i_header im" "rf_file (i_rf (writable im)) = rf_file (i_rf im)" "cluster_of (writable im) = cluster_of im"
  "own_byte (writable im) = own_byte im" "guest_byte (writable im) = guest_byte im" "limitRangeCluster (i_rf (writable im)) = limitRangeCluster (i_rf im)"
  by (simp_all add: writable_def cluster_of_def own_byte_def guest_byte_def fun_eq_iff limitRangeCluster_def clusterOffset_def)

definition same_view :: "image \<Rightarrow> image \<Rightarrow> bool" where
  "same_view im im' \<longleftrightarrow> i_header im' = i_header im
     \<and> (\<forall>f. \<forall>va < h_virtualDiskSizeBytes (i_header im). guest_byte im' f va = guest_byte im f va)"

lemma same_view_refl: "same_view im im"
  by (simp add: same_view_def)

lemma same_view_trans: "same_view im im1 \<Longrightarrow> same_view im1 im2 \<Longrightarrow> same_view im im2"
  by (simp add: same_view_def)

lemma read_step_same: "read_step im im' \<Longrightarrow> layout_ok im \<Longrightarrow> same_view im im'"
  using read_step_view [of im im'] read_step_header [of im im'] layoutD(8) [of im] by (auto simp: same_view_def guest_byte_def)

text \<open>What the loop of \<open>ReadAt\<close> expects of a backing image: a range inside of it is served, and stays what it was.\<close>

locale byte_source =
  fixes B :: "'b \<Rightarrow> nat \<Rightarrow> nat \<Rightarrow> ('b \<times> byte list result) option"
    and good :: "'b \<Rightarrow> bool" and bytes :: "'b \<Rightarrow> nat \<Rightarrow> byte" and extent :: "'b \<Rightarrow> nat"
  assumes serves: "good b \<Longrightarrow> a + n \<le> extent b \<Longrightarrow> int n \<le> maxAlloc \<Longrightarrow>
      \<exists>b'. B b a n = Some (b', Inr (map (bytes b) [a..<a + n])) \<and> good b' \<and> extent b' = extent b \<and> (\<forall>va < extent b. bytes b' va = bytes b va)"
begin

definition below :: "'b option \<Rightarrow> nat \<Rightarrow> byte" where
  "below backing = (case backing of None \<Rightarrow> (\<lambda>_. 0) | Some b \<Rightarrow> bytes b)"

definition backs :: "image \<Rightarrow> 'b option \<Rightarrow> bool" where
  "backs im backing \<longleftrightarrow> (case backing of None \<Rightarrow> True | Some b \<Rightarrow> good b \<and> h_virtualDiskSizeBytes (i_header im) \<le> extent b)"

definition same_below :: "nat \<Rightarrow> 'b option \<Rightarrow> 'b option \<Rightarrow> bool" where
  "same_below s backing backing' \<longleftrightarrow> (backing' = None \<longleftrightarrow> backing = None) \<and> (\<forall>va < s. below backing' va = below backing va)"

lemma same_below_refl: "same_below s x x"
  by (simp add: same_below_def)

lemma same_below_trans: "same_below s x y \<Longrightarrow> same_below s y z \<Longrightarrow> same_below s x z"
  by (simp add: same_below_def)

end

text \<open>An image over such a source, where \<open>fit\<close> holds of images that find their clusters.\<close>

locale layered_read = byte_source +
  fixes os :: os_calls and fit :: "image \<Rightarrow> bool"
  assumes shape: "fit im \<Longrightarrow> layout_ok (writable im)" and reads: "fit im \<Longrightarrow> reads_ok os"
    and locates: "fit im \<Longrightarrow> va < h_virtualDiskSizeBytes (i_header im) \<Longrightarrow>
      \<exists>im'. fileOffsetRead os im va =
          Some (im', Inr (if cluster_of im va = 0 then None else Some (cluster_of im va + va mod h_clusterSize (i_header im))))
        \<and> fit im' \<and> same_view im im' \<and> cluster_of im' = cluster_of im"
begin

lemma own_chunk:
  assumes f: "fit im" and va: "va < h_virtualDiskSizeBytes (i_header im)" "cluster_of im va \<noteq> 0"
    and n: "cnt \<le> h_clusterSize (i_header im) - va mod h_clusterSize (i_header im)"
  shows "file_at os (rf_file (i_rf im)) (cluster_of im va + va mod h_clusterSize (i_header im)) cnt = Inr (map (own_byte im) [va..<va + cnt])"
proof -
  note L = shape [OF f]
  note D = layoutD [OF L, unfolded writable_view]
  let ?cs = "h_clusterSize (i_header im)"
  have tb: "in_tables (i_header im) va" by (rule D(8) [OF va(1)])
  have "cluster_of im va + ?cs \<le> length (fdata (rf_file (i_rf im)))" "length (fdata (rf_file (i_rf im))) < 2 ^ 63"
    using D(3) D(9) [OF tb va(2)] by (simp_all add: cluster_ok_def geometry_def)
  moreover have "va mod ?cs < ?cs" using D(4) by simp
  ultimately have "cluster_of im va + va mod ?cs < 2 ^ 63" by simp
  moreover note ch = chunk_bytes [OF L, unfolded writable_view, OF tb va(2) n]
  then have "length (take cnt (drop (cluster_of im va + va mod ?cs) (fdata (rf_file (i_rf im))))) = cnt" by simp
  ultimately show ?thesis using reads [OF f] ch unfolding file_at_def reads_ok_def by simp
qed

lemma chunk_map:
  assumes n: "cnt \<le> h_clusterSize (i_header im) - va mod h_clusterSize (i_header im)" "0 < h_clusterSize (i_header im)"
  shows "map (guest_byte im f) [va..<va + cnt] = map (if cluster_of im va = 0 then f else own_byte im) [va..<va + cnt]"
proof (rule map_cong [OF refl])
  fix x assume "x \<in> set [va..<va + cnt]"
  then have "va \<le> x" "x < va + cnt" by simp_all
  then have x: "x = va + (x - va)" "x - va < cnt" by simp_all
  have "cluster_of im x = cluster_of im va" 
    by (rule cluster_of_cong, subst x(1), rule same_cluster(1)) (use n x in simp_all)
  then show "guest_byte im f x = (if cluster_of im va = 0 then f else own_byte im) x" by (simp add: guest_byte_def)
qed

lemma read_chunk:
  assumes f: "fit im" and k: "backs im backing" and s: "va + m \<le> h_virtualDiskSizeBytes (i_header im)" "0 < m"
  defines "cnt \<equiv> min m (h_clusterSize (i_header im) - va mod h_clusterSize (i_header im))"
  shows "\<exists>im' backing'. (\<forall>n address readCount done buf. u64 (address + done) = va \<longrightarrow> done < readCount \<longrightarrow> readCount - done = m \<longrightarrow>
        read_loop (Suc n) os B address readCount im backing done buf
          = read_loop n os B address readCount im' backing' (done + cnt) (buf @ map (guest_byte im (below backing)) [va..<va + cnt]))
     \<and> fit im' \<and> same_view im im' \<and> backs im' backing' \<and> same_below (h_virtualDiskSizeBytes (i_header im)) backing backing'"
proof -
  let ?s = "h_virtualDiskSizeBytes (i_header im)"
  have va: "va < ?s" using s by simp
  obtain im1 where l: "fileOffsetRead os im va =
      Some (im1, Inr (if cluster_of im va = 0 then None else Some (cluster_of im va + va mod h_clusterSize (i_header im))))"
    "fit im1" "same_view im im1" "cluster_of im1 = cluster_of im" using locates [OF f va] by blast
  have h1: "i_header im1 = i_header im" using l(3) by (simp add: same_view_def)
  have k1: "backs im1 backing" using k by (cases backing) (simp_all add: backs_def h1)
  note D = layoutD [OF shape [OF f], unfolded writable_view]
  have cnt: "limitRangeCluster (i_rf im1) va m = cnt"
    using limitRange_mod [OF shape [OF l(2)], of va m] by (simp add: cnt_def h1)
  have n: "cnt \<le> h_clusterSize (i_header im) - va mod h_clusterSize (i_header im)" by (simp add: cnt_def)
  have v1: "map (guest_byte im g) [va..<va + cnt] = map (guest_byte im1 g) [va..<va + cnt]" for g
    using l(3) s(1) by (intro map_cong refl) (auto simp: same_view_def cnt_def)
  have m: "map (guest_byte im g) [va..<va + cnt] = map (if cluster_of im va = 0 then g else own_byte im1) [va..<va + cnt]" for g
    unfolding v1 using chunk_map [of cnt im1 va g] n D(4) by (simp only: h1 l(4))
  show ?thesis
  proof (cases "cluster_of im va = 0")
    case False
    have "file_at os (rf_file (i_rf im1)) (cluster_of im va + va mod h_clusterSize (i_header im)) cnt = Inr (map (own_byte im1) [va..<va + cnt])"
      using own_chunk [OF l(2), unfolded h1 l(4), OF va False n] .
    then have st: "read_loop (Suc n) os B address readCount im backing done buf
        = read_loop n os B address readCount im1 backing (done + cnt) (buf @ map (guest_byte im (below backing)) [va..<va + cnt])"
      if "u64 (address + done) = va" "done < readCount" "readCount - done = m" for n address readCount "done" buf
      using that by (simp add: l(1) cnt False m Let_def del: map_eq_conv)
    show ?thesis using st l(2,3) k1
      by (intro exI [of _ im1] exI [of _ backing] conjI allI impI) (simp_all add: same_below_refl del: read_loop.simps)
  next
    case True
    show ?thesis
    proof (cases backing)
      case None
      have "map (\<lambda>x. 0) [va..<va + cnt] = replicate cnt (0 :: byte)" by (simp add: map_replicate_const)
      then have st: "read_loop (Suc n) os B address readCount im backing done buf
          = read_loop n os B address readCount im1 backing (done + cnt) (buf @ map (guest_byte im (below backing)) [va..<va + cnt])"
        if "u64 (address + done) = va" "done < readCount" "readCount - done = m" for n address readCount "done" buf
        using that by (simp add: l(1) cnt True None m below_def Let_def del: map_eq_conv)
      show ?thesis using st l(2,3) k1
        by (intro exI [of _ im1] exI [of _ backing] conjI allI impI) (simp_all add: same_below_refl del: read_loop.simps)
    next
      case (Some b)
      have b: "good b" "?s \<le> extent b" using k Some by (simp_all add: backs_def)
      have "va + cnt \<le> extent b" using s(1) b(2) by (simp add: cnt_def)
      moreover have "int cnt \<le> maxAlloc" using n D(5) by (simp add: maxAlloc_def)
      ultimately obtain b' where r: "B b va cnt = Some (b', Inr (map (bytes b) [va..<va + cnt]))" "good b'"
        "extent b' = extent b" "\<forall>va < extent b. bytes b' va = bytes b va" using serves [OF b(1)] by blast
      have "same_below ?s (Some b) (Some b')" using r(4) b(2) by (simp add: same_below_def below_def)
      moreover have "read_loop (Suc n) os B address readCount im backing done buf
          = read_loop n os B address readCount im1 (Some b') (done + cnt) (buf @ map (guest_byte im (below backing)) [va..<va + cnt])"
        if "u64 (address + done) = va" "done < readCount" "readCount - done = m" for n address readCount "done" buf
        using that by (simp add: l(1) cnt True Some m below_def r(1) Let_def del: map_eq_conv)
      ultimately show ?thesis using l(2,3) r(2,3) b Some
        by (intro exI [of _ im1] exI [of _ "Some b'"] conjI allI impI) (simp_all add: backs_def h1 del: read_loop.simps)
    qed
  qed
qed

text \<open>Enough fuel reads the whole range.\<close>

lemma read_loop_ok:
  "fit im \<Longrightarrow> backs im backing \<Longrightarrow> address + readCount \<le> h_virtualDiskSizeBytes (i_header im) \<Longrightarrow> done \<le> readCount \<Longrightarrow> readCount - done < n \<Longrightarrow>
   \<exists>im' backing'. read_loop n os B address readCount im backing done buf
       = Some (im', backing', Inr (buf @ map (guest_byte im (below backing)) [address + done..<address + readCount]))
     \<and> fit im' \<and> same_view im im' \<and> backs im' backing' \<and> same_below (h_virtualDiskSizeBytes (i_header im)) backing backing'"
proof (induction n arbitrary: im backing "done" buf)
  case (Suc n)
  let ?s = "h_virtualDiskSizeBytes (i_header im)" and ?va = "address + done"
  show ?case
  proof (cases "done < readCount")
    case False
    then show ?thesis using Suc.prems same_view_refl same_below_refl by auto
  next
    case True
    note D = layoutD [OF shape [OF Suc.prems(1)], unfolded writable_view]
    define cnt where "cnt = min (readCount - done) (h_clusterSize (i_header im) - ?va mod h_clusterSize (i_header im))"
    have in_s: "?va + (readCount - done) \<le> ?s" "0 < readCount - done" using Suc.prems(3) True by simp_all
    have pos: "0 < cnt" "cnt \<le> readCount - done" using True D(4) by (simp_all add: cnt_def)
    have u: "u64 ?va = ?va" using D(7) in_s by (intro u64_small) simp
    obtain im1 backing1 where c: "read_loop (Suc n) os B address readCount im backing done buf
          = read_loop n os B address readCount im1 backing1 (done + cnt) (buf @ map (guest_byte im (below backing)) [?va..<?va + cnt])"
      "fit im1" "same_view im im1" "backs im1 backing1" "same_below ?s backing backing1"
      using read_chunk [OF Suc.prems(1,2) in_s] u True unfolding cnt_def by metis
    have h1: "i_header im1 = i_header im" using c(3) by (simp add: same_view_def)
    have step: "done + cnt \<le> readCount" "readCount - (done + cnt) < n" using pos True Suc.prems(5) by linarith+
    obtain im2 backing2 where r: "read_loop n os B address readCount im1 backing1 (done + cnt) (buf @ map (guest_byte im (below backing)) [?va..<?va + cnt])
        = Some (im2, backing2, Inr ((buf @ map (guest_byte im (below backing)) [?va..<?va + cnt])
            @ map (guest_byte im1 (below backing1)) [address + (done + cnt)..<address + readCount]))"
      "fit im2" "same_view im1 im2" "backs im2 backing2" "same_below ?s backing1 backing2"
      using Suc.IH [OF c(2,4) _ step, of "buf @ map (guest_byte im (below backing)) [?va..<?va + cnt]"] Suc.prems(3) unfolding h1 by blast
    have "guest_byte im1 (below backing1) x = guest_byte im (below backing) x" if "x < ?s" for x
      using c(3,5) that by (simp add: same_view_def same_below_def) (simp add: guest_byte_def)
    then have "map (guest_byte im1 (below backing1)) [address + (done + cnt)..<address + readCount]
        = map (guest_byte im (below backing)) [?va + cnt..<address + readCount]"
      using Suc.prems(3) by (simp add: add.assoc)
    moreover have "[?va..<address + readCount] = [?va..<?va + cnt] @ [?va + cnt..<address + readCount]"
      using pos upt_add_eq_append [of ?va "?va + cnt" "address + readCount - (?va + cnt)"] True by simp
    ultimately show ?thesis
      using c(1) r same_view_trans [OF c(3) r(3)] same_below_trans [OF c(5) r(5)] by auto
  qed
qed simp

end

end
