(* ===== verification/ImageChain.thy ===== *)
theory ImageChain
  imports ImageRead
begin

text \<open>
  Chains of images.  A backing image is opened read-only, so nothing in its cache is ever changed and nothing is
  written when a table leaves the cache.  A chain of such images is a source of bytes for the image above it.
\<close>

section \<open>Reading without writing\<close>

definition clean_tables_cached :: "pointerWriteBackCache \<Rightarrow> bool" where
  "clean_tables_cached pc \<longleftrightarrow> lru_ok (pc_cache pc) \<and> 0 < lru_capacity (pc_cache pc) \<and> (\<forall>k. \<not> dirty_in (lru_map (pc_cache pc)) k)"

lemma insert_clean:
  assumes i: "lru_ok c" and d: "\<And>k. \<not> dirty_in (lru_map c) k"
  shows "lru_insert wb s c k v = map_option (\<lambda>(_, c', er). (s, c', er)) (lru_insert wb' s' c k v)"
proof -
  have "\<not> vc_dirty (lru_vectors c ! ce_data x)" if "map_of (lru_store c) e = Some x" for e x
  proof -
    have "containsKey c e" using that by (simp add: containsKey_def)
    then obtain w where w: "lru_map c e = Some w" using lru_map_contains [OF i] by auto
    then have "lru_vectors c ! ce_data x = w" using lru_map_vec [OF i w] that by (simp add: lru_vec_def)
    then show ?thesis using d [of e] w by (simp add: dirty_in_def)
  qed
  then show ?thesis unfolding lru_insert_def by (auto simp: Let_def split: option.split sum.split prod.split)
qed

abbreviation marked :: "bool \<Rightarrow> QcowRawFile \<Rightarrow> QcowRawFile" where
  "marked b rf \<equiv> rf\<lparr>rf_readOnly := b\<rparr>"

lemma readL2_marked: "readL2Cluster os (marked b rf) a = map_prod (marked b) id (readL2Cluster os rf a)"
  by (auto simp: readL2Cluster_def readPointerCluster_def readPointerTable_def split: prod.splits sum.splits)

lemma load_marked:
  assumes "clean_tables_cached pc"
  shows "load_l2 os (marked b rf) pc l2 = map_option (map_prod (marked b) id) (load_l2 os rf pc l2)"
proof -
  have c: "lru_ok (pc_cache pc)" "\<And>k. \<not> dirty_in (lru_map (pc_cache pc)) k" using assms by (simp_all add: clean_tables_cached_def)
  obtain rf1 r where e: "readL2Cluster os rf l2 = (rf1, r)" by fastforce
  show ?thesis
  proof (cases r)
    case (Inr d)
    let ?wb = "evict_l2_read os" and ?v = "vectorCacheFromArray d"
    have "lru_insert ?wb (marked b rf1, pc_evicted pc) (pc_cache pc) l2 ?v
        = map_option (\<lambda>(_, c', er). ((marked b rf1, pc_evicted pc), c', er)) (lru_insert ?wb (rf1, pc_evicted pc) (pc_cache pc) l2 ?v)"
      by (rule insert_clean [OF c])
    moreover have "lru_insert ?wb (rf1, pc_evicted pc) (pc_cache pc) l2 ?v
        = map_option (\<lambda>(_, c', er). ((rf1, pc_evicted pc), c', er)) (lru_insert ?wb (rf1, pc_evicted pc) (pc_cache pc) l2 ?v)"
      by (rule insert_clean [OF c])
    ultimately show ?thesis
      using e Inr by (cases "lru_insert ?wb (rf1, pc_evicted pc) (pc_cache pc) l2 ?v") (auto simp: load_l2_def readL2_marked)
  qed (use e in \<open>auto simp: load_l2_def readL2_marked\<close>)
qed

lemma read_marked:
  assumes "clean_tables_cached pc"
  shows "readClusterAddress os (marked b rf) pc va = map_option (map_prod (marked b) id) (readClusterAddress os rf pc va)"
  unfolding readClusterAddress_def load_marked [OF assms] by (auto split: option.splits prod.splits)

lemma load_clean:
  assumes "clean_tables_cached pc" "load_l2 os rf pc l2 = Some (rf', pc', er)"
  shows "clean_tables_cached pc'"
proof (cases "containsKey (pc_cache pc) l2")
  case False
  have c: "lru_ok (pc_cache pc)" "0 < lru_capacity (pc_cache pc)" "\<And>k. \<not> dirty_in (lru_map (pc_cache pc)) k"
    using assms(1) by (simp_all add: clean_tables_cached_def)
  obtain rf1 r where e: "readL2Cluster os rf l2 = (rf1, r)" by fastforce
  show ?thesis
  proof (cases r)
    case (Inr d)
    let ?v = "vectorCacheFromArray d"
    obtain s c' er' where s: "lru_insert (evict_l2_read os) (rf1, pc_evicted pc) (pc_cache pc) l2 ?v = Some (s, c', er')" "lru_ok c'"
      "lru_capacity c' = lru_capacity (pc_cache pc)"
      and m: "s = (rf1, pc_evicted pc) \<and> er' = None \<and> lru_map c' = (lru_map (pc_cache pc))(l2 \<mapsto> ?v)
        \<or> (\<exists>e w. lru_map (pc_cache pc) e = Some w \<and>
           (if vc_dirty w \<and> snd (evict_l2_read os (rf1, pc_evicted pc) e w) \<noteq> None
            then s = fst (evict_l2_read os (rf1, pc_evicted pc) e w) \<and> er' \<noteq> None \<and> lru_map c' = (lru_map (pc_cache pc))(e := None)
            else s = (if vc_dirty w then fst (evict_l2_read os (rf1, pc_evicted pc) e w) else (rf1, pc_evicted pc)) \<and> er' = None
              \<and> lru_map c' = (lru_map (pc_cache pc))(e := None, l2 \<mapsto> ?v)))"
      using lru_insert_map [OF c(1,2), of "evict_l2_read os" "(rf1, pc_evicted pc)" l2 ?v] by blast
    have "\<not> dirty_in (lru_map c') k" for k using m c(3) [of k] by (auto simp: dirty_in_def vectorCacheFromArray_def split: if_splits)
    moreover have "pc_cache pc' = c'" using assms(2) False e Inr s(1) by (auto simp: load_l2_def split: prod.splits)
    ultimately show ?thesis using s(2,3) c(2) by (simp add: clean_tables_cached_def)
  qed (use assms False e in \<open>auto simp: load_l2_def\<close>)
qed (use assms in \<open>auto simp: load_l2_def\<close>)

lemma read_clean:
  assumes c: "clean_tables_cached pc" and r: "readClusterAddress os rf pc va = Some (rf', pc', r)"
  shows "clean_tables_cached pc'"
proof -
  obtain l2 where g: "vc_get (pc_l1 pc) (l1TableIndex (pc_header pc) va) = Some l2" using r by (auto simp: readClusterAddress_def split: option.splits)
  show ?thesis
  proof (cases "l2 = 0")
    case False
    obtain rf1 pc1 er where l: "load_l2 os rf pc l2 = Some (rf1, pc1, er)"
      using r g False by (cases "load_l2 os rf pc l2") (auto simp: readClusterAddress_def)
    have c1: "clean_tables_cached pc1" by (rule load_clean [OF c l])
    show ?thesis
    proof (cases er)
      case None
      obtain c2 d where q: "lru_get (pc_cache pc1) l2 = (c2, Some d)" "pc' = pc1\<lparr>pc_cache := c2\<rparr>"
        using r g False l None by (auto simp: readClusterAddress_def split: prod.splits option.splits)
      have "containsKey (pc_cache pc1) l2" using q(1) by (auto simp: lru_get_def containsKey_def split: option.splits)
      then obtain w where "lru_map (pc_cache pc1) l2 = Some w" using c1 lru_map_contains [of "pc_cache pc1" l2] by (auto simp: clean_tables_cached_def)
      then show ?thesis using lru_get_map [of "pc_cache pc1" l2 w] c1 q by (fastforce simp: clean_tables_cached_def)
    qed (use r g False l c1 in \<open>auto simp: readClusterAddress_def\<close>)
  qed (use c r g in \<open>auto simp: readClusterAddress_def\<close>)
qed

section \<open>Images that are only read\<close>

definition clean_ok :: "image \<Rightarrow> bool" where
  "clean_ok im \<longleftrightarrow> layout_ok (writable im) \<and> clean_tables_cached (i_pt im)"

lemma clean_locates:
  assumes c: "clean_ok im" and va: "va < h_virtualDiskSizeBytes (i_header im)" and os: "reads_ok os" "writes_ok os"
  shows "\<exists>im'. fileOffsetRead os im va =
          Some (im', Inr (if cluster_of im va = 0 then None else Some (cluster_of im va + va mod h_clusterSize (i_header im))))
        \<and> clean_ok im' \<and> same_view im im' \<and> cluster_of im' = cluster_of im"
proof -
  have L: "layout_ok (writable im)" and cl: "clean_tables_cached (i_pt im)" using c by (simp_all add: clean_ok_def)
  let ?b = "rf_readOnly (i_rf im)"
  obtain im1 where r: "fileOffsetRead os (writable im) va =
      Some (im1, Inr (if cluster_of im va = 0 then None else Some (cluster_of im va + va mod h_clusterSize (i_header im))))" "read_step (writable im) im1"
    using fileOffsetRead_ok [OF L _ os, of va] va by auto
  note V = read_step_view [OF r(2) L, unfolded writable_view] and H = read_step_header [OF r(2), unfolded writable_view]
  have rf: "i_rf im = marked ?b (i_rf (writable im))" by (simp add: writable_def)
  have pt: "i_pt (writable im) = i_pt im" by (simp add: writable_def)
  obtain rf1 pt1 x where a: "readClusterAddress os (i_rf (writable im)) (i_pt im) va = Some (rf1, pt1, x)" "im1 = (writable im)\<lparr>i_rf := rf1, i_pt := pt1\<rparr>"
    using r(1) va by (cases "readClusterAddress os (i_rf (writable im)) (i_pt im) va") (auto simp: fileOffsetRead_def pt)
  have b: "readClusterAddress os (i_rf im) (i_pt im) va = Some (marked ?b rf1, pt1, x)"
    by (subst rf, subst read_marked [OF cl]) (simp add: a(1))
  define im' where "im' = im\<lparr>i_rf := marked ?b rf1, i_pt := pt1\<rparr>"
  have w: "writable im' = im1"
  proof -
    have "\<not> rf_readOnly rf1" using layoutD(3) [OF V(1)] a(2) by (simp add: geometry_def)
    then show ?thesis by (simp add: im'_def a(2) writable_def)
  qed
  have off: "clusterOffset (marked ?b rf1) va = clusterOffset rf1 va" by (simp add: clusterOffset_def)
  have "fileOffsetRead os im va = Some (im', Inr (if cluster_of im va = 0 then None else Some (cluster_of im va + va mod h_clusterSize (i_header im))))"
    using r(1) va by (cases x) (auto simp: fileOffsetRead_def pt a b off im'_def split: qerror.splits if_splits)
  moreover have "clean_ok im'" using V(1) read_clean [OF cl a(1)] by (simp add: clean_ok_def w) (simp add: im'_def)
  moreover have "cluster_of im' = cluster_of im" using V(2) writable_view(3) [of im'] by (simp only: w)
  moreover have "same_view (writable im) (writable im')" unfolding w by (rule read_step_same [OF r(2) L])
  then have "same_view im im'" by (simp add: same_view_def)
  ultimately show ?thesis by blast
qed

fun chain_byte :: "image list \<Rightarrow> nat \<Rightarrow> byte" where
  "chain_byte [] va = 0"
| "chain_byte (im # ims) va = guest_byte im (chain_byte ims) va"

definition chain_size :: "image list \<Rightarrow> nat" where
  "chain_size ims = (case ims of [] \<Rightarrow> 0 | im # _ \<Rightarrow> h_virtualDiskSizeBytes (i_header im))"

text \<open>No image of the chain is shorter than the image above it.\<close>

fun stacked :: "image list \<Rightarrow> bool" where
  "stacked [] = True"
| "stacked (im # ims) \<longleftrightarrow> (ims = [] \<or> h_virtualDiskSizeBytes (i_header im) \<le> chain_size ims) \<and> stacked ims"

definition chain_ok :: "os_calls \<Rightarrow> nat \<Rightarrow> image list \<Rightarrow> bool" where
  "chain_ok os n ims \<longleftrightarrow> reads_ok os \<and> writes_ok os \<and> ims \<noteq> [] \<and> length ims \<le> n \<and> (\<forall>im \<in> set ims. clean_ok im) \<and> stacked ims"

lemma limit_inside: "a + n \<le> h_virtualDiskSizeBytes h \<Longrightarrow> h_virtualDiskSizeBytes h < 2 ^ 63 \<Longrightarrow> limitRangeFile h a n = n"
  by (auto simp: limitRangeFile_def checkAddUint64Boundaries_def Let_def)

lemma clean_layer:
  assumes "byte_source B good bytes extent"
  shows "layered_read B good bytes extent os (\<lambda>im. clean_ok im \<and> reads_ok os \<and> writes_ok os)"
proof (rule layered_read.intro [OF assms], unfold_locales)
  show "layout_ok (writable im)" "reads_ok os" if "clean_ok im \<and> reads_ok os \<and> writes_ok os" for im
    using that by (simp_all add: clean_ok_def)
  show "\<exists>im'. fileOffsetRead os im va =
        Some (im', Inr (if cluster_of im va = 0 then None else Some (cluster_of im va + va mod h_clusterSize (i_header im))))
      \<and> (clean_ok im' \<and> reads_ok os \<and> writes_ok os) \<and> same_view im im' \<and> cluster_of im' = cluster_of im"
    if "clean_ok im \<and> reads_ok os \<and> writes_ok os" "va < h_virtualDiskSizeBytes (i_header im)" for im va
    using clean_locates [OF _ that(2), of os] that(1) by blast
qed

text \<open>A backing chain as the loop sees it.\<close>

definition rest :: "image list \<Rightarrow> image list option" where
  "rest bs = (if bs = [] then None else Some bs)"

lemma chain_byte_cong:
  "same_view im im' \<Longrightarrow> va < h_virtualDiskSizeBytes (i_header im) \<Longrightarrow> f' va = f va \<Longrightarrow> guest_byte im' f' va = guest_byte im f va"
  by (simp add: same_view_def) (simp add: guest_byte_def)

context byte_source
begin

lemma below_simps: "below None = (\<lambda>_. 0)" "below (Some b) = bytes b"
  by (simp_all add: below_def)

end

lemma chain_source: "byte_source (read_at n os) (chain_ok os n) chain_byte chain_size"
proof (induction n)
  case 0
  show ?case by unfold_locales (simp add: chain_ok_def)
next
  case (Suc n)
  note L = clean_layer [OF Suc, of os]
  note below = byte_source.below_simps [OF Suc] and backs = byte_source.backs_def [OF Suc] and same = byte_source.same_below_def [OF Suc]
  show ?case
  proof unfold_locales
    fix ims a m
    assume c: "chain_ok os (Suc n) ims" and a: "a + m \<le> chain_size ims" and fits: "int m \<le> maxAlloc"
    then obtain im bs where ims: "ims = im # bs" by (auto simp: chain_ok_def neq_Nil_conv)
    have f: "clean_ok im \<and> reads_ok os \<and> writes_ok os" and s: "a + m \<le> h_virtualDiskSizeBytes (i_header im)"
      using c a by (simp_all add: ims chain_ok_def chain_size_def)
    have k: "byte_source.backs (chain_ok os n) chain_size im (rest bs)"
      using c by (auto simp: backs rest_def ims chain_ok_def)
    have lim: "limitRangeFile (i_header im) a m = m"
      using s layoutD(7) [of "writable im"] f by (intro limit_inside) (simp_all add: clean_ok_def)
    have b: "byte_source.below chain_byte (rest bs) = chain_byte bs" by (auto simp: below rest_def fun_eq_iff)
    obtain im' bk where r: "read_loop (Suc m) os (read_at n os) a m im (rest bs) 0 []
        = Some (im', bk, Inr (map (guest_byte im (chain_byte bs)) [a..<a + m]))"
      "clean_ok im'" "same_view im im'" "byte_source.backs (chain_ok os n) chain_size im' bk"
      "byte_source.same_below chain_byte (h_virtualDiskSizeBytes (i_header im)) (rest bs) bk"
      using layered_read.read_loop_ok [OF L f k s, of 0 "Suc m" "[]"] by (auto simp: b)
    define bs' where "bs' = (case bk of None \<Rightarrow> [] | Some x \<Rightarrow> x)"
    have h: "i_header im' = i_header im" using r(3) by (simp add: same_view_def)
    have bk: "bk = rest bs'" "bs' = [] \<longleftrightarrow> bs = []"
      using r(4,5) by (auto simp: bs'_def rest_def backs same chain_ok_def split: option.splits if_splits)
    have "read_at (Suc n) os ims a m = Some (im' # bs', Inr (map (chain_byte ims) [a..<a + m]))"
      using r(1) lim fits by (simp add: ims rest_def bs'_def del: read_loop.simps)
    moreover have "bs' = [] \<or> chain_ok os n bs' \<and> h_virtualDiskSizeBytes (i_header im) \<le> chain_size bs'"
      using r(4) by (auto simp: bk(1) backs rest_def h split: if_splits)
    then have "chain_ok os (Suc n) (im' # bs')" using r(2) f by (auto simp: chain_ok_def h)
    moreover have "chain_byte (im' # bs') va = chain_byte ims va" if "va < chain_size ims" for va
    proof -
      have va: "va < h_virtualDiskSizeBytes (i_header im)" using that by (simp add: ims chain_size_def)
      then have "chain_byte bs' va = chain_byte bs va"
        using r(5) bk by (auto simp: same below rest_def split: if_splits)
      then show ?thesis using chain_byte_cong [OF r(3) va] by (simp add: ims)
    qed
    ultimately show "\<exists>b'. read_at (Suc n) os ims a m = Some (b', Inr (map (chain_byte ims) [a..<a + m])) \<and> chain_ok os (Suc n) b'
        \<and> chain_size b' = chain_size ims \<and> (\<forall>va < chain_size ims. chain_byte b' va = chain_byte ims va)"
      by (intro exI [of _ "im' # bs'"]) (simp add: chain_size_def ims h)
  qed
qed

interpretation chain: byte_source "read_at n os" "chain_ok os n" chain_byte chain_size for n os
  by (rule chain_source)

interpretation chain: layered_read "read_at n os" "chain_ok os n" chain_byte chain_size os "\<lambda>im. clean_ok im \<and> reads_ok os \<and> writes_ok os" for n os
  by (rule clean_layer [OF chain_source])

end
