(* ===== verification/ImageInv.thy ===== *)
theory ImageInv
  imports ImageChain
begin

text \<open>
  The invariant of an image that is open for writing: the clusters of its pointer tables, of its reference counts and
  of its guest data are different clusters in use, and no two guest clusters share one.  It survives whatever writes
  only into blocks of counts, into tables that are not the file's own, and into clusters that were not in use.
\<close>

unbundle bit_operations_syntax

definition img_inv :: "nat set \<Rightarrow> image \<Rightarrow> bool" where
  "img_inv U im \<longleftrightarrow> core_ok U im \<and> layout_ok im \<and> pt_used (i_rf im) (i_pt im) \<subseteq> U \<and> pt_used (i_rf im) (i_pt im) \<inter> rc_used (i_rc im) = {}
     \<and> (\<forall>va. in_tables (i_header im) va \<longrightarrow> cluster_of im va \<noteq> 0 \<longrightarrow> cluster_of im va \<in> U - rc_used (i_rc im))
     \<and> (\<forall>va va'. in_tables (i_header im) va \<longrightarrow> in_tables (i_header im) va' \<longrightarrow> cluster_of im va \<noteq> 0 \<longrightarrow>
          cluster_of im va' = cluster_of im va \<longrightarrow> va' div h_clusterSize (i_header im) = va div h_clusterSize (i_header im))"

lemma img_invD:
  assumes "img_inv U im"
  shows "core_ok U im" "layout_ok im" "pt_used (i_rf im) (i_pt im) \<subseteq> U" "pt_used (i_rf im) (i_pt im) \<inter> rc_used (i_rc im) = {}"
    "\<And>va. in_tables (i_header im) va \<Longrightarrow> cluster_of im va \<noteq> 0 \<Longrightarrow> cluster_of im va \<in> U - rc_used (i_rc im)"
    "\<And>va va'. in_tables (i_header im) va \<Longrightarrow> in_tables (i_header im) va' \<Longrightarrow> cluster_of im va \<noteq> 0 \<Longrightarrow>
       cluster_of im va' = cluster_of im va \<Longrightarrow> va' div h_clusterSize (i_header im) = va div h_clusterSize (i_header im)"
  using assms unfolding img_inv_def by blast+

lemma img_invI:
  assumes "core_ok U im" "layout_ok im" "pt_used (i_rf im) (i_pt im) \<subseteq> U" "pt_used (i_rf im) (i_pt im) \<inter> rc_used (i_rc im) = {}"
    "\<And>va. in_tables (i_header im) va \<Longrightarrow> cluster_of im va \<noteq> 0 \<Longrightarrow> cluster_of im va \<in> U - rc_used (i_rc im)"
    "\<And>va va'. in_tables (i_header im) va \<Longrightarrow> in_tables (i_header im) va' \<Longrightarrow> cluster_of im va \<noteq> 0 \<Longrightarrow>
       cluster_of im va' = cluster_of im va \<Longrightarrow> va' div h_clusterSize (i_header im) = va div h_clusterSize (i_header im)"
  shows "img_inv U im"
  using assms unfolding img_inv_def by blast

lemma core_keeps:
  assumes c: "core_ok U im" and h: "i_header im' = i_header im" "i_rc im' = i_rc im" "pool_of im' = pool_of im"
    and k: "keeps_outside (i_header im) K (i_rf im) (i_rf im')" and g: "geometry (i_header im) (i_rf im')"
    and l: "length (fdata (rf_file (i_rf im'))) = length (fdata (rf_file (i_rf im)))"
  shows "core_ok U im'"
proof -
  note C = core_okD [OF c]
  have m: "rf_clusterMask (i_rf im') = rf_clusterMask (i_rf im)" using k by (simp add: keeps_outside_def)
  show ?thesis using C(3,5) g rc_ok_keeps [OF C(2) k] pool_ok_length [OF C(4) l m] by (simp add: core_ok_def h l)
qed

section \<open>Reading\<close>

lemma read_step_inv:
  assumes i: "img_inv U im" and s: "read_step im im'"
  shows "img_inv U im'"
proof -
  note I = img_invD [OF i] and H = read_step_header [OF s]
  note V = read_step_view [OF s I(2)]
  have g: "geometry (i_header im) (i_rf im')" using layoutD(3) [OF V(1)] by (simp add: H)
  have k: "keeps_outside (i_header im) (pt_used (i_rf im) (i_pt im)) (i_rf im) (i_rf im')"
    and u: "pt_used (i_rf im') (i_pt im') \<subseteq> pt_used (i_rf im) (i_pt im)"
    and l: "length (fdata (rf_file (i_rf im'))) = length (fdata (rf_file (i_rf im)))"
    using s unfolding read_step_def by blast+
  show ?thesis
  proof (rule img_invI, unfold H V(2))
    show "core_ok U im'" by (rule core_keeps [OF I(1) H(1-3) k g l])
  qed (use u V(1) I in blast)+
qed

section \<open>Writing elsewhere\<close>

lemma pt_frame:
  assumes i: "pt_inv rf pc" and k: "keeps_outside (pc_header pc) K rf rf'" "K \<inter> pt_used rf pc = {}"
    and d: "geometry (pc_header pc) rf'" "disk_l1 (pc_header pc) rf' = disk_l1 (pc_header pc) rf"
  shows "pt_inv rf' pc" "pt_image rf' pc = pt_image rf pc" "pt_used rf' pc = pt_used rf pc"
proof -
  let ?h = "pc_header pc" and ?L = "vc_data (pc_l1 pc)" and ?M = "lru_map (pc_cache pc)"
  have t: "tables_ok ?h rf ?L ?M (pc_evicted pc)" using i by (simp add: pt_inv_def)
  show "pt_used rf' pc = pt_used rf pc" by (simp add: pt_used_def d)
  have raw: "raw_l2 ?h rf' a = raw_l2 ?h rf a" if "cluster_ok ?h rf a" "a \<in> pt_used rf pc" for a
    using that k by (auto simp: keeps_outside_def cluster_ok_def)
  then have fr: "cluster_ok ?h rf' a" "disk_l2 ?h rf' a = disk_l2 ?h rf a" "supported ?h rf' a = supported ?h rf a"
    if "cluster_ok ?h rf a" "a \<in> pt_used rf pc" for a
    using that keeps_cluster_ok [OF k(1)] by (simp_all add: disk_l2_def supported_def)
  have L: "a \<in> pt_used rf pc" if "a \<in> set ?L" for a using that by (simp add: pt_used_def)
  have M: "a \<in> pt_used rf pc" if "?M a = Some v" for a v using that by (auto simp: pt_used_def)
  have D: "a \<in> pt_used rf pc" if "a \<in> set (disk_l1 ?h rf)" for a using that by (simp add: pt_used_def)
  have "tables_ok ?h rf' ?L ?M (pc_evicted pc)"
  proof (rule tables_okI)
    show "?L ! x = 0" if "x < length ?L" "y < length ?L" "x \<noteq> y" "?L ! x = ?L ! y" for x y by (rule tables_okD(4) [OF t that])
    show "cluster_ok ?h rf' a \<and> (supported ?h rf' a \<or> dirty_in ?M a)" if "a \<in> set ?L" "a \<noteq> 0" for a
      using fr [OF tables_okD(5) [OF t that] L [OF that(1)]] tables_okD(6) [OF t that] by blast
    show "cluster_ok ?h rf' a" if "a \<in> set (disk_l1 ?h rf')" "a \<noteq> 0" for a
      using that fr(1) tables_okD(7) [OF t] D unfolding d(2) by blast
    show "cluster_ok ?h rf' a \<and> vector_ok ?h rf' a v" if m: "?M a = Some v" for a v
      using tables_okD(9) [OF t m] fr [OF tables_okD(8) [OF t m] M [OF m]] by (simp add: vector_ok_def d(2))
  qed (use tables_okD [OF t] d in simp_all)
  then show "pt_inv rf' pc" using i d(2) by (simp add: pt_inv_def)
  show "pt_image rf' pc = pt_image rf pc"
    using fr(2) tables_okD(5) [OF t] L by (auto simp: pt_image_def mem_image_def l2_table_def split: option.split)
qed

lemma img_step_inv:
  assumes i: "img_inv U im" and s: "img_step U im U' im'"
  shows "img_inv U' im'" "cluster_of im' = cluster_of im" "i_pt im' = i_pt im" "i_header im' = i_header im"
    "\<And>a. a \<in> U \<Longrightarrow> a \<notin> rc_used (i_rc im) \<Longrightarrow> cluster_ok (i_header im) (i_rf im) a \<Longrightarrow>
       cluster_bytes (i_header im) (i_rf im') a = cluster_bytes (i_header im) (i_rf im) a \<and> a \<in> U' \<and> a \<notin> rc_used (i_rc im')"
    "same_view im im'" "pt_used (i_rf im') (i_pt im') = pt_used (i_rf im) (i_pt im)"
    "pt_image (i_rf im') (i_pt im') = pt_image (i_rf im) (i_pt im)"
proof -
  note I = img_invD [OF i] and S = s [unfolded img_step_def] and D = layoutD [OF img_invD(2) [OF i]]
  show pt: "i_pt im' = i_pt im" and h: "i_header im' = i_header im" using S by simp_all
  have k: "keeps_outside (i_header im) (rc_used (i_rc im) \<union> - U) (i_rf im) (i_rf im')" using S by simp
  have g: "geometry (i_header im) (i_rf im')" using S core_okD(1) [of U' im'] by simp
  have "(rc_used (i_rc im) \<union> - U) \<inter> pt_used (i_rf im) (i_pt im) = {}" using I(3,4) by auto
  note F = pt_frame [OF D(1), unfolded D(2), OF k this g] 
  have dl: "disk_l1 (i_header im) (i_rf im') = disk_l1 (i_header im) (i_rf im)" using S by simp
  show c: "cluster_of im' = cluster_of im" using F(2) [OF dl] by (simp add: cluster_of_def h pt fun_eq_iff)
  show u: "pt_used (i_rf im') (i_pt im') = pt_used (i_rf im) (i_pt im)" using F(3) [OF dl] by (simp add: pt)
  show "pt_image (i_rf im') (i_pt im') = pt_image (i_rf im) (i_pt im)" using F(2) [OF dl] by (simp add: pt)
  show b: "cluster_bytes (i_header im) (i_rf im') a = cluster_bytes (i_header im) (i_rf im) a \<and> a \<in> U' \<and> a \<notin> rc_used (i_rc im')"
    if "a \<in> U" "a \<notin> rc_used (i_rc im)" "cluster_ok (i_header im) (i_rf im) a" for a
    using keeps_bytes [OF k that(3) _ D(3)] that S by auto
  have m: "rf_clusterMask (i_rf im') = rf_clusterMask (i_rf im)" using k by (simp add: keeps_outside_def)
  have ly: "layout_ok im'"
    using I(2) F(1) [OF dl] F(3) [OF dl] m keeps_cluster_ok [OF k] unfolding layout_ok_def c h pt by auto
  have disj: "rc_used (i_rc im') \<inter> U \<subseteq> rc_used (i_rc im)" "U \<subseteq> U'" using S by auto
  show "img_inv U' im'"
  proof (rule img_invI, unfold c h u)
    show "core_ok U' im'" using S by simp
  qed (use ly I disj in blast)+
  have "own_byte im' va = own_byte im va" if "in_tables (i_header im) va" "cluster_of im va \<noteq> 0" for va
    using b [of "cluster_of im va"] I(5) [OF that] D(9) [OF that] by (simp add: own_byte_def c h)
  then show "same_view im im'" using D(8) by (simp add: same_view_def h guest_byte_def c)
qed

end
