(* ===== verification/ImageWrite.thy ===== *)
theory ImageWrite
  imports ImageInv
begin

text \<open>
  Writing of guest bytes (\<open>WriteAt\<close>): finding or making the cluster of an address changes no guest byte, because a new
  cluster starts with the bytes of the backing image, and writing into it changes the bytes of the request only.
\<close>

unbundle bit_operations_syntax

section \<open>Clusters for the tables\<close>

definition held :: "os_calls \<Rightarrow> nat \<Rightarrow> ImageHeader \<Rightarrow> cluster_pool \<Rightarrow> QcowRawFile \<Rightarrow> nat set \<Rightarrow> bool" where
  "held os m h s rf U \<longleftrightarrow> pool_ok h s rf U \<and> writes_ok os \<and> cp_max s = m \<and> length (fdata (rf_file rf)) \<le> m + h_clusterSize h"

lemma init_ok_None: "init_ok h None"
  by (simp add: init_ok_def init_bytes_def)

interpretation hs: steady_source "getNewCluster os None" "held os m" for os m
proof
  fix h s rf U s' rf' n
  assume a: "held os m h s rf U" and o: "getNewCluster os None s rf = (s', rf', Inr n)" and g: "geometry h rf"
  note N = getNewCluster_ok [OF _ g init_ok_None o, of U]
  show "same_but h rf rf' n \<and> cluster_ok h rf' n \<and> n \<notin> U \<and> n AND L1TableOffsetMask = n \<and> held os m h s' rf' (insert n U)"
    using N a by (auto simp: held_def)
next
  fix h s rf U s' rf' er
  assume a: "held os m h s rf U" and o: "getNewCluster os None s rf = (s', rf', Inl er)" and g: "geometry h rf"
  have p: "pool_ok h s rf U" and w: "writes_ok os" using a by (simp_all add: held_def)
  show "\<exists>n. n \<notin> U \<and> same_but h rf rf' n" by (rule qc.refused [OF p o g])
  obtain q where "rf' = rf\<lparr>rf_file := (rf_file rf)\<lparr>fpos := q\<rparr>\<rparr>" "s' = s"
    using getNewCluster_refused [OF w p g init_ok_None o] by blast
  then show "held os m h s' rf' U" using a by (auto simp: held_def pool_ok_def)
qed

lemma core_held: "core_ok U im \<Longrightarrow> writes_ok os \<Longrightarrow> held os (rc_maxValidClusterOffset (i_rc im)) (i_header im) (pool_of im) (i_rf im) U"
  by (simp add: core_ok_def held_def pool_of_def)

section \<open>What a step may change\<close>

text \<open>Every step of a write keeps the invariant, for more clusters in use, and shows the guest what it saw before.\<close>

definition guest_step :: "nat set \<Rightarrow> image \<Rightarrow> nat set \<Rightarrow> image \<Rightarrow> bool" where
  "guest_step U im U' im' \<longleftrightarrow> img_inv U' im' \<and> U \<subseteq> U' \<and> same_view im im' \<and> i_readOnly im' = i_readOnly im"

lemma guest_refl: "img_inv U im \<Longrightarrow> guest_step U im U im"
  by (simp add: guest_step_def same_view_refl)

lemma guest_trans: "guest_step U im U1 im1 \<Longrightarrow> guest_step U1 im1 U2 im2 \<Longrightarrow> guest_step U im U2 im2"
  using same_view_trans [of im im1 im2] by (auto simp: guest_step_def)

lemma guest_read:
  assumes "img_inv U im" "read_step im im'"
  shows "guest_step U im U im'"
  unfolding guest_step_def
  by (intro conjI subset_refl read_step_inv [OF assms] read_step_same [OF assms(2) img_invD(2) [OF assms(1)]] read_step_header(4) [OF assms(2)])

lemma guest_img:
  assumes "img_inv U im" "img_step U im U' im'"
  shows "guest_step U im U' im'"
proof -
  have "U \<subseteq> U'" "i_readOnly im' = i_readOnly im" using assms(2) by (simp_all add: img_step_def)
  then show ?thesis using img_step_inv(1,6) [OF assms] by (simp add: guest_step_def)
qed

lemma unref_irrelevant [simp]:
  "img_inv U (im\<lparr>i_unrefClusters := x\<rparr>) = img_inv U im" "same_view im0 (im\<lparr>i_unrefClusters := x\<rparr>) = same_view im0 im"
  "cluster_of (im\<lparr>i_unrefClusters := x\<rparr>) = cluster_of im" "refcount_fuel (im\<lparr>i_unrefClusters := x\<rparr>) = refcount_fuel im"
  by (simp_all add: img_inv_def core_ok_def layout_ok_def pool_of_def cluster_of_def same_view_def guest_byte_def own_byte_def refcount_fuel_def fun_eq_iff)

lemma guest_unref: "guest_step U im U' (im'\<lparr>i_unrefClusters := x\<rparr>) = guest_step U im U' im'"
  by (simp add: guest_step_def)

lemma set_refcounts_ok:
  assumes os: "writes_ok os" "reads_ok os"
  shows "img_inv U im \<Longrightarrow> fst ` set xs \<subseteq> U \<Longrightarrow>
    \<exists>im' er U'. set_refcounts os im xs = Some (im', er) \<and> guest_step U im U' im' \<and> cluster_of im' = cluster_of im"
proof (induction xs arbitrary: im U)
  case Nil
  then show ?case using guest_refl by auto
next
  case (Cons x xs)
  obtain a c where x: "x = (a, c)" by (cases x)
  obtain im1 r U1 where s: "image_setClusterRefcount (refcount_fuel im) os im a c = Some (im1, r)" "img_step U im U1 im1"
    using image_setClusterRefcount_ok [OF img_invD(1) [OF Cons.prems(1)] _ os, of a c] Cons.prems(2) x by auto
  note G = guest_img [OF Cons.prems(1) s(2)] and V = img_step_inv [OF Cons.prems(1) s(2)]
  show ?case
  proof (cases r)
    case (Inr u)
    let ?im = "im1\<lparr>i_unrefClusters := i_unrefClusters im1 @ u\<rparr>"
    have "img_inv U1 ?im" "fst ` set xs \<subseteq> U1" using G Cons.prems(2) by (auto simp: guest_step_def)
    then obtain im2 er U2 where t: "set_refcounts os ?im xs = Some (im2, er)" "guest_step U1 ?im U2 im2" "cluster_of im2 = cluster_of ?im"
      using Cons.IH by blast
    have "guest_step U im U1 ?im" using G by (simp add: guest_unref)
    then have "guest_step U im U2 im2" using guest_trans t(2) by blast
    moreover have "cluster_of im2 = cluster_of im" using t(3) V(2) by simp
    ultimately show ?thesis using s(1) t(1) Inr x by auto
  qed (use s G V(2) x in auto)
qed

section \<open>Tables change\<close>

lemma table_step:
  assumes i: "img_inv U im" and h: "i_header im' = i_header im" "i_rc im' = i_rc im" and c: "core_ok U' im'" and U: "U \<subseteq> U'"
    and p: "pt_inv (i_rf im') (i_pt im')" "pc_header (i_pt im') = i_header im"
    and k: "keeps_outside (i_header im) K (i_rf im) (i_rf im')"
    and d: "\<And>va. in_tables (i_header im) va \<Longrightarrow> cluster_of im va \<noteq> 0 \<Longrightarrow> cluster_of im va \<notin> K \<and> cluster_of im va \<notin> pt_used (i_rf im') (i_pt im')"
    and u: "pt_used (i_rf im') (i_pt im') \<subseteq> U'" "pt_used (i_rf im') (i_pt im') \<inter> rc_used (i_rc im) = {}"
    and n: "\<And>va. in_tables (i_header im) va \<Longrightarrow> cluster_of im' va \<noteq> cluster_of im va \<Longrightarrow>
      va div h_clusterSize (i_header im) = q \<and> cluster_of im' va \<in> U' \<and> cluster_of im' va \<notin> rc_used (i_rc im)
      \<and> cluster_of im' va \<notin> pt_used (i_rf im') (i_pt im') \<and> cluster_ok (i_header im) (i_rf im') (cluster_of im' va)
      \<and> (\<forall>va'. in_tables (i_header im) va' \<longrightarrow> cluster_of im va' \<noteq> cluster_of im' va)"
  shows "img_inv U' im'" "\<And>va. in_tables (i_header im) va \<Longrightarrow> cluster_of im va \<noteq> 0 \<Longrightarrow> cluster_of im' va = cluster_of im va \<Longrightarrow> own_byte im' va = own_byte im va"
proof -
  note I = img_invD [OF i] and D = layoutD [OF img_invD(2) [OF i]]
  let ?in = "in_tables (i_header im)"
  have m: "rf_clusterMask (i_rf im') = rf_clusterMask (i_rf im)" using k by (simp add: keeps_outside_def)
  have "cluster_ok (i_header im) (i_rf im') (cluster_of im' va) \<and> cluster_of im' va \<notin> pt_used (i_rf im') (i_pt im')"
    if "?in va" "cluster_of im' va \<noteq> 0" for va
    using n [OF that(1)] d [OF that(1)] D(9) [OF that(1)] keeps_cluster_ok [OF k] that(2) by (cases "cluster_of im' va = cluster_of im va") auto
  then have "layout_ok im'" using I(2) p m unfolding layout_ok_def h by simp
  moreover have "cluster_of im' va \<in> U' - rc_used (i_rc im)" if "?in va" "cluster_of im' va \<noteq> 0" for va
    using n [OF that(1)] I(5) [OF that(1)] that(2) U by (cases "cluster_of im' va = cluster_of im va") auto
  moreover have "va' div h_clusterSize (i_header im) = va div h_clusterSize (i_header im)"
    if a: "?in va" "?in va'" "cluster_of im' va \<noteq> 0" "cluster_of im' va' = cluster_of im' va" for va va'
  proof (cases "cluster_of im' va = cluster_of im va")
    case True
    have "cluster_of im' va' = cluster_of im va'"
    proof (rule ccontr)
      assume "cluster_of im' va' \<noteq> cluster_of im va'"
      then have "cluster_of im va \<noteq> cluster_of im' va'" using n [OF a(2)] a(1) by blast
      then show False using True a(4) by simp
    qed
    then have "cluster_of im va' = cluster_of im va" "cluster_of im va \<noteq> 0" using True a(3,4) by metis+
    then show ?thesis using I(6) [OF a(1,2)] by blast
  next
    case False
    have "cluster_of im va' \<noteq> cluster_of im' va" using n [OF a(1) False] a(2) by blast
    then have "cluster_of im' va' \<noteq> cluster_of im va'" using a(4) by simp
    then show ?thesis using n [OF a(1) False] n [OF a(2)] by simp
  qed
  ultimately show "img_inv U' im'" using c u unfolding img_inv_def h by blast
  show "own_byte im' va = own_byte im va" if "?in va" "cluster_of im va \<noteq> 0" "cluster_of im' va = cluster_of im va" for va
    using keeps_bytes [OF k D(9) [OF that(1,2)] _ D(3)] d [OF that(1,2)] that(3) by (simp add: own_byte_def h)
qed

lemma pt_geometry: "pt_inv rf pc \<Longrightarrow> geometry (pc_header pc) rf"
  using tables_okD(1) by (auto simp: pt_inv_def)

lemma entry_zeros:
  assumes "i < length T" "T ! i = None" "0 < h_l2Size h"
  shows "entry h (T[i := Some (replicate (h_l2Size h) 0)]) va = entry h T va"
  using assms by (cases "l1TableIndex h va = i") (simp_all add: entry_def l2TableIndex_def)

lemma add_table_ok:
  assumes i: "img_inv U im" and va: "in_tables (i_header im) va" "pt_image (i_rf im) (i_pt im) ! l1TableIndex (i_header im) va = None"
    and os: "writes_ok os" and n: "n \<in> U" "n \<notin> pt_used (i_rf im) (i_pt im)" "n \<notin> rc_used (i_rc im)"
      "cluster_ok (i_header im) (i_rf im) n" "n AND L1TableOffsetMask = n" "\<And>va. in_tables (i_header im) va \<Longrightarrow> cluster_of im va \<noteq> n"
  shows "\<exists>rf' pt' w. addNewPointerCluster os (i_rf im) (i_pt im) va n = Some (rf', pt', None)
     \<and> guest_step U im U (im\<lparr>i_rf := rf', i_pt := pt'\<rparr>) \<and> cluster_of (im\<lparr>i_rf := rf', i_pt := pt'\<rparr>) = cluster_of im
     \<and> lru_map (pc_cache pt') (vc_data (pc_l1 pt') ! l1TableIndex (i_header im) va) = Some w"
proof -
  note I = img_invD [OF i] and D = layoutD [OF img_invD(2) [OF i]]
  let ?h = "i_header im" and ?i = "l1TableIndex (i_header im) va"
  have t: "?i < h_numL2Clusters ?h" using va(1) by (simp add: in_tables_def)
  have len: "?i < length (pt_image (i_rf im) (i_pt im))" "?i < length (vc_data (pc_l1 (i_pt im)))"
    using t pt_image_length [OF D(1)] pt_inv_l1 [OF D(1)] D(2) by simp_all
  have pos: "0 < h_l2Size ?h" using D(3) by (simp add: geometry_def)
  obtain rf' pt' where a: "addNewPointerCluster os (i_rf im) (i_pt im) va n = Some (rf', pt', None)" "pt_inv rf' pt'" "pc_header pt' = ?h"
    "pt_image rf' pt' = (pt_image (i_rf im) (i_pt im))[?i := Some (replicate (h_l2Size ?h) 0)]"
    "keeps_outside ?h (pt_used (i_rf im) (i_pt im)) (i_rf im) rf'" "pt_used rf' pt' \<subseteq> insert n (pt_used (i_rf im) (i_pt im))"
    "length (fdata (rf_file rf')) = length (fdata (rf_file (i_rf im)))" "lru_map (pc_cache pt') n \<noteq> None"
    "vc_data (pc_l1 pt') = (vc_data (pc_l1 (i_pt im)))[?i := n]"
    using add_ok [OF D(1), of va os n] t os n(2,4,5) unfolding D(2) pt_used_def by blast
  let ?im = "im\<lparr>i_rf := rf', i_pt := pt'\<rparr>"
  have c: "cluster_of ?im = cluster_of im" using entry_zeros [OF len(1) va(2) pos] a(4) by (simp add: cluster_of_def fun_eq_iff)
  have g: "geometry ?h rf'" using pt_geometry [OF a(2)] a(3) by simp
  have co: "core_ok U ?im" by (rule core_keeps [OF I(1) _ _ _ _ _ ]) (use a(5,7) g in \<open>simp_all add: pool_of_def\<close>)
  note T = table_step [OF i, of ?im U "pt_used (i_rf im) (i_pt im)" 0]
  have d: "cluster_of im va' \<notin> pt_used (i_rf im) (i_pt im) \<and> cluster_of im va' \<notin> pt_used rf' pt'"
    if "in_tables ?h va'" "cluster_of im va' \<noteq> 0" for va'
    using D(10) [OF that] n(6) [OF that(1)] a(6) by auto
  have uu: "pt_used rf' pt' \<subseteq> U" "pt_used rf' pt' \<inter> rc_used (i_rc im) = {}" using a(6) I(3,4) n(1,3) by auto
  have "img_inv U ?im" "\<And>va. in_tables ?h va \<Longrightarrow> cluster_of im va \<noteq> 0 \<Longrightarrow> own_byte ?im va = own_byte im va"
    using T co a(2,3,5) d uu c by simp_all
  moreover from this(2) have "same_view im ?im" using D(8) by (simp add: same_view_def guest_byte_def c)
  ultimately have "guest_step U im U ?im" by (simp add: guest_step_def)
  moreover obtain w where "lru_map (pc_cache pt') n = Some w" using a(8) by auto
  ultimately show ?thesis using a(1,9) c len(2) by (intro exI [of _ rf'] exI [of _ pt'] exI [of _ w]) simp
qed

section \<open>Finding a cluster\<close>

lemma fresh_cluster:
  assumes i: "img_inv U im" and d: "init_ok (i_header im) d" and os: "writes_ok os" and o: "image_getNewCluster os d im = (im', Inr n)"
  shows "guest_step U im (insert n U) im'" "i_pt im' = i_pt im" "i_rc im' = i_rc im" "cluster_of im' = cluster_of im"
    "pt_image (i_rf im') (i_pt im') = pt_image (i_rf im) (i_pt im)" "img_step U im (insert n U) im'"
    "n \<notin> U" "n \<notin> pt_used (i_rf im') (i_pt im')" "n \<notin> rc_used (i_rc im')" "cluster_ok (i_header im) (i_rf im') n"
    "n AND L1TableOffsetMask = n" "\<And>va. in_tables (i_header im) va \<Longrightarrow> cluster_of im' va \<noteq> n"
    "cluster_bytes (i_header im) (i_rf im') n = init_bytes (i_header im) d"
proof -
  note I = img_invD [OF i]
  have s: "img_step U im (insert n U) im'" "i_rc im' = i_rc im" "n \<notin> U" "cluster_ok (i_header im) (i_rf im') n" "n AND L1TableOffsetMask = n"
    "cluster_bytes (i_header im) (i_rf im') n = init_bytes (i_header im) d"
    using image_getNewCluster_ok [OF I(1) d os o] by simp_all
  note V = img_step_inv [OF i s(1)]
  show "guest_step U im (insert n U) im'" by (rule guest_img [OF i s(1)])
  show "i_pt im' = i_pt im" "cluster_of im' = cluster_of im" "pt_image (i_rf im') (i_pt im') = pt_image (i_rf im) (i_pt im)"
    by (rule V)+
  show "n \<notin> pt_used (i_rf im') (i_pt im')" using I(3) s(3) unfolding V(7) by blast
  show "n \<notin> rc_used (i_rc im')" using core_okD(3) [OF I(1)] s(3) unfolding s(2) by blast
  have "n \<noteq> 0" using s(4) by (simp add: cluster_ok_def)
  then show "cluster_of im' va \<noteq> n" if "in_tables (i_header im) va" for va
    using I(5) [OF that] s(3) unfolding V(2) by (cases "cluster_of im va = 0") auto
  show "i_rc im' = i_rc im" "img_step U im (insert n U) im'" "n \<notin> U" "cluster_ok (i_header im) (i_rf im') n" "n AND L1TableOffsetMask = n"
    "cluster_bytes (i_header im) (i_rf im') n = init_bytes (i_header im) d"
    by (rule s)+
qed

lemma refused_cluster:
  assumes i: "img_inv U im" and d: "init_ok (i_header im) d" and os: "writes_ok os" and o: "image_getNewCluster os d im = (im', Inl er)"
  shows "guest_step U im U im'" "i_pt im' = i_pt im" "cluster_of im' = cluster_of im"
proof -
  have s: "img_step U im U im'" using image_getNewCluster_ok [OF img_invD(1) [OF i] d os o] by simp
  show "guest_step U im U im'" by (rule guest_img [OF i s])
  show "i_pt im' = i_pt im" "cluster_of im' = cluster_of im" by (rule img_step_inv [OF i s])+
qed

abbreviation cached_table :: "image \<Rightarrow> nat \<Rightarrow> bool" where
  "cached_table im va \<equiv> lru_map (pc_cache (i_pt im)) (vc_data (pc_l1 (i_pt im)) ! l1TableIndex (i_header im) va) \<noteq> None"

lemma locate_ok:
  assumes i: "img_inv U im" and va: "va < h_virtualDiskSizeBytes (i_header im)" and os: "writes_ok os" "reads_ok os"
  shows "\<exists>im' r U'. locate_cluster os im va = Some (im', r) \<and> guest_step U im U' im'
     \<and> (\<forall>c xs. r = Inr (c, xs) \<longrightarrow> c = cluster_of im' va \<and> fst ` set xs \<subseteq> U' \<and> cached_table im' va)"
proof -
  note I = img_invD [OF i] and D = layoutD [OF img_invD(2) [OF i]]
  let ?h = "i_header im" and ?i = "l1TableIndex (i_header im) va"
  have t: "?i < h_numL2Clusters ?h" using D(8) [OF va] by (simp add: in_tables_def)
  obtain rf' pt' where r: "readClusterAddress os (i_rf im) (i_pt im) va = Some (rf', pt',
        case pt_image (i_rf im) (i_pt im) ! ?i of None \<Rightarrow> Inl ErrNeedPointerCluster | Some t \<Rightarrow> Inr (t ! l2TableIndex ?h va))"
    "pt_inv rf' pt'" "pc_header pt' = ?h" "pc_l1 pt' = pc_l1 (i_pt im)" "pt_image rf' pt' = pt_image (i_rf im) (i_pt im)"
    "keeps_outside ?h (pt_used (i_rf im) (i_pt im)) (i_rf im) rf'" "pt_used rf' pt' \<subseteq> pt_used (i_rf im) (i_pt im)"
    "length (fdata (rf_file rf')) = length (fdata (rf_file (i_rf im)))"
    "pt_image (i_rf im) (i_pt im) ! ?i \<noteq> None \<longrightarrow> lru_map (pc_cache pt') (vc_data (pc_l1 (i_pt im)) ! ?i) \<noteq> None"
    using read_ok [OF D(1) _ os(2,1), of va] t unfolding D(2) by blast
  define im1 where "im1 = im\<lparr>i_rf := rf', i_pt := pt'\<rparr>"
  have "read_step im im1" using r(2-8) D(2) by (simp add: read_step_def im1_def)
  then have g1: "guest_step U im U im1" by (rule guest_read [OF i])
  have i1: "img_inv U im1" "i_header im1 = ?h" "pt_image (i_rf im1) (i_pt im1) = pt_image (i_rf im) (i_pt im)"
    using g1 r(5) by (simp_all add: guest_step_def im1_def)
  show ?thesis
  proof (cases "pt_image (i_rf im) (i_pt im) ! ?i")
    case (Some t)
    then have "locate_cluster os im va = Some (im1, Inr (t ! l2TableIndex ?h va, []))"
      using r(1) by (simp add: locate_cluster_def im1_def)
    moreover have "cluster_of im1 va = t ! l2TableIndex ?h va" using Some i1 by (simp add: cluster_of_def entry_def)
    moreover have "cached_table im1 va" using r(4,9) Some by (simp add: im1_def)
    ultimately show ?thesis using g1 by auto
  next
    case None
    obtain im2 x where g: "image_getNewCluster os None im1 = (im2, x)" by fastforce
    show ?thesis
    proof (cases x)
      case (Inl er)
      then have "locate_cluster os im va = Some (im2, Inl er)" using r(1) None g by (simp add: locate_cluster_def im1_def)
      then show ?thesis using guest_trans [OF g1 refused_cluster(1) [OF i1(1) init_ok_None os(1)]] g Inl by auto
    next
      case (Inr n)
      note N = fresh_cluster [OF i1(1) init_ok_None os(1) g [unfolded Inr], unfolded i1(2)]
      have h2: "i_header im2 = ?h" and i2: "img_inv (insert n U) im2" using N(1) i1(2) by (simp_all add: guest_step_def same_view_def)
      have none: "pt_image (i_rf im2) (i_pt im2) ! ?i = None" using N(5) i1(3) None by simp
      obtain rf3 pt3 w where a: "addNewPointerCluster os (i_rf im2) (i_pt im2) va n = Some (rf3, pt3, None)"
        "guest_step (insert n U) im2 (insert n U) (im2\<lparr>i_rf := rf3, i_pt := pt3\<rparr>)" "cluster_of (im2\<lparr>i_rf := rf3, i_pt := pt3\<rparr>) = cluster_of im2"
        "lru_map (pc_cache pt3) (vc_data (pc_l1 pt3) ! ?i) = Some w"
        using add_table_ok [OF i2, unfolded h2, OF D(8) [OF va] none os(1) insertI1 N(8,9,10,11,12)] by blast
      let ?im = "im2\<lparr>i_rf := rf3, i_pt := pt3\<rparr>"
      have l: "locate_cluster os im va = Some (?im, Inr (0, [(n, 1)]))" using r(1) None g Inr a(1) by (simp add: locate_cluster_def im1_def)
      have "cluster_of ?im va = 0" using a(3) N(4) i1 None by (simp add: cluster_of_def entry_def)
      moreover have "guest_step U im (insert n U) ?im" by (rule guest_trans [OF guest_trans [OF g1 N(1)] a(2)])
      ultimately show ?thesis using l a(4) h2 by (intro exI [of _ ?im] exI [of _ "Inr (0, [(n, 1)])"] exI [of _ "insert n U"]) simp
    qed
  qed
qed

section \<open>A new cluster of data\<close>

lemma append_ok:
  assumes i: "img_inv U im" and d: "init_ok (i_header im) d" and os: "writes_ok os" "reads_ok os"
  shows "\<exists>im' r U'. appendDataCluster os im d = Some (im', r) \<and> guest_step U im U' im' \<and> i_pt im' = i_pt im \<and> cluster_of im' = cluster_of im
     \<and> (\<forall>n. r = Inr n \<longrightarrow> n \<in> U' \<and> n \<notin> rc_used (i_rc im') \<and> n \<notin> pt_used (i_rf im') (i_pt im') \<and> cluster_ok (i_header im) (i_rf im') n
          \<and> entry_ok n \<and> cluster_bytes (i_header im) (i_rf im') n = init_bytes (i_header im) d
          \<and> (\<forall>va. in_tables (i_header im) va \<longrightarrow> cluster_of im' va \<noteq> n))"
proof -
  obtain im1 x where g: "image_getNewCluster os d im = (im1, x)" by fastforce
  show ?thesis
  proof (cases x)
    case (Inl er)
    then show ?thesis using refused_cluster [OF i d os(1)] g by (auto simp: appendDataCluster_def)
  next
    case (Inr n)
    note N = fresh_cluster [OF i d os(1) g [unfolded Inr]]
    have h1: "i_header im1 = i_header im" and i1: "img_inv (insert n U) im1" using N(1) by (simp_all add: guest_step_def same_view_def)
    obtain im2 y U2 where s: "image_setClusterRefcount (refcount_fuel im1) os im1 n 1 = Some (im2, y)" "img_step (insert n U) im1 U2 im2"
      using image_setClusterRefcount_ok [OF img_invD(1) [OF i1] insertI1 os] by blast
    note V = img_step_inv [OF i1 s(2), unfolded h1]
    have k: "cluster_bytes (i_header im) (i_rf im2) n = init_bytes (i_header im) d" "n \<in> U2" "n \<notin> rc_used (i_rc im2)"
      using V(5) [OF insertI1 N(9,10)] N(13) by simp_all
    have ok: "cluster_ok (i_header im) (i_rf im2) n"
      using s(2) N(10) keeps_cluster_ok by (auto simp: img_step_def h1)
    have en: "entry_ok n" using N(11) by (simp add: entry_ok_def L1TableOffsetMask_def L2TableOffsetMask_def)
    have gs: "guest_step U im U2 im2" by (rule guest_trans [OF N(1) guest_img [OF i1 s(2)]])
    have pu: "n \<notin> pt_used (i_rf im2) (i_pt im2)" using N(8) unfolding V(7) .
    have eq: "i_pt im2 = i_pt im" "cluster_of im2 = cluster_of im" using V(2,3) N(2,4) by simp_all
    have cn: "\<forall>va. in_tables (i_header im) va \<longrightarrow> cluster_of im2 va \<noteq> n" using N(12) unfolding V(2) by blast
    show ?thesis
    proof (cases y)
      case (Inl er)
      then show ?thesis using g Inr s(1) gs eq by (auto simp: appendDataCluster_def)
    next
      case (Inr u)
      let ?im = "im2\<lparr>i_unrefClusters := i_unrefClusters im2 @ u\<rparr>"
      have "appendDataCluster os im d = Some (?im, Inr n)" using g \<open>x = Inr n\<close> s(1) Inr by (simp add: appendDataCluster_def)
      then show ?thesis using gs eq k ok en pu cn
        by (intro exI [of _ ?im] exI [of _ "Inr n"] exI [of _ U2]) (simp add: guest_unref)
    qed
  qed
qed

lemma entry_image: "entry h T va = (case image_entry h T va of Inl _ \<Rightarrow> 0 | Inr x \<Rightarrow> x)"
  by (simp add: entry_def image_entry_def split: option.split)

lemma update_img_ok:
  assumes i: "img_inv U im" and va: "in_tables (i_header im) va" "cached_table im va" "cluster_of im va = 0" and os: "writes_ok os"
    and n: "n \<in> U" "n \<notin> rc_used (i_rc im)" "n \<notin> pt_used (i_rf im) (i_pt im)" "cluster_ok (i_header im) (i_rf im) n" "entry_ok n"
      "\<And>va. in_tables (i_header im) va \<Longrightarrow> cluster_of im va \<noteq> n"
  shows "\<exists>im' xs' er U'. image_updateClusterAddress os im va n xs = Some (im', xs', er) \<and> img_inv U' im' \<and> U \<subseteq> U'
     \<and> i_header im' = i_header im \<and> i_readOnly im' = i_readOnly im \<and> (fst ` set xs \<subseteq> U \<longrightarrow> fst ` set xs' \<subseteq> U')
     \<and> (cluster_of im' = cluster_of im \<and> er \<noteq> None
        \<or> cluster_of im' = (\<lambda>va'. if va' div h_clusterSize (i_header im) = va div h_clusterSize (i_header im) then n else cluster_of im va'))
     \<and> (\<forall>va'. in_tables (i_header im) va' \<longrightarrow> cluster_of im va' \<noteq> 0 \<longrightarrow> own_byte im' va' = own_byte im va')
     \<and> cluster_bytes (i_header im) (i_rf im') n = cluster_bytes (i_header im) (i_rf im) n"
proof -
  note I = img_invD [OF i] and D = layoutD [OF img_invD(2) [OF i]]
  let ?h = "i_header im" and ?i = "l1TableIndex (i_header im) va" and ?cs = "h_clusterSize (i_header im)"
  let ?T = "pt_image (i_rf im) (i_pt im)" and ?m = "rc_maxValidClusterOffset (i_rc im)"
  have t: "?i < h_numL2Clusters ?h" using va(1) by (simp add: in_tables_def)
  have tb: "tables_ok ?h (i_rf im) (vc_data (pc_l1 (i_pt im))) (lru_map (pc_cache (i_pt im))) (pc_evicted (i_pt im))"
    using D(1,2) by (simp add: pt_inv_def)
  obtain w where w: "lru_map (pc_cache (i_pt im)) (vc_data (pc_l1 (i_pt im)) ! ?i) = Some w" using va(2) by auto
  have slot: "?T ! ?i = Some (vc_data w)"
    using pt_image_slot [OF D(1), of ?i] t w tables_okD(8) [OF tb w] by (simp add: D(2) l2_table_def cluster_ok_def)
  have lw: "length (vc_data w) = h_l2Size ?h" "0 < h_l2Size ?h"
    using tables_okD(9) [OF tb w] D(3) by (simp_all add: vector_ok_def geometry_def)
  obtain s' rf' pt' r where u: "updateClusterAddress (getNewCluster os None) (pool_of im) (i_rf im) (i_pt im) va n = Some (s', rf', pt', r)"
    "pt_inv rf' pt'" "pc_header pt' = ?h"
    "pt_image rf' pt' = (if \<exists>er. r = Some (QErr er) then ?T else ?T[?i := Some ((vc_data w)[l2TableIndex ?h va := n])])"
    "keeps_outside ?h (- U) (i_rf im) rf'" "pt_used rf' pt' \<subseteq> pt_used (i_rf im) (i_pt im) \<union> - U"
    "held os ?m ?h s' rf' (U \<union> pt_used rf' pt')"
    "\<forall>xs z. r = Some (ErrNeedFreeClusters xs z) \<longrightarrow> (\<forall>y \<in> set xs. fst y \<in> U \<union> pt_used rf' pt')"
    using hs.update_steady [OF D(1), unfolded D(2), OF t w n(5) core_held [OF I(1) os] I(3)] by blast
  define im1 where "im1 = im\<lparr>i_availClusters := cp_avail s', i_rf := rf', i_pt := pt'\<rparr>"
  define U' where "U' = U \<union> pt_used rf' pt'"
  have f1 [simp]: "i_header im1 = ?h" "i_rc im1 = i_rc im" "i_rf im1 = rf'" "i_pt im1 = pt'" "i_readOnly im1 = i_readOnly im"
    by (simp_all add: im1_def)
  have p1: "pool_of im1 = s'" using u(7) by (simp add: pool_of_def im1_def held_def)
  have C: "core_ok U' im1"
    using u(7) p1 pt_geometry [OF u(2)] rc_ok_keeps [OF core_okD(2) [OF I(1)] u(5)] core_okD(3) [OF I(1)] u(3)
    by (auto simp: core_ok_def held_def U'_def)
  have E: "entry ?h (?T[?i := Some ((vc_data w)[l2TableIndex ?h va := n])]) va' = (if va' div ?cs = va div ?cs then n else entry ?h ?T va')" for va'
    using image_entry_update [OF va(1) _ slot lw, of n va'] pt_image_length [OF D(1)] unfolding D(2) by (simp add: entry_image)
  have cl: "cluster_of im1 = cluster_of im \<and> (\<exists>er. r = Some (QErr er))
      \<or> cluster_of im1 = (\<lambda>va'. if va' div ?cs = va div ?cs then n else cluster_of im va')"
    using E u(4) by (auto simp: cluster_of_def fun_eq_iff)
  have d: "cluster_of im va' \<notin> - U \<and> cluster_of im va' \<notin> pt_used rf' pt'" if "in_tables ?h va'" "cluster_of im va' \<noteq> 0" for va'
    using I(5) [OF that] D(10) [OF that] u(6) by auto
  have pu: "pt_used rf' pt' \<subseteq> U'" "pt_used rf' pt' \<inter> rc_used (i_rc im) = {}" "U \<subseteq> U'"
    using u(6) I(4) core_okD(3) [OF I(1)] by (auto simp: U'_def)
  have nw: "va' div ?cs = va div ?cs \<and> cluster_of im1 va' \<in> U' \<and> cluster_of im1 va' \<notin> rc_used (i_rc im)
      \<and> cluster_of im1 va' \<notin> pt_used rf' pt' \<and> cluster_ok ?h rf' (cluster_of im1 va')
      \<and> (\<forall>va''. in_tables ?h va'' \<longrightarrow> cluster_of im va'' \<noteq> cluster_of im1 va')"
    if "in_tables ?h va'" "cluster_of im1 va' \<noteq> cluster_of im va'" for va'
  proof -
    have "va' div ?cs = va div ?cs" "cluster_of im1 va' = n" using cl that(2) by (auto split: if_splits)
    moreover have "n \<notin> pt_used rf' pt'" using n(1,3) u(6) by auto
    ultimately show ?thesis using n keeps_cluster_ok [OF u(5)] pu(3) by auto
  qed
  note T = table_step [OF i f1(1,2) C pu(3), unfolded f1, OF u(2,3,5) d pu(1,2) nw]
  have own: "own_byte im1 va' = own_byte im va'" if "in_tables ?h va'" "cluster_of im va' \<noteq> 0" for va'
  proof -
    have "va' div ?cs \<noteq> va div ?cs" using cluster_of_cong va(3) that(2) by metis
    then have "cluster_of im1 va' = cluster_of im va'" using cl by auto
    then show ?thesis using T(2) that by blast
  qed
  have iv: "img_inv U' im1" using T(1) by blast
  have bn: "cluster_bytes ?h rf' n = cluster_bytes ?h (i_rf im) n" using keeps_bytes [OF u(5) n(4) _ D(3)] n(1) by simp
  have "\<exists>x xs' er. image_updateClusterAddress os im va n xs = Some (im1\<lparr>i_unrefClusters := x\<rparr>, xs', er)
      \<and> (fst ` set xs \<subseteq> U \<longrightarrow> fst ` set xs' \<subseteq> U') \<and> ((\<exists>e. r = Some (QErr e)) \<longrightarrow> er \<noteq> None)"
  proof (cases "\<exists>ys c. r = Some (ErrNeedFreeClusters ys c)")
    case True
    then obtain ys c where r: "r = Some (ErrNeedFreeClusters ys c)" by blast
    then have "image_updateClusterAddress os im va n xs = Some (im1\<lparr>i_unrefClusters := i_unrefClusters im1 @ [c]\<rparr>, xs @ ys, None)"
      using u(1) by (simp add: image_updateClusterAddress_def im1_def)
    moreover have "fst ` set xs \<subseteq> U \<longrightarrow> fst ` set (xs @ ys) \<subseteq> U'" using u(8) r by (auto simp: U'_def)
    ultimately show ?thesis using r by blast
  next
    case False
    then have "image_updateClusterAddress os im va n xs = Some (im1, xs, map_option qerror_Error r)"
      using u(1) by (auto simp: image_updateClusterAddress_def im1_def Let_def split: option.split qerror.split)
    then show ?thesis using pu(3) by (intro exI [of _ "i_unrefClusters im1"] exI [of _ xs] exI [of _ "map_option qerror_Error r"]) auto
  qed
  then obtain x xs' er where up: "image_updateClusterAddress os im va n xs = Some (im1\<lparr>i_unrefClusters := x\<rparr>, xs', er)"
    "fst ` set xs \<subseteq> U \<longrightarrow> fst ` set xs' \<subseteq> U'" "(\<exists>e. r = Some (QErr e)) \<longrightarrow> er \<noteq> None"
    by (elim exE conjE) (rule that)
  have ob: "own_byte (im1\<lparr>i_unrefClusters := x\<rparr>) va' = own_byte im1 va'" for va' by (simp add: own_byte_def)
  show ?thesis
    by (rule exI [of _ "im1\<lparr>i_unrefClusters := x\<rparr>"], rule exI [of _ xs'], rule exI [of _ er], rule exI [of _ U'])
      (use up iv pu(3) cl own bn in \<open>simp add: ob\<close>, blast)
qed

section \<open>Writing over a backing image\<close>

lemma aligned_block: "va < s \<Longrightarrow> cs dvd s \<Longrightarrow> 0 < cs \<Longrightarrow> va - va mod cs + cs \<le> (s::nat)"
proof -
  assume va: "va < s" and d: "cs dvd s" and p: "0 < cs"
  obtain k where s: "s = cs * k" using d by blast
  have "va div cs < k" using va s p by (metis div_less_iff_less_mult mult.commute)
  then have "cs * (va div cs + 1) \<le> cs * k" by (intro mult_le_mono2) simp
  then show ?thesis using s by (simp add: minus_mod_eq_mult_div algebra_simps)
qed

context byte_source
begin

definition write_step :: "nat set \<Rightarrow> image \<Rightarrow> 'b option \<Rightarrow> nat set \<Rightarrow> image \<Rightarrow> 'b option \<Rightarrow> bool" where
  "write_step U im backing U' im' backing' \<longleftrightarrow> img_inv U' im' \<and> U \<subseteq> U' \<and> i_header im' = i_header im \<and> i_readOnly im' = i_readOnly im
     \<and> backs im' backing' \<and> same_below (h_virtualDiskSizeBytes (i_header im)) backing backing'
     \<and> (\<forall>x < h_virtualDiskSizeBytes (i_header im). guest_byte im' (below backing') x = guest_byte im (below backing) x)"

lemma backs_header: "i_header im' = i_header im \<Longrightarrow> backs im' x = backs im x"
  by (cases x) (simp_all add: backs_def)

lemma write_guest:
  assumes g: "guest_step U im U' im'" and k: "backs im backing'" and s: "same_below (h_virtualDiskSizeBytes (i_header im)) backing backing'"
  shows "write_step U im backing U' im' backing'"
proof -
  have v: "same_view im im'" and h: "i_header im' = i_header im" using g by (simp_all add: guest_step_def same_view_def)
  have "guest_byte im' (below backing') x = guest_byte im (below backing) x" if "x < h_virtualDiskSizeBytes (i_header im)" for x
    using s that by (intro chain_byte_cong [OF v that]) (simp add: same_below_def)
  then show ?thesis using g k s backs_header [OF h, of backing'] h by (simp add: write_step_def guest_step_def)
qed

lemma write_trans: "write_step U im b U1 im1 b1 \<Longrightarrow> write_step U1 im1 b1 U2 im2 b2 \<Longrightarrow> write_step U im b U2 im2 b2"
  using same_below_trans by (auto simp: write_step_def)

lemma initial_data_ok:
  assumes k: "backs im backing" and va: "va < h_virtualDiskSizeBytes (i_header im)"
    and al: "h_clusterSize (i_header im) dvd h_virtualDiskSizeBytes (i_header im)" "0 < h_clusterSize (i_header im)"
    and small: "h_clusterSize (i_header im) \<le> 2 ^ 21"
  shows "\<exists>backing' d. initial_data B (i_header im) backing va = Some (backing', Inr d)
     \<and> init_bytes (i_header im) d
         = map (below backing) [va - va mod h_clusterSize (i_header im)..<va - va mod h_clusterSize (i_header im) + h_clusterSize (i_header im)]
     \<and> backs im backing' \<and> same_below (h_virtualDiskSizeBytes (i_header im)) backing backing'"
proof (cases backing)
  case None
  then show ?thesis using k by (auto simp: initial_data_def init_bytes_def below_def same_below_refl map_replicate_const)
next
  case (Some b)
  let ?cs = "h_clusterSize (i_header im)"
  have b: "good b" "va - va mod ?cs + ?cs \<le> extent b" using k Some aligned_block [OF va al] by (auto simp: backs_def)
  moreover have "int ?cs \<le> maxAlloc" using small by (simp add: maxAlloc_def)
  ultimately obtain b' where r: "B b (va - va mod ?cs) ?cs = Some (b', Inr (map (bytes b) [va - va mod ?cs..<va - va mod ?cs + ?cs]))" "good b'"
    "extent b' = extent b" "\<forall>va < extent b. bytes b' va = bytes b va" using serves by blast
  then show ?thesis using k Some by (auto simp: initial_data_def init_bytes_def below_def backs_def same_below_def)
qed

lemma new_data_ok:
  assumes i: "img_inv U im" and k: "backs im backing" and va: "va < h_virtualDiskSizeBytes (i_header im)" "cached_table im va" "cluster_of im va = 0"
    and al: "h_clusterSize (i_header im) dvd h_virtualDiskSizeBytes (i_header im)" and xs: "fst ` set xs \<subseteq> U" and os: "writes_ok os" "reads_ok os"
  shows "\<exists>im' backing' r U'. new_data_cluster os B im backing va xs = Some (im', backing', r) \<and> write_step U im backing U' im' backing'
     \<and> (\<forall>a ys. r = Inr (a, ys) \<longrightarrow> a = cluster_of im' va \<and> a \<noteq> 0 \<and> fst ` set ys \<subseteq> U')"
proof -
  note I = img_invD [OF i] and D = layoutD [OF img_invD(2) [OF i]]
  let ?h = "i_header im" and ?cs = "h_clusterSize (i_header im)" and ?s = "h_virtualDiskSizeBytes (i_header im)"
  define b0 where "b0 = va - va mod ?cs"
  obtain bk' d where nd: "initial_data B ?h backing va = Some (bk', Inr d)" "init_bytes ?h d = map (below backing) [b0..<b0 + ?cs]"
    "backs im bk'" "same_below ?s backing bk'"
    using initial_data_ok [OF k va(1) al D(4,5)] unfolding b0_def by blast
  have iok: "init_ok ?h d" using nd(2) by (simp add: init_ok_def)
  obtain im2 r U2 where a: "appendDataCluster os im d = Some (im2, r)" "guest_step U im U2 im2" "i_pt im2 = i_pt im" "cluster_of im2 = cluster_of im"
    "\<forall>n. r = Inr n \<longrightarrow> n \<in> U2 \<and> n \<notin> rc_used (i_rc im2) \<and> n \<notin> pt_used (i_rf im2) (i_pt im2) \<and> cluster_ok ?h (i_rf im2) n
          \<and> entry_ok n \<and> cluster_bytes ?h (i_rf im2) n = init_bytes ?h d \<and> (\<forall>va. in_tables ?h va \<longrightarrow> cluster_of im2 va \<noteq> n)"
    using append_ok [OF i iok os] by blast
  have g2: "img_inv U2 im2" "i_header im2 = ?h" "U \<subseteq> U2" "i_readOnly im2 = i_readOnly im" using a(2) by (simp_all add: guest_step_def same_view_def)
  have w2: "write_step U im backing U2 im2 bk'" by (rule write_guest [OF a(2) nd(3,4)])
  show ?thesis
  proof (cases r)
    case (Inl er)
    then show ?thesis using nd(1) a(1) w2 by (auto simp: new_data_cluster_def)
  next
    case (Inr n)
    have n: "n \<in> U2" "n \<notin> rc_used (i_rc im2)" "n \<notin> pt_used (i_rf im2) (i_pt im2)" "cluster_ok ?h (i_rf im2) n" "entry_ok n"
      "cluster_bytes ?h (i_rf im2) n = init_bytes ?h d" "\<And>va. in_tables ?h va \<Longrightarrow> cluster_of im2 va \<noteq> n" using a(5) Inr by auto
    have ct: "cached_table im2 va" using va(2) a(3) g2(2) by simp
    have cz: "cluster_of im2 va = 0" using va(3) a(4) by simp
    obtain im3 ys er U3 where u: "image_updateClusterAddress os im2 va n xs = Some (im3, ys, er)" "img_inv U3 im3" "U2 \<subseteq> U3" "i_header im3 = ?h"
      "i_readOnly im3 = i_readOnly im2" "fst ` set xs \<subseteq> U2 \<longrightarrow> fst ` set ys \<subseteq> U3"
      "cluster_of im3 = cluster_of im2 \<and> er \<noteq> None
        \<or> cluster_of im3 = (\<lambda>va'. if va' div ?cs = va div ?cs then n else cluster_of im2 va')"
      "\<forall>va'. in_tables ?h va' \<longrightarrow> cluster_of im2 va' \<noteq> 0 \<longrightarrow> own_byte im3 va' = own_byte im2 va'"
      "cluster_bytes ?h (i_rf im3) n = cluster_bytes ?h (i_rf im2) n"
      using update_img_ok [OF g2(1), unfolded g2(2), OF D(8) [OF va(1)] ct [unfolded g2(2)] cz os(1) n(1,2,3,4,5,7), of xs] by blast
    have nz: "n \<noteq> 0" using n(4) by (simp add: cluster_ok_def)
    have new: "own_byte im3 x = below backing x" if x: "x div ?cs = va div ?cs" "cluster_of im3 x = n" for x
    proof -
      have "x = b0 + x mod ?cs" unfolding b0_def using x(1) by (metis minus_mod_eq_mult_div mult_div_mod_eq)
      moreover have "x mod ?cs < ?cs" using D(4) by simp
      ultimately show ?thesis using x(2) u(9) n(6) nd(2) by (simp add: own_byte_def u(4))
    qed
    have "guest_byte im3 (below bk') x = guest_byte im2 (below bk') x" if x: "x < ?s" for x
    proof (cases "x div ?cs = va div ?cs \<and> cluster_of im3 x \<noteq> cluster_of im2 x")
      case True
      then have "cluster_of im3 x = n" "cluster_of im2 x = 0" using u(7) cz cluster_of_cong [of x im2 va] g2(2) by (auto split: if_splits)
      then show ?thesis using new True nz nd(4) x by (simp add: guest_byte_def same_below_def)
    next
      case False
      then have "cluster_of im3 x = cluster_of im2 x" using u(7) by auto
      then show ?thesis using u(8) D(8) [OF x] by (simp add: guest_byte_def)
    qed
    then have w3: "write_step U2 im2 bk' U3 im3 bk'"
      using u(2-5) backs_header [of im3 im] nd(3) g2(2) same_below_refl by (simp add: write_step_def)
    have "new_data_cluster os B im backing va xs = Some (im3, bk', case er of Some e \<Rightarrow> Inl e | None \<Rightarrow> Inr (n, ys))"
      using nd(1) a(1) Inr u(1) by (simp add: new_data_cluster_def)
    moreover have "er = None \<Longrightarrow> n = cluster_of im3 va" using u(7) by auto
    ultimately show ?thesis using write_trans [OF w2 w3] nz u(6) xs g2(3) by (cases er) auto
  qed
qed

lemma offset_write_ok:
  assumes i: "img_inv U im" and k: "backs im backing" and va: "va < h_virtualDiskSizeBytes (i_header im)"
    and al: "h_clusterSize (i_header im) dvd h_virtualDiskSizeBytes (i_header im)" and os: "writes_ok os" "reads_ok os"
  shows "\<exists>im' backing' r U'. fileOffsetWrite os B im backing va = Some (im', backing', r) \<and> write_step U im backing U' im' backing'
     \<and> (\<forall>a. r = Inr a \<longrightarrow> cluster_of im' va \<noteq> 0 \<and> a = cluster_of im' va + va mod h_clusterSize (i_header im))"
proof -
  note D = layoutD [OF img_invD(2) [OF i]]
  obtain im1 r U1 where l: "locate_cluster os im va = Some (im1, r)" "guest_step U im U1 im1"
    "\<forall>c xs. r = Inr (c, xs) \<longrightarrow> c = cluster_of im1 va \<and> fst ` set xs \<subseteq> U1 \<and> cached_table im1 va"
    using locate_ok [OF i va os] by blast
  have g1: "img_inv U1 im1" "i_header im1 = i_header im" using l(2) by (simp_all add: guest_step_def same_view_def)
  have w1: "write_step U im backing U1 im1 backing" by (rule write_guest [OF l(2) k same_below_refl])
  have k1: "backs im1 backing" using backs_header [OF g1(2)] k by simp
  show ?thesis
  proof (cases r)
    case (Inl er)
    then show ?thesis using l(1) w1 va by (auto simp: fileOffsetWrite_def)
  next
    case (Inr p)
    obtain c xs where p: "r = Inr (c, xs)" using Inr by (cases p) auto
    have c: "c = cluster_of im1 va" "fst ` set xs \<subseteq> U1" "cached_table im1 va" using l(3) p by auto
    obtain im2 bk' q U2 where m: "(if c \<noteq> 0 then Some (im1, backing, Inr (c, xs)) else new_data_cluster os B im1 backing va xs) = Some (im2, bk', q)"
      "write_step U1 im1 backing U2 im2 bk'" "\<forall>a ys. q = Inr (a, ys) \<longrightarrow> a = cluster_of im2 va \<and> a \<noteq> 0 \<and> fst ` set ys \<subseteq> U2"
    proof (cases "c = 0")
      case True
      then show thesis using new_data_ok [OF g1(1) k1 _ c(3) _ _ c(2) os] g1(2) va al c(1) that by auto
    next
      case False
      show thesis
        by (rule that [of im1 backing "Inr (c, xs)" U1]) (use c(1,2) False write_guest [OF guest_refl [OF g1(1)] k1 same_below_refl] in auto)
    qed
    note w2 = write_trans [OF w1 m(2)]
    have g2: "img_inv U2 im2" "i_header im2 = i_header im" "backs im2 bk'" using w2 by (simp_all add: write_step_def)
    show ?thesis
    proof (cases q)
      case (Inl er)
      then show ?thesis using l(1) p m(1) va w2 by (auto simp: fileOffsetWrite_def)
    next
      case (Inr ays)
      obtain a ys where q: "q = Inr (a, ys)" using Inr by (cases ays) auto
      have a: "a = cluster_of im2 va" "a \<noteq> 0" "fst ` set ys \<subseteq> U2" using m(3) q by auto
      obtain im3 er U3 where s: "set_refcounts os im2 ys = Some (im3, er)" "guest_step U2 im2 U3 im3" "cluster_of im3 = cluster_of im2"
        using set_refcounts_ok [OF os g2(1) a(3)] by blast
      note w3 = write_trans [OF w2 write_guest [OF s(2) g2(3) same_below_refl]]
      have L3: "layout_ok im3" "i_header im3 = i_header im" using w3 by (simp_all add: write_step_def img_inv_def)
      note D3 = layoutD [OF L3(1)]
      have "cluster_ok (i_header im) (i_rf im3) a" using D3(9) [of va] D(8) [OF va] a(1,2) s(3) L3(2) by simp
      then have "a + h_clusterSize (i_header im) < 2 ^ 63" using D3(3) by (simp add: cluster_ok_def geometry_def)
      moreover have "va mod h_clusterSize (i_header im) < h_clusterSize (i_header im)" using D(4) by simp
      ultimately have "u64 (a + clusterOffset (i_rf im3) va) = a + va mod h_clusterSize (i_header im)"
        unfolding clusterOffset_mod [OF L3(1)] L3(2) by (intro u64_small) simp
      then show ?thesis using l(1) p m(1) va q s(1,3) w3 a by (cases er) (auto simp: fileOffsetWrite_def)
    qed
  qed
qed

end

end
