(* ===== verification/ImageSpec.thy ===== *)
theory ImageSpec
  imports ImageWrite
begin

text \<open>
  What an image promises to the guest: \<open>WriteAt\<close> puts the bytes of the request, and on an error a first part of them, at their
  addresses and changes no other byte; \<open>ReadAt\<close> returns the bytes of its range and changes none.
\<close>

unbundle bit_operations_syntax

section \<open>Bytes into a cluster\<close>

lemma splice_bytes:
  assumes "off + length bs \<le> cs" "c + cs \<le> length D"
  shows "take (c + off) D @ bs @ drop (c + off + length bs) D
       = take c D @ (take off (take cs (drop c D)) @ bs @ drop (off + length bs) (take cs (drop c D))) @ drop (c + cs) D"
proof -
  let ?E = "drop c D" and ?k = "off + length bs"
  have "drop ?k ?E = drop ?k (take cs ?E @ drop cs ?E)" by (simp only: append_take_drop_id)
  also have "\<dots> = drop ?k (take cs ?E) @ drop (?k - length (take cs ?E)) (drop cs ?E)" by (rule drop_append)
  also have "?k - length (take cs ?E) = 0" using assms by simp
  finally have "drop (c + off + length bs) D = drop ?k (take cs ?E) @ drop (c + cs) D" by (simp add: add.commute add.left_commute)
  moreover have "take off (take cs ?E) = take off ?E" using assms by simp
  ultimately show ?thesis by (simp add: take_add)
qed

lemma raw_write_file:
  assumes "geometry h rf" "cluster_ok h rf c" "off + length bs \<le> h_clusterSize h" "writes_ok os"
  defines "new \<equiv> take off (cluster_bytes h rf c) @ bs @ drop (off + length bs) (cluster_bytes h rf c)"
  shows "\<exists>rf'. raw_WriteAt os rf bs (c + off) = (rf', None) \<and> same_but h rf rf' c \<and> cluster_bytes h rf' c = new
     \<and> length (fdata (rf_file rf')) = length (fdata (rf_file rf))"
proof -
  let ?f = "rf_file rf"
  have c: "c + h_clusterSize h \<le> length (fdata ?f)" "length (fdata ?f) < 2 ^ 63" "\<not> rf_readOnly rf"
    using assms(1,2) by (simp_all add: geometry_def cluster_ok_def)
  have len: "length new = h_clusterSize h" using assms(3) c(1) by (simp add: new_def cluster_bytes_def)
  define rf' where "rf' = rf\<lparr>rf_file := (file_put (?f\<lparr>fpos := c + off\<rparr>) bs)\<lparr>fpos := fpos ?f\<rparr>\<rparr>"
  have "rf' = rf\<lparr>rf_file := (file_put (?f\<lparr>fpos := c\<rparr>) new)\<lparr>fpos := fpos ?f\<rparr>\<rparr>"
    using splice_bytes [OF assms(3) c(1)] len c(1) assms(3) by (simp add: rf'_def file_put_def new_def cluster_bytes_def)
  note P = put_cluster_ok [OF assms(1,2) len this]
  have "raw_WriteAt os rf bs (c + off) = (rf', None)"
    using assms(3,4) c by (simp add: raw_WriteAt_def file_Write_def writes_ok_def rf'_def)
  then show ?thesis using P by blast
qed

lemma raw_write_ok:
  assumes i: "img_inv U im" and va: "in_tables (i_header im) va" "cluster_of im va \<noteq> 0" and os: "writes_ok os"
    and n: "length bs \<le> h_clusterSize (i_header im) - va mod h_clusterSize (i_header im)"
  shows "\<exists>rf'. raw_WriteAt os (i_rf im) bs (cluster_of im va + va mod h_clusterSize (i_header im)) = (rf', None)
     \<and> img_inv U (im\<lparr>i_rf := rf'\<rparr>) \<and> cluster_of (im\<lparr>i_rf := rf'\<rparr>) = cluster_of im
     \<and> (\<forall>x. in_tables (i_header im) x \<longrightarrow> cluster_of im x \<noteq> 0 \<longrightarrow>
          own_byte (im\<lparr>i_rf := rf'\<rparr>) x = (if va \<le> x \<and> x < va + length bs then bs ! (x - va) else own_byte im x))"
proof -
  note I = img_invD [OF i] and D = layoutD [OF img_invD(2) [OF i]]
  let ?h = "i_header im" and ?cs = "h_clusterSize (i_header im)" and ?c = "cluster_of im va" and ?o = "va mod h_clusterSize (i_header im)"
  have fit: "?o + length bs \<le> ?cs" using n mod_le_divisor [OF D(4), of va] by (metis add.commute le_diff_conv2)
  obtain rf' where w: "raw_WriteAt os (i_rf im) bs (?c + ?o) = (rf', None)" "same_but ?h (i_rf im) rf' ?c"
    "cluster_bytes ?h rf' ?c = take ?o (cluster_bytes ?h (i_rf im) ?c) @ bs @ drop (?o + length bs) (cluster_bytes ?h (i_rf im) ?c)"
    "length (fdata (rf_file rf')) = length (fdata (rf_file (i_rf im)))"
    using raw_write_file [OF D(3) D(9) [OF va] fit os] by blast
  let ?im = "im\<lparr>i_rf := rf'\<rparr>"
  have k: "keeps_outside ?h {?c} (i_rf im) rf'" using keeps_same_but [OF w(2)] by simp
  have g: "geometry ?h rf'" "disk_l1 ?h rf' = disk_l1 ?h (i_rf im)" using w(2) by (simp_all add: same_but_def)
  have "{?c} \<inter> pt_used (i_rf im) (i_pt im) = {}" using D(10) [OF va] by simp
  note F = pt_frame [OF D(1), unfolded D(2), OF k this g]
  have cl: "cluster_of ?im = cluster_of im" using F(2) by (simp add: cluster_of_def fun_eq_iff)
  have m: "rf_clusterMask rf' = rf_clusterMask (i_rf im)" using k by (simp add: keeps_outside_def)
  have L: "layout_ok ?im" using I(2) F(1,3) m keeps_cluster_ok [OF k] unfolding layout_ok_def cl by simp
  have co: "core_ok U ?im" by (rule core_keeps [OF I(1) _ _ _ _ _ _]) (use k g(1) w(4) in \<open>simp_all add: pool_of_def\<close>)
  have f1: "i_rf ?im = rf'" "i_pt ?im = i_pt im" "i_header ?im = ?h" "i_rc ?im = i_rc im" by simp_all
  have inv: "img_inv U ?im"
    by (rule img_invI [OF co L], unfold cl f1 F(3)) (use I(3-6) in blast)+
  have len: "length (cluster_bytes ?h (i_rf im) ?c) = ?cs" using D(9) [OF va] by (auto simp: cluster_bytes_def cluster_ok_def)
  have "own_byte ?im x = (if va \<le> x \<and> x < va + length bs then bs ! (x - va) else own_byte im x)"
    if x: "in_tables ?h x" "cluster_of im x \<noteq> 0" for x
  proof (cases "cluster_of im x = ?c")
    case True
    then have q: "x div ?cs = va div ?cs" by (rule I(6) [OF va(1) x(1) va(2)])
    have xv: "x = ?cs * (va div ?cs) + x mod ?cs" "va = ?cs * (va div ?cs) + ?o" using q mult_div_mod_eq [of ?cs x] mult_div_mod_eq [of ?cs va] by simp_all
    have xm: "x mod ?cs < ?cs" using D(4) by simp
    have rng: "va \<le> x \<and> x < va + length bs \<longleftrightarrow> ?o \<le> x mod ?cs \<and> x mod ?cs < ?o + length bs" "x - va = x mod ?cs - ?o"
      using xv by linarith+
    show ?thesis unfolding rng own_byte_def cl using True w(3) len fit xm
      by (auto simp: nth_append)
  next
    case False
    have "\<not> (va \<le> x \<and> x < va + length bs)"
    proof
      assume r: "va \<le> x \<and> x < va + length bs"
      then have "(va + (x - va)) div ?cs = va div ?cs" using n by (intro same_cluster(1) [OF D(4)]) linarith
      then have "cluster_of im x = ?c" using r by (intro cluster_of_cong) simp
      then show False using False by simp
    qed
    moreover have "cluster_bytes ?h rf' (cluster_of im x) = cluster_bytes ?h (i_rf im) (cluster_of im x)"
      by (rule keeps_bytes [OF k D(9) [OF x] _ D(3)]) (use False in simp)
    ultimately show ?thesis by (auto simp: own_byte_def cl)
  qed
  then show ?thesis using w(1) inv cl by blast
qed

section \<open>The loop of a write\<close>

context byte_source
begin

lemma write_chunk:
  assumes i: "img_inv U im" and k: "backs im backing" and s: "va + m \<le> h_virtualDiskSizeBytes (i_header im)" "0 < m"
    and al: "h_clusterSize (i_header im) dvd h_virtualDiskSizeBytes (i_header im)" and os: "writes_ok os" "reads_ok os"
  defines "cnt \<equiv> min m (h_clusterSize (i_header im) - va mod h_clusterSize (i_header im))"
  shows "(\<exists>im' backing' er U'. fileOffsetWrite os B im backing va = Some (im', backing', Inl er) \<and> write_step U im backing U' im' backing')
    \<or> (\<exists>im1 backing' off U'. fileOffsetWrite os B im backing va = Some (im1, backing', Inr off) \<and> write_step U im backing U' im1 backing'
        \<and> limitRangeCluster (i_rf im1) va m = cnt
        \<and> (\<forall>bs. length bs = cnt \<longrightarrow> (\<exists>rf'. raw_WriteAt os (i_rf im1) bs off = (rf', None) \<and> img_inv U' (im1\<lparr>i_rf := rf'\<rparr>)
           \<and> (\<forall>x < h_virtualDiskSizeBytes (i_header im). guest_byte (im1\<lparr>i_rf := rf'\<rparr>) (below backing') x
                = (if va \<le> x \<and> x < va + cnt then bs ! (x - va) else guest_byte im (below backing) x)))))"
proof -
  let ?h = "i_header im" and ?cs = "h_clusterSize (i_header im)" and ?s = "h_virtualDiskSizeBytes (i_header im)"
  note D = layoutD [OF img_invD(2) [OF i]]
  have va: "va < ?s" using s by simp
  obtain im1 bk' r U1 where w: "fileOffsetWrite os B im backing va = Some (im1, bk', r)" "write_step U im backing U1 im1 bk'"
    "\<forall>a. r = Inr a \<longrightarrow> cluster_of im1 va \<noteq> 0 \<and> a = cluster_of im1 va + va mod ?cs"
    using offset_write_ok [OF i k va al os] by blast
  show ?thesis
  proof (cases r)
    case (Inl er)
    then show ?thesis using w(1,2) by blast
  next
    case (Inr off)
    have i1: "img_inv U1 im1" "i_header im1 = ?h" and g: "\<forall>x < ?s. guest_byte im1 (below bk') x = guest_byte im (below backing) x"
      using w(2) by (simp_all add: write_step_def)
    have c: "cluster_of im1 va \<noteq> 0" "off = cluster_of im1 va + va mod ?cs" using w(3) Inr by auto
    have lim: "limitRangeCluster (i_rf im1) va m = cnt" using limitRange_mod [OF img_invD(2) [OF i1(1)], of va m] by (simp add: i1(2) cnt_def)
    have "\<exists>rf'. raw_WriteAt os (i_rf im1) bs off = (rf', None) \<and> img_inv U1 (im1\<lparr>i_rf := rf'\<rparr>)
        \<and> (\<forall>x < ?s. guest_byte (im1\<lparr>i_rf := rf'\<rparr>) (below bk') x = (if va \<le> x \<and> x < va + cnt then bs ! (x - va) else guest_byte im (below backing) x))"
      if bs: "length bs = cnt" for bs
    proof -
      have n: "length bs \<le> ?cs - va mod ?cs" using bs by (simp add: cnt_def)
      obtain rf' where r: "raw_WriteAt os (i_rf im1) bs off = (rf', None)" "img_inv U1 (im1\<lparr>i_rf := rf'\<rparr>)" "cluster_of (im1\<lparr>i_rf := rf'\<rparr>) = cluster_of im1"
        "\<forall>x. in_tables ?h x \<longrightarrow> cluster_of im1 x \<noteq> 0 \<longrightarrow>
          own_byte (im1\<lparr>i_rf := rf'\<rparr>) x = (if va \<le> x \<and> x < va + length bs then bs ! (x - va) else own_byte im1 x)"
        using raw_write_ok [OF i1(1), unfolded i1(2), OF D(8) [OF va] c(1) os(1) n] unfolding c(2) by blast
      have "guest_byte (im1\<lparr>i_rf := rf'\<rparr>) (below bk') x = (if va \<le> x \<and> x < va + cnt then bs ! (x - va) else guest_byte im (below backing) x)"
        if x: "x < ?s" for x
      proof (cases "cluster_of im1 x = 0")
        case True
        have "\<not> (va \<le> x \<and> x < va + cnt)"
        proof
          assume q: "va \<le> x \<and> x < va + cnt"
          then have "(va + (x - va)) div ?cs = va div ?cs" by (intro same_cluster(1) [OF D(4)]) (auto simp: cnt_def)
          then have "cluster_of im1 x = cluster_of im1 va" using q by (intro cluster_of_cong) (simp add: i1(2))
          then show False using True c(1) by simp
        qed
        moreover have "guest_byte (im1\<lparr>i_rf := rf'\<rparr>) (below bk') x = guest_byte im1 (below bk') x" using True r(3) by (simp add: guest_byte_def)
        ultimately show ?thesis using g x by auto
      next
        case False
        have "guest_byte im1 (below bk') x = own_byte im1 x" "guest_byte (im1\<lparr>i_rf := rf'\<rparr>) (below bk') x = own_byte (im1\<lparr>i_rf := rf'\<rparr>) x"
          using False r(3) by (simp_all add: guest_byte_def)
        then show ?thesis using r(4) False D(8) [OF x] bs g x by simp
      qed
      then show ?thesis using r(1,2) by blast
    qed
    then show ?thesis using w(1,2) Inr lim by blast
  qed
qed

text \<open>Enough fuel: the loop writes the whole range, or a first part of it and reports an error.\<close>

lemma write_loop_ok:
  assumes os: "writes_ok os" "reads_ok os"
  shows "img_inv U im \<Longrightarrow> backs im backing \<Longrightarrow> address + writeCount \<le> h_virtualDiskSizeBytes (i_header im) \<Longrightarrow> writeCount \<le> length data \<Longrightarrow>
    h_clusterSize (i_header im) dvd h_virtualDiskSizeBytes (i_header im) \<Longrightarrow> done \<le> writeCount \<Longrightarrow> writeCount - done < n \<Longrightarrow>
    \<exists>im' backing' er U' k. write_loop n os B address data writeCount im backing done = Some (im', backing', er)
      \<and> img_inv U' im' \<and> i_header im' = i_header im \<and> i_readOnly im' = i_readOnly im \<and> backs im' backing'
      \<and> (backing' = None \<longleftrightarrow> backing = None) \<and> done \<le> k \<and> k \<le> writeCount \<and> (er = None \<longrightarrow> k = writeCount)
      \<and> (\<forall>x < h_virtualDiskSizeBytes (i_header im). guest_byte im' (below backing') x
           = (if address + done \<le> x \<and> x < address + k then data ! (x - address) else guest_byte im (below backing) x))"
proof (induction n arbitrary: im backing U "done")
  case (Suc n)
  let ?s = "h_virtualDiskSizeBytes (i_header im)" and ?va = "address + done" and ?cs = "h_clusterSize (i_header im)"
  note P = Suc.prems
  show ?case
  proof (cases "done < writeCount")
    case False
    then show ?thesis using P
      by (intro exI [of _ im] exI [of _ backing] exI [of _ None] exI [of _ U] exI [of _ "done"]) auto
  next
    case True
    note D = layoutD [OF img_invD(2) [OF P(1)]]
    define m where "m = writeCount - done"
    define cnt where "cnt = min m (?cs - ?va mod ?cs)"
    have in_s: "?va + m \<le> ?s" "0 < m" using P(3) True by (simp_all add: m_def)
    have pos: "0 < cnt" "cnt \<le> m" using in_s(2) D(4) by (simp_all add: cnt_def)
    have u: "u64 ?va = ?va" using D(7) in_s by (intro u64_small) simp
    from write_chunk [OF P(1,2) in_s P(5) os, folded cnt_def] show ?thesis
    proof (elim disjE exE conjE)
      fix im1 bk' er U1
      assume w: "fileOffsetWrite os B im backing ?va = Some (im1, bk', Inl er)" "write_step U im backing U1 im1 bk'"
      have "write_loop (Suc n) os B address data writeCount im backing done = Some (im1, bk', Some er)" using w(1) True u by simp
      then show ?thesis using w(2) True
        by (intro exI [of _ im1] exI [of _ bk'] exI [of _ "Some er"] exI [of _ U1] exI [of _ "done"]) (auto simp: write_step_def same_below_def)
    next
      fix im1 bk' off U1
      assume w: "fileOffsetWrite os B im backing ?va = Some (im1, bk', Inr off)" "write_step U im backing U1 im1 bk'"
        and l: "limitRangeCluster (i_rf im1) ?va m = cnt"
        and b: "\<forall>bs. length bs = cnt \<longrightarrow> (\<exists>rf'. raw_WriteAt os (i_rf im1) bs off = (rf', None) \<and> img_inv U1 (im1\<lparr>i_rf := rf'\<rparr>)
           \<and> (\<forall>x < ?s. guest_byte (im1\<lparr>i_rf := rf'\<rparr>) (below bk') x
                = (if ?va \<le> x \<and> x < ?va + cnt then bs ! (x - ?va) else guest_byte im (below backing) x)))"
      let ?bs = "take cnt (drop done data)"
      have "length ?bs = cnt" using pos(2) P(4) by (simp add: m_def)
      with b obtain rf' where r: "raw_WriteAt os (i_rf im1) ?bs off = (rf', None)" "img_inv U1 (im1\<lparr>i_rf := rf'\<rparr>)"
        "\<forall>x < ?s. guest_byte (im1\<lparr>i_rf := rf'\<rparr>) (below bk') x = (if ?va \<le> x \<and> x < ?va + cnt then ?bs ! (x - ?va) else guest_byte im (below backing) x)"
        by blast
      let ?im = "im1\<lparr>i_rf := rf'\<rparr>"
      have h: "i_header ?im = i_header im" "i_readOnly ?im = i_readOnly im" "backs ?im bk'" "bk' = None \<longleftrightarrow> backing = None"
        using w(2) backs_header [of ?im im1 bk'] by (simp_all add: write_step_def same_below_def)
      have step: "done + cnt \<le> writeCount" "writeCount - (done + cnt) < n" using pos True P(7) unfolding m_def by linarith+
      obtain im2 bk2 er U2 k where q: "write_loop n os B address data writeCount ?im bk' (done + cnt) = Some (im2, bk2, er)"
        "img_inv U2 im2" "i_header im2 = i_header im" "i_readOnly im2 = i_readOnly im" "backs im2 bk2" "bk2 = None \<longleftrightarrow> bk' = None"
        "done + cnt \<le> k" "k \<le> writeCount" "er = None \<longrightarrow> k = writeCount"
        "\<forall>x < ?s. guest_byte im2 (below bk2) x
           = (if address + (done + cnt) \<le> x \<and> x < address + k then data ! (x - address) else guest_byte ?im (below bk') x)"
        using Suc.IH [OF r(2) h(3) _ P(4) _ step] P(3,5) unfolding h(1,2) by blast
      have e: "write_loop (Suc n) os B address data writeCount im backing done = Some (im2, bk2, er)"
        using w(1) True u l r(1) q(1) by (simp add: m_def)
      have "guest_byte im2 (below bk2) x = (if ?va \<le> x \<and> x < address + k then data ! (x - address) else guest_byte im (below backing) x)"
        if x: "x < ?s" for x
      proof -
        have "?bs ! (x - ?va) = data ! (x - address)" if "?va \<le> x" "x < ?va + cnt"
          using that pos(2) P(4) by (simp add: m_def nth_take)
        then show ?thesis using q(7,10) r(3) x by auto
      qed
      then show ?thesis using e q h(4)
        by (intro exI [of _ im2] exI [of _ bk2] exI [of _ er] exI [of _ U2] exI [of _ k]) simp
    qed
  qed
qed simp

end

end
