(* ===== verification/ImageGuest.thy ===== *)
theory ImageGuest
  imports ImageSpec
begin

text \<open>
  The properties of an open image with its chain of backing images: reading returns the guest's bytes, writing changes
  the bytes of the request and no other, and what was written is read back.
\<close>

section \<open>Open images\<close>

text \<open>
  The images of a chain are well formed: the topmost one satisfies the invariant of an image open for writing, or is one
  that is only read, and so are all the images under it.
\<close>

definition open_chain :: "nat set \<Rightarrow> image list \<Rightarrow> bool" where
  "open_chain U ims \<longleftrightarrow>
     (case ims of [] \<Rightarrow> False | im # bs \<Rightarrow> (img_inv U im \<or> clean_ok im) \<and> (\<forall>b \<in> set bs. clean_ok b))"

text \<open>What the loops need of it: in addition, the file calls succeed and no image is shorter than the one above it.\<close>

definition served_chain :: "os_calls \<Rightarrow> nat set \<Rightarrow> image list \<Rightarrow> bool" where
  "served_chain os U ims \<longleftrightarrow>
     (case ims of
        [] \<Rightarrow> False
      | im # bs \<Rightarrow> reads_ok os \<and> writes_ok os \<and> (img_inv U im \<or> clean_ok im)
          \<and> (bs = [] \<or> chain_ok os (length bs) bs \<and> h_virtualDiskSizeBytes (i_header im) \<le> chain_size bs))"

lemma served_iff: "served_chain os U (im # bs) \<longleftrightarrow> reads_ok os \<and> writes_ok os \<and> open_chain U (im # bs) \<and> stacked (im # bs)"
  by (auto simp: served_chain_def open_chain_def chain_ok_def)

lemma writable_id: "layout_ok im \<Longrightarrow> writable im = im"
proof -
  assume "layout_ok im"
  then have "rf_readOnly (i_rf im) = False" using layoutD(3) by (auto simp: geometry_def)
  then show ?thesis unfolding writable_def by (cases im, cases "i_rf im") simp
qed

lemma open_layout: "img_inv U im \<or> clean_ok im \<Longrightarrow> layout_ok (writable im)"
  using img_invD(2) writable_id by (fastforce simp: clean_ok_def)

lemma top_layer:
  "layered_read (read_at n os) (chain_ok os n) chain_byte chain_size os (\<lambda>im. (img_inv U im \<or> clean_ok im) \<and> reads_ok os \<and> writes_ok os)"
proof (rule layered_read.intro [OF chain_source], unfold_locales)
  show "layout_ok (writable im)" "reads_ok os" if "(img_inv U im \<or> clean_ok im) \<and> reads_ok os \<and> writes_ok os" for im
    using that open_layout by blast+
  show "\<exists>im'. fileOffsetRead os im va =
        Some (im', Inr (if cluster_of im va = 0 then None else Some (cluster_of im va + va mod h_clusterSize (i_header im))))
      \<and> ((img_inv U im' \<or> clean_ok im') \<and> reads_ok os \<and> writes_ok os) \<and> same_view im im' \<and> cluster_of im' = cluster_of im"
    if a: "(img_inv U im \<or> clean_ok im) \<and> reads_ok os \<and> writes_ok os" "va < h_virtualDiskSizeBytes (i_header im)" for im va
  proof (cases "clean_ok im")
    case True
    then show ?thesis using clean_locates [OF True a(2), of os] a(1) by blast
  next
    case False
    then have i: "img_inv U im" and os: "reads_ok os" "writes_ok os" using a(1) by blast+
    note L = img_invD(2) [OF i]
    obtain im' where r: "fileOffsetRead os im va =
        Some (im', Inr (if cluster_of im va = 0 then None else Some (cluster_of im va + va mod h_clusterSize (i_header im))))" "read_step im im'"
      using fileOffsetRead_ok [OF L a(2) os] by blast
    then show ?thesis using read_step_inv [OF i r(2)] read_step_same [OF r(2) L] read_step_view(2) [OF r(2) L] os by blast
  qed
qed

interpretation top: layered_read "read_at n os" "chain_ok os n" chain_byte chain_size os
    "\<lambda>im. (img_inv U im \<or> clean_ok im) \<and> reads_ok os \<and> writes_ok os" for n os U
  by (rule top_layer)

lemma whole_source: "byte_source (ReadAt os) (\<lambda>ims. chain_ok os (length ims) ims) chain_byte chain_size"
proof
  fix b a n
  assume "chain_ok os (length b) b" "a + n \<le> chain_size b" "int n \<le> maxAlloc"
  from chain.serves [OF this] show "\<exists>b'. ReadAt os b a n = Some (b', Inr (map (chain_byte b) [a..<a + n])) \<and> chain_ok os (length b') b'
      \<and> chain_size b' = chain_size b \<and> (\<forall>va < chain_size b. chain_byte b' va = chain_byte b va)"
    by (auto simp: ReadAt_def chain_ok_def)
qed

interpretation whole: byte_source "ReadAt os" "\<lambda>ims. chain_ok os (length ims) ims" chain_byte chain_size for os
  by (rule whole_source)

lemma limit_bounds: "limitRangeFile h a n \<le> n" "limitRangeFile h a n = 0 \<or> a + limitRangeFile h a n \<le> h_virtualDiskSizeBytes h"
  by (auto simp: limitRangeFile_def Let_def)

lemma below_rest: "byte_source.below chain_byte (rest bs) = chain_byte bs"
  by (auto simp: chain.below_def rest_def fun_eq_iff)

lemma backs_rest: "byte_source.backs (chain_ok os n) chain_size im (rest bs)
    \<longleftrightarrow> bs = [] \<or> chain_ok os n bs \<and> h_virtualDiskSizeBytes (i_header im) \<le> chain_size bs"
  by (simp add: chain.backs_def rest_def)

lemma backs_whole: "byte_source.backs (\<lambda>ims. chain_ok os (length ims) ims) chain_size im (rest bs)
    \<longleftrightarrow> bs = [] \<or> chain_ok os (length bs) bs \<and> h_virtualDiskSizeBytes (i_header im) \<le> chain_size bs"
  by (simp add: whole.backs_def rest_def)

text \<open>Every backing state that a loop returns is the rest of a chain.\<close>

lemma rest_cases: "back' = None \<or> (\<exists>bs. back' = Some bs \<and> bs \<noteq> []) \<Longrightarrow> back' = rest (case back' of None \<Rightarrow> [] | Some bs \<Rightarrow> bs)"
  by (auto simp: rest_def)

lemma read_at_ok:
  assumes o: "served_chain os U (im # bs)" and fits: "int count \<le> maxAlloc"
  shows "\<exists>im' bs'. ReadAt os (im # bs) address count = Some (im' # bs', Inr (map (chain_byte (im # bs)) [address..<address + limitRangeFile (i_header im) address count]))
     \<and> served_chain os U (im' # bs') \<and> i_header im' = i_header im \<and> (\<forall>va < h_virtualDiskSizeBytes (i_header im). chain_byte (im' # bs') va = chain_byte (im # bs) va)"
proof -
  let ?c = "limitRangeFile (i_header im) address count" and ?s = "h_virtualDiskSizeBytes (i_header im)"
  have f: "(img_inv U im \<or> clean_ok im) \<and> reads_ok os \<and> writes_ok os" using o by (simp add: served_chain_def)
  have k: "byte_source.backs (chain_ok os (length bs)) chain_size im (rest bs)" using o by (auto simp: backs_rest served_chain_def)
  have "\<exists>im' bk. read_loop (Suc ?c) os (read_at (length bs) os) address ?c im (rest bs) 0 []
        = Some (im', bk, Inr (map (chain_byte (im # bs)) [address..<address + ?c]))
      \<and> (img_inv U im' \<or> clean_ok im') \<and> same_view im im' \<and> byte_source.backs (chain_ok os (length bs)) chain_size im' bk
      \<and> byte_source.same_below chain_byte ?s (rest bs) bk"
  proof (cases "?c = 0")
    case True
    then show ?thesis using f k by (auto simp: same_view_refl chain.same_below_refl)
  next
    case False
    then have "address + ?c \<le> ?s" using limit_bounds(2) [of "i_header im" address count] by auto
    moreover have "guest_byte im (chain_byte bs) = chain_byte (im # bs)" by (simp add: fun_eq_iff)
    ultimately show ?thesis using top.read_loop_ok [OF f k, of address ?c 0 "Suc ?c" "[]"] by (auto simp: below_rest simp del: chain_byte.simps)
  qed
  then obtain im' bk where r: "read_loop (Suc ?c) os (read_at (length bs) os) address ?c im (rest bs) 0 []
        = Some (im', bk, Inr (map (chain_byte (im # bs)) [address..<address + ?c]))" "img_inv U im' \<or> clean_ok im'" "same_view im im'"
    "byte_source.backs (chain_ok os (length bs)) chain_size im' bk" "byte_source.same_below chain_byte ?s (rest bs) bk" by blast
  define bs' where "bs' = (case bk of None \<Rightarrow> [] | Some x \<Rightarrow> x)"
  have h: "i_header im' = i_header im" using r(3) by (simp add: same_view_def)
  have bk: "bk = rest bs'" using r(4) unfolding bs'_def by (intro rest_cases) (auto simp: chain.backs_def chain_ok_def split: option.splits)
  have bb: "bs' = [] \<or> chain_ok os (length bs) bs' \<and> ?s \<le> chain_size bs'" using r(4) by (simp add: bk backs_rest h)
  then have "bs' = [] \<or> chain_ok os (length bs') bs' \<and> ?s \<le> chain_size bs'" by (auto simp: chain_ok_def)
  then have "served_chain os U (im' # bs')" using r(2) f by (simp add: served_chain_def h)
  moreover have "chain_byte (im' # bs') va = chain_byte (im # bs) va" if "va < ?s" for va
    using chain_byte_cong [OF r(3) that, of "chain_byte bs'" "chain_byte bs"] r(5) that by (simp add: bk chain.same_below_def below_rest)
  moreover have "ReadAt os (im # bs) address count = Some (im' # bs', Inr (map (chain_byte (im # bs)) [address..<address + ?c]))"
    using r(1) fits by (simp add: ReadAt_def rest_def bs'_def del: read_loop.simps chain_byte.simps)
  ultimately show ?thesis using h by blast
qed

lemma write_at_ok:
  assumes o: "served_chain os U (im # bs)" and i: "img_inv U im" "\<not> i_readOnly im"
    and al: "h_clusterSize (i_header im) dvd h_virtualDiskSizeBytes (i_header im)"
  shows "\<exists>im' bs' er U' k. WriteAt os (im # bs) address data = Some (im' # bs', er) \<and> served_chain os U' (im' # bs') \<and> img_inv U' im'
     \<and> i_header im' = i_header im \<and> \<not> i_readOnly im'
     \<and> k \<le> limitRangeFile (i_header im) address (length data) \<and> (er = None \<longrightarrow> k = limitRangeFile (i_header im) address (length data))
     \<and> (\<forall>va < h_virtualDiskSizeBytes (i_header im). chain_byte (im' # bs') va
          = (if address \<le> va \<and> va < address + k then data ! (va - address) else chain_byte (im # bs) va))"
proof -
  let ?c = "limitRangeFile (i_header im) address (length data)" and ?s = "h_virtualDiskSizeBytes (i_header im)"
  have os: "writes_ok os" "reads_ok os" using o by (simp_all add: served_chain_def)
  have k: "byte_source.backs (\<lambda>ims. chain_ok os (length ims) ims) chain_size im (rest bs)" using o by (auto simp: backs_whole served_chain_def)
  have "\<exists>im' bk er U' k. write_loop (Suc ?c) os (ReadAt os) address data ?c im (rest bs) 0 = Some (im', bk, er)
      \<and> img_inv U' im' \<and> i_header im' = i_header im \<and> i_readOnly im' = i_readOnly im
      \<and> byte_source.backs (\<lambda>ims. chain_ok os (length ims) ims) chain_size im' bk
      \<and> k \<le> ?c \<and> (er = None \<longrightarrow> k = ?c)
      \<and> (\<forall>x < ?s. guest_byte im' (byte_source.below chain_byte bk) x
           = (if address \<le> x \<and> x < address + k then data ! (x - address) else guest_byte im (chain_byte bs) x))"
  proof (cases "?c = 0")
    case True
    then show ?thesis using i k by (intro exI [of _ im] exI [of _ "rest bs"] exI [of _ None] exI [of _ U] exI [of _ 0]) (auto simp: below_rest)
  next
    case False
    then have "address + ?c \<le> ?s" using limit_bounds(2) [of "i_header im" address "length data"] by auto
    moreover have "?c - 0 < Suc ?c" by simp
    ultimately show ?thesis
      using whole.write_loop_ok [OF os i(1) k _ limit_bounds(1) al le0] unfolding below_rest add_0_right by blast
  qed
  then obtain im' bk er U' k where r: "write_loop (Suc ?c) os (ReadAt os) address data ?c im (rest bs) 0 = Some (im', bk, er)"
    "img_inv U' im'" "i_header im' = i_header im" "i_readOnly im' = i_readOnly im"
    "byte_source.backs (\<lambda>ims. chain_ok os (length ims) ims) chain_size im' bk" "k \<le> ?c" "er = None \<longrightarrow> k = ?c"
    "\<forall>x < ?s. guest_byte im' (byte_source.below chain_byte bk) x
           = (if address \<le> x \<and> x < address + k then data ! (x - address) else guest_byte im (chain_byte bs) x)" by blast
  define bs' where "bs' = (case bk of None \<Rightarrow> [] | Some x \<Rightarrow> x)"
  have bk: "bk = rest bs'" using r(5) unfolding bs'_def whole.backs_def by (intro rest_cases) (auto simp: chain_ok_def split: option.splits)
  have "served_chain os U' (im' # bs')" using r(2,3,5) os by (simp add: served_chain_def bk backs_whole)
  moreover have "WriteAt os (im # bs) address data = Some (im' # bs', er)"
    using r(1) i(2) by (simp add: WriteAt_def rest_def bs'_def del: write_loop.simps)
  ultimately show ?thesis using r i(2)
    by (intro exI [of _ im'] exI [of _ bs'] exI [of _ er] exI [of _ U'] exI [of _ k]) (simp add: bk below_rest)
qed

section \<open>An example\<close>

text \<open>The image of the pointer tables, whose reference counts have no block yet, over a read-only copy of it.\<close>

definition demo_counts :: ReferenceCountWriteBack where
  "demo_counts = \<lparr>rc_table = vectorCacheFromArray [0], rc_offset = 1536, rc_cache = newCacheMap 2, rc_perBlock = 256, rc_clusterSize = 512,
     rc_maxValidClusterOffset = 130560, rc_evicted = []\<rparr>"

definition demo_image :: "bool \<Rightarrow> image" where
  "demo_image b = \<lparr>i_rf = demo_rf\<lparr>rf_readOnly := b\<rparr>, i_header = demo_header,
     i_pt = demo_tables (vectorCacheFromArray [1024, 0]) 1024 (vectorCacheFromArray (replicate 64 0)), i_rc = demo_counts,
     i_unrefClusters = [], i_availClusters = [], i_closed = False, i_readOnly = b\<rparr>"

lemma demo_marked: "demo_rf\<lparr>rf_readOnly := False\<rparr> = demo_rf"
  by (simp add: demo_rf_def)

lemma demo_pt:
  "pt_image demo_rf (i_pt (demo_image b)) = [Some (replicate 64 0), None]" "pt_used demo_rf (i_pt (demo_image b)) = {1024, 0}"
proof -
  have c: "lru_map (pc_cache (i_pt (demo_image b))) = [1024 \<mapsto> vectorCacheFromArray (replicate 64 0)]"
    by (simp add: demo_image_def demo_tables_def demo_cache)
  have l: "vc_data (pc_l1 (i_pt (demo_image b))) = [1024, 0]" "pc_header (i_pt (demo_image b)) = demo_header"
    by (simp_all add: demo_image_def demo_tables_def vectorCacheFromArray_def)
  show "pt_image demo_rf (i_pt (demo_image b)) = [Some (replicate 64 0), None]"
    by (simp add: pt_image_def mem_image_def l c l2_table_def vectorCacheFromArray_def)
  show "pt_used demo_rf (i_pt (demo_image b)) = {1024, 0}"
    using demo_disk(2) by (auto simp: pt_used_def l c)
qed

lemma demo_tables_in: "in_tables demo_header va \<longleftrightarrow> va < 65536"
  by (simp add: in_tables_def l1TableIndex_def demo_header_def div_less_iff_less_mult)

lemma demo_cluster: "va < 65536 \<Longrightarrow> cluster_of (demo_image b) va = 0"
proof -
  assume "va < 65536"
  then have "l1TableIndex demo_header va < 2" using demo_tables_in [of va] by (simp add: in_tables_def demo_header_def)
  moreover have "l2TableIndex demo_header va < 64" by (simp add: l2TableIndex_def demo_header_def)
  moreover have "i_header (demo_image b) = demo_header" "i_rf (demo_image b) = demo_rf\<lparr>rf_readOnly := b\<rparr>" by (simp_all add: demo_image_def)
  ultimately show ?thesis by (auto simp: cluster_of_def demo_pt entry_def less_2_cases_iff)
qed

lemma demo_layout: "layout_ok (writable (demo_image b))"
proof -
  have p: "i_pt (writable (demo_image b)) = i_pt (demo_image b)" "i_rf (writable (demo_image b)) = demo_rf"
    by (simp_all add: writable_def demo_image_def demo_marked)
  have h: "i_header (demo_image b) = demo_header" by (simp add: demo_image_def)
  have "pt_inv demo_rf (i_pt (demo_image b))" "pc_header (i_pt (demo_image b)) = demo_header"
    using demo_clean by (simp_all add: demo_image_def demo_tables_def)
  moreover have "h_clusterSize demo_header = 2 ^ 9" "rf_clusterMask demo_rf = 511" "h_virtualDiskSizeBytes demo_header = 65536"
    by (simp_all add: demo_header_def demo_rf_def)
  ultimately show ?thesis
    unfolding layout_ok_def writable_view p h using demo_tables_in demo_cluster by (auto intro: exI [of _ 9])
qed

lemma demo_inv: "img_inv {0, 512, 1024, 1536} (demo_image False)"
proof -
  have w: "writable (demo_image False) = demo_image False" by (simp add: writable_def demo_image_def)
  have f: "i_rf (demo_image False) = demo_rf" "i_header (demo_image False) = demo_header" "i_rc (demo_image False) = demo_counts"
    by (simp_all add: demo_image_def demo_marked)
  have "rc_ok demo_header demo_rf demo_counts"
    by (intro rc_okI) (simp_all add: demo_counts_def vectorCacheFromArray_def demo_header_def lru_new)
  moreover have "(512::nat) = 2 ^ 9" by simp
  then have "\<exists>n \<ge> 9. (512::nat) = 2 ^ n" by blast
  then have "pool_ok demo_header (pool_of (demo_image False)) demo_rf {0, 512, 1024, 1536}"
    by (simp add: pool_ok_def pool_of_def demo_image_def demo_counts_def) (simp add: demo_header_def demo_rf_def)
  moreover have "rc_used demo_counts = {}" by (simp add: rc_used_def demo_counts_def vectorCacheFromArray_def)
  moreover have "length (fdata (rf_file demo_rf)) = 2048" "h_clusterSize demo_header = 512" "rc_maxValidClusterOffset demo_counts = 130560"
    by (simp_all add: demo_rf_def demo_header_def demo_counts_def)
  ultimately have "core_ok {0, 512, 1024, 1536} (demo_image False)" using demo_disk(1) by (simp add: core_ok_def f)
  then show ?thesis
    using demo_layout [of False] \<open>rc_used demo_counts = {}\<close> demo_pt(2) [of False] demo_cluster [of _ False]
    unfolding w by (intro img_invI) (auto simp: f demo_tables_in)
qed

lemma demo_open:
  "open_chain {0, 512, 1024, 1536} [demo_image False, demo_image True]" "stacked [demo_image False, demo_image True]"
proof -
  have c: "lru_map (pc_cache (i_pt (demo_image True))) = [1024 \<mapsto> vectorCacheFromArray (replicate 64 0)]"
    by (simp add: demo_image_def demo_tables_def demo_cache)
  have "lru_ok (pc_cache (i_pt (demo_image True)))" "0 < lru_capacity (pc_cache (i_pt (demo_image True)))"
    using demo_clean by (simp_all add: pt_inv_def demo_image_def)
  then have "clean_ok (demo_image True)"
    using demo_layout [of True] by (simp add: clean_ok_def clean_tables_cached_def c dirty_in_def vectorCacheFromArray_def)
  then show "open_chain {0, 512, 1024, 1536} [demo_image False, demo_image True]" using demo_inv by (simp add: open_chain_def)
  show "stacked [demo_image False, demo_image True]" by (simp add: chain_size_def) (simp add: demo_image_def)
qed

section \<open>The properties\<close>

text \<open>
  C16. While the calls to the files succeed and no image of the chain is smaller than the one above it, reading from an
  open image, which may be open for writing or read-only and lie over a chain of read-only images, returns the guest's
  bytes of the range that lies inside the disk: those of the topmost image that has the cluster, or zeros.  It changes no
  guest byte and keeps the chain well formed.  A request of more than \<open>2 ^ 48\<close> bytes panics, wherever it starts,
  because the buffer is made with the requested size.
\<close>

theorem read_returns_guest_bytes:
  assumes "reads_ok os" "writes_ok os" "open_chain U (im # bs)" "stacked (im # bs)"
  shows "if maxAlloc < int count then ReadAt os (im # bs) address count = None
     else \<exists>im' bs'. ReadAt os (im # bs) address count
         = Some (im' # bs', Inr (map (chain_byte (im # bs)) [address..<address + limitRangeFile (i_header im) address count]))
       \<and> open_chain U (im' # bs') \<and> stacked (im' # bs')
       \<and> (\<forall>va < h_virtualDiskSizeBytes (i_header im). chain_byte (im' # bs') va = chain_byte (im # bs) va)"
proof (cases "maxAlloc < int count")
  case False
  then have fits: "int count \<le> maxAlloc" by simp
  have "served_chain os U (im # bs)" using assms by (simp only: served_iff)
  from read_at_ok [OF this fits, of address] False show ?thesis unfolding served_iff by (simp only: if_False) blast
qed (simp add: ReadAt_def)

theorem read_returns_guest_bytes_witness:
  "(\<exists>im' bs'. ReadAt healthy_os [demo_image False, demo_image True] 510 4
      = Some (im' # bs', Inr (map (chain_byte [demo_image False, demo_image True]) [510..<514])))
   \<and> ReadAt healthy_os [demo_image False, demo_image True] 510 (2 ^ 60) = None"
proof -
  have "limitRangeFile (i_header (demo_image False)) 510 4 = 4"
    by (simp add: limitRangeFile_def checkAddUint64Boundaries_def demo_image_def demo_header_def)
  moreover note R = read_returns_guest_bytes [OF _ _ demo_open, of healthy_os _ 510]
  have "reads_ok healthy_os" "writes_ok healthy_os" using healthy_os_ok by blast+
  note R [OF this, of 4] R [OF this, of "2 ^ 60"]
  ultimately show ?thesis by (auto simp: maxAlloc_def simp del: chain_byte.simps)
qed

text \<open>
  C15. While the calls that read and write the files succeed, no image of the chain is smaller than the one above it, and
  the size of the disk is a multiple of the cluster size, writing to an image that is open for writing returns, keeps the
  chain well formed, and puts the first \<open>k\<close> bytes of the request at their addresses, where \<open>k\<close> is the whole part of the
  request that lies inside the disk when there is no error.  Every other byte of the disk stays what it was, whatever
  clusters, tables and blocks of counts were made on the way, and also when the file cannot be made longer, or no cluster
  is left, which are the errors that remain.
\<close>

theorem write_changes_only_range:
  assumes "reads_ok os" "writes_ok os" "open_chain U (im # bs)" "stacked (im # bs)"
    and "img_inv U im" "\<not> i_readOnly im" "h_clusterSize (i_header im) dvd h_virtualDiskSizeBytes (i_header im)"
  shows "\<exists>im' bs' er U' k. WriteAt os (im # bs) address data = Some (im' # bs', er)
     \<and> open_chain U' (im' # bs') \<and> stacked (im' # bs') \<and> img_inv U' im'
     \<and> k \<le> limitRangeFile (i_header im) address (length data) \<and> (er = None \<longrightarrow> k = limitRangeFile (i_header im) address (length data))
     \<and> (\<forall>va < h_virtualDiskSizeBytes (i_header im). chain_byte (im' # bs') va
          = (if address \<le> va \<and> va < address + k then data ! (va - address) else chain_byte (im # bs) va))"
proof -
  have "served_chain os U (im # bs)" using assms(1-4) by (simp only: served_iff)
  from write_at_ok [OF this assms(5-7), of address data] show ?thesis unfolding served_iff by blast
qed

lemma demo_writable: "\<not> i_readOnly (demo_image False)"
  "h_clusterSize (i_header (demo_image False)) dvd h_virtualDiskSizeBytes (i_header (demo_image False))"
  by (simp_all add: demo_image_def demo_header_def)

theorem write_changes_only_range_witness:
  "\<exists>ims' er U'. WriteAt healthy_os [demo_image False, demo_image True] 510 [1, 2, 3, 4] = Some (ims', er) \<and> open_chain U' ims'
     \<and> chain_byte ims' 509 = chain_byte [demo_image False, demo_image True] 509"
proof -
  have "h_virtualDiskSizeBytes (i_header (demo_image False)) = 65536" by (simp add: demo_image_def demo_header_def)
  moreover have "reads_ok healthy_os" "writes_ok healthy_os" using healthy_os_ok by blast+
  ultimately show ?thesis
    using write_changes_only_range [OF _ _ demo_open demo_inv demo_writable, of healthy_os 510 "[1, 2, 3, 4]"]
    by (fastforce simp del: chain_byte.simps)
qed

text \<open>
  What a write has put on the disk is read back: the whole part of the request inside the disk when the write reported no
  error, and otherwise the first \<open>k\<close> bytes that it wrote before the error.
\<close>

lemma write_then_read:
  assumes "served_chain os U (im # bs)" "img_inv U im" "\<not> i_readOnly im" "h_clusterSize (i_header im) dvd h_virtualDiskSizeBytes (i_header im)"
    and small: "int (length data) \<le> maxAlloc"
  shows "\<exists>ims' er ims'' k. WriteAt os (im # bs) address data = Some (ims', er)
     \<and> (er = None \<longrightarrow> k = limitRangeFile (i_header im) address (length data))
     \<and> ReadAt os ims' address k = Some (ims'', Inr (take k data))"
proof -
  let ?c = "limitRangeFile (i_header im) address (length data)"
  obtain im' bs' er U' k where w: "WriteAt os (im # bs) address data = Some (im' # bs', er)" "served_chain os U' (im' # bs')"
    "i_header im' = i_header im" "k \<le> ?c" "er = None \<longrightarrow> k = ?c"
    "\<forall>va < h_virtualDiskSizeBytes (i_header im). chain_byte (im' # bs') va
        = (if address \<le> va \<and> va < address + k then data ! (va - address) else chain_byte (im # bs) va)"
    using write_at_ok [OF assms(1-4)] by blast
  have fits: "k = 0 \<or> address + k \<le> h_virtualDiskSizeBytes (i_header im)" "k \<le> length data"
    using w(4) limit_bounds [of "i_header im" address "length data"] by auto
  have size: "h_virtualDiskSizeBytes (i_header im) < 2 ^ 63" using layoutD(7) [OF img_invD(2) [OF assms(2)]] .
  have lim: "limitRangeFile (i_header im') address k = k"
  proof (cases "k = 0")
    case False
    then show ?thesis using fits(1) size by (simp add: w(3) limit_inside)
  qed (use limit_bounds(1) [of "i_header im'" address 0] in simp)
  have "map (chain_byte (im' # bs')) [address..<address + k] = take k data"
  proof (rule nth_equalityI)
    show "length (map (chain_byte (im' # bs')) [address..<address + k]) = length (take k data)" using fits(2) by simp
    fix j assume "j < length (map (chain_byte (im' # bs')) [address..<address + k])"
    then have j: "j < k" by simp
    then have "address + j < h_virtualDiskSizeBytes (i_header im)" using fits(1) by auto
    then show "map (chain_byte (im' # bs')) [address..<address + k] ! j = take k data ! j"
      using w(6) j by (simp del: chain_byte.simps)
  qed
  then obtain ims'' where "ReadAt os (im' # bs') address k = Some (ims'', Inr (take k data))"
    using read_at_ok [OF w(2), of k address] lim fits(2) small by auto
  then show ?thesis using w(1,5) by blast
qed

lemma write_then_read_example:
  "\<exists>ims' er ims'' k. WriteAt healthy_os [demo_image False, demo_image True] 510 [1, 2, 3, 4] = Some (ims', er)
     \<and> (er = None \<longrightarrow> k = 4) \<and> ReadAt healthy_os ims' 510 k = Some (ims'', Inr (take k [1, 2, 3, 4]))"
proof -
  have "limitRangeFile (i_header (demo_image False)) 510 (length [1, 2, 3, 4 :: byte]) = 4"
    by (simp add: limitRangeFile_def checkAddUint64Boundaries_def demo_image_def demo_header_def)
  moreover have "served_chain healthy_os {0, 512, 1024, 1536} [demo_image False, demo_image True]"
    using demo_open healthy_os_ok by (simp only: served_iff)
  moreover have "int (length [1, 2, 3, 4 :: byte]) \<le> maxAlloc" by (simp add: maxAlloc_def)
  ultimately show ?thesis using write_then_read [OF _ demo_inv demo_writable, of healthy_os "[demo_image True]" "[1, 2, 3, 4]" 510] by metis
qed

end
