(* ===== verification/CountReuse.thy ===== *)
theory CountReuse
  imports ImageGuest
begin

text \<open>
  A block of reference counts that is in the file but not in the cache: when a count in it is set, the cluster of the
  block itself is reported as dropped, so \<open>Flush\<close> offers it for new data while the table still names it.
\<close>

lemma live_block_returned:
  assumes r: "rc_ok h rf rc" and g: "geometry h rf" and os: "writes_ok os"
    and t: "ti = address div h_clusterSize h div rc_perBlock rc" "ti < length (vc_data (rc_table rc))"
    and a: "vc_data (rc_table rc) ! ti = a" "a \<noteq> 0" and n: "lru_map (rc_cache rc) ti = None" "ti \<notin> set (rc_evicted rc)"
    and b: "length block = rc_perBlock rc"
  shows "\<exists>rf' rc'. rc_setClusterRefcount os rf rc address cnt (Some (a, vectorCacheFromArray block)) = Some (rf', rc', Inr (Some a))
     \<and> vc_data (rc_table rc') ! ti = a \<and> ti < length (vc_data (rc_table rc'))"
proof -
  let ?new = "Some (a, vectorCacheFromArray block)"
  define bi where "bi = address div h_clusterSize h mod rc_perBlock rc"
  have ix: "getRefcountIndex address (rc_clusterSize rc) (rc_perBlock rc) = (ti, bi)"
    using rc_okD(3) [OF r] by (simp add: getRefcountIndex_def t(1) bi_def)
  have "cluster_ok h rf a" using rc_okD(7) [OF r, of a] a t(2) by auto
  then have new: "new_ok h rf rc ?new" using b by (simp add: new_ok_def vectorCacheFromArray_def)
  have ns: "\<not> settled rc ti" using n by (simp add: settled_def dirty_in_def)
  obtain rf1 rc1 er where c: "cache_block os rf rc ti ?new = Some (rf1, rc1, er)" "rc_step h (new_cluster ?new) rf rc rf1 rc1"
    "case er of
          None \<Rightarrow> lru_map (rc_cache rc1) ti \<noteq> None \<and> (settled rc1 ti \<longleftrightarrow> settled rc ti \<or> lru_map (rc_cache rc) ti = None \<and> ?new \<noteq> None \<and> vc_dirty (snd (the ?new)))
        | Some e \<Rightarrow> ?new = None \<and> rf1 = rf \<and> rc1 = rc \<and> (e = ErrNeedNewCluster \<and> \<not> settled rc ti \<or> (\<exists>a \<in> rc_used rc. e = ErrNeedReadCluster a))"
    using cache_block_ok [OF r g os t(2) new] by blast
  have er: "er = None" using c(3) by (cases er) auto
  then have s1: "\<not> settled rc1 ti" "lru_map (rc_cache rc1) ti \<noteq> None" using c(3) ns by (auto simp: vectorCacheFromArray_def)
  note S = c(2) [unfolded rc_step_def]
  have r1: "rc_ok h rf1 rc1" and l1: "ti < length (vc_data (rc_table rc1))" and p1: "rc_perBlock rc1 = rc_perBlock rc" using S t(2) by simp_all
  obtain v where v: "lru_map (rc_cache rc1) ti = Some v" using s1(2) by auto
  obtain c' d where lg: "lru_get (rc_cache rc1) ti = (c', Some d)" "lru_ok c'" "lru_map c' = lru_map (rc_cache rc1)"
    "lru_vectors c' ! d = v" "lru_capacity c' = lru_capacity (rc_cache rc1)"
    using lru_get_map [OF rc_okD(1) [OF r1] v] by metis
  have clean: "\<not> vc_dirty v" "ti \<notin> set (rc_evicted rc1)" using s1(1) v by (auto simp: settled_def dirty_in_def)
  define tb where "tb = \<lparr>vc_data = (vc_data (rc_table rc1))[ti := a], vc_dirty = True\<rparr>"
  have vs: "vc_set (rc_table rc1) ti a = Some tb" using l1 by (simp add: vc_set_def tb_def)
  obtain c3 d3 where g3: "lru_get c' ti = (c3, Some d3)" "lru_vectors c3 ! d3 = v"
    using lru_get_map [OF lg(2), of ti v] lg(3) v by metis
  have "length (vc_data v) = rc_perBlock rc" using rc_okD(8) [OF r1 v] p1 by (simp add: block_ok_def)
  then have "bi < length (vc_data v)" using rc_okD(5) [OF r] by (simp add: bi_def)
  then obtain v3 where "vc_set v bi cnt = Some v3" by (simp add: vc_set_def)
  then have pr: "put_refcount (rc1\<lparr>rc_cache := c', rc_table := tb\<rparr>) ti bi cnt = Some (rc1\<lparr>rc_cache := put_vector c3 d3 v3, rc_table := tb\<rparr>)"
    using g3 by (simp add: put_refcount_def)
  have "vc_get (rc_table rc) ti = Some a" using t(2) a(1) by (simp add: vc_get_def)
  then have "rc_setClusterRefcount os rf rc address cnt ?new = Some (rf1, rc1\<lparr>rc_cache := put_vector c3 d3 v3, rc_table := tb\<rparr>, Inr (Some a))"
    using ix c(1) er lg(1,4) clean vs pr by (simp add: rc_setClusterRefcount_def)
  then show ?thesis using l1 by (simp add: tb_def)
qed

lemma flush_keeps_table:
  "flushBlocks os ks rf rc = Some (rf', rc', er) \<Longrightarrow> rc_table rc' = rc_table rc"
  by (induction ks arbitrary: rf rc) (auto simp: Let_def split: option.splits prod.splits if_splits)

lemma Flush_avail:
  assumes "Flush os ks bs im = Some (im', None)"
  shows "set (i_unrefClusters im) \<subseteq> set (i_availClusters im')" "vc_data (rc_table (i_rc im')) = vc_data (rc_table (i_rc im))"
proof -
  obtain im1 where s: "syncCache os ks bs im = Some (im1, None)"
    "im' = im1\<lparr>i_availClusters := i_availClusters im1 @ i_unrefClusters im1, i_unrefClusters := []\<rparr>"
    using assms by (auto simp: Flush_def split: option.splits prod.splits)
  have "i_unrefClusters im1 = i_unrefClusters im \<and> vc_data (rc_table (i_rc im1)) = vc_data (rc_table (i_rc im))"
    using s(1) flush_keeps_table unfolding syncCache_def flushTable_def
    by (auto simp: vc_markClean_def split: option.splits prod.splits sum.splits if_splits)
  then show "set (i_unrefClusters im) \<subseteq> set (i_availClusters im')" "vc_data (rc_table (i_rc im')) = vc_data (rc_table (i_rc im))"
    using s(2) by auto
qed

text \<open>
  C37. The code reuses a cluster that is in use.  A count is set in a block that the table of the file names and that is not in the cache;
  no cluster is added, no block is written, yet the block's own cluster is reported as dropped.  After the next successful
  \<open>Flush\<close> it is available for new data, and the table still names it as the block that holds these counts.
\<close>

theorem live_count_block_reused:
  assumes "core_ok U im" "address \<in> U" "writes_ok os" "reads_ok os"
    "ti = address div h_clusterSize (i_header im) div rc_perBlock (i_rc im)"
    "vc_data (rc_table (i_rc im)) ! ti = a" "a \<noteq> 0" "lru_map (rc_cache (i_rc im)) ti = None" "ti \<notin> set (rc_evicted (i_rc im))"
  shows "\<exists>im'. set_refcounts os im [(address, cnt)] = Some (im', None)
     \<and> (\<forall>ks bs im''. Flush os ks bs im' = Some (im'', None) \<longrightarrow> a \<in> set (i_availClusters im'') \<and> a \<in> rc_used (i_rc im''))"
proof -
  let ?h = "i_header im"
  note C = core_okD [OF assms(1)] and R = rc_okD [OF core_okD(2) [OF assms(1)]]
  have t: "ti < length (vc_data (rc_table (i_rc im)))"
    unfolding assms(5) by (rule in_table [OF assms(1) used_in_table [OF assms(1,2)]])
  have ok: "cluster_ok ?h (i_rf im) a" using R(7) assms(6,7) t by auto
  have ix: "getRefcountIndex address (rc_clusterSize (i_rc im)) (rc_perBlock (i_rc im))
      = (ti, address div h_clusterSize ?h mod rc_perBlock (i_rc im))" using R(3) assms(5) by (simp add: getRefcountIndex_def)
  have "\<not> containsKey (rc_cache (i_rc im)) ti" using lru_map_contains [OF R(1)] assms(8) by simp
  then have first: "rc_setClusterRefcount os (i_rf im) (i_rc im) address cnt None = Some (i_rf im, i_rc im, Inl (ErrNeedReadCluster a))"
    using ix t assms(6,7) by (simp add: rc_setClusterRefcount_def cache_block_def vc_get_def)
  obtain q vs where rd: "readRefCountBlock os (i_rf im) a = ((i_rf im)\<lparr>rf_file := (rf_file (i_rf im))\<lparr>fpos := q\<rparr>\<rparr>, Inr vs)" "length vs = rc_perBlock (i_rc im)"
    using readRefCountBlock_ok [OF assms(4) C(1) ok R(4)] by blast
  define im1 where "im1 = im\<lparr>i_rf := (i_rf im)\<lparr>rf_file := (rf_file (i_rf im))\<lparr>fpos := q\<rparr>\<rparr>\<rparr>"
  have C1: "core_ok U im1" "i_header im1 = ?h" "i_rc im1 = i_rc im" using core_fpos [OF assms(1), of q] by (simp_all add: im1_def)
  note D = core_okD [OF C1(1), unfolded C1(2,3)]
  obtain rf2 rc2 where second: "rc_setClusterRefcount os (i_rf im1) (i_rc im) address cnt (Some (a, vectorCacheFromArray vs)) = Some (rf2, rc2, Inr (Some a))"
    "vc_data (rc_table rc2) ! ti = a" "ti < length (vc_data (rc_table rc2))"
    using live_block_returned [OF D(2,1) assms(3) assms(5) t assms(6-9) rd(2), of cnt] by blast
  define im2 where "im2 = im1\<lparr>i_rf := rf2, i_rc := rc2\<rparr>"
  have one: "refcount_loop (Suc k) os im1 address cnt (Some (a, vectorCacheFromArray vs)) [] = Some (im2, Inr ([], [a]))" for k
    using second(1) C1(3) by (simp add: im2_def)
  have "refcount_loop (Suc k) os im address cnt None [] = refcount_loop k os im1 address cnt (Some (a, vectorCacheFromArray vs)) []" for k
    using first rd(1) by (simp add: im1_def)
  then have "refcount_loop 2 os im address cnt None [] = Some (im2, Inr ([], [a]))" using one by (simp only: numeral_2_eq_2)
  then have st: "set_refcounts os im [(address, cnt)] = Some (im2\<lparr>i_unrefClusters := i_unrefClusters im2 @ [a]\<rparr>, None)"
    by (simp add: refcount_fuel_def)
  have used: "a \<in> rc_used (i_rc im'')" if "vc_data (rc_table (i_rc im'')) = vc_data (rc_table rc2)" for im''
    using that second(2,3) assms(7) nth_mem [OF second(3)] by (simp add: rc_used_def)
  show ?thesis
    by (rule exI, rule conjI, rule st) (use used Flush_avail in \<open>fastforce simp: im2_def\<close>)
qed

text \<open>The example image with its block of counts at 1536.\<close>

definition demo_counted :: image where
  "demo_counted = (demo_image False)\<lparr>i_rc := demo_counts\<lparr>rc_table := vectorCacheFromArray [1536]\<rparr>\<rparr>"

lemma demo_counted_core: "core_ok {0, 512, 1024, 1536} demo_counted"
proof -
  let ?rc = "demo_counts\<lparr>rc_table := vectorCacheFromArray [1536]\<rparr>"
  have f: "i_rf demo_counted = demo_rf" "i_header demo_counted = demo_header" "i_rc demo_counted = ?rc" "pool_of demo_counted = pool_of (demo_image False)"
    by (simp_all add: demo_counted_def demo_image_def demo_marked pool_of_def demo_counts_def)
  have d: "i_rf (demo_image False) = demo_rf" "i_header (demo_image False) = demo_header" by (simp_all add: demo_image_def demo_marked)
  have "rc_ok demo_header demo_rf ?rc"
    using demo_disk(4) by (intro rc_okI) (simp_all add: demo_counts_def vectorCacheFromArray_def lru_new, simp_all add: demo_header_def)
  moreover have "rc_used ?rc = {1536}" "rc_maxValidClusterOffset ?rc = 130560" by (auto simp: rc_used_def demo_counts_def vectorCacheFromArray_def)
  moreover note core_okD [OF img_invD(1) [OF demo_inv], unfolded d]
  ultimately show ?thesis by (simp add: core_ok_def f) (simp add: demo_image_def demo_counts_def)
qed

theorem live_count_block_reused_witness:
  "\<exists>im'. set_refcounts healthy_os demo_counted [(1024, 1)] = Some (im', None)
     \<and> (\<forall>ks bs im''. Flush healthy_os ks bs im' = Some (im'', None) \<longrightarrow> 1536 \<in> set (i_availClusters im'') \<and> 1536 \<in> rc_used (i_rc im''))"
proof -
  have i: "0 = 1024 div h_clusterSize (i_header demo_counted) div rc_perBlock (i_rc demo_counted)"
    by (simp add: demo_counted_def demo_image_def demo_header_def demo_counts_def)
  have v: "vc_data (rc_table (i_rc demo_counted)) ! 0 = 1536" "lru_map (rc_cache (i_rc demo_counted)) 0 = None" "0 \<notin> set (rc_evicted (i_rc demo_counted))"
    by (simp_all add: demo_counted_def demo_counts_def vectorCacheFromArray_def lru_new)
  show ?thesis
    using live_count_block_reused [OF demo_counted_core _ healthy_os_ok(2,1) i v(1) _ v(2,3), of 1] by simp
qed

end
