(* ===== verification/Spec2Isabelle.thy ===== *)
theory Spec2Isabelle
  imports Backup Bitmap RestoreTarget ExFat FatVolume ExtVolume NtfsVolume XfsVolume CountReuse
begin

text \<open>
  Verification of the drpkg disaster-recovery package (Go).

  \<^bold>\<open>The program.\<close>  A backup of a disk runs as tasks of the engine of \<^verbatim>\<open>src/backup\<close>, which schedules
  them with dependencies, retries, pauses, watchers and a concurrency limit.  A task copies a file
  system: a parser of \<^verbatim>\<open>src/disk/filesystem/*\<close> reads the partition through the region reader of
  \<^verbatim>\<open>src/extend/fs.go\<close> and fills the bitmap of used blocks of \<^verbatim>\<open>src/disk/filesystem/bitmap\<close>, whose
  \<open>MirrorFs\<close> copies the marked blocks.  \<^verbatim>\<open>src/disk/restore\<close> writes the blocks back, each granule once.
  Images of disks are qcow2 files (\<^verbatim>\<open>src/disk/image/qcow2\<close>): a header, a two-level table from guest addresses
  to clusters with a write-back cache, and reference counts.

  \<^bold>\<open>Theories.\<close>
  \<^item> \<open>Prelude\<close>: Go's integers with the wrap-around written out, errors as values (\<open>gerror\<close>, a result
    is \<open>Inl\<close> an error or \<open>Inr\<close> a value), lemmas on association lists.
  \<^item> \<open>BackupTask\<close> (\<^verbatim>\<open>state.go, task.go, watcher.go, progress.go, events.go\<close>: the states, the checks of a
    task, the pause gate, the event hub); \<open>BackupEngine\<close> (\<^verbatim>\<open>engine.go, handle.go, lock_other.go\<close>:
    one definition per lock region, over the record \<open>Engine\<close> with its table of items);
    \<open>BackupFinalize\<close>, \<open>BackupInv\<close> and \<open>BackupOps\<close> (the engine's invariant and its preservation by
    every lock region); \<open>BackupSystem\<close> (scheduler, workers and watchers as program counters, an
    executable step and the reachable states); \<open>BackupSafety\<close> (the invariant of the running system,
    by rule induction); \<open>Backup\<close> (the properties: the fate of a task, one worker per task, launch
    only after the dependencies, cascading failure, the concurrency limit, no cycles, shutdown).
  \<^item> \<open>Roaring\<close> (the compressed bitmap library, which is not part of the sources, as a record of
    operations with the laws the code relies on, and a list implementation that satisfies them);
    \<open>FsBitmap\<close> (\<^verbatim>\<open>bitmap.go\<close>: 64-bit positions split into segments of \<open>2^32\<close> bits); \<open>FsBitmapLaws\<close>
    (the locale \<open>block_set\<close> of bitmaps that refine a set of blocks, interpreted on \<open>FsBitmap\<close>);
    \<open>Mirror\<close> (\<open>MirrorFs\<close>); \<open>Bitmap\<close> (the properties).
  \<^item> \<open>Restore\<close> (\<^verbatim>\<open>disk/restore/bitmap.go, restore.go\<close>: the bitmap of restored granules, \<open>OpenPath\<close>,
    \<open>Restore\<close>, \<open>Stats\<close>, \<open>Close\<close>); \<open>RestoreLaws\<close> (the searches and the marking on sets of granules);
    \<open>RestoreTarget\<close> (the invariant of a target, what a call writes, that it writes nothing twice,
    its behaviour on a failed write, and three places where the code does not do what it says).
  \<^item> \<open>Region\<close> (results with a branch for a panic, little-endian decoding, \<open>FsRegionReader\<close> and the locale
    of readers the parsers share).
  \<^item> \<open>ExFat\<close> (\<^verbatim>\<open>raw\<close> and \<^verbatim>\<open>exfat\<close>), \<open>Fat\<close> and \<open>FatVolume\<close> (\<^verbatim>\<open>fat\<close>), \<open>ExtFs\<close>, \<open>ExtFsLaws\<close> and
    \<open>ExtVolume\<close> (\<^verbatim>\<open>extfs\<close>): one definition per function of the parser and one per loop of \<open>Dump\<close>; each
    volume theory shows which blocks the returned bitmap marks, as a closed description over the
    bytes of the volume, and evaluates the parser on a small volume.
  \<^item> \<open>Ntfs\<close> (\<^verbatim>\<open>ntfs\<close>: the boot sector, FILE records, attributes and run lists, with every slice expression
    as an operation that can panic); \<open>NtfsLaws\<close> (checked arithmetic is exact, decoding a run list inverts
    encoding it, the iteration guard never fires); \<open>NtfsRecord\<close> (the update-sequence correction, and that no
    record makes the parser panic); \<open>NtfsVolume\<close> (the returned bitmap is the contents of \<open>$Bitmap\<close>).
  \<^item> \<open>Xfs\<close> (\<^verbatim>\<open>xfs\<close>: operations that thread the parser, with \<open>None\<close> for a recursion that has not ended); \<open>XfsLaws\<close>
    (what the reads return, the free list, and the records of a tree as an inductive relation that the walk
    clears exactly); \<open>XfsVolume\<close> (the blocks that stay marked, when the walk ends and when it does not).
  \<^item> \<open>LinkedList\<close> (\<^verbatim>\<open>linked_list.go\<close>: cells in a store, so that pointers can be shared; the locale
    \<open>pointer_queue\<close> of queues whose elements are removed by pointer, interpreted on the list) and \<open>LruCache\<close>
    (\<^verbatim>\<open>lru_cache.go\<close>: the cache refines a bounded list of entries in the order of their use); \<open>QcowFile\<close>
    (\<^verbatim>\<open>qcow_raw_file.go\<close>: tables of big-endian words in a file, over the system calls \<open>os_calls\<close>);
    \<open>QcowHeader\<close> and \<open>QcowHeaderLaws\<close> (\<^verbatim>\<open>qcow2header.go\<close>); \<open>PointerTable\<close> (\<^verbatim>\<open>pointer_table_caches.go\<close>);
    \<open>PointerLaws\<close> and \<open>PointerCache\<close> (the invariant of the tables, the image in memory and the image on
    disk, and what each operation does to them, relative to the locale \<open>cluster_source\<close> of sources of
    fresh clusters); \<open>QcowAlloc\<close> (\<open>getNewCluster\<close>, which interprets that locale); \<open>QcowTables\<close> (the properties:
    updates are read back and survive neither too early nor too late, writing back and opening again).
  \<^item> \<open>RefCount\<close> (\<^verbatim>\<open>referenceCount.go\<close>: the counts with a cache of blocks, and without), \<open>RefCountLaws\<close> and \<open>RefCountSet\<close>
    (setting a count writes only into clusters of counts and asks for a cluster at most once per block);
    \<open>QcowImage\<close> (\<^verbatim>\<open>qcow2.go\<close>: \<open>ReadAt\<close>, \<open>WriteAt\<close>, \<open>Flush\<close> and all they call; an image is a record, a chain of backing images a
    list); \<open>ImageAlloc\<close> (taking clusters and setting counts end, and write only into blocks of counts and clusters that
    were not in use); \<open>ImageRead\<close> (the locales \<open>byte_source\<close>, what an image expects of the image below it, and
    \<open>layered_read\<close>, the read loop over it); \<open>ImageChain\<close> (a chain of read-only images is a byte source, by induction
    on its length); \<open>ImageInv\<close> (the invariant: clusters of tables, of counts and of guest data are different clusters in
    use); \<open>ImageWrite\<close> and \<open>ImageSpec\<close> (finding or making a cluster changes no guest byte; the write loop); \<open>ImageGuest\<close>
    (the properties of reading and writing); \<open>CountReuse\<close> (a cluster of counts in use is offered for new data).

  \<^bold>\<open>Bounds and fuel.\<close>  The mutual recursion of \<open>finalizeLocked\<close> and \<open>onTerminalLocked\<close> is
  \<open>finalizeN\<close> with the number of unfinished tasks as fuel; \<open>finalize_equation\<close> shows that this is
  enough.  \<open>mirror_loop\<close> has the number of blocks plus one, \<open>restore_loop\<close> the last granule plus one
  rounds: every round moves the position forward, and running out is \<open>None\<close>, which the properties
  exclude.  The exFAT directory walk has the code's own limit of \<open>2^20\<close> clusters.  The walk over the trees of XFS has the number of levels as fuel, at most
  \<open>2^32\<close> (\<open>xfs_dump_ends\<close>).  The recursion of \<open>setClusterRefcount\<close> has the
  number of blocks plus one as fuel, because every level gives one more block a cluster of its own
  (\<open>image_setClusterRefcount_ok\<close>); the loops of \<open>ReadAt\<close> and \<open>WriteAt\<close> have the number of bytes plus one.

  \<^bold>\<open>Parameters.\<close>  The roaring library, the file system calls (open, size, write errors), the host's
  lock table and the clock are arguments.  The order in which Go visits the keys of a map is an
  argument of \<open>sync_tables\<close>, and the properties hold for every order.

  \<^bold>\<open>Not modelled.\<close>  \<open>SubmitSync\<close> and \<open>Handle.Wait\<close>, which only block on modelled operations; the
  opening, creating and closing of qcow2 images and the rebuilding of their reference counts; \<^verbatim>\<open>disk/table\<close>, the other parsers
  (\<^verbatim>\<open>btrfs, apfs\<close>) and \<^verbatim>\<open>disk/scan\<close>; generated code (\<^verbatim>\<open>rpc\<close>, the
  PCI table), and the packages that drive the operating system by external commands (\<^verbatim>\<open>ps, qemu,
  command\<close>), which have no logic apart from these calls.
\<close>

end
